(* ===== verification/Prelude.thy ===== *)
theory Prelude
  imports Main "HOL-Library.Word" "HOL-Library.AList" "HOL-Library.Sublist" "HOL-Library.Char_ord"
    "HOL-Library.List_Lexorder"
begin

text \<open>
  Shared vocabulary of the development.

  \<^item> Values of the language: bytes (\<open>8 word\<close>), strings, the safe integers of
    JavaScript, its ordered \<open>Map\<close> objects and the string operations the sources call
    (\<open>split\<close>, \<open>join\<close>, \<open>replaceAll\<close>, \<open>startsWith\<close>, \<open>endsWith\<close>, \<open>trim\<close>,
    \<open>toLowerCase\<close>, number printing).
  \<^item> Results: an operation that throws returns a value of \<open>'e + 'a\<close>, with \<open>Inl\<close> for
    the thrown error; \<open>and_then\<close> and \<open>guard_else\<close> sequence such operations.
  \<^item> Generic lemmas on association lists, prefixes and lists that several components use,
    collected where automation should pick them up.

  A JavaScript string is represented by its UTF-8 encoding, a list of 8-bit characters:
  \<open>length\<close> of the model is \<open>Buffer.byteLength(value, "utf8")\<close>, and every operation that only
  looks at ASCII characters acts on the encoding exactly as on the string. Strings with lone
  surrogates have no UTF-8 encoding and are outside the model.
\<close>

named_theorems result_simps \<open>unfolding of the error monad\<close>
named_theorems jsmap_simps \<open>ordered Map objects as association lists\<close>
named_theorems string_simps \<open>string operations\<close>

type_synonym byte = "8 word"
type_synonym bytes = "byte list"
type_synonym ('k, 'v) jsmap = "('k \<times> 'v) list"

section \<open>Results\<close>

definition and_then :: "'e + 'a \<Rightarrow> ('a \<Rightarrow> 'e + 'b) \<Rightarrow> 'e + 'b" where
  [result_simps]: "and_then r f = (case r of Inl e \<Rightarrow> Inl e | Inr x \<Rightarrow> f x)"

definition guard_else :: "bool \<Rightarrow> 'e \<Rightarrow> 'e + unit" where
  [result_simps]: "guard_else c e = (if c then Inr () else Inl e)"

definition is_ok :: "'e + 'a \<Rightarrow> bool" where
  "is_ok r = (case r of Inl _ \<Rightarrow> False | Inr _ \<Rightarrow> True)"

section \<open>Numbers\<close>

definition max_safe_integer :: int where
  "max_safe_integer = 9007199254740991"

definition is_safe_integer :: "int \<Rightarrow> bool" where
  "is_safe_integer n \<longleftrightarrow> - max_safe_integer \<le> n \<and> n \<le> max_safe_integer"

text \<open>Decimal printing of a non-negative integer, as \<open>String(n)\<close> does for safe integers.\<close>

definition digit_char :: "nat \<Rightarrow> char" where
  "digit_char d = char_of (48 + d)"

fun show_nat :: "nat \<Rightarrow> string" where
  "show_nat n = (if n < 10 then [digit_char n] else show_nat (n div 10) @ [digit_char (n mod 10)])"

declare show_nat.simps [simp del]

definition show_int :: "int \<Rightarrow> string" where
  "show_int i = (if i < 0 then CHR ''-'' # show_nat (nat (- i)) else show_nat (nat i))"

fun read_nat :: "nat \<Rightarrow> string \<Rightarrow> nat" where
  "read_nat acc [] = acc"
| "read_nat acc (c # cs) = read_nat (10 * acc + (of_char c - 48)) cs"

definition is_digit :: "char \<Rightarrow> bool" where
  "is_digit c \<longleftrightarrow> CHR ''0'' \<le> c \<and> c \<le> CHR ''9''"

section \<open>Strings\<close>

definition is_upper :: "char \<Rightarrow> bool" where
  "is_upper c \<longleftrightarrow> CHR ''A'' \<le> c \<and> c \<le> CHR ''Z''"

definition is_lower :: "char \<Rightarrow> bool" where
  "is_lower c \<longleftrightarrow> CHR ''a'' \<le> c \<and> c \<le> CHR ''z''"

definition is_alpha :: "char \<Rightarrow> bool" where
  "is_alpha c \<longleftrightarrow> is_upper c \<or> is_lower c"

definition is_alnum :: "char \<Rightarrow> bool" where
  "is_alnum c \<longleftrightarrow> is_alpha c \<or> is_digit c"

definition lower_char :: "char \<Rightarrow> char" where
  "lower_char c = (if is_upper c then char_of ((of_char c :: nat) + 32) else c)"

definition upper_char :: "char \<Rightarrow> char" where
  "upper_char c = (if is_lower c then char_of ((of_char c :: nat) - 32) else c)"

definition to_lower :: "string \<Rightarrow> string" where
  "to_lower s = map lower_char s"

definition to_upper :: "string \<Rightarrow> string" where
  "to_upper s = map upper_char s"

text \<open>The single characters that cannot be written in a string literal.\<close>

abbreviation backslash :: char where "backslash \<equiv> CHR 0x5C"
abbreviation newline :: char where "newline \<equiv> CHR 0x0A"
abbreviation return_char :: char where "return_char \<equiv> CHR 0x0D"
abbreviation nul_char :: char where "nul_char \<equiv> CHR 0x00"
abbreviation quote_char :: char where "quote_char \<equiv> CHR 0x27"
abbreviation dquote_char :: char where "dquote_char \<equiv> CHR 0x22"

definition is_control :: "char \<Rightarrow> bool" where
  "is_control c \<longleftrightarrow> c \<le> CHR 0x1F \<or> c = CHR 0x7F"

definition has_line_break :: "string \<Rightarrow> bool" where
  "has_line_break s \<longleftrightarrow> nul_char \<in> set s \<or> return_char \<in> set s \<or> newline \<in> set s"

text \<open>\<open>s.split(sep)\<close> for a predicate on single characters; always at least one piece.\<close>

fun split_on :: "(char \<Rightarrow> bool) \<Rightarrow> string \<Rightarrow> string list" where
  "split_on p [] = [[]]"
| "split_on p (c # cs) =
     (if p c then [] # split_on p cs
      else case split_on p cs of [] \<Rightarrow> [[c]] | x # xs \<Rightarrow> (c # x) # xs)"

fun join_with :: "string \<Rightarrow> string list \<Rightarrow> string" where
  "join_with sep [] = []"
| "join_with sep [x] = x"
| "join_with sep (x # y # ys) = x @ sep @ join_with sep (y # ys)"

text \<open>\<open>s.replaceAll(c, r)\<close> for a one-character pattern.\<close>

definition replace_char :: "char \<Rightarrow> string \<Rightarrow> string \<Rightarrow> string" where
  "replace_char c r s = concat (map (\<lambda>x. if x = c then r else [x]) s)"

text \<open>
  \<open>s.trim().length === 0\<close>: the string consists of white space and line terminators only.
  White space beyond ASCII is recognised in its UTF-8 form: U+00A0, U+1680, U+2000 to
  U+200A, U+2028, U+2029, U+202F, U+205F, U+3000 and U+FEFF.
\<close>

fun is_blank :: "string \<Rightarrow> bool" where
  "is_blank [] = True"
| "is_blank (a # s) =
     (if a = CHR 0x20 \<or> (CHR 0x09 \<le> a \<and> a \<le> CHR 0x0D) then is_blank s
      else case s of
        [] \<Rightarrow> False
      | b # s1 \<Rightarrow>
         (if a = CHR 0xC2 \<and> b = CHR 0xA0 then is_blank s1
          else case s1 of
            [] \<Rightarrow> False
          | c # s2 \<Rightarrow>
             ((a = CHR 0xE1 \<and> b = CHR 0x9A \<and> c = CHR 0x80)
               \<or> (a = CHR 0xE2 \<and> b = CHR 0x80 \<and>
                   ((CHR 0x80 \<le> c \<and> c \<le> CHR 0x8A) \<or> c = CHR 0xA8 \<or> c = CHR 0xA9 \<or> c = CHR 0xAF))
               \<or> (a = CHR 0xE2 \<and> b = CHR 0x81 \<and> c = CHR 0x9F)
               \<or> (a = CHR 0xE3 \<and> b = CHR 0x80 \<and> c = CHR 0x80)
               \<or> (a = CHR 0xEF \<and> b = CHR 0xBB \<and> c = CHR 0xBF)) \<and> is_blank s2))"

text \<open>\<open>Buffer.from(s, "utf8")\<close>.\<close>

definition buffer_from :: "string \<Rightarrow> bytes" where
  "buffer_from s = map of_char s"

definition char_of_byte :: "byte \<Rightarrow> char" where
  "char_of_byte b = char_of (unat b)"

section \<open>Generic lemmas\<close>

lemma and_then_Inr [simp]: "and_then (Inr x) f = f x"
  and and_then_Inl [simp]: "and_then (Inl e) f = Inl e"
  by (simp_all add: and_then_def)

lemma guard_else_simps [simp]: "guard_else True e = Inr ()" "guard_else False e = Inl e"
  by (simp_all add: guard_else_def)

lemma and_then_eq_Inr: "and_then r f = Inr y \<longleftrightarrow> (\<exists>x. r = Inr x \<and> f x = Inr y)"
  by (auto simp: and_then_def split: sum.splits)

lemma guard_else_eq_Inr: "guard_else c e = Inr u \<longleftrightarrow> c"
  by (simp add: guard_else_def)

lemma guard_then: "and_then (guard_else c e) f = (if c then f () else Inl e)"
  by simp

lemma if_Inl_eq: "(if c then Inl e else r) = Inr y \<longleftrightarrow> \<not> c \<and> r = Inr y"
  by simp

lemmas result_elims = and_then_eq_Inr guard_else_eq_Inr

lemma is_ok_simps [simp]: "is_ok (Inl e) = False" "is_ok (Inr x) = True"
  by (simp_all add: is_ok_def)

lemma is_ok_iff: "is_ok r \<longleftrightarrow> (\<exists>x. r = Inr x)"
  by (cases r) simp_all

subsection \<open>Ordered maps\<close>

lemma map_of_None_notin: "map_of m k = None \<longleftrightarrow> k \<notin> fst ` set m"
  by (simp add: map_of_eq_None_iff)

lemma length_update_new [jsmap_simps]:
  "map_of m k = None \<Longrightarrow> length (AList.update k v m) = Suc (length m)"
  by (induction m) (auto split: if_splits)

lemma length_update_old [jsmap_simps]:
  "map_of m k = Some w \<Longrightarrow> length (AList.update k v m) = length m"
  by (induction m) (auto split: if_splits)

lemma update_new_append:
  "map_of m k = None \<Longrightarrow> AList.update k v m = m @ [(k, v)]"
  by (induction m) (auto split: if_splits)

lemma set_update_new:
  "map_of m k = None \<Longrightarrow> set (AList.update k v m) = insert (k, v) (set m)"
  by (simp add: update_new_append)

lemma distinct_keys_update [jsmap_simps]:
  "distinct (map fst m) \<Longrightarrow> distinct (map fst (AList.update k v m))"
  by (rule distinct_update)

lemma distinct_keys_filter [jsmap_simps]:
  "distinct (map fst m) \<Longrightarrow> distinct (map fst (filter P m))"
  by (induction m) auto

lemma distinct_keys_delete [jsmap_simps]:
  "distinct (map fst m) \<Longrightarrow> distinct (map fst (AList.delete k m))"
  by (rule distinct_delete)

lemma length_delete_present:
  "distinct (map fst m) \<Longrightarrow> map_of m k = Some v \<Longrightarrow> Suc (length (AList.delete k m)) = length m"
proof (induction m)
  case Nil
  then show ?case by simp
next
  case (Cons a m)
  show ?case
  proof (cases "fst a = k")
    case True
    with Cons.prems(1) have "k \<notin> fst ` set m" by (cases a) auto
    then have "AList.delete k m = m" by (auto simp: AList.delete_eq filter_id_conv image_iff)
    with True show ?thesis by (cases a) (simp add: AList.delete_eq)
  next
    case False
    with Cons show ?thesis by (auto simp: AList.delete_eq)
  qed
qed

lemma length_delete_le [simp]: "length (AList.delete k m) \<le> length m"
  by (simp add: AList.delete_eq)

lemma map_of_filter_keys:
  "distinct (map fst m) \<Longrightarrow>
   map_of (filter P m) k = (case map_of m k of None \<Rightarrow> None | Some v \<Rightarrow> if P (k, v) then Some v else None)"
proof (induction m)
  case Nil
  then show ?case by simp
next
  case (Cons a m)
  then show ?case
    by (cases a) (auto simp: map_of_eq_None_iff split: option.splits)
qed

text \<open>Replacing the value of a present key touches that entry only.\<close>

lemma set_update_old:
  "distinct (map fst m) \<Longrightarrow> map_of m k = Some w \<Longrightarrow>
   set (AList.update k v m) = insert (k, v) (set m - {(k, w)})"
proof (induction m)
  case Nil
  then show ?case by simp
next
  case (Cons a m)
  obtain x y where a: "a = (x, y)" by (cases a)
  show ?case
  proof (cases "x = k")
    case True
    with Cons.prems a have "y = w" "\<And>z. (k, z) \<notin> set m"
      by (auto simp: image_iff)
    with True a show ?thesis by auto
  next
    case False
    with Cons a have "set (AList.update k v m) = insert (k, v) (set m - {(k, w)})"
      by auto
    with False a show ?thesis by auto
  qed
qed

subsection \<open>Characters and bytes\<close>

lemma char_of_byte_of_char [simp]: "char_of_byte (of_char c) = c"
proof -
  have "unat (of_char c :: byte) = (of_char c :: nat)"
    by (cases c) (auto simp: of_char_Char unat_of_nat)
  then show ?thesis by (simp add: char_of_byte_def)
qed

text \<open>Character classes by code point.\<close>

lemma char_code_simps:
  "is_upper c \<longleftrightarrow> 65 \<le> (of_char c :: nat) \<and> (of_char c :: nat) \<le> 90"
  "is_lower c \<longleftrightarrow> 97 \<le> (of_char c :: nat) \<and> (of_char c :: nat) \<le> 122"
  "is_digit c \<longleftrightarrow> 48 \<le> (of_char c :: nat) \<and> (of_char c :: nat) \<le> 57"
  "is_control c \<longleftrightarrow> (of_char c :: nat) \<le> 31 \<or> (of_char c :: nat) = 127"
  by (simp_all add: is_upper_def is_lower_def is_digit_def is_control_def less_eq_char_def
      flip: of_char_eq_iff [where 'a = nat])

lemma lower_char_code: "(of_char (lower_char c) :: nat) = (if is_upper c then of_char c + 32 else of_char c)"
  by (auto simp: lower_char_def char_code_simps)

lemma upper_char_code:
  "(of_char (upper_char c) :: nat) = (if is_lower c then of_char c - 32 else of_char c)"
  by (auto simp: upper_char_def char_code_simps)

lemma upper_char_upper:
  assumes "is_alpha c"
  shows "is_upper (upper_char c)"
  using assms unfolding is_alpha_def char_code_simps upper_char_code by auto

lemma upper_chars:
  assumes "is_upper d"
  shows "is_alpha d" "upper_char d = d" "\<not> is_control d" "d \<noteq> CHR ''/''" "d \<noteq> backslash"
proof -
  have "\<not> is_lower d" using assms unfolding char_code_simps by auto
  then show "upper_char d = d" by (simp add: upper_char_def)
  show "is_alpha d" using assms by (simp add: is_alpha_def)
  show "\<not> is_control d" using assms unfolding char_code_simps by auto
  show "d \<noteq> CHR ''/''" "d \<noteq> backslash" using assms by (auto simp: char_code_simps)
qed

text \<open>Printed numbers consist of digits.\<close>

lemma digit_char_digit: "d < 10 \<Longrightarrow> is_digit (digit_char d)"
proof -
  assume "d < 10"
  have "list_all (\<lambda>d. is_digit (digit_char d)) [0..<10]" by code_simp
  with \<open>d < 10\<close> show ?thesis unfolding list_all_iff by (metis atLeastLessThan_iff set_upt zero_le)
qed

lemma show_nat_digits: "c \<in> set (show_nat n) \<Longrightarrow> is_digit c"
proof (induction n rule: show_nat.induct)
  case (1 n)
  then show ?case
    by (subst (asm) (2) show_nat.simps) (auto simp: digit_char_digit split: if_splits)
qed

text \<open>A decidable property of a byte holds when it holds for the 256 values.\<close>

lemma byte_exhaust:
  assumes "list_all (\<lambda>n. P (word_of_nat n :: byte)) [0..<256]"
  shows "P b"
proof -
  have "unat b < 256" using unsigned_less [of b, where 'a = nat] by simp
  then have "unat b \<in> set [0..<256]" by simp
  with assms have "P (word_of_nat (unat b))" unfolding list_all_iff by (rule bspec)
  then show ?thesis by simp
qed

text \<open>The text of \<open>toString("hex")\<close>.\<close>

definition hex_digit :: "nat \<Rightarrow> char" where
  "hex_digit n = (if n < 10 then char_of (48 + n) else char_of (87 + n))"

definition hex :: "bytes \<Rightarrow> string" where
  "hex bs = concat (map (\<lambda>b. [hex_digit (unat b div 16), hex_digit (unat b mod 16)]) bs)"

end
