(* ===== verification/Errors.thy ===== *)
theory Errors
  imports Prelude
begin

text \<open>
  \<^verbatim>\<open>src/src/shared/errors.ts\<close>: the gateway's error codes, their JSON-RPC numbers and the public
  form in which an error crosses the pipe. \<open>thrown\<close> is the type of every value the modelled
  code throws: a \<open>GatewayError\<close> or one of the other error classes of the sources. The
  lemmas show that only a \<open>GatewayError\<close> shows its own text to a client.
\<close>

section \<open>Definitions\<close>

datatype gateway_code =
    InvalidParams | Unauthorized | ProtocolVersionMismatch | ConfigInvalid | DaemonNotActive
  | TargetNotFound | TargetDisabled | CommandDenied | ExecutionNotFound | ExecutionLimitReached
  | TransferDenied | TransferFailed | ChecksumMismatch | SftpUnavailable | ProbeFailed
  | OutputNotFound | OutputExpired | AuditUnavailable | InternalError

definition json_rpc_invalid_params :: int where "json_rpc_invalid_params = - 32602"
definition json_rpc_method_not_found :: int where "json_rpc_method_not_found = - 32601"
definition json_rpc_internal_error :: int where "json_rpc_internal_error = - 32603"

fun gateway_code_name :: "gateway_code \<Rightarrow> string" where
  "gateway_code_name InvalidParams = ''INVALID_PARAMS''"
| "gateway_code_name Unauthorized = ''UNAUTHORIZED''"
| "gateway_code_name ProtocolVersionMismatch = ''PROTOCOL_VERSION_MISMATCH''"
| "gateway_code_name ConfigInvalid = ''CONFIG_INVALID''"
| "gateway_code_name DaemonNotActive = ''DAEMON_NOT_ACTIVE''"
| "gateway_code_name TargetNotFound = ''TARGET_NOT_FOUND''"
| "gateway_code_name TargetDisabled = ''TARGET_DISABLED''"
| "gateway_code_name CommandDenied = ''COMMAND_DENIED''"
| "gateway_code_name ExecutionNotFound = ''EXECUTION_NOT_FOUND''"
| "gateway_code_name ExecutionLimitReached = ''EXECUTION_LIMIT_REACHED''"
| "gateway_code_name TransferDenied = ''TRANSFER_DENIED''"
| "gateway_code_name TransferFailed = ''TRANSFER_FAILED''"
| "gateway_code_name ChecksumMismatch = ''CHECKSUM_MISMATCH''"
| "gateway_code_name SftpUnavailable = ''SFTP_UNAVAILABLE''"
| "gateway_code_name ProbeFailed = ''PROBE_FAILED''"
| "gateway_code_name OutputNotFound = ''OUTPUT_NOT_FOUND''"
| "gateway_code_name OutputExpired = ''OUTPUT_EXPIRED''"
| "gateway_code_name AuditUnavailable = ''AUDIT_UNAVAILABLE''"
| "gateway_code_name InternalError = ''INTERNAL_ERROR''"

fun rpc_code_by_gateway_code :: "gateway_code \<Rightarrow> int" where
  "rpc_code_by_gateway_code InvalidParams = json_rpc_invalid_params"
| "rpc_code_by_gateway_code Unauthorized = - 32001"
| "rpc_code_by_gateway_code ProtocolVersionMismatch = - 32002"
| "rpc_code_by_gateway_code ConfigInvalid = - 32010"
| "rpc_code_by_gateway_code DaemonNotActive = - 32011"
| "rpc_code_by_gateway_code TargetNotFound = - 32020"
| "rpc_code_by_gateway_code TargetDisabled = - 32021"
| "rpc_code_by_gateway_code CommandDenied = - 32022"
| "rpc_code_by_gateway_code ExecutionNotFound = - 32030"
| "rpc_code_by_gateway_code ExecutionLimitReached = - 32031"
| "rpc_code_by_gateway_code TransferDenied = - 32032"
| "rpc_code_by_gateway_code TransferFailed = - 32033"
| "rpc_code_by_gateway_code ChecksumMismatch = - 32034"
| "rpc_code_by_gateway_code SftpUnavailable = - 32035"
| "rpc_code_by_gateway_code ProbeFailed = - 32036"
| "rpc_code_by_gateway_code OutputNotFound = - 32040"
| "rpc_code_by_gateway_code OutputExpired = - 32041"
| "rpc_code_by_gateway_code AuditUnavailable = - 32050"
| "rpc_code_by_gateway_code InternalError = json_rpc_internal_error"

text \<open>\<open>details\<close> maps names to strings, numbers, booleans or null.\<close>

datatype detail = DString string | DNumber int | DBool bool | DNull

record gateway_error =
  ge_code :: gateway_code
  ge_message :: string
  ge_rpcCode :: int
  ge_details :: "(string, detail) jsmap option"

text \<open>The \<open>GatewayError\<close> constructor: an explicit \<open>rpcCode\<close> overrides the table.\<close>

definition new_gateway_error ::
  "gateway_code \<Rightarrow> string \<Rightarrow> int option \<Rightarrow> (string, detail) jsmap option \<Rightarrow> gateway_error" where
  "new_gateway_error code message rpcCode details =
     \<lparr>ge_code = code, ge_message = message,
      ge_rpcCode = (case rpcCode of None \<Rightarrow> rpc_code_by_gateway_code code | Some r \<Rightarrow> r),
      ge_details = details\<rparr>"

datatype limit_kind = LimitBytes | LimitEntries

datatype transfer_path_code =
  InvalidPath | PathNotFound | OutsideRoot | UnsafeLink | UnsafeFileType | WrongEntryType

datatype reload_code = ActiveExecutions | ReloadInProgress | ServiceClosing

datatype thrown =
    Gateway gateway_error
  | RangeError string
  | TypeError string
  | PlainError string
  | OutputLimitExceeded limit_kind int int int
    \<comment> \<open>kind, \<open>maxBytes\<close>, \<open>currentBytes\<close>, \<open>attemptedBytes\<close>\<close>
  | OutputSinkClosed
  | TransferPathError transfer_path_code string
  | ReloadError reload_code string
  | SshExecutionError string

definition gateway :: "gateway_code \<Rightarrow> string \<Rightarrow> thrown" where
  "gateway code message = Gateway (new_gateway_error code message None None)"

definition gateway_with :: "gateway_code \<Rightarrow> string \<Rightarrow> (string, detail) jsmap \<Rightarrow> thrown" where
  "gateway_with code message details = Gateway (new_gateway_error code message None (Some details))"

record public_error =
  pe_code :: int
  pe_message :: string
  pe_gatewayCode :: gateway_code
  pe_details :: "(string, detail) jsmap option"

definition toPublicError :: "thrown \<Rightarrow> public_error" where
  "toPublicError error =
     (case error of
        Gateway g \<Rightarrow>
          \<lparr>pe_code = ge_rpcCode g, pe_message = ge_message g,
           pe_gatewayCode = ge_code g, pe_details = ge_details g\<rparr>
      | _ \<Rightarrow>
          \<lparr>pe_code = json_rpc_internal_error, pe_message = ''Internal gateway error'',
           pe_gatewayCode = InternalError, pe_details = None\<rparr>)"

definition is_gateway :: "thrown \<Rightarrow> bool" where
  "is_gateway e = (case e of Gateway _ \<Rightarrow> True | _ \<Rightarrow> False)"

definition error_code :: "thrown \<Rightarrow> gateway_code option" where
  "error_code e = (case e of Gateway g \<Rightarrow> Some (ge_code g) | _ \<Rightarrow> None)"

section \<open>Lemmas\<close>

lemma error_code_gateway [simp]:
  "error_code (gateway c m) = Some c" "error_code (gateway_with c m d) = Some c"
  by (simp_all add: error_code_def gateway_def gateway_with_def new_gateway_error_def)

lemma is_gateway_gateway [simp]: "is_gateway (gateway c m)" "is_gateway (gateway_with c m d)"
  by (simp_all add: is_gateway_def gateway_def gateway_with_def)

lemma rpc_code_inject: "rpc_code_by_gateway_code c = rpc_code_by_gateway_code d \<Longrightarrow> c = d"
  by (cases c; cases d)
    (simp_all add: json_rpc_invalid_params_def json_rpc_internal_error_def)

lemma gateway_code_name_inject: "gateway_code_name c = gateway_code_name d \<Longrightarrow> c = d"
  by (cases c; cases d) simp_all

section \<open>Properties\<close>

text \<open>
  What a client sees of an error. A gateway error keeps its code, and with the default
  number the code can be recovered from the number alone; every other error, whatever it
  carries, is shown as the same internal error.
\<close>

theorem public_error_hides_internal_errors:
  "(if is_gateway e
    then pe_gatewayCode (toPublicError e) = the (error_code e)
    else toPublicError e =
      \<lparr>pe_code = - 32603, pe_message = ''Internal gateway error'',
       pe_gatewayCode = InternalError, pe_details = None\<rparr>)
   \<and> (pe_code (toPublicError (gateway c m)) = pe_code (toPublicError (gateway d n)) \<longleftrightarrow> c = d)"
proof -
  have "pe_code (toPublicError (gateway c m)) = rpc_code_by_gateway_code c" for c m
    by (simp add: toPublicError_def gateway_def new_gateway_error_def)
  then show ?thesis
    using rpc_code_inject [of c d]
    by (auto simp: toPublicError_def is_gateway_def error_code_def json_rpc_internal_error_def
        split: thrown.splits)
qed

end
