(* ===== verification/Protocol.thy ===== *)
theory Protocol
  imports Errors
begin

text \<open>
  The vocabulary of \<^verbatim>\<open>src/src/shared/protocol.ts\<close> that the components share: the limits, the
  enumerations of the wire format as datatypes, and the textual patterns of aliases, target
  identifiers and opaque references as executable predicates. \<open>json\<close> is the type of
  a parsed JSON text.
\<close>

section \<open>Limits and enumerations\<close>

definition PROTOCOL_VERSION :: int where "PROTOCOL_VERSION = 8"
definition MAX_COMMAND_BYTES :: nat where "MAX_COMMAND_BYTES = 65536"
definition MAX_TIMEOUT_MS :: int where "MAX_TIMEOUT_MS = 3600000"
definition MAX_OUTPUT_READ_BYTES :: int where "MAX_OUTPUT_READ_BYTES = 65536"
definition MAX_INLINE_PREVIEW_BYTES :: int where "MAX_INLINE_PREVIEW_BYTES = 8192"

datatype platform = Windows | Linux | MacOS
datatype connection_mode = OpenSsh | AccessClientShare | TailscaleSsh
datatype policy_mode = AllowList | FullAccess | Deny | Presets
datatype transfer_mode = TransferDeny | TransferUpload | TransferDownload | TransferBidirectional
datatype transfer_scope = Restricted | AllPaths
datatype transfer_direction = Upload | Download | Sync
datatype exec_termination = ByExit | ByTimeout | ByCancel | ByOutputLimit | BySpawnError
datatype task_kind = ExecTask | UploadTask | DownloadTask | SyncTask
datatype task_state = Running | Succeeded | Failed | TimedOut | Cancelled
datatype out_stream = Stdout | Stderr

datatype json =
    JNull
  | JBool bool
  | JInt int \<comment> \<open>a number whose value is an integer\<close>
  | JFraction \<comment> \<open>any other number; the code only ever rejects it\<close>
  | JString string
  | JArray "json list"
  | JObject "(string \<times> json) list"

section \<open>Patterns\<close>

definition alias_char :: "char \<Rightarrow> bool" where
  "alias_char c \<longleftrightarrow> is_alnum c \<or> c = CHR ''.'' \<or> c = CHR ''_'' \<or> c = CHR ''-''"

text \<open>\<open>/^[A-Za-z0-9][A-Za-z0-9._-]{0,127}$/\<close>\<close>

definition TARGET_ALIAS_PATTERN :: "string \<Rightarrow> bool" where
  "TARGET_ALIAS_PATTERN s =
     (case s of [] \<Rightarrow> False | c # cs \<Rightarrow> is_alnum c \<and> list_all alias_char cs \<and> length cs \<le> 127)"

text \<open>\<open>/^[A-Za-z0-9_-]{43}$/\<close>, the form of run identifiers and output references.\<close>

definition opaque_char :: "char \<Rightarrow> bool" where
  "opaque_char c \<longleftrightarrow> is_alnum c \<or> c = CHR ''_'' \<or> c = CHR ''-''"

definition opaque_reference :: "string \<Rightarrow> bool" where
  "opaque_reference s \<longleftrightarrow> length s = 43 \<and> list_all opaque_char s"

text \<open>The name of the default group, four Chinese characters in UTF-8.\<close>

definition DEFAULT_TARGET_GROUP :: string where
  "DEFAULT_TARGET_GROUP =
     [CHR 0xE9, CHR 0xBB, CHR 0x98, CHR 0xE8, CHR 0xAE, CHR 0xA4,
      CHR 0xE5, CHR 0x88, CHR 0x86, CHR 0xE7, CHR 0xBB, CHR 0x84]"

text \<open>\<open>/^t-[a-f0-9]{32}$/\<close>\<close>

definition TARGET_ID_PATTERN :: "string \<Rightarrow> bool" where
  "TARGET_ID_PATTERN s \<longleftrightarrow>
     prefix ''t-'' s \<and> length s = 34
     \<and> list_all (\<lambda>c. is_digit c \<or> (CHR ''a'' \<le> c \<and> c \<le> CHR ''f'')) (drop 2 s)"

section \<open>Group names\<close>

text \<open>\<open>value.length\<close>: UTF-16 code units of the string a well-formed UTF-8 text stands for.\<close>

definition utf16_length :: "string \<Rightarrow> nat" where
  "utf16_length s =
     length (filter (\<lambda>c. \<not> (128 \<le> (of_char c :: nat) \<and> (of_char c :: nat) < 192)) s)
     + length (filter (\<lambda>c. 240 \<le> (of_char c :: nat)) s)"

text \<open>
  \<open>s.trim()\<close>: the longest blank prefix and the longest blank suffix are dropped. A blank text
  starts with a whole character, so neither cuts one in two.
\<close>

fun trim_end :: "string \<Rightarrow> string" where
  "trim_end [] = []"
| "trim_end (c # s) = (if is_blank (c # s) then [] else c # trim_end s)"

definition blank_prefix :: "string \<Rightarrow> nat" where
  "blank_prefix s = Max (set (filter (\<lambda>n. is_blank (take n s)) [0..<Suc (length s)]))"

definition js_trim :: "string \<Rightarrow> string" where
  "js_trim s = trim_end (drop (blank_prefix s) s)"

definition targetGroupSchema :: "string \<Rightarrow> string option" where
  "targetGroupSchema s =
     (let t = js_trim s in
      if \<not> list_ex is_control s \<and> 1 \<le> utf16_length t \<and> utf16_length t \<le> 64 then Some t else None)"

definition targetGroupCatalogSchema :: "string list \<Rightarrow> string list option" where
  "targetGroupCatalogSchema names =
     Option.bind (those (map targetGroupSchema names)) (\<lambda>groups.
     if DEFAULT_TARGET_GROUP \<notin> set groups \<and> length groups \<le> 1024 \<and> distinct groups then Some groups else None)"

definition publicDescriptionSchema :: "string \<Rightarrow> bool" where
  "publicDescriptionSchema s \<longleftrightarrow> 1 \<le> utf16_length s \<and> utf16_length s \<le> 256 \<and> \<not> list_ex is_control s"

end
