(* ===== verification/Quota.thy ===== *)
theory Quota
  imports Protocol
begin

text \<open>
  \<^verbatim>\<open>RetainedByteQuota\<close> of \<^verbatim>\<open>src/src/core/output-store.ts\<close>: how many bytes and how many entries
  of command output the gateway keeps on disk. \<open>byte_quota\<close> is the contract the output
  sinks rely on; the class is shown to satisfy it.
\<close>

section \<open>The class\<close>

record quota =
  q_maxBytes :: int
  q_maxEntries :: int
  q_bytesByReference :: "(string, int) jsmap"
  q_totalBytes :: int

record byte_reservation =
  br_grantedBytes :: int
  br_currentBytes :: int
  br_maxBytes :: int
  br_entryLimit :: "(int \<times> int) option" \<comment> \<open>\<open>currentEntries\<close>, \<open>maxEntries\<close>\<close>

definition new_quota :: "int \<Rightarrow> int \<Rightarrow> quota" where
  "new_quota maxBytes maxEntries =
     \<lparr>q_maxBytes = maxBytes, q_maxEntries = maxEntries, q_bytesByReference = [], q_totalBytes = 0\<rparr>"

definition q_references :: "quota \<Rightarrow> string list" where
  "q_references q = map fst (q_bytesByReference q)"

definition q_has :: "quota \<Rightarrow> string \<Rightarrow> bool" where
  "q_has q reference \<longleftrightarrow> map_of (q_bytesByReference q) reference \<noteq> None"

text \<open>The bytes held by a reference, \<open>get(reference) ?? 0\<close>.\<close>

definition q_held :: "quota \<Rightarrow> string \<Rightarrow> int" where
  "q_held q reference = (case map_of (q_bytesByReference q) reference of None \<Rightarrow> 0 | Some n \<Rightarrow> n)"

definition q_size :: "quota \<Rightarrow> int" where
  "q_size q = int (length (q_bytesByReference q))"

definition q_reserve :: "quota \<Rightarrow> string \<Rightarrow> int \<Rightarrow> byte_reservation \<times> quota" where
  "q_reserve q reference requestedBytes =
     (let currentBytes = q_totalBytes q in
      if requestedBytes > 0 \<and> \<not> q_has q reference \<and> q_size q \<ge> q_maxEntries q
      then (\<lparr>br_grantedBytes = 0, br_currentBytes = currentBytes, br_maxBytes = q_maxBytes q,
             br_entryLimit = Some (q_size q, q_maxEntries q)\<rparr>, q)
      else
        let grantedBytes = min requestedBytes (q_maxBytes q - currentBytes) in
        (\<lparr>br_grantedBytes = grantedBytes, br_currentBytes = currentBytes, br_maxBytes = q_maxBytes q,
          br_entryLimit = None\<rparr>,
         if grantedBytes > 0
         then q\<lparr>q_totalBytes := q_totalBytes q + grantedBytes,
               q_bytesByReference :=
                 AList.update reference (q_held q reference + grantedBytes) (q_bytesByReference q)\<rparr>
         else q))"

definition q_trackExisting :: "quota \<Rightarrow> string \<Rightarrow> int \<Rightarrow> thrown + quota" where
  "q_trackExisting q reference bytes =
     (if q_has q reference
      then Inl (PlainError ''Retained output reference was registered more than once'')
      else if bytes > q_maxBytes q - q_totalBytes q
      then Inl (PlainError ''Retained output exceeds the configured total byte limit'')
      else if q_size q \<ge> q_maxEntries q
      then Inl (PlainError ''Retained output exceeds the configured entry limit'')
      else Inr (q\<lparr>q_bytesByReference := AList.update reference bytes (q_bytesByReference q),
                  q_totalBytes := q_totalBytes q + bytes\<rparr>))"

definition q_release :: "quota \<Rightarrow> string \<Rightarrow> quota" where
  "q_release q reference =
     (case map_of (q_bytesByReference q) reference of
        None \<Rightarrow> q
      | Some retainedBytes \<Rightarrow>
          q\<lparr>q_totalBytes := q_totalBytes q - retainedBytes,
            q_bytesByReference := AList.delete reference (q_bytesByReference q)\<rparr>)"

section \<open>Invariant\<close>

text \<open>
  The running total is the sum of the entries, and both limits hold. An entry holds a
  non-negative number of bytes.
\<close>

definition quota_inv :: "quota \<Rightarrow> bool" where
  "quota_inv q \<longleftrightarrow>
     distinct (map fst (q_bytesByReference q))
     \<and> list_all (\<lambda>(_, n). 0 \<le> n) (q_bytesByReference q)
     \<and> q_totalBytes q = sum_list (map snd (q_bytesByReference q))
     \<and> q_totalBytes q \<le> q_maxBytes q \<and> q_size q \<le> q_maxEntries q"

lemma sum_snd_update_new:
  "map_of m k = None \<Longrightarrow> sum_list (map snd (AList.update k v m)) = sum_list (map snd m) + (v :: int)"
  by (induction m) (auto split: if_splits)

lemma sum_snd_update_old:
  "map_of m k = Some w \<Longrightarrow> sum_list (map snd (AList.update k v m)) = sum_list (map snd m) + (v - w :: int)"
  by (induction m) (auto split: if_splits)

lemma delete_absent: "map_of m k = None \<Longrightarrow> AList.delete k m = m"
  by (auto simp: AList.delete_eq filter_id_conv map_of_eq_None_iff image_iff)

lemma sum_snd_delete:
  "distinct (map fst m) \<Longrightarrow> map_of m k = Some (w :: int) \<Longrightarrow>
   sum_list (map snd (AList.delete k m)) = sum_list (map snd m) - w"
proof (induction m)
  case (Cons a m)
  then show ?case
    by (cases a) (auto simp: delete_absent map_of_eq_None_iff)
qed simp

lemma sum_snd_nonneg: "list_all (\<lambda>(_, n). 0 \<le> n) m \<Longrightarrow> 0 \<le> (sum_list (map snd m) :: int)"
  by (induction m) auto

lemma held_nonneg: "quota_inv q \<Longrightarrow> 0 \<le> q_held q r"
  by (auto simp: quota_inv_def q_held_def list_all_iff split: option.splits dest!: map_of_SomeD)

lemma list_all_update:
  "list_all P m \<Longrightarrow> P (k, v) \<Longrightarrow> list_all P (AList.update k v m)"
  by (induction m) auto

lemma list_all_delete: "list_all P m \<Longrightarrow> list_all P (AList.delete k m)"
  by (auto simp: list_all_iff AList.delete_eq)

lemma sum_snd_held: "distinct (map fst m) \<Longrightarrow>
   sum_list (map snd (AList.update k v m)) = sum_list (map snd m) + (v - (case map_of m k of None \<Rightarrow> 0 | Some w \<Rightarrow> w) :: int)"
  by (cases "map_of m k") (simp_all add: sum_snd_update_new sum_snd_update_old)

lemma quota_inv_new: "0 \<le> maxBytes \<Longrightarrow> 0 \<le> maxEntries \<Longrightarrow> quota_inv (new_quota maxBytes maxEntries)"
  by (simp add: quota_inv_def new_quota_def q_size_def)

lemma reserve_inv:
  assumes "quota_inv q" "q_reserve q r n = (b, q')"
  shows "quota_inv q'"
proof (cases "q' = q")
  case False
  let ?g = "min n (q_maxBytes q - q_totalBytes q)"
  let ?m = "AList.update r (q_held q r + ?g) (q_bytesByReference q)"
  from False assms(2) have q': "q' = q\<lparr>q_totalBytes := q_totalBytes q + ?g, q_bytesByReference := ?m\<rparr>"
    and g: "0 < ?g" "q_has q r \<or> q_size q < q_maxEntries q"
    by (auto simp: q_reserve_def Let_def split: if_splits)
  have "int (length ?m) \<le> q_maxEntries q"
  proof (cases "map_of (q_bytesByReference q) r")
    case None
    with g assms(1) show ?thesis by (simp add: length_update_new q_size_def q_has_def quota_inv_def)
  next
    case (Some w)
    with assms(1) show ?thesis by (simp add: length_update_old q_size_def quota_inv_def)
  qed
  moreover have "list_all (\<lambda>(_, n). 0 \<le> n) ?m"
    using assms(1) g(1) held_nonneg [OF assms(1), of r] by (intro list_all_update) (auto simp: quota_inv_def)
  ultimately show ?thesis
    using assms(1)
    by (auto simp: q' quota_inv_def q_size_def q_held_def sum_snd_held intro: distinct_keys_update)
qed (use assms in simp)

lemma reserve_limits:
  "q_reserve q r n = (b, q') \<Longrightarrow> q_maxBytes q' = q_maxBytes q \<and> q_maxEntries q' = q_maxEntries q"
  by (auto simp: q_reserve_def Let_def split: if_splits)

lemma reserve_granted:
  assumes "quota_inv q" "0 \<le> n" "q_reserve q r n = (b, q')"
  shows "0 \<le> br_grantedBytes b \<and> br_grantedBytes b \<le> n
    \<and> q_held q' = (q_held q)(r := q_held q r + br_grantedBytes b)
    \<and> q_totalBytes q' = q_totalBytes q + br_grantedBytes b"
  using assms
  by (auto simp: q_reserve_def Let_def q_held_def quota_inv_def update_conv' fun_eq_iff split: if_splits)

lemma release_inv:
  assumes "quota_inv q"
  shows "quota_inv (q_release q r)"
proof (cases "map_of (q_bytesByReference q) r")
  case None
  with assms show ?thesis by (simp add: q_release_def)
next
  case (Some n)
  with held_nonneg [OF assms, of r] have "0 \<le> n" by (simp add: q_held_def)
  with assms Some length_delete_le [of r "q_bytesByReference q"] show ?thesis
    by (simp add: q_release_def quota_inv_def q_size_def sum_snd_delete list_all_delete distinct_keys_delete
        del: length_delete_le)
qed

lemma release_limits [simp]:
  "q_maxBytes (q_release q r) = q_maxBytes q" "q_maxEntries (q_release q r) = q_maxEntries q"
  by (simp_all add: q_release_def split: option.splits)

lemma release_held: "q_held (q_release q r) = (q_held q)(r := 0)"
  by (auto simp: q_release_def q_held_def fun_eq_iff delete_conv' split: option.splits)

lemma release_total: "q_totalBytes (q_release q r) = q_totalBytes q - q_held q r"
  by (simp add: q_release_def q_held_def split: option.splits)

lemma release_has: "q_has (q_release q r) s \<longleftrightarrow> q_has q s \<and> s \<noteq> r"
  by (auto simp: q_release_def q_has_def delete_conv' split: option.splits)

lemma track_inv:
  assumes "quota_inv q" "0 \<le> n" "q_trackExisting q r n = Inr q'"
  shows "quota_inv q'"
proof -
  from assms(3) have r: "map_of (q_bytesByReference q) r = None"
    and q': "q' = q\<lparr>q_bytesByReference := AList.update r n (q_bytesByReference q),
      q_totalBytes := q_totalBytes q + n\<rparr>"
    and l: "n \<le> q_maxBytes q - q_totalBytes q" "q_size q < q_maxEntries q"
    by (auto simp: q_trackExisting_def q_has_def split: if_splits)
  with assms(1,2) show ?thesis
    by (simp add: quota_inv_def q_size_def length_update_new sum_snd_update_new
      distinct_keys_update list_all_update)
qed

lemma track_limits: "q_trackExisting q r n = Inr q' \<Longrightarrow> q_maxBytes q' = q_maxBytes q \<and> q_maxEntries q' = q_maxEntries q"
  by (auto simp: q_trackExisting_def split: if_splits)

lemma track_held: "q_trackExisting q r n = Inr q' \<Longrightarrow> q_held q' = (q_held q)(r := n)"
  by (auto simp: q_trackExisting_def q_held_def q_has_def update_conv' fun_eq_iff split: if_splits)

lemma held_le_total:
  assumes "quota_inv q" "distinct rs"
  shows "sum_list (map (q_held q) rs) \<le> q_totalBytes q"
proof -
  let ?m = "q_bytesByReference q"
  have "sum_list (map (\<lambda>r. case map_of m r of None \<Rightarrow> 0 | Some n \<Rightarrow> n) rs) \<le> sum_list (map snd m)"
    if "distinct (map fst m)" "list_all (\<lambda>(_, n). 0 \<le> n) m" for m :: "(string \<times> int) list"
    using that
  proof (induction m)
    case (Cons a m)
    obtain x v where a: "a = (x, v)" by force
    let ?f = "\<lambda>m r. case map_of m r of None \<Rightarrow> 0 | Some n \<Rightarrow> (n :: int)"
    have x: "?f m x = 0" using Cons.prems(1) a by (auto simp: image_iff split: option.splits dest!: map_of_SomeD)
    have "sum_list (map (?f (a # m)) rs) \<le> sum_list (map (?f m) rs) + v"
      using assms(2) Cons.prems(2) a x
    proof (induction rs)
      case (Cons r rs)
      show ?case
      proof (cases "r = x")
        case True
        with Cons.prems a have e: "map (?f (a # m)) rs = map (?f m) rs" by auto
        show ?thesis unfolding list.map sum_list.Cons e using True Cons.prems a by simp
      next
        case False
        with Cons a show ?thesis by auto
      qed
    qed simp
    with Cons a show ?case by auto
  qed simp
  from this [of ?m] assms(1) show ?thesis by (simp add: quota_inv_def q_held_def [abs_def])
qed

section \<open>The contract of a byte quota\<close>

text \<open>
  What a sink relies on: a grant never exceeds the request, is charged to the sink's own
  reference and to nobody else, and releasing a reference gives back all it held.
\<close>

locale byte_quota =
  fixes invar :: "'q \<Rightarrow> bool"
    and capacity :: "'q \<Rightarrow> int"
    and used :: "'q \<Rightarrow> int"
    and held :: "'q \<Rightarrow> string \<Rightarrow> int"
    and grant :: "'q \<Rightarrow> string \<Rightarrow> int \<Rightarrow> int"
    and charge :: "'q \<Rightarrow> string \<Rightarrow> int \<Rightarrow> 'q"
    and release :: "'q \<Rightarrow> string \<Rightarrow> 'q"
  assumes used_bounds: "invar q \<Longrightarrow> 0 \<le> used q \<and> used q \<le> capacity q"
    and held_bounds: "invar q \<Longrightarrow> 0 \<le> held q r"
    and grant_bounds: "invar q \<Longrightarrow> 0 \<le> n \<Longrightarrow> 0 \<le> grant q r n \<and> grant q r n \<le> n"
    and charge_invar: "invar q \<Longrightarrow> 0 \<le> n \<Longrightarrow> invar (charge q r n)"
    and charge_capacity: "invar q \<Longrightarrow> 0 \<le> n \<Longrightarrow> capacity (charge q r n) = capacity q"
    and charge_held: "invar q \<Longrightarrow> 0 \<le> n \<Longrightarrow> held (charge q r n) = (held q)(r := held q r + grant q r n)"
    and charge_used: "invar q \<Longrightarrow> 0 \<le> n \<Longrightarrow> used (charge q r n) = used q + grant q r n"
    and release_invar: "invar q \<Longrightarrow> invar (release q r)"
    and release_capacity: "capacity (release q r) = capacity q"
    and release_held: "held (release q r) = (held q)(r := 0)"
    and release_used: "used (release q r) = used q - held q r"
begin

text \<open>The reservations of one reference, one after the other.\<close>

fun charges :: "'q \<Rightarrow> string \<Rightarrow> int list \<Rightarrow> int list \<times> 'q" where
  "charges q r [] = ([], q)"
| "charges q r (n # ns) = (case charges (charge q r n) r ns of (gs, q') \<Rightarrow> (grant q r n # gs, q'))"

lemma charges_spec:
  assumes "invar q" "list_all (\<lambda>n. 0 \<le> n) ns" "charges q r ns = (gs, q')"
  shows "invar q' \<and> capacity q' = capacity q \<and> held q' = (held q)(r := held q r + sum_list gs)
    \<and> used q' = used q + sum_list gs \<and> list_all2 (\<lambda>g n. 0 \<le> g \<and> g \<le> n) gs ns"
  using assms
proof (induction ns arbitrary: q gs)
  case (Cons n ns)
  from Cons.prems(3) obtain gs1 where gs: "charges (charge q r n) r ns = (gs1, q')" "gs = grant q r n # gs1"
    by (auto split: prod.splits)
  with Cons show ?case
    using Cons.IH [OF charge_invar [OF Cons.prems(1)] _ gs(1)]
      grant_bounds [OF Cons.prems(1), of n r] charge_held [OF Cons.prems(1), of n r]
      charge_used [OF Cons.prems(1), of n r] charge_capacity [OF Cons.prems(1), of n r]
    by auto
qed simp

lemma charges_then_release:
  assumes "invar q" "list_all (\<lambda>n. 0 \<le> n) ns" "charges q r ns = (gs, q')"
  shows "used (release q' r) = used q - held q r \<and> held (release q' r) = (held q)(r := 0)"
  using charges_spec [OF assms] by (simp add: release_used release_held)

lemma charges_within: 
  assumes "invar q" "list_all (\<lambda>n. 0 \<le> n) ns" "charges q r ns = (gs, q')"
  shows "sum_list gs \<le> capacity q - used q"
  using charges_spec [OF assms] used_bounds [of q'] by simp

end

lemma used_nonneg: "quota_inv q \<Longrightarrow> 0 \<le> q_totalBytes q \<and> q_totalBytes q \<le> q_maxBytes q"
  by (simp add: quota_inv_def sum_snd_nonneg)

interpretation retained: byte_quota quota_inv q_maxBytes q_totalBytes q_held
  "\<lambda>q r n. br_grantedBytes (fst (q_reserve q r n))" "\<lambda>q r n. snd (q_reserve q r n)" q_release
proof unfold_locales
  fix q r and n :: int
  assume q: "quota_inv q" 
  show "0 \<le> q_totalBytes q \<and> q_totalBytes q \<le> q_maxBytes q" by (rule used_nonneg [OF q])
  show "0 \<le> q_held q r" by (rule held_nonneg [OF q])
  show "quota_inv (q_release q r)" by (rule release_inv [OF q])
  assume n: "0 \<le> n"
  obtain b q' where e: "q_reserve q r n = (b, q')" by force
  from reserve_granted [OF q n e] reserve_limits [OF e] reserve_inv [OF q e] e
  show "0 \<le> br_grantedBytes (fst (q_reserve q r n)) \<and> br_grantedBytes (fst (q_reserve q r n)) \<le> n"
    "quota_inv (snd (q_reserve q r n))" "q_maxBytes (snd (q_reserve q r n)) = q_maxBytes q"
    "q_held (snd (q_reserve q r n)) = (q_held q)(r := q_held q r + br_grantedBytes (fst (q_reserve q r n)))"
    "q_totalBytes (snd (q_reserve q r n)) = q_totalBytes q + br_grantedBytes (fst (q_reserve q r n))"
    by simp_all
qed (simp_all add: release_held release_total)

section \<open>Properties\<close>

text \<open>
  What a reservation grants. A new reference gets nothing when all entries are taken; every
  other request is granted as far as the free bytes go. The grant is charged to this
  reference only, the limits keep holding, and releasing the reference afterwards leaves the
  quota with the same total as releasing it without the reservation.
\<close>

theorem quota_grants_what_fits:
  assumes "quota_inv q" "0 \<le> n" "q_reserve q r n = (b, q')"
  shows "quota_inv q'
    \<and> br_grantedBytes b =
        (if 0 < n \<and> \<not> q_has q r \<and> q_size q = q_maxEntries q then 0
         else min n (q_maxBytes q - q_totalBytes q))
    \<and> (\<forall>s. q_held q' s = (if s = r then q_held q r + br_grantedBytes b else q_held q s))
    \<and> q_totalBytes q' = q_totalBytes q + br_grantedBytes b
    \<and> q_totalBytes (q_release q' r) = q_totalBytes (q_release q r)"
proof -
  have "br_grantedBytes b = (if 0 < n \<and> \<not> q_has q r \<and> q_size q = q_maxEntries q then 0
         else min n (q_maxBytes q - q_totalBytes q))"
    using assms(1,3) by (auto simp: q_reserve_def Let_def quota_inv_def split: if_splits)
  with reserve_granted [OF assms] reserve_inv [OF assms(1,3)] show ?thesis
    by (simp add: release_total)
qed

theorem quota_grants_what_fits_witness:
  "br_grantedBytes (fst (q_reserve (snd (q_reserve (new_quota 10 2) ''a'' 7)) ''b'' 5)) = 3"
proof -
  let ?q = "snd (q_reserve (new_quota 10 2) ''a'' 7)"
  have q: "quota_inv ?q" by code_simp
  have r: "q_reserve ?q ''b'' 5 = (fst (q_reserve ?q ''b'' 5), snd (q_reserve ?q ''b'' 5))" by simp
  have "\<not> (0 < (5::int) \<and> \<not> q_has ?q ''b'' \<and> q_size ?q = q_maxEntries ?q)"
    "q_maxBytes ?q - q_totalBytes ?q = 3" by code_simp+
  then show ?thesis using quota_grants_what_fits [OF q _ r] by simp
qed

end
