(* ===== verification/Utf8.thy ===== *)
theory Utf8
  imports Prelude
begin

text \<open>
  \<^verbatim>\<open>src/src/shared/utf8.ts\<close>: the cut-off that keeps a page of output from ending inside a UTF-8
  sequence, together with the two library decoders the callers use on pages:
  \<open>valid_utf8\<close> (\<open>new TextDecoder("utf-8", { fatal: true })\<close> accepts) and
  \<open>utf8_decode\<close> (\<open>Buffer.toString("utf8")\<close>, which replaces each maximal ill-formed
  subsequence by U+FFFD).

  The lemmas show that the cut-off drops at most three bytes, never cuts a sequence of a
  well-formed text, and gives the longest well-formed prefix.
\<close>

unbundle bit_operations_syntax

section \<open>Definitions\<close>

definition is_continuation :: "byte \<Rightarrow> bool" where
  "is_continuation b \<longleftrightarrow> (b AND 0xC0) = 0x80"

function scan_back :: "bytes \<Rightarrow> int \<Rightarrow> nat \<Rightarrow> int \<times> nat" where
  "scan_back buffer leadIndex continuationBytes =
     (if leadIndex \<ge> 0 \<and> continuationBytes < 3 \<and> is_continuation (buffer ! nat leadIndex)
      then scan_back buffer (leadIndex - 1) (continuationBytes + 1)
      else (leadIndex, continuationBytes))"
  by pat_completeness auto
termination
  by (relation "measure (\<lambda>(b, i, k). 3 - k)") auto

declare scan_back.simps [simp del]

definition expected_bytes :: "byte \<Rightarrow> nat" where
  "expected_bytes lead =
     (if lead \<le> 0x7F then 1
      else if lead \<ge> 0xC2 \<and> lead \<le> 0xDF then 2
      else if lead \<ge> 0xE0 \<and> lead \<le> 0xEF then 3
      else if lead \<ge> 0xF0 \<and> lead \<le> 0xF4 then 4
      else 1)"

definition completeUtf8PrefixLength :: "bytes \<Rightarrow> nat" where
  "completeUtf8PrefixLength buffer =
     (if length buffer = 0 then 0
      else
        let (leadIndex, continuationBytes) = scan_back buffer (int (length buffer) - 1) 0
        in if leadIndex < 0 then length buffer
           else
             let expectedBytes = expected_bytes (buffer ! nat leadIndex);
                 availableBytes = length buffer - nat leadIndex
             in if expectedBytes > availableBytes \<and> continuationBytes = availableBytes - 1
                then nat leadIndex
                else length buffer)"

text \<open>The second byte of a three- or four-byte sequence is restricted for some lead bytes.\<close>

definition is_cont_range :: "byte \<Rightarrow> bool" where
  "is_cont_range b \<longleftrightarrow> 0x80 \<le> b \<and> b \<le> 0xBF"

definition second_ok :: "byte \<Rightarrow> byte \<Rightarrow> bool" where
  "second_ok lead b =
     (if lead = 0xE0 then 0xA0 \<le> b \<and> b \<le> 0xBF
      else if lead = 0xED then 0x80 \<le> b \<and> b \<le> 0x9F
      else if lead = 0xF0 then 0x90 \<le> b \<and> b \<le> 0xBF
      else if lead = 0xF4 then 0x80 \<le> b \<and> b \<le> 0x8F
      else is_cont_range b)"

definition replacement :: bytes where
  "replacement = [0xEF, 0xBF, 0xBD]"

text \<open>One well-formed sequence.\<close>

fun is_sequence :: "bytes \<Rightarrow> bool" where
  "is_sequence [a] = (a \<le> 0x7F)"
| "is_sequence [a, b] = (0xC2 \<le> a \<and> a \<le> 0xDF \<and> is_cont_range b)"
| "is_sequence [a, b, c] = (0xE0 \<le> a \<and> a \<le> 0xEF \<and> second_ok a b \<and> is_cont_range c)"
| "is_sequence [a, b, c, d] =
     (0xF0 \<le> a \<and> a \<le> 0xF4 \<and> second_ok a b \<and> is_cont_range c \<and> is_cont_range d)"
| "is_sequence _ = False"

function valid_utf8 :: "bytes \<Rightarrow> bool" where
  "valid_utf8 [] = True"
| "valid_utf8 (a # xs) =
     (is_sequence (take (expected_bytes a) (a # xs)) \<and> valid_utf8 (drop (expected_bytes a) (a # xs)))"
  by pat_completeness auto
termination
  by (relation "measure length") (auto simp: expected_bytes_def)

declare valid_utf8.simps(2) [simp del]

text \<open>The length of the maximal subpart that one replacement character stands for.\<close>

definition ill_formed_length :: "bytes \<Rightarrow> nat" where
  "ill_formed_length xs =
     (case xs of
        a # b # ys \<Rightarrow>
          if 0xE0 \<le> a \<and> a \<le> 0xF4 \<and> second_ok a b
          then (case ys of [] \<Rightarrow> 2 | c # _ \<Rightarrow> if 0xF0 \<le> a \<and> is_cont_range c then 3 else 2)
          else 1
      | _ \<Rightarrow> 1)"

function utf8_decode :: "bytes \<Rightarrow> bytes" where
  "utf8_decode [] = []"
| "utf8_decode (a # xs) =
     (let n = expected_bytes a in
      if is_sequence (take n (a # xs))
      then take n (a # xs) @ utf8_decode (drop n (a # xs))
      else replacement @ utf8_decode (drop (ill_formed_length (a # xs)) (a # xs)))"
  by pat_completeness auto
termination
  by (relation "measure length") (auto simp: expected_bytes_def ill_formed_length_def split: list.splits)

declare utf8_decode.simps(2) [simp del]

section \<open>Lemmas\<close>

lemma is_continuation_range: "is_continuation b \<longleftrightarrow> is_cont_range b"
  by (rule byte_exhaust [of "\<lambda>b. is_continuation b \<longleftrightarrow> is_cont_range b"]) code_simp

lemma expected_bytes_pos [simp]: "0 < expected_bytes a" and expected_bytes_le: "expected_bytes a \<le> 4"
  by (simp_all add: expected_bytes_def)

lemma scan_back_index: "scan_back buf i k = (j, m) \<Longrightarrow> j \<le> i \<and> int m - int k = i - j \<and> k \<le> m \<and> (k \<le> 3 \<longrightarrow> m \<le> 3)"
proof (induction buf i k rule: scan_back.induct)
  case (1 buf i k)
  then show ?case
    by (subst (asm) (2) scan_back.simps) (auto split: if_splits)
qed

lemma scan_back_cont: "scan_back buf i k = (j, m) \<Longrightarrow> j < l \<Longrightarrow> l \<le> i \<Longrightarrow> is_continuation (buf ! nat l)"
proof (induction buf i k rule: scan_back.induct)
  case (1 buf i k)
  show ?case
  proof (cases "0 \<le> i \<and> k < 3 \<and> is_continuation (buf ! nat i)")
    case True
    with 1 show ?thesis
      by (cases "l = i") (auto simp: scan_back.simps [of buf i k])
  next
    case False
    with 1 show ?thesis by (auto simp: scan_back.simps [of buf i k])
  qed
qed

lemma complete_le: "completeUtf8PrefixLength buf \<le> length buf"
proof -
  obtain j m where s: "scan_back buf (int (length buf) - 1) 0 = (j, m)" by force
  from scan_back_index [OF s] have "j \<le> int (length buf) - 1" by simp
  then have "nat j \<le> length buf" by linarith
  with s show ?thesis
    by (simp add: completeUtf8PrefixLength_def)
qed

lemma complete_ge: "length buf \<le> completeUtf8PrefixLength buf + 3"
proof -
  obtain j m where s: "scan_back buf (int (length buf) - 1) 0 = (j, m)" by force
  have "expected_bytes (buf ! nat j) \<le> 4" by (rule expected_bytes_le)
  with s show ?thesis
    by (auto simp: completeUtf8PrefixLength_def Let_def)
qed

text \<open>A text is read from its end: what precedes a lead byte does not matter.\<close>

lemma scan_back_shift:
  assumes "0 \<le> i" "rest \<noteq> []" "\<not> is_continuation (hd rest)" "scan_back rest i k = (j, m)"
  shows "scan_back (pre @ rest) (i + int (length pre)) k = (j + int (length pre), m) \<and> 0 \<le> j"
  using assms
proof (induction rest i k rule: scan_back.induct)
  case (1 rest i k)
  have nth: "(pre @ rest) ! nat (i + int (length pre)) = rest ! nat i"
    using "1.prems"(1) by (simp add: nth_append nat_add_distrib)
  show ?case
  proof (cases "k < 3 \<and> is_continuation (rest ! nat i)")
    case True
    with "1.prems" have "i \<noteq> 0" by (auto simp: hd_conv_nth)
    with "1.prems" have i: "0 \<le> i - 1" by simp
    from True "1.prems" have s: "scan_back rest (i - 1) (k + 1) = (j, m)"
      by (simp add: scan_back.simps [of rest i k])
    have eq: "i + int (length pre) - 1 = i - 1 + int (length pre)" by simp
    show ?thesis
      using "1.IH" [OF _ i "1.prems"(2,3) s] True "1.prems"(1)
      by (simp add: scan_back.simps [of "pre @ rest" "i + int (length pre)" k] nth eq)
  next
    case False
    then have "scan_back rest i k = (i, k)" by (auto simp: scan_back.simps [of rest i k])
    moreover from False have "scan_back (pre @ rest) (i + int (length pre)) k = (i + int (length pre), k)"
      by (subst scan_back.simps) (auto simp: nth)
    ultimately show ?thesis using "1.prems" by simp
  qed
qed

lemma complete_shift:
  assumes "rest \<noteq> []" "\<not> is_continuation (hd rest)"
  shows "completeUtf8PrefixLength (pre @ rest) = length pre + completeUtf8PrefixLength rest"
proof -
  obtain j m where s: "scan_back rest (int (length rest) - 1) 0 = (j, m)" by force
  from assms(1) have ge: "0 \<le> int (length rest) - 1" by (cases rest) auto
  have eq: "int (length (pre @ rest)) - 1 = int (length rest) - 1 + int (length pre)" by simp
  from scan_back_shift [OF ge assms s, of pre]
  have s': "scan_back (pre @ rest) (int (length (pre @ rest)) - 1) 0 = (j + int (length pre), m)"
    and j: "0 \<le> j" unfolding eq by auto
  from j have nth: "(pre @ rest) ! nat (j + int (length pre)) = rest ! nat j"
    by (simp add: nth_append nat_add_distrib)
  from j have av: "length (pre @ rest) - nat (j + int (length pre)) = length rest - nat j"
    by (simp add: nat_add_distrib)
  show ?thesis
    unfolding completeUtf8PrefixLength_def s' s Let_def prod.case nth av
    using assms(1) j by (auto simp: nat_add_distrib)
qed

lemma second_ok_cont: "second_ok a b \<Longrightarrow> is_cont_range b"
  by (auto simp: second_ok_def is_cont_range_def word_le_nat_alt split: if_splits)

lemma sequence_cases:
  assumes "is_sequence q"
  obtains a where "q = [a]" "a \<le> 0x7F"
  | a b where "q = [a, b]" "0xC2 \<le> a" "a \<le> 0xDF" "is_cont_range b"
  | a b c where "q = [a, b, c]" "0xE0 \<le> a" "a \<le> 0xEF" "second_ok a b" "is_cont_range b" "is_cont_range c"
  | a b c d where "q = [a, b, c, d]" "0xF0 \<le> a" "a \<le> 0xF4" "second_ok a b" "is_cont_range b"
      "is_cont_range c" "is_cont_range d"
  using assms by (cases q rule: is_sequence.cases) (auto dest: second_ok_cont)

lemma lead_expected:
  "a \<le> 0x7F \<Longrightarrow> expected_bytes a = 1"
  "0xC2 \<le> a \<Longrightarrow> a \<le> 0xDF \<Longrightarrow> expected_bytes a = 2"
  "0xE0 \<le> a \<Longrightarrow> a \<le> 0xEF \<Longrightarrow> expected_bytes a = 3"
  "0xF0 \<le> a \<Longrightarrow> a \<le> 0xF4 \<Longrightarrow> expected_bytes a = 4"
  by (auto simp: expected_bytes_def word_le_nat_alt)

lemma lead_not_cont:
  "a \<le> 0x7F \<Longrightarrow> \<not> is_continuation a"
  "0xC2 \<le> a \<Longrightarrow> \<not> is_continuation a"
  "0xE0 \<le> a \<Longrightarrow> \<not> is_continuation a"
  "0xF0 \<le> a \<Longrightarrow> \<not> is_continuation a"
  by (auto simp: is_continuation_range is_cont_range_def word_le_nat_alt)

lemma sequence_lead:
  assumes "is_sequence q"
  shows "q \<noteq> []" "\<not> is_continuation (hd q)" "expected_bytes (hd q) = length q"
  using assms by (auto elim!: sequence_cases simp: lead_expected lead_not_cont)

lemma scan_back_run:
  assumes "\<not> is_continuation (buf ! 0)" "\<And>l. 0 < l \<Longrightarrow> l \<le> i \<Longrightarrow> is_continuation (buf ! l)" "i + k \<le> 3"
  shows "scan_back buf (int i) k = (0, k + i)"
  using assms
proof (induction i arbitrary: k)
  case 0
  then show ?case by (subst scan_back.simps) simp
next
  case (Suc i)
  then have "is_continuation (buf ! Suc i)" "scan_back buf (int i) (k + 1) = (0, k + 1 + i)" by auto
  with Suc.prems(3) show ?case by (subst scan_back.simps) (simp add: nat_add_distrib)
qed

lemma complete_one:
  assumes "\<not> is_continuation a" "\<forall>y \<in> set ys. is_continuation y" "length ys \<le> 3"
  shows "completeUtf8PrefixLength (a # ys) =
    (if expected_bytes a > Suc (length ys) then 0 else Suc (length ys))"
proof -
  have "scan_back (a # ys) (int (length ys)) 0 = (0, 0 + length ys)"
    using assms by (intro scan_back_run) (auto simp: nth_Cons' )
  then show ?thesis by (simp add: completeUtf8PrefixLength_def)
qed

lemma sequence_tail:
  assumes "is_sequence q"
  shows "\<forall>y \<in> set (tl q). is_continuation y" "length q \<le> 4"
  using assms by (auto elim!: sequence_cases simp: is_continuation_range)

lemma complete_partial_sequence:
  assumes "is_sequence q" "n < length q"
  shows "completeUtf8PrefixLength (take n q) = 0"
proof (cases n)
  case 0
  then show ?thesis by (simp add: completeUtf8PrefixLength_def)
next
  case (Suc k)
  from sequence_lead(1) [OF assms(1)] obtain a ys where q: "q = a # ys" by (cases q) auto
  have "\<forall>y \<in> set (take k ys). is_continuation y"
    using sequence_tail(1) [OF assms(1)] q by (auto dest: in_set_takeD)
  with complete_one [of a "take k ys"] sequence_lead [OF assms(1)] sequence_tail(2) [OF assms(1)] q Suc assms(2)
  show ?thesis by simp
qed

lemma complete_sequence:
  assumes "is_sequence q"
  shows "completeUtf8PrefixLength q = length q"
proof -
  from sequence_lead(1) [OF assms] obtain a ys where q: "q = a # ys" by (cases q) auto
  with complete_one [of a ys] sequence_lead [OF assms] sequence_tail [OF assms] show ?thesis by simp
qed

lemma valid_append_sequence: "is_sequence q \<Longrightarrow> valid_utf8 (q @ xs) = valid_utf8 xs"
proof -
  assume q: "is_sequence q"
  then obtain a ys where aq: "q = a # ys" using sequence_lead(1) by (cases q) auto
  with q have "expected_bytes a = length q" using sequence_lead(3) [OF q] by simp
  with aq q show ?thesis by (simp add: valid_utf8.simps(2) [of a "ys @ xs"])
qed

lemma valid_utf8_decompose:
  assumes "valid_utf8 xs" "xs \<noteq> []"
  obtains q ys where "xs = q @ ys" "is_sequence q" "valid_utf8 ys"
proof -
  from assms(2) obtain a zs where xs: "xs = a # zs" by (cases xs) auto
  with assms(1) have "is_sequence (take (expected_bytes a) xs)" "valid_utf8 (drop (expected_bytes a) xs)"
    by (auto simp: valid_utf8.simps(2))
  then show ?thesis using that [of "take (expected_bytes a) xs" "drop (expected_bytes a) xs"] by simp
qed

lemma valid_utf8_induct [consumes 1, case_names Nil Seq]:
  assumes "valid_utf8 xs" "P []" "\<And>q xs. is_sequence q \<Longrightarrow> valid_utf8 xs \<Longrightarrow> P xs \<Longrightarrow> P (q @ xs)"
  shows "P xs"
  using assms(1)
proof (induction "length xs" arbitrary: xs rule: less_induct)
  case less
  show ?case
  proof (cases "xs = []")
    case True
    with assms(2) show ?thesis by simp
  next
    case False
    from less.prems False obtain q ys where q: "xs = q @ ys" "is_sequence q" "valid_utf8 ys"
      by (rule valid_utf8_decompose)
    moreover from q(1,2) have "length ys < length xs" using sequence_lead(1) by auto
    ultimately show ?thesis using less.hyps assms(3) by simp
  qed
qed

lemma valid_hd_not_cont: "valid_utf8 xs \<Longrightarrow> xs \<noteq> [] \<Longrightarrow> \<not> is_continuation (hd xs)"
  by (erule valid_utf8_decompose) (auto simp: sequence_lead hd_append)

lemma valid_append: "valid_utf8 xs \<Longrightarrow> valid_utf8 (xs @ ys) = valid_utf8 ys"
  by (induction rule: valid_utf8_induct) (simp_all add: valid_append_sequence)

text \<open>A proper prefix of one sequence is not well-formed.\<close>

lemma partial_sequence_invalid:
  assumes "is_sequence q" "n < length q" "0 < n"
  shows "\<not> valid_utf8 (take n q)"
proof -
  from assms obtain a ys where aq: "q = a # ys" using sequence_lead(1) by (cases q) auto
  with assms(3) obtain zs where t: "take n q = a # zs" by (cases n) auto
  have "expected_bytes a = length q" using sequence_lead(3) [OF assms(1)] aq by simp
  with t assms(2) have tk: "take (expected_bytes a) (a # zs) = take n q"
    by (metis length_take min.absorb2 nat_less_le take_all)
  { assume "is_sequence (take n q)"
    from sequence_lead(3) [OF this] t have "expected_bytes a = length (take n q)" by simp
    with \<open>expected_bytes a = length q\<close> assms(2) have False by simp }
  with tk t show ?thesis by (auto simp: valid_utf8.simps(2))
qed

lemma complete_valid_prefix:
  assumes "valid_utf8 xs" "n \<le> length xs"
  shows "valid_utf8 (take (completeUtf8PrefixLength (take n xs)) xs)
    \<and> (\<forall>m \<le> n. valid_utf8 (take m xs) \<longrightarrow> m \<le> completeUtf8PrefixLength (take n xs))"
  using assms
proof (induction xs arbitrary: n rule: valid_utf8_induct)
  case Nil
  then show ?case by (simp add: completeUtf8PrefixLength_def)
next
  case (Seq q xs)
  show ?case
  proof (cases "n < length q")
    case True
    then have "completeUtf8PrefixLength (take n (q @ xs)) = 0"
      using complete_partial_sequence [OF Seq.hyps(1) True] by simp
    moreover have "m = 0" if "m \<le> n" "valid_utf8 (take m (q @ xs))" for m
      using partial_sequence_invalid [OF Seq.hyps(1), of m] that True by auto
    ultimately show ?thesis by auto
  next
    case False
    let ?n = "n - length q"
    from False Seq.prems have n: "?n \<le> length xs" by simp
    have tk: "take n (q @ xs) = q @ take ?n xs" using False by simp
    have c: "completeUtf8PrefixLength (take n (q @ xs)) = length q + completeUtf8PrefixLength (take ?n xs)"
    proof (cases "take ?n xs = []")
      case True
      then show ?thesis
        unfolding tk True using complete_sequence [OF Seq.hyps(1)]
        by (simp add: completeUtf8PrefixLength_def [of "[]"])
    next
      case False
      then have "\<not> is_continuation (hd (take ?n xs))"
        using valid_hd_not_cont [OF Seq.hyps(2)] by (auto simp: hd_take)
      with False show ?thesis unfolding tk by (rule complete_shift)
    qed
    have "m \<le> completeUtf8PrefixLength (take n (q @ xs))" if "m \<le> n" "valid_utf8 (take m (q @ xs))" for m
    proof (cases "m \<le> length q")
      case True
      with c show ?thesis by simp
    next
      case False
      with that have "valid_utf8 (take (m - length q) xs)" "m - length q \<le> ?n"
        by (auto simp: valid_append_sequence [OF Seq.hyps(1)])
      with Seq.IH [OF n] c False show ?thesis by fastforce
    qed
    with Seq.IH [OF n] c show ?thesis
      by (simp add: valid_append_sequence [OF Seq.hyps(1)])
  qed
qed

lemma decode_valid: "valid_utf8 xs \<Longrightarrow> utf8_decode xs = xs"
proof (induction rule: valid_utf8_induct)
  case Nil
  then show ?case by simp
next
  case (Seq q xs)
  then obtain a ys where aq: "q = a # ys" using sequence_lead(1) by (cases q) auto
  with Seq have "expected_bytes a = length q" using sequence_lead(3) [OF Seq.hyps(1)] by simp
  with aq Seq show ?case by (simp add: utf8_decode.simps(2) [of a "ys @ xs"])
qed

lemma replacement_sequence: "is_sequence replacement"
  by (simp add: replacement_def second_ok_def is_cont_range_def)

lemma valid_decode: "valid_utf8 (utf8_decode xs)"
proof (induction xs rule: utf8_decode.induct)
  case 1
  then show ?case by simp
next
  case (2 a xs)
  then show ?case
    by (subst utf8_decode.simps) (simp add: Let_def valid_append_sequence replacement_sequence)
qed

subsection \<open>ASCII text\<close>

lemma ascii_valid: "list_all (\<lambda>b. b \<le> 0x7F) bs \<Longrightarrow> valid_utf8 bs"
  by (induction bs) (simp_all add: valid_utf8.simps(2) lead_expected)

definition ascii :: "string \<Rightarrow> bool" where
  "ascii s \<longleftrightarrow> list_all (\<lambda>c. c \<le> CHR 0x7F) s"

lemma ascii_append [simp]: "ascii (s @ t) \<longleftrightarrow> ascii s \<and> ascii t"
  by (simp add: ascii_def)

lemma ascii_bytes: "ascii s \<Longrightarrow> list_all (\<lambda>b. b \<le> 0x7F) (buffer_from s)"
proof -
  have "(of_char c :: byte) \<le> 0x7F" if "c \<le> CHR 0x7F" for c
  proof -
    have "unat (of_char c :: byte) = (of_char c :: nat)"
      by (cases c) (auto simp: unat_of_nat)
    moreover have "(of_char c :: nat) \<le> 127" using that by (simp add: less_eq_char_def)
    ultimately show ?thesis by (simp add: word_le_nat_alt)
  qed
  then show "ascii s \<Longrightarrow> ?thesis" by (auto simp: ascii_def buffer_from_def list_all_iff)
qed

lemma ascii_roundtrip: "ascii s \<Longrightarrow> map char_of_byte (utf8_decode (buffer_from s)) = s"
  by (simp add: decode_valid [OF ascii_valid [OF ascii_bytes]]) (simp add: buffer_from_def comp_def)

lemma ascii_alnum: "is_alnum c \<Longrightarrow> c \<le> CHR 0x7F"
  unfolding is_alnum_def is_alpha_def is_upper_def is_lower_def is_digit_def
  by (auto elim: order_trans)

lemma ascii_show_int: "0 \<le> i \<Longrightarrow> ascii (show_int i)"
  by (auto simp: ascii_def show_int_def list_all_iff is_alnum_def dest!: show_nat_digits intro: ascii_alnum)

section \<open>Properties\<close>

text \<open>
  For a well-formed UTF-8 text cut after any \<open>n\<close> bytes, the prefix length that the code
  computes ends on a sequence boundary, drops at most three bytes and is the longest
  well-formed prefix.
\<close>

theorem utf8_cut_longest_valid_prefix:
  assumes "valid_utf8 text" "n \<le> length text"
  shows "valid_utf8 (take (completeUtf8PrefixLength (take n text)) text)
    \<and> completeUtf8PrefixLength (take n text) \<le> n
    \<and> n \<le> completeUtf8PrefixLength (take n text) + 3
    \<and> (\<forall>m \<le> n. valid_utf8 (take m text) \<longrightarrow> m \<le> completeUtf8PrefixLength (take n text))"
  using complete_valid_prefix [OF assms] complete_le [of "take n text"] complete_ge [of "take n text"] assms(2)
  by simp

theorem utf8_cut_longest_valid_prefix_witness:
  "completeUtf8PrefixLength (take 3 [0x41, 0xE2, 0x82, 0xAC]) = 1
    \<and> valid_utf8 (take (completeUtf8PrefixLength (take 3 [0x41, 0xE2, 0x82, 0xAC])) [0x41, 0xE2, 0x82, 0xAC])"
proof -
  have v: "valid_utf8 [0x41, 0xE2, 0x82, 0xAC]" by code_simp
  have c: "completeUtf8PrefixLength (take 3 [0x41, 0xE2, 0x82, 0xAC]) = 1" by code_simp
  show ?thesis using utf8_cut_longest_valid_prefix [OF v, of 3] c by simp
qed

end
