(* ===== verification/Paging.thy ===== *)
theory Paging
  imports Prelude
begin

text \<open>
  The contract of a paged byte source: a page that starts at an offset is a slice of the
  content at that offset, and a page is empty only at the end. Task logs and retained
  outputs promise it for every offset, the pages of text only for offsets between two characters,
  where they also end. A reader that follows the pages then collects exactly the rest of
  the content, which is proved once here.
\<close>

text \<open>What a client collects that asks for \<open>n\<close> pages, each starting where the last one ended.\<close>

fun follow_pages :: "(nat \<Rightarrow> bytes) \<Rightarrow> nat \<Rightarrow> nat \<Rightarrow> bytes" where
  "follow_pages page 0 offset = []"
| "follow_pages page (Suc n) offset =
     page offset @ follow_pages page n (offset + length (page offset))"

locale aligned_source =
  fixes invar :: "'s \<Rightarrow> bool"
    and content :: "'s \<Rightarrow> bytes"
    and first_offset :: "'s \<Rightarrow> nat"
    and aligned :: "'s \<Rightarrow> nat \<Rightarrow> bool"
    and page :: "'s \<Rightarrow> nat \<Rightarrow> nat \<Rightarrow> bytes"
  assumes page_slice: "invar s \<Longrightarrow> 0 < limit \<Longrightarrow> first_offset s \<le> offset \<Longrightarrow> offset \<le> length (content s) \<Longrightarrow>
      aligned s offset \<Longrightarrow> page s limit offset = take (length (page s limit offset)) (drop offset (content s))"
    and page_progress: "invar s \<Longrightarrow> 0 < limit \<Longrightarrow> first_offset s \<le> offset \<Longrightarrow> offset < length (content s) \<Longrightarrow>
      aligned s offset \<Longrightarrow> page s limit offset \<noteq> []"
    and page_aligned: "invar s \<Longrightarrow> 0 < limit \<Longrightarrow> first_offset s \<le> offset \<Longrightarrow> offset \<le> length (content s) \<Longrightarrow>
      aligned s offset \<Longrightarrow> aligned s (offset + length (page s limit offset))"
begin

lemma page_end:
  assumes "invar s" "0 < limit" "first_offset s \<le> offset" "offset \<le> length (content s)" "aligned s offset"
  shows "offset + length (page s limit offset) \<le> length (content s)"
proof -
  have "length (page s limit offset) \<le> length (drop offset (content s))"
    using page_slice [OF assms] by (metis length_take min.cobounded1)
  with assms(4) show ?thesis by simp
qed

lemma follow_all:
  assumes "invar s" "0 < limit" "first_offset s \<le> offset" "offset \<le> length (content s)"
    "length (content s) - offset \<le> n" "aligned s offset"
  shows "follow_pages (page s limit) n offset = drop offset (content s)"
  using assms(3-6)
proof (induction n arbitrary: offset)
  case 0
  then show ?case by simp
next
  case (Suc n)
  let ?p = "page s limit offset"
  have slice: "?p = take (length ?p) (drop offset (content s))"
    using Suc.prems assms by (intro page_slice)
  have le: "offset + length ?p \<le> length (content s)"
    using Suc.prems assms by (intro page_end)
  have al: "aligned s (offset + length ?p)"
    using Suc.prems assms by (intro page_aligned)
  show ?case
  proof (cases "offset = length (content s)")
    case True
    with le have "?p = []" by simp
    with True Suc.IH [of offset] Suc.prems show ?thesis by simp
  next
    case False
    with Suc.prems assms have "?p \<noteq> []" by (intro page_progress) auto
    then have "length (content s) - (offset + length ?p) \<le> n" using Suc.prems by (cases ?p) auto
    with Suc.IH [of "offset + length ?p"] Suc.prems le al
    have "follow_pages (page s limit) n (offset + length ?p) = drop (offset + length ?p) (content s)" by simp
    moreover have "drop offset (content s) = ?p @ drop (offset + length ?p) (content s)"
      by (metis slice append_take_drop_id drop_drop add.commute)
    ultimately show ?thesis by simp
  qed
qed

end

locale paged_source =
  fixes invar :: "'s \<Rightarrow> bool"
    and content :: "'s \<Rightarrow> bytes"
    and first_offset :: "'s \<Rightarrow> nat"
    and page :: "'s \<Rightarrow> nat \<Rightarrow> nat \<Rightarrow> bytes"
  assumes page_slice: "invar s \<Longrightarrow> 0 < limit \<Longrightarrow> first_offset s \<le> offset \<Longrightarrow> offset \<le> length (content s) \<Longrightarrow>
      page s limit offset = take (length (page s limit offset)) (drop offset (content s))"
    and page_progress: "invar s \<Longrightarrow> 0 < limit \<Longrightarrow> first_offset s \<le> offset \<Longrightarrow> offset < length (content s) \<Longrightarrow>
      page s limit offset \<noteq> []"

sublocale paged_source \<subseteq> everywhere: aligned_source invar content first_offset "\<lambda>_ _. True" page
  by unfold_locales (use page_slice page_progress in auto)

context paged_source
begin

lemma follow_all:
  assumes "invar s" "0 < limit" "first_offset s \<le> offset" "offset \<le> length (content s)"
    "length (content s) - offset \<le> n"
  shows "follow_pages (page s limit) n offset = drop offset (content s)"
  using assms by (intro everywhere.follow_all) simp_all

end

end
