(* ===== verification/OutputSink.thy ===== *)
theory OutputSink
  imports Quota Utf8 Paging
begin

text \<open>
  \<^verbatim>\<open>FileOutputSink\<close> and its helpers of \<^verbatim>\<open>src/src/core/output-store.ts\<close>: one sink collects the
  standard output and standard error of one execution in files below its own directory and
  keeps an inline preview of each stream.

  The disk is the list of entries below the output directory. An entry is a directory with
  files, or something else that has nothing below it. Every call to the file system that may
  fail takes its outcome from an argument: which bytes a \<open>write\<close> accepted, whether \<open>open\<close>,
  \<open>sync\<close> or \<open>rename\<close> failed, and which files are left when a recursive \<open>rm\<close> fails.

  The promise chain \<open>#tail\<close> is the queue of the jobs not yet run. A job runs as one step: while
  it waits for the disk, a call on the same sink can only enqueue another job or set the
  cancelled flag, and the points where the job looks at that flag again are arguments too.
\<close>

section \<open>The disk\<close>

datatype fs_node = FileNode bytes | OtherNode
datatype fs_entry = DirEntry "(string, fs_node) jsmap" | OtherEntry

type_synonym disk = "(string, fs_entry) jsmap"

datatype io_error = ENOENT | OtherIoError

text \<open>\<open>stdout.bin\<close> and \<open>stderr.bin\<close>.\<close>

definition stream_file :: "out_stream \<Rightarrow> string" where
  "stream_file stream = (case stream of Stdout \<Rightarrow> ''stdout.bin'' | Stderr \<Rightarrow> ''stderr.bin'')"

definition METADATA_FILE :: string where "METADATA_FILE = ''metadata.json''"

text \<open>
  \<open>rm(path, {recursive: true, force: true})\<close>: a missing entry is no error. \<open>None\<close> is success;
  \<open>Some left\<close> is a failure after which only the files named in \<open>left\<close> remain.
\<close>

definition fs_rm :: "string list option \<Rightarrow> string \<Rightarrow> disk \<Rightarrow> bool \<times> disk" where
  "fs_rm outcome name fs =
     (case outcome of
        None \<Rightarrow> (True, AList.delete name fs)
      | Some left \<Rightarrow>
          (case map_of fs name of
             Some (DirEntry d) \<Rightarrow> (False, AList.update name (DirEntry (filter (\<lambda>f. fst f \<in> set left) d)) fs)
           | _ \<Rightarrow> (False, fs)))"

definition entry_files :: "disk \<Rightarrow> string \<Rightarrow> (string, fs_node) jsmap" where
  "entry_files fs name = (case map_of fs name of Some (DirEntry d) \<Rightarrow> d | _ \<Rightarrow> [])"

definition file_content :: "disk \<Rightarrow> string \<Rightarrow> string \<Rightarrow> bytes" where
  "file_content fs name file = (case map_of (entry_files fs name) file of Some (FileNode b) \<Rightarrow> b | _ \<Rightarrow> [])"

text \<open>Replacing the content of a file in an existing directory.\<close>

definition fs_put :: "string \<Rightarrow> string \<Rightarrow> bytes \<Rightarrow> disk \<Rightarrow> disk" where
  "fs_put name file content fs =
     (case map_of fs name of
        Some (DirEntry d) \<Rightarrow> AList.update name (DirEntry (AList.update file (FileNode content) d)) fs
      | _ \<Rightarrow> fs)"

text \<open>\<open>open(path, "wx")\<close>: the directory must exist and the file must not.\<close>

definition can_create :: "disk \<Rightarrow> string \<Rightarrow> string \<Rightarrow> bool" where
  "can_create fs name file =
     (case map_of fs name of Some (DirEntry d) \<Rightarrow> map_of d file = None | _ \<Rightarrow> False)"

section \<open>Errors\<close>

definition OutputNotFoundError :: thrown where
  "OutputNotFoundError = gateway OutputNotFound ''Output reference was not found''"

definition OutputExpiredError :: thrown where
  "OutputExpiredError = gateway OutputExpired ''Output reference has expired''"

definition OutputStoreIoError :: thrown where
  "OutputStoreIoError = gateway InternalError ''Output storage operation failed''"

section \<open>Sink state\<close>

record output_metadata =
  om_expiresAtMs :: int
  om_stdoutBytes :: int
  om_stderrBytes :: int

definition metadataBytes :: "output_metadata \<Rightarrow> int" where
  "metadataBytes m = om_stdoutBytes m + om_stderrBytes m"

record stream_state =
  st_inlineChunks :: "bytes list"
  st_inlineBytes :: int
  st_totalBytes :: int
  st_handle :: bool

definition new_stream_state :: stream_state where
  "new_stream_state = \<lparr>st_inlineChunks = [], st_inlineBytes = 0, st_totalBytes = 0, st_handle = False\<rparr>"

record stream_summary =
  sm_text :: bytes
  sm_bytes :: int
  sm_inlineTruncated :: bool

record stored_output =
  so_stdout :: stream_summary
  so_stderr :: stream_summary
  so_outputRef :: "string option"
  so_outputExpiresAt :: "int option" \<comment> \<open>milliseconds; the code prints it with \<open>toISOString\<close>\<close>

datatype 'a promise = NoPromise | Pending | Settled "thrown + 'a"

datatype sink_job = AppendJob out_stream bytes | FinalizeJob | AbortJob

record sink =
  sk_reference :: string \<comment> \<open>also the name of the directory below the output directory\<close>
  sk_inlineBytesPerStream :: int
  sk_maxStoredBytes :: int
  sk_ttlMs :: int
  sk_stdout :: stream_state
  sk_stderr :: stream_state
  sk_tail :: "sink_job list"
  sk_accepting :: bool
  sk_limitError :: "thrown option"
  sk_fatalError :: "thrown option"
  sk_finalizePromise :: "stored_output promise"
  sk_abortPromise :: "unit promise"
  sk_cancelled :: bool
  sk_published :: bool

definition new_sink :: "string \<Rightarrow> int \<Rightarrow> int \<Rightarrow> int \<Rightarrow> sink" where
  "new_sink reference inlineBytesPerStream maxStoredBytes ttlMs =
     \<lparr>sk_reference = reference, sk_inlineBytesPerStream = inlineBytesPerStream,
      sk_maxStoredBytes = maxStoredBytes, sk_ttlMs = ttlMs,
      sk_stdout = new_stream_state, sk_stderr = new_stream_state, sk_tail = [],
      sk_accepting = True, sk_limitError = None, sk_fatalError = None,
      sk_finalizePromise = NoPromise, sk_abortPromise = NoPromise,
      sk_cancelled = False, sk_published = False\<rparr>"

definition sk_stream :: "out_stream \<Rightarrow> sink \<Rightarrow> stream_state" where
  "sk_stream stream sk = (case stream of Stdout \<Rightarrow> sk_stdout sk | Stderr \<Rightarrow> sk_stderr sk)"

definition set_stream :: "out_stream \<Rightarrow> stream_state \<Rightarrow> sink \<Rightarrow> sink" where
  "set_stream stream st sk =
     (case stream of Stdout \<Rightarrow> sk\<lparr>sk_stdout := st\<rparr> | Stderr \<Rightarrow> sk\<lparr>sk_stderr := st\<rparr>)"

section \<open>Calls\<close>

text \<open>The parts of the methods that run at once, before the promise chain continues.\<close>

definition sink_append :: "out_stream \<Rightarrow> bytes \<Rightarrow> sink \<Rightarrow> (thrown + unit) \<times> sink" where
  "sink_append stream chunk sk =
     (if \<not> sk_accepting sk then (Inl OutputSinkClosed, sk)
      else (Inr (), sk\<lparr>sk_tail := sk_tail sk @ [AppendJob stream chunk]\<rparr>))"

definition sink_cancel :: "sink \<Rightarrow> sink" where
  "sink_cancel sk =
     (if sk_published sk \<or> sk_finalizePromise sk \<noteq> NoPromise \<or> sk_abortPromise sk \<noteq> NoPromise then sk
      else sk\<lparr>sk_accepting := False, sk_cancelled := True\<rparr>)"

definition sink_finalize :: "sink \<Rightarrow> (thrown + unit) \<times> sink" where
  "sink_finalize sk =
     (if sk_finalizePromise sk \<noteq> NoPromise then (Inr (), sk)
      else if sk_abortPromise sk \<noteq> NoPromise then (Inl OutputSinkClosed, sk)
      else if sk_cancelled sk then (Inl OutputSinkClosed, sk)
      else (Inr (), sk\<lparr>sk_accepting := False, sk_finalizePromise := Pending,
                      sk_tail := sk_tail sk @ [FinalizeJob]\<rparr>))"

definition sink_abort :: "sink \<Rightarrow> sink" where
  "sink_abort sk =
     (if sk_published sk \<or> sk_finalizePromise sk \<noteq> NoPromise then sk
      else if sk_abortPromise sk \<noteq> NoPromise then sk
      else let sk1 = sink_cancel sk in
        sk1\<lparr>sk_abortPromise := Pending, sk_tail := sk_tail sk1 @ [AbortJob]\<rparr>)"

section \<open>Writing\<close>

datatype write_result = Wrote nat | WriteFails

text \<open>
  The loop of \<open>writeEntireBuffer\<close>: \<open>outcomes\<close> answers the \<open>i\<close>-th call of \<open>handle.write\<close>; the
  handle's position is the end of the file.
\<close>

function write_loop :: "(nat \<Rightarrow> write_result) \<Rightarrow> nat \<Rightarrow> bytes \<Rightarrow> nat \<Rightarrow> bytes \<Rightarrow> (thrown + unit) \<times> bytes" where
  "write_loop outcomes i buffer offset file =
     (if offset < length buffer
      then (case outcomes i of
              WriteFails \<Rightarrow> (Inl (PlainError ''write failed''), file)
            | Wrote n \<Rightarrow>
                if n = 0 then (Inl (PlainError ''Output storage write made no progress''), file)
                else write_loop outcomes (Suc i) buffer (offset + n) (file @ take n (drop offset buffer)))
      else (Inr (), file))"
  by pat_completeness auto

termination
  by (relation "measure (\<lambda>(_, _, buffer, offset, _). length buffer - offset)") auto

declare write_loop.simps [simp del]

definition writeEntireBuffer :: "(nat \<Rightarrow> write_result) \<Rightarrow> bytes \<Rightarrow> bytes \<Rightarrow> (thrown + unit) \<times> bytes" where
  "writeEntireBuffer outcomes buffer file = write_loop outcomes 0 buffer 0 file"

record append_io =
  ai_openFails :: bool
  ai_cancelDuringOpen :: bool
  ai_writes :: "nat \<Rightarrow> write_result"
  ai_cancelDuringWrite :: bool

text \<open>
  Storing one chunk: \<open>open\<close> unless a handle is there, then the write, with a look at the
  cancelled flag after each. The result is \<open>False\<close> where the code enters its \<open>catch\<close> block.
\<close>

definition open_stream :: "append_io \<Rightarrow> out_stream \<Rightarrow> sink \<Rightarrow> disk \<Rightarrow> bool \<times> sink \<times> disk" where
  "open_stream io stream sk fs =
     (let r = sk_reference sk; file = stream_file stream; st = sk_stream stream sk in
      if st_handle st then (True, sk, fs)
      else
        let sk1 = (if ai_cancelDuringOpen io then sink_cancel sk else sk) in
        if ai_openFails io \<or> \<not> can_create fs r file then (False, sk1, fs)
        else (True, set_stream stream (st\<lparr>st_handle := True\<rparr>) sk1, fs_put r file [] fs))"

definition write_stream :: "append_io \<Rightarrow> out_stream \<Rightarrow> bytes \<Rightarrow> sink \<Rightarrow> disk \<Rightarrow> bool \<times> sink \<times> disk" where
  "write_stream io stream storedChunk sk fs =
     (let r = sk_reference sk; file = stream_file stream;
          (written, content) = writeEntireBuffer (ai_writes io) storedChunk (file_content fs r file) in
      (is_ok written, if ai_cancelDuringWrite io then sink_cancel sk else sk, fs_put r file content fs))"

definition store_chunk :: "append_io \<Rightarrow> out_stream \<Rightarrow> bytes \<Rightarrow> sink \<Rightarrow> disk \<Rightarrow> bool \<times> sink \<times> disk" where
  "store_chunk io stream storedChunk sk fs =
     (case open_stream io stream sk fs of
        (opened, sk1, fs1) \<Rightarrow>
          if \<not> opened \<or> sk_cancelled sk1 then (False, sk1, fs1)
          else (case write_stream io stream storedChunk sk1 fs1 of
                  (written, sk2, fs2) \<Rightarrow> (written \<and> \<not> sk_cancelled sk2, sk2, fs2)))"

text \<open>The preview and the counters after a stored chunk.\<close>

definition count_chunk :: "int \<Rightarrow> bytes \<Rightarrow> stream_state \<Rightarrow> stream_state" where
  "count_chunk inlineBytesPerStream storedChunk st =
     (let inlineRemaining = inlineBytesPerStream - st_inlineBytes st;
          st1 = (if inlineRemaining > 0
                 then let inlineChunk = take (nat (min inlineRemaining (int (length storedChunk)))) storedChunk in
                   st\<lparr>st_inlineChunks := st_inlineChunks st @ [inlineChunk],
                     st_inlineBytes := st_inlineBytes st + int (length inlineChunk)\<rparr>
                 else st) in
      st1\<lparr>st_totalBytes := st_totalBytes st1 + int (length storedChunk)\<rparr>)"

definition limit_error :: "byte_reservation \<Rightarrow> int \<Rightarrow> int \<Rightarrow> int \<Rightarrow> int \<Rightarrow> thrown" where
  "limit_error reservation requestedBytes maxStoredBytes totalBytesBeforeAppend chunkBytes =
     (case br_entryLimit reservation of
        Some (currentEntries, maxEntries) \<Rightarrow> OutputLimitExceeded LimitEntries maxEntries currentEntries 1
      | None \<Rightarrow>
          if br_grantedBytes reservation < requestedBytes
          then OutputLimitExceeded LimitBytes (br_maxBytes reservation) (br_currentBytes reservation) chunkBytes
          else OutputLimitExceeded LimitBytes maxStoredBytes totalBytesBeforeAppend chunkBytes)"

definition append_refused :: "sink \<Rightarrow> thrown option" where
  "append_refused sk =
     (if sk_cancelled sk then Some OutputSinkClosed
      else case sk_fatalError sk of Some e \<Rightarrow> Some e | None \<Rightarrow> sk_limitError sk)"

definition bytes_stored :: "sink \<Rightarrow> int" where
  "bytes_stored sk = st_totalBytes (sk_stdout sk) + st_totalBytes (sk_stderr sk)"

definition requested_bytes :: "sink \<Rightarrow> bytes \<Rightarrow> int" where
  "requested_bytes sk chunk = min (sk_maxStoredBytes sk - bytes_stored sk) (int (length chunk))"

text \<open>The part of \<open>#appendNow\<close> after the reservation.\<close>

definition append_granted ::
  "append_io \<Rightarrow> out_stream \<Rightarrow> bytes \<Rightarrow> byte_reservation \<Rightarrow> sink \<Rightarrow> disk \<Rightarrow> (thrown + unit) \<times> sink \<times> disk" where
  "append_granted io stream chunk reservation sk fs =
     (let storedChunk = take (nat (br_grantedBytes reservation)) chunk;
          (stored, sk1, fs1) =
            (if storedChunk = [] then (True, sk, fs) else store_chunk io stream storedChunk sk fs) in
      if \<not> stored
      then if sk_cancelled sk1 then (Inl OutputSinkClosed, sk1, fs1)
           else (Inl OutputStoreIoError, sk1\<lparr>sk_fatalError := Some OutputStoreIoError\<rparr>, fs1)
      else
        let sk2 = (if storedChunk = [] then sk1
                   else set_stream stream
                     (count_chunk (sk_inlineBytesPerStream sk1) storedChunk (sk_stream stream sk1)) sk1) in
        if length storedChunk \<noteq> length chunk
        then let e = limit_error reservation (requested_bytes sk chunk) (sk_maxStoredBytes sk)
                   (bytes_stored sk) (int (length chunk)) in
          (Inl e, sk2\<lparr>sk_limitError := Some e\<rparr>, fs1)
        else (Inr (), sk2, fs1))"

definition appendNow ::
  "append_io \<Rightarrow> out_stream \<Rightarrow> bytes \<Rightarrow> sink \<times> disk \<times> quota \<Rightarrow> (thrown + unit) \<times> sink \<times> disk \<times> quota" where
  "appendNow io stream chunk s =
     (case s of (sk, fs, q) \<Rightarrow>
      (case append_refused sk of
         Some e \<Rightarrow> (Inl e, s)
       | None \<Rightarrow>
           if chunk = [] then (Inr (), s)
           else
             let (reservation, q1) = q_reserve q (sk_reference sk) (requested_bytes sk chunk);
                 (result, sk1, fs1) = append_granted io stream chunk reservation sk fs in
             (result, sk1, fs1, q1)))"

section \<open>Finishing\<close>

definition summarizeStream :: "stream_state \<Rightarrow> int \<Rightarrow> stream_summary" where
  "summarizeStream st inlineBytesPerStream =
     (let inline = take (nat (st_inlineBytes st)) (concat (st_inlineChunks st));
          truncated = (st_totalBytes st > inlineBytesPerStream);
          textBytes = (if truncated then take (completeUtf8PrefixLength inline) inline else inline) in
      \<lparr>sm_text = utf8_decode textBytes, sm_bytes = st_totalBytes st, sm_inlineTruncated = truncated\<rparr>)"

text \<open>\<open>fails\<close> says on which stream \<open>sync\<close> or \<open>close\<close> fails.\<close>

definition closeHandles :: "(out_stream \<Rightarrow> bool) \<Rightarrow> sink \<Rightarrow> (thrown + unit) \<times> sink" where
  "closeHandles fails sk =
     (if (\<exists>stream \<in> {Stdout, Stderr}. st_handle (sk_stream stream sk) \<and> fails stream)
      then Inl OutputStoreIoError else Inr (),
      sk\<lparr>sk_stdout := (sk_stdout sk)\<lparr>st_handle := False\<rparr>,
        sk_stderr := (sk_stderr sk)\<lparr>st_handle := False\<rparr>\<rparr>)"

text \<open>\<open>JSON.stringify(metadata)\<close> and a line feed.\<close>

definition metadata_text :: "output_metadata \<Rightarrow> string" where
  "metadata_text m =
     ''{\"version\":1,\"expiresAtMs\":'' @ show_int (om_expiresAtMs m)
     @ '',\"stdoutBytes\":'' @ show_int (om_stdoutBytes m)
     @ '',\"stderrBytes\":'' @ show_int (om_stderrBytes m) @ ''}'' @ [newline]"

text \<open>
  The temporary metadata file is opened, written, synced, closed and renamed. \<open>Some left\<close> is a
  failure of one of these calls that leaves the temporary file with content \<open>left\<close>, or none.
\<close>

definition temporary_name :: "bytes \<Rightarrow> string" where
  "temporary_name randomBytes = ''.metadata-'' @ hex randomBytes @ ''.tmp''"

record finalize_io =
  fi_closeFails :: "out_stream \<Rightarrow> bool"
  fi_randomBytes :: bytes
  fi_metadataFails :: "bytes option option"
  fi_rm :: "string list option"
  fi_rmAfterError :: "string list option"

text \<open>
  The expiry is also printed by \<^verbatim>\<open>toISOString\<close>, which throws beyond 8.64e15 milliseconds; with a lifetime of at most
  86400 seconds, as the configuration demands, this takes a clock in the year 275760, and is left out.
\<close>

definition finalizeNow ::
  "finalize_io \<Rightarrow> int \<Rightarrow> sink \<times> disk \<times> quota \<Rightarrow> (thrown + stored_output) \<times> sink \<times> disk \<times> quota" where
  "finalizeNow io now s =
     (case s of (sk, fs, q) \<Rightarrow>
      let r = sk_reference sk; (closed, sk1) = closeHandles (fi_closeFails io) sk in
      case sk_fatalError sk of
        Some e \<Rightarrow>
          (case closed of
             Inl ce \<Rightarrow> (Inl ce, sk1, fs, q)
           | Inr _ \<Rightarrow> (Inl e, sk1, snd (fs_rm (fi_rm io) r fs), q))
      | None \<Rightarrow>
          (case closed of
             Inl ce \<Rightarrow> (Inl ce, sk1, fs, q)
           | Inr _ \<Rightarrow>
               let stdout = summarizeStream (sk_stdout sk1) (sk_inlineBytesPerStream sk1);
                   stderr = summarizeStream (sk_stderr sk1) (sk_inlineBytesPerStream sk1) in
               if \<not> sm_inlineTruncated stdout \<and> \<not> sm_inlineTruncated stderr
               then (case fs_rm (fi_rm io) r fs of
                       (True, fs1) \<Rightarrow>
                         (Inr \<lparr>so_stdout = stdout, so_stderr = stderr, so_outputRef = None,
                               so_outputExpiresAt = None\<rparr>, sk1, fs1, q_release q r)
                     | (False, fs1) \<Rightarrow> (Inl OutputStoreIoError, sk1, fs1, q))
               else
                 let expiresAtMs = now + sk_ttlMs sk1;
                     metadata = \<lparr>om_expiresAtMs = expiresAtMs,
                       om_stdoutBytes = st_totalBytes (sk_stdout sk1),
                       om_stderrBytes = st_totalBytes (sk_stderr sk1)\<rparr> in
                 (case fi_metadataFails io of
                    Some left \<Rightarrow>
                      let fs1 = (case left of None \<Rightarrow> fs | Some b \<Rightarrow> fs_put r (temporary_name (fi_randomBytes io)) b fs) in
                      (Inl OutputStoreIoError, sk1, snd (fs_rm (fi_rm io) r fs1), q)
                  | None \<Rightarrow>
                      (Inr \<lparr>so_stdout = stdout, so_stderr = stderr, so_outputRef = Some r,
                            so_outputExpiresAt = Some expiresAtMs\<rparr>,
                       sk1\<lparr>sk_published := True\<rparr>,
                       fs_put r METADATA_FILE (buffer_from (metadata_text metadata)) fs, q))))"

text \<open>The job \<open>finalize\<close> puts on the chain: an error closes the handles again and removes the directory.\<close>

definition finalize_job ::
  "finalize_io \<Rightarrow> int \<Rightarrow> sink \<times> disk \<times> quota \<Rightarrow> sink \<times> disk \<times> quota" where
  "finalize_job io now s =
     (case finalizeNow io now s of
        (Inr summary, sk, fs, q) \<Rightarrow> (sk\<lparr>sk_finalizePromise := Settled (Inr summary)\<rparr>, fs, q)
      | (Inl e, sk, fs, q) \<Rightarrow>
          let sk1 = snd (closeHandles (\<lambda>_. False) sk);
              (removed, fs1) = fs_rm (fi_rmAfterError io) (sk_reference sk) fs in
          (sk1\<lparr>sk_finalizePromise := Settled (Inl e)\<rparr>, fs1,
           if removed then q_release q (sk_reference sk) else q))"

definition abort_job ::
  "finalize_io \<Rightarrow> sink \<times> disk \<times> quota \<Rightarrow> sink \<times> disk \<times> quota" where
  "abort_job io s =
     (case s of (sk, fs, q) \<Rightarrow>
      let (closed, sk1) = closeHandles (fi_closeFails io) sk;
          (removed, fs1) = fs_rm (fi_rm io) (sk_reference sk) fs;
          outcome = (if is_ok closed \<and> removed then Inr () else Inl OutputStoreIoError) in
      (sk1\<lparr>sk_abortPromise := Settled outcome\<rparr>, fs1,
       if removed then q_release q (sk_reference sk) else q))"

text \<open>The next job of the chain.\<close>

definition sink_run ::
  "append_io \<Rightarrow> finalize_io \<Rightarrow> int \<Rightarrow> sink \<times> disk \<times> quota \<Rightarrow> sink \<times> disk \<times> quota" where
  "sink_run aio fio now s =
     (case s of (sk, fs, q) \<Rightarrow>
      (case sk_tail sk of
         [] \<Rightarrow> s
       | AppendJob stream chunk # jobs \<Rightarrow> snd (appendNow aio stream chunk (sk\<lparr>sk_tail := jobs\<rparr>, fs, q))
       | FinalizeJob # jobs \<Rightarrow> finalize_job fio now (sk\<lparr>sk_tail := jobs\<rparr>, fs, q)
       | AbortJob # jobs \<Rightarrow> abort_job fio (sk\<lparr>sk_tail := jobs\<rparr>, fs, q)))"

section \<open>Writing the whole buffer\<close>

lemma write_loop_spec:
  "\<exists>k. snd (write_loop outcomes i buffer offset file) = file @ take k (drop offset buffer)
     \<and> (is_ok (fst (write_loop outcomes i buffer offset file)) \<longrightarrow> length buffer \<le> offset + k)"
proof (induction outcomes i buffer offset "file" rule: write_loop.induct)
  case (1 outcomes i buffer offset "file")
  show ?case
  proof (cases "offset < length buffer \<and> (\<exists>n > 0. outcomes i = Wrote n)")
    case True
    then obtain n where n: "offset < length buffer" "outcomes i = Wrote n" "0 < n" by blast
    let ?r = "write_loop outcomes (Suc i) buffer (offset + n) (file @ take n (drop offset buffer))"
    from n have e: "write_loop outcomes i buffer offset file = ?r"
      by (subst write_loop.simps) simp
    from 1 [OF n(1,2)] n(3) obtain k where
      k: "snd ?r = (file @ take n (drop offset buffer)) @ take k (drop (offset + n) buffer)"
        "is_ok (fst ?r) \<Longrightarrow> length buffer \<le> offset + n + k" by auto
    have "take n (drop offset buffer) @ take k (drop (offset + n) buffer) = take (n + k) (drop offset buffer)"
      unfolding take_add drop_drop by (simp add: add.commute)
    with k show ?thesis unfolding e by (intro exI [of _ "n + k"]) auto
  next
    case False
    then have "\<not> offset < length buffer \<or> outcomes i = WriteFails \<or> outcomes i = Wrote 0"
      by (cases "outcomes i") auto
    then have "write_loop outcomes i buffer offset file \<in> {(Inr (), file)} \<union> {(Inl e, file) | e. True}"
      "is_ok (fst (write_loop outcomes i buffer offset file)) \<Longrightarrow> length buffer \<le> offset"
      by (auto simp: write_loop.simps [of outcomes i] split: write_result.splits if_splits)
    then show ?thesis by (intro exI [of _ 0]) auto
  qed
qed

lemma writeEntireBuffer_prefix:
  obtains k where "snd (writeEntireBuffer outcomes buffer file) = file @ take k buffer"
  using write_loop_spec [of outcomes 0 buffer 0 "file"] by (auto simp: writeEntireBuffer_def)

lemma writeEntireBuffer_ok:
  assumes "writeEntireBuffer outcomes buffer file = (r, file')" "is_ok r"
  shows "file' = file @ buffer"
  using write_loop_spec [of outcomes 0 buffer 0 "file"] assms by (auto simp: writeEntireBuffer_def)

lemma writeEntireBuffer_full:
  assumes "outcomes 0 = Wrote (length buffer)" "buffer \<noteq> []"
  shows "writeEntireBuffer outcomes buffer file = (Inr (), file @ buffer)"
  using assms by (simp add: writeEntireBuffer_def write_loop.simps)

section \<open>Effects on the disk\<close>

lemma stream_file_inject [simp]: "stream_file a = stream_file b \<longleftrightarrow> a = b"
  by (cases a; cases b) (simp_all add: stream_file_def)

lemma stream_file_neq [simp]: "stream_file a \<noteq> METADATA_FILE" "METADATA_FILE \<noteq> stream_file a"
  by (cases a; simp add: stream_file_def METADATA_FILE_def)+

lemma map_of_key_filter: "map_of (filter (\<lambda>f. fst f \<in> S) d) k = (if k \<in> S then map_of d k else None)"
  by (induction d) auto

definition payload :: "disk \<Rightarrow> string \<Rightarrow> int" where
  "payload fs name =
     int (length (file_content fs name (stream_file Stdout)))
     + int (length (file_content fs name (stream_file Stderr)))"

lemma payload_nonneg [simp]: "0 \<le> payload fs name"
  by (simp add: payload_def)

lemma entry_files_update [simp]:
  "entry_files (AList.update name (DirEntry d) fs) x = (if x = name then d else entry_files fs x)"
  by (simp add: entry_files_def update_conv')

lemma entry_files_delete [simp]:
  "entry_files (AList.delete name fs) x = (if x = name then [] else entry_files fs x)"
  by (simp add: entry_files_def delete_conv')

lemma file_content_put_other [simp]:
  "x \<noteq> name \<Longrightarrow> file_content (fs_put name file b fs) x f = file_content fs x f"
  by (auto simp: fs_put_def file_content_def split: option.splits fs_entry.splits)

lemma file_content_put_le: "length (file_content (fs_put name file b fs) name file) \<le> length b"
  by (auto simp: fs_put_def file_content_def entry_files_def update_conv' split: option.splits fs_entry.splits)

lemma map_of_files_put_neq:
  "f \<noteq> file \<Longrightarrow> map_of (entry_files (fs_put name file b fs) x) f = map_of (entry_files fs x) f"
  by (cases "\<exists>d. map_of fs name = Some (DirEntry d)")
    (auto simp: fs_put_def entry_files_def update_conv' split: option.splits fs_entry.splits)

lemma file_content_put_neq [simp]:
  "f \<noteq> file \<Longrightarrow> file_content (fs_put name file b fs) x f = file_content fs x f"
  by (simp add: file_content_def map_of_files_put_neq)

lemma payload_put:
  assumes "int (length b) \<le> int (length (file_content fs name (stream_file stream))) + n"
  shows "payload (fs_put name (stream_file stream) b fs) name \<le> payload fs name + n"
  using assms file_content_put_le [of name "stream_file stream" b fs]
  by (cases stream) (auto simp: payload_def split: if_splits)

lemma payload_put_other [simp]: "x \<noteq> name \<Longrightarrow> payload (fs_put name file b fs) x = payload fs x"
  by (simp add: payload_def)

lemma payload_put_metadata [simp]:
  "(\<forall>stream. file \<noteq> stream_file stream) \<Longrightarrow> payload (fs_put name file b fs) x = payload fs x"
  by (simp add: payload_def file_content_put_neq [OF not_sym])

lemma rm_ok: "fs_rm None name fs = (True, AList.delete name fs)"
  by (simp add: fs_rm_def)

lemma rm_removed: "fs_rm outcome name fs = (True, fs') \<Longrightarrow> fs' = AList.delete name fs"
  by (auto simp: fs_rm_def split: option.splits fs_entry.splits)

lemma entry_files_rm:
  "entry_files (snd (fs_rm outcome name fs)) x =
     (if x = name
      then (case outcome of None \<Rightarrow> [] | Some left \<Rightarrow> filter (\<lambda>f. fst f \<in> set left) (entry_files fs name))
      else entry_files fs x)"
proof (cases outcome)
  case (Some left)
  show ?thesis
  proof (cases "\<exists>d. map_of fs name = Some (DirEntry d)")
    case True
    with Some show ?thesis by (auto simp: fs_rm_def entry_files_def update_conv')
  next
    case False
    then have "entry_files fs name = []" "fs_rm outcome name fs = (False, fs)"
      using Some by (auto simp: fs_rm_def entry_files_def split: option.splits fs_entry.splits)
    with Some show ?thesis by simp
  qed
qed (simp add: fs_rm_def)

lemma rm_content:
  "file_content (snd (fs_rm outcome name fs)) x f = file_content fs x f
   \<or> x = name \<and> file_content (snd (fs_rm outcome name fs)) x f = []"
  by (cases outcome) (simp_all add: file_content_def entry_files_rm map_of_key_filter)

lemma rm_payload: "payload (snd (fs_rm outcome name fs)) x \<le> payload fs x"
  using rm_content [of outcome name fs x "stream_file Stdout"] rm_content [of outcome name fs x "stream_file Stderr"]
  by (auto simp: payload_def split: if_splits)

lemma payload_delete [simp]: "payload (AList.delete name fs) x = (if x = name then 0 else payload fs x)"
  by (simp add: payload_def file_content_def)

section \<open>Every stored byte is accounted for\<close>

text \<open>
  The bytes on disk below a reference are covered by what the reference holds in the quota.
\<close>

definition accounted :: "disk \<Rightarrow> quota \<Rightarrow> bool" where
  "accounted fs q \<longleftrightarrow> (\<forall>name. payload fs name \<le> q_held q name)"

lemma accounted_rm: "accounted fs q \<Longrightarrow> accounted (snd (fs_rm outcome name fs)) q"
  unfolding accounted_def using rm_payload order_trans by blast

lemma accounted_rm_release:
  "accounted fs q \<Longrightarrow> fs_rm outcome name fs = (True, fs') \<Longrightarrow> accounted fs' (q_release q name)"
  by (auto simp: accounted_def release_held dest!: rm_removed)

lemma accounted_release_absent:
  "accounted fs q \<Longrightarrow> map_of fs name = None \<Longrightarrow> accounted fs (q_release q name)"
  by (auto simp: accounted_def release_held payload_def file_content_def entry_files_def)

text \<open>Cancelling changes two flags only.\<close>

lemma cancel_fields [simp]:
  "sk_reference (sink_cancel sk) = sk_reference sk" "sk_stdout (sink_cancel sk) = sk_stdout sk"
  "sk_stderr (sink_cancel sk) = sk_stderr sk" "sk_stream x (sink_cancel sk) = sk_stream x sk"
  "sk_maxStoredBytes (sink_cancel sk) = sk_maxStoredBytes sk" "sk_inlineBytesPerStream (sink_cancel sk) = sk_inlineBytesPerStream sk"
  "sk_fatalError (sink_cancel sk) = sk_fatalError sk" "sk_limitError (sink_cancel sk) = sk_limitError sk"
  "sk_tail (sink_cancel sk) = sk_tail sk" "sk_ttlMs (sink_cancel sk) = sk_ttlMs sk"
  "sk_published (sink_cancel sk) = sk_published sk"
  "sk_finalizePromise (sink_cancel sk) = sk_finalizePromise sk" "sk_abortPromise (sink_cancel sk) = sk_abortPromise sk"
  by (simp_all add: sink_cancel_def sk_stream_def split: out_stream.splits)

lemma cancel_id: "\<not> sk_cancelled (sink_cancel sk) \<Longrightarrow> sink_cancel sk = sk"
  by (auto simp: sink_cancel_def split: if_splits)

lemma set_stream_fields [simp]:
  "sk_reference (set_stream x st sk) = sk_reference sk"
  "sk_stream y (set_stream x st sk) = (if y = x then st else sk_stream y sk)"
  "sk_maxStoredBytes (set_stream x st sk) = sk_maxStoredBytes sk"
  "sk_inlineBytesPerStream (set_stream x st sk) = sk_inlineBytesPerStream sk"
  "sk_fatalError (set_stream x st sk) = sk_fatalError sk" "sk_limitError (set_stream x st sk) = sk_limitError sk"
  "sk_tail (set_stream x st sk) = sk_tail sk" "sk_ttlMs (set_stream x st sk) = sk_ttlMs sk"
  "sk_published (set_stream x st sk) = sk_published sk" "sk_cancelled (set_stream x st sk) = sk_cancelled sk"
  "sk_accepting (set_stream x st sk) = sk_accepting sk"
  "sk_finalizePromise (set_stream x st sk) = sk_finalizePromise sk" "sk_abortPromise (set_stream x st sk) = sk_abortPromise sk"
  by (cases x; cases y; simp add: set_stream_def sk_stream_def)+

lemma stored_stream: "sk_stdout sk = sk_stream Stdout sk" "sk_stderr sk = sk_stream Stderr sk"
  by (simp_all add: sk_stream_def)

text \<open>Storing a chunk adds at most its bytes to the sink's own directory.\<close>

lemma open_payload:
  assumes "open_stream io stream sk fs = (ok, sk', fs')"
  shows "payload fs' (sk_reference sk) \<le> payload fs (sk_reference sk)
    \<and> (\<forall>x. x \<noteq> sk_reference sk \<longrightarrow> payload fs' x = payload fs x) \<and> sk_reference sk' = sk_reference sk"
  using assms payload_put [of "[]" fs "sk_reference sk" stream 0]
  by (auto simp: open_stream_def Let_def split: if_splits)

lemma write_payload:
  assumes "write_stream io stream chunk sk fs = (ok, sk', fs')"
  shows "payload fs' (sk_reference sk) \<le> payload fs (sk_reference sk) + int (length chunk)
    \<and> (\<forall>x. x \<noteq> sk_reference sk \<longrightarrow> payload fs' x = payload fs x) \<and> sk_reference sk' = sk_reference sk"
proof -
  let ?c = "file_content fs (sk_reference sk) (stream_file stream)"
  obtain w b where wb: "writeEntireBuffer (ai_writes io) chunk ?c = (w, b)" by force
  then obtain k where "b = ?c @ take k chunk" using writeEntireBuffer_prefix [of "ai_writes io" chunk ?c] by auto
  then have "payload (fs_put (sk_reference sk) (stream_file stream) b fs) (sk_reference sk)
      \<le> payload fs (sk_reference sk) + int (length chunk)" by (intro payload_put) simp
  with assms wb show ?thesis by (auto simp: write_stream_def Let_def)
qed

lemma store_chunk_payload:
  assumes "store_chunk io stream chunk sk fs = (ok, sk', fs')"
  shows "payload fs' (sk_reference sk) \<le> payload fs (sk_reference sk) + int (length chunk)
    \<and> (\<forall>x. x \<noteq> sk_reference sk \<longrightarrow> payload fs' x = payload fs x) \<and> sk_reference sk' = sk_reference sk"
proof -
  obtain opened sk1 fs1 where o: "open_stream io stream sk fs = (opened, sk1, fs1)" by (metis prod_cases3)
  obtain written sk2 fs2 where w: "write_stream io stream chunk sk1 fs1 = (written, sk2, fs2)" by (metis prod_cases3)
  show ?thesis
    using assms open_payload [OF o] write_payload [OF w]
    by (cases "\<not> opened \<or> sk_cancelled sk1") (auto simp: store_chunk_def o w)
qed

section \<open>The sink and its files\<close>

text \<open>
  The counters and the preview of a stream agree with its file.
\<close>

definition stream_ok :: "int \<Rightarrow> stream_state \<Rightarrow> bytes \<Rightarrow> bool" where
  "stream_ok inlineBytes st content \<longleftrightarrow>
     st_totalBytes st = int (length content)
     \<and> concat (st_inlineChunks st) = take (nat inlineBytes) content
     \<and> st_inlineBytes st = int (length (take (nat inlineBytes) content))"

definition totals_ok :: "sink \<Rightarrow> bool" where
  "totals_ok sk \<longleftrightarrow> 0 \<le> sk_inlineBytesPerStream sk
     \<and> 0 \<le> st_totalBytes (sk_stdout sk) \<and> 0 \<le> st_totalBytes (sk_stderr sk)
     \<and> bytes_stored sk \<le> sk_maxStoredBytes sk"

lemma count_chunk_ok:
  assumes "stream_ok n st content" "0 \<le> n"
  shows "stream_ok n (count_chunk n chunk st) (content @ chunk)"
proof (cases "n - st_inlineBytes st > 0")
  case True
  with assms have l: "length content < nat n" by (auto simp: stream_ok_def min_def split: if_splits)
  with assms True show ?thesis
    by (auto simp: stream_ok_def count_chunk_def Let_def nat_minus_as_int min_def split: if_splits)
next
  case False
  with assms have l: "nat n \<le> length content" by (auto simp: stream_ok_def min_def split: if_splits)
  with assms False show ?thesis by (auto simp: stream_ok_def count_chunk_def Let_def)
qed

lemma count_chunk_handle [simp]: "st_handle (count_chunk n chunk st) = st_handle st"
  "st_totalBytes (count_chunk n chunk st) = st_totalBytes st + int (length chunk)"
  by (simp_all add: count_chunk_def Let_def)

lemma store_chunk_fields:
  assumes "store_chunk io stream chunk sk fs = (ok, sk', fs')"
  shows "sk_reference sk' = sk_reference sk \<and> sk_inlineBytesPerStream sk' = sk_inlineBytesPerStream sk
    \<and> sk_maxStoredBytes sk' = sk_maxStoredBytes sk \<and> sk_ttlMs sk' = sk_ttlMs sk \<and> sk_tail sk' = sk_tail sk
    \<and> sk_fatalError sk' = sk_fatalError sk \<and> sk_limitError sk' = sk_limitError sk
    \<and> sk_finalizePromise sk' = sk_finalizePromise sk \<and> sk_abortPromise sk' = sk_abortPromise sk
    \<and> sk_published sk' = sk_published sk \<and> (ok \<longrightarrow> \<not> sk_cancelled sk')
    \<and> (\<forall>x. st_totalBytes (sk_stream x sk') = st_totalBytes (sk_stream x sk))"
proof -
  have o: "sk_reference sk1 = sk_reference sk \<and> sk_inlineBytesPerStream sk1 = sk_inlineBytesPerStream sk
    \<and> sk_maxStoredBytes sk1 = sk_maxStoredBytes sk \<and> sk_ttlMs sk1 = sk_ttlMs sk \<and> sk_tail sk1 = sk_tail sk
    \<and> sk_fatalError sk1 = sk_fatalError sk \<and> sk_limitError sk1 = sk_limitError sk
    \<and> sk_finalizePromise sk1 = sk_finalizePromise sk \<and> sk_abortPromise sk1 = sk_abortPromise sk
    \<and> sk_published sk1 = sk_published sk \<and> (\<forall>x. st_totalBytes (sk_stream x sk1) = st_totalBytes (sk_stream x sk))"
    if "open_stream io stream sk fs = (ok, sk1, fs1)" for ok sk1 fs1
    using that by (auto simp: open_stream_def Let_def split: if_splits)
  have w: "sk2 = sk1 \<or> sk2 = sink_cancel sk1" if "write_stream io stream chunk sk1 fs1 = (ok, sk2, fs2)" for ok sk1 sk2 fs1 fs2
    using that by (auto simp: write_stream_def Let_def split: if_splits prod.splits)
  obtain opened sk1 fs1 where 1: "open_stream io stream sk fs = (opened, sk1, fs1)" by (metis prod_cases3)
  obtain written sk2 fs2 where 2: "write_stream io stream chunk sk1 fs1 = (written, sk2, fs2)" by (metis prod_cases3)
  show ?thesis
    using assms o [OF 1] w [OF 2] by (cases "\<not> opened \<or> sk_cancelled sk1") (auto simp: store_chunk_def 1 2)
qed

text \<open>The two outcomes of the step after the reservation.\<close>

lemma append_granted_cases:
  assumes "append_granted io stream chunk b sk fs = (res, sk', fs')"
  obtains (failed) sk1 e where "take (nat (br_grantedBytes b)) chunk \<noteq> []"
      "store_chunk io stream (take (nat (br_grantedBytes b)) chunk) sk fs = (False, sk1, fs')"
      "res = Inl e" "if sk_cancelled sk1 then sk' = sk1 \<and> e = OutputSinkClosed
        else sk' = sk1\<lparr>sk_fatalError := Some OutputStoreIoError\<rparr> \<and> e = OutputStoreIoError"
    | (stored) sk1 sk2 where
      "if take (nat (br_grantedBytes b)) chunk = [] then sk1 = sk \<and> fs' = fs \<and> sk2 = sk1
       else store_chunk io stream (take (nat (br_grantedBytes b)) chunk) sk fs = (True, sk1, fs')
         \<and> sk2 = set_stream stream (count_chunk (sk_inlineBytesPerStream sk1)
             (take (nat (br_grantedBytes b)) chunk) (sk_stream stream sk1)) sk1"
      "if length (take (nat (br_grantedBytes b)) chunk) \<noteq> length chunk
       then sk' = sk2\<lparr>sk_limitError := Some (limit_error b (requested_bytes sk chunk) (sk_maxStoredBytes sk)
           (bytes_stored sk) (int (length chunk)))\<rparr>
         \<and> res = Inl (limit_error b (requested_bytes sk chunk) (sk_maxStoredBytes sk)
           (bytes_stored sk) (int (length chunk)))
       else sk' = sk2 \<and> res = Inr ()"
proof -
  define c where "c = take (nat (br_grantedBytes b)) chunk"
  obtain ok sk1 fs1 where s: "(if c = [] then (True, sk, fs) else store_chunk io stream c sk fs) = (ok, sk1, fs1)"
    by (metis prod_cases3)
  let ?e = "limit_error b (requested_bytes sk chunk) (sk_maxStoredBytes sk) (bytes_stored sk) (int (length chunk))"
  let ?sk2 = "if c = [] then sk1 else set_stream stream
      (count_chunk (sk_inlineBytesPerStream sk1) c (sk_stream stream sk1)) sk1"
  have r: "(res, sk', fs') =
      (if \<not> ok then if sk_cancelled sk1 then (Inl OutputSinkClosed, sk1, fs1)
         else (Inl OutputStoreIoError, sk1\<lparr>sk_fatalError := Some OutputStoreIoError\<rparr>, fs1)
       else if length c \<noteq> length chunk then (Inl ?e, ?sk2\<lparr>sk_limitError := Some ?e\<rparr>, fs1)
       else (Inr (), ?sk2, fs1))"
    unfolding assms [symmetric] append_granted_def c_def [symmetric] by (simp only: Let_def s prod.case)
  then have fs1: "fs1 = fs'" by (auto split: if_splits)
  show ?thesis
  proof (cases ok)
    case True
    have 1: "if c = [] then sk1 = sk \<and> fs' = fs \<and> ?sk2 = sk1
       else store_chunk io stream c sk fs = (True, sk1, fs')
         \<and> ?sk2 = set_stream stream (count_chunk (sk_inlineBytesPerStream sk1) c (sk_stream stream sk1)) sk1"
      using s True fs1 by (simp split: if_splits)
    have 2: "if length c \<noteq> length chunk then sk' = ?sk2\<lparr>sk_limitError := Some ?e\<rparr> \<and> res = Inl ?e
       else sk' = ?sk2 \<and> res = Inr ()"
      using r True by (simp split del: if_split) (simp split: if_splits)
    show ?thesis by (rule stored [OF 1 [unfolded c_def] 2 [unfolded c_def]])
  next
    case False
    with s have 1: "c \<noteq> []" "store_chunk io stream c sk fs = (False, sk1, fs')"
      using fs1 by (auto split: if_splits)
    have 2: "res = Inl (if sk_cancelled sk1 then OutputSinkClosed else OutputStoreIoError)"
      "if sk_cancelled sk1 then sk' = sk1 \<and> (if sk_cancelled sk1 then OutputSinkClosed else OutputStoreIoError) = OutputSinkClosed
        else sk' = sk1\<lparr>sk_fatalError := Some OutputStoreIoError\<rparr>
          \<and> (if sk_cancelled sk1 then OutputSinkClosed else OutputStoreIoError) = OutputStoreIoError"
      using r False by (simp_all split: if_splits)
    show ?thesis by (rule failed [OF 1 [unfolded c_def] 2])
  qed
qed

lemma sk_stream_update [simp]:
  "sk_stream x (sk\<lparr>sk_fatalError := e\<rparr>) = sk_stream x sk" "sk_stream x (sk\<lparr>sk_limitError := e\<rparr>) = sk_stream x sk"
  "sk_stream x (sk\<lparr>sk_tail := t\<rparr>) = sk_stream x sk" "sk_stream x (sk\<lparr>sk_published := p\<rparr>) = sk_stream x sk"
  "sk_stream x (sk\<lparr>sk_finalizePromise := f\<rparr>) = sk_stream x sk" "sk_stream x (sk\<lparr>sk_abortPromise := a\<rparr>) = sk_stream x sk"
  "sk_stream x (sk\<lparr>sk_accepting := c\<rparr>) = sk_stream x sk"
  by (simp_all add: sk_stream_def split: out_stream.splits)

lemma bytes_stored_alt: "bytes_stored sk = st_totalBytes (sk_stream Stdout sk) + st_totalBytes (sk_stream Stderr sk)"
  by (simp add: bytes_stored_def sk_stream_def)

lemma totals_ok_alt: "totals_ok sk \<longleftrightarrow> 0 \<le> sk_inlineBytesPerStream sk
     \<and> 0 \<le> st_totalBytes (sk_stream Stdout sk) \<and> 0 \<le> st_totalBytes (sk_stream Stderr sk)
     \<and> bytes_stored sk \<le> sk_maxStoredBytes sk"
  by (simp add: totals_ok_def sk_stream_def)

lemma append_granted_effect:
  assumes "append_granted io stream chunk b sk fs = (res, sk', fs')" "0 \<le> br_grantedBytes b"
  shows "payload fs' (sk_reference sk) \<le> payload fs (sk_reference sk) + br_grantedBytes b
    \<and> (\<forall>x. x \<noteq> sk_reference sk \<longrightarrow> payload fs' x = payload fs x)
    \<and> sk_reference sk' = sk_reference sk \<and> sk_maxStoredBytes sk' = sk_maxStoredBytes sk
    \<and> sk_inlineBytesPerStream sk' = sk_inlineBytesPerStream sk \<and> sk_ttlMs sk' = sk_ttlMs sk
    \<and> sk_tail sk' = sk_tail sk \<and> sk_published sk' = sk_published sk
    \<and> sk_finalizePromise sk' = sk_finalizePromise sk \<and> sk_abortPromise sk' = sk_abortPromise sk
    \<and> bytes_stored sk' \<le> bytes_stored sk + br_grantedBytes b
    \<and> (\<forall>x. st_totalBytes (sk_stream x sk) \<le> st_totalBytes (sk_stream x sk'))"
proof -
  let ?c = "take (nat (br_grantedBytes b)) chunk"
  have l: "int (length ?c) \<le> br_grantedBytes b" using assms(2) by (simp add: min_def) linarith
  from assms(1) show ?thesis
  proof (cases rule: append_granted_cases)
    case (failed sk1 e)
    from store_chunk_payload [OF failed(2)] store_chunk_fields [OF failed(2)] failed(4) l assms(2)
    show ?thesis by (cases "sk_cancelled sk1") (simp_all add: bytes_stored_alt)
  next
    case (stored sk1 sk2)
    show ?thesis
    proof (cases "?c = []")
      case True
      with stored assms(2) show ?thesis
        by (cases "chunk = []") (simp_all add: bytes_stored_alt)
    next
      case False
      with stored(1) have s: "store_chunk io stream ?c sk fs = (True, sk1, fs')"
        and sk2: "sk2 = set_stream stream (count_chunk (sk_inlineBytesPerStream sk1) ?c (sk_stream stream sk1)) sk1" by auto
      obtain lim where sk': "sk' = sk2\<lparr>sk_limitError := lim\<rparr>"
        using stored(2) by (cases "length ?c = length chunk") (auto intro: that [of "sk_limitError sk2"])
      have t: "st_totalBytes (sk_stream x sk') = st_totalBytes (sk_stream x sk) + (if x = stream then int (length ?c) else 0)" for x
        using store_chunk_fields [OF s] by (simp add: sk' sk2)
      have "bytes_stored sk' = bytes_stored sk + int (length ?c)"
        using t [of Stdout] t [of Stderr] by (cases stream) (simp_all add: bytes_stored_alt)
      with store_chunk_payload [OF s] store_chunk_fields [OF s] t l show ?thesis
        by (auto simp: sk' sk2)
    qed
  qed
qed

lemma requested_nonneg: "totals_ok sk \<Longrightarrow> 0 \<le> requested_bytes sk chunk"
  by (simp add: totals_ok_def requested_bytes_def)

lemma appendNow_cases:
  assumes "appendNow io stream chunk (sk, fs, q) = (res, sk', fs', q')"
  obtains (refused) e where "append_refused sk = Some e" "res = Inl e" "sk' = sk" "fs' = fs" "q' = q"
    | (empty) "append_refused sk = None" "chunk = []" "res = Inr ()" "sk' = sk" "fs' = fs" "q' = q"
    | (reserved) b where "append_refused sk = None" "chunk \<noteq> []"
        "q_reserve q (sk_reference sk) (requested_bytes sk chunk) = (b, q')"
        "append_granted io stream chunk b sk fs = (res, sk', fs')"
proof (cases "append_refused sk")
  case (Some e)
  with assms show ?thesis by (intro refused) (auto simp: appendNow_def)
next
  case None
  with assms show ?thesis by (cases "chunk = []") (auto simp: appendNow_def Let_def split: prod.splits intro: empty reserved)
qed

lemma append_accounted:
  assumes "appendNow io stream chunk (sk, fs, q) = (res, sk', fs', q')"
    and "quota_inv q" "accounted fs q" "totals_ok sk"
  shows "quota_inv q' \<and> accounted fs' q' \<and> totals_ok sk' \<and> sk_reference sk' = sk_reference sk
    \<and> q_maxBytes q' = q_maxBytes q \<and> q_maxEntries q' = q_maxEntries q
    \<and> sk_tail sk' = sk_tail sk \<and> sk_published sk' = sk_published sk
    \<and> sk_finalizePromise sk' = sk_finalizePromise sk \<and> sk_abortPromise sk' = sk_abortPromise sk
    \<and> sk_inlineBytesPerStream sk' = sk_inlineBytesPerStream sk \<and> sk_ttlMs sk' = sk_ttlMs sk
    \<and> sk_maxStoredBytes sk' = sk_maxStoredBytes sk"
  using assms(1)
proof (cases rule: appendNow_cases)
  case (reserved b)
  note n = requested_nonneg [OF assms(4), of chunk]
  note g = reserve_granted [OF assms(2) n reserved(3)]
  note e = append_granted_effect [OF reserved(4) conjunct1 [OF g]]
  have "accounted fs' q'"
    unfolding accounted_def
  proof
    fix name
    have a: "payload fs name \<le> q_held q name" using assms(3) by (simp add: accounted_def)
    show "payload fs' name \<le> q_held q' name"
    proof (cases "name = sk_reference sk")
      case True
      with a e g show ?thesis by simp
    next
      case False
      then have "payload fs' name = payload fs name" "q_held q' name = q_held q name" using e g by simp_all
      with a show ?thesis by simp
    qed
  qed
  moreover have "totals_ok sk'"
  proof -
    have "0 \<le> st_totalBytes (sk_stream x sk')" for x
      using e assms(4) by (cases x) (auto simp: totals_ok_alt intro: order_trans)
    moreover have "bytes_stored sk' \<le> sk_maxStoredBytes sk'"
      using e g by (simp add: requested_bytes_def)
    ultimately show ?thesis using e assms(4) by (simp add: totals_ok_alt)
  qed
  ultimately show ?thesis
    using e reserve_inv [OF assms(2) reserved(3)] reserve_limits [OF reserved(3)] by blast
qed (use assms in auto)

subsection \<open>Finishing a sink\<close>

lemma temporary_name_neq [simp]: "temporary_name b \<noteq> stream_file stream"
  by (cases stream) (simp_all add: temporary_name_def stream_file_def)

lemma closeHandles_result:
  "closeHandles fails sk = (res, sk') \<Longrightarrow>
   sk' = sk\<lparr>sk_stdout := (sk_stdout sk)\<lparr>st_handle := False\<rparr>, sk_stderr := (sk_stderr sk)\<lparr>st_handle := False\<rparr>\<rparr>
   \<and> res \<in> {Inl OutputStoreIoError, Inr ()}"
  by (simp add: closeHandles_def split: if_splits)

lemma closeHandles_stream [simp]: "sk_stream x (snd (closeHandles fails sk)) = (sk_stream x sk)\<lparr>st_handle := False\<rparr>"
  by (cases x) (simp_all add: closeHandles_def sk_stream_def)

lemma closeHandles_fields [simp]:
  "sk_reference (snd (closeHandles fails sk)) = sk_reference sk"
  "sk_maxStoredBytes (snd (closeHandles fails sk)) = sk_maxStoredBytes sk"
  "sk_inlineBytesPerStream (snd (closeHandles fails sk)) = sk_inlineBytesPerStream sk"
  "sk_ttlMs (snd (closeHandles fails sk)) = sk_ttlMs sk"
  "sk_tail (snd (closeHandles fails sk)) = sk_tail sk"
  "sk_published (snd (closeHandles fails sk)) = sk_published sk"
  "sk_accepting (snd (closeHandles fails sk)) = sk_accepting sk"
  "sk_cancelled (snd (closeHandles fails sk)) = sk_cancelled sk"
  "sk_fatalError (snd (closeHandles fails sk)) = sk_fatalError sk"
  "sk_finalizePromise (snd (closeHandles fails sk)) = sk_finalizePromise sk"
  "sk_abortPromise (snd (closeHandles fails sk)) = sk_abortPromise sk"
  by (simp_all add: closeHandles_def)

lemma closeHandles_totals [simp]: "totals_ok (snd (closeHandles fails sk)) = totals_ok sk"
  by (simp add: totals_ok_def bytes_stored_def closeHandles_def)

text \<open>The four ways \<open>#finalizeNow\<close> ends.\<close>

definition summary_of :: "sink \<Rightarrow> string option \<Rightarrow> int option \<Rightarrow> stored_output" where
  "summary_of sk ref expires =
     \<lparr>so_stdout = summarizeStream (sk_stdout sk) (sk_inlineBytesPerStream sk),
      so_stderr = summarizeStream (sk_stderr sk) (sk_inlineBytesPerStream sk),
      so_outputRef = ref, so_outputExpiresAt = expires\<rparr>"

definition truncated :: "sink \<Rightarrow> bool" where
  "truncated sk \<longleftrightarrow> st_totalBytes (sk_stream Stdout sk) > sk_inlineBytesPerStream sk
     \<or> st_totalBytes (sk_stream Stderr sk) > sk_inlineBytesPerStream sk"

lemma summarize_close [simp]: "summarizeStream (st\<lparr>st_handle := h\<rparr>) n = summarizeStream st n"
  by (simp add: summarizeStream_def)

lemma finalizeNow_cases:
  assumes "finalizeNow io now (sk, fs, q) = (res, sk', fs', q')"
  obtains (failed) e where "res = Inl e" "sk' = snd (closeHandles (fi_closeFails io) sk)" "q' = q"
      "fs' = fs \<or> fs' = snd (fs_rm (fi_rm io) (sk_reference sk) fs)
       \<or> (\<exists>b. fs' = snd (fs_rm (fi_rm io) (sk_reference sk)
             (fs_put (sk_reference sk) (temporary_name (fi_randomBytes io)) b fs)))"
    | (inline) "sk_fatalError sk = None" "\<not> truncated sk" "fs_rm (fi_rm io) (sk_reference sk) fs = (True, fs')"
        "res = Inr (summary_of sk None None)" "sk' = snd (closeHandles (fi_closeFails io) sk)"
        "q' = q_release q (sk_reference sk)"
    | (published) "sk_fatalError sk = None" "truncated sk" "q' = q"
        "res = Inr (summary_of sk (Some (sk_reference sk)) (Some (now + sk_ttlMs sk)))"
        "sk' = (snd (closeHandles (fi_closeFails io) sk))\<lparr>sk_published := True\<rparr>"
        "fs' = fs_put (sk_reference sk) METADATA_FILE (buffer_from (metadata_text
           \<lparr>om_expiresAtMs = now + sk_ttlMs sk, om_stdoutBytes = st_totalBytes (sk_stream Stdout sk),
            om_stderrBytes = st_totalBytes (sk_stream Stderr sk)\<rparr>)) fs"
proof -
  obtain closed sk1 where c: "closeHandles (fi_closeFails io) sk = (closed, sk1)" by force
  have sk1: "sk1 = snd (closeHandles (fi_closeFails io) sk)" by (simp add: c)
  note r = closeHandles_result [OF c]
  have sum: "summarizeStream (sk_stdout sk1) n = summarizeStream (sk_stdout sk) n"
    "summarizeStream (sk_stderr sk1) n = summarizeStream (sk_stderr sk) n" for n
    using r by simp_all
  have tr: "sm_inlineTruncated (summarizeStream st n) \<longleftrightarrow> st_totalBytes st > n" for st n
    by (simp add: summarizeStream_def Let_def)
  have f: "sk_inlineBytesPerStream sk1 = sk_inlineBytesPerStream sk" "sk_ttlMs sk1 = sk_ttlMs sk"
    "st_totalBytes (sk_stdout sk1) = st_totalBytes (sk_stream Stdout sk)"
    "st_totalBytes (sk_stderr sk1) = st_totalBytes (sk_stream Stderr sk)"
    using r by (simp_all add: sk_stream_def)
  have trunc: "\<not> sm_inlineTruncated (summarizeStream (sk_stdout sk) (sk_inlineBytesPerStream sk))
      \<and> \<not> sm_inlineTruncated (summarizeStream (sk_stderr sk) (sk_inlineBytesPerStream sk)) \<longleftrightarrow> \<not> truncated sk"
    by (simp add: tr truncated_def sk_stream_def)
  show ?thesis
  proof (cases "sk_fatalError sk = None \<and> closed = Inr ()")
    case False
    with assms show ?thesis
      by (intro failed [of "projl res"]) (auto simp: finalizeNow_def Let_def c split: option.splits sum.splits)
  next
    case True
    show ?thesis
    proof (cases "truncated sk")
      case False
      obtain ok fs1 where rm: "fs_rm (fi_rm io) (sk_reference sk) fs = (ok, fs1)" by force
      have "(res, sk', fs', q') = (if ok then (Inr (summary_of sk None None), sk1, fs1, q_release q (sk_reference sk))
          else (Inl OutputStoreIoError, sk1, fs1, q))"
        unfolding assms [symmetric] using False True
        by (simp add: finalizeNow_def Let_def c sum f summary_of_def rm trunc split: bool.splits)
      with False True rm show ?thesis unfolding sk1
        by (cases ok) (auto intro: inline failed)
    next
      case t: True
      show ?thesis
      proof (cases "fi_metadataFails io")
        case None
        with t True have "finalizeNow io now (sk, fs, q) =
           (Inr (summary_of sk (Some (sk_reference sk)) (Some (now + sk_ttlMs sk))), sk1\<lparr>sk_published := True\<rparr>,
            fs_put (sk_reference sk) METADATA_FILE (buffer_from (metadata_text
             \<lparr>om_expiresAtMs = now + sk_ttlMs sk, om_stdoutBytes = st_totalBytes (sk_stream Stdout sk),
            om_stderrBytes = st_totalBytes (sk_stream Stderr sk)\<rparr>)) fs, q)"
          by (simp add: finalizeNow_def Let_def c sum f summary_of_def trunc)
        with t True assms show ?thesis unfolding sk1 by (intro published) simp_all
      next
        case (Some left)
        with t True have "finalizeNow io now (sk, fs, q) = (Inl OutputStoreIoError, sk1,
          snd (fs_rm (fi_rm io) (sk_reference sk)
            (case left of None \<Rightarrow> fs | Some b \<Rightarrow> fs_put (sk_reference sk) (temporary_name (fi_randomBytes io)) b fs)), q)"
          by (simp add: finalizeNow_def Let_def c sum f trunc)
        with assms show ?thesis unfolding sk1 by (intro failed) (auto split: option.splits)
      qed
    qed
  qed
qed

lemma finalize_accounted:
  assumes "finalize_job io now (sk, fs, q) = (sk', fs', q')" "quota_inv q" "accounted fs q"
  shows "quota_inv q' \<and> accounted fs' q' \<and> (totals_ok sk' \<longleftrightarrow> totals_ok sk) \<and> sk_reference sk' = sk_reference sk
    \<and> q_maxBytes q' = q_maxBytes q \<and> q_maxEntries q' = q_maxEntries q"
proof -
  obtain res sk1 fs1 q1 where n: "finalizeNow io now (sk, fs, q) = (res, sk1, fs1, q1)" by (metis prod_cases4)
  have t: "totals_ok (s\<lparr>sk_finalizePromise := f\<rparr>) = totals_ok s" for s f
    by (simp add: totals_ok_alt bytes_stored_alt)
  from n show ?thesis
  proof (cases rule: finalizeNow_cases)
    case (failed e)
    obtain removed fs2 where r: "fs_rm (fi_rmAfterError io) (sk_reference sk) fs1 = (removed, fs2)" by force
    have a: "accounted fs1 q"
      using failed(4) assms(3) by (auto simp: accounted_def intro: order_trans [OF rm_payload])
    have "accounted fs2 q" using accounted_rm [OF a, of "fi_rmAfterError io" "sk_reference sk"] r by simp
    moreover have "removed \<Longrightarrow> accounted fs2 (q_release q (sk_reference sk))"
      using accounted_rm_release [OF a] r by simp
    ultimately show ?thesis
      using assms(1,2) n failed r
      by (auto simp: finalize_job_def t Let_def intro: release_inv split: if_splits)
  next
    case inline
    with assms n accounted_rm_release [OF assms(3) inline(3)] show ?thesis
      by (auto simp: finalize_job_def t intro: release_inv)
  next
    case published
    have "totals_ok (s\<lparr>sk_published := True\<rparr>) = totals_ok s" for s
      by (simp add: totals_ok_alt bytes_stored_alt)
    with published assms n show ?thesis by (auto simp: finalize_job_def t accounted_def)
  qed
qed

lemma abort_accounted:
  assumes "abort_job io (sk, fs, q) = (sk', fs', q')" "quota_inv q" "accounted fs q"
  shows "quota_inv q' \<and> accounted fs' q' \<and> (totals_ok sk' \<longleftrightarrow> totals_ok sk) \<and> sk_reference sk' = sk_reference sk
    \<and> q_maxBytes q' = q_maxBytes q \<and> q_maxEntries q' = q_maxEntries q"
proof -
  obtain removed fs1 where r: "fs_rm (fi_rm io) (sk_reference sk) fs = (removed, fs1)" by force
  obtain closed where c: "closeHandles (fi_closeFails io) sk = (closed, snd (closeHandles (fi_closeFails io) sk))"
    by (metis prod.collapse)
  have t: "totals_ok (s\<lparr>sk_abortPromise := f\<rparr>) = totals_ok s" for s f
    by (simp add: totals_ok_alt bytes_stored_alt)
  have "accounted fs1 q" using accounted_rm [OF assms(3), of "fi_rm io" "sk_reference sk"] r by simp
  moreover have "removed \<Longrightarrow> accounted fs1 (q_release q (sk_reference sk))"
    using accounted_rm_release [OF assms(3)] r by simp
  moreover have "sk' = (snd (closeHandles (fi_closeFails io) sk))\<lparr>sk_abortPromise :=
      Settled (if is_ok closed \<and> removed then Inr () else Inl OutputStoreIoError)\<rparr>" "fs' = fs1"
    "q' = (if removed then q_release q (sk_reference sk) else q)"
    using assms(1) r c by (auto simp: abort_job_def Let_def split: prod.splits)
  ultimately show ?thesis using assms(2) by (simp add: t release_inv)
qed

lemma sink_run_accounted:
  assumes "sink_run aio fio now (sk, fs, q) = (sk', fs', q')" "quota_inv q" "accounted fs q" "totals_ok sk"
  shows "quota_inv q' \<and> accounted fs' q' \<and> totals_ok sk' \<and> sk_reference sk' = sk_reference sk
    \<and> q_maxBytes q' = q_maxBytes q \<and> q_maxEntries q' = q_maxEntries q"
proof (cases "sk_tail sk")
  case Nil
  with assms show ?thesis by (simp add: sink_run_def)
next
  case (Cons job jobs)
  let ?sk = "sk\<lparr>sk_tail := jobs\<rparr>"
  have t: "totals_ok ?sk" using assms(4) by (simp add: totals_ok_alt bytes_stored_alt)
  show ?thesis
  proof (cases job)
    case (AppendJob stream chunk)
    obtain res where "appendNow aio stream chunk (?sk, fs, q) = (res, sk', fs', q')"
      using assms(1) Cons AppendJob by (cases "appendNow aio stream chunk (?sk, fs, q)") (simp add: sink_run_def)
    from append_accounted [OF this assms(2,3) t] show ?thesis by simp
  next
    case FinalizeJob
    with assms(1) Cons have "finalize_job fio now (?sk, fs, q) = (sk', fs', q')" by (simp add: sink_run_def)
    from finalize_accounted [OF this assms(2,3)] t show ?thesis by simp
  next
    case AbortJob
    with assms(1) Cons have "abort_job fio (?sk, fs, q) = (sk', fs', q')" by (simp add: sink_run_def)
    from abort_accounted [OF this assms(2,3)] t show ?thesis by simp
  qed
qed

subsection \<open>A live sink and its directory\<close>

text \<open>
  A sink is live until it is cancelled, hits an input/output error, or is finished. Its
  directory then holds the files of the streams that were opened and nothing else, and the
  counters and previews agree with them.
\<close>

definition is_settled :: "'a promise \<Rightarrow> bool" where
  "is_settled p = (case p of Settled _ \<Rightarrow> True | _ \<Rightarrow> False)"

lemma is_settled_iff [simp]: "is_settled p \<longleftrightarrow> (\<exists>r. p = Settled r)"
  by (cases p) (simp_all add: is_settled_def)

definition settled :: "sink \<Rightarrow> bool" where
  "settled sk \<longleftrightarrow> is_settled (sk_finalizePromise sk) \<or> is_settled (sk_abortPromise sk)"

definition live :: "sink \<Rightarrow> bool" where
  "live sk \<longleftrightarrow> sk_fatalError sk = None \<and> \<not> sk_cancelled sk \<and> \<not> settled sk"

definition dir_content :: "(string, fs_node) jsmap \<Rightarrow> string \<Rightarrow> bytes" where
  "dir_content d f = (case map_of d f of Some (FileNode b) \<Rightarrow> b | _ \<Rightarrow> [])"

definition dir_ok :: "sink \<Rightarrow> (string, fs_node) jsmap \<Rightarrow> bool" where
  "dir_ok sk d \<longleftrightarrow>
     distinct (map fst d)
     \<and> (\<forall>f \<in> set d. \<exists>stream b. f = (stream_file stream, FileNode b))
     \<and> (\<forall>stream. stream_ok (sk_inlineBytesPerStream sk) (sk_stream stream sk) (dir_content d (stream_file stream))
         \<and> (st_handle (sk_stream stream sk) \<longleftrightarrow> map_of d (stream_file stream) \<noteq> None))"

definition sink_inv :: "sink \<Rightarrow> disk \<Rightarrow> bool" where
  "sink_inv sk fs \<longleftrightarrow> totals_ok sk
     \<and> (live sk \<longrightarrow> (\<exists>d. map_of fs (sk_reference sk) = Some (DirEntry d) \<and> dir_ok sk d))"

lemma file_content_dir: "map_of fs name = Some (DirEntry d) \<Longrightarrow> file_content fs name f = dir_content d f"
  by (simp add: file_content_def dir_content_def entry_files_def)

lemma dir_content_update [simp]:
  "dir_content (AList.update f (FileNode b) d) g = (if g = f then b else dir_content d g)"
  by (simp add: dir_content_def update_conv')

lemma map_of_fs_put:
  "map_of fs name = Some (DirEntry d) \<Longrightarrow>
   map_of (fs_put name f b fs) x =
     (if x = name then Some (DirEntry (AList.update f (FileNode b) d)) else map_of fs x)"
  by (simp add: fs_put_def update_conv')

lemma set_update_file:
  "distinct (map fst d) \<Longrightarrow> x \<in> set (AList.update f v d) \<Longrightarrow> x = (f, v) \<or> x \<in> set d"
  by (cases "map_of d f") (auto simp: set_update_new set_update_old)

lemma new_sink_inv:
  assumes "0 \<le> inline" "0 \<le> maxStored"
  shows "sink_inv (new_sink r inline maxStored ttl) (AList.update r (DirEntry []) fs)"
proof -
  have "sk_stream x (new_sink r inline maxStored ttl) = new_stream_state" for x
    by (simp add: new_sink_def sk_stream_def split: out_stream.splits)
  then show ?thesis
    using assms
    by (auto simp: sink_inv_def totals_ok_alt bytes_stored_alt new_stream_state_def dir_ok_def stream_ok_def
        dir_content_def update_conv' new_sink_def)
qed

text \<open>What a stored chunk does to a live sink and its directory.\<close>

lemma store_chunk_ok:
  assumes "store_chunk io stream chunk sk fs = (True, sk', fs')"
    and "map_of fs (sk_reference sk) = Some (DirEntry d)"
    and "st_handle (sk_stream stream sk) \<longleftrightarrow> map_of d (stream_file stream) \<noteq> None"
  obtains d' where "sk' = set_stream stream ((sk_stream stream sk)\<lparr>st_handle := True\<rparr>) sk"
    "map_of fs' = (map_of fs)(sk_reference sk \<mapsto> DirEntry d')"
    "d' = AList.update (stream_file stream) (FileNode (dir_content d (stream_file stream) @ chunk)) d
     \<or> d' = AList.update (stream_file stream) (FileNode (dir_content d (stream_file stream) @ chunk))
         (AList.update (stream_file stream) (FileNode []) d)"
proof -
  let ?r = "sk_reference sk" and ?f = "stream_file stream"
  obtain opened sk1 fs1 where o: "open_stream io stream sk fs = (opened, sk1, fs1)" by (metis prod_cases3)
  obtain written sk2 fs2 where w: "write_stream io stream chunk sk1 fs1 = (written, sk2, fs2)" by (metis prod_cases3)
  from assms(1) o w have ok: "opened" "written" "\<not> sk_cancelled sk1" "\<not> sk_cancelled sk2" "sk' = sk2" "fs' = fs2"
    by (auto simp: store_chunk_def split: if_splits)
  have s1: "sk1 = set_stream stream ((sk_stream stream sk)\<lparr>st_handle := True\<rparr>) sk"
    and d1: "\<exists>d1. map_of fs1 = (map_of fs)(?r \<mapsto> DirEntry d1) \<and> dir_content d1 ?f = dir_content d ?f
        \<and> (d1 = d \<or> d1 = AList.update ?f (FileNode []) d)"
  proof -
    have "sk1 = set_stream stream ((sk_stream stream sk)\<lparr>st_handle := True\<rparr>) sk
      \<and> (\<exists>d1. map_of fs1 = (map_of fs)(?r \<mapsto> DirEntry d1) \<and> dir_content d1 ?f = dir_content d ?f
        \<and> (d1 = d \<or> d1 = AList.update ?f (FileNode []) d))"
    proof (cases "st_handle (sk_stream stream sk)")
      case True
      have "set_stream stream ((sk_stream stream sk)\<lparr>st_handle := True\<rparr>) sk = sk"
        using True by (cases stream) (simp_all add: set_stream_def sk_stream_def)
      with True o ok(1) assms(2) show ?thesis
        by (auto simp: open_stream_def Let_def fun_upd_idem intro!: exI [of _ d])
    next
      case False
      with o ok(1) have "fs1 = fs_put ?r ?f [] fs"
        "sk1 = set_stream stream ((sk_stream stream sk)\<lparr>st_handle := True\<rparr>)
           (if ai_cancelDuringOpen io then sink_cancel sk else sk)"
        by (auto simp: open_stream_def Let_def split: if_splits)
      moreover from this(2) ok(3) have "(if ai_cancelDuringOpen io then sink_cancel sk else sk) = sk"
        by (auto intro: cancel_id)
      moreover have "map_of (fs_put ?r ?f [] fs) = (map_of fs)(?r \<mapsto> DirEntry (AList.update ?f (FileNode []) d))"
        using map_of_fs_put [OF assms(2)] by auto
      moreover have "dir_content d ?f = []" using False assms(3) by (simp add: dir_content_def)
      ultimately show ?thesis by auto
    qed
    then show "sk1 = set_stream stream ((sk_stream stream sk)\<lparr>st_handle := True\<rparr>) sk"
      "\<exists>d1. map_of fs1 = (map_of fs)(?r \<mapsto> DirEntry d1) \<and> dir_content d1 ?f = dir_content d ?f
        \<and> (d1 = d \<or> d1 = AList.update ?f (FileNode []) d)" by blast+
  qed
  from d1 obtain d1 where d1: "map_of fs1 = (map_of fs)(?r \<mapsto> DirEntry d1)" "dir_content d1 ?f = dir_content d ?f"
    "d1 = d \<or> d1 = AList.update ?f (FileNode []) d" by blast
  have r: "sk_reference sk1 = ?r" by (simp add: s1)
  have fd: "map_of fs1 ?r = Some (DirEntry d1)" using d1(1) by simp
  obtain wr c where wb: "writeEntireBuffer (ai_writes io) chunk (dir_content d ?f) = (wr, c)" by force
  have w': "write_stream io stream chunk sk1 fs1 =
      (is_ok wr, if ai_cancelDuringWrite io then sink_cancel sk1 else sk1, fs_put ?r ?f c fs1)"
    by (simp add: write_stream_def Let_def r file_content_dir [OF fd] d1(2) wb)
  with w ok have k: "is_ok wr" "sk2 = sk1" "fs2 = fs_put ?r ?f c fs1"
    using cancel_id [of sk1] by (auto split: if_splits)
  have "c = dir_content d ?f @ chunk" using writeEntireBuffer_ok [OF wb k(1)] .
  moreover have "map_of (fs_put ?r ?f c fs1) = (map_of fs)(?r \<mapsto> DirEntry (AList.update ?f (FileNode c) d1))"
    using map_of_fs_put [OF fd] d1(1) by auto
  ultimately show ?thesis using that [of "AList.update ?f (FileNode c) d1"] s1 ok k d1(3) by auto
qed

lemma dir_ok_store:
  assumes "dir_ok sk d" "0 \<le> sk_inlineBytesPerStream sk"
    and "d' = AList.update (stream_file stream) (FileNode (dir_content d (stream_file stream) @ chunk)) d
     \<or> d' = AList.update (stream_file stream) (FileNode (dir_content d (stream_file stream) @ chunk))
         (AList.update (stream_file stream) (FileNode []) d)"
  shows "dir_ok (set_stream stream (count_chunk (sk_inlineBytesPerStream sk) chunk
      ((sk_stream stream sk)\<lparr>st_handle := True\<rparr>)) sk) d'"
proof -
  let ?f = "stream_file stream"
  from assms(1) have d: "distinct (map fst d)" "\<And>f. f \<in> set d \<Longrightarrow> \<exists>stream b. f = (stream_file stream, FileNode b)"
    "\<And>x. stream_ok (sk_inlineBytesPerStream sk) (sk_stream x sk) (dir_content d (stream_file x))"
    "\<And>x. st_handle (sk_stream x sk) \<longleftrightarrow> map_of d (stream_file x) \<noteq> None"
    by (simp_all add: dir_ok_def)
  have "stream_ok (sk_inlineBytesPerStream sk) ((sk_stream stream sk)\<lparr>st_handle := True\<rparr>) (dir_content d ?f)"
    using d(3) [of stream] by (simp add: stream_ok_def)
  then have s: "stream_ok (sk_inlineBytesPerStream sk)
      (count_chunk (sk_inlineBytesPerStream sk) chunk ((sk_stream stream sk)\<lparr>st_handle := True\<rparr>))
      (dir_content d ?f @ chunk)" by (rule count_chunk_ok [OF _ assms(2)])
  have "distinct (map fst d')" using assms(3) d(1) by (auto intro: distinct_keys_update)
  moreover have "\<exists>stream b. x = (stream_file stream, FileNode b)" if "x \<in> set d'" for x
  proof -
    have "x \<in> set d \<or> (\<exists>b. x = (?f, FileNode b))"
      using assms(3) d(1) that by (auto dest: set_update_file distinct_keys_update intro: distinct_keys_update)
    with d(2) show ?thesis by blast
  qed
  moreover have "dir_content d' g = (if g = ?f then dir_content d ?f @ chunk else dir_content d g)"
    "map_of d' g = None \<longleftrightarrow> g \<noteq> ?f \<and> map_of d g = None" for g
    using assms(3) by (auto simp: update_conv')
  ultimately show ?thesis using d s by (simp add: dir_ok_def)
qed

lemma dir_ok_cong:
  "sk_inlineBytesPerStream sk' = sk_inlineBytesPerStream sk \<Longrightarrow> (\<And>x. sk_stream x sk' = sk_stream x sk) \<Longrightarrow>
   dir_ok sk' d = dir_ok sk d"
  by (simp add: dir_ok_def)

lemma append_refused_None:
  "append_refused sk = None \<longleftrightarrow> \<not> sk_cancelled sk \<and> sk_fatalError sk = None \<and> sk_limitError sk = None"
  by (simp add: append_refused_def split: option.splits)

lemma store_chunk_frame:
  assumes "store_chunk io stream chunk sk fs = (ok, sk', fs')" "x \<noteq> sk_reference sk"
  shows "map_of fs' x = map_of fs x"
proof -
  have p: "map_of (fs_put r f b fs) x = map_of fs x" if "r \<noteq> x" for r f b fs
    using that by (auto simp: fs_put_def update_conv' split: option.splits fs_entry.splits)
  obtain opened sk1 fs1 where o: "open_stream io stream sk fs = (opened, sk1, fs1)" by (metis prod_cases3)
  obtain written sk2 fs2 where w: "write_stream io stream chunk sk1 fs1 = (written, sk2, fs2)" by (metis prod_cases3)
  have 1: "map_of fs1 x = map_of fs x" "sk_reference sk1 = sk_reference sk"
    using o assms(2) by (auto simp: open_stream_def Let_def p split: if_splits)
  have 2: "map_of fs2 x = map_of fs1 x"
    using w assms(2) 1(2) by (auto simp: write_stream_def Let_def p split: if_splits prod.splits)
  from assms(1) o w 1 2 show ?thesis by (auto simp: store_chunk_def split: if_splits)
qed

text \<open>What a successful append without an error does: the bytes granted are at the end of the file.\<close>

lemma append_live:
  assumes "append_granted io stream chunk b sk fs = (res, sk', fs')" "live sk'" "live sk"
    and "map_of fs (sk_reference sk) = Some (DirEntry d)" "dir_ok sk d" "0 \<le> sk_inlineBytesPerStream sk"
  obtains d' where "map_of fs' (sk_reference sk) = Some (DirEntry d')" "dir_ok sk' d'"
    "\<And>x. dir_content d' (stream_file x) =
       dir_content d (stream_file x) @ (if x = stream then take (nat (br_grantedBytes b)) chunk else [])"
  using assms(1)
proof (cases rule: append_granted_cases)
  case (failed sk1 e)
  with assms(2) show ?thesis by (auto simp: live_def split: if_splits)
next
  case (stored sk1 sk2)
  let ?c = "take (nat (br_grantedBytes b)) chunk"
  obtain lim where sk': "sk' = sk2\<lparr>sk_limitError := lim\<rparr>"
    using stored(2) by (cases "length ?c = length chunk") (auto intro: that [of "sk_limitError sk2"])
  have eq: "dir_ok sk' x = dir_ok sk2 x" for x by (rule dir_ok_cong) (simp_all add: sk')
  show ?thesis
  proof (cases "?c = []")
    case True
    have "dir_ok sk2 d" "map_of fs' (sk_reference sk) = Some (DirEntry d)"
      using stored(1) True assms(4,5) by simp_all
    with True that [of d] eq show ?thesis by auto
  next
    case False
    with stored(1) have s: "store_chunk io stream ?c sk fs = (True, sk1, fs')"
      and sk2: "sk2 = set_stream stream (count_chunk (sk_inlineBytesPerStream sk1) ?c (sk_stream stream sk1)) sk1" by auto
    have h: "st_handle (sk_stream stream sk) \<longleftrightarrow> map_of d (stream_file stream) \<noteq> None"
      using assms(5) by (simp add: dir_ok_def)
    from s assms(4) h obtain d' where d': "sk1 = set_stream stream ((sk_stream stream sk)\<lparr>st_handle := True\<rparr>) sk"
      "map_of fs' = (map_of fs)(sk_reference sk \<mapsto> DirEntry d')"
      "d' = AList.update (stream_file stream) (FileNode (dir_content d (stream_file stream) @ ?c)) d
       \<or> d' = AList.update (stream_file stream) (FileNode (dir_content d (stream_file stream) @ ?c))
         (AList.update (stream_file stream) (FileNode []) d)" by (rule store_chunk_ok)
    have "sk2 = set_stream stream (count_chunk (sk_inlineBytesPerStream sk) ?c ((sk_stream stream sk)\<lparr>st_handle := True\<rparr>)) sk"
      unfolding sk2 d'(1) by (cases stream) (simp_all add: set_stream_def sk_stream_def)
    then have "dir_ok sk2 d'" using dir_ok_store [OF assms(5,6) d'(3)] by simp
    with that [of d'] d' eq show ?thesis by auto
  qed
qed

lemma append_sink_inv:
  assumes "appendNow io stream chunk (sk, fs, q) = (res, sk', fs', q')"
    and "quota_inv q" "accounted fs q" "sink_inv sk fs"
  shows "sink_inv sk' fs'"
  using assms(1)
proof (cases rule: appendNow_cases)
  case (reserved b)
  have t: "totals_ok sk" using assms(4) by (simp add: sink_inv_def)
  note a = append_accounted [OF assms(1-3) t]
  have "\<exists>d. map_of fs' (sk_reference sk') = Some (DirEntry d) \<and> dir_ok sk' d" if "live sk'"
  proof -
    have l: "live sk" using reserved(1) that a by (auto simp: live_def append_refused_None settled_def)
    with assms(4) obtain d where d: "map_of fs (sk_reference sk) = Some (DirEntry d)" "dir_ok sk d"
      by (auto simp: sink_inv_def)
    have "0 \<le> sk_inlineBytesPerStream sk" using t by (simp add: totals_ok_def)
    from append_live [OF reserved(4) that l d this] a show ?thesis by metis
  qed
  with a show ?thesis by (simp add: sink_inv_def)
qed (use assms in auto)

lemma finalize_settles:
  assumes "finalize_job io now (sk, fs, q) = (sk', fs', q')"
  shows "settled sk'"
  using assms by (auto simp: finalize_job_def settled_def Let_def split: prod.splits sum.splits)

lemma abort_settles:
  assumes "abort_job io (sk, fs, q) = (sk', fs', q')"
  shows "settled sk'"
  using assms by (auto simp: abort_job_def settled_def Let_def split: prod.splits)

lemma sink_run_inv:
  assumes "sink_run aio fio now (sk, fs, q) = (sk', fs', q')"
    and "quota_inv q" "accounted fs q" "sink_inv sk fs"
  shows "sink_inv sk' fs'"
proof (cases "sk_tail sk")
  case Nil
  with assms show ?thesis by (simp add: sink_run_def)
next
  case (Cons job jobs)
  let ?sk = "sk\<lparr>sk_tail := jobs\<rparr>"
  have t: "totals_ok sk" using assms(4) by (simp add: sink_inv_def)
  have t': "totals_ok sk'" using sink_run_accounted [OF assms(1-3) t] by blast
  show ?thesis
  proof (cases job)
    case (AppendJob stream chunk)
    have "live ?sk = live sk" by (simp add: live_def settled_def)
    moreover have "dir_ok ?sk d = dir_ok sk d" for d by (rule dir_ok_cong) simp_all
    moreover have "totals_ok ?sk" using t by (simp add: totals_ok_alt bytes_stored_alt)
    ultimately have i: "sink_inv ?sk fs" using assms(4) by (simp add: sink_inv_def)
    obtain res where "appendNow aio stream chunk (?sk, fs, q) = (res, sk', fs', q')"
      using assms(1) Cons AppendJob by (cases "appendNow aio stream chunk (?sk, fs, q)") (simp add: sink_run_def)
    from append_sink_inv [OF this assms(2,3) i] show ?thesis .
  next
    case FinalizeJob
    with assms(1) Cons have "finalize_job fio now (?sk, fs, q) = (sk', fs', q')" by (simp add: sink_run_def)
    with t' finalize_settles show ?thesis by (auto simp: sink_inv_def live_def)
  next
    case AbortJob
    with assms(1) Cons have "abort_job fio (?sk, fs, q) = (sk', fs', q')" by (simp add: sink_run_def)
    with t' abort_settles show ?thesis by (auto simp: sink_inv_def live_def)
  qed
qed

section \<open>Sequences of appends\<close>

fun run_appends ::
  "(append_io \<times> out_stream \<times> bytes) list \<Rightarrow> sink \<times> disk \<times> quota \<Rightarrow> sink \<times> disk \<times> quota" where
  "run_appends [] s = s"
| "run_appends ((io, stream, chunk) # jobs) s = run_appends jobs (snd (appendNow io stream chunk s))"

text \<open>What was sent to a stream.\<close>

definition sent :: "out_stream \<Rightarrow> (append_io \<times> out_stream \<times> bytes) list \<Rightarrow> bytes" where
  "sent stream jobs = concat (map (snd \<circ> snd) (filter (\<lambda>j. fst (snd j) = stream) jobs))"

lemma sent_simps [simp]:
  "sent x [] = []" "sent x ((io, stream, chunk) # jobs) = (if stream = x then chunk else []) @ sent x jobs"
  by (simp_all add: sent_def)

lemma append_live_before:
  assumes "appendNow io stream chunk (sk, fs, q) = (res, sk', fs', q')" "live sk'"
    and "quota_inv q" "accounted fs q" "totals_ok sk"
  shows "live sk"
proof -
  note a = append_accounted [OF assms(1,3-5)]
  from assms(1) show ?thesis
  proof (cases rule: appendNow_cases)
    case (reserved b)
    with a assms(2) show ?thesis by (auto simp: live_def append_refused_None settled_def)
  qed (use assms(2) in auto)
qed

lemma append_step:
  assumes "appendNow io stream chunk (sk, fs, q) = (res, sk', fs', q')" "live sk'"
    and "quota_inv q" "accounted fs q" "sink_inv sk fs"
  obtains p where "prefix p chunk" "sk_limitError sk \<noteq> None \<Longrightarrow> p = [] \<and> sk_limitError sk' \<noteq> None"
    "sk_limitError sk' = None \<Longrightarrow> p = chunk"
    "\<And>x. file_content fs' (sk_reference sk) (stream_file x) =
       file_content fs (sk_reference sk) (stream_file x) @ (if x = stream then p else [])"
proof -
  have t: "totals_ok sk" using assms(5) by (simp add: sink_inv_def)
  have l: "live sk" by (rule append_live_before [OF assms(1-4) t])
  from assms(1) show ?thesis
  proof (cases rule: appendNow_cases)
    case (refused e)
    with l have "sk_limitError sk \<noteq> None" by (auto simp: append_refused_def live_def split: option.splits if_splits)
    with refused that [of "[]"] show ?thesis by auto
  next
    case empty
    with that [of "[]"] show ?thesis by (auto simp: append_refused_None)
  next
    case (reserved b)
    from l assms(5) obtain d where d: "map_of fs (sk_reference sk) = Some (DirEntry d)" "dir_ok sk d"
      by (auto simp: sink_inv_def)
    have i: "0 \<le> sk_inlineBytesPerStream sk" using t by (simp add: totals_ok_def)
    obtain d' where d': "map_of fs' (sk_reference sk) = Some (DirEntry d')" "dir_ok sk' d'"
      "\<And>x. dir_content d' (stream_file x) =
         dir_content d (stream_file x) @ (if x = stream then take (nat (br_grantedBytes b)) chunk else [])"
      by (rule append_live [OF reserved(4) assms(2) l d i]) blast
    have p: "take (nat (br_grantedBytes b)) chunk = chunk" if "sk_limitError sk' = None"
      using reserved(4)
    proof (cases rule: append_granted_cases)
      case (stored sk1 sk2)
      with that show ?thesis by (cases "length chunk \<le> nat (br_grantedBytes b)") (auto split: if_splits)
    qed (use assms(2) in \<open>auto simp: live_def split: if_splits\<close>)
    show ?thesis
      by (rule that [of "take (nat (br_grantedBytes b)) chunk"])
        (use reserved(1) p d' d in \<open>auto simp: take_is_prefix append_refused_None file_content_dir\<close>)
  qed
qed

lemma run_appends_prefix:
  assumes "run_appends jobs (sk, fs, q) = (sk', fs', q')" "live sk'"
    and "quota_inv q" "accounted fs q" "sink_inv sk fs"
  shows "live sk \<and> quota_inv q' \<and> accounted fs' q' \<and> sink_inv sk' fs' \<and> sk_reference sk' = sk_reference sk
    \<and> sk_inlineBytesPerStream sk' = sk_inlineBytesPerStream sk \<and> sk_ttlMs sk' = sk_ttlMs sk
    \<and> (sk_limitError sk' = None \<longrightarrow> sk_limitError sk = None)
    \<and> (\<exists>p. prefix p (sent x jobs) \<and> (sk_limitError sk' = None \<longrightarrow> p = sent x jobs)
         \<and> (sk_limitError sk \<noteq> None \<longrightarrow> p = [])
         \<and> file_content fs' (sk_reference sk) (stream_file x) = file_content fs (sk_reference sk) (stream_file x) @ p)"
  using assms
proof (induction jobs arbitrary: sk fs q)
  case (Cons j jobs)
  obtain io stream chunk where j: "j = (io, stream, chunk)" by (cases j)
  obtain res sk1 fs1 q1 where a: "appendNow io stream chunk (sk, fs, q) = (res, sk1, fs1, q1)" by (metis prod_cases4)
  have t: "totals_ok sk" using Cons.prems(5) by (simp add: sink_inv_def)
  note acc = append_accounted [OF a Cons.prems(3,4) t]
  have i1: "sink_inv sk1 fs1" by (rule append_sink_inv [OF a Cons.prems(3-5)])
  have r: "run_appends jobs (sk1, fs1, q1) = (sk', fs', q')" using Cons.prems(1) j a by simp
  note IH = Cons.IH [OF r Cons.prems(2) _ _ i1]
  then have l1: "live sk1" using acc by blast
  obtain p1 where p1: "prefix p1 chunk" "sk_limitError sk \<noteq> None \<Longrightarrow> p1 = [] \<and> sk_limitError sk1 \<noteq> None"
    "sk_limitError sk1 = None \<Longrightarrow> p1 = chunk"
    "file_content fs1 (sk_reference sk) (stream_file x) =
       file_content fs (sk_reference sk) (stream_file x) @ (if x = stream then p1 else [])"
    by (rule append_step [OF a l1 Cons.prems(3-5)]) simp
  have l: "live sk" by (rule append_live_before [OF a l1 Cons.prems(3,4) t])
  from IH acc obtain p2 where p2: "prefix p2 (sent x jobs)" "sk_limitError sk' = None \<longrightarrow> p2 = sent x jobs"
    "sk_limitError sk1 \<noteq> None \<longrightarrow> p2 = []"
    "file_content fs' (sk_reference sk) (stream_file x) = file_content fs1 (sk_reference sk) (stream_file x) @ p2"
    by auto
  let ?p = "(if x = stream then p1 else []) @ p2"
  have "prefix ?p (sent x (j # jobs))"
    using p1 p2 j by (cases "sk_limitError sk1") (auto intro: prefix_prefix)
  moreover have "sk_limitError sk' = None \<longrightarrow> ?p = sent x (j # jobs)" using IH acc p1 p2 j by auto
  moreover have lim: "sk_limitError sk' = None \<longrightarrow> sk_limitError sk = None" using IH acc p1(2) by blast
  moreover have "sk_limitError sk \<noteq> None \<longrightarrow> ?p = []" using p1(2) p2(3) by auto
  moreover have "file_content fs' (sk_reference sk) (stream_file x) = file_content fs (sk_reference sk) (stream_file x) @ ?p"
    using p1(4) p2(4) by simp
  ultimately show ?case using IH acc l by metis
qed auto


lemma summarize_ok:
  assumes "stream_ok n st content" "0 \<le> n"
  shows "summarizeStream st n =
     \<lparr>sm_text = utf8_decode (if n < int (length content)
         then take (completeUtf8PrefixLength (take (nat n) content)) (take (nat n) content) else content),
      sm_bytes = int (length content), sm_inlineTruncated = (n < int (length content))\<rparr>"
  using assms by (auto simp: summarizeStream_def stream_ok_def Let_def)

section \<open>The life of a sink\<close>

text \<open>One step of a sink: a call of one of its methods, or the next job of its promise chain.\<close>

inductive sink_step :: "sink \<times> disk \<times> quota \<Rightarrow> sink \<times> disk \<times> quota \<Rightarrow> bool" where
  append: "sink_step (sk, fs, q) (snd (sink_append stream chunk sk), fs, q)"
| cancel: "sink_step (sk, fs, q) (sink_cancel sk, fs, q)"
| finalize: "sink_step (sk, fs, q) (snd (sink_finalize sk), fs, q)"
| abort: "sink_step (sk, fs, q) (sink_abort sk, fs, q)"
| run: "sink_step s (sink_run aio fio now s)"

fun is_append :: "sink_job \<Rightarrow> bool" where
  "is_append (AppendJob stream chunk) = True"
| "is_append FinalizeJob = False"
| "is_append AbortJob = False"

text \<open>
  Finishing happens at most once and in one way: the chain ends with the one pending
  finishing job, a cancelled sink is never finalized, and only a successful finalization
  publishes.
\<close>

definition sink_protocol :: "sink \<Rightarrow> bool" where
  "sink_protocol sk \<longleftrightarrow>
     (\<exists>appends. list_all is_append appends
        \<and> sk_tail sk = appends @ (if sk_finalizePromise sk = Pending then [FinalizeJob]
            else if sk_abortPromise sk = Pending then [AbortJob] else []))
     \<and> (sk_finalizePromise sk \<noteq> NoPromise \<longrightarrow> sk_abortPromise sk = NoPromise \<and> \<not> sk_cancelled sk)
     \<and> (sk_abortPromise sk \<noteq> NoPromise \<longrightarrow> sk_cancelled sk)
     \<and> (sk_accepting sk \<longleftrightarrow> sk_finalizePromise sk = NoPromise \<and> \<not> sk_cancelled sk)
     \<and> (settled sk \<longrightarrow> sk_tail sk = [])
     \<and> (sk_published sk \<longrightarrow> (\<exists>so. sk_finalizePromise sk = Settled (Inr so) \<and> so_outputRef so = Some (sk_reference sk)))"

lemma protocol_new: "sink_protocol (new_sink r inline maxStored ttl)"
  by (simp add: sink_protocol_def new_sink_def settled_def)

lemma protocol_append: "sink_protocol sk \<Longrightarrow> sink_protocol (snd (sink_append stream chunk sk))"
  by (auto simp: sink_protocol_def sink_append_def settled_def)

lemma protocol_cancel: "sink_protocol sk \<Longrightarrow> sink_protocol (sink_cancel sk)"
  by (auto simp: sink_protocol_def sink_cancel_def settled_def)

lemma protocol_finalize: "sink_protocol sk \<Longrightarrow> sink_protocol (snd (sink_finalize sk))"
  by (auto simp: sink_protocol_def sink_finalize_def settled_def)

lemma protocol_abort: "sink_protocol sk \<Longrightarrow> sink_protocol (sink_abort sk)"
  by (auto simp: sink_protocol_def sink_abort_def sink_cancel_def settled_def Let_def)

text \<open>An append keeps everything the protocol speaks of, except that it may notice a cancellation.\<close>

definition same_protocol :: "sink \<Rightarrow> sink \<Rightarrow> bool" where
  "same_protocol a b \<longleftrightarrow> sk_tail a = sk_tail b \<and> sk_finalizePromise a = sk_finalizePromise b
     \<and> sk_abortPromise a = sk_abortPromise b \<and> sk_accepting a = sk_accepting b
     \<and> sk_cancelled a = sk_cancelled b \<and> sk_published a = sk_published b \<and> sk_reference a = sk_reference b"

lemma protocol_same: "same_protocol a b \<Longrightarrow> sink_protocol a \<longleftrightarrow> sink_protocol b"
  by (simp add: same_protocol_def sink_protocol_def settled_def)

lemma store_chunk_protocol:
  assumes "store_chunk io stream chunk sk fs = (ok, sk', fs')" "sink_protocol sk"
  shows "sink_protocol sk'"
proof -
  have s: "sink_protocol (set_stream x st k) = sink_protocol k" for x st k
    by (rule protocol_same) (simp add: same_protocol_def)
  obtain opened sk1 fs1 where o: "open_stream io stream sk fs = (opened, sk1, fs1)" by (metis prod_cases3)
  obtain written sk2 fs2 where w: "write_stream io stream chunk sk1 fs1 = (written, sk2, fs2)" by (metis prod_cases3)
  have 1: "sink_protocol sk1"
    using o assms(2) by (auto simp: open_stream_def Let_def s protocol_cancel split: if_splits)
  then have "sink_protocol sk2"
    using w by (auto simp: write_stream_def Let_def protocol_cancel split: if_splits prod.splits)
  with 1 assms(1) o w show ?thesis by (auto simp: store_chunk_def split: if_splits)
qed

lemma append_protocol:
  assumes "appendNow io stream chunk (sk, fs, q) = (res, sk', fs', q')" "sink_protocol sk"
  shows "sink_protocol sk'"
  using assms(1)
proof (cases rule: appendNow_cases)
  case (reserved b)
  have e: "sink_protocol (k\<lparr>sk_fatalError := x\<rparr>) = sink_protocol k" "sink_protocol (k\<lparr>sk_limitError := x\<rparr>) = sink_protocol k"
    "sink_protocol (set_stream y st k) = sink_protocol k" for k x y st
    by (rule protocol_same; simp add: same_protocol_def)+
  from reserved(4) show ?thesis
  proof (cases rule: append_granted_cases)
    case (failed sk1 e)
    with store_chunk_protocol [OF failed(2) assms(2)] show ?thesis by (auto simp: e split: if_splits)
  next
    case (stored sk1 sk2)
    then have "sink_protocol sk2"
      using store_chunk_protocol [OF _ assms(2)] assms(2) by (auto simp: e split: if_splits)
    with stored(2) show ?thesis by (auto simp: e split: if_splits)
  qed
qed (use assms(2) in auto)

lemma finalize_protocol:
  assumes "finalize_job io now (sk, fs, q) = (sk', fs', q')" "sk_finalizePromise sk \<noteq> NoPromise"
    and "sk_abortPromise sk = NoPromise" "\<not> sk_cancelled sk" "\<not> sk_accepting sk" "sk_tail sk = []" "\<not> sk_published sk"
  shows "sink_protocol sk'"
proof -
  obtain res sk1 fs1 q1 where n: "finalizeNow io now (sk, fs, q) = (res, sk1, fs1, q1)" by (metis prod_cases4)
  from n show ?thesis
  proof (cases rule: finalizeNow_cases)
    case (failed e)
    then show ?thesis
      using assms n by (auto simp: finalize_job_def Let_def sink_protocol_def settled_def split: prod.splits)
  next
    case inline
    then show ?thesis using assms n by (auto simp: finalize_job_def sink_protocol_def settled_def)
  next
    case published
    then show ?thesis using assms n by (auto simp: finalize_job_def sink_protocol_def settled_def summary_of_def)
  qed
qed

lemma abort_protocol:
  assumes "abort_job io (sk, fs, q) = (sk', fs', q')" "sk_finalizePromise sk = NoPromise"
    and "sk_cancelled sk" "\<not> sk_accepting sk" "sk_tail sk = []" "\<not> sk_published sk"
  shows "sink_protocol sk'"
proof -
  have "\<exists>r. sk' = (snd (closeHandles (fi_closeFails io) sk))\<lparr>sk_abortPromise := Settled r\<rparr>"
    using assms(1) by (auto simp: abort_job_def Let_def split: prod.splits)
  with assms show ?thesis by (auto simp: sink_protocol_def settled_def)
qed

lemma run_protocol:
  assumes "sink_protocol sk" "sink_run aio fio now (sk, fs, q) = (sk', fs', q')"
  shows "sink_protocol sk' \<and> length (sk_tail sk') = length (sk_tail sk) - 1"
proof (cases "sk_tail sk")
  case Nil
  with assms show ?thesis by (simp add: sink_run_def)
next
  case (Cons job jobs)
  let ?sk = "sk\<lparr>sk_tail := jobs\<rparr>"
  from assms(1) obtain appends where a: "list_all is_append appends"
    "sk_tail sk = appends @ (if sk_finalizePromise sk = Pending then [FinalizeJob]
       else if sk_abortPromise sk = Pending then [AbortJob] else [])" by (auto simp: sink_protocol_def)
  have ns: "\<not> settled sk" using assms(1) Cons by (auto simp: sink_protocol_def)
  show ?thesis
  proof (cases job)
    case (AppendJob stream chunk)
    have p: "sink_protocol ?sk"
      using assms(1) Cons AppendJob a ns
      by (cases appends) (auto simp: sink_protocol_def settled_def split: if_splits)
    obtain res where r: "appendNow aio stream chunk (?sk, fs, q) = (res, sk', fs', q')"
      using assms(2) Cons AppendJob by (cases "appendNow aio stream chunk (?sk, fs, q)") (simp add: sink_run_def)
    have "sk_tail sk' = jobs"
      using r
    proof (cases rule: appendNow_cases)
      case (reserved b)
      have "0 \<le> br_grantedBytes b \<or> take (nat (br_grantedBytes b)) chunk = []" by auto
      from reserved(4) show ?thesis
      proof (cases rule: append_granted_cases)
        case (failed sk1 e)
        with store_chunk_fields [OF failed(2)] show ?thesis by (auto split: if_splits)
      next
        case (stored sk1 sk2)
        have "sk_tail sk2 = jobs"
          using stored(1) store_chunk_fields [of aio stream _ ?sk fs True sk1 fs'] by (auto split: if_splits)
        with stored(2) show ?thesis by (auto split: if_splits)
      qed
    qed auto
    with append_protocol [OF r p] Cons show ?thesis by simp
  next
    case FinalizeJob
    with a Cons have f: "sk_finalizePromise sk = Pending" "jobs = []"
      by (cases appends; auto split: if_splits)+
    from assms(2) Cons FinalizeJob have r: "finalize_job fio now (?sk, fs, q) = (sk', fs', q')" by (simp add: sink_run_def)
    have "sink_protocol sk'"
      by (rule finalize_protocol [OF r]) (use f assms(1) in \<open>auto simp: sink_protocol_def\<close>)
    with finalize_settles [OF r] Cons f show ?thesis by (auto simp: sink_protocol_def)
  next
    case AbortJob
    with a Cons have f: "sk_abortPromise sk = Pending" "jobs = []"
      by (cases appends; auto split: if_splits)+
    from assms(2) Cons AbortJob have r: "abort_job fio (?sk, fs, q) = (sk', fs', q')" by (simp add: sink_run_def)
    have "sink_protocol sk'"
      by (rule abort_protocol [OF r]) (use f assms(1) in \<open>auto simp: sink_protocol_def\<close>)
    with abort_settles [OF r] Cons f show ?thesis by (auto simp: sink_protocol_def)
  qed
qed

lemma protocol_step: "sink_step s s' \<Longrightarrow> sink_protocol (fst s) \<Longrightarrow> sink_protocol (fst s')"
proof (induction rule: sink_step.induct)
  case (run s aio fio now)
  then show ?case using run_protocol by (metis prod_cases3 fst_conv)
qed (simp_all add: protocol_append protocol_cancel protocol_finalize protocol_abort)

lemma protocol_steps: "sink_step\<^sup>*\<^sup>* s s' \<Longrightarrow> sink_protocol (fst s) \<Longrightarrow> sink_protocol (fst s')"
  by (induction rule: rtranclp_induct) (auto intro: protocol_step)

text \<open>Running the jobs of the chain, with arbitrary outcomes of every call to the disk.\<close>

fun run_jobs :: "(append_io \<times> finalize_io \<times> int) list \<Rightarrow> sink \<times> disk \<times> quota \<Rightarrow> sink \<times> disk \<times> quota" where
  "run_jobs [] s = s"
| "run_jobs ((aio, fio, now) # ios) s = run_jobs ios (sink_run aio fio now s)"

lemma run_jobs_protocol:
  "sink_protocol sk \<Longrightarrow> run_jobs ios (sk, fs, q) = (sk', fs', q') \<Longrightarrow>
   sink_protocol sk' \<and> length (sk_tail sk') = length (sk_tail sk) - length ios"
proof (induction ios arbitrary: sk fs q)
  case (Cons io ios)
  obtain aio fio now where io: "io = (aio, fio, now)" by (cases io)
  obtain sk1 fs1 q1 where r: "sink_run aio fio now (sk, fs, q) = (sk1, fs1, q1)" by (metis prod_cases3)
  from run_protocol [OF Cons.prems(1) r] Cons.IH [of sk1 fs1 q1] Cons.prems(2) io r show ?case by simp
qed simp

lemma append_promises:
  assumes "appendNow io stream chunk (sk, fs, q) = (res, sk', fs', q')"
  shows "sk_finalizePromise sk' = sk_finalizePromise sk \<and> sk_abortPromise sk' = sk_abortPromise sk"
  using assms
proof (cases rule: appendNow_cases)
  case (reserved b)
  from reserved(4) show ?thesis
  proof (cases rule: append_granted_cases)
    case (failed sk1 e)
    with store_chunk_fields [OF failed(2)] show ?thesis by (auto split: if_splits)
  next
    case (stored sk1 sk2)
    have "sk_finalizePromise sk2 = sk_finalizePromise sk \<and> sk_abortPromise sk2 = sk_abortPromise sk"
      using stored(1) store_chunk_fields [of io stream _ sk fs True sk1 fs'] by (auto split: if_splits)
    with stored(2) show ?thesis by (auto split: if_splits)
  qed
qed auto

lemma run_promised:
  assumes "sink_run aio fio now (sk, fs, q) = (sk', fs', q')"
    and "sk_finalizePromise sk \<noteq> NoPromise \<or> sk_abortPromise sk \<noteq> NoPromise"
  shows "sk_finalizePromise sk' \<noteq> NoPromise \<or> sk_abortPromise sk' \<noteq> NoPromise"
proof (cases "sk_tail sk")
  case Nil
  with assms show ?thesis by (simp add: sink_run_def)
next
  case (Cons job jobs)
  let ?sk = "sk\<lparr>sk_tail := jobs\<rparr>"
  show ?thesis
  proof (cases job)
    case (AppendJob stream chunk)
    obtain res where "appendNow aio stream chunk (?sk, fs, q) = (res, sk', fs', q')"
      using assms(1) Cons AppendJob by (cases "appendNow aio stream chunk (?sk, fs, q)") (simp add: sink_run_def)
    from append_promises [OF this] assms(2) show ?thesis by simp
  next
    case FinalizeJob
    with assms(1) Cons have "finalize_job fio now (?sk, fs, q) = (sk', fs', q')" by (simp add: sink_run_def)
    from finalize_settles [OF this] show ?thesis by (auto simp: settled_def)
  next
    case AbortJob
    with assms(1) Cons have "abort_job fio (?sk, fs, q) = (sk', fs', q')" by (simp add: sink_run_def)
    from abort_settles [OF this] show ?thesis by (auto simp: settled_def)
  qed
qed

lemma run_jobs_promised:
  "run_jobs ios (sk, fs, q) = (sk', fs', q') \<Longrightarrow>
   sk_finalizePromise sk \<noteq> NoPromise \<or> sk_abortPromise sk \<noteq> NoPromise \<Longrightarrow>
   sk_finalizePromise sk' \<noteq> NoPromise \<or> sk_abortPromise sk' \<noteq> NoPromise"
proof (induction ios arbitrary: sk fs q)
  case (Cons io ios)
  obtain aio fio now where io: "io = (aio, fio, now)" by (cases io)
  obtain sk1 fs1 q1 where r: "sink_run aio fio now (sk, fs, q) = (sk1, fs1, q1)" by (metis prod_cases3)
  from run_promised [OF r Cons.prems(2)] Cons.IH [of sk1 fs1 q1] Cons.prems(1) io r show ?case by simp
qed simp

lemma drained_settled:
  assumes "sink_protocol sk" "sk_tail sk = []"
    and "sk_finalizePromise sk \<noteq> NoPromise \<or> sk_abortPromise sk \<noteq> NoPromise"
  shows "settled sk"
  using assms by (cases "sk_finalizePromise sk"; cases "sk_abortPromise sk") (auto simp: sink_protocol_def settled_def)

lemma write_loop_progress:
  "(\<And>i. \<exists>n > 0. outcomes i = Wrote n) \<Longrightarrow> is_ok (fst (write_loop outcomes i buffer offset file))"
proof (induction outcomes i buffer offset "file" rule: write_loop.induct)
  case (1 outcomes i buffer offset "file")
  obtain n where n: "0 < n" "outcomes i = Wrote n" using "1.prems" [of i] by blast
  show ?case
  proof (cases "offset < length buffer")
    case True
    with n 1 show ?thesis by (subst write_loop.simps) simp
  qed (simp add: write_loop.simps [of outcomes i])
qed

text \<open>Calls to the disk that do not fail, and no cancellation while they run.\<close>

definition append_io_ok :: "append_io \<Rightarrow> bool" where
  "append_io_ok io \<longleftrightarrow> \<not> ai_openFails io \<and> \<not> ai_cancelDuringOpen io \<and> \<not> ai_cancelDuringWrite io
     \<and> (\<forall>i. \<exists>n > 0. ai_writes io i = Wrote n)"

lemma store_chunk_succeeds:
  assumes "append_io_ok io" "live sk" "map_of fs (sk_reference sk) = Some (DirEntry d)" "dir_ok sk d"
  obtains sk' fs' where "store_chunk io stream chunk sk fs = (True, sk', fs')"
proof -
  have h: "st_handle (sk_stream stream sk) \<longleftrightarrow> map_of d (stream_file stream) \<noteq> None"
    using assms(4) by (simp add: dir_ok_def)
  have c: "\<not> sk_cancelled sk" using assms(2) by (simp add: live_def)
  obtain sk1 fs1 where o: "open_stream io stream sk fs = (True, sk1, fs1)" "\<not> sk_cancelled sk1"
    using assms(1,3) h c by (auto simp: open_stream_def Let_def append_io_ok_def can_create_def)
  obtain w c where wb: "writeEntireBuffer (ai_writes io) chunk
      (file_content fs1 (sk_reference sk1) (stream_file stream)) = (w, c)" by force
  have "is_ok (fst (writeEntireBuffer (ai_writes io) chunk x))" for x
    unfolding writeEntireBuffer_def by (rule write_loop_progress) (use assms(1) in \<open>simp add: append_io_ok_def\<close>)
  with wb have "is_ok w" by (metis fst_conv)
  with wb assms(1) have "write_stream io stream chunk sk1 fs1 =
      (True, sk1, fs_put (sk_reference sk1) (stream_file stream) c fs1)"
    by (simp add: write_stream_def append_io_ok_def)
  with o that show ?thesis by (auto simp: store_chunk_def)
qed

lemma append_granted_live:
  assumes "append_io_ok io" "live sk" "map_of fs (sk_reference sk) = Some (DirEntry d)" "dir_ok sk d"
    and "append_granted io stream chunk b sk fs = (res, sk', fs')"
  shows "live sk' \<and> (if nat (br_grantedBytes b) \<ge> length chunk then res = Inr ()
     else res = Inl (limit_error b (requested_bytes sk chunk) (sk_maxStoredBytes sk) (bytes_stored sk) (int (length chunk)))
       \<and> sk_limitError sk' \<noteq> None)"
proof -
  let ?c = "take (nat (br_grantedBytes b)) chunk"
  obtain sk1 fs1 where s: "store_chunk io stream ?c sk fs = (True, sk1, fs1)"
    by (rule store_chunk_succeeds [OF assms(1-4)])
  from assms(5) show ?thesis
  proof (cases rule: append_granted_cases)
    case (failed sk2 e)
    with s show ?thesis by simp
  next
    case (stored sk2 sk3)
    have "live sk3"
    proof (cases "?c = []")
      case True
      with stored(1) assms(2) show ?thesis by simp
    next
      case False
      with stored(1) s have "sk3 = set_stream stream (count_chunk (sk_inlineBytesPerStream sk1) ?c (sk_stream stream sk1)) sk1"
        by auto
      with store_chunk_fields [OF s] assms(2) show ?thesis by (simp add: live_def settled_def)
    qed
    with stored(2) show ?thesis
      by (cases "length chunk \<le> nat (br_grantedBytes b)") (auto simp: live_def settled_def)
  qed
qed


section \<open>Properties\<close>

text \<open>
  C36: appending. On a live sink that has not hit a limit, with a disk that works, an append
  puts the granted part of the chunk at the end of the stream's file and leaves the other
  stream alone. It succeeds exactly when the whole chunk was granted; otherwise it throws the
  limit error and the sink refuses every further append.
\<close>

theorem append_stores_what_fits:
  assumes "quota_inv q" "accounted fs q" "sink_inv sk fs" "live sk" "sk_limitError sk = None" "chunk \<noteq> []"
    and "append_io_ok io"
    and "q_reserve q (sk_reference sk) (requested_bytes sk chunk) = (b, q1)"
    and "appendNow io stream chunk (sk, fs, q) = (res, sk', fs', q')"
  shows "file_content fs' (sk_reference sk) (stream_file stream) =
      file_content fs (sk_reference sk) (stream_file stream) @ take (nat (br_grantedBytes b)) chunk
    \<and> (\<forall>other. other \<noteq> stream \<longrightarrow> file_content fs' (sk_reference sk) (stream_file other) =
        file_content fs (sk_reference sk) (stream_file other))
    \<and> (if br_grantedBytes b = int (length chunk) then res = Inr ()
       else (\<exists>kind maximum current attempted. res = Inl (OutputLimitExceeded kind maximum current attempted))
         \<and> (\<exists>e. append_refused sk' = Some e))"
proof -
  have t: "totals_ok sk" using assms(3) by (simp add: sink_inv_def)
  then have i: "0 \<le> sk_inlineBytesPerStream sk" by (simp add: totals_ok_def)
  have n: "append_refused sk = None" using assms(4,5) by (simp add: append_refused_None live_def)
  from assms(3,4) obtain d where d: "map_of fs (sk_reference sk) = Some (DirEntry d)" "dir_ok sk d"
    by (auto simp: sink_inv_def)
  from assms(6,8,9) n have g: "append_granted io stream chunk b sk fs = (res, sk', fs')"
    by (auto simp: appendNow_def split: prod.splits)
  note l = append_granted_live [OF assms(7,4) d g]
  note gb = reserve_granted [OF assms(1) requested_nonneg [OF t] assms(8)]
  have le: "br_grantedBytes b \<le> int (length chunk)" using gb by (simp add: requested_bytes_def)
  have lim: "\<exists>k m c a. limit_error b x y z w = OutputLimitExceeded k m c a" for x y z w
    by (auto simp: limit_error_def split: option.splits)
  obtain d' where d': "map_of fs' (sk_reference sk) = Some (DirEntry d')"
    "\<And>x. dir_content d' (stream_file x) =
       dir_content d (stream_file x) @ (if x = stream then take (nat (br_grantedBytes b)) chunk else [])"
    by (rule append_live [OF g conjunct1 [OF l] assms(4) d i]) blast
  have c: "(br_grantedBytes b = int (length chunk)) = (length chunk \<le> nat (br_grantedBytes b))"
    using le gb by linarith
  have "append_refused sk' \<noteq> None" if "sk_limitError sk' \<noteq> None" using that by (simp add: append_refused_None)
  then show ?thesis using l lim d' by (auto simp: file_content_dir [OF d(1)] file_content_dir [OF d'(1)] c)
qed

definition full_writes :: append_io where
  "full_writes = \<lparr>ai_openFails = False, ai_cancelDuringOpen = False, ai_writes = (\<lambda>_. Wrote 2), ai_cancelDuringWrite = False\<rparr>"

definition example_sink :: sink where "example_sink = new_sink ''ref'' 4 10 1000"

definition example_disk :: disk where "example_disk = AList.update ''ref'' (DirEntry []) []"

lemma full_writes_ok: "append_io_ok full_writes"
  by (auto simp: append_io_ok_def full_writes_def)

lemma example_sink_inv: "sink_inv example_sink example_disk"
  unfolding example_sink_def example_disk_def by (rule new_sink_inv) simp_all

lemma example_accounted: "accounted example_disk (new_quota m n)"
  by (auto simp: accounted_def example_disk_def payload_def file_content_def entry_files_def q_held_def new_quota_def)

theorem append_stores_what_fits_witness:
  "file_content (fst (snd (snd (appendNow full_writes Stderr [1, 2, 3, 4, 5] (example_sink, example_disk, new_quota 3 1)))))
     ''ref'' ''stderr.bin'' = [1, 2, 3]"
proof -
  let ?s = "(example_sink, example_disk, new_quota 3 1)"
  obtain res sk' fs' q' where a: "appendNow full_writes Stderr [1, 2, 3, 4, 5] ?s = (res, sk', fs', q')"
    by (metis prod_cases4)
  obtain b q1 where b: "q_reserve (new_quota 3 1) (sk_reference example_sink) (requested_bytes example_sink [1, 2, 3, 4, 5]) = (b, q1)"
    by force
  have q: "quota_inv (new_quota 3 1)" by code_simp
  have l: "live example_sink" "sk_limitError example_sink = None"
    by (simp_all add: live_def settled_def example_sink_def new_sink_def)
  have g: "br_grantedBytes b = 3"
  proof -
    have "br_grantedBytes (fst (q_reserve (new_quota 3 1) (sk_reference example_sink)
      (requested_bytes example_sink [1, 2, 3, 4, 5]))) = 3" by code_simp
    with b show ?thesis by simp
  qed
  have c: "file_content example_disk ''ref'' ''stderr.bin'' = []" by code_simp
  have r: "sk_reference example_sink = ''ref''" by (simp add: example_sink_def new_sink_def)
  show ?thesis
    using append_stores_what_fits [OF q example_accounted example_sink_inv l _ full_writes_ok b a] a g c r
    by (simp add: stream_file_def)
qed

text \<open>
  C35: what a finished sink reports and keeps. Whatever was appended, with whatever outcomes
  of the calls to the disk, as long as the sink stays live: each summary describes a prefix
  of what was sent to the stream, which is all of it unless a limit was hit; the preview is
  the longest well-formed part of its first bytes; an output reference is given exactly when
  one of the streams is longer than the preview, and then the files hold these prefixes and
  the metadata their lengths; otherwise the directory and its bytes in the quota are gone.
\<close>

theorem finalized_sink_reports_prefix:
  assumes "quota_inv q" "accounted (AList.update r (DirEntry []) fs) q" "0 \<le> inlineBytes" "0 \<le> maxStored"
    and "run_appends jobs (new_sink r inlineBytes maxStored ttl, AList.update r (DirEntry []) fs, q) = (sk, fs1, q1)"
    and "live sk" "finalizeNow io now (sk, fs1, q1) = (Inr so, sk', fs', q')"
  shows "\<exists>out err.
      prefix out (sent Stdout jobs) \<and> prefix err (sent Stderr jobs)
    \<and> (sk_limitError sk = None \<longrightarrow> out = sent Stdout jobs \<and> err = sent Stderr jobs)
    \<and> sm_bytes (so_stdout so) = int (length out) \<and> sm_bytes (so_stderr so) = int (length err)
    \<and> (sm_inlineTruncated (so_stdout so) \<longleftrightarrow> inlineBytes < int (length out))
    \<and> (sm_inlineTruncated (so_stderr so) \<longleftrightarrow> inlineBytes < int (length err))
    \<and> sm_text (so_stdout so) = utf8_decode (if inlineBytes < int (length out)
        then take (completeUtf8PrefixLength (take (nat inlineBytes) out)) (take (nat inlineBytes) out) else out)
    \<and> (if inlineBytes < int (length out) \<or> inlineBytes < int (length err)
       then so_outputRef so = Some r
         \<and> file_content fs' r (stream_file Stdout) = out \<and> file_content fs' r (stream_file Stderr) = err
         \<and> file_content fs' r METADATA_FILE = buffer_from (metadata_text
             \<lparr>om_expiresAtMs = now + ttl, om_stdoutBytes = int (length out), om_stderrBytes = int (length err)\<rparr>)
       else so_outputRef so = None \<and> map_of fs' r = None \<and> q_held q' r = 0)"
proof -
  let ?sk0 = "new_sink r inlineBytes maxStored ttl" and ?fs0 = "AList.update r (DirEntry []) fs"
  note i0 = new_sink_inv [OF assms(3,4), of r ttl fs]
  have new: "sk_reference ?sk0 = r" "sk_inlineBytesPerStream ?sk0 = inlineBytes" "sk_ttlMs ?sk0 = ttl" "sk_limitError ?sk0 = None"
    by (simp_all add: new_sink_def)
  have e0: "file_content ?fs0 r f = []" for f by (simp add: file_content_def)
  note pre = run_appends_prefix [OF assms(5,6,1,2) i0, unfolded new e0]
  from pre [of Stdout] obtain out where out: "prefix out (sent Stdout jobs)" "sk_limitError sk = None \<longrightarrow> out = sent Stdout jobs"
    "file_content fs1 r (stream_file Stdout) = out" by auto
  from pre [of Stderr] obtain err where err: "prefix err (sent Stderr jobs)" "sk_limitError sk = None \<longrightarrow> err = sent Stderr jobs"
    "file_content fs1 r (stream_file Stderr) = err" by auto
  from pre [of Stdout] have sk: "sk_reference sk = r" "sk_inlineBytesPerStream sk = inlineBytes" "sk_ttlMs sk = ttl" "sink_inv sk fs1"
    by auto
  from sk(1,4) assms(6) obtain d where d: "map_of fs1 r = Some (DirEntry d)" "dir_ok sk d" by (auto simp: sink_inv_def)
  have so: "stream_ok inlineBytes (sk_stream x sk) (file_content fs1 r (stream_file x))" for x
    using d sk by (simp add: dir_ok_def file_content_dir [OF d(1)])
  then have bytes: "st_totalBytes (sk_stream Stdout sk) = int (length out)" "st_totalBytes (sk_stream Stderr sk) = int (length err)"
    using out(3) err(3) by (metis stream_ok_def)+
  have sum: "summarizeStream (sk_stdout sk) inlineBytes = summarizeStream (sk_stream Stdout sk) inlineBytes"
    "summarizeStream (sk_stderr sk) inlineBytes = summarizeStream (sk_stream Stderr sk) inlineBytes"
    by (simp_all add: sk_stream_def)
  note s = summarize_ok [OF so [of Stdout] assms(3)] summarize_ok [OF so [of Stderr] assms(3)]
  have tr: "truncated sk \<longleftrightarrow> inlineBytes < int (length out) \<or> inlineBytes < int (length err)"
    by (simp add: truncated_def bytes sk)
  from assms(7) show ?thesis
  proof (cases rule: finalizeNow_cases)
    case (failed e)
    then show ?thesis by simp
  next
    case inline
    with sk have "map_of fs' r = None" "q_held q' r = 0"
      by (auto dest!: rm_removed simp: delete_conv' release_held)
    with inline tr out err s show ?thesis
      by (intro exI [of _ out] exI [of _ err]) (auto simp: summary_of_def sum sk)
  next
    case published
    have "file_content fs' r METADATA_FILE = buffer_from (metadata_text
             \<lparr>om_expiresAtMs = now + ttl, om_stdoutBytes = int (length out), om_stderrBytes = int (length err)\<rparr>)"
      using published(6) sk bytes by (simp add: file_content_dir [OF map_of_fs_put [OF d(1), THEN trans, OF if_P [OF refl]]])
    moreover have "file_content fs' r (stream_file x) = file_content fs1 r (stream_file x)" for x
      using published(6) by simp
    moreover have "so_outputRef so = Some r" "so_stdout so = summarizeStream (sk_stream Stdout sk) inlineBytes"
      "so_stderr so = summarizeStream (sk_stream Stderr sk) inlineBytes"
      using published(4) by (simp_all add: summary_of_def sum sk)
    moreover have "inlineBytes < int (length out) \<or> inlineBytes < int (length err)" using published(2) tr by simp
    ultimately show ?thesis
      using out err s by (intro exI [of _ out] exI [of _ err]) simp
  qed
qed

definition finalize_io_ok :: finalize_io where
  "finalize_io_ok = \<lparr>fi_closeFails = (\<lambda>_. False), fi_randomBytes = [], fi_metadataFails = None, fi_rm = None, fi_rmAfterError = None\<rparr>"

theorem finalized_sink_reports_prefix_witness:
  "so_outputRef (projr (fst (finalizeNow finalize_io_ok 5
     (run_appends [(full_writes, Stdout, [65, 66, 67]), (full_writes, Stdout, [68, 69])]
       (example_sink, example_disk, new_quota 9 1))))) = Some ''ref''"
proof -
  let ?js = "[(full_writes, Stdout, [65, 66, 67]), (full_writes, Stdout, [68, 69])] :: (append_io \<times> out_stream \<times> bytes) list"
  let ?s = "run_appends ?js (example_sink, example_disk, new_quota 9 1)"
  obtain sk fs1 q1 where s: "?s = (sk, fs1, q1)" by (metis prod_cases3)
  have f: "sk_fatalError (fst ?s) = None" "sk_cancelled (fst ?s) = False" "sk_finalizePromise (fst ?s) = NoPromise"
    "sk_abortPromise (fst ?s) = NoPromise" "sk_limitError (fst ?s) = None" by code_simp+
  then have l: "live sk" "sk_limitError sk = None" using s by (simp_all add: live_def settled_def)
  have ok: "is_ok (fst (finalizeNow finalize_io_ok 5 ?s))" by code_simp
  obtain res sk' fs' q' where r: "finalizeNow finalize_io_ok 5 (sk, fs1, q1) = (res, sk', fs', q')" by (metis prod_cases4)
  with ok s obtain so where so: "res = Inr so" by (auto simp: is_ok_iff)
  have q: "quota_inv (new_quota 9 1)" by code_simp
  have z: "(0::int) \<le> 4" "(0::int) \<le> 10" by simp_all
  have sent: "sent Stdout ?js = [65, 66, 67, 68, 69]" by simp
  have "so_outputRef so = Some ''ref''"
    using finalized_sink_reports_prefix [OF q example_accounted [unfolded example_disk_def] z
        s [unfolded example_sink_def example_disk_def] l(1) r [unfolded so]] l(2) sent
    by auto
  with s r so show ?thesis by simp
qed


text \<open>
  C37: a sink is finished once and in one way. After any sequence of calls and jobs on a new
  sink: at most one finishing job is in the chain and it is the last one; a sink that was
  cancelled is neither finalized nor published; a published sink has a successful
  finalization that carries its reference and no abort; a finished sink has an empty chain.
\<close>

theorem sink_finishes_once:
  assumes "sink_step\<^sup>*\<^sup>* (new_sink r inlineBytes maxStored ttl, fs, q) (sk, fs', q')"
  shows "length (filter (Not \<circ> is_append) (sk_tail sk)) \<le> 1
    \<and> list_all is_append (butlast (sk_tail sk))
    \<and> (sk_cancelled sk \<longrightarrow> sk_finalizePromise sk = NoPromise \<and> \<not> sk_published sk \<and> \<not> sk_accepting sk)
    \<and> (sk_published sk \<longrightarrow> (\<exists>so. sk_finalizePromise sk = Settled (Inr so) \<and> so_outputRef so = Some (sk_reference sk))
         \<and> sk_abortPromise sk = NoPromise)
    \<and> (settled sk \<longrightarrow> sk_tail sk = [])"
proof -
  have p: "sink_protocol sk" using protocol_steps [OF assms] protocol_new by simp
  then obtain appends where a: "list_all is_append appends"
    "sk_tail sk = appends @ (if sk_finalizePromise sk = Pending then [FinalizeJob]
       else if sk_abortPromise sk = Pending then [AbortJob] else [])" by (auto simp: sink_protocol_def)
  have f: "filter (Not \<circ> is_append) appends = []" "list_all is_append (butlast appends)"
    using a(1) by (auto simp: list_all_iff filter_empty_conv dest: in_set_butlastD)
  have "length (filter (Not \<circ> is_append) (sk_tail sk)) \<le> 1 \<and> list_all is_append (butlast (sk_tail sk))"
    unfolding a(2) using f a(1) by (auto simp: butlast_append)
  with p show ?thesis by (auto simp: sink_protocol_def)
qed

theorem sink_finishes_once_witness:
  "sk_tail (sink_abort (snd (sink_append Stdout [1] example_sink))) = [AppendJob Stdout [1], AbortJob]
   \<and> length (filter (Not \<circ> is_append) (sk_tail (sink_abort (snd (sink_append Stdout [1] example_sink))))) \<le> 1"
proof -
  let ?sk = "sink_abort (snd (sink_append Stdout [1] example_sink))"
  have "sink_step\<^sup>*\<^sup>* (example_sink, example_disk, new_quota 3 1) (?sk, example_disk, new_quota 3 1)"
    by (meson converse_rtranclp_into_rtranclp rtranclp.rtrancl_refl sink_step.append sink_step.abort)
  from sink_finishes_once [OF this [unfolded example_sink_def]]
  have "length (filter (Not \<circ> is_append) (sk_tail ?sk)) \<le> 1" unfolding example_sink_def by (rule conjunct1)
  moreover have "sk_tail ?sk = [AppendJob Stdout [1], AbortJob]" by code_simp
  ultimately show ?thesis by (intro conjI)
qed

text \<open>
  C38: finishing ends. Once \<open>finalize\<close> or \<open>abort\<close> was accepted, running as many jobs as the
  chain holds settles the promise, whatever the calls to the disk return and whenever the
  sink is cancelled meanwhile.
\<close>

theorem sink_finish_settles:
  assumes "sink_step\<^sup>*\<^sup>* (new_sink r inlineBytes maxStored ttl, fs, q) (sk, fs1, q1)"
    and "sk_finalizePromise sk \<noteq> NoPromise \<or> sk_abortPromise sk \<noteq> NoPromise"
    and "length (sk_tail sk) \<le> length ios" "run_jobs ios (sk, fs1, q1) = (sk', fs', q')"
  shows "settled sk'"
proof -
  have p: "sink_protocol sk" using protocol_steps [OF assms(1)] protocol_new by simp
  from run_jobs_protocol [OF p assms(4)] assms(3) have "sink_protocol sk'" "sk_tail sk' = []" by auto
  with run_jobs_promised [OF assms(4,2)] show ?thesis by (intro drained_settled)
qed

theorem sink_finish_settles_witness:
  "settled (fst (run_jobs [(full_writes, finalize_io_ok, 0), (full_writes, finalize_io_ok, 0)]
     (sink_abort (snd (sink_append Stdout [1] example_sink)), example_disk, new_quota 3 1)))"
proof -
  let ?sk = "sink_abort (snd (sink_append Stdout [1] example_sink))"
  let ?r = "run_jobs [(full_writes, finalize_io_ok, 0), (full_writes, finalize_io_ok, 0)] (?sk, example_disk, new_quota 3 1)"
  have s: "sink_step\<^sup>*\<^sup>* (new_sink ''ref'' 4 10 1000, example_disk, new_quota 3 1) (?sk, example_disk, new_quota 3 1)"
    unfolding example_sink_def
    by (meson converse_rtranclp_into_rtranclp rtranclp.rtrancl_refl sink_step.append sink_step.abort)
  have a: "sk_abortPromise ?sk = Pending" "length (sk_tail ?sk) = 2" by code_simp+
  obtain sk' fs' q' where "?r = (sk', fs', q')" by (metis prod_cases3)
  then show ?thesis using sink_finish_settles [OF s _ _ \<open>?r = _\<close>] a by simp
qed

text \<open>
  C39: nothing is left behind. When the finishing job of a sink runs and the recursive
  removals succeed, either the sink is published, with nothing released, or its directory is
  gone and the quota holds no byte for it, also after an input/output error.
\<close>

theorem finished_sink_leaves_nothing:
  assumes "sk_tail sk \<in> {[FinalizeJob], [AbortJob]}" "\<not> sk_published sk"
    and "fi_rm fio = None" "fi_rmAfterError fio = None"
    and "sink_run aio fio now (sk, fs, q) = (sk', fs', q')"
  shows "if sk_published sk' then q_held q' = q_held q
    else map_of fs' (sk_reference sk) = None \<and> q_held q' (sk_reference sk) = 0"
proof (cases "sk_tail sk = [AbortJob]")
  case True
  with assms(2,3,5) show ?thesis
    by (auto simp: sink_run_def abort_job_def Let_def rm_ok delete_conv' release_held closeHandles_def)
next
  case False
  let ?sk = "sk\<lparr>sk_tail := []\<rparr>"
  from False assms have f: "finalize_job fio now (?sk, fs, q) = (sk', fs', q')" by (auto simp: sink_run_def)
  obtain res sk1 fs1 q1 where n: "finalizeNow fio now (?sk, fs, q) = (res, sk1, fs1, q1)" by (metis prod_cases4)
  from n show ?thesis
  proof (cases rule: finalizeNow_cases)
    case (failed e)
    with f n assms(2,4) show ?thesis
      by (auto simp: finalize_job_def Let_def rm_ok delete_conv' release_held)
  next
    case inline
    with f n assms(2) show ?thesis
      by (auto simp: finalize_job_def delete_conv' release_held dest!: rm_removed)
  next
    case published
    with f n show ?thesis by (auto simp: finalize_job_def)
  qed
qed

theorem finished_sink_leaves_nothing_witness:
  "let (sk', fs', q') = sink_run full_writes finalize_io_ok 0
       (example_sink\<lparr>sk_tail := [AbortJob]\<rparr>, example_disk, snd (q_reserve (new_quota 3 1) ''ref'' 2)) in
   \<not> sk_published sk' \<and> map_of fs' ''ref'' = None \<and> q_held q' ''ref'' = 0"
proof -
  let ?sk = "example_sink\<lparr>sk_tail := [AbortJob]\<rparr>" and ?q = "snd (q_reserve (new_quota 3 1) ''ref'' 2)"
  obtain sk' fs' q' where r: "sink_run full_writes finalize_io_ok 0 (?sk, example_disk, ?q) = (sk', fs', q')"
    by (metis prod_cases3)
  have p: "\<not> sk_published (fst (sink_run full_writes finalize_io_ok 0 (?sk, example_disk, ?q)))" by code_simp
  have ok: "fi_rm finalize_io_ok = None" "fi_rmAfterError finalize_io_ok = None" by (simp_all add: finalize_io_ok_def)
  have t: "sk_tail ?sk \<in> {[FinalizeJob], [AbortJob]}" "\<not> sk_published ?sk" by (simp_all add: example_sink_def new_sink_def)
  have n: "sk_reference ?sk = ''ref''" by (simp add: example_sink_def new_sink_def)
  show ?thesis using finished_sink_leaves_nothing [OF t ok r] p n by (simp add: r)
qed

end
