(* ===== verification/Base64.thy ===== *)
theory Base64
  imports Prelude
begin

text \<open>
  The base64 codecs of the standard library as the sources use them:
  \<open>Buffer.toString("base64")\<close> (\<open>base64\<close>: standard alphabet, padded),
  \<open>Buffer.toString("base64url")\<close> (\<open>base64url\<close>: URL alphabet, no padding) and
  \<open>Buffer.from(s, "base64")\<close> / \<open>Buffer.from(s, "base64url")\<close> (\<open>from_base64\<close>: both alphabets,
  padding and characters outside the alphabets are skipped). The lemmas give both round
  trips and the alphabet of the encoded text.
\<close>

section \<open>Definitions\<close>

definition base64_alphabet :: string where
  "base64_alphabet = ''ABCDEFGHIJKLMNOPQRSTUVWXYZabcdefghijklmnopqrstuvwxyz0123456789+/''"

definition base64url_alphabet :: string where
  "base64url_alphabet = ''ABCDEFGHIJKLMNOPQRSTUVWXYZabcdefghijklmnopqrstuvwxyz0123456789-_''"

text \<open>Three bytes are four groups of six bits; a shorter tail gives two or three groups.\<close>

fun sextets :: "nat list \<Rightarrow> nat list" where
  "sextets [] = []"
| "sextets [a] = [a div 4, (a mod 4) * 16]"
| "sextets [a, b] = [a div 4, (a mod 4) * 16 + b div 16, (b mod 16) * 4]"
| "sextets (a # b # c # xs) =
     a div 4 # ((a mod 4) * 16 + b div 16) # ((b mod 16) * 4 + c div 64) # (c mod 64) # sextets xs"

fun octets :: "nat list \<Rightarrow> nat list" where
  "octets (w # x # y # z # xs) =
     (w * 4 + x div 16) # ((x mod 16) * 16 + y div 4) # ((y mod 4) * 64 + z) # octets xs"
| "octets [w, x, y] = [w * 4 + x div 16, (x mod 16) * 16 + y div 4]"
| "octets [w, x] = [w * 4 + x div 16]"
| "octets _ = []"

definition base64_pad :: "nat \<Rightarrow> string" where
  "base64_pad n = (if n mod 3 = 1 then ''=='' else if n mod 3 = 2 then ''='' else [])"

definition base64 :: "bytes \<Rightarrow> string" where
  "base64 bs = map (\<lambda>i. base64_alphabet ! i) (sextets (map unat bs)) @ base64_pad (length bs)"

definition base64url :: "bytes \<Rightarrow> string" where
  "base64url bs = map (\<lambda>i. base64url_alphabet ! i) (sextets (map unat bs))"

definition sextet_of :: "char \<Rightarrow> nat option" where
  "sextet_of c =
     (if is_upper c then Some (of_char c - 65)
      else if is_lower c then Some (of_char c - 71)
      else if is_digit c then Some (of_char c + 4)
      else if c = CHR ''+'' \<or> c = CHR ''-'' then Some 62
      else if c = CHR ''/'' \<or> c = CHR ''_'' then Some 63
      else None)"

definition from_base64 :: "string \<Rightarrow> bytes" where
  "from_base64 s = map word_of_nat (octets (List.map_filter sextet_of s))"

section \<open>Lemmas\<close>

lemma div_mod_digits:
  fixes p q n :: nat
  assumes "q < n"
  shows "(p * n + q) div n = p" "(p * n + q) mod n = q"
  using assms by simp_all

lemma octets_sextets: "\<forall>x \<in> set xs. x < 256 \<Longrightarrow> octets (sextets xs) = xs"
proof (induction xs rule: sextets.induct)
  case (4 a b c xs)
  then have "b div 16 < 16" "c div 64 < 4" by (simp_all add: less_mult_imp_div_less)
  with 4 show ?case by (simp add: div_mod_digits)
next
  case (3 a b)
  then have "b div 16 < 16" by (simp add: less_mult_imp_div_less)
  then show ?case by (simp add: div_mod_digits)
qed simp_all

lemma sextets_bound: "\<forall>x \<in> set xs. x < 256 \<Longrightarrow> \<forall>y \<in> set (sextets xs). y < 64"
  by (induction xs rule: sextets.induct) auto

lemma unat_byte_bound: "\<forall>x \<in> set (map unat (bs :: bytes)). x < 256"
  using unsigned_less [where 'b = 8 and 'a = nat] by auto

lemma alphabet_roundtrip:
  assumes "i < 64"
  shows "sextet_of (base64_alphabet ! i) = Some i" "sextet_of (base64url_alphabet ! i) = Some i"
proof -
  have "list_all (\<lambda>i. sextet_of (base64_alphabet ! i) = Some i
      \<and> sextet_of (base64url_alphabet ! i) = Some i) [0..<64]"
    by code_simp
  with assms show "sextet_of (base64_alphabet ! i) = Some i" "sextet_of (base64url_alphabet ! i) = Some i"
    unfolding list_all_iff by (simp_all only: set_upt atLeastLessThan_iff) auto
qed

lemma map_filter_sextets:
  assumes "\<forall>y \<in> set ys. y < 64" "\<And>i. i < 64 \<Longrightarrow> sextet_of (alphabet ! i) = Some i"
  shows "List.map_filter sextet_of (map (\<lambda>i. alphabet ! i) ys) = ys"
  using assms by (induction ys) (simp_all add: List.map_filter_simps)

lemma map_word_unat: "map word_of_nat (map unat bs) = (bs :: bytes)"
  by (simp add: map_idI)

lemma pad_skipped: "List.map_filter sextet_of (xs @ base64_pad n) = List.map_filter sextet_of xs"
proof -
  have "sextet_of CHR ''='' = None" by code_simp
  then show ?thesis by (simp add: base64_pad_def List.map_filter_def)
qed

lemma from_base64_base64: "from_base64 (base64 bs) = bs"
  unfolding from_base64_def base64_def pad_skipped
  by (simp only: map_filter_sextets [OF sextets_bound [OF unat_byte_bound] alphabet_roundtrip(1)]
      octets_sextets [OF unat_byte_bound] map_word_unat)

lemma from_base64_base64url: "from_base64 (base64url bs) = bs"
  unfolding from_base64_def base64url_def
  by (simp only: map_filter_sextets [OF sextets_bound [OF unat_byte_bound] alphabet_roundtrip(2)]
      octets_sextets [OF unat_byte_bound] map_word_unat)

lemma base64_inject: "base64 a = base64 b \<Longrightarrow> a = b"
  by (metis from_base64_base64)

definition base64_char :: "char \<Rightarrow> bool" where
  "base64_char c \<longleftrightarrow> is_alnum c \<or> c = CHR ''+'' \<or> c = CHR ''/'' \<or> c = CHR ''=''"

definition base64url_char :: "char \<Rightarrow> bool" where
  "base64url_char c \<longleftrightarrow> is_alnum c \<or> c = CHR ''-'' \<or> c = CHR ''_''"

lemma alphabet_chars:
  "list_all base64_char base64_alphabet" "list_all base64url_char base64url_alphabet"
  by code_simp+

lemma length_alphabets: "length base64_alphabet = 64" "length base64url_alphabet = 64"
  by code_simp+

lemma base64_chars: "c \<in> set (base64 bs) \<Longrightarrow> base64_char c"
proof -
  assume "c \<in> set (base64 bs)"
  then consider i where "i \<in> set (sextets (map unat bs))" "c = base64_alphabet ! i"
    | "c \<in> set (base64_pad (length bs))"
    by (auto simp: base64_def)
  then show ?thesis
  proof cases
    case 1
    with sextets_bound [OF unat_byte_bound] have "i < length base64_alphabet"
      by (auto simp: length_alphabets)
    with 1 alphabet_chars(1) show ?thesis by (simp add: list_all_length)
  next
    case 2
    then show ?thesis by (auto simp: base64_pad_def base64_char_def split: if_splits)
  qed
qed

lemma base64url_chars: "c \<in> set (base64url bs) \<Longrightarrow> base64url_char c"
proof -
  assume "c \<in> set (base64url bs)"
  then obtain i where "i \<in> set (sextets (map unat bs))" "c = base64url_alphabet ! i"
    by (auto simp: base64url_def)
  moreover with sextets_bound [OF unat_byte_bound] have "i < length base64url_alphabet"
    by (auto simp: length_alphabets)
  ultimately show ?thesis using alphabet_chars(2) by (simp add: list_all_length)
qed

lemma length_base64url: "length (base64url bs) = (4 * length bs + 2) div 3"
proof -
  have "length (sextets xs) = (4 * length xs + 2) div 3" for xs
    by (induction xs rule: sextets.induct) auto
  then show ?thesis by (simp add: base64url_def)
qed

end
