(* ===== verification/OutputStore.thy ===== *)
theory OutputStore
  imports OutputSink Base64 "HOL-Library.Product_Lexorder" "HOL-Library.Multiset"
begin

text \<open>
  \<^verbatim>\<open>OutputStore\<close> of \<^verbatim>\<open>src/src/core/output-store.ts\<close>: the directory of retained outputs. The store
  hands out sinks, adopts what an earlier process left behind, removes expired or damaged
  entries, and serves retained outputs in pages.

  A method of the store runs as one step; between two steps any sink may run a job of its
  chain. \<open>parse\<close> stands for \<open>JSON.parse\<close>, with \<open>None\<close> for a syntax error. No other process
  writes below the output directory while the store is in use; what it finds there when it
  is opened is arbitrary.
\<close>

section \<open>Metadata\<close>

definition METADATA_MAX_BYTES :: nat where "METADATA_MAX_BYTES = 4096"
definition MAX_REFERENCE_ATTEMPTS :: nat where "MAX_REFERENCE_ATTEMPTS = 8"
definition OUTPUT_REFERENCE_BYTES :: nat where "OUTPUT_REFERENCE_BYTES = 32"

definition assertSafeInteger :: "int \<Rightarrow> string \<Rightarrow> int \<Rightarrow> thrown + unit" where
  "assertSafeInteger val name minimum =
     guard_else (is_safe_integer val \<and> \<not> val < minimum)
       (RangeError (name @ '' must be a safe integer >= '' @ show_int minimum))"

definition parseMetadata :: "json \<Rightarrow> output_metadata option" where
  "parseMetadata val =
     (case val of
        JObject members \<Rightarrow>
          if sort (map fst members) \<noteq> [''expiresAtMs'', ''stderrBytes'', ''stdoutBytes'', ''version''] then None
          else
            (case (map_of members ''version'', map_of members ''expiresAtMs'',
                   map_of members ''stdoutBytes'', map_of members ''stderrBytes'') of
               (Some (JInt version), Some (JInt expiresAtMs), Some (JInt stdoutBytes), Some (JInt stderrBytes)) \<Rightarrow>
                 if version \<noteq> 1 \<or> \<not> is_safe_integer expiresAtMs \<or> expiresAtMs < 0
                   \<or> \<not> is_safe_integer stdoutBytes \<or> stdoutBytes < 0
                   \<or> \<not> is_safe_integer stderrBytes \<or> stderrBytes < 0
                   \<or> \<not> is_safe_integer (stdoutBytes + stderrBytes)
                 then None
                 else Some \<lparr>om_expiresAtMs = expiresAtMs, om_stdoutBytes = stdoutBytes, om_stderrBytes = stderrBytes\<rparr>
             | _ \<Rightarrow> None)
      | _ \<Rightarrow> None)"

section \<open>The store\<close>

text \<open>Outcomes of the calls to the disk during one method; a name is an entry of the output directory.\<close>

record store_io =
  io_mkdirRootFails :: bool
  io_readdirFails :: bool
  io_rm :: "string \<Rightarrow> string list option"
  io_lstatFails :: "string \<Rightarrow> string \<Rightarrow> bool"
  io_readFileFails :: "string \<Rightarrow> io_error option"
  io_listFails :: "string \<Rightarrow> io_error option"
  io_mkdirFails :: "string \<Rightarrow> bool"
  io_payloadFails :: bool

text \<open>A sink with the wrapper \<open>TrackedOutputSink\<close>.\<close>

record tracked_sink =
  tk_sink :: sink
  tk_released :: bool

record output_store =
  os_inlineBytesPerStream :: int
  os_maxStoredBytes :: int
  os_ttlMs :: int
  os_maxReadBytes :: int
  os_quota :: quota
  os_activeReferences :: "string list"
  os_initialization :: "(thrown + unit) option"
  os_fs :: disk \<comment> \<open>what is below the output directory\<close>
  os_sinks :: "(string, tracked_sink) jsmap" \<comment> \<open>the sinks handed out so far\<close>

text \<open>
  \<open>isRoot\<close> stands for the test that the resolved directory is a file system root. \<open>fs\<close> is what
  the directory holds when the store is made.
\<close>

definition new_output_store ::
  "(string \<Rightarrow> bool) \<Rightarrow> string \<Rightarrow> int \<Rightarrow> int \<Rightarrow> int \<Rightarrow> int \<Rightarrow> int \<Rightarrow> int option \<Rightarrow> disk \<Rightarrow> thrown + output_store" where
  "new_output_store isRoot directory inlineBytesPerStream maxStoredBytes maxTotalRetainedBytes
       maxRetainedEntries ttlMs maxReadBytes fs =
     and_then (guard_else (\<not> is_blank directory) (RangeError ''directory must not be empty'')) (\<lambda>_.
     and_then (guard_else (\<not> isRoot directory) (RangeError ''directory must not be a filesystem root'')) (\<lambda>_.
     and_then (assertSafeInteger inlineBytesPerStream ''inlineBytesPerStream'' 0) (\<lambda>_.
     and_then (assertSafeInteger maxStoredBytes ''maxStoredBytes'' 1) (\<lambda>_.
     and_then (assertSafeInteger maxTotalRetainedBytes ''maxTotalRetainedBytes'' 1) (\<lambda>_.
     and_then (assertSafeInteger maxRetainedEntries ''maxRetainedEntries'' 1) (\<lambda>_.
     and_then (assertSafeInteger ttlMs ''ttlMs'' 1) (\<lambda>_.
     let maxRead = (case maxReadBytes of None \<Rightarrow> MAX_OUTPUT_READ_BYTES | Some n \<Rightarrow> n) in
     and_then (assertSafeInteger maxRead ''maxReadBytes'' 1) (\<lambda>_.
     Inr \<lparr>os_inlineBytesPerStream = min inlineBytesPerStream MAX_INLINE_PREVIEW_BYTES,
          os_maxStoredBytes = maxStoredBytes, os_ttlMs = ttlMs, os_maxReadBytes = maxRead,
          os_quota = new_quota maxTotalRetainedBytes maxRetainedEntries,
          os_activeReferences = [], os_initialization = None, os_fs = fs, os_sinks = []\<rparr>))))))))"

section \<open>Reading metadata\<close>

definition readMetadataFile ::
  "(string \<Rightarrow> json option) \<Rightarrow> store_io \<Rightarrow> disk \<Rightarrow> string \<Rightarrow> io_error + output_metadata option" where
  "readMetadataFile parse io fs name =
     (if io_lstatFails io name METADATA_FILE then Inl OtherIoError
      else case map_of fs name of
        None \<Rightarrow> Inr None
      | Some OtherEntry \<Rightarrow> Inl OtherIoError
      | Some (DirEntry d) \<Rightarrow>
          (case map_of d METADATA_FILE of
             Some (FileNode content) \<Rightarrow>
               if length content > METADATA_MAX_BYTES then Inr None
               else (case io_readFileFails io name of
                       Some ENOENT \<Rightarrow> Inr None
                     | Some OtherIoError \<Rightarrow> Inl OtherIoError
                     | None \<Rightarrow>
                         (case parse (map char_of_byte (utf8_decode content)) of
                            None \<Rightarrow> Inr None
                          | Some v \<Rightarrow> Inr (parseMetadata v)))
           | _ \<Rightarrow> Inr None))"

definition readMetadata ::
  "(string \<Rightarrow> json option) \<Rightarrow> store_io \<Rightarrow> disk \<Rightarrow> string \<Rightarrow> thrown + output_metadata" where
  "readMetadata parse io fs name =
     (case readMetadataFile parse io fs name of
        Inl ENOENT \<Rightarrow> Inl OutputNotFoundError
      | Inl OtherIoError \<Rightarrow> Inl OutputStoreIoError
      | Inr None \<Rightarrow> Inl OutputNotFoundError
      | Inr (Some m) \<Rightarrow> Inr m)"

definition isCanonicalPayloadFile ::
  "store_io \<Rightarrow> string \<Rightarrow> (string, fs_node) jsmap \<Rightarrow> string \<Rightarrow> int \<Rightarrow> io_error + bool" where
  "isCanonicalPayloadFile io name entries fileName expectedBytes =
     (case map_of entries fileName of
        None \<Rightarrow> Inr (expectedBytes = 0)
      | Some OtherNode \<Rightarrow> Inr False
      | Some (FileNode content) \<Rightarrow>
          if io_lstatFails io name fileName then Inl OtherIoError
          else Inr (int (length content) = expectedBytes))"

definition RETAINED_ENTRY_FILE_NAMES :: "string list" where
  "RETAINED_ENTRY_FILE_NAMES = [METADATA_FILE, ''stdout.bin'', ''stderr.bin'']"

definition isCanonicalRetainedEntry ::
  "store_io \<Rightarrow> disk \<Rightarrow> string \<Rightarrow> output_metadata \<Rightarrow> io_error + bool" where
  "isCanonicalRetainedEntry io fs name metadata =
     (case io_listFails io name of
        Some ENOENT \<Rightarrow> Inr False
      | Some OtherIoError \<Rightarrow> Inl OtherIoError
      | None \<Rightarrow>
          let entries = entry_files fs name in
          if list_ex (\<lambda>(file, _). file \<notin> set RETAINED_ENTRY_FILE_NAMES) entries
            \<or> \<not> list_ex (\<lambda>(file, node). file = METADATA_FILE \<and> node \<noteq> OtherNode) entries
          then Inr False
          else and_then (isCanonicalPayloadFile io name entries ''stdout.bin'' (om_stdoutBytes metadata)) (\<lambda>out.
            if \<not> out then Inr False
            else isCanonicalPayloadFile io name entries ''stderr.bin'' (om_stderrBytes metadata)))"

section \<open>Cleaning up\<close>

record retained_entry =
  re_reference :: string
  re_metadata :: output_metadata
  re_bytes :: int

record cleanup_state =
  cl_fs :: disk
  cl_quota :: quota
  cl_removed :: int
  cl_retained :: "retained_entry list"

text \<open>Keep an entry, with its metadata, or remove it (\<open>None\<close>).\<close>

definition entry_verdict ::
  "(string \<Rightarrow> json option) \<Rightarrow> store_io \<Rightarrow> int \<Rightarrow> disk \<Rightarrow> string \<Rightarrow> fs_entry \<Rightarrow> thrown + output_metadata option" where
  "entry_verdict parse io now fs name entry =
     (case entry of
        OtherEntry \<Rightarrow> Inr None
      | DirEntry _ \<Rightarrow>
          (case readMetadataFile parse io fs name of
             Inl _ \<Rightarrow> Inl OutputStoreIoError
           | Inr None \<Rightarrow> Inr None
           | Inr (Some m) \<Rightarrow>
               if om_expiresAtMs m \<le> now then Inr None
               else (case isCanonicalRetainedEntry io fs name m of
                       Inl _ \<Rightarrow> Inl OutputStoreIoError
                     | Inr canonical \<Rightarrow> Inr (if canonical then Some m else None))))"

definition cleanup_entry ::
  "(string \<Rightarrow> json option) \<Rightarrow> store_io \<Rightarrow> int \<Rightarrow> string list \<Rightarrow> string \<times> fs_entry \<Rightarrow> cleanup_state
    \<Rightarrow> (thrown + unit) \<times> cleanup_state" where
  "cleanup_entry parse io now active item st =
     (case item of (name, entry) \<Rightarrow>
      if \<not> opaque_reference name
      then (case fs_rm (io_rm io name) name (cl_fs st) of
              (True, fs) \<Rightarrow> (Inr (), st\<lparr>cl_fs := fs, cl_removed := cl_removed st + 1\<rparr>)
            | (False, fs) \<Rightarrow> (Inl OutputStoreIoError, st\<lparr>cl_fs := fs\<rparr>))
      else if name \<in> set active then (Inr (), st)
      else (case entry_verdict parse io now (cl_fs st) name entry of
              Inl e \<Rightarrow> (Inl e, st)
            | Inr None \<Rightarrow>
                (case fs_rm (io_rm io name) name (cl_fs st) of
                   (True, fs) \<Rightarrow> (Inr (), st\<lparr>cl_fs := fs, cl_quota := q_release (cl_quota st) name,
                                            cl_removed := cl_removed st + 1\<rparr>)
                 | (False, fs) \<Rightarrow> (Inl OutputStoreIoError, st\<lparr>cl_fs := fs\<rparr>))
            | Inr (Some m) \<Rightarrow>
                (Inr (), st\<lparr>cl_retained := cl_retained st @
                   [\<lparr>re_reference = name, re_metadata = m, re_bytes = metadataBytes m\<rparr>]\<rparr>)))"

fun cleanup_loop ::
  "(string \<Rightarrow> json option) \<Rightarrow> store_io \<Rightarrow> int \<Rightarrow> string list \<Rightarrow> (string \<times> fs_entry) list \<Rightarrow> cleanup_state
    \<Rightarrow> (thrown + unit) \<times> cleanup_state" where
  "cleanup_loop parse io now active [] st = (Inr (), st)"
| "cleanup_loop parse io now active (item # items) st =
     (case cleanup_entry parse io now active item st of
        (Inl e, st1) \<Rightarrow> (Inl e, st1)
      | (Inr _, st1) \<Rightarrow> cleanup_loop parse io now active items st1)"

definition release_unseen :: "string list \<Rightarrow> string list \<Rightarrow> string list \<Rightarrow> quota \<Rightarrow> quota" where
  "release_unseen tracked seen active q =
     foldl (\<lambda>q reference. if reference \<notin> set seen \<and> reference \<notin> set active then q_release q reference else q)
       q tracked"

definition cleanupEntries ::
  "(string \<Rightarrow> json option) \<Rightarrow> store_io \<Rightarrow> int \<Rightarrow> string list \<Rightarrow> disk \<Rightarrow> quota
    \<Rightarrow> (thrown + (int \<times> retained_entry list)) \<times> disk \<times> quota" where
  "cleanupEntries parse io now active fs q =
     (let trackedBeforeScan = q_references q in
      if io_readdirFails io then (Inl OutputStoreIoError, fs, q)
      else
        (case cleanup_loop parse io now active fs
            \<lparr>cl_fs = fs, cl_quota = q, cl_removed = 0, cl_retained = []\<rparr> of
           (Inl e, st) \<Rightarrow> (Inl e, cl_fs st, cl_quota st)
         | (Inr _, st) \<Rightarrow>
             let seenReferences = filter opaque_reference (map fst fs) in
             (Inr (cl_removed st, cl_retained st), cl_fs st,
              release_unseen trackedBeforeScan seenReferences active (cl_quota st))))"

section \<open>Adopting retained entries\<close>

definition adoption_order :: "retained_entry list \<Rightarrow> retained_entry list" where
  "adoption_order entries = sort_key (\<lambda>e. (om_expiresAtMs (re_metadata e), re_reference e)) entries"

fun evict_loop ::
  "store_io \<Rightarrow> int \<Rightarrow> int \<Rightarrow> retained_entry list \<Rightarrow> int \<Rightarrow> int \<Rightarrow> disk \<Rightarrow> (thrown + string list) \<times> disk" where
  "evict_loop io maxBytes maxEntries [] totalBytes retainedEntries fs = (Inr [], fs)"
| "evict_loop io maxBytes maxEntries (entry # entries) totalBytes retainedEntries fs =
     (if totalBytes \<le> maxBytes \<and> retainedEntries \<le> maxEntries then (Inr [], fs)
      else (case fs_rm (io_rm io (re_reference entry)) (re_reference entry) fs of
              (False, fs1) \<Rightarrow> (Inl OutputStoreIoError, fs1)
            | (True, fs1) \<Rightarrow>
                (case evict_loop io maxBytes maxEntries entries (totalBytes - re_bytes entry) (retainedEntries - 1) fs1 of
                   (Inl e, fs2) \<Rightarrow> (Inl e, fs2)
                 | (Inr evicted, fs2) \<Rightarrow> (Inr (re_reference entry # evicted), fs2))))"

fun track_entries :: "string list \<Rightarrow> retained_entry list \<Rightarrow> quota \<Rightarrow> (thrown + unit) \<times> quota" where
  "track_entries evicted [] q = (Inr (), q)"
| "track_entries evicted (entry # entries) q =
     (if re_reference entry \<in> set evicted then track_entries evicted entries q
      else (case q_trackExisting q (re_reference entry) (re_bytes entry) of
              Inl e \<Rightarrow> (Inl e, q)
            | Inr q1 \<Rightarrow> track_entries evicted entries q1))"

definition adoptRetainedEntries ::
  "store_io \<Rightarrow> retained_entry list \<Rightarrow> disk \<Rightarrow> quota \<Rightarrow> (thrown + unit) \<times> disk \<times> quota" where
  "adoptRetainedEntries io entries fs q =
     (let ordered = adoption_order entries in
      case evict_loop io (q_maxBytes q) (q_maxEntries q) ordered
          (sum_list (map re_bytes ordered)) (int (length ordered)) fs of
        (Inl e, fs1) \<Rightarrow> (Inl e, fs1, q)
      | (Inr evicted, fs1) \<Rightarrow>
          (case track_entries evicted entries q of (r, q1) \<Rightarrow> (r, fs1, q1)))"

text \<open>Every error of the initialization is reported as the same storage error.\<close>

definition os_initialize ::
  "(string \<Rightarrow> json option) \<Rightarrow> store_io \<Rightarrow> int \<Rightarrow> output_store \<Rightarrow> (thrown + unit) \<times> output_store" where
  "os_initialize parse io now s =
     (if io_mkdirRootFails io then (Inl OutputStoreIoError, s)
      else case cleanupEntries parse io now (os_activeReferences s) (os_fs s) (os_quota s) of
        (Inl _, fs, q) \<Rightarrow> (Inl OutputStoreIoError, s\<lparr>os_fs := fs, os_quota := q\<rparr>)
      | (Inr (_, retained), fs, q) \<Rightarrow>
          (case adoptRetainedEntries io retained fs q of
             (Inl _, fs1, q1) \<Rightarrow> (Inl OutputStoreIoError, s\<lparr>os_fs := fs1, os_quota := q1\<rparr>)
           | (Inr _, fs1, q1) \<Rightarrow> (Inr (), s\<lparr>os_fs := fs1, os_quota := q1\<rparr>)))"

text \<open>The promise of the first initialization is kept, also when it failed.\<close>

definition ensureInitialized ::
  "(string \<Rightarrow> json option) \<Rightarrow> store_io \<Rightarrow> int \<Rightarrow> output_store \<Rightarrow> (thrown + unit) \<times> output_store" where
  "ensureInitialized parse io now s =
     (case os_initialization s of
        Some r \<Rightarrow> (r, s)
      | None \<Rightarrow> (case os_initialize parse io now s of (r, s1) \<Rightarrow> (r, s1\<lparr>os_initialization := Some r\<rparr>)))"

definition cleanupExpired ::
  "(string \<Rightarrow> json option) \<Rightarrow> store_io \<Rightarrow> int \<Rightarrow> output_store \<Rightarrow> (thrown + int) \<times> output_store" where
  "cleanupExpired parse io now s =
     (case ensureInitialized parse io now s of
        (Inl e, s1) \<Rightarrow> (Inl e, s1)
      | (Inr _, s1) \<Rightarrow>
          (case cleanupEntries parse io now (os_activeReferences s1) (os_fs s1) (os_quota s1) of
             (Inl e, fs, q) \<Rightarrow> (Inl e, s1\<lparr>os_fs := fs, os_quota := q\<rparr>)
           | (Inr (removed, _), fs, q) \<Rightarrow> (Inr removed, s1\<lparr>os_fs := fs, os_quota := q\<rparr>)))"

section \<open>Creating sinks\<close>

text \<open>\<open>random i\<close> is what the random source returns at the \<open>i\<close>-th call.\<close>

fun reserve_loop ::
  "nat \<Rightarrow> store_io \<Rightarrow> (nat \<Rightarrow> bytes) \<Rightarrow> nat \<Rightarrow> output_store \<Rightarrow> (thrown + string) \<times> output_store" where
  "reserve_loop 0 io random i s = (Inl OutputStoreIoError, s)"
| "reserve_loop (Suc n) io random i s =
     (if length (random i) \<noteq> OUTPUT_REFERENCE_BYTES then (Inl OutputStoreIoError, s)
      else
        let reference = base64url (random i) in
        if reference \<in> set (os_activeReferences s) \<or> q_has (os_quota s) reference
        then reserve_loop n io random (Suc i) s
        else if map_of (os_fs s) reference \<noteq> None then reserve_loop n io random (Suc i) s
        else if io_mkdirFails io reference then (Inl OutputStoreIoError, s)
        else (Inr reference, s\<lparr>os_activeReferences := os_activeReferences s @ [reference],
                              os_fs := AList.update reference (DirEntry []) (os_fs s)\<rparr>))"

definition reserveReference ::
  "store_io \<Rightarrow> (nat \<Rightarrow> bytes) \<Rightarrow> output_store \<Rightarrow> (thrown + string) \<times> output_store" where
  "reserveReference io random s = reserve_loop MAX_REFERENCE_ATTEMPTS io random 0 s"

datatype request_id = StringId string | NumberId int

definition valid_request_id :: "request_id \<Rightarrow> bool" where
  "valid_request_id requestId =
     (case requestId of StringId s \<Rightarrow> s \<noteq> [] | NumberId n \<Rightarrow> is_safe_integer n)"

definition os_create ::
  "(string \<Rightarrow> json option) \<Rightarrow> store_io \<Rightarrow> int \<Rightarrow> (nat \<Rightarrow> bytes) \<Rightarrow> request_id \<Rightarrow> output_store
    \<Rightarrow> (thrown + string) \<times> output_store" where
  "os_create parse io now random requestId s =
     (if \<not> valid_request_id requestId
      then (Inl (TypeError ''requestId must be a non-empty string or safe integer''), s)
      else case ensureInitialized parse io now s of
        (Inl e, s1) \<Rightarrow> (Inl e, s1)
      | (Inr _, s1) \<Rightarrow>
          (case reserveReference io random s1 of
             (Inl e, s2) \<Rightarrow> (Inl e, s2)
           | (Inr reference, s2) \<Rightarrow>
               (Inr reference,
                s2\<lparr>os_sinks := AList.update reference
                     \<lparr>tk_sink = new_sink reference (os_inlineBytesPerStream s2) (os_maxStoredBytes s2) (os_ttlMs s2),
                      tk_released = False\<rparr> (os_sinks s2)\<rparr>)))"

section \<open>The wrapped sinks\<close>

definition put_sink :: "string \<Rightarrow> sink \<Rightarrow> output_store \<Rightarrow> output_store" where
  "put_sink r sk s =
     (case map_of (os_sinks s) r of
        None \<Rightarrow> s
      | Some t \<Rightarrow> s\<lparr>os_sinks := AList.update r (t\<lparr>tk_sink := sk\<rparr>) (os_sinks s)\<rparr>)"

definition releaseOnce :: "string \<Rightarrow> output_store \<Rightarrow> output_store" where
  "releaseOnce r s =
     (case map_of (os_sinks s) r of
        None \<Rightarrow> s
      | Some t \<Rightarrow>
          if tk_released t then s
          else s\<lparr>os_sinks := AList.update r (t\<lparr>tk_released := True\<rparr>) (os_sinks s),
                 os_activeReferences := removeAll r (os_activeReferences s)\<rparr>)"

definition tracked_append :: "string \<Rightarrow> out_stream \<Rightarrow> bytes \<Rightarrow> output_store \<Rightarrow> output_store" where
  "tracked_append r stream chunk s =
     (case map_of (os_sinks s) r of
        None \<Rightarrow> s
      | Some t \<Rightarrow> put_sink r (snd (sink_append stream chunk (tk_sink t))) s)"

definition tracked_cancel :: "string \<Rightarrow> output_store \<Rightarrow> output_store" where
  "tracked_cancel r s =
     (case map_of (os_sinks s) r of None \<Rightarrow> s | Some t \<Rightarrow> put_sink r (sink_cancel (tk_sink t)) s)"

text \<open>
  The wrapper's \<open>finally\<close> runs when the promise of the sink settles: at once when the call is
  rejected or the promise is settled already, otherwise when the finishing job has run.
\<close>

definition tracked_finalize :: "string \<Rightarrow> output_store \<Rightarrow> output_store" where
  "tracked_finalize r s =
     (case map_of (os_sinks s) r of
        None \<Rightarrow> s
      | Some t \<Rightarrow>
          (case sink_finalize (tk_sink t) of
             (res, sk) \<Rightarrow>
               let s1 = put_sink r sk s in
               if \<not> is_ok res \<or> settled sk then releaseOnce r s1 else s1))"

definition tracked_abort :: "string \<Rightarrow> output_store \<Rightarrow> output_store" where
  "tracked_abort r s =
     (case map_of (os_sinks s) r of
        None \<Rightarrow> s
      | Some t \<Rightarrow>
          let sk = sink_abort (tk_sink t); s1 = put_sink r sk s in
          if settled sk then releaseOnce r s1 else s1)"

text \<open>The next job of a sink, on the disk and the quota of the store.\<close>

definition tracked_run :: "append_io \<Rightarrow> finalize_io \<Rightarrow> int \<Rightarrow> string \<Rightarrow> output_store \<Rightarrow> output_store" where
  "tracked_run aio fio now r s =
     (case map_of (os_sinks s) r of
        None \<Rightarrow> s
      | Some t \<Rightarrow>
          (case sink_run aio fio now (tk_sink t, os_fs s, os_quota s) of
             (sk, fs, q) \<Rightarrow>
               let s1 = put_sink r sk (s\<lparr>os_fs := fs, os_quota := q\<rparr>) in
               if settled sk then releaseOnce r s1 else s1))"

section \<open>Reading\<close>

record output_chunk =
  oc_dataBase64 :: string
  oc_nextOffset :: "int option"
  oc_eof :: bool
  oc_totalBytes :: int

definition throwReadNotFound :: "store_io \<Rightarrow> string \<Rightarrow> output_store \<Rightarrow> thrown \<times> output_store" where
  "throwReadNotFound io reference s =
     (if io_lstatFails io reference [] then (OutputStoreIoError, s)
      else if map_of (os_fs s) reference = None
      then (OutputNotFoundError,
            if reference \<notin> set (os_activeReferences s)
            then s\<lparr>os_quota := q_release (os_quota s) reference\<rparr> else s)
      else (OutputNotFoundError, s))"

text \<open>\<open>rm\<close> and \<open>release\<close> of an expired entry, for \<open>read\<close>.\<close>

definition expire_entry :: "store_io \<Rightarrow> string \<Rightarrow> output_store \<Rightarrow> thrown \<times> output_store" where
  "expire_entry io reference s =
     (case fs_rm (io_rm io reference) reference (os_fs s) of
        (False, fs) \<Rightarrow> (OutputStoreIoError, s\<lparr>os_fs := fs\<rparr>)
      | (True, fs) \<Rightarrow>
          (OutputExpiredError, s\<lparr>os_fs := fs, os_quota := q_release (os_quota s) reference\<rparr>))"

text \<open>Opening the payload file and reading the requested slice.\<close>

definition read_payload ::
  "store_io \<Rightarrow> string \<Rightarrow> out_stream \<Rightarrow> int \<Rightarrow> int \<Rightarrow> int \<Rightarrow> output_store \<Rightarrow> (thrown + output_chunk) \<times> output_store" where
  "read_payload io reference stream offset requestedBytes totalBytes s =
     (if io_payloadFails io then (Inl OutputStoreIoError, s)
      else case map_of (entry_files (os_fs s) reference) (stream_file stream) of
        None \<Rightarrow> (case throwReadNotFound io reference s of (e, s1) \<Rightarrow> (Inl e, s1))
      | Some OtherNode \<Rightarrow> (Inl OutputStoreIoError, s)
      | Some (FileNode content) \<Rightarrow>
          let buffer = take (nat requestedBytes) (drop (nat offset) content) in
          if int (length buffer) \<noteq> requestedBytes then (Inl OutputStoreIoError, s)
          else
            let followingOffset = offset + requestedBytes; eof = (followingOffset = totalBytes) in
            (Inr \<lparr>oc_dataBase64 = base64 buffer,
                  oc_nextOffset = (if eof then None else Some followingOffset),
                  oc_eof = eof, oc_totalBytes = totalBytes\<rparr>, s))"

definition os_read ::
  "(string \<Rightarrow> json option) \<Rightarrow> store_io \<Rightarrow> int \<Rightarrow> string \<Rightarrow> out_stream \<Rightarrow> int \<Rightarrow> int \<Rightarrow> output_store
    \<Rightarrow> (thrown + output_chunk) \<times> output_store" where
  "os_read parse io now reference stream offset limit s =
     (case ensureInitialized parse io now s of
        (Inl e, s1) \<Rightarrow> (Inl e, s1)
      | (Inr _, s1) \<Rightarrow>
          if \<not> opaque_reference reference then (Inl OutputNotFoundError, s1)
          else
            (case and_then (assertSafeInteger offset ''offset'' 0) (\<lambda>_.
                  and_then (assertSafeInteger limit ''limit'' 1) (\<lambda>_.
                  guard_else (\<not> limit > os_maxReadBytes s1) (RangeError ''limit exceeds maxReadBytes''))) of
               Inl e \<Rightarrow> (Inl e, s1)
             | Inr _ \<Rightarrow>
                 (case readMetadata parse io (os_fs s1) reference of
                    Inl e \<Rightarrow>
                      if e = OutputNotFoundError
                      then (case throwReadNotFound io reference s1 of (e1, s2) \<Rightarrow> (Inl e1, s2))
                      else (Inl e, s1)
                  | Inr metadata \<Rightarrow>
                      if om_expiresAtMs metadata \<le> now
                      then (case expire_entry io reference s1 of (e, s2) \<Rightarrow> (Inl e, s2))
                      else
                        let totalBytes = (case stream of Stdout \<Rightarrow> om_stdoutBytes metadata | Stderr \<Rightarrow> om_stderrBytes metadata);
                            requestedBytes = min limit (totalBytes - offset) in
                        if offset > totalBytes then (Inl (RangeError ''offset exceeds the stream length''), s1)
                        else if requestedBytes = 0
                        then (Inr \<lparr>oc_dataBase64 = [], oc_nextOffset = None, oc_eof = True, oc_totalBytes = totalBytes\<rparr>, s1)
                        else read_payload io reference stream offset requestedBytes totalBytes s1)))"

section \<open>Steps and reachable stores\<close>

text \<open>
  One step of the store. A reference that was handed out is not drawn again: this is what 32
  bytes from the cryptographic random source are relied on for.
\<close>

inductive os_step :: "output_store \<Rightarrow> output_store \<Rightarrow> bool" where
  create: "os_create parse io now random requestId s = (res, s') \<Longrightarrow>
    (\<forall>i. base64url (random i) \<notin> fst ` set (os_sinks s)) \<Longrightarrow> os_step s s'"
| append: "os_step s (tracked_append r stream chunk s)"
| cancel: "os_step s (tracked_cancel r s)"
| finalize: "os_step s (tracked_finalize r s)"
| abort: "os_step s (tracked_abort r s)"
| run: "os_step s (tracked_run aio fio now r s)"
| read: "os_read parse io now reference stream offset limit s = (res, s') \<Longrightarrow> os_step s s'"
| cleanup: "cleanupExpired parse io now s = (res, s') \<Longrightarrow> os_step s s'"

inductive os_reachable :: "output_store \<Rightarrow> bool" where
  init: "new_output_store isRoot directory inlineBytes maxStored maxTotal maxEntries ttl maxRead fs = Inr s \<Longrightarrow>
    distinct (map fst fs) \<Longrightarrow> os_reachable s"
| step: "os_reachable s \<Longrightarrow> os_step s s' \<Longrightarrow> os_reachable s'"

section \<open>Cleaning up keeps the accounts\<close>

lemma opaque_base64url: "length b = 32 \<Longrightarrow> opaque_reference (base64url b)"
proof -
  assume "length b = 32"
  moreover have "opaque_char c" if "base64url_char c" for c
    using that by (auto simp: base64url_char_def opaque_char_def)
  ultimately show ?thesis
    using base64url_chars by (auto simp: opaque_reference_def length_base64url list_all_iff)
qed

lemma cleanup_entry_cases:
  assumes "cleanup_entry parse io now active (name, entry) st = (r, st')"
  obtains (removed) fs where "fs_rm (io_rm io name) name (cl_fs st) = (True, fs)" "r = Inr ()" "cl_fs st' = fs"
      "cl_quota st' = (if opaque_reference name then q_release (cl_quota st) name else cl_quota st)"
      "cl_retained st' = cl_retained st" "\<not> opaque_reference name \<or> name \<notin> set active"
    | (failed) fs e where "fs_rm (io_rm io name) name (cl_fs st) = (False, fs)" "r = Inl e" "cl_fs st' = fs"
      "cl_quota st' = cl_quota st" "\<not> opaque_reference name \<or> name \<notin> set active"
    | (error) e where "r = Inl e" "st' = st"
    | (active) "name \<in> set active" "r = Inr ()" "st' = st"
    | (kept) m where "opaque_reference name" "entry_verdict parse io now (cl_fs st) name entry = Inr (Some m)" "r = Inr ()"
      "st' = st\<lparr>cl_retained := cl_retained st @ [\<lparr>re_reference = name, re_metadata = m, re_bytes = metadataBytes m\<rparr>]\<rparr>"
proof -
  obtain ok fs where rm: "fs_rm (io_rm io name) name (cl_fs st) = (ok, fs)" by force
  consider "\<not> opaque_reference name" | "opaque_reference name" "name \<in> set active"
    | "opaque_reference name" "name \<notin> set active" by blast
  then show ?thesis
  proof cases
    case 1
    with assms rm show ?thesis by (cases ok) (auto simp: cleanup_entry_def intro: removed failed)
  next
    case 2
    with assms show ?thesis by (intro active) (auto simp: cleanup_entry_def)
  next
    case 3
    show ?thesis
    proof (cases "entry_verdict parse io now (cl_fs st) name entry")
      case (Inl e)
      with assms 3 show ?thesis by (intro error) (auto simp: cleanup_entry_def)
    next
      case (Inr v)
      show ?thesis
      proof (cases v)
        case None
        with assms rm 3 Inr show ?thesis by (cases ok) (auto simp: cleanup_entry_def intro: removed failed)
      next
        case (Some m)
        with assms 3 Inr show ?thesis by (intro kept) (auto simp: cleanup_entry_def)
      qed
    qed
  qed
qed

lemma map_of_rm_other: "x \<noteq> name \<Longrightarrow> map_of (snd (fs_rm outcome name fs)) x = map_of fs x"
  by (auto simp: fs_rm_def delete_conv' update_conv' split: option.splits fs_entry.splits)

lemma dom_rm: "map_of fs x = None \<Longrightarrow> map_of (snd (fs_rm outcome name fs)) x = None"
  by (auto simp: fs_rm_def delete_conv' update_conv' split: option.splits fs_entry.splits)

lemma distinct_rm: "distinct (map fst fs) \<Longrightarrow> distinct (map fst (snd (fs_rm outcome name fs)))"
  by (auto simp: fs_rm_def split: option.splits fs_entry.splits intro: distinct_keys_delete distinct_keys_update)

text \<open>What one method may do to the disk and the quota of the store.\<close>

definition tidy :: "string list \<Rightarrow> disk \<times> quota \<Rightarrow> disk \<times> quota \<Rightarrow> bool" where
  "tidy active a b \<longleftrightarrow>
     (case (a, b) of ((fs, q), (fs', q')) \<Rightarrow>
       (quota_inv q \<longrightarrow> quota_inv q') \<and> (quota_inv q \<and> accounted fs q \<longrightarrow> accounted fs' q')
       \<and> q_maxBytes q' = q_maxBytes q \<and> q_maxEntries q' = q_maxEntries q
       \<and> (distinct (map fst fs) \<longrightarrow> distinct (map fst fs'))
       \<and> (\<forall>x. map_of fs x = None \<longrightarrow> map_of fs' x = None)
       \<and> (\<forall>x \<in> set active. map_of fs' x = map_of fs x))"

lemma tidy_refl [simp]: "tidy active a a"
  by (simp add: tidy_def split: prod.splits)

lemma tidy_trans: "tidy active a b \<Longrightarrow> tidy active b c \<Longrightarrow> tidy active a c"
  unfolding tidy_def by (auto split: prod.splits)

lemma tidy_rm:
  "name \<notin> set active \<Longrightarrow> tidy active (fs, q) (snd (fs_rm outcome name fs), q)"
  by (auto simp: tidy_def accounted_rm distinct_rm dom_rm intro: map_of_rm_other)

lemma tidy_rm_release:
  assumes "name \<notin> set active" "fs_rm outcome name fs = (True, fs')"
  shows "tidy active (fs, q) (fs', q_release q name)"
  using tidy_rm [OF assms(1), of fs q outcome] accounted_rm_release [OF _ assms(2)] assms(2)
  by (auto simp: tidy_def release_inv)

lemma tidy_release_absent: "map_of fs name = None \<Longrightarrow> tidy active (fs, q) (fs, q_release q name)"
  by (auto simp: tidy_def release_inv accounted_release_absent)

lemma cleanup_entry_tidy:
  assumes "cleanup_entry parse io now active (name, entry) st = (r, st')" "list_all opaque_reference active"
  shows "tidy active (cl_fs st, cl_quota st) (cl_fs st', cl_quota st')"
  using assms(1)
proof (cases rule: cleanup_entry_cases)
  case (removed fs)
  with assms(2) have n: "name \<notin> set active" by (auto simp: list_all_iff)
  from removed tidy_rm [OF n, of "cl_fs st" "cl_quota st" "io_rm io name"] tidy_rm_release [OF n removed(1)]
  show ?thesis by simp
next
  case (failed fs e)
  with assms(2) have n: "name \<notin> set active" by (auto simp: list_all_iff)
  from failed tidy_rm [OF n, of "cl_fs st" "cl_quota st" "io_rm io name"] show ?thesis by simp
qed simp_all

lemma cleanup_loop_tidy:
  assumes "cleanup_loop parse io now active items st = (r, st')" "list_all opaque_reference active"
  shows "tidy active (cl_fs st, cl_quota st) (cl_fs st', cl_quota st')"
  using assms(1)
proof (induction items arbitrary: st)
  case (Cons item items)
  obtain name entry where i: "item = (name, entry)" by force
  obtain r1 st1 where e: "cleanup_entry parse io now active (name, entry) st = (r1, st1)" by force
  note t = cleanup_entry_tidy [OF e assms(2)]
  from Cons i e show ?case by (cases r1) (auto intro: tidy_trans [OF t] simp: t)
qed simp

lemma release_unseen_tidy:
  assumes "\<And>r. r \<in> set tracked \<Longrightarrow> r \<notin> set seen \<Longrightarrow> r \<notin> set active \<Longrightarrow> map_of fs r = None"
  shows "tidy active (fs, q) (fs, release_unseen tracked seen active q)"
  using assms
proof (induction tracked arbitrary: q)
  case (Cons r tracked)
  let ?q = "if r \<notin> set seen \<and> r \<notin> set active then q_release q r else q"
  have "tidy active (fs, q) (fs, ?q)" using Cons.prems [of r] by (auto intro: tidy_release_absent)
  moreover have "release_unseen (r # tracked) seen active q = release_unseen tracked seen active ?q"
    by (simp add: release_unseen_def)
  ultimately show ?case using Cons.IH [of ?q] Cons.prems by (auto intro: tidy_trans)
qed (simp add: release_unseen_def)

lemma cleanup_loop_opaque:
  assumes "cleanup_loop parse io now active items st = (Inr r, st')" "list_all opaque_reference active"
    and "x \<in> fst ` set items" "\<not> opaque_reference x"
  shows "map_of (cl_fs st') x = None"
  using assms(1,3)
proof (induction items arbitrary: st)
  case (Cons item items)
  obtain name entry where i: "item = (name, entry)" by force
  obtain r1 st1 where e: "cleanup_entry parse io now active (name, entry) st = (r1, st1)" by force
  from Cons.prems(1) i e have l: "cleanup_loop parse io now active items st1 = (Inr r, st')" and r1: "r1 = Inr ()"
    by (auto split: sum.splits)
  show ?case
  proof (cases "x = name")
    case True
    have "map_of (cl_fs st1) name = None"
      using e
    proof (cases rule: cleanup_entry_cases)
      case (removed fs)
      then show ?thesis by (auto dest!: rm_removed simp: delete_conv')
    qed (use r1 assms(2,4) True in \<open>auto simp: list_all_iff\<close>)
    with cleanup_loop_tidy [OF l assms(2)] True show ?thesis by (simp add: tidy_def)
  next
    case False
    with Cons.prems(2) i have "x \<in> fst ` set items" by auto
    with Cons.IH [OF l] show ?thesis .
  qed
qed simp

lemma cleanup_tidy:
  assumes "cleanupEntries parse io now active fs q = (res, fs', q')" "list_all opaque_reference active"
  shows "tidy active (fs, q) (fs', q')"
proof (cases "io_readdirFails io")
  case True
  with assms(1) show ?thesis by (simp add: cleanupEntries_def)
next
  case False
  let ?st = "\<lparr>cl_fs = fs, cl_quota = q, cl_removed = 0, cl_retained = []\<rparr>"
  obtain r st where l: "cleanup_loop parse io now active fs ?st = (r, st)" by force
  note t = cleanup_loop_tidy [OF l assms(2), simplified]
  show ?thesis
  proof (cases r)
    case (Inl e)
    with assms(1) False l t show ?thesis by (simp add: cleanupEntries_def)
  next
    case (Inr u)
    have "map_of (cl_fs st) x = None" if "x \<notin> set (filter opaque_reference (map fst fs))" for x
    proof (cases "x \<in> fst ` set fs")
      case True
      with that cleanup_loop_opaque [OF l [unfolded Inr] assms(2) True] show ?thesis by auto
    next
      case False
      then have "map_of fs x = None" by (simp add: map_of_eq_None_iff)
      with t show ?thesis by (simp add: tidy_def)
    qed
    then have "tidy active (cl_fs st, cl_quota st) (cl_fs st,
        release_unseen (q_references q) (filter opaque_reference (map fst fs)) active (cl_quota st))"
      by (intro release_unseen_tidy)
    with assms(1) False l Inr t show ?thesis by (auto simp: cleanupEntries_def Let_def intro: tidy_trans)
  qed
qed

section \<open>Adopting what is on disk\<close>

lemma parseMetadata_nonneg:
  "parseMetadata v = Some m \<Longrightarrow> 0 \<le> om_stdoutBytes m \<and> 0 \<le> om_stderrBytes m \<and> 0 \<le> om_expiresAtMs m"
  by (auto simp: parseMetadata_def split: json.splits if_splits option.splits)

lemma readMetadataFile_nonneg:
  "readMetadataFile parse io fs name = Inr (Some m) \<Longrightarrow> 0 \<le> om_stdoutBytes m \<and> 0 \<le> om_stderrBytes m"
  by (auto simp: readMetadataFile_def dest!: parseMetadata_nonneg
      split: if_splits option.splits fs_entry.splits fs_node.splits io_error.splits)

lemma canonical_payload:
  "isCanonicalPayloadFile io name entries fileName n = Inr True \<Longrightarrow> int (length (dir_content entries fileName)) = n"
  by (auto simp: isCanonicalPayloadFile_def dir_content_def split: option.splits fs_node.splits if_splits)

lemma payload_files:
  "payload fs name = int (length (dir_content (entry_files fs name) ''stdout.bin''))
     + int (length (dir_content (entry_files fs name) ''stderr.bin''))"
  by (simp add: payload_def file_content_def dir_content_def stream_file_def)

lemma verdict_kept:
  assumes "entry_verdict parse io now fs name entry = Inr (Some m)"
  shows "payload fs name = metadataBytes m \<and> 0 \<le> metadataBytes m \<and> now < om_expiresAtMs m"
proof -
  from assms have r: "readMetadataFile parse io fs name = Inr (Some m)" and e: "now < om_expiresAtMs m"
    and c: "isCanonicalRetainedEntry io fs name m = Inr True"
    by (auto simp: entry_verdict_def split: fs_entry.splits sum.splits option.splits if_splits)
  from c have "isCanonicalPayloadFile io name (entry_files fs name) ''stdout.bin'' (om_stdoutBytes m) = Inr True"
    "isCanonicalPayloadFile io name (entry_files fs name) ''stderr.bin'' (om_stderrBytes m) = Inr True"
    by (auto simp: isCanonicalRetainedEntry_def and_then_eq_Inr Let_def split: option.splits io_error.splits if_splits)
  from this [THEN canonical_payload] readMetadataFile_nonneg [OF r] e show ?thesis
    by (simp add: payload_files metadataBytes_def)
qed

lemma payload_cong: "map_of fs x = map_of fs' x \<Longrightarrow> payload fs x = payload fs' x"
  by (simp add: payload_files entry_files_def)

lemma payload_None: "map_of fs x = None \<Longrightarrow> payload fs x = 0"
  by (simp add: payload_files entry_files_def dir_content_def)

lemma cleanup_loop_frame:
  assumes "cleanup_loop parse io now active items st = (r, st')" "x \<notin> fst ` set items"
  shows "map_of (cl_fs st') x = map_of (cl_fs st) x"
  using assms
proof (induction items arbitrary: st)
  case (Cons item items)
  obtain name entry where i: "item = (name, entry)" by force
  obtain r1 st1 where e: "cleanup_entry parse io now active (name, entry) st = (r1, st1)" by force
  have "map_of (cl_fs st1) x = map_of (cl_fs st) x"
    using e
  proof (cases rule: cleanup_entry_cases)
    case (removed fs)
    with Cons.prems(2) i map_of_rm_other [of x name "io_rm io name" "cl_fs st"] show ?thesis by auto
  next
    case (failed fs e)
    with Cons.prems(2) i map_of_rm_other [of x name "io_rm io name" "cl_fs st"] show ?thesis by auto
  qed simp_all
  with Cons i e show ?case by (cases r1) auto
qed simp

text \<open>With no sink active, everything that is left on disk after a clean-up is in the list of retained entries.\<close>

lemma cleanup_loop_retained:
  assumes "cleanup_loop parse io now [] items st = (Inr r, st')" "distinct (map fst items)"
    and "\<forall>x. \<not> q_has (cl_quota st) x"
  shows "cl_quota st' = cl_quota st \<and> (\<exists>new. cl_retained st' = cl_retained st @ new \<and> distinct (map re_reference new)
    \<and> re_reference ` set new \<subseteq> fst ` set items
    \<and> (\<forall>e \<in> set new. 0 \<le> re_bytes e \<and> re_bytes e = payload (cl_fs st') (re_reference e)
         \<and> re_bytes e = metadataBytes (re_metadata e) \<and> now < om_expiresAtMs (re_metadata e))
    \<and> (\<forall>x \<in> fst ` set items. x \<notin> re_reference ` set new \<longrightarrow> map_of (cl_fs st') x = None))"
  using assms
proof (induction items arbitrary: st)
  case (Cons item items)
  obtain name entry where i: "item = (name, entry)" by force
  obtain r1 st1 where e: "cleanup_entry parse io now [] (name, entry) st = (r1, st1)" by force
  from Cons.prems(1) i e have l: "cleanup_loop parse io now [] items st1 = (Inr r, st')" and r1: "r1 = Inr ()"
    by (auto split: sum.splits)
  have d: "name \<notin> fst ` set items" "distinct (map fst items)" using Cons.prems(2) i by auto
  note frame = cleanup_loop_frame [OF l d(1)]
  have nohas: "q_release (cl_quota st) name = cl_quota st"
    using Cons.prems(3) by (simp add: q_release_def q_has_def)
  from e show ?case
  proof (cases rule: cleanup_entry_cases)
    case (removed fs)
    then have st1: "cl_quota st1 = cl_quota st" "cl_retained st1 = cl_retained st" "map_of (cl_fs st1) name = None"
      using nohas by (auto dest!: rm_removed simp: delete_conv')
    from Cons.IH [OF l d(2)] Cons.prems(3) st1(1) obtain new where
      n: "cl_quota st' = cl_quota st1" "cl_retained st' = cl_retained st1 @ new" "distinct (map re_reference new)"
        "re_reference ` set new \<subseteq> fst ` set items"
        "\<forall>e \<in> set new. 0 \<le> re_bytes e \<and> re_bytes e = payload (cl_fs st') (re_reference e)
           \<and> re_bytes e = metadataBytes (re_metadata e) \<and> now < om_expiresAtMs (re_metadata e)"
        "\<forall>x \<in> fst ` set items. x \<notin> re_reference ` set new \<longrightarrow> map_of (cl_fs st') x = None" by auto
    have "\<forall>x \<in> fst ` set (item # items). x \<notin> re_reference ` set new \<longrightarrow> map_of (cl_fs st') x = None"
      using n(6) frame st1(3) i by auto
    moreover have "re_reference ` set new \<subseteq> fst ` set (item # items)" using n(4) by auto
    ultimately show ?thesis using n st1 by metis
  next
    case (kept m)
    let ?e = "\<lparr>re_reference = name, re_metadata = m, re_bytes = metadataBytes m\<rparr>"
    from kept have st1: "cl_quota st1 = cl_quota st" "cl_retained st1 = cl_retained st @ [?e]" "cl_fs st1 = cl_fs st" by auto
    from Cons.IH [OF l d(2)] Cons.prems(3) st1 obtain new where
      n: "cl_quota st' = cl_quota st" "cl_retained st' = cl_retained st @ ?e # new" "distinct (map re_reference new)"
        "re_reference ` set new \<subseteq> fst ` set items"
        "\<forall>e \<in> set new. 0 \<le> re_bytes e \<and> re_bytes e = payload (cl_fs st') (re_reference e)
           \<and> re_bytes e = metadataBytes (re_metadata e) \<and> now < om_expiresAtMs (re_metadata e)"
        "\<forall>x \<in> fst ` set items. x \<notin> re_reference ` set new \<longrightarrow> map_of (cl_fs st') x = None" by auto
    have "payload (cl_fs st') name = metadataBytes m" "0 \<le> metadataBytes m" "now < om_expiresAtMs m"
      using verdict_kept [OF kept(2)] payload_cong [OF frame] st1(3) by simp_all
    with n(5) have "\<forall>e \<in> set (?e # new). 0 \<le> re_bytes e \<and> re_bytes e = payload (cl_fs st') (re_reference e)
         \<and> re_bytes e = metadataBytes (re_metadata e) \<and> now < om_expiresAtMs (re_metadata e)"
      by (simp add: ball_simps(7)) (metis)
    moreover have "\<forall>x \<in> fst ` set (item # items). x \<notin> re_reference ` set (?e # new) \<longrightarrow> map_of (cl_fs st') x = None"
      using n(6) i by auto
    moreover have "re_reference ` set (?e # new) \<subseteq> fst ` set (item # items)" "distinct (map re_reference (?e # new))"
      using n(3,4) d(1) i by auto
    ultimately show ?thesis using n(1,2) by metis
  qed (use r1 in simp_all)
qed simp

lemma evict_loop_spec:
  assumes "evict_loop io maxBytes maxEntries es tot cnt fs = (Inr evicted, fs')"
  shows "\<exists>k \<le> length es. evicted = map re_reference (take k es)
    \<and> (k < length es \<longrightarrow> tot - sum_list (map re_bytes (take k es)) \<le> maxBytes \<and> cnt - int k \<le> maxEntries)
    \<and> (\<forall>j < k. \<not> (tot - sum_list (map re_bytes (take j es)) \<le> maxBytes \<and> cnt - int j \<le> maxEntries))
    \<and> (\<forall>x. map_of fs' x = (if x \<in> set evicted then None else map_of fs x))
    \<and> (distinct (map fst fs) \<longrightarrow> distinct (map fst fs'))"
  using assms
proof (induction es arbitrary: tot cnt fs evicted)
  case Nil
  then show ?case by simp
next
  case (Cons e es)
  show ?case
  proof (cases "tot \<le> maxBytes \<and> cnt \<le> maxEntries")
    case True
    with Cons.prems show ?thesis by (intro exI [of _ 0]) auto
  next
    case False
    obtain ok fs1 where rm: "fs_rm (io_rm io (re_reference e)) (re_reference e) fs = (ok, fs1)" by force
    with Cons.prems False have ok by (cases ok) (auto split: if_splits)
    with rm have fs1: "fs1 = AList.delete (re_reference e) fs" by (auto dest: rm_removed)
    from Cons.prems False rm \<open>ok\<close> obtain ev1 where
      l: "evict_loop io maxBytes maxEntries es (tot - re_bytes e) (cnt - 1) fs1 = (Inr ev1, fs')"
      and ev: "evicted = re_reference e # ev1" by (auto split: prod.splits sum.splits)
    from Cons.IH [OF l] obtain k where k: "k \<le> length es" "ev1 = map re_reference (take k es)"
      "k < length es \<longrightarrow> tot - re_bytes e - sum_list (map re_bytes (take k es)) \<le> maxBytes \<and> cnt - 1 - int k \<le> maxEntries"
      "\<forall>j < k. \<not> (tot - re_bytes e - sum_list (map re_bytes (take j es)) \<le> maxBytes \<and> cnt - 1 - int j \<le> maxEntries)"
      "\<forall>x. map_of fs' x = (if x \<in> set ev1 then None else map_of fs1 x)"
      "distinct (map fst fs1) \<longrightarrow> distinct (map fst fs')" by blast
    have j: "\<not> (tot - sum_list (map re_bytes (take j (e # es))) \<le> maxBytes \<and> cnt - int j \<le> maxEntries)"
      if "j < Suc k" for j
      using that False k(4) by (cases j) (auto simp: algebra_simps)
    have "map_of fs' x = (if x \<in> set evicted then None else map_of fs x)" for x
      using k(5) by (auto simp: ev fs1 delete_conv')
    with k j show ?thesis
      by (intro exI [of _ "Suc k"]) (auto simp: ev fs1 algebra_simps distinct_keys_delete)
  qed
qed


lemma track_entries_filter:
  "track_entries evicted es q = track_entries [] (filter (\<lambda>e. re_reference e \<notin> set evicted) es) q"
  by (induction es arbitrary: q) (auto split: sum.splits)

lemma track_entries_ok:
  assumes "quota_inv q" "distinct (map re_reference es)" "\<forall>e \<in> set es. 0 \<le> re_bytes e"
    and "\<forall>e \<in> set es. \<not> q_has q (re_reference e)"
    and "q_totalBytes q + sum_list (map re_bytes es) \<le> q_maxBytes q" "q_size q + int (length es) \<le> q_maxEntries q"
  shows "\<exists>q'. track_entries [] es q = (Inr (), q') \<and> quota_inv q' \<and> q_maxBytes q' = q_maxBytes q
    \<and> q_maxEntries q' = q_maxEntries q
    \<and> (\<forall>e \<in> set es. q_held q' (re_reference e) = re_bytes e)
    \<and> (\<forall>x. x \<notin> re_reference ` set es \<longrightarrow> q_held q' x = q_held q x)"
  using assms
proof (induction es arbitrary: q)
  case (Cons e es)
  let ?q = "q\<lparr>q_bytesByReference := AList.update (re_reference e) (re_bytes e) (q_bytesByReference q),
      q_totalBytes := q_totalBytes q + re_bytes e\<rparr>"
  have s: "0 \<le> sum_list (map re_bytes es)" using Cons.prems(3) by (intro sum_list_nonneg) auto
  then have t: "q_trackExisting q (re_reference e) (re_bytes e) = Inr ?q"
    using Cons.prems by (auto simp: q_trackExisting_def)
  have "quota_inv ?q" using track_inv [OF Cons.prems(1) _ t] Cons.prems(3) by simp
  moreover have "q_size ?q = q_size q + 1" using Cons.prems(4) by (simp add: q_size_def q_has_def length_update_new)
  moreover have "q_has ?q x \<longleftrightarrow> q_has q x \<or> x = re_reference e" for x by (auto simp: q_has_def update_conv')
  moreover have "\<forall>x \<in> set es. re_reference x \<noteq> re_reference e" using Cons.prems(2) by (simp add: image_iff) metis
  ultimately obtain q' where q': "track_entries [] es ?q = (Inr (), q')" "quota_inv q'" "q_maxBytes q' = q_maxBytes q"
    "q_maxEntries q' = q_maxEntries q" "\<forall>e \<in> set es. q_held q' (re_reference e) = re_bytes e"
    "\<forall>x. x \<notin> re_reference ` set es \<longrightarrow> q_held q' x = q_held ?q x"
    using Cons.IH [of ?q] Cons.prems by auto
  moreover have "re_reference e \<notin> re_reference ` set es" using Cons.prems(2) by auto
  ultimately show ?case using t track_held [OF t] by (intro exI [of _ q']) auto
qed auto

text \<open>What adoption keeps: the entries that expire last, as many as fit.\<close>

lemma filter_take_drop:
  "distinct (map f xs) \<Longrightarrow> filter (\<lambda>x. f x \<notin> set (map f (take k xs))) xs = drop k xs"
proof (induction xs arbitrary: k)
  case (Cons x xs)
  show ?case
  proof (cases k)
    case (Suc j)
    have "f y \<noteq> f x" if "y \<in> set xs" for y using that Cons.prems by (simp add: image_iff) metis
    then have "filter (\<lambda>y. f y \<noteq> f x \<and> f y \<notin> set (map f (take j xs))) xs = filter (\<lambda>y. f y \<notin> set (map f (take j xs))) xs"
      by (intro filter_cong) auto
    with Suc Cons show ?thesis by simp
  qed simp
qed simp

lemma adoption_order_mset: "mset (adoption_order es) = mset es"
  by (simp add: adoption_order_def)

lemma adoption_order_distinct: "distinct (map re_reference es) \<Longrightarrow> distinct (map re_reference (adoption_order es))"
proof -
  have "mset (map re_reference (adoption_order es)) = mset (map re_reference es)"
    using adoption_order_mset [of es] by simp
  then show "distinct (map re_reference es) \<Longrightarrow> distinct (map re_reference (adoption_order es))"
    by (metis mset_eq_imp_distinct_iff)
qed

lemma adopt_spec:
  assumes "adoptRetainedEntries io es fs q = (res, fs', q')"
    and "q = new_quota maxBytes maxEntries" "0 \<le> maxBytes" "0 \<le> maxEntries"
    and "distinct (map re_reference es)" "\<forall>e \<in> set es. 0 \<le> re_bytes e"
  shows "(case res of
       Inl e \<Rightarrow> e = OutputStoreIoError \<and> (\<exists>e \<in> set es. io_rm io (re_reference e) \<noteq> None) \<and> q' = q
     | Inr _ \<Rightarrow> \<exists>k \<le> length es.
         (let order = adoption_order es; kept = drop k order in
          sum_list (map re_bytes kept) \<le> maxBytes \<and> int (length kept) \<le> maxEntries
          \<and> (\<forall>j < k. \<not> (sum_list (map re_bytes (drop j order)) \<le> maxBytes \<and> int (length (drop j order)) \<le> maxEntries))
          \<and> (\<forall>x. map_of fs' x = (if x \<in> re_reference ` set (take k order) then None else map_of fs x))
          \<and> (\<forall>e \<in> set kept. q_held q' (re_reference e) = re_bytes e)
          \<and> (\<forall>x. x \<notin> re_reference ` set kept \<longrightarrow> q_held q' x = 0)
          \<and> quota_inv q' \<and> q_maxBytes q' = maxBytes \<and> q_maxEntries q' = maxEntries
          \<and> (distinct (map fst fs) \<longrightarrow> distinct (map fst fs'))))"
proof -
  let ?o = "adoption_order es"
  have lim: "q_maxBytes q = maxBytes" "q_maxEntries q = maxEntries" "q_totalBytes q = 0" "q_size q = 0" "\<And>x. \<not> q_has q x" "\<And>x. q_held q x = 0"
    by (simp_all add: assms(2) new_quota_def q_size_def q_has_def q_held_def)
  have set: "set ?o = set es" by (simp add: adoption_order_def)
  obtain r fs1 where l: "evict_loop io maxBytes maxEntries ?o (sum_list (map re_bytes ?o)) (int (length ?o)) fs = (r, fs1)" by force
  show ?thesis
  proof (cases r)
    case (Inl e)
    have "e = OutputStoreIoError \<and> (\<exists>x \<in> set es'. io_rm io (re_reference x) \<noteq> None)"
      if "evict_loop io maxBytes maxEntries es' tot cnt fs = (Inl e, fs1)" for es' tot cnt fs
      using that
    proof (induction es' arbitrary: tot cnt fs)
      case (Cons x es')
      obtain ok fs2 where rm: "fs_rm (io_rm io (re_reference x)) (re_reference x) fs = (ok, fs2)" by force
      show ?case
      proof (cases ok)
        case True
        with Cons rm show ?thesis by (auto split: if_splits prod.splits sum.splits)
      next
        case False
        with rm have "io_rm io (re_reference x) \<noteq> None" by (auto simp: fs_rm_def split: option.splits)
        with False Cons.prems rm show ?thesis by (auto split: if_splits)
      qed
    qed simp
    from this [OF l [unfolded Inl]] set have "e = OutputStoreIoError" "\<exists>e \<in> set es. io_rm io (re_reference e) \<noteq> None"
      by blast+
    moreover from assms(1) l Inl have "res = Inl e" "q' = q" by (auto simp: adoptRetainedEntries_def Let_def lim)
    ultimately show ?thesis by simp
  next
    case (Inr evicted)
    from evict_loop_spec [OF l [unfolded Inr]] obtain k where k: "k \<le> length ?o" "evicted = map re_reference (take k ?o)"
      "k < length ?o \<longrightarrow> sum_list (map re_bytes ?o) - sum_list (map re_bytes (take k ?o)) \<le> maxBytes \<and> int (length ?o) - int k \<le> maxEntries"
      "\<forall>j < k. \<not> (sum_list (map re_bytes ?o) - sum_list (map re_bytes (take j ?o)) \<le> maxBytes \<and> int (length ?o) - int j \<le> maxEntries)"
      "\<forall>x. map_of fs1 x = (if x \<in> set evicted then None else map_of fs x)"
      "distinct (map fst fs) \<longrightarrow> distinct (map fst fs1)" by blast
    have drop: "sum_list (map re_bytes ?o) - sum_list (map re_bytes (take j ?o)) = sum_list (map re_bytes (drop j ?o))" for j
      by (metis add_diff_cancel_left' append_take_drop_id map_append sum_list_append)
    have kept_le: "sum_list (map re_bytes (drop k ?o)) \<le> maxBytes" "int (length (drop k ?o)) \<le> maxEntries"
      using k(1,3) assms(3,4) drop [of k] by (cases "k < length ?o"; simp)+
    let ?kept = "filter (\<lambda>e. re_reference e \<notin> set evicted) es"
    have "filter (\<lambda>e. re_reference e \<notin> set evicted) ?o = drop k ?o"
      unfolding k(2) by (rule filter_take_drop [OF adoption_order_distinct [OF assms(5)]])
    then have m: "mset ?kept = mset (drop k ?o)" by (metis adoption_order_mset mset_filter)
    have sum: "sum_list (map re_bytes ?kept) = sum_list (map re_bytes (drop k ?o))"
    proof -
      have "mset (map re_bytes ?kept) = mset (map re_bytes (drop k ?o))" unfolding mset_map m ..
      then show ?thesis unfolding sum_mset_sum_list [symmetric] by (rule arg_cong)
    qed
    have len: "length ?kept = length (drop k ?o)" using arg_cong [OF m, of size] unfolding size_mset .
    have setk: "set ?kept = set (drop k ?o)" using arg_cong [OF m, of set_mset] unfolding set_mset_mset .
    have dk: "distinct (map re_reference ?kept)" using assms(5) by (simp add: distinct_map_filter)
    obtain q2 where q2: "track_entries [] ?kept q = (Inr (), q2)" "quota_inv q2" "q_maxBytes q2 = maxBytes" "q_maxEntries q2 = maxEntries"
      "\<forall>e \<in> set ?kept. q_held q2 (re_reference e) = re_bytes e"
      "\<forall>x. x \<notin> re_reference ` set ?kept \<longrightarrow> q_held q2 x = 0"
      using track_entries_ok [of q ?kept] dk assms(6) kept_le sum len lim quota_inv_new [OF assms(3,4)] assms(2)
      by auto
    have "res = Inr ()" "fs' = fs1" "q' = q2"
      using assms(1) l Inr q2(1) track_entries_filter [of evicted es q]
      by (auto simp: adoptRetainedEntries_def Let_def lim)
    moreover have "\<not> (sum_list (map re_bytes (drop j ?o)) \<le> maxBytes \<and> int (length (drop j ?o)) \<le> maxEntries)" if "j < k" for j
      using k(1,4) that drop [of j] by auto
    moreover have "k \<le> length es" using k(1) by (simp add: adoption_order_def)
    moreover have "\<forall>x. map_of fs1 x = (if x \<in> re_reference ` set (take k ?o) then None else map_of fs x)"
      using k(2,5) by simp
    moreover note kept_le q2(2-4) q2(5,6) [unfolded setk] k(6)
    ultimately show ?thesis unfolding Let_def by (simp only: sum.case) blast
  qed
qed

lemma initialize_accounted:
  assumes "os_initialize parse io now s = (res, s')" "os_activeReferences s = []" "distinct (map fst (os_fs s))"
    and "os_quota s = new_quota maxBytes maxEntries" "0 \<le> maxBytes" "0 \<le> maxEntries"
  shows "quota_inv (os_quota s') \<and> distinct (map fst (os_fs s')) \<and> (is_ok res \<longrightarrow> accounted (os_fs s') (os_quota s'))
    \<and> (\<exists>fs q. s' = s\<lparr>os_fs := fs, os_quota := q\<rparr>)"
proof -
  note qi = quota_inv_new [OF assms(5,6)]
  obtain cr fs1 q1 where c: "cleanupEntries parse io now [] (os_fs s) (os_quota s) = (cr, fs1, q1)" by (metis prod_cases3)
  have t: "tidy [] (os_fs s, os_quota s) (fs1, q1)" by (rule cleanup_tidy [OF c]) simp
  then have i1: "quota_inv q1" "distinct (map fst fs1)" using qi assms(3,4) by (auto simp: tidy_def)
  show ?thesis
  proof (cases "io_mkdirRootFails io \<or> \<not> is_ok cr")
    case True
    consider "io_mkdirRootFails io" | e where "\<not> io_mkdirRootFails io" "cr = Inl e" using True by (cases cr) auto
    then show ?thesis
    proof cases
      case 1
      then have "(res, s') = (Inl OutputStoreIoError, s)" using assms(1) by (simp add: os_initialize_def)
      then have "s' = s" "\<not> is_ok res" by simp_all
      moreover have "\<exists>fs q. s = s\<lparr>os_fs := fs, os_quota := q\<rparr>"
        by (intro exI [of _ "os_fs s"] exI [of _ "os_quota s"]) simp
      ultimately show ?thesis using qi assms(3,4) by simp
    next
      case 2
      then have "(res, s') = (Inl OutputStoreIoError, s\<lparr>os_fs := fs1, os_quota := q1\<rparr>)"
        using assms(1) c by (simp add: os_initialize_def assms(2))
      then show ?thesis using i1 by auto
    qed
  next
    case False
    then obtain removed retained where cr: "cr = Inr (removed, retained)" by (auto simp: is_ok_iff)
    let ?st = "\<lparr>cl_fs = os_fs s, cl_quota = os_quota s, cl_removed = 0, cl_retained = []\<rparr>"
    have refs: "q_references (os_quota s) = []" "\<forall>x. \<not> q_has (os_quota s) x"
      using assms(4) by (simp_all add: q_references_def q_has_def new_quota_def)
    from c cr obtain st where l: "cleanup_loop parse io now [] (os_fs s) ?st = (Inr (), st)"
      and st: "cl_retained st = retained" "cl_fs st = fs1" "q1 = cl_quota st"
      by (auto simp: cleanupEntries_def Let_def refs release_unseen_def split: if_splits prod.splits sum.splits)
    have nohas: "\<forall>x. \<not> q_has (cl_quota ?st) x" using refs(2) by simp
    from cleanup_loop_retained [OF l assms(3) nohas, unfolded st cleanup_state.simps append_Nil]
    obtain q1: "q1 = os_quota s"
      and ret: "distinct (map re_reference retained)"
        "\<forall>e \<in> set retained. 0 \<le> re_bytes e \<and> re_bytes e = payload fs1 (re_reference e)"
        "\<forall>x \<in> fst ` set (os_fs s). x \<notin> re_reference ` set retained \<longrightarrow> map_of fs1 x = None"
      using st(3) by metis
    have gone: "map_of fs1 x = None" if "x \<notin> re_reference ` set retained" for x
    proof (cases "x \<in> fst ` set (os_fs s)")
      case True
      from ret(3) [rule_format, OF this that] show ?thesis .
    next
      case False
      then have "map_of (os_fs s) x = None" by (simp add: map_of_eq_None_iff)
      with t show ?thesis by (simp add: tidy_def)
    qed
    obtain ar fs2 q2 where a: "adoptRetainedEntries io retained fs1 (os_quota s) = (ar, fs2, q2)" by (metis prod_cases3)
    note spec = adopt_spec [OF a assms(4-6) ret(1)]
    have s': "s' = s\<lparr>os_fs := fs2, os_quota := q2\<rparr>" and res: "is_ok res = is_ok ar"
      using assms(1,2) False c cr q1 a by (auto simp: os_initialize_def split: sum.splits)
    show ?thesis
    proof (cases ar)
      case (Inl e)
      have "distinct (map fst fs2)"
      proof -
        have "distinct (map fst fs')" if "evict_loop io mb me es tot n fs = (r, fs')" "distinct (map fst fs)" for es mb me tot n fs r fs'
          using that
        proof (induction es arbitrary: tot n fs r)
          case (Cons x es)
          obtain ok fs3 where rm: "fs_rm (io_rm io (re_reference x)) (re_reference x) fs = (ok, fs3)" by force
          have "distinct (map fst fs3)" using distinct_rm [OF Cons.prems(2), of "io_rm io (re_reference x)" "re_reference x"] rm by simp
          with Cons rm show ?case by (cases ok) (auto split: if_splits prod.splits sum.splits)
        qed simp
        from this a i1(2) Inl show ?thesis by (auto simp: adoptRetainedEntries_def Let_def split: prod.splits sum.splits)
      qed
      with spec ret(2) Inl qi assms(4) s' res show ?thesis by auto
    next
      case (Inr u)
      with spec ret(2) obtain k where k:
        "\<forall>x. map_of fs2 x = (if x \<in> re_reference ` set (take k (adoption_order retained)) then None else map_of fs1 x)"
        "\<forall>e \<in> set (drop k (adoption_order retained)). q_held q2 (re_reference e) = re_bytes e"
        "\<forall>x. x \<notin> re_reference ` set (drop k (adoption_order retained)) \<longrightarrow> q_held q2 x = 0"
        "quota_inv q2" "distinct (map fst fs2)" using i1(2) by (auto simp: Let_def)
      have "payload fs2 x \<le> q_held q2 x" for x
      proof (cases "x \<in> re_reference ` set (drop k (adoption_order retained))")
        case True
        then obtain e where e: "e \<in> set (drop k (adoption_order retained))" "x = re_reference e" by blast
        have "set (drop k (adoption_order retained)) \<subseteq> set retained"
          using set_drop_subset [of k "adoption_order retained"] by (simp add: adoption_order_def)
        with e ret(2) have p: "payload fs1 x = re_bytes e" "0 \<le> re_bytes e" by force+
        have "payload fs2 x \<le> payload fs1 x"
          using k(1) payload_None [of fs2 x] payload_cong [of fs2 x fs1] by (cases "x \<in> re_reference ` set (take k (adoption_order retained))") auto
        with p e k(2) show ?thesis by simp
      next
        case False
        have "map_of fs2 x = None"
        proof (cases "x \<in> re_reference ` set (take k (adoption_order retained))")
          case t: True
          with k(1) show ?thesis by simp
        next
          case f: False
          have "set retained = set (take k (adoption_order retained)) \<union> set (drop k (adoption_order retained))"
            by (metis adoption_order_def append_take_drop_id set_append set_sort)
          with f False have "x \<notin> re_reference ` set retained" by auto
          with gone k(1) f show ?thesis by simp
        qed
        with False k(3) show ?thesis by (simp add: payload_None)
      qed
      then show ?thesis using k(4,5) s' by (auto simp: accounted_def)
    qed
  qed
qed

section \<open>The invariant of the store\<close>

definition tracked_ok :: "output_store \<Rightarrow> string \<Rightarrow> tracked_sink \<Rightarrow> bool" where
  "tracked_ok s r t \<longleftrightarrow> sk_reference (tk_sink t) = r \<and> sink_inv (tk_sink t) (os_fs s) \<and> sink_protocol (tk_sink t)
     \<and> (live (tk_sink t) \<longrightarrow> \<not> tk_released t \<and> r \<in> set (os_activeReferences s))"

definition os_inv :: "output_store \<Rightarrow> bool" where
  "os_inv s \<longleftrightarrow>
     quota_inv (os_quota s) \<and> distinct (map fst (os_fs s)) \<and> list_all opaque_reference (os_activeReferences s)
     \<and> 0 \<le> os_inlineBytesPerStream s \<and> os_inlineBytesPerStream s \<le> MAX_INLINE_PREVIEW_BYTES
     \<and> 0 \<le> os_maxStoredBytes s \<and> 1 \<le> os_maxReadBytes s \<and> is_safe_integer (os_maxReadBytes s)
     \<and> (\<forall>r t. map_of (os_sinks s) r = Some t \<longrightarrow> tracked_ok s r t)
     \<and> (case os_initialization s of
          Some (Inr _) \<Rightarrow> accounted (os_fs s) (os_quota s)
        | Some (Inl _) \<Rightarrow> os_sinks s = []
        | None \<Rightarrow> os_sinks s = [] \<and> os_activeReferences s = []
            \<and> (\<exists>maxBytes maxEntries. os_quota s = new_quota maxBytes maxEntries \<and> 0 \<le> maxBytes \<and> 0 \<le> maxEntries))"

definition opened :: "output_store \<Rightarrow> bool" where
  "opened s \<longleftrightarrow> os_initialization s = Some (Inr ())"

lemma opened_accounted: "os_inv s \<Longrightarrow> opened s \<Longrightarrow> accounted (os_fs s) (os_quota s)"
  by (simp add: os_inv_def opened_def)

lemma ensure_inv:
  assumes "ensureInitialized parse io now s = (res, s')" "os_inv s"
  shows "os_inv s' \<and> (is_ok res \<longrightarrow> opened s') \<and> os_sinks s' = os_sinks s
    \<and> os_activeReferences s' = os_activeReferences s \<and> os_maxReadBytes s' = os_maxReadBytes s"
proof (cases "os_initialization s")
  case None
  with assms(2) obtain mb me where q: "os_quota s = new_quota mb me" "0 \<le> mb" "0 \<le> me" and e: "os_sinks s = []" "os_activeReferences s = []"
    by (auto simp: os_inv_def)
  obtain r s1 where i: "os_initialize parse io now s = (r, s1)" by force
  have d: "distinct (map fst (os_fs s))" using assms(2) by (simp add: os_inv_def)
  note a = initialize_accounted [OF i e(2) d q]
  then obtain fs q' where s1: "s1 = s\<lparr>os_fs := fs, os_quota := q'\<rparr>" by blast
  have "(res, s') = (r, s1\<lparr>os_initialization := Some r\<rparr>)" using assms(1) None i by (auto simp: ensureInitialized_def)
  with a s1 e assms(2) show ?thesis by (cases r) (auto simp: os_inv_def opened_def)
next
  case (Some r)
  with assms show ?thesis by (cases r) (auto simp: ensureInitialized_def opened_def)
qed

text \<open>A change of disk and quota that spares the directories of live sinks keeps the invariant.\<close>

lemma tidy_inv:
  assumes "os_inv s" "opened s" "tidy L (os_fs s, os_quota s) (fs, q)"
    and "\<And>r t. map_of (os_sinks s) r = Some t \<Longrightarrow> live (tk_sink t) \<Longrightarrow> r \<in> set L"
  shows "os_inv (s\<lparr>os_fs := fs, os_quota := q\<rparr>)"
proof -
  have "tracked_ok (s\<lparr>os_fs := fs, os_quota := q\<rparr>) r t" if "map_of (os_sinks s) r = Some t" for r t
  proof -
    have t: "tracked_ok s r t" using assms(1) that by (simp add: os_inv_def)
    have "live (tk_sink t) \<Longrightarrow> map_of fs r = map_of (os_fs s) r"
      using assms(3,4) that by (auto simp: tidy_def)
    with t show ?thesis by (auto simp: tracked_ok_def sink_inv_def)
  qed
  with assms(1-3) show ?thesis by (auto simp: os_inv_def opened_def tidy_def)
qed

lemma active_live:
  assumes "os_inv s" "map_of (os_sinks s) r = Some t" "live (tk_sink t)"
  shows "r \<in> set (os_activeReferences s)"
  using assms by (auto simp: os_inv_def tracked_ok_def)

lemma cleanup_inv:
  assumes "cleanupExpired parse io now s = (res, s')" "os_inv s"
  shows "os_inv s'"
proof -
  obtain r s1 where e: "ensureInitialized parse io now s = (r, s1)" by force
  note i = ensure_inv [OF e assms(2)]
  show ?thesis
  proof (cases r)
    case (Inl x)
    with assms(1) e i show ?thesis by (simp add: cleanupExpired_def)
  next
    case (Inr u)
    obtain cr fs q where c: "cleanupEntries parse io now (os_activeReferences s1) (os_fs s1) (os_quota s1) = (cr, fs, q)"
      by (metis prod_cases3)
    have o: "os_inv s1" "opened s1" using i Inr by auto
    then have "list_all opaque_reference (os_activeReferences s1)" by (simp add: os_inv_def)
    from tidy_inv [OF o cleanup_tidy [OF c this] active_live [OF o(1)]]
    have "os_inv (s1\<lparr>os_fs := fs, os_quota := q\<rparr>)" .
    moreover have "s' = s1\<lparr>os_fs := fs, os_quota := q\<rparr>"
      using assms(1) e Inr c by (cases cr) (auto simp: cleanupExpired_def)
    ultimately show ?thesis by simp
  qed
qed

lemma throwReadNotFound_inv:
  assumes "throwReadNotFound io reference s = (e, s')" "os_inv s" "opened s"
  shows "os_inv s'"
proof (cases "map_of (os_fs s) reference = None")
  case True
  have "os_inv (s\<lparr>os_fs := os_fs s, os_quota := q_release (os_quota s) reference\<rparr>)"
    by (rule tidy_inv [OF assms(2,3) tidy_release_absent [OF True] active_live [OF assms(2)]])
  then have "os_inv (s\<lparr>os_quota := q_release (os_quota s) reference\<rparr>)" by simp
  with assms(1,2) True show ?thesis by (auto simp: throwReadNotFound_def split: if_splits)
qed (use assms in \<open>auto simp: throwReadNotFound_def split: if_splits\<close>)

text \<open>The directory of a live sink has no metadata yet, so \<open>read\<close> never finds it expired.\<close>

lemma live_no_metadata:
  assumes "os_inv s" "map_of (os_sinks s) r = Some t" "live (tk_sink t)"
  shows "readMetadataFile parse io (os_fs s) r \<noteq> Inr (Some m)"
proof -
  have "tracked_ok s r t" using assms(1,2) by (simp add: os_inv_def)
  with assms(3) obtain d where d: "map_of (os_fs s) r = Some (DirEntry d)" "dir_ok (tk_sink t) d"
    unfolding tracked_ok_def sink_inv_def by blast
  have "map_of d METADATA_FILE = None"
  proof (rule ccontr)
    assume "map_of d METADATA_FILE \<noteq> None"
    then obtain v where "(METADATA_FILE, v) \<in> set d" by (auto dest: map_of_SomeD)
    with d(2) have "\<exists>stream. METADATA_FILE = stream_file stream" by (auto simp: dir_ok_def)
    then show False by auto
  qed
  with d(1) show ?thesis by (simp add: readMetadataFile_def)
qed

lemma expire_inv:
  assumes "expire_entry io reference s = (e, s')" "os_inv s" "opened s"
    and "readMetadataFile parse io' (os_fs s) reference = Inr (Some m)"
  shows "os_inv s'"
proof -
  let ?L = "filter (\<lambda>r. r \<noteq> reference) (os_activeReferences s)"
  have L: "r \<in> set ?L" if "map_of (os_sinks s) r = Some t" "live (tk_sink t)" for r t
    using active_live [OF assms(2) that] live_no_metadata [OF assms(2) that, of parse io' m] assms(4) by auto
  obtain ok fs where rm: "fs_rm (io_rm io reference) reference (os_fs s) = (ok, fs)" by force
  have n: "reference \<notin> set ?L" by simp
  show ?thesis
  proof (cases ok)
    case True
    with rm have rm1: "fs_rm (io_rm io reference) reference (os_fs s) = (True, fs)" by simp
    have "os_inv (s\<lparr>os_fs := fs, os_quota := q_release (os_quota s) reference\<rparr>)"
      by (rule tidy_inv [OF assms(2,3) tidy_rm_release [OF n rm1] L])
    with assms(1) rm True show ?thesis by (simp add: expire_entry_def)
  next
    case False
    have "tidy ?L (os_fs s, os_quota s) (fs, os_quota s)"
      using tidy_rm [OF n, of "os_fs s" "os_quota s" "io_rm io reference"] rm by simp
    from tidy_inv [OF assms(2,3) this L] have "os_inv (s\<lparr>os_fs := fs\<rparr>)" by simp
    with assms(1) rm False show ?thesis by (auto simp: expire_entry_def)
  qed
qed

lemma read_payload_inv:
  assumes "read_payload io reference stream offset requested tot s = (res, s')" "os_inv s" "opened s"
  shows "os_inv s'"
  using assms(1) throwReadNotFound_inv [OF _ assms(2,3), of io reference] assms(2)
  by (auto simp: read_payload_def Let_def split: if_splits option.splits fs_node.splits prod.splits)

lemma readMetadata_Inr: "readMetadata parse io fs name = Inr m \<Longrightarrow> readMetadataFile parse io fs name = Inr (Some m)"
  by (auto simp: readMetadata_def split: sum.splits io_error.splits option.splits)

lemma read_inv:
  assumes "os_read parse io now reference stream offset limit s = (res, s')" "os_inv s"
  shows "os_inv s'"
proof -
  obtain r s1 where e: "ensureInitialized parse io now s = (r, s1)" by force
  note i = ensure_inv [OF e assms(2)]
  show ?thesis
  proof (cases r)
    case (Inl x)
    with assms(1) e i show ?thesis by (simp add: os_read_def)
  next
    case (Inr u)
    have o: "os_inv s1" "opened s1" using i Inr by auto
    let ?g = "and_then (assertSafeInteger offset ''offset'' 0) (\<lambda>_.
                  and_then (assertSafeInteger limit ''limit'' 1) (\<lambda>_.
                  guard_else (\<not> limit > os_maxReadBytes s1) (RangeError ''limit exceeds maxReadBytes'')))"
    show ?thesis
    proof (cases "opaque_reference reference \<and> is_ok ?g")
      case False
      with assms(1) e Inr o show ?thesis by (auto simp: os_read_def is_ok_iff split: if_splits sum.splits)
    next
      case True
      then have g: "opaque_reference reference" "?g = Inr ()" by (auto simp: is_ok_iff)
      show ?thesis
      proof (cases "readMetadata parse io (os_fs s1) reference")
        case (Inl e1)
        with assms(1) e Inr g o throwReadNotFound_inv [OF _ o, of io reference] show ?thesis
          by (auto simp: os_read_def split: if_splits prod.splits)
      next
        case m: (Inr m)
        with assms(1) e Inr g o expire_inv [OF _ o readMetadata_Inr [OF m], of io]
          read_payload_inv [OF _ o, of io reference stream offset] show ?thesis
          by (auto simp: os_read_def Let_def split: if_splits prod.splits)
      qed
    qed
  qed
qed

subsection \<open>Steps of the sinks\<close>

text \<open>A sink touches no entry of the output directory but its own.\<close>

definition own_entry :: "string \<Rightarrow> disk \<Rightarrow> disk \<Rightarrow> bool" where
  "own_entry r fs fs' \<longleftrightarrow> (\<forall>x. x \<noteq> r \<longrightarrow> map_of fs' x = map_of fs x)
     \<and> (distinct (map fst fs) \<longrightarrow> distinct (map fst fs'))"

lemma own_refl [simp]: "own_entry r fs fs"
  by (simp add: own_entry_def)

lemma own_trans: "own_entry r a b \<Longrightarrow> own_entry r b c \<Longrightarrow> own_entry r a c"
  by (auto simp: own_entry_def)

lemma own_put: "own_entry r fs (fs_put r f b fs)"
  by (auto simp: own_entry_def fs_put_def update_conv' split: option.splits fs_entry.splits intro: distinct_keys_update)

lemma own_rm: "own_entry r fs (snd (fs_rm outcome r fs))"
  by (auto simp: own_entry_def distinct_rm intro: map_of_rm_other)

lemma own_store_chunk:
  assumes "store_chunk io stream chunk sk fs = (ok, sk', fs')"
  shows "own_entry (sk_reference sk) fs fs'"
proof -
  obtain opened sk1 fs1 where o: "open_stream io stream sk fs = (opened, sk1, fs1)" by (metis prod_cases3)
  obtain written sk2 fs2 where w: "write_stream io stream chunk sk1 fs1 = (written, sk2, fs2)" by (metis prod_cases3)
  have 1: "own_entry (sk_reference sk) fs fs1" "sk_reference sk1 = sk_reference sk"
    using o by (auto simp: open_stream_def Let_def own_put split: if_splits)
  have 2: "own_entry (sk_reference sk) fs1 fs2"
    using w 1(2) own_put [of "sk_reference sk"] by (auto simp: write_stream_def Let_def split: if_splits prod.splits)
  from assms o w 1 2 show ?thesis by (auto simp: store_chunk_def intro: own_trans split: if_splits)
qed

lemma own_append:
  assumes "appendNow io stream chunk (sk, fs, q) = (res, sk', fs', q')"
  shows "own_entry (sk_reference sk) fs fs'"
  using assms
proof (cases rule: appendNow_cases)
  case (reserved b)
  from reserved(4) show ?thesis
    by (cases rule: append_granted_cases) (auto dest: own_store_chunk split: if_splits)
qed auto

lemma own_finalize:
  assumes "finalize_job io now (sk, fs, q) = (sk', fs', q')"
  shows "own_entry (sk_reference sk) fs fs'"
proof -
  obtain res sk1 fs1 q1 where n: "finalizeNow io now (sk, fs, q) = (res, sk1, fs1, q1)" by (metis prod_cases4)
  from n show ?thesis
  proof (cases rule: finalizeNow_cases)
    case (failed e)
    then have "own_entry (sk_reference sk) fs fs1" by (auto intro: own_rm own_put own_trans)
    moreover have "fs' = snd (fs_rm (fi_rmAfterError io) (sk_reference sk) fs1)"
      using assms n failed by (auto simp: finalize_job_def Let_def split: prod.splits)
    ultimately show ?thesis by (auto intro: own_rm own_trans)
  next
    case inline
    then have "fs' = snd (fs_rm (fi_rm io) (sk_reference sk) fs)" using assms n by (auto simp: finalize_job_def)
    then show ?thesis by (simp add: own_rm)
  next
    case published
    with assms n show ?thesis by (auto simp: finalize_job_def own_put)
  qed
qed

lemma own_abort:
  assumes "abort_job io (sk, fs, q) = (sk', fs', q')"
  shows "own_entry (sk_reference sk) fs fs'"
proof -
  have "fs' = snd (fs_rm (fi_rm io) (sk_reference sk) fs)"
    using assms by (auto simp: abort_job_def Let_def split: prod.splits)
  then show ?thesis by (simp add: own_rm)
qed

lemma own_run:
  assumes "sink_run aio fio now (sk, fs, q) = (sk', fs', q')"
  shows "own_entry (sk_reference sk) fs fs'"
proof (cases "sk_tail sk")
  case Nil
  with assms show ?thesis by (simp add: sink_run_def)
next
  case (Cons job jobs)
  let ?sk = "sk\<lparr>sk_tail := jobs\<rparr>"
  show ?thesis
  proof (cases job)
    case (AppendJob stream chunk)
    obtain res where "appendNow aio stream chunk (?sk, fs, q) = (res, sk', fs', q')"
      using assms Cons AppendJob by (cases "appendNow aio stream chunk (?sk, fs, q)") (simp add: sink_run_def)
    from own_append [OF this] show ?thesis by simp
  next
    case FinalizeJob
    with assms Cons have "finalize_job fio now (?sk, fs, q) = (sk', fs', q')" by (simp add: sink_run_def)
    from own_finalize [OF this] show ?thesis by simp
  next
    case AbortJob
    with assms Cons have "abort_job fio (?sk, fs, q) = (sk', fs', q')" by (simp add: sink_run_def)
    from own_abort [OF this] show ?thesis by simp
  qed
qed

lemma run_live: "sink_run aio fio now (sk, fs, q) = (sk', fs', q') \<Longrightarrow> live sk' \<Longrightarrow>
    quota_inv q \<Longrightarrow> accounted fs q \<Longrightarrow> totals_ok sk \<Longrightarrow> live sk"
proof (cases "sk_tail sk")
  case (Cons job jobs)
  assume r: "sink_run aio fio now (sk, fs, q) = (sk', fs', q')" and l: "live sk'"
    and q: "quota_inv q" "accounted fs q" and t: "totals_ok sk"
  let ?sk = "sk\<lparr>sk_tail := jobs\<rparr>"
  show ?thesis
  proof (cases job)
    case (AppendJob stream chunk)
    obtain res where a: "appendNow aio stream chunk (?sk, fs, q) = (res, sk', fs', q')"
      using r Cons AppendJob by (cases "appendNow aio stream chunk (?sk, fs, q)") (simp add: sink_run_def)
    have "totals_ok ?sk" using t by (simp add: totals_ok_alt bytes_stored_alt)
    from append_live_before [OF a l q this] show ?thesis by (simp add: live_def settled_def)
  next
    case FinalizeJob
    with r Cons have "finalize_job fio now (?sk, fs, q) = (sk', fs', q')" by (simp add: sink_run_def)
    with finalize_settles l show ?thesis by (auto simp: live_def)
  next
    case AbortJob
    with r Cons have "abort_job fio (?sk, fs, q) = (sk', fs', q')" by (simp add: sink_run_def)
    with abort_settles l show ?thesis by (auto simp: live_def)
  qed
qed (simp add: sink_run_def)

text \<open>The calls that only touch flags, promises and the chain.\<close>

definition sink_call :: "sink \<Rightarrow> sink \<Rightarrow> bool" where
  "sink_call a b \<longleftrightarrow> sk_reference b = sk_reference a \<and> sk_inlineBytesPerStream b = sk_inlineBytesPerStream a
     \<and> sk_maxStoredBytes b = sk_maxStoredBytes a \<and> (\<forall>x. sk_stream x b = sk_stream x a) \<and> (live b \<longrightarrow> live a)"

lemma call_append: "sink_call sk (snd (sink_append stream chunk sk))"
  by (simp add: sink_call_def sink_append_def live_def settled_def)

lemma call_cancel: "sink_call sk (sink_cancel sk)"
  by (auto simp: sink_call_def live_def settled_def sink_cancel_def sk_stream_def split: out_stream.splits)

lemma call_finalize: "sink_call sk (snd (sink_finalize sk))"
  by (auto simp: sink_call_def live_def settled_def sink_finalize_def)

lemma call_abort: "sink_call sk (sink_abort sk)"
  by (auto simp: sink_call_def live_def settled_def sink_abort_def Let_def sink_cancel_def sk_stream_def split: out_stream.splits)

lemma sink_inv_call: "sink_call a b \<Longrightarrow> sink_inv a fs \<Longrightarrow> sink_inv b fs"
proof -
  assume c: "sink_call a b" and i: "sink_inv a fs"
  have "dir_ok b d = dir_ok a d" for d by (rule dir_ok_cong) (use c in \<open>simp_all add: sink_call_def\<close>)
  with c i show ?thesis by (auto simp: sink_inv_def sink_call_def totals_ok_alt bytes_stored_alt)
qed

lemma sinks_opened: "os_inv s \<Longrightarrow> map_of (os_sinks s) r = Some t \<Longrightarrow> opened s"
  by (auto simp: os_inv_def opened_def split: option.splits sum.splits)

lemma put_inv:
  assumes "os_inv s" "map_of (os_sinks s) r = Some t"
    and "sk_reference sk = r" "sink_inv sk (os_fs s)" "sink_protocol sk" "live sk \<Longrightarrow> live (tk_sink t)"
  shows "os_inv (put_sink r sk s)"
proof -
  have "tracked_ok s x u" if "map_of (os_sinks s) x = Some u" for x u
    using assms(1) that by (simp add: os_inv_def)
  moreover have "opened s" by (rule sinks_opened [OF assms(1,2)])
  ultimately show ?thesis
    using assms by (auto simp: put_sink_def os_inv_def tracked_ok_def update_conv' opened_def)
qed

lemma releaseOnce_inv:
  assumes "os_inv s" "map_of (os_sinks s) r = Some t" "\<not> live (tk_sink t)"
  shows "os_inv (releaseOnce r s)"
proof -
  have "tracked_ok s x u" if "map_of (os_sinks s) x = Some u" for x u
    using assms(1) that by (simp add: os_inv_def)
  moreover have "opened s" by (rule sinks_opened [OF assms(1,2)])
  ultimately show ?thesis
    using assms by (auto simp: releaseOnce_def os_inv_def tracked_ok_def update_conv' opened_def list_all_iff)
qed

lemma put_lookup: "map_of (os_sinks s) r = Some t \<Longrightarrow> map_of (os_sinks (put_sink r sk s)) r = Some (t\<lparr>tk_sink := sk\<rparr>)"
  by (simp add: put_sink_def update_conv')

lemma put_call_inv:
  assumes "os_inv s" "map_of (os_sinks s) r = Some t" "sink_call (tk_sink t) sk" "sink_protocol sk"
  shows "os_inv (put_sink r sk s)"
proof -
  have t: "tracked_ok s r t" using assms(1,2) by (simp add: os_inv_def)
  then have "sink_inv sk (os_fs s)" using sink_inv_call [OF assms(3)] by (simp add: tracked_ok_def)
  with t assms(3,4) show ?thesis
    by (intro put_inv [OF assms(1,2)]) (auto simp: tracked_ok_def sink_call_def)
qed


lemma tracked_append_inv: "os_inv s \<Longrightarrow> os_inv (tracked_append r stream chunk s)"
  by (auto simp: tracked_append_def os_inv_def [of s] tracked_ok_def split: option.splits
      intro!: put_call_inv call_append protocol_append)

lemma tracked_cancel_inv: "os_inv s \<Longrightarrow> os_inv (tracked_cancel r s)"
  by (auto simp: tracked_cancel_def os_inv_def [of s] tracked_ok_def split: option.splits
      intro!: put_call_inv call_cancel protocol_cancel)

lemma tracked_finalize_inv:
  assumes "os_inv s"
  shows "os_inv (tracked_finalize r s)"
proof (cases "map_of (os_sinks s) r")
  case None
  with assms show ?thesis by (simp add: tracked_finalize_def)
next
  case (Some t)
  obtain res sk where f: "sink_finalize (tk_sink t) = (res, sk)" by force
  have p: "sink_protocol (tk_sink t)" using assms Some by (auto simp: os_inv_def tracked_ok_def)
  have sk: "sk = snd (sink_finalize (tk_sink t))" using f by simp
  have i: "os_inv (put_sink r sk s)"
    unfolding sk by (rule put_call_inv [OF assms Some call_finalize protocol_finalize [OF p]])
  have "\<not> live sk" if "\<not> is_ok res \<or> settled sk"
    using that f p by (auto simp: sink_finalize_def live_def sink_protocol_def split: if_splits)
  with releaseOnce_inv [OF i put_lookup [OF Some]] i Some f show ?thesis
    by (auto simp: tracked_finalize_def Let_def)
qed

lemma tracked_abort_inv:
  assumes "os_inv s"
  shows "os_inv (tracked_abort r s)"
proof (cases "map_of (os_sinks s) r")
  case None
  with assms show ?thesis by (simp add: tracked_abort_def)
next
  case (Some t)
  let ?sk = "sink_abort (tk_sink t)"
  have p: "sink_protocol (tk_sink t)" using assms Some by (auto simp: os_inv_def tracked_ok_def)
  have i: "os_inv (put_sink r ?sk s)"
    by (rule put_call_inv [OF assms Some call_abort protocol_abort [OF p]])
  have "\<not> live ?sk" if "settled ?sk" using that by (simp add: live_def)
  with releaseOnce_inv [OF i put_lookup [OF Some]] i Some show ?thesis by (auto simp: tracked_abort_def Let_def)
qed

lemma tracked_run_inv:
  assumes "os_inv s"
  shows "os_inv (tracked_run aio fio now r s)"
proof (cases "map_of (os_sinks s) r")
  case None
  with assms show ?thesis by (simp add: tracked_run_def)
next
  case (Some t)
  obtain sk fs q where run: "sink_run aio fio now (tk_sink t, os_fs s, os_quota s) = (sk, fs, q)" by (metis prod_cases3)
  have o: "opened s" by (rule sinks_opened [OF assms Some])
  have tr: "tracked_ok s x u" if "map_of (os_sinks s) x = Some u" for x u
    using assms that by (simp add: os_inv_def)
  have qi: "quota_inv (os_quota s)" "accounted (os_fs s) (os_quota s)"
    using assms opened_accounted [OF assms o] by (simp_all add: os_inv_def)
  have t: "sk_reference (tk_sink t) = r" "sink_inv (tk_sink t) (os_fs s)" "sink_protocol (tk_sink t)" "totals_ok (tk_sink t)"
    using tr [OF Some] by (auto simp: tracked_ok_def sink_inv_def)
  note acc = sink_run_accounted [OF run qi t(4)]
  have si: "sink_inv sk fs" by (rule sink_run_inv [OF run qi t(2)])
  note own = own_run [OF run, unfolded t(1)]
  note pr = run_protocol [OF t(3) run]
  have l: "live sk \<Longrightarrow> live (tk_sink t)" by (rule run_live [OF run _ qi t(4)])
  let ?s = "put_sink r sk (s\<lparr>os_fs := fs, os_quota := q\<rparr>)"
  have "tracked_ok (s\<lparr>os_fs := fs, os_quota := q\<rparr>) x u" if "map_of (os_sinks s) x = Some u" "x \<noteq> r" for x u
    using tr [OF that(1)] own that(2) by (auto simp: tracked_ok_def sink_inv_def own_entry_def)
  moreover have "tracked_ok (s\<lparr>os_fs := fs, os_quota := q\<rparr>) r (t\<lparr>tk_sink := sk\<rparr>)"
    using tr [OF Some] acc si pr l t(1) by (auto simp: tracked_ok_def)
  ultimately have i: "os_inv ?s"
    using assms acc own o Some
    by (auto simp: os_inv_def put_sink_def update_conv' opened_def own_entry_def tracked_ok_def)
  have look: "map_of (os_sinks ?s) r = Some (t\<lparr>tk_sink := sk\<rparr>)"
    using put_lookup [of "s\<lparr>os_fs := fs, os_quota := q\<rparr>" r t sk] Some by simp
  have "\<not> live sk" if "settled sk" using that by (simp add: live_def)
  with releaseOnce_inv [OF i look] i Some run show ?thesis by (auto simp: tracked_run_def Let_def)
qed

lemma reserve_loop_spec:
  assumes "reserve_loop n io random i s = (res, s')"
  shows "case res of
      Inl e \<Rightarrow> s' = s
    | Inr r \<Rightarrow> (\<exists>j. r = base64url (random j)) \<and> opaque_reference r \<and> map_of (os_fs s) r = None
        \<and> r \<notin> set (os_activeReferences s) \<and> \<not> q_has (os_quota s) r
        \<and> s' = s\<lparr>os_activeReferences := os_activeReferences s @ [r], os_fs := AList.update r (DirEntry []) (os_fs s)\<rparr>"
  using assms
proof (induction n arbitrary: i)
  case (Suc n)
  show ?case
  proof (cases "length (random i) \<noteq> OUTPUT_REFERENCE_BYTES")
    case True
    with Suc.prems show ?thesis by auto
  next
    case False
    let ?r = "base64url (random i)"
    have o: "opaque_reference ?r" using False by (intro opaque_base64url) (simp add: OUTPUT_REFERENCE_BYTES_def)
    show ?thesis
    proof (cases "?r \<in> set (os_activeReferences s) \<or> q_has (os_quota s) ?r \<or> map_of (os_fs s) ?r \<noteq> None")
      case True
      with Suc.prems False have "reserve_loop n io random (Suc i) s = (res, s')" by (auto simp: Let_def split: if_splits)
      from Suc.IH [OF this] show ?thesis .
    next
      case free: False
      with Suc.prems False o show ?thesis by (cases "io_mkdirFails io ?r") (auto simp: Let_def)
    qed
  qed
qed auto

lemma create_inv:
  assumes "os_create parse io now random requestId s = (res, s')" "os_inv s"
    and "\<forall>i. base64url (random i) \<notin> fst ` set (os_sinks s)"
  shows "os_inv s'"
proof (cases "valid_request_id requestId")
  case False
  with assms(1,2) show ?thesis by (simp add: os_create_def)
next
  case True
  obtain r1 s1 where e: "ensureInitialized parse io now s = (r1, s1)" by force
  note i = ensure_inv [OF e assms(2)]
  show ?thesis
  proof (cases r1)
    case (Inl x)
    with assms(1) e i True show ?thesis by (simp add: os_create_def)
  next
    case (Inr u)
    obtain r2 s2 where rr: "reserveReference io random s1 = (r2, s2)" by force
    note spec = reserve_loop_spec [OF rr [unfolded reserveReference_def]]
    have o: "os_inv s1" "opened s1" using i Inr by auto
    show ?thesis
    proof (cases r2)
      case l: (Inl x)
      with assms(1) e Inr rr True have "s' = s2" by (auto simp: os_create_def)
      with l spec o show ?thesis by simp
    next
      case r: (Inr r)
      with spec obtain j where j: "r = base64url (random j)" and f: "opaque_reference r" "map_of (os_fs s1) r = None"
        and s2: "s2 = s1\<lparr>os_activeReferences := os_activeReferences s1 @ [r], os_fs := AList.update r (DirEntry []) (os_fs s1)\<rparr>"
        by auto
      let ?t = "\<lparr>tk_sink = new_sink r (os_inlineBytesPerStream s2) (os_maxStoredBytes s2) (os_ttlMs s2), tk_released = False\<rparr>"
      have s': "s' = s2\<lparr>os_sinks := AList.update r ?t (os_sinks s2)\<rparr>"
        using assms(1) e Inr rr r True by (auto simp: os_create_def)
      have nr: "map_of (os_sinks s1) r = None" using assms(3) i j by (auto simp: map_of_eq_None_iff)
      have old: "tracked_ok s' x t" if "map_of (os_sinks s1) x = Some t" for x t
      proof -
        have x: "x \<noteq> r" using nr that by auto
        have "tracked_ok s1 x t" using o(1) that by (simp add: os_inv_def)
        with x show ?thesis by (auto simp: tracked_ok_def sink_inv_def s' s2 update_conv')
      qed
      have z: "0 \<le> os_inlineBytesPerStream s1" "0 \<le> os_maxStoredBytes s1" using o(1) by (simp_all add: os_inv_def)
      have new: "tracked_ok s' r ?t"
        using new_sink_inv [OF z, of r "os_ttlMs s1" "os_fs s1"] protocol_new
        by (simp add: tracked_ok_def s' s2) (simp add: new_sink_def)
      have "payload (os_fs s') x \<le> q_held (os_quota s') x" for x
      proof (cases "x = r")
        case True
        then show ?thesis using held_nonneg [of "os_quota s1" r] o(1)
          by (simp add: s' s2 payload_def file_content_def os_inv_def)
      next
        case False
        have "payload (os_fs s') x = payload (os_fs s1) x" by (rule payload_cong) (use False in \<open>simp add: s' s2 update_conv'\<close>)
        with opened_accounted [OF o] show ?thesis by (simp add: accounted_def s' s2)
      qed
      then have "accounted (os_fs s') (os_quota s')" by (simp add: accounted_def)
      with old new o f show ?thesis
        by (auto simp: os_inv_def s' s2 update_conv' opened_def list_all_iff distinct_keys_update)
    qed
  qed
qed

lemma new_store_inv:
  assumes "new_output_store isRoot directory inlineBytes maxStored maxTotal maxEntries ttl maxRead fs = Inr s"
    and "distinct (map fst fs)"
  shows "os_inv s"
proof -
  from assms(1) have "0 \<le> inlineBytes" "1 \<le> maxStored" "1 \<le> maxTotal" "1 \<le> maxEntries"
    "1 \<le> os_maxReadBytes s" "is_safe_integer (os_maxReadBytes s)"
    and s: "os_inlineBytesPerStream s = min inlineBytes MAX_INLINE_PREVIEW_BYTES" "os_maxStoredBytes s = maxStored"
      "os_quota s = new_quota maxTotal maxEntries" "os_activeReferences s = []" "os_initialization s = None"
      "os_fs s = fs" "os_sinks s = []"
    by (auto simp: new_output_store_def assertSafeInteger_def result_elims Let_def)
  moreover from this have "\<exists>mb me. os_quota s = new_quota mb me \<and> 0 \<le> mb \<and> 0 \<le> me"
    by (intro exI [of _ maxTotal] exI [of _ maxEntries]) simp
  ultimately show ?thesis using assms(2) quota_inv_new [of maxTotal maxEntries]
    by (simp add: os_inv_def MAX_INLINE_PREVIEW_BYTES_def)
qed

lemma step_inv: "os_step s s' \<Longrightarrow> os_inv s \<Longrightarrow> os_inv s'"
  by (induction rule: os_step.induct)
    (auto intro: create_inv tracked_append_inv tracked_cancel_inv tracked_finalize_inv tracked_abort_inv
      tracked_run_inv read_inv cleanup_inv)

lemma reachable_inv: "os_reachable s \<Longrightarrow> os_inv s"
  by (induction rule: os_reachable.induct) (auto intro: new_store_inv step_inv)

section \<open>Retained outputs as a paged source\<close>

text \<open>The calls to the disk succeed.\<close>

definition no_faults :: store_io where
  "no_faults = \<lparr>io_mkdirRootFails = False, io_readdirFails = False, io_rm = (\<lambda>_. None), io_lstatFails = (\<lambda>_ _. False),
     io_readFileFails = (\<lambda>_. None), io_listFails = (\<lambda>_. None), io_mkdirFails = (\<lambda>_. False), io_payloadFails = False\<rparr>"

definition metadata_stream :: "out_stream \<Rightarrow> output_metadata \<Rightarrow> int" where
  "metadata_stream stream m = (case stream of Stdout \<Rightarrow> om_stdoutBytes m | Stderr \<Rightarrow> om_stderrBytes m)"

text \<open>An entry that can be read: metadata that has not expired, and a file as long as it says.\<close>

definition readable ::
  "(string \<Rightarrow> json option) \<Rightarrow> int \<Rightarrow> output_store \<Rightarrow> string \<Rightarrow> out_stream \<Rightarrow> bool" where
  "readable parse now s reference stream \<longleftrightarrow>
     opened s \<and> opaque_reference reference \<and> 1 \<le> os_maxReadBytes s \<and> is_safe_integer (os_maxReadBytes s)
     \<and> (case readMetadataFile parse no_faults (os_fs s) reference of
          Inr (Some m) \<Rightarrow> now < om_expiresAtMs m
            \<and> isCanonicalPayloadFile no_faults reference (entry_files (os_fs s) reference)
                (stream_file stream) (metadata_stream stream m) = Inr True
            \<and> is_safe_integer (metadata_stream stream m)
        | _ \<Rightarrow> False)"

lemma canonical_length:
  assumes "isCanonicalPayloadFile no_faults r (entry_files fs r) f n = Inr True"
  shows "n = int (length (file_content fs r f))"
    and "0 < n \<Longrightarrow> map_of (entry_files fs r) f = Some (FileNode (file_content fs r f))"
  using assms
  by (auto simp: isCanonicalPayloadFile_def file_content_def no_faults_def split: option.splits fs_node.splits)

lemma read_page:
  assumes "readable parse now s r stream" "1 \<le> limit" "limit \<le> os_maxReadBytes s"
    and "offset \<le> length (file_content (os_fs s) r (stream_file stream))"
  shows "os_read parse no_faults now r stream (int offset) limit s =
     (let content = file_content (os_fs s) r (stream_file stream);
          page = take (nat limit) (drop offset content); next = offset + length page in
      (Inr \<lparr>oc_dataBase64 = base64 page, oc_nextOffset = (if next = length content then None else Some (int next)),
            oc_eof = (next = length content), oc_totalBytes = int (length content)\<rparr>, s))"
proof -
  let ?c = "file_content (os_fs s) r (stream_file stream)"
  from assms(1) obtain m where m: "readMetadataFile parse no_faults (os_fs s) r = Inr (Some m)" "now < om_expiresAtMs m"
    and c: "isCanonicalPayloadFile no_faults r (entry_files (os_fs s) r) (stream_file stream) (metadata_stream stream m) = Inr True"
    and safe: "is_safe_integer (metadata_stream stream m)" "is_safe_integer (os_maxReadBytes s)"
    and o: "opened s" "opaque_reference r"
    by (auto simp: readable_def split: sum.splits option.splits)
  have n: "metadata_stream stream m = int (length ?c)" by (rule canonical_length [OF c])
  have e: "ensureInitialized parse no_faults now s = (Inr (), s)" using o(1) by (simp add: ensureInitialized_def opened_def)
  have rm: "readMetadata parse no_faults (os_fs s) r = Inr m" using m(1) by (simp add: readMetadata_def)
  have off: "is_safe_integer (int offset)" using safe(1) n assms(4) by (simp add: is_safe_integer_def)
  have lim: "is_safe_integer limit" using safe(2) assms(2,3) by (simp add: is_safe_integer_def)
  have g: "and_then (assertSafeInteger (int offset) ''offset'' 0) (\<lambda>_.
                  and_then (assertSafeInteger limit ''limit'' 1) (\<lambda>_.
                  guard_else (\<not> limit > os_maxReadBytes s) (RangeError ''limit exceeds maxReadBytes''))) = Inr ()"
    using off lim assms(2,3) by (simp add: assertSafeInteger_def)
  have tot: "(case stream of Stdout \<Rightarrow> om_stdoutBytes m | Stderr \<Rightarrow> om_stderrBytes m) = int (length ?c)"
    using n by (simp add: metadata_stream_def)
  have r: "os_read parse no_faults now r stream (int offset) limit s =
      (if min limit (int (length ?c) - int offset) = 0
       then (Inr \<lparr>oc_dataBase64 = [], oc_nextOffset = None, oc_eof = True, oc_totalBytes = int (length ?c)\<rparr>, s)
       else read_payload no_faults r stream (int offset) (min limit (int (length ?c) - int offset)) (int (length ?c)) s)"
    unfolding os_read_def e using o(2) g rm m(2) assms(4) by (simp add: tot Let_def)
  show ?thesis
  proof (cases "offset = length ?c")
    case True
    with r assms(2) show ?thesis by (simp add: Let_def base64_def base64_pad_def)
  next
    case False
    with assms(4) n have "map_of (entry_files (os_fs s) r) (stream_file stream) = Some (FileNode ?c)"
      by (intro canonical_length(2) [OF c]) (cases ?c; simp)
    moreover have "take (nat (min limit (int (length ?c) - int offset))) (drop offset ?c) = take (nat limit) (drop offset ?c)"
      using assms(2,4) by (auto simp: min_def nat_diff_distrib)
    moreover have "int (length (take (nat limit) (drop offset ?c))) = min limit (int (length ?c) - int offset)"
      using assms(2,4) by (auto simp: min_def)
    ultimately show ?thesis using r False assms(2,4)
      by (auto simp: read_payload_def no_faults_def Let_def)
  qed
qed

definition retained_page ::
  "(string \<Rightarrow> json option) \<times> int \<times> output_store \<times> string \<times> out_stream \<Rightarrow> nat \<Rightarrow> nat \<Rightarrow> bytes" where
  "retained_page e limit offset =
     (case e of (parse, now, s, r, stream) \<Rightarrow>
      (case fst (os_read parse no_faults now r stream (int offset) (min (int limit) (os_maxReadBytes s)) s) of
         Inl _ \<Rightarrow> [] | Inr c \<Rightarrow> from_base64 (oc_dataBase64 c)))"

lemma retained_page_eq:
  assumes "readable parse now s r stream" "0 < limit" "offset \<le> length (file_content (os_fs s) r (stream_file stream))"
  shows "retained_page (parse, now, s, r, stream) limit offset =
     take (nat (min (int limit) (os_maxReadBytes s))) (drop offset (file_content (os_fs s) r (stream_file stream)))"
proof -
  have l: "1 \<le> min (int limit) (os_maxReadBytes s)" using assms(1,2) by (simp add: readable_def)
  show ?thesis using read_page [OF assms(1) l _ assms(3)] by (simp add: retained_page_def Let_def from_base64_base64)
qed

interpretation retained_output: paged_source
  "\<lambda>(parse, now, s, r, stream). readable parse now s r stream"
  "\<lambda>(parse, now, s, r, stream). file_content (os_fs s) r (stream_file stream)"
  "\<lambda>_. 0" retained_page
proof
  fix e :: "(string \<Rightarrow> json option) \<times> int \<times> output_store \<times> string \<times> out_stream" and limit offset :: nat
  obtain parse now s r stream where e: "e = (parse, now, s, r, stream)" by (cases e)
  assume "case e of (parse, now, s, r, stream) \<Rightarrow> readable parse now s r stream" and l: "0 < limit"
  then have r: "readable parse now s r stream" by (simp add: e)
  {
    assume "offset \<le> length (case e of (parse, now, s, r, stream) \<Rightarrow> file_content (os_fs s) r (stream_file stream))"
    then have "offset \<le> length (file_content (os_fs s) r (stream_file stream))" by (simp add: e)
    from retained_page_eq [OF r l this]
    show "retained_page e limit offset = take (length (retained_page e limit offset))
        (drop offset (case e of (parse, now, s, r, stream) \<Rightarrow> file_content (os_fs s) r (stream_file stream)))"
      by (simp add: e min_def)
  next
    assume "offset < length (case e of (parse, now, s, r, stream) \<Rightarrow> file_content (os_fs s) r (stream_file stream))"
    then have "offset < length (file_content (os_fs s) r (stream_file stream))" by (simp add: e)
    moreover have "1 \<le> os_maxReadBytes s" using r by (simp add: readable_def)
    ultimately show "retained_page e limit offset \<noteq> []"
      using retained_page_eq [OF r l, of offset] l by (simp add: e)
  }
qed


section \<open>Metadata round trip\<close>

lemma show_nat_length: "n < 10 ^ Suc k \<Longrightarrow> length (show_nat n) \<le> Suc k"
proof (induction k arbitrary: n)
  case 0
  then show ?case by (subst show_nat.simps) simp
next
  case (Suc k)
  have "n div 10 < 10 ^ Suc k" using Suc.prems by (simp add: less_mult_imp_div_less)
  with Suc.IH [of "n div 10"] show ?case by (subst show_nat.simps) simp
qed

lemma show_int_length:
  assumes "is_safe_integer i" "0 \<le> i"
  shows "length (show_int i) \<le> 16"
proof -
  have "nat i < 10 ^ Suc 15" using assms by (simp add: is_safe_integer_def max_safe_integer_def)
  from show_nat_length [OF this] assms(2) show ?thesis by (simp add: show_int_def)
qed

definition valid_metadata :: "output_metadata \<Rightarrow> bool" where
  "valid_metadata m \<longleftrightarrow> is_safe_integer (om_expiresAtMs m) \<and> 0 \<le> om_expiresAtMs m
     \<and> 0 \<le> om_stdoutBytes m \<and> 0 \<le> om_stderrBytes m \<and> is_safe_integer (metadataBytes m)"

text \<open>What \<open>JSON.parse\<close> makes of the metadata file.\<close>

definition metadata_json :: "output_metadata \<Rightarrow> json" where
  "metadata_json m = JObject [(''version'', JInt 1), (''expiresAtMs'', JInt (om_expiresAtMs m)),
     (''stdoutBytes'', JInt (om_stdoutBytes m)), (''stderrBytes'', JInt (om_stderrBytes m))]"

lemma valid_metadata_parts:
  "valid_metadata m \<Longrightarrow> is_safe_integer (om_stdoutBytes m) \<and> is_safe_integer (om_stderrBytes m)"
  by (auto simp: valid_metadata_def is_safe_integer_def metadataBytes_def)

lemma parse_metadata_json:
  assumes "valid_metadata m"
  shows "parseMetadata (metadata_json m) = Some m"
proof -
  have s: "sort (map fst [(''version'', JInt 1), (''expiresAtMs'', JInt a), (''stdoutBytes'', JInt b), (''stderrBytes'', JInt c)])
      = [''expiresAtMs'', ''stderrBytes'', ''stdoutBytes'', ''version'']" for a b c by code_simp
  show ?thesis
    using assms valid_metadata_parts [OF assms] s
    by (simp add: parseMetadata_def metadata_json_def valid_metadata_def metadataBytes_def)
qed

lemma metadata_text_ascii:
  assumes "valid_metadata m"
  shows "ascii (metadata_text m)"
proof -
  have "ascii ''{\"version\":1,\"expiresAtMs\":''" "ascii '',\"stdoutBytes\":''" "ascii '',\"stderrBytes\":''"
    "ascii ''}''" "ascii [newline]" by code_simp+
  moreover have "ascii (show_int (om_expiresAtMs m))" "ascii (show_int (om_stdoutBytes m))" "ascii (show_int (om_stderrBytes m))"
    using assms by (simp_all add: valid_metadata_def ascii_show_int)
  ultimately show ?thesis unfolding metadata_text_def ascii_append by simp
qed

lemma read_written_metadata:
  assumes "valid_metadata m" "parse (metadata_text m) = Some (metadata_json m)"
    and "map_of fs r = Some (DirEntry d)" "map_of d METADATA_FILE = Some (FileNode (buffer_from (metadata_text m)))"
  shows "readMetadataFile parse no_faults fs r = Inr (Some m)"
proof -
  have "length (metadata_text m) \<le> 200"
  proof -
    have "length (show_int (om_expiresAtMs m)) \<le> 16" "length (show_int (om_stdoutBytes m)) \<le> 16"
      "length (show_int (om_stderrBytes m)) \<le> 16"
      using assms(1) valid_metadata_parts [OF assms(1)] by (simp_all add: valid_metadata_def show_int_length)
    then show ?thesis by (simp add: metadata_text_def)
  qed
  moreover have "map char_of_byte (utf8_decode (buffer_from (metadata_text m))) = metadata_text m"
    using ascii_roundtrip [OF metadata_text_ascii [OF assms(1)]] .
  ultimately show ?thesis
    using assms(2-4) parse_metadata_json [OF assms(1)]
    by (simp add: readMetadataFile_def no_faults_def METADATA_MAX_BYTES_def buffer_from_def)
qed

section \<open>Properties\<close>

lemma length_distinct_subset: "distinct xs \<Longrightarrow> set xs \<subseteq> set ys \<Longrightarrow> length xs \<le> length ys"
  by (metis card_length card_mono distinct_card le_trans List.finite_set)

lemma bounded_usage:
  assumes "quota_inv q" "accounted fs q" "distinct (map fst fs)"
  shows "sum_list (map (payload fs \<circ> fst) fs) \<le> q_maxBytes q
    \<and> int (length (filter (\<lambda>e. 0 < payload fs (fst e)) fs)) \<le> q_maxEntries q"
proof
  have "sum_list (map (payload fs \<circ> fst) fs) \<le> sum_list (map (q_held q) (map fst fs))"
    using assms(2) by (simp add: accounted_def sum_list_mono)
  also have "\<dots> \<le> q_totalBytes q" by (rule held_le_total [OF assms(1,3)])
  also have "\<dots> \<le> q_maxBytes q" using assms(1) by (simp add: quota_inv_def)
  finally show "sum_list (map (payload fs \<circ> fst) fs) \<le> q_maxBytes q" .
  let ?l = "filter (\<lambda>e. 0 < payload fs (fst e)) fs"
  have "set (map fst ?l) \<subseteq> set (map fst (q_bytesByReference q))"
  proof
    fix x assume "x \<in> set (map fst ?l)"
    then have "0 < payload fs x" by auto
    with assms(2) have "q_held q x \<noteq> 0" by (auto simp: accounted_def dest: spec [of _ x])
    then show "x \<in> set (map fst (q_bytesByReference q))"
      by (auto simp: q_held_def split: option.splits dest: map_of_SomeD intro: rev_image_eqI)
  qed
  moreover have "distinct (map fst ?l)" using assms(3) by (rule distinct_keys_filter)
  ultimately have "length (map fst ?l) \<le> length (map fst (q_bytesByReference q))" by (intro length_distinct_subset)
  then show "int (length ?l) \<le> q_maxEntries q" using assms(1) by (simp add: quota_inv_def q_size_def)
qed

text \<open>
  C21: the disk stays within its limits. Whatever was on disk when the store was opened, and
  whatever sequence of calls, jobs, failures of the disk and clean-ups follows, the output
  bytes below the directory never exceed \<open>maxTotalRetainedBytes\<close>, no more than
  \<open>maxRetainedEntries\<close> entries hold any, and every entry is covered by what its reference
  holds in the quota.
\<close>

theorem retained_bytes_bounded:
  assumes "os_reachable s" "os_initialization s = Some (Inr ())"
  shows "sum_list (map (payload (os_fs s) \<circ> fst) (os_fs s)) \<le> q_maxBytes (os_quota s)
    \<and> int (length (filter (\<lambda>e. 0 < payload (os_fs s) (fst e)) (os_fs s))) \<le> q_maxEntries (os_quota s)
    \<and> (\<forall>name. payload (os_fs s) name \<le> q_held (os_quota s) name)"
proof -
  have i: "os_inv s" by (rule reachable_inv [OF assms(1)])
  have a: "accounted (os_fs s) (os_quota s)" using opened_accounted [OF i] assms(2) by (simp add: opened_def)
  with bounded_usage [of "os_quota s" "os_fs s"] i show ?thesis by (simp add: os_inv_def accounted_def)
qed

definition example_opened :: output_store where
  "example_opened = snd (os_create (\<lambda>_. None) no_faults 0 (\<lambda>_. replicate 32 0) (NumberId 1)
     (projr (new_output_store (\<lambda>_. False) ''out'' 4 10 20 2 1000 None [(''stray'', OtherEntry)])))"

definition example_stored :: output_store where
  "example_stored = tracked_run full_writes finalize_io_ok 0 (base64url (replicate 32 0))
     (tracked_append (base64url (replicate 32 0)) Stdout [1, 2, 3] example_opened)"

lemma example_opened_reachable: "os_reachable example_opened"
proof -
  let ?s = "new_output_store (\<lambda>_. False) ''out'' 4 10 20 2 1000 None [(''stray'', OtherEntry)]"
  have "is_ok ?s" by code_simp
  then have "?s = Inr (projr ?s)" by (auto simp: is_ok_iff)
  then have r: "os_reachable (projr ?s)" by (rule os_reachable.init) simp
  have "os_sinks (projr ?s) = []" by code_simp
  then have "\<forall>i. base64url ((\<lambda>_. replicate 32 0) i) \<notin> fst ` set (os_sinks (projr ?s))" by simp
  from os_step.create [OF _ this] r show ?thesis
    unfolding example_opened_def by (metis os_reachable.step prod.collapse)
qed

lemma example_stored_reachable: "os_reachable example_stored"
  unfolding example_stored_def
  by (rule os_reachable.step [OF os_reachable.step [OF example_opened_reachable os_step.append] os_step.run])

theorem retained_bytes_bounded_witness:
  "sum_list (map (payload (os_fs example_stored) \<circ> fst) (os_fs example_stored)) = 3
   \<and> q_maxBytes (os_quota example_stored) = 20
   \<and> (\<forall>name. payload (os_fs example_stored) name \<le> q_held (os_quota example_stored) name)"
proof -
  have i: "os_initialization example_stored = Some (Inr ())" by code_simp
  have "sum_list (map (payload (os_fs example_stored) \<circ> fst) (os_fs example_stored)) = 3"
    "q_maxBytes (os_quota example_stored) = 20" by code_simp+
  with retained_bytes_bounded [OF example_stored_reachable i] show ?thesis by blast
qed

text \<open>
  C23: an output being written is safe. Neither a clean-up nor a read by anybody touches the
  directory of a sink that is still live, and both leave the sink itself alone.
\<close>

theorem live_output_survives:
  assumes "os_reachable s" "map_of (os_sinks s) r = Some t" "live (tk_sink t)"
    and "cleanupExpired parse io now s = (res1, s1)"
    and "os_read parse io now reference stream offset limit s = (res2, s2)"
  shows "map_of (os_fs s1) r = map_of (os_fs s) r \<and> map_of (os_sinks s1) r = Some t
    \<and> map_of (os_fs s2) r = map_of (os_fs s) r \<and> map_of (os_sinks s2) r = Some t"
proof -
  have i: "os_inv s" by (rule reachable_inv [OF assms(1)])
  have o: "opened s" by (rule sinks_opened [OF i assms(2)])
  have e: "ensureInitialized parse io now s = (Inr (), s)" using o by (simp add: ensureInitialized_def opened_def)
  have a: "r \<in> set (os_activeReferences s)" by (rule active_live [OF i assms(2,3)])
  have op: "list_all opaque_reference (os_activeReferences s)" using i by (simp add: os_inv_def)
  obtain cr fs q where c: "cleanupEntries parse io now (os_activeReferences s) (os_fs s) (os_quota s) = (cr, fs, q)"
    by (metis prod_cases3)
  have "s1 = s\<lparr>os_fs := fs, os_quota := q\<rparr>"
    using assms(4) e c by (cases cr) (auto simp: cleanupExpired_def)
  moreover have "map_of fs r = map_of (os_fs s) r" using cleanup_tidy [OF c op] a by (simp add: tidy_def)
  moreover have "map_of (os_fs s2) r = map_of (os_fs s) r \<and> os_sinks s2 = os_sinks s"
  proof -
    have t: "os_fs y = os_fs s \<and> os_sinks y = os_sinks s" if "throwReadNotFound io reference s = (x, y)" for x y
      using that by (auto simp: throwReadNotFound_def split: if_splits)
    have p: "os_fs y = os_fs s \<and> os_sinks y = os_sinks s"
      if "read_payload io reference stream offset n tot s = (x, y)" for n tot x y
      using that t by (auto simp: read_payload_def Let_def split: if_splits option.splits fs_node.splits prod.splits)
    have x: "map_of (os_fs y) r = map_of (os_fs s) r \<and> os_sinks y = os_sinks s"
      if "expire_entry io reference s = (z, y)" "readMetadata parse io (os_fs s) reference = Inr m" for z y m
    proof -
      have "reference \<noteq> r" using live_no_metadata [OF i assms(2,3), of parse io m] readMetadata_Inr [OF that(2)] by auto
      with that(1) map_of_rm_other [of r reference "io_rm io reference" "os_fs s"] show ?thesis
        by (cases "fs_rm (io_rm io reference) reference (os_fs s)"; cases "fst (fs_rm (io_rm io reference) reference (os_fs s))")
          (auto simp: expire_entry_def)
    qed
    show ?thesis
      using assms(5) t p x by (auto simp: os_read_def e Let_def split: if_splits sum.splits prod.splits)
  qed
  ultimately show ?thesis using assms(2) by simp
qed


theorem live_output_survives_witness:
  "map_of (os_fs (snd (cleanupExpired (\<lambda>_. None) no_faults 5 example_stored))) (base64url (replicate 32 0)) =
     map_of (os_fs example_stored) (base64url (replicate 32 0))"
proof -
  let ?r = "base64url (replicate 32 0)"
  obtain t where t: "map_of (os_sinks example_stored) ?r = Some t"
  proof -
    have "map_of (os_sinks example_stored) ?r \<noteq> None" by code_simp
    then show ?thesis using that by blast
  qed
  have "sk_fatalError (tk_sink (the (map_of (os_sinks example_stored) ?r))) = None"
    "\<not> sk_cancelled (tk_sink (the (map_of (os_sinks example_stored) ?r)))"
    "\<not> settled (tk_sink (the (map_of (os_sinks example_stored) ?r)))" by code_simp+
  then have l: "live (tk_sink t)" using t by (simp add: live_def)
  obtain res1 s1 where c: "cleanupExpired (\<lambda>_. None) no_faults 5 example_stored = (res1, s1)" by force
  obtain res2 s2 where d: "os_read (\<lambda>_. None) no_faults 5 ?r Stdout 0 1 example_stored = (res2, s2)" by force
  show ?thesis using live_output_survives [OF example_stored_reachable t l c d] c by simp
qed

lemma held_sum:
  assumes "distinct (map re_reference es)" "\<forall>e \<in> set es. f (re_reference e) = re_bytes e"
  shows "sum_list (map re_bytes (filter (\<lambda>e. re_reference e = x) es)) = (if x \<in> re_reference ` set es then f x else 0)"
  using assms
proof (induction es)
  case (Cons e es)
  show ?case
  proof (cases "re_reference e = x")
    case True
    with Cons.prems have "filter (\<lambda>e. re_reference e = x) es = []" by (auto simp: filter_empty_conv image_iff)
    with True Cons.prems show ?thesis by auto
  next
    case False
    with Cons show ?thesis by auto
  qed
qed simp

lemma adoption_order_expiry:
  assumes "a \<in> set (take k (adoption_order es))" "b \<in> set (drop k (adoption_order es))"
  shows "om_expiresAtMs (re_metadata a) \<le> om_expiresAtMs (re_metadata b)"
proof -
  let ?key = "\<lambda>e. (om_expiresAtMs (re_metadata e), re_reference e)"
  have "sorted (map ?key (take k (adoption_order es)) @ map ?key (drop k (adoption_order es)))"
    by (simp add: adoption_order_def flip: map_append)
  with assms have "?key a \<le> ?key b" by (auto simp: sorted_append)
  then show ?thesis by auto
qed

text \<open>
  C24: what is adopted at start. When removals succeed, adopting the retained entries
  succeeds: it keeps the entries that expire last, and no entry more is given up than the
  two limits require; the entries given up are gone from the disk, and the quota holds
  exactly the bytes of the entries kept.
\<close>

theorem adoption_keeps_newest:
  assumes "distinct (map re_reference entries)" "\<forall>e \<in> set entries. 0 \<le> re_bytes e"
    and "0 \<le> maxBytes" "0 \<le> maxEntries" "io_rm io = (\<lambda>_. None)"
    and "adoptRetainedEntries io entries fs (new_quota maxBytes maxEntries) = (res, fs', q')"
  shows "res = Inr () \<and> (\<exists>evicted kept. mset (evicted @ kept) = mset entries
    \<and> (\<forall>a \<in> set evicted. \<forall>b \<in> set kept. om_expiresAtMs (re_metadata a) \<le> om_expiresAtMs (re_metadata b))
    \<and> sum_list (map re_bytes kept) \<le> maxBytes \<and> int (length kept) \<le> maxEntries
    \<and> (\<forall>i < length evicted. maxBytes < sum_list (map re_bytes (drop i evicted @ kept))
         \<or> maxEntries < int (length (drop i evicted @ kept)))
    \<and> (\<forall>x. map_of fs' x = (if x \<in> re_reference ` set evicted then None else map_of fs x))
    \<and> (\<forall>x. q_held q' x = sum_list (map re_bytes (filter (\<lambda>e. re_reference e = x) kept))))"
proof -
  note spec = adopt_spec [OF assms(6) refl assms(3,4,1,2)]
  show ?thesis
  proof (cases res)
    case (Inl e)
    with spec assms(5) show ?thesis by auto
  next
    case (Inr u)
    let ?o = "adoption_order entries"
    from spec Inr obtain k where k: "k \<le> length entries"
      "sum_list (map re_bytes (drop k ?o)) \<le> maxBytes" "int (length (drop k ?o)) \<le> maxEntries"
      "\<forall>j < k. \<not> (sum_list (map re_bytes (drop j ?o)) \<le> maxBytes \<and> int (length (drop j ?o)) \<le> maxEntries)"
      "\<forall>x. map_of fs' x = (if x \<in> re_reference ` set (take k ?o) then None else map_of fs x)"
      "\<forall>e \<in> set (drop k ?o). q_held q' (re_reference e) = re_bytes e"
      "\<forall>x. x \<notin> re_reference ` set (drop k ?o) \<longrightarrow> q_held q' x = 0"
      unfolding Let_def by (simp only: sum.case) blast
    have d: "distinct (map re_reference (drop k ?o))"
      using adoption_order_distinct [OF assms(1)] by (simp add: distinct_drop flip: drop_map)
    have held: "\<forall>x. q_held q' x = sum_list (map re_bytes (filter (\<lambda>e. re_reference e = x) (drop k ?o)))"
      using held_sum [OF d, of "q_held q'"] k(6,7) by simp
    have len: "length (take k ?o) = k" using k(1) by (simp add: adoption_order_def)
    have rest: "drop i (take k ?o) @ drop k ?o = drop i ?o" if "i < k" for i
      using that by (metis append_take_drop_id drop_append drop_drop drop_take le_add_diff_inverse2 less_imp_le_nat take_drop)
    then have "\<forall>i < length (take k ?o). maxBytes < sum_list (map re_bytes (drop i (take k ?o) @ drop k ?o))
        \<or> maxEntries < int (length (drop i (take k ?o) @ drop k ?o))"
      using k(4) unfolding len by (metis not_le)
    moreover have "res = Inr ()" using Inr by simp
    moreover have "mset (take k ?o @ drop k ?o) = mset entries" by (simp add: adoption_order_mset)
    ultimately show ?thesis using k(2,3,5) held adoption_order_expiry [of _ k entries]
      by (intro conjI exI [of _ "take k ?o"] exI [of _ "drop k ?o"]) blast+
  qed
qed

definition example_entry :: "string \<Rightarrow> int \<Rightarrow> int \<Rightarrow> retained_entry" where
  "example_entry r expires n = \<lparr>re_reference = r,
     re_metadata = \<lparr>om_expiresAtMs = expires, om_stdoutBytes = n, om_stderrBytes = 0\<rparr>, re_bytes = n\<rparr>"

theorem adoption_keeps_newest_witness:
  "fst (adoptRetainedEntries no_faults [example_entry ''b'' 9 6, example_entry ''a'' 5 6]
     [(''a'', DirEntry []), (''b'', DirEntry [])] (new_quota 10 5)) = Inr ()"
proof -
  let ?es = "[example_entry ''b'' 9 6, example_entry ''a'' 5 6]"
  have 1: "distinct (map re_reference ?es)" "\<forall>e \<in> set ?es. 0 \<le> re_bytes e" "(0::int) \<le> 10" "(0::int) \<le> 5" "io_rm no_faults = (\<lambda>_. None)"
    by (simp_all add: example_entry_def no_faults_def)
  obtain res fs' q' where a: "adoptRetainedEntries no_faults ?es [(''a'', DirEntry []), (''b'', DirEntry [])]
      (new_quota 10 5) = (res, fs', q')" by (metis prod_cases3)
  show ?thesis using adoption_keeps_newest [OF 1 a] a by simp
qed

text \<open>
  Reading a retained output. A client that starts at some offset and asks for each next
  page where the last one ended collects the rest of the file byte for byte, whatever page
  size within the limit it uses.
\<close>

theorem retained_output_reads_back:
  assumes "readable parse now s r stream" "1 \<le> limit" "limit \<le> os_maxReadBytes s"
    and "offset \<le> length (file_content (os_fs s) r (stream_file stream))"
    and "length (file_content (os_fs s) r (stream_file stream)) - offset \<le> requests"
  shows "follow_pages (\<lambda>i. case fst (os_read parse no_faults now r stream (int i) limit s) of
       Inl _ \<Rightarrow> [] | Inr c \<Rightarrow> from_base64 (oc_dataBase64 c)) requests offset
     = drop offset (file_content (os_fs s) r (stream_file stream))"
proof -
  have "follow_pages (retained_page (parse, now, s, r, stream) (nat limit)) requests offset =
      drop offset (file_content (os_fs s) r (stream_file stream))"
    using retained_output.follow_all [of "(parse, now, s, r, stream)" "nat limit" offset requests] assms by simp
  moreover have "min (int (nat limit)) (os_maxReadBytes s) = limit" using assms(2,3) by simp
  ultimately show ?thesis by (simp add: retained_page_def [abs_def])
qed

definition example_ref :: string where "example_ref = base64url (replicate 32 0)"

definition example_metadata :: output_metadata where
  "example_metadata = \<lparr>om_expiresAtMs = 1000, om_stdoutBytes = 6, om_stderrBytes = 0\<rparr>"

definition example_parse :: "string \<Rightarrow> json option" where
  "example_parse txt = (if txt = metadata_text example_metadata then Some (metadata_json example_metadata) else None)"

definition example_filled :: output_store where
  "example_filled = tracked_run full_writes finalize_io_ok 0 example_ref
     (tracked_append example_ref Stdout [1, 2, 3, 4, 5, 6] example_opened)"

definition example_closing :: output_store where "example_closing = tracked_finalize example_ref example_filled"

definition example_published :: output_store where
  "example_published = tracked_run full_writes finalize_io_ok 0 example_ref example_closing"

theorem retained_output_reads_back_witness:
  "follow_pages (\<lambda>i. case fst (os_read example_parse no_faults 7 example_ref Stdout (int i) 4 example_published) of
       Inl _ \<Rightarrow> [] | Inr c \<Rightarrow> from_base64 (oc_dataBase64 c)) 6 1 = [2, 3, 4, 5, 6]"
proof -
  have r: "readable example_parse 7 example_published example_ref Stdout" by code_simp
  have f: "file_content (os_fs example_published) example_ref (stream_file Stdout) = [1, 2, 3, 4, 5, 6]" by code_simp
  have l: "(4::int) \<le> os_maxReadBytes example_published" by code_simp
  show ?thesis using retained_output_reads_back [OF r _ l, of 1 6] f by simp
qed

lemma published_readable:
  assumes "os_inv s" "map_of (os_sinks s) r = Some t" "live (tk_sink t)" "sk_tail (tk_sink t) = [FinalizeJob]"
    and "truncated (tk_sink t)" "fi_closeFails fio = (\<lambda>_. False)" "fi_metadataFails fio = None"
    and "m = \<lparr>om_expiresAtMs = now + sk_ttlMs (tk_sink t),
       om_stdoutBytes = int (length (file_content (os_fs s) r (stream_file Stdout))),
       om_stderrBytes = int (length (file_content (os_fs s) r (stream_file Stderr)))\<rparr>"
    and "valid_metadata m" "parse (metadata_text m) = Some (metadata_json m)" "later < om_expiresAtMs m"
  shows "readable parse later (tracked_run aio fio now r s) r stream
    \<and> entry_verdict parse no_faults later (os_fs (tracked_run aio fio now r s)) r (DirEntry []) = Inr (Some m)
    \<and> file_content (os_fs (tracked_run aio fio now r s)) r (stream_file stream) = file_content (os_fs s) r (stream_file stream)
    \<and> os_maxReadBytes (tracked_run aio fio now r s) = os_maxReadBytes s"
proof -
  let ?sk = "tk_sink t" and ?fs = "os_fs s" and ?s' = "tracked_run aio fio now r s"
  have tr: "tracked_ok s r t" using assms(1,2) by (simp add: os_inv_def)
  have r: "sk_reference ?sk = r" using tr by (simp add: tracked_ok_def)
  from tr assms(3) obtain d where d: "map_of ?fs r = Some (DirEntry d)" "dir_ok ?sk d"
    unfolding tracked_ok_def sink_inv_def by blast
  have tot: "st_totalBytes (sk_stream x ?sk) = int (length (dir_content d (stream_file x)))" for x
    using d(2) by (simp add: dir_ok_def stream_ok_def)
  have fc: "file_content ?fs r f = dir_content d f" for f by (rule file_content_dir [OF d(1)])
  let ?d = "AList.update METADATA_FILE (FileNode (buffer_from (metadata_text m))) d"
  have mm: "m = \<lparr>om_expiresAtMs = now + sk_ttlMs ?sk, om_stdoutBytes = st_totalBytes (sk_stream Stdout ?sk),
       om_stderrBytes = st_totalBytes (sk_stream Stderr ?sk)\<rparr>" by (simp add: assms(8) tot fc)
  have run: "\<exists>sk so. sink_run aio fio now (?sk, ?fs, os_quota s) =
      (sk, fs_put r METADATA_FILE (buffer_from (metadata_text m)) ?fs, os_quota s)
      \<and> sk_finalizePromise sk = Settled (Inr so)"
  proof -
    let ?k = "?sk\<lparr>sk_tail := []\<rparr>"
    obtain res sk1 fs1 q1 where n: "finalizeNow fio now (?k, ?fs, os_quota s) = (res, sk1, fs1, q1)" by (metis prod_cases4)
    have f: "sk_fatalError ?sk = None" using assms(3) by (simp add: live_def)
    have "is_ok res"
      using n f assms(5-7)
      by (auto simp: finalizeNow_def closeHandles_def Let_def truncated_def summarizeStream_def sk_stream_def split: if_splits)
    with n assms(5) have "fs1 = fs_put r METADATA_FILE (buffer_from (metadata_text m)) ?fs \<and> q1 = os_quota s"
      by (cases rule: finalizeNow_cases) (auto simp: truncated_def mm r)
    with n \<open>is_ok res\<close> show ?thesis by (auto simp: sink_run_def assms(4) finalize_job_def is_ok_iff)
  qed
  then obtain sk so where run: "sink_run aio fio now (?sk, ?fs, os_quota s) =
      (sk, fs_put r METADATA_FILE (buffer_from (metadata_text m)) ?fs, os_quota s)" by blast
  have s': "os_fs ?s' = fs_put r METADATA_FILE (buffer_from (metadata_text m)) ?fs"
    "os_initialization ?s' = os_initialization s" "os_maxReadBytes ?s' = os_maxReadBytes s"
    using assms(2) run by (auto simp: tracked_run_def Let_def put_sink_def releaseOnce_def update_conv')
  have look: "map_of (os_fs ?s') r = Some (DirEntry ?d)" by (simp add: s'(1) map_of_fs_put [OF d(1)])
  have md: "readMetadataFile parse no_faults (os_fs ?s') r = Inr (Some m)"
    by (rule read_written_metadata [where parse = parse and m = m, OF assms(9,10) look]) (simp add: update_conv')
  have files: "entry_files (os_fs ?s') r = ?d" using look by (simp add: entry_files_def)
  have ms: "metadata_stream x m = int (length (dir_content d (stream_file x)))" for x
    by (cases x) (simp_all add: metadata_stream_def assms(8) fc)
  have node: "map_of d (stream_file x) \<noteq> Some OtherNode" for x
    using d(2) by (auto simp: dir_ok_def dest!: map_of_SomeD)
  have can: "isCanonicalPayloadFile no_faults r ?d (stream_file x) (metadata_stream x m) = Inr True" for x
    using node [of x] by (auto simp: isCanonicalPayloadFile_def ms dir_content_def update_conv' no_faults_def
        split: option.splits fs_node.splits)
  have o: "opened s" by (rule sinks_opened [OF assms(1,2)])
  have "opaque_reference r" using assms(1) active_live [OF assms(1-3)] by (auto simp: os_inv_def list_all_iff)
  moreover have "is_safe_integer (metadata_stream stream m)"
    using valid_metadata_parts [OF assms(9)] by (cases stream) (simp_all add: metadata_stream_def)
  ultimately have "readable parse later ?s' r stream"
    using o assms(1,11) md can [of stream] by (simp add: readable_def files s'(2,3) opened_def os_inv_def)
  moreover have "entry_verdict parse no_faults later (os_fs ?s') r (DirEntry []) = Inr (Some m)"
  proof -
    have sub: "fst e \<in> set RETAINED_ENTRY_FILE_NAMES" if "e \<in> set ?d" for e
    proof -
      from d(2) have "distinct (map fst d)" by (simp add: dir_ok_def)
      from set_update_file [OF this that] show ?thesis
      proof
        assume "e \<in> set d"
        then obtain x b where "e = (stream_file x, FileNode b)" using d(2) by (auto simp: dir_ok_def)
        then show ?thesis by (cases x) (simp_all add: RETAINED_ENTRY_FILE_NAMES_def stream_file_def)
      qed (simp add: RETAINED_ENTRY_FILE_NAMES_def)
    qed
    have "(METADATA_FILE, FileNode (buffer_from (metadata_text m))) \<in> set ?d"
      by (rule map_of_SomeD) (simp add: update_conv')
    then have "list_ex (\<lambda>(file, node). file = METADATA_FILE \<and> node \<noteq> OtherNode) ?d" by (auto simp: list_ex_iff)
    moreover have "\<not> list_ex (\<lambda>(file, _). file \<notin> set RETAINED_ENTRY_FILE_NAMES) ?d"
      using sub by (fastforce simp: list_ex_iff)
    moreover have "io_listFails no_faults r = None" by (simp add: no_faults_def)
    ultimately have "isCanonicalRetainedEntry no_faults (os_fs ?s') r m = Inr True"
      using can [of Stdout] can [of Stderr]
      by (simp add: isCanonicalRetainedEntry_def files Let_def metadata_stream_def stream_file_def)
    with md assms(11) show ?thesis by (simp add: entry_verdict_def)
  qed
  moreover have "file_content (os_fs ?s') r (stream_file stream) = file_content ?fs r (stream_file stream)"
    by (simp add: s'(1))
  ultimately show ?thesis using s'(3) by simp
qed


text \<open>
  C22: from sink to reader. When the last job of a live sink is its finalization, a preview was
  truncated and the disk works, then afterwards and until the entry expires: a clean-up keeps
  the entry, and a client that follows the pages of either stream receives exactly the bytes
  the sink had stored. \<open>JSON.parse\<close> is assumed to read back the one text that the sink wrote.
\<close>

theorem published_output_reads_back:
  assumes "os_reachable s" "map_of (os_sinks s) r = Some t" "live (tk_sink t)" "sk_tail (tk_sink t) = [FinalizeJob]"
    and "truncated (tk_sink t)" "fi_closeFails fio = (\<lambda>_. False)" "fi_metadataFails fio = None"
    and "m = \<lparr>om_expiresAtMs = now + sk_ttlMs (tk_sink t),
       om_stdoutBytes = int (length (file_content (os_fs s) r (stream_file Stdout))),
       om_stderrBytes = int (length (file_content (os_fs s) r (stream_file Stderr)))\<rparr>"
    and "valid_metadata m" "parse (metadata_text m) = Some (metadata_json m)" "later < om_expiresAtMs m"
    and "1 \<le> limit" "limit \<le> os_maxReadBytes s"
    and "length (file_content (os_fs s) r (stream_file stream)) \<le> requests"
  shows "follow_pages (\<lambda>i. case fst (os_read parse no_faults later r stream (int i) limit (tracked_run aio fio now r s)) of
       Inl _ \<Rightarrow> [] | Inr c \<Rightarrow> from_base64 (oc_dataBase64 c)) requests 0
     = file_content (os_fs s) r (stream_file stream)
   \<and> entry_verdict parse no_faults later (os_fs (tracked_run aio fio now r s)) r (DirEntry []) = Inr (Some m)"
proof -
  let ?s' = "tracked_run aio fio now r s"
  note p = published_readable [OF reachable_inv [OF assms(1)] assms(2-8), where parse = parse and later = later and aio = aio, OF assms(9-11)]
  have "readable parse later ?s' r stream" "os_maxReadBytes ?s' = os_maxReadBytes s"
    "file_content (os_fs ?s') r (stream_file stream) = file_content (os_fs s) r (stream_file stream)"
    using p by blast+
  moreover from this have "follow_pages (\<lambda>i. case retained_page (parse, later, ?s', r, stream) (nat limit) i of x \<Rightarrow> x) requests 0 =
      file_content (os_fs s) r (stream_file stream)"
    using retained_output.follow_all [of "(parse, later, ?s', r, stream)" "nat limit" 0 requests] assms(12-14) by simp
  moreover have "min (int (nat limit)) (os_maxReadBytes ?s') = limit" using assms(12,13) p by simp
  ultimately show ?thesis using p by (simp add: retained_page_def [abs_def])
qed

theorem published_output_reads_back_witness:
  "follow_pages (\<lambda>i. case fst (os_read example_parse no_faults 7 example_ref Stdout (int i) 4
       (tracked_run full_writes finalize_io_ok 0 example_ref example_closing)) of
       Inl _ \<Rightarrow> [] | Inr c \<Rightarrow> from_base64 (oc_dataBase64 c)) 6 0 = [1, 2, 3, 4, 5, 6]"
proof -
  have reach: "os_reachable example_closing"
    unfolding example_closing_def example_filled_def
    by (rule os_reachable.step [OF os_reachable.step [OF os_reachable.step [OF example_opened_reachable os_step.append] os_step.run] os_step.finalize])
  let ?t = "the (map_of (os_sinks example_closing) example_ref)"
  have t: "map_of (os_sinks example_closing) example_ref = Some ?t"
  proof -
    have "map_of (os_sinks example_closing) example_ref \<noteq> None" by code_simp
    then show ?thesis by auto
  qed
  have f: "sk_fatalError (tk_sink ?t) = None" "\<not> sk_cancelled (tk_sink ?t)" "\<not> settled (tk_sink ?t)"
    "sk_tail (tk_sink ?t) = [FinalizeJob]" "truncated (tk_sink ?t)" "sk_ttlMs (tk_sink ?t) = 1000"
    "file_content (os_fs example_closing) example_ref (stream_file Stdout) = [1, 2, 3, 4, 5, 6]"
    "file_content (os_fs example_closing) example_ref (stream_file Stderr) = []" by code_simp+
  then have l: "live (tk_sink ?t)" by (simp add: live_def)
  have io: "fi_closeFails finalize_io_ok = (\<lambda>_. False)" "fi_metadataFails finalize_io_ok = None"
    by (simp_all add: finalize_io_ok_def)
  have m: "example_metadata = \<lparr>om_expiresAtMs = 0 + sk_ttlMs (tk_sink ?t),
       om_stdoutBytes = int (length (file_content (os_fs example_closing) example_ref (stream_file Stdout))),
       om_stderrBytes = int (length (file_content (os_fs example_closing) example_ref (stream_file Stderr)))\<rparr>"
    using f(6-8) by (simp add: example_metadata_def)
  have v: "valid_metadata example_metadata" "example_parse (metadata_text example_metadata) = Some (metadata_json example_metadata)"
    "7 < om_expiresAtMs example_metadata" by (code_simp, simp add: example_parse_def, simp add: example_metadata_def)
  have r: "(4::int) \<le> os_maxReadBytes example_closing" by code_simp
  show ?thesis
    using published_output_reads_back [where parse = example_parse and stream = Stdout and requests = 6 and limit = 4
        and aio = full_writes, OF reach t l f(4,5) io m v _ r] f(7)
    by simp
qed

end
