(* ===== verification/OutputText.thy ===== *)
theory OutputText
  imports OutputStore Sha256 Paging
begin

text \<open>
  The text reader of \<^verbatim>\<open>src/src/core/exec-service.ts\<close> (\<open>readOutputText\<close> and its helpers): pages of a
  retained output that end between two characters, and the cursors a client follows them with.
  The output store is an argument \<open>read\<close> that takes an offset and a limit and passes its
  state on; the interpretation instantiates it with the store's own \<open>os_read\<close>. \<open>JSON.parse\<close> is
  the argument \<open>parse\<close>.
\<close>

section \<open>Definitions\<close>

definition outputUtf8SequenceLength :: "byte \<Rightarrow> nat" where
  "outputUtf8SequenceLength lead =
     (if lead \<ge> 0xC2 \<and> lead \<le> 0xDF then 2
      else if lead \<ge> 0xE0 \<and> lead \<le> 0xEF then 3
      else if lead \<ge> 0xF0 \<and> lead \<le> 0xF4 then 4
      else 1)"

type_synonym 's reader = "int \<Rightarrow> int \<Rightarrow> 's \<Rightarrow> (thrown + output_chunk) \<times> 's"

text \<open>The loop over candidate lead bytes; the argument is one more than \<open>leadIndex\<close>.\<close>

fun align_loop :: "bytes \<Rightarrow> nat \<Rightarrow> nat \<Rightarrow> nat option" where
  "align_loop bytes index 0 = None"
| "align_loop bytes index (Suc leadIndex) =
     (let expectedLength = outputUtf8SequenceLength (bytes ! leadIndex); sequenceEnd = leadIndex + expectedLength in
      if expectedLength = 1 then align_loop bytes index leadIndex
      else if sequenceEnd \<le> index \<or> sequenceEnd > length bytes then align_loop bytes index leadIndex
      else if valid_utf8 (take expectedLength (drop leadIndex bytes)) then Some sequenceEnd
      else align_loop bytes index leadIndex)"

definition alignUtf8ReadOffset :: "'s reader \<Rightarrow> int \<Rightarrow> 's \<Rightarrow> (thrown + int) \<times> 's" where
  "alignUtf8ReadOffset read offset s =
     (if offset = 0 then (Inr 0, s)
      else
        let probeOffset = max 0 (offset - 3) in
        case read probeOffset 7 s of
          (Inl e, s1) \<Rightarrow> (Inl e, s1)
        | (Inr probe, s1) \<Rightarrow>
            let bytes = from_base64 (oc_dataBase64 probe); index = nat (offset - probeOffset) in
            if index \<ge> length bytes \<or> \<not> is_continuation (bytes ! index) then (Inr offset, s1)
            else (Inr (case align_loop bytes index index of None \<Rightarrow> offset | Some e \<Rightarrow> probeOffset + int e), s1))"

record utf8_page =
  up_bytes :: bytes
  up_followingOffset :: int
  up_eof :: bool
  up_totalBytes :: int

definition finish_page :: "int \<Rightarrow> int \<Rightarrow> bytes \<Rightarrow> bool \<Rightarrow> utf8_page" where
  "finish_page offset totalBytes bytes atEof =
     (let bytes = (if \<not> atEof then take (completeUtf8PrefixLength bytes) bytes else bytes);
          followingOffset = offset + int (length bytes) in
      \<lparr>up_bytes = bytes, up_followingOffset = followingOffset, up_eof = (followingOffset \<ge> totalBytes),
       up_totalBytes = totalBytes\<rparr>)"

definition readUtf8OutputPage :: "'s reader \<Rightarrow> int \<Rightarrow> int \<Rightarrow> 's \<Rightarrow> (thrown + utf8_page) \<times> 's" where
  "readUtf8OutputPage read requestedOffset limit s =
     (case alignUtf8ReadOffset read requestedOffset s of
        (Inl e, s1) \<Rightarrow> (Inl e, s1)
      | (Inr offset, s1) \<Rightarrow>
          (case read offset limit s1 of
             (Inl e, s2) \<Rightarrow> (Inl e, s2)
           | (Inr first, s2) \<Rightarrow>
               let bytes = from_base64 (oc_dataBase64 first);
                   completeBytes = completeUtf8PrefixLength bytes;
                   missingBytes = outputUtf8SequenceLength (bytes ! completeBytes) - (length bytes - completeBytes) in
               if \<not> oc_eof first \<and> completeBytes < length bytes \<and> missingBytes > 0
               then (case read (offset + int (length bytes)) (int missingBytes) s2 of
                       (Inl e, s3) \<Rightarrow> (Inl e, s3)
                     | (Inr extra, s3) \<Rightarrow>
                         (Inr (finish_page offset (oc_totalBytes first)
                            (bytes @ from_base64 (oc_dataBase64 extra)) (oc_eof extra)), s3))
               else (Inr (finish_page offset (oc_totalBytes first) bytes (oc_eof first)), s2)))"

definition stream_name :: "out_stream \<Rightarrow> string" where
  "stream_name stream = (case stream of Stdout \<Rightarrow> ''stdout'' | Stderr \<Rightarrow> ''stderr'')"

definition outputTextCursorBinding :: "string \<Rightarrow> out_stream \<Rightarrow> int \<Rightarrow> string" where
  "outputTextCursorBinding outputRef stream offset =
     take 22 (base64url (sha256 (buffer_from
       (''agent-ssh-output-text-cursor-v1'' @ [nul_char] @ outputRef @ [nul_char] @ stream_name stream @ [nul_char]
        @ show_int offset))))"

text \<open>\<open>JSON.stringify\<close> of the cursor; the binding holds base64url characters only.\<close>

definition text_cursor_json :: "string \<Rightarrow> out_stream \<Rightarrow> int \<Rightarrow> string" where
  "text_cursor_json outputRef stream offset =
     ''{'' @ [dquote_char] @ ''v'' @ [dquote_char] @ '':1,'' @ [dquote_char] @ ''o'' @ [dquote_char] @ '':'' @ show_int offset @
     '','' @ [dquote_char] @ ''b'' @ [dquote_char] @ '':'' @ [dquote_char] @ outputTextCursorBinding outputRef stream offset @
     [dquote_char] @ ''}''"

definition encodeOutputTextCursor :: "string \<Rightarrow> out_stream \<Rightarrow> int \<Rightarrow> string" where
  "encodeOutputTextCursor outputRef stream offset = base64url (buffer_from (text_cursor_json outputRef stream offset))"

definition invalid_output_cursor :: thrown where
  "invalid_output_cursor = gateway InvalidParams ''Output cursor is invalid''"

definition decodeOutputTextCursor :: "(string \<Rightarrow> json option) \<Rightarrow> string \<Rightarrow> string \<Rightarrow> out_stream \<Rightarrow> thrown + int" where
  "decodeOutputTextCursor parse val outputRef stream =
     (case parse (map char_of_byte (utf8_decode (from_base64 val))) of
        Some (JObject members) \<Rightarrow>
          if join_with '','' (sort (map fst members)) \<noteq> ''b,o,v'' then Inl invalid_output_cursor
          else (case (map_of members ''v'', map_of members ''o'', map_of members ''b'') of
             (Some (JInt v), Some (JInt off), Some (JString b)) \<Rightarrow>
               if v \<noteq> 1 \<or> \<not> is_safe_integer off \<or> off < 0 then Inl invalid_output_cursor
               else if b \<noteq> outputTextCursorBinding outputRef stream off then Inl invalid_output_cursor
               else Inr off
           | _ \<Rightarrow> Inl invalid_output_cursor)
      | _ \<Rightarrow> Inl invalid_output_cursor)"

record read_text_params =
  rx_outputRef :: string
  rx_stream :: out_stream
  rx_offset :: "int option"
  rx_cursor :: "string option"
  rx_limit :: int

datatype continuation = NextOffset "int option" | NextCursor "string option"

record read_text_result =
  rr_text :: bytes \<comment> \<open>the UTF-8 form of the decoded text\<close>
  rr_bytesRead :: nat
  rr_next :: continuation
  rr_eof :: bool
  rr_totalBytes :: int
  rr_hadDecodingErrors :: bool

definition readOutputText ::
  "(string \<Rightarrow> json option) \<Rightarrow> 's reader \<Rightarrow> read_text_params \<Rightarrow> 's \<Rightarrow> (thrown + read_text_result) \<times> 's" where
  "readOutputText parse read params s =
     (case (case rx_offset params of
              Some legacyOffset \<Rightarrow> Inr legacyOffset
            | None \<Rightarrow> (case rx_cursor params of
                None \<Rightarrow> Inr 0
              | Some cursor \<Rightarrow> decodeOutputTextCursor parse cursor (rx_outputRef params) (rx_stream params))) of
        Inl e \<Rightarrow> (Inl e, s)
      | Inr requestedOffset \<Rightarrow>
          (case readUtf8OutputPage read requestedOffset (rx_limit params) s of
             (Inl e, s1) \<Rightarrow> (Inl e, s1)
           | (Inr page, s1) \<Rightarrow>
               (Inr \<lparr>rr_text = utf8_decode (up_bytes page), rr_bytesRead = length (up_bytes page),
                     rr_next = (if rx_offset params \<noteq> None
                       then NextOffset (if up_eof page then None else Some (up_followingOffset page))
                       else NextCursor (if up_eof page then None
                         else Some (encodeOutputTextCursor (rx_outputRef params) (rx_stream params) (up_followingOffset page)))),
                     rr_eof = up_eof page, rr_totalBytes = up_totalBytes page,
                     rr_hadDecodingErrors = (\<not> valid_utf8 (up_bytes page))\<rparr>, s1)))"

section \<open>Pages of well-formed text\<close>

text \<open>A reader that serves a content, up to a largest page size, without changing its state.\<close>

definition serves :: "'s reader \<Rightarrow> 's \<Rightarrow> bytes \<Rightarrow> int \<Rightarrow> bool" where
  "serves read s w M \<longleftrightarrow>
     7 \<le> M \<and> (\<forall>off l. off \<le> length w \<longrightarrow> 1 \<le> l \<longrightarrow> l \<le> M \<longrightarrow>
       (\<exists>chunk. read (int off) l s = (Inr chunk, s) \<and> from_base64 (oc_dataBase64 chunk) = take (nat l) (drop off w)
         \<and> oc_eof chunk = (off + length (take (nat l) (drop off w)) = length w) \<and> oc_totalBytes chunk = int (length w)))"

lemma servesE:
  assumes "serves read s w M" "off \<le> length w" "1 \<le> l" "l \<le> M"
  obtains chunk where "read (int off) l s = (Inr chunk, s)" "from_base64 (oc_dataBase64 chunk) = take (nat l) (drop off w)"
    "oc_eof chunk = (off + length (take (nat l) (drop off w)) = length w)" "oc_totalBytes chunk = int (length w)"
  using assms unfolding serves_def by blast

lemma valid_drop: "valid_utf8 w \<Longrightarrow> valid_utf8 (take k w) \<Longrightarrow> valid_utf8 (drop k w)"
  using valid_append [of "take k w" "drop k w"] by simp

lemma boundary_not_continuation:
  assumes "valid_utf8 w" "valid_utf8 (take k w)" "k < length w"
  shows "\<not> is_continuation (w ! k)"
  using valid_hd_not_cont [OF valid_drop [OF assms(1,2)]] assms(3) by (simp add: hd_drop_conv_nth)

lemma align_boundary:
  assumes "serves read s w M" "valid_utf8 w" "valid_utf8 (take k w)" "k \<le> length w"
  shows "alignUtf8ReadOffset read (int k) s = (Inr (int k), s)"
proof (cases "k = 0")
  case False
  have M: "7 \<le> M" using assms(1) by (simp add: serves_def)
  have p: "max 0 (int k - 3) = int (k - 3)" by auto
  have "k - 3 \<le> length w" "(1::int) \<le> 7" using assms(4) by auto
  from servesE [OF assms(1) this M] obtain chunk where
    c: "read (int (k - 3)) 7 s = (Inr chunk, s)" "from_base64 (oc_dataBase64 chunk) = take 7 (drop (k - 3) w)" by auto
  have i: "nat (int k - int (k - 3)) = k - (k - 3)" by simp
  have "index \<ge> length (take 7 (drop (k - 3) w)) \<or> \<not> is_continuation (take 7 (drop (k - 3) w) ! index)"
    if "index = k - (k - 3)" for index
    using that boundary_not_continuation [OF assms(2,3)] by auto
  then show ?thesis using False c by (simp add: alignUtf8ReadOffset_def p i Let_def)
qed (simp add: alignUtf8ReadOffset_def)

lemma sequence_length_lead:
  assumes "is_sequence q" "2 \<le> length q"
  shows "outputUtf8SequenceLength (hd q) = length q"
  using assms(1)
proof (cases rule: sequence_cases)
  case (1 a)
  with assms(2) show ?thesis by simp
next
  case (2 a b)
  then show ?thesis by (simp add: outputUtf8SequenceLength_def)
next
  case (3 a b c)
  then have "\<not> a \<le> 0xDF" by (auto simp: word_le_nat_alt)
  with 3 show ?thesis by (simp add: outputUtf8SequenceLength_def)
next
  case (4 a b c d)
  then have "\<not> a \<le> 0xDF" "\<not> a \<le> 0xEF" by (auto simp: word_le_nat_alt)
  with 4 show ?thesis by (simp add: outputUtf8SequenceLength_def)
qed

lemma complete_valid:
  assumes "valid_utf8 (take m v)" "m \<le> length v"
  shows "completeUtf8PrefixLength (take m v) = m"
proof -
  have l: "length (take m v) = m" using assms(2) by simp
  have "m \<le> completeUtf8PrefixLength (take m (take m v))"
    using complete_valid_prefix [OF assms(1), of m, THEN conjunct2, rule_format, of m] assms l by simp
  moreover have "take m (take m v) = take m v" by simp
  ultimately show ?thesis using complete_le [of "take m v"] l by simp
qed

text \<open>The sequence that a cut goes through.\<close>

lemma cut_sequence:
  assumes "valid_utf8 v" "L < length v" "completeUtf8PrefixLength (take L v) < L"
  obtains q where "is_sequence q" "prefix q (drop (completeUtf8PrefixLength (take L v)) v)"
    "L < completeUtf8PrefixLength (take L v) + length q"
    "valid_utf8 (take (completeUtf8PrefixLength (take L v) + length q) v)"
proof -
  let ?c = "completeUtf8PrefixLength (take L v)"
  have cp: "valid_utf8 (take ?c v)" and mx: "\<And>m. m \<le> L \<Longrightarrow> valid_utf8 (take m v) \<Longrightarrow> m \<le> ?c"
    using complete_valid_prefix [OF assms(1), of L] assms(2) by auto
  have "valid_utf8 (drop ?c v)" "drop ?c v \<noteq> []" using valid_drop [OF assms(1) cp] assms(2,3) by auto
  then obtain q ys where q: "drop ?c v = q @ ys" "is_sequence q" by (rule valid_utf8_decompose)
  have tk: "take (?c + length q) v = take ?c v @ q" using q(1) by (simp add: take_add)
  have v2: "valid_utf8 (take (?c + length q) v)"
    unfolding tk using valid_append [OF cp, of q] valid_append_sequence [OF q(2), of "[]"] by simp
  have "L < ?c + length q"
  proof (rule ccontr)
    assume "\<not> L < ?c + length q"
    with mx [OF _ v2] have "length q = 0" by simp
    with sequence_lead(1) [OF q(2)] show False by simp
  qed
  with q v2 show thesis by (intro that) auto
qed

lemma page_of_text:
  assumes "serves read s w M" "valid_utf8 w" "valid_utf8 (take k w)" "k \<le> length w" "1 \<le> l" "l \<le> M"
  shows "\<exists>m. readUtf8OutputPage read (int k) l s =
      (Inr \<lparr>up_bytes = take m (drop k w), up_followingOffset = int (k + m), up_eof = (k + m = length w),
            up_totalBytes = int (length w)\<rparr>, s)
    \<and> valid_utf8 (take m (drop k w)) \<and> k + m \<le> length w \<and> (k < length w \<longrightarrow> 0 < m) \<and> m \<le> nat l + 3"
proof -
  let ?v = "drop k w" and ?L = "nat l"
  have M: "7 \<le> M" using assms(1) by (simp add: serves_def)
  have v: "valid_utf8 ?v" by (rule valid_drop [OF assms(2,3)])
  from servesE [OF assms(1,4,5,6)] obtain first where
    f: "read (int k) l s = (Inr first, s)" "from_base64 (oc_dataBase64 first) = take ?L ?v"
      "oc_eof first = (k + length (take ?L ?v) = length w)" "oc_totalBytes first = int (length w)" by metis
  note align = align_boundary [OF assms(1-4)]
  have finish: "finish_page (int k) (int (length w)) (take m ?v) e =
      \<lparr>up_bytes = take m ?v, up_followingOffset = int (k + m), up_eof = (k + m = length w), up_totalBytes = int (length w)\<rparr>"
    if "valid_utf8 (take m ?v)" "m \<le> length ?v" for m e
    using that complete_valid [OF that] assms(4) by (auto simp: finish_page_def Let_def)
  show ?thesis
  proof (cases "?L < length ?v \<and> completeUtf8PrefixLength (take ?L ?v) < ?L")
    case False
    let ?m = "min ?L (length ?v)"
    have tk: "take ?L ?v = take ?m ?v" by (simp add: min_def)
    have valid: "valid_utf8 (take ?m ?v)"
    proof (cases "?L < length ?v")
      case True
      with False complete_le [of "take ?L ?v"] have "completeUtf8PrefixLength (take ?L ?v) = ?L" by simp
      with complete_valid_prefix [OF v, of ?L] True show ?thesis by (simp add: min_def)
    next
      case False
      with v show ?thesis by (simp add: min_def)
    qed
    have noextra: "\<not> (\<not> oc_eof first \<and> completeUtf8PrefixLength (take ?L ?v) < length (take ?L ?v))"
      using False f(3) assms(4) by (auto simp: min_def split: if_splits)
    have "readUtf8OutputPage read (int k) l s = (Inr (finish_page (int k) (int (length w)) (take ?m ?v) (oc_eof first)), s)"
      using noextra by (auto simp: readUtf8OutputPage_def align f(1,2,4) Let_def tk)
    with valid finish [OF valid] assms(4,5) show ?thesis by (intro exI [of _ ?m]) auto
  next
    case True
    let ?c = "completeUtf8PrefixLength (take ?L ?v)"
    from cut_sequence [OF v] True obtain q where q: "is_sequence q" "prefix q (drop ?c ?v)" "?L < ?c + length q"
      "valid_utf8 (take (?c + length q) ?v)" by blast
    let ?m = "?c + length q"
    have ml: "?m \<le> length ?v" using prefix_length_le [OF q(2)] True unfolding length_drop [of ?c ?v] by linarith
    have q2: "2 \<le> length q" using q(3) True by simp
    have "hd q = ?v ! ?c" using q(2) sequence_lead(1) [OF q(1)] True by (auto simp: prefix_def hd_drop_conv_nth [symmetric])
    then have len: "outputUtf8SequenceLength (take ?L ?v ! ?c) = length q" using sequence_length_lead [OF q(1) q2] True by simp
    have lt: "length (take ?L ?v) = ?L" using True by simp
    define missing where "missing = length q - (?L - ?c)"
    have ms: "0 < missing" "missing \<le> 3" "?L + missing = ?m" using q(3) True sequence_tail(2) [OF q(1)] by (auto simp: missing_def)
    have "k + ?L \<le> length w" "1 \<le> int missing" "int missing \<le> M" using True ms M by auto
    from servesE [OF assms(1) this] obtain extra where
      e: "read (int (k + ?L)) (int missing) s = (Inr extra, s)"
        "from_base64 (oc_dataBase64 extra) = take missing (drop (k + ?L) w)" by (metis nat_int)
    have app: "take ?L ?v @ take missing (drop (k + ?L) w) = take ?m ?v"
      unfolding ms(3) [symmetric] take_add by (simp add: add.commute)
    have ne: "\<not> oc_eof first" using f(3) True assms(4) by (auto simp: min_def)
    have off: "int k + int (length (take ?L ?v)) = int (k + ?L)" using lt by simp
    have "readUtf8OutputPage read (int k) l s = (Inr (finish_page (int k) (int (length w)) (take ?m ?v) (oc_eof extra)), s)"
      unfolding readUtf8OutputPage_def align f(1) prod.case sum.case Let_def f(2,4) len off
      using ne True ms(1) e(1) app e(2) unfolding lt missing_def [symmetric] by simp
    with finish [OF q(4) ml] q(4) ml ms assms(4,5) True show ?thesis by (intro exI [of _ ?m]) auto
  qed
qed


section \<open>Cursors\<close>

lemma ascii_text_cursor: "0 \<le> offset \<Longrightarrow> ascii (text_cursor_json r stream offset)"
proof -
  assume off: "0 \<le> offset"
  have "ascii (outputTextCursorBinding r stream offset)"
    unfolding outputTextCursorBinding_def ascii_def list_all_iff
  proof
    fix c assume "c \<in> set (take 22 (base64url (sha256 (buffer_from
       (''agent-ssh-output-text-cursor-v1'' @ [nul_char] @ r @ [nul_char] @ stream_name stream @ [nul_char] @ show_int offset)))))"
    then have "base64url_char c" by (blast dest: in_set_takeD base64url_chars)
    then show "c \<le> CHR 0x7F" by (auto simp: base64url_char_def is_alnum_def is_alpha_def char_code_simps less_eq_char_def)
  qed
  moreover have "ascii [dquote_char]" "ascii ''{''" "ascii ''v''" "ascii '':1,''" "ascii ''o''" "ascii '':''" "ascii '',''" "ascii ''b''" "ascii ''}''"
    by code_simp+
  ultimately show ?thesis unfolding text_cursor_json_def ascii_append using ascii_show_int [OF off] by blast
qed

definition cursor_object :: "string \<Rightarrow> out_stream \<Rightarrow> int \<Rightarrow> json" where
  "cursor_object r stream offset =
     JObject [(''v'', JInt 1), (''o'', JInt offset), (''b'', JString (outputTextCursorBinding r stream offset))]"

lemma text_cursor_roundtrip:
  assumes "parse (text_cursor_json r stream offset) = Some (cursor_object r stream offset)" "0 \<le> offset" "is_safe_integer offset"
  shows "decodeOutputTextCursor parse (encodeOutputTextCursor r stream offset) r stream = Inr offset"
proof -
  have "map char_of_byte (utf8_decode (from_base64 (encodeOutputTextCursor r stream offset))) = text_cursor_json r stream offset"
    unfolding encodeOutputTextCursor_def from_base64_base64url
    using assms(2) by (intro ascii_roundtrip ascii_text_cursor)
  moreover have "join_with '','' (sort [''v'', ''o'', ''b'']) = ''b,o,v''" by code_simp
  ultimately show ?thesis using assms by (simp add: decodeOutputTextCursor_def cursor_object_def)
qed

section \<open>Following the text of a retained output\<close>

text \<open>\<open>JSON.parse\<close> reads the text of a cursor as the object it was printed from.\<close>

definition parses_cursors :: "(string \<Rightarrow> json option) \<Rightarrow> string \<Rightarrow> out_stream \<Rightarrow> nat \<Rightarrow> bool" where
  "parses_cursors parse r stream n \<longleftrightarrow>
     (\<forall>offset \<le> n. parse (text_cursor_json r stream (int offset)) = Some (cursor_object r stream (int offset)))"

definition text_request :: "string \<Rightarrow> out_stream \<Rightarrow> int \<Rightarrow> nat \<Rightarrow> read_text_params" where
  "text_request r stream limit offset =
     \<lparr>rx_outputRef = r, rx_stream = stream, rx_offset = None,
      rx_cursor = (if offset = 0 then None else Some (encodeOutputTextCursor r stream (int offset))), rx_limit = limit\<rparr>"

definition text_page ::
  "(string \<Rightarrow> json option) \<times> int \<times> output_store \<times> string \<times> out_stream \<Rightarrow> nat \<Rightarrow> nat \<Rightarrow> bytes" where
  "text_page e limit offset =
     (case e of (parse, now, s, r, stream) \<Rightarrow>
      (case fst (readOutputText parse (os_read parse no_faults now r stream)
           (text_request r stream (min (int limit) (os_maxReadBytes s)) offset) s) of
         Inl _ \<Rightarrow> [] | Inr res \<Rightarrow> rr_text res))"

definition output_content :: "(string \<Rightarrow> json option) \<times> int \<times> output_store \<times> string \<times> out_stream \<Rightarrow> bytes" where
  "output_content e = (case e of (parse, now, s, r, stream) \<Rightarrow> file_content (os_fs s) r (stream_file stream))"

definition readable_text :: "(string \<Rightarrow> json option) \<times> int \<times> output_store \<times> string \<times> out_stream \<Rightarrow> bool" where
  "readable_text e \<longleftrightarrow>
     (case e of (parse, now, s, r, stream) \<Rightarrow>
        readable parse now s r stream \<and> 7 \<le> os_maxReadBytes s \<and> valid_utf8 (output_content e)
        \<and> parses_cursors parse r stream (length (output_content e)))"

lemma store_serves:
  assumes "readable parse now s r stream" "7 \<le> os_maxReadBytes s"
  shows "serves (os_read parse no_faults now r stream) s (file_content (os_fs s) r (stream_file stream)) (os_maxReadBytes s)"
  unfolding serves_def
proof (intro conjI allI impI)
  fix off l
  assume "off \<le> length (file_content (os_fs s) r (stream_file stream))" "1 \<le> l" "l \<le> os_maxReadBytes s"
  from read_page [OF assms(1) this(2,3,1)]
  show "\<exists>chunk. os_read parse no_faults now r stream (int off) l s = (Inr chunk, s)
      \<and> from_base64 (oc_dataBase64 chunk) = take (nat l) (drop off (file_content (os_fs s) r (stream_file stream)))
      \<and> oc_eof chunk = (off + length (take (nat l) (drop off (file_content (os_fs s) r (stream_file stream))))
           = length (file_content (os_fs s) r (stream_file stream)))
      \<and> oc_totalBytes chunk = int (length (file_content (os_fs s) r (stream_file stream)))"
    by (simp add: Let_def from_base64_base64)
qed (rule assms(2))

lemma readable_length_safe:
  assumes "readable parse now s r stream"
  shows "is_safe_integer (int (length (file_content (os_fs s) r (stream_file stream))))"
  using assms canonical_length(1) by (fastforce simp: readable_def split: sum.splits option.splits)

lemma text_page_ok:
  assumes "readable_text e" "e = (parse, now, s, r, stream)" "1 \<le> limit" "limit \<le> os_maxReadBytes s"
    and "offset \<le> length (output_content e)" "valid_utf8 (take offset (output_content e))"
  shows "\<exists>m. fst (readOutputText parse (os_read parse no_faults now r stream) (text_request r stream limit offset) s) =
      Inr \<lparr>rr_text = take m (drop offset (output_content e)), rr_bytesRead = m,
        rr_next = NextCursor (if offset + m = length (output_content e) then None
          else Some (encodeOutputTextCursor r stream (int (offset + m)))),
        rr_eof = (offset + m = length (output_content e)), rr_totalBytes = int (length (output_content e)),
        rr_hadDecodingErrors = False\<rparr>
    \<and> valid_utf8 (take m (drop offset (output_content e))) \<and> offset + m \<le> length (output_content e)
    \<and> (offset < length (output_content e) \<longrightarrow> 0 < m)"
proof -
  let ?w = "output_content e" and ?rd = "os_read parse no_faults now r stream"
  have w: "?w = file_content (os_fs s) r (stream_file stream)" by (simp add: assms(2) output_content_def)
  have rd: "readable parse now s r stream" "7 \<le> os_maxReadBytes s" "valid_utf8 ?w" "parses_cursors parse r stream (length ?w)"
    using assms(1) by (auto simp: readable_text_def assms(2) split: prod.splits)
  have sv: "serves ?rd s ?w (os_maxReadBytes s)" unfolding w by (rule store_serves [OF rd(1,2)])
  from page_of_text [OF sv rd(3) assms(6,5,3,4)] obtain m where
    m: "readUtf8OutputPage ?rd (int offset) limit s =
      (Inr \<lparr>up_bytes = take m (drop offset ?w), up_followingOffset = int (offset + m), up_eof = (offset + m = length ?w),
            up_totalBytes = int (length ?w)\<rparr>, s)"
    "valid_utf8 (take m (drop offset ?w))" "offset + m \<le> length ?w" "offset < length ?w \<longrightarrow> 0 < m" by blast
  have "is_safe_integer (int offset)"
    using readable_length_safe [OF rd(1)] assms(5) unfolding w [symmetric] by (simp add: is_safe_integer_def)
  then have dec: "decodeOutputTextCursor parse (encodeOutputTextCursor r stream (int offset)) r stream = Inr (int offset)"
    using rd(4) assms(5) by (intro text_cursor_roundtrip) (simp_all add: parses_cursors_def)
  have len: "length (take m (drop offset ?w)) = m" using m(3) by simp
  have "fst (readOutputText parse ?rd (text_request r stream limit offset) s) =
      Inr \<lparr>rr_text = take m (drop offset ?w), rr_bytesRead = m,
        rr_next = NextCursor (if offset + m = length ?w then None else Some (encodeOutputTextCursor r stream (int (offset + m)))),
        rr_eof = (offset + m = length ?w), rr_totalBytes = int (length ?w), rr_hadDecodingErrors = False\<rparr>"
    using dec m(1,2) len
    by (cases "offset = 0") (simp_all add: readOutputText_def text_request_def decode_valid)
  with m(2-4) show ?thesis by blast
qed

interpretation text_output: aligned_source readable_text output_content "\<lambda>_. 0"
  "\<lambda>e offset. valid_utf8 (take offset (output_content e))" text_page
proof -
  have page: "\<exists>m. text_page e limit offset = take m (drop offset (output_content e)) \<and> offset + m \<le> length (output_content e)
      \<and> valid_utf8 (take m (drop offset (output_content e))) \<and> (offset < length (output_content e) \<longrightarrow> 0 < m)"
    if "readable_text e" "0 < limit" "offset \<le> length (output_content e)" "valid_utf8 (take offset (output_content e))" for e limit offset
  proof -
    obtain parse now s r stream where e: "e = (parse, now, s, r, stream)" by (cases e)
    have "1 \<le> min (int limit) (os_maxReadBytes s)" "min (int limit) (os_maxReadBytes s) \<le> os_maxReadBytes s"
      using that(1,2) by (auto simp: readable_text_def e)
    from text_page_ok [OF that(1) e this that(3,4)] show ?thesis by (auto simp: text_page_def e)
  qed
  show "aligned_source readable_text output_content (\<lambda>_. 0) (\<lambda>e offset. valid_utf8 (take offset (output_content e))) text_page"
  proof
    fix e :: "(string \<Rightarrow> json option) \<times> int \<times> output_store \<times> string \<times> out_stream" and limit offset :: nat
    let ?w = "output_content e"
    assume a: "readable_text e" "0 < limit" "valid_utf8 (take offset ?w)"
    {
      assume "offset \<le> length ?w"
      from page [OF a(1,2) this a(3)] obtain m where m: "text_page e limit offset = take m (drop offset ?w)"
        "offset + m \<le> length ?w" "valid_utf8 (take m (drop offset ?w))" by blast
      then have l: "length (text_page e limit offset) = m" by simp
      show "text_page e limit offset = take (length (text_page e limit offset)) (drop offset ?w)" using m(1) l by simp
      show "valid_utf8 (take (offset + length (text_page e limit offset)) ?w)"
        unfolding l take_add using valid_append [OF a(3), of "take m (drop offset ?w)"] m(3) by simp
    next
      assume "offset < length ?w"
      with page [OF a(1,2) _ a(3)] show "text_page e limit offset \<noteq> []" by fastforce
    }
  qed
qed

text \<open>
  C25: A client that reads the text of a retained output and follows the cursors gets exactly the
  stored text, when that is well-formed UTF-8, whatever page size within the limit it asks for:
  no character is cut in two, no page reports a decoding error, every page but one at the
  end holds at least one character, and the cursor handed out continues where the page ended.\<close>

theorem text_output_reads_back:
  assumes "readable_text (parse, now, s, r, stream)" "1 \<le> limit" "limit \<le> os_maxReadBytes s"
    and "w = file_content (os_fs s) r (stream_file stream)" "length w \<le> requests"
  shows "follow_pages (\<lambda>i. case fst (readOutputText parse (os_read parse no_faults now r stream)
             (text_request r stream limit i) s) of Inl _ \<Rightarrow> [] | Inr res \<Rightarrow> rr_text res) requests 0 = w
    \<and> (\<forall>i \<le> length w. valid_utf8 (take i w) \<longrightarrow>
         (\<exists>res. fst (readOutputText parse (os_read parse no_faults now r stream) (text_request r stream limit i) s) = Inr res
            \<and> \<not> rr_hadDecodingErrors res \<and> valid_utf8 (rr_text res) \<and> (i < length w \<longrightarrow> 0 < rr_bytesRead res)
            \<and> rr_next res = NextCursor (if rr_eof res then None else Some (encodeOutputTextCursor r stream (int (i + rr_bytesRead res))))
            \<and> (rr_eof res \<longleftrightarrow> i + rr_bytesRead res = length w)))"
proof
  let ?e = "(parse, now, s, r, stream)"
  have c: "output_content ?e = w" by (simp add: output_content_def assms(4))
  have "follow_pages (text_page ?e (nat limit)) requests 0 = drop 0 (output_content ?e)"
    using assms(1-3,5) c by (intro text_output.follow_all) simp_all
  moreover have "min (int (nat limit)) (os_maxReadBytes s) = limit" using assms(2,3) by simp
  ultimately show "follow_pages (\<lambda>i. case fst (readOutputText parse (os_read parse no_faults now r stream)
             (text_request r stream limit i) s) of Inl _ \<Rightarrow> [] | Inr res \<Rightarrow> rr_text res) requests 0 = w"
    by (simp add: text_page_def [abs_def] c)
next
  let ?e = "(parse, now, s, r, stream)"
  have c: "output_content ?e = w" by (simp add: output_content_def assms(4))
  show "\<forall>i \<le> length w. valid_utf8 (take i w) \<longrightarrow>
         (\<exists>res. fst (readOutputText parse (os_read parse no_faults now r stream) (text_request r stream limit i) s) = Inr res
            \<and> \<not> rr_hadDecodingErrors res \<and> valid_utf8 (rr_text res) \<and> (i < length w \<longrightarrow> 0 < rr_bytesRead res)
            \<and> rr_next res = NextCursor (if rr_eof res then None else Some (encodeOutputTextCursor r stream (int (i + rr_bytesRead res))))
            \<and> (rr_eof res \<longleftrightarrow> i + rr_bytesRead res = length w))"
  proof (intro allI impI)
    fix i assume "i \<le> length w" "valid_utf8 (take i w)"
    with text_page_ok [OF assms(1) refl assms(2,3), of i] c
    show "\<exists>res. fst (readOutputText parse (os_read parse no_faults now r stream) (text_request r stream limit i) s) = Inr res
            \<and> \<not> rr_hadDecodingErrors res \<and> valid_utf8 (rr_text res) \<and> (i < length w \<longrightarrow> 0 < rr_bytesRead res)
            \<and> rr_next res = NextCursor (if rr_eof res then None else Some (encodeOutputTextCursor r stream (int (i + rr_bytesRead res))))
            \<and> (rr_eof res \<longleftrightarrow> i + rr_bytesRead res = length w)" by fastforce
  qed
qed


lemma read_nat_snoc: "read_nat acc (xs @ [c]) = 10 * read_nat acc xs + (of_char c - 48)"
  by (induction xs arbitrary: acc) simp_all

lemma read_show_nat: "read_nat 0 (show_nat n) = n"
proof (induction n rule: show_nat.induct)
  case (1 n)
  have d: "(of_char (digit_char k) :: nat) - 48 = k" if "k < 10" for k
    using that by (simp add: digit_char_def)
  show ?case
  proof (cases "n < 10")
    case True
    then show ?thesis using d [of n] by (subst show_nat.simps) simp
  next
    case False
    with 1 have "read_nat 0 (show_nat (n div 10)) = n div 10" by simp
    with False show ?thesis using d [of "n mod 10"]
      by (subst show_nat.simps) (simp add: read_nat_snoc)
  qed
qed

lemma text_cursor_inject:
  assumes "text_cursor_json r stream (int a) = text_cursor_json r stream (int b)"
  shows "a = b"
proof -
  have tw: "takeWhile is_digit (show_nat n @ CHR '','' # t) = show_nat n" for n t
  proof -
    have "\<not> is_digit (CHR '','')" by code_simp
    then show ?thesis using show_nat_digits [of _ n] by (simp add: takeWhile_append2)
  qed
  from assms have "\<exists>s t. show_nat a @ CHR '','' # s = show_nat b @ CHR '','' # t"
    by (auto simp: text_cursor_json_def show_int_def)
  then obtain s t where "show_nat a @ CHR '','' # s = show_nat b @ CHR '','' # t" by blast
  then have "show_nat a = show_nat b" using tw by metis
  then show ?thesis using read_show_nat by metis
qed

definition example_text_parse :: "string \<Rightarrow> json option" where
  "example_text_parse txt =
     (if txt = metadata_text example_metadata then Some (metadata_json example_metadata)
      else map_option (\<lambda>n. cursor_object example_ref Stdout (int n))
        (find (\<lambda>n. txt = text_cursor_json example_ref Stdout (int n)) [0..<7]))"

lemma readable_more_parse:
  assumes "readable parse now s r stream" "\<And>t v. parse t = Some v \<Longrightarrow> parse' t = Some v"
  shows "readable parse' now s r stream"
proof -
  have "readMetadataFile parse' no_faults fs r = Inr (Some m)" if "readMetadataFile parse no_faults fs r = Inr (Some m)" for fs m
    using that assms(2) unfolding readMetadataFile_def
    by (auto split: if_splits option.splits fs_entry.splits fs_node.splits io_error.splits)
  with assms(1) show ?thesis by (auto simp: readable_def split: sum.splits option.splits)
qed

lemma example_text_parses: "parses_cursors example_text_parse example_ref Stdout 6"
  unfolding parses_cursors_def
proof (intro allI impI)
  fix n :: nat assume n: "n \<le> 6"
  have "text_cursor_json example_ref Stdout (int n) \<noteq> metadata_text example_metadata"
    by (simp add: text_cursor_json_def metadata_text_def)
  moreover have "find (\<lambda>k. text_cursor_json example_ref Stdout (int n) = text_cursor_json example_ref Stdout (int k)) [0..<7] = Some n"
    using n text_cursor_inject [of example_ref Stdout n] unfolding find_Some_iff by (intro exI [of _ n]) (auto simp del: upt_Suc)
  ultimately show "example_text_parse (text_cursor_json example_ref Stdout (int n)) = Some (cursor_object example_ref Stdout (int n))"
    by (simp add: example_text_parse_def del: upt_Suc)
qed

theorem text_output_reads_back_witness:
  "follow_pages (\<lambda>i. case fst (readOutputText example_text_parse (os_read example_text_parse no_faults 7 example_ref Stdout)
       (text_request example_ref Stdout 2 i) example_published) of Inl _ \<Rightarrow> [] | Inr res \<Rightarrow> rr_text res) 6 0 = [1, 2, 3, 4, 5, 6]"
proof -
  let ?e = "(example_text_parse, 7, example_published, example_ref, Stdout)"
  have r: "readable example_parse 7 example_published example_ref Stdout" by code_simp
  have r': "readable example_text_parse 7 example_published example_ref Stdout"
    by (rule readable_more_parse [OF r]) (auto simp: example_parse_def example_text_parse_def split: if_splits)
  have f: "file_content (os_fs example_published) example_ref (stream_file Stdout) = [1, 2, 3, 4, 5, 6]" by code_simp
  have l: "7 \<le> os_maxReadBytes example_published" "(2::int) \<le> os_maxReadBytes example_published" by code_simp+
  have "valid_utf8 [1, 2, 3, 4, 5, 6]" by code_simp
  then have "readable_text ?e" using r' l f example_text_parses by (simp add: readable_text_def output_content_def numeral_eq_Suc)
  from text_output_reads_back [OF this _ l(2) f [symmetric], of 6] show ?thesis by simp
qed

end
