(* ===== verification/TransferPaths.thy ===== *)
theory TransferPaths
  imports Protocol
begin

text \<open>
  \<^verbatim>\<open>src/src/core/transfer-paths.ts\<close>: the checks and normal forms of local and remote transfer paths,
  the quoting of paths in an SFTP batch, and the resolution of a local path below a
  configured root.

  \<open>win32\<close> says whether the gateway runs on Windows. The functions of \<^verbatim>\<open>node:path\<close> that differ
  between platforms are the fields of \<open>path_api\<close>; the POSIX variant is written out. \<open>lstat\<close> and
  \<open>realpath\<close> are arguments, answering for one state of the file system.
\<close>

section \<open>Path text\<close>

definition MAX_TRANSFER_PATH_BYTES :: nat where "MAX_TRANSFER_PATH_BYTES = 4096"

definition MAX_MANAGED_STDIN_BYTES :: nat where "MAX_MANAGED_STDIN_BYTES = 1048576"

definition invalidPath :: "string \<Rightarrow> thrown" where
  "invalidPath message = TransferPathError InvalidPath message"

definition validatePathText :: "string \<Rightarrow> thrown + unit" where
  "validatePathText val =
     guard_else (\<not> (val = [] \<or> length val > MAX_TRANSFER_PATH_BYTES \<or> list_ex is_control val))
       (invalidPath ''Transfer path must be non-empty, valid text of at most 4096 UTF-8 bytes'')"

definition is_sep :: "char \<Rightarrow> bool" where
  "is_sep c \<longleftrightarrow> c = backslash \<or> c = CHR ''/''"

definition starts_with :: "string \<Rightarrow> string \<Rightarrow> bool" where
  "starts_with s p = prefix p s"

definition ends_with_char :: "string \<Rightarrow> char \<Rightarrow> bool" where
  "ends_with_char s c \<longleftrightarrow> s \<noteq> [] \<and> last s = c"

text \<open>\<open>path.posix.isAbsolute\<close> and \<open>path.win32.isAbsolute\<close>.\<close>

definition posix_isAbsolute :: "string \<Rightarrow> bool" where
  "posix_isAbsolute s = (case s of [] \<Rightarrow> False | c # _ \<Rightarrow> c = CHR ''/'')"

definition win32_isAbsolute :: "string \<Rightarrow> bool" where
  "win32_isAbsolute s =
     (case s of
        [] \<Rightarrow> False
      | a # s1 \<Rightarrow> is_sep a \<or> (case s1 of b # c # _ \<Rightarrow> is_alpha a \<and> b = CHR '':'' \<and> is_sep c | _ \<Rightarrow> False))"

definition path_isAbsolute :: "bool \<Rightarrow> string \<Rightarrow> bool" where
  "path_isAbsolute win32 s = (if win32 then win32_isAbsolute s else posix_isAbsolute s)"

text \<open>
  \<open>split(/[\\/]+/u).filter(nonempty)\<close>, and the same for a single separator: runs of separators
  only make empty pieces, which the filter drops.
\<close>

definition segments_of :: "(char \<Rightarrow> bool) \<Rightarrow> string \<Rightarrow> string list" where
  "segments_of sep s = filter (\<lambda>x. x \<noteq> []) (split_on sep s)"

section \<open>Segments\<close>

definition windows_reserved_char :: "char \<Rightarrow> bool" where
  "windows_reserved_char c \<longleftrightarrow> c \<in> set ''<>:|?*'' \<or> c = dquote_char"

definition windows_devices :: "string list" where
  "windows_devices = [''CON'', ''PRN'', ''AUX'', ''NUL'']
     @ map (\<lambda>d. ''COM'' @ [digit_char d]) [1..<10] @ map (\<lambda>d. ''LPT'' @ [digit_char d]) [1..<10]"

text \<open>
  \<open>segment.split(".", 1)[0].toUpperCase()\<close>. No character beyond ASCII has an upper case that
  could complete one of the device names.
\<close>

definition device_name :: "string \<Rightarrow> string" where
  "device_name segment = to_upper (takeWhile (\<lambda>c. c \<noteq> CHR ''.'') segment)"

definition validateWindowsSegment :: "string \<Rightarrow> thrown + unit" where
  "validateWindowsSegment segment =
     and_then (guard_else (\<not> (list_ex windows_reserved_char segment \<or> ends_with_char segment (CHR ''.'')
         \<or> ends_with_char segment (CHR '' ''))) (invalidPath ''Windows path contains an invalid segment'')) (\<lambda>_.
     guard_else (device_name segment \<notin> set windows_devices)
       (invalidPath ''Windows path contains a reserved device name''))"

text \<open>The loop over the segments; \<open>windows\<close> adds the Windows rules.\<close>

fun check_segments :: "string \<Rightarrow> bool \<Rightarrow> string list \<Rightarrow> thrown + unit" where
  "check_segments message windows [] = Inr ()"
| "check_segments message windows (segment # segments) =
     (if segment = ''.'' \<or> segment = ''..'' then Inl (invalidPath message)
      else and_then (if windows then validateWindowsSegment segment else Inr ()) (\<lambda>_.
        check_segments message windows segments))"

section \<open>Local paths\<close>

definition normalizeLocalTransferRelativePath :: "bool \<Rightarrow> string \<Rightarrow> thrown + string" where
  "normalizeLocalTransferRelativePath win32 val =
     and_then (validatePathText val) (\<lambda>_.
     and_then (guard_else (\<not> (path_isAbsolute win32 val \<or> win32_isAbsolute val
         \<or> starts_with val [backslash, backslash] \<or> starts_with val ''//''))
         (invalidPath ''Local transfer paths must be relative to a configured root'')) (\<lambda>_.
     if val = ''.'' then Inr ''.''
     else
       let segments = segments_of is_sep val in
       and_then (guard_else (segments \<noteq> []) (invalidPath ''Local transfer path must not be empty'')) (\<lambda>_.
       and_then (check_segments ''Local transfer path must not contain traversal segments'' win32 segments) (\<lambda>_.
       Inr (join_with ''/'' segments)))))"

section \<open>Remote paths\<close>

text \<open>Line terminators that \<open>.\<close> of a regular expression does not match and \<open>validatePathText\<close> lets pass.\<close>

fun has_line_separator :: "string \<Rightarrow> bool" where
  "has_line_separator (a # b # c # s) =
     ((a = CHR 0xE2 \<and> b = CHR 0x80 \<and> (c = CHR 0xA8 \<or> c = CHR 0xA9)) \<or> has_line_separator (b # c # s))"
| "has_line_separator _ = False"

text \<open>The match of \<open>/^([A-Za-z]):[\\/](.*)$/u\<close>: drive letter and rest.\<close>

definition drive_match :: "string \<Rightarrow> (char \<times> string) option" where
  "drive_match s =
     (case s of
        a # b # c # rest \<Rightarrow>
          if is_alpha a \<and> b = CHR '':'' \<and> is_sep c \<and> \<not> has_line_separator rest then Some (a, rest) else None
      | _ \<Rightarrow> None)"

definition normalizeWindowsRemotePath :: "string \<Rightarrow> thrown + string" where
  "normalizeWindowsRemotePath val =
     (if starts_with val [backslash, backslash] \<or> starts_with val ''//''
        \<or> starts_with val [backslash, backslash, CHR ''?'', backslash]
        \<or> starts_with val [backslash, backslash, CHR ''.'', backslash]
      then Inl (invalidPath ''Remote Windows paths must not use UNC or device syntax'')
      else case drive_match val of
        None \<Rightarrow> Inl (invalidPath ''Remote Windows paths must be drive-absolute'')
      | Some (letter, rest) \<Rightarrow>
          let drive = upper_char letter; segments = segments_of is_sep rest in
          and_then (check_segments ''Remote path must not contain traversal segments'' True segments) (\<lambda>_.
          Inr ([drive] @ '':/'' @ join_with ''/'' segments)))"

definition normalizeRemoteTransferPath :: "platform \<Rightarrow> string \<Rightarrow> thrown + string" where
  "normalizeRemoteTransferPath platform val =
     and_then (validatePathText val) (\<lambda>_.
     if platform = Windows then normalizeWindowsRemotePath val
     else if \<not> starts_with val ''/'' \<or> starts_with val ''//''
     then Inl (invalidPath ''Remote POSIX paths must be absolute'')
     else
       let segments = segments_of (\<lambda>c. c = CHR ''/'') val in
       and_then (check_segments ''Remote path must not contain traversal segments'' False segments) (\<lambda>_.
       Inr (''/'' @ join_with ''/'' segments)))"

section \<open>SFTP batches\<close>

definition sftp_special :: "char \<Rightarrow> bool" where
  "sftp_special c \<longleftrightarrow> c = backslash \<or> c = dquote_char \<or> c = CHR ''*'' \<or> c = CHR ''?'' \<or> c = CHR ''['' \<or> c = CHR '']''"

definition sftp_escape :: "string \<Rightarrow> string" where
  "sftp_escape s = concat (map (\<lambda>c. if sftp_special c then [backslash, c] else [c]) s)"

definition quoteSftpBatchPath :: "string \<Rightarrow> thrown + string" where
  "quoteSftpBatchPath val =
     and_then (validatePathText val) (\<lambda>_. Inr ([dquote_char] @ sftp_escape val @ [dquote_char]))"

datatype remote_operation = Mkdir | Rm | Rmdir

datatype sftp_batch_command =
    SftpGet (resume: bool) (remotePath: string) (localPath: string)
  | SftpPut (resume: bool) (localPath: string) (remotePath: string)
  | SftpRemote remote_operation (remotePath: string) (ignoreFailure: "bool option")
  | SftpRename (sourceRemotePath: string) (destinationRemotePath: string)

definition requireAbsoluteLocalBatchPath :: "bool \<Rightarrow> string \<Rightarrow> thrown + unit" where
  "requireAbsoluteLocalBatchPath win32 val =
     and_then (validatePathText val) (\<lambda>_.
     guard_else (path_isAbsolute win32 val \<or> win32_isAbsolute val)
       (invalidPath ''SFTP local batch paths must be absolute''))"

text \<open>\<open>/^[A-Za-z]:\//u\<close>\<close>

definition drive_slash :: "string \<Rightarrow> bool" where
  "drive_slash s = (case s of a # b # c # _ \<Rightarrow> is_alpha a \<and> b = CHR '':'' \<and> c = CHR ''/'' | _ \<Rightarrow> False)"

definition requireAbsoluteRemoteBatchPath :: "string \<Rightarrow> thrown + unit" where
  "requireAbsoluteRemoteBatchPath val =
     and_then (validatePathText val) (\<lambda>_.
     and_then (if starts_with val ''/'' then normalizeRemoteTransferPath Linux val
               else if drive_slash val then normalizeRemoteTransferPath Windows val
               else Inl (invalidPath ''SFTP remote batch paths must be normalized and absolute'')) (\<lambda>normalized.
     guard_else (normalized = val) (invalidPath ''SFTP remote batch paths must use their canonical form'')))"

definition remote_operation_name :: "remote_operation \<Rightarrow> string" where
  "remote_operation_name op = (case op of Mkdir \<Rightarrow> ''mkdir'' | Rm \<Rightarrow> ''rm'' | Rmdir \<Rightarrow> ''rmdir'')"

definition two_paths :: "string \<Rightarrow> string \<Rightarrow> string \<Rightarrow> thrown + string" where
  "two_paths head first second =
     and_then (quoteSftpBatchPath first) (\<lambda>a.
     and_then (quoteSftpBatchPath second) (\<lambda>b. Inr (head @ '' '' @ a @ '' '' @ b)))"

definition renderSftpBatchCommand :: "bool \<Rightarrow> sftp_batch_command \<Rightarrow> thrown + string" where
  "renderSftpBatchCommand win32 command =
     (case command of
        SftpGet again remote local \<Rightarrow>
          and_then (requireAbsoluteRemoteBatchPath remote) (\<lambda>_.
          and_then (requireAbsoluteLocalBatchPath win32 local) (\<lambda>_.
          two_paths (if again then ''@reget'' else ''@get'') remote local))
      | SftpPut again local remote \<Rightarrow>
          and_then (requireAbsoluteLocalBatchPath win32 local) (\<lambda>_.
          and_then (requireAbsoluteRemoteBatchPath remote) (\<lambda>_.
          two_paths (if again then ''@reput'' else ''@put'') local remote))
      | SftpRemote op remote ignore \<Rightarrow>
          and_then (requireAbsoluteRemoteBatchPath remote) (\<lambda>_.
          and_then (quoteSftpBatchPath remote) (\<lambda>a.
          Inr ((if ignore = Some True then ''-@'' else ''@'') @ remote_operation_name op @ '' '' @ a)))
      | SftpRename source destination \<Rightarrow>
          and_then (requireAbsoluteRemoteBatchPath source) (\<lambda>_.
          and_then (requireAbsoluteRemoteBatchPath destination) (\<lambda>_.
          two_paths ''@rename'' source destination)))"

fun render_all :: "bool \<Rightarrow> sftp_batch_command list \<Rightarrow> thrown + string list" where
  "render_all win32 [] = Inr []"
| "render_all win32 (command # commands) =
     and_then (renderSftpBatchCommand win32 command) (\<lambda>line.
     and_then (render_all win32 commands) (\<lambda>lines. Inr (line # lines)))"

definition buildSftpBatch :: "bool \<Rightarrow> sftp_batch_command list \<Rightarrow> thrown + bytes" where
  "buildSftpBatch win32 commands =
     and_then (guard_else (\<not> (commands = [] \<or> length commands > 4096))
       (RangeError ''SFTP batch must contain from 1 through 4096 commands'')) (\<lambda>_.
     and_then (render_all win32 commands) (\<lambda>lines.
     let batch = buffer_from (join_with [newline] (lines @ [''@quit'']) @ [newline]) in
     and_then (guard_else (\<not> length batch > MAX_MANAGED_STDIN_BYTES)
       (RangeError (''SFTP batch must not exceed 1048576 bytes''))) (\<lambda>_.
     Inr batch)))"

section \<open>Resolution below a root\<close>

record path_api =
  pa_win32 :: bool
  pa_sep :: char
  pa_resolve :: "string \<Rightarrow> string list \<Rightarrow> string" \<comment> \<open>an absolute path and further segments\<close>
  pa_join :: "string \<Rightarrow> string \<Rightarrow> string"
  pa_relative :: "string \<Rightarrow> string \<Rightarrow> string"
  pa_root :: "string \<Rightarrow> string" \<comment> \<open>\<open>path.parse(p).root\<close>\<close>

datatype file_stats = StFile int | StDirectory | StSymlink | StOther

datatype lstat_result = Found file_stats | NotFound | LstatError

datatype entry_kind = KindFile | KindDirectory

record resolved_path =
  rp_rootPath :: string
  rp_absolutePath :: string
  rp_relativePath :: string
  rp_exists :: bool
  rp_kind :: "entry_kind option"
  rp_size :: "int option"

definition splitUnrestrictedLocalTransferPath :: "path_api \<Rightarrow> string \<Rightarrow> thrown + (string \<times> string)" where
  "splitUnrestrictedLocalTransferPath api val =
     and_then (validatePathText val) (\<lambda>_.
     and_then (guard_else (\<not> (\<not> path_isAbsolute (pa_win32 api) val \<or> pa_win32 api
         \<and> \<not> (case val of a # b # c # _ \<Rightarrow> is_alpha a \<and> b = CHR '':'' \<and> is_sep c | _ \<Rightarrow> False)))
         (invalidPath ''Full access local transfer paths must be absolute'')) (\<lambda>_.
     and_then (guard_else (\<not> (starts_with val [backslash, backslash] \<or> starts_with val ''//''))
         (invalidPath ''Full access local transfer paths must not use network or device syntax'')) (\<lambda>_.
     let absolutePath = pa_resolve api val []; rootPath = pa_root api absolutePath in
     and_then (guard_else (rootPath \<noteq> []) (invalidPath ''Full access local transfer path has no filesystem root'')) (\<lambda>_.
     let relative = pa_relative api rootPath absolutePath in
     and_then (if relative = [] then Inr ''.'' else normalizeLocalTransferRelativePath (pa_win32 api) relative) (\<lambda>relativePath.
     Inr (rootPath, relativePath))))))"

definition validateLocalRoot :: "path_api \<Rightarrow> string \<Rightarrow> thrown + unit" where
  "validateLocalRoot api val =
     and_then (guard_else (path_isAbsolute (pa_win32 api) val)
       (invalidPath ''Configured local transfer root must be absolute'')) (\<lambda>_.
     validatePathText val)"

definition assertContained :: "path_api \<Rightarrow> string \<Rightarrow> string \<Rightarrow> thrown + unit" where
  "assertContained api root candidate =
     (let relative = pa_relative api root candidate in
      guard_else (relative = [] \<or> (\<not> path_isAbsolute (pa_win32 api) relative \<and> relative \<noteq> ''..''
          \<and> \<not> starts_with relative (''..'' @ [pa_sep api])))
        (TransferPathError OutsideRoot ''Local transfer path escapes its configured root''))"

definition classifyEntry :: "file_stats \<Rightarrow> thrown + entry_kind" where
  "classifyEntry entry =
     (case entry of
        StFile _ \<Rightarrow> Inr KindFile
      | StDirectory \<Rightarrow> Inr KindDirectory
      | _ \<Rightarrow> Inl (TransferPathError UnsafeFileType ''Local transfer path must be a regular file or directory''))"

definition uninspectable :: thrown where
  "uninspectable = TransferPathError UnsafeFileType ''Local transfer path could not be inspected safely''"

definition safeLstat :: "(string \<Rightarrow> lstat_result) \<Rightarrow> string \<Rightarrow> transfer_path_code \<Rightarrow> thrown + file_stats" where
  "safeLstat lstat val notFoundCode =
     (case lstat val of
        Found st \<Rightarrow> Inr st
      | NotFound \<Rightarrow> Inl (TransferPathError notFoundCode ''Local transfer path was not found'')
      | LstatError \<Rightarrow> Inl uninspectable)"

text \<open>
  The walk down the segments. The result is the entry of the last segment, or \<open>None\<close> when one
  of them is missing.
\<close>

fun walk :: "path_api \<Rightarrow> (string \<Rightarrow> lstat_result) \<Rightarrow> string \<Rightarrow> string list \<Rightarrow> file_stats \<Rightarrow> thrown + file_stats option" where
  "walk api lstat current [] leaf = Inr (Some leaf)"
| "walk api lstat current (segment # segments) leaf =
     (let next = pa_join api current segment in
      case lstat next of
        NotFound \<Rightarrow> Inr None
      | LstatError \<Rightarrow> Inl uninspectable
      | Found st \<Rightarrow>
          if st = StSymlink
          then Inl (TransferPathError UnsafeLink ''Local transfer path must not contain symbolic links or reparse points'')
          else if segments \<noteq> [] \<and> st \<noteq> StDirectory
          then Inl (TransferPathError UnsafeFileType ''Local transfer path contains a non-directory ancestor'')
          else walk api lstat next segments st)"

definition kind_name :: "entry_kind \<Rightarrow> string" where
  "kind_name kind = (case kind of KindFile \<Rightarrow> ''file'' | KindDirectory \<Rightarrow> ''directory'')"

definition wrong_kind :: "entry_kind \<Rightarrow> thrown" where
  "wrong_kind expected = TransferPathError WrongEntryType (''Local transfer path must resolve to a '' @ kind_name expected)"

text \<open>The checks on an existing entry, after the walk.\<close>

definition resolve_existing ::
  "path_api \<Rightarrow> (string \<Rightarrow> lstat_result) \<Rightarrow> (string \<Rightarrow> string option) \<Rightarrow> string \<Rightarrow> string \<Rightarrow> string \<Rightarrow> entry_kind \<Rightarrow> file_stats
    \<Rightarrow> thrown + resolved_path" where
  "resolve_existing api lstat realpath canonicalRoot candidate relative expectedKind leaf =
     and_then (classifyEntry leaf) (\<lambda>kind.
     and_then (guard_else (kind = expectedKind) (wrong_kind expectedKind)) (\<lambda>_.
     and_then (case realpath candidate of
         None \<Rightarrow> Inl (TransferPathError PathNotFound ''Local transfer path could not be resolved'')
       | Some p \<Rightarrow> Inr p) (\<lambda>canonicalCandidate.
     and_then (assertContained api canonicalRoot canonicalCandidate) (\<lambda>_.
     and_then (safeLstat lstat canonicalCandidate PathNotFound) (\<lambda>finalEntry.
     and_then (guard_else (finalEntry \<noteq> StSymlink)
       (TransferPathError UnsafeLink ''Local transfer path must not resolve through a symbolic link'')) (\<lambda>_.
     and_then (classifyEntry finalEntry) (\<lambda>finalKind.
     and_then (guard_else (finalKind = expectedKind) (wrong_kind expectedKind)) (\<lambda>_.
     and_then (guard_else (case finalEntry of StFile n \<Rightarrow> is_safe_integer n \<and> \<not> n < 0 | _ \<Rightarrow> True)
       (TransferPathError UnsafeFileType ''Local transfer file size cannot be represented safely'')) (\<lambda>_.
     Inr \<lparr>rp_rootPath = canonicalRoot, rp_absolutePath = canonicalCandidate, rp_relativePath = relative,
          rp_exists = True, rp_kind = Some finalKind,
          rp_size = (case finalEntry of StFile n \<Rightarrow> Some n | _ \<Rightarrow> None)\<rparr>)))))))))"

definition resolveLocalTransferPath ::
  "path_api \<Rightarrow> (string \<Rightarrow> lstat_result) \<Rightarrow> (string \<Rightarrow> string option) \<Rightarrow> string \<Rightarrow> string \<Rightarrow> entry_kind \<Rightarrow> bool
    \<Rightarrow> thrown + resolved_path" where
  "resolveLocalTransferPath api lstat realpath rootDirectory relativeInput expectedKind mustExist =
     and_then (validateLocalRoot api rootDirectory) (\<lambda>_.
     and_then (normalizeLocalTransferRelativePath (pa_win32 api) relativeInput) (\<lambda>relative.
     let rootLexical = pa_resolve api rootDirectory [] in
     and_then (safeLstat lstat rootLexical PathNotFound) (\<lambda>rootEntry.
     and_then (guard_else (rootEntry \<noteq> StSymlink)
       (TransferPathError UnsafeLink ''Configured local transfer root must not be a symbolic link or reparse point'')) (\<lambda>_.
     and_then (guard_else (rootEntry = StDirectory)
       (TransferPathError UnsafeFileType ''Configured local transfer root must be a directory'')) (\<lambda>_.
     and_then (case realpath rootLexical of
         None \<Rightarrow> Inl (TransferPathError PathNotFound ''Configured local transfer root could not be resolved'')
       | Some p \<Rightarrow> Inr p) (\<lambda>canonicalRoot.
     and_then (safeLstat lstat canonicalRoot PathNotFound) (\<lambda>canonicalRootEntry.
     and_then (guard_else (canonicalRootEntry = StDirectory)
       (TransferPathError UnsafeLink ''Configured local transfer root did not resolve to a direct directory'')) (\<lambda>_.
     let segments = (if relative = ''.'' then [] else split_on (\<lambda>c. c = CHR ''/'') relative);
         candidate = pa_resolve api canonicalRoot segments in
     and_then (assertContained api canonicalRoot candidate) (\<lambda>_.
     and_then (walk api lstat canonicalRoot segments rootEntry) (\<lambda>walked.
     case walked of
       None \<Rightarrow>
         if mustExist then Inl (TransferPathError PathNotFound ''Local transfer source was not found'')
         else Inr \<lparr>rp_rootPath = canonicalRoot, rp_absolutePath = candidate, rp_relativePath = relative,
                   rp_exists = False, rp_kind = None, rp_size = None\<rparr>
     | Some leaf \<Rightarrow> resolve_existing api lstat realpath canonicalRoot candidate relative expectedKind leaf))))))))))"

definition resolveLocalTransferSource where
  "resolveLocalTransferSource api lstat realpath rootDirectory relativePath expectedKind =
     resolveLocalTransferPath api lstat realpath rootDirectory relativePath expectedKind True"

definition resolveLocalTransferDestination where
  "resolveLocalTransferDestination api lstat realpath rootDirectory relativePath expectedKind =
     resolveLocalTransferPath api lstat realpath rootDirectory relativePath expectedKind False"

subsection \<open>The POSIX path functions\<close>

text \<open>
  An absolute POSIX path is normalized by dropping empty and \<open>.\<close> components and letting \<open>..\<close>
  remove the component before it.
\<close>

fun posix_fold :: "string list \<Rightarrow> string list \<Rightarrow> string list" where
  "posix_fold acc [] = rev acc"
| "posix_fold acc (c # cs) =
     (if c = [] \<or> c = ''.'' then posix_fold acc cs
      else if c = ''..'' then posix_fold (drop 1 acc) cs
      else posix_fold (c # acc) cs)"

definition posix_components :: "string \<Rightarrow> string list" where
  "posix_components p = posix_fold [] (split_on (\<lambda>c. c = CHR ''/'') p)"

definition posix_path :: "string list \<Rightarrow> string" where
  "posix_path cs = ''/'' @ join_with ''/'' cs"

definition posix_resolve :: "string \<Rightarrow> string list \<Rightarrow> string" where
  "posix_resolve root segments = posix_path (posix_components (join_with ''/'' (root # segments)))"

definition posix_relative :: "string \<Rightarrow> string \<Rightarrow> string" where
  "posix_relative from to =
     (let f = posix_components from; t = posix_components to; p = longest_common_prefix f t;
          ups = replicate (length f - length p) ''..'' in
      join_with ''/'' (ups @ drop (length p) t))"

definition posix :: path_api where
  "posix = \<lparr>pa_win32 = False, pa_sep = CHR ''/'', pa_resolve = posix_resolve,
     pa_join = (\<lambda>p s. posix_resolve p [s]), pa_relative = posix_relative, pa_root = (\<lambda>_. ''/'')\<rparr>"

section \<open>Splitting and joining\<close>

lemma split_on_nonempty [simp]: "split_on p s \<noteq> []"
  by (cases s) (auto split: list.splits)

lemma split_on_chars: "x \<in> set (split_on p s) \<Longrightarrow> c \<in> set x \<Longrightarrow> \<not> p c \<and> c \<in> set s"
proof (induction s arbitrary: x)
  case (Cons a s)
  show ?case
  proof (cases "split_on p s")
    case (Cons y ys)
    with Cons.prems Cons.IH [of y] Cons.IH [of x] show ?thesis by (auto split: if_splits)
  qed simp
qed simp

lemma split_on_sublist: "x \<in> set (split_on p s) \<Longrightarrow> sublist x s"
proof (induction s arbitrary: x)
  case (Cons a s)
  show ?case
  proof (cases "split_on p s")
    case ys: (Cons y ys)
    have pre: "prefix (hd (split_on p s)) s"
      by (induction s) (auto split: list.splits)
    show ?thesis
    proof (cases "x = a # y")
      case True
      with pre ys show ?thesis by (auto intro: prefix_imp_sublist)
    next
      case False
      with Cons.prems ys have "x = [] \<or> x \<in> set (split_on p s)" by (auto split: if_splits)
      with Cons.IH show ?thesis by (auto simp: sublist_Cons_right)
    qed
  qed simp
qed simp

lemma split_on_plain: "\<forall>c \<in> set x. \<not> p c \<Longrightarrow> split_on p x = [x]"
  by (induction x) auto

lemma split_on_append:
  "\<forall>c \<in> set x. \<not> p c \<Longrightarrow> p a \<Longrightarrow> split_on p (x @ a # s) = x # split_on p s"
  by (induction x) (auto split: list.splits)

lemma split_join:
  assumes "p a" "xs \<noteq> []" "\<forall>x \<in> set xs. \<forall>c \<in> set x. \<not> p c"
  shows "split_on p (join_with [a] xs) = xs"
  using assms(2,3)
proof (induction xs)
  case (Cons x xs)
  show ?case
  proof (cases xs)
    case Nil
    with Cons.prems show ?thesis by (simp add: split_on_plain)
  next
    case (Cons y ys)
    with Cons.IH Cons.prems split_on_append [of x p a "join_with [a] xs"] assms(1) show ?thesis by simp
  qed
qed simp

lemma segments_of_join:
  assumes "p a" "\<forall>x \<in> set xs. x \<noteq> [] \<and> (\<forall>c \<in> set x. \<not> p c)"
  shows "segments_of p (join_with [a] xs) = xs"
proof (cases "xs = []")
  case True
  then show ?thesis by (simp add: segments_of_def)
next
  case False
  with assms split_join [of p a xs] show ?thesis by (simp add: segments_of_def)
qed

lemma segments_of_chars:
  "x \<in> set (segments_of p s) \<Longrightarrow> x \<noteq> [] \<and> sublist x s \<and> (\<forall>c \<in> set x. \<not> p c \<and> c \<in> set s)"
  by (auto simp: segments_of_def dest: split_on_chars intro: split_on_sublist)

lemma length_join:
  "xs \<noteq> [] \<Longrightarrow> Suc (length (join_with [a] xs)) = sum_list (map (\<lambda>x. Suc (length x)) xs)"
proof (induction xs)
  case (Cons x xs)
  then show ?case by (cases xs) auto
qed simp

lemma length_split: "sum_list (map (\<lambda>x. Suc (length x)) (split_on p s)) = Suc (length s)"
  by (induction s) (auto split: list.splits)

lemma sum_list_filter_le: "sum_list (map f (filter P xs)) \<le> (sum_list (map f xs) :: nat)"
  by (induction xs) auto

lemma length_segments: "length (join_with [a] (segments_of p s)) \<le> length s"
proof (cases "segments_of p s = []")
  case False
  have "Suc (length (join_with [a] (segments_of p s))) \<le> sum_list (map (\<lambda>x. Suc (length x)) (split_on p s))"
    unfolding length_join [OF False] unfolding segments_of_def by (rule sum_list_filter_le)
  then show ?thesis by (simp add: length_split)
qed simp

lemma set_join: "c \<in> set (join_with [a] xs) \<Longrightarrow> c = a \<or> (\<exists>x \<in> set xs. c \<in> set x)"
proof (induction xs)
  case (Cons x xs)
  then show ?case by (cases xs) auto
qed simp

lemma sublist_join:
  assumes "sublist w (join_with [a] xs)" "a \<notin> set w" "w \<noteq> []"
  shows "\<exists>x \<in> set xs. sublist w x"
  using assms(1)
proof (induction xs)
  case (Cons x xs)
  show ?case
  proof (cases "xs = []")
    case True
    with Cons.prems show ?thesis by simp
  next
    case False
    let ?r = "join_with [a] xs"
    from False Cons.prems have "sublist w (x @ ([a] @ ?r))" by (cases xs) auto
    then consider "sublist w x" | "sublist w ([a] @ ?r)"
      | w1 w2 where "w = w1 @ w2" "suffix w1 x" "prefix w2 ([a] @ ?r)" unfolding sublist_append by blast
    then show ?thesis
    proof cases
      case 2
      then have "sublist w ?r" using assms(2,3) by (auto simp: sublist_Cons_right prefix_Cons)
      with Cons.IH show ?thesis by auto
    next
      case 3
      with assms(2) have "w2 = []" by (cases w2) auto
      with 3 show ?thesis by (auto intro: suffix_imp_sublist)
    qed simp
  qed
qed (use assms(3) in auto)

section \<open>Canonical paths\<close>

lemma check_segments_ok:
  "check_segments message windows segs = Inr u \<longleftrightarrow>
   (\<forall>s \<in> set segs. s \<noteq> ''.'' \<and> s \<noteq> ''..'' \<and> (windows \<longrightarrow> validateWindowsSegment s = Inr ()))"
  by (induction segs) (auto simp: and_then_eq_Inr)

lemma validatePathText_ok:
  "validatePathText s = Inr u \<longleftrightarrow> s \<noteq> [] \<and> length s \<le> MAX_TRANSFER_PATH_BYTES \<and> (\<forall>c \<in> set s. \<not> is_control c)"
  by (auto simp: validatePathText_def guard_else_eq_Inr list_ex_iff)

text \<open>A list of segments that stays below where it starts.\<close>

definition clean_segments :: "(char \<Rightarrow> bool) \<Rightarrow> string list \<Rightarrow> bool" where
  "clean_segments sep segs \<longleftrightarrow>
     (\<forall>s \<in> set segs. s \<noteq> [] \<and> s \<noteq> ''.'' \<and> s \<noteq> ''..'' \<and> (\<forall>c \<in> set s. \<not> sep c))"

lemma slash_not_control: "\<not> is_control (CHR ''/'')"
  by code_simp

lemma joined_text:
  assumes "validatePathText s = Inr u" "segments_of p s \<noteq> []"
  shows "validatePathText (join_with ''/'' (segments_of p s)) = Inr ()"
proof -
  let ?j = "join_with ''/'' (segments_of p s)"
  have "\<not> is_control c" if "c \<in> set ?j" for c
    using set_join [OF that] segments_of_chars [of _ p s] assms(1) slash_not_control
    by (auto simp: validatePathText_ok)
  moreover have "?j \<noteq> []"
  proof -
    obtain x xs where "segments_of p s = x # xs" using assms(2) by (cases "segments_of p s") auto
    moreover from this segments_of_chars [of x p s] have "x \<noteq> []" by simp
    ultimately show ?thesis by (cases xs) auto
  qed
  ultimately show ?thesis using assms(1) length_segments [of "CHR ''/''" p s] by (simp add: validatePathText_ok)
qed

lemma split_on_head: "split_on p s = x # xs \<Longrightarrow> (xs = [] \<and> s = x) \<or> (\<exists>a r. s = x @ a # r \<and> p a \<and> xs = split_on p r)"
proof (induction s arbitrary: x xs)
  case (Cons b s)
  show ?case
  proof (cases "p b")
    case True
    with Cons.prems show ?thesis by auto
  next
    case False
    obtain y ys where y: "split_on p s = y # ys" by (cases "split_on p s") auto
    with False Cons.prems have "x = b # y" "xs = ys" by auto
    with Cons.IH [OF y] show ?thesis by auto
  qed
qed auto

text \<open>Normalizing does not turn a relative path into one that looks absolute.\<close>

lemma joined_relative:
  assumes "\<not> win32_isAbsolute s" "segments_of is_sep s = x # xs"
  shows "\<not> win32_isAbsolute (join_with ''/'' (x # xs)) \<and> \<not> posix_isAbsolute (join_with ''/'' (x # xs))"
proof -
  obtain y ys where y: "split_on is_sep s = y # ys" by (cases "split_on is_sep s") auto
  have x: "x \<noteq> []" "\<forall>c \<in> set x. \<not> is_sep c" using segments_of_chars [of x is_sep s] assms(2) by auto
  have "y \<noteq> []"
  proof
    assume "y = []"
    with split_on_head [OF y] have "s = [] \<or> (\<exists>a r. s = a # r \<and> is_sep a)" by auto
    with assms y \<open>y = []\<close> show False by (auto simp: segments_of_def win32_isAbsolute_def)
  qed
  with y assms(2) have xy: "x = y" and xs: "xs = filter (\<lambda>x. x \<noteq> []) ys" by (auto simp: segments_of_def)
  obtain c cs where c: "x = c # cs" using x by (cases x) auto
  have sep: "\<not> is_sep c" using x c by simp
  have "win32_isAbsolute s" if j: "win32_isAbsolute (join_with ''/'' (x # xs))"
  proof (cases xs)
    case Nil
    with j sep have "case x of a # b # d # _ \<Rightarrow> is_alpha a \<and> b = CHR '':'' \<and> is_sep d | _ \<Rightarrow> False"
      by (auto simp: win32_isAbsolute_def c split: list.splits)
    with x show ?thesis by (auto split: list.splits)
  next
    case (Cons z zs)
    with xs have "ys \<noteq> []" by auto
    with split_on_head [OF y] xy obtain a r where s: "s = x @ a # r" "is_sep a" by auto
    have jj: "join_with ''/'' (x # xs) = x @ CHR ''/'' # join_with ''/'' (z # zs)" using Cons by simp
    have j': "win32_isAbsolute (c # cs @ CHR ''/'' # join_with ''/'' (z # zs))" using j jj c by simp
    have s': "s = c # cs @ a # r" using s c by simp
    show ?thesis
      using j' sep s(2) unfolding s'
      by (cases cs; cases "tl cs") (auto simp: win32_isAbsolute_def split: list.splits)
  qed
  moreover have "\<not> posix_isAbsolute (join_with ''/'' (x # xs))"
    using sep c by (cases xs) (auto simp: posix_isAbsolute_def is_sep_def)
  ultimately show ?thesis using assms(1) by blast
qed

lemma segments_nonsep:
  assumes "segments_of p s = x # xs"
  shows "\<exists>c r. join_with ''/'' (x # xs) = c # r \<and> \<not> p c"
proof -
  from segments_of_chars [of x p s] assms obtain c cs where "x = c # cs" "\<not> p c" by (cases x) auto
  then show ?thesis by (cases xs) auto
qed

lemma segments_idem:
  "p (CHR ''/'') \<Longrightarrow> segments_of p (join_with ''/'' (segments_of p s)) = segments_of p s"
  by (rule segments_of_join) (use segments_of_chars [of _ p s] in auto)

lemma segments_of_Cons: "p a \<Longrightarrow> segments_of p (a # s) = segments_of p s"
  by (simp add: segments_of_def)

lemma clean_checked:
  "check_segments message windows (segments_of p s) = Inr u \<Longrightarrow> clean_segments p (segments_of p s)"
  using segments_of_chars [of _ p s] by (auto simp: check_segments_ok clean_segments_def)

lemma is_sep_slash [simp]: "is_sep (CHR ''/'')" "is_sep backslash"
  by (simp_all add: is_sep_def)

text \<open>
  A local transfer path that is accepted is normalized to \<open>.\<close> or to its own segments joined
  by single slashes, none of them empty, \<open>.\<close> or \<open>..\<close> or holding a separator of either platform;
  the normal form is accepted again and is its own normal form.\<close>

theorem local_path_normal_form:
  assumes "normalizeLocalTransferRelativePath win32 val = Inr r"
  shows "(r = ''.'' \<or> (segments_of is_sep val \<noteq> [] \<and> clean_segments is_sep (segments_of is_sep val)
            \<and> r = join_with ''/'' (segments_of is_sep val)))
         \<and> normalizeLocalTransferRelativePath win32 r = Inr r"
proof (cases "val = ''.''")
  case True
  with assms show ?thesis by (auto simp: normalizeLocalTransferRelativePath_def and_then_eq_Inr)
next
  case False
  let ?segs = "segments_of is_sep val"
  from assms False have v: "validatePathText val = Inr ()" and rel: "\<not> win32_isAbsolute val"
    and ne: "?segs \<noteq> []"
    and chk: "check_segments ''Local transfer path must not contain traversal segments'' win32 ?segs = Inr ()"
    and r: "r = join_with ''/'' ?segs"
    by (auto simp: normalizeLocalTransferRelativePath_def result_elims Let_def split: if_splits)
  obtain x xs where x: "?segs = x # xs" using ne by (cases ?segs) auto
  obtain c cs where c: "r = c # cs" "\<not> is_sep c" using segments_nonsep [OF x] r x by auto
  from joined_relative [OF rel x] r x have abs: "\<not> win32_isAbsolute r" "\<not> posix_isAbsolute r" by auto
  have seg: "segments_of is_sep r = ?segs" using r segments_idem [of is_sep val] by simp
  have dot: "r \<noteq> ''.''"
  proof
    assume "r = ''.''"
    with seg have "?segs = [''.'']" by (simp add: segments_of_def is_sep_def)
    with chk show False by simp
  qed
  have "\<not> starts_with r [backslash, backslash]" "\<not> starts_with r ''//''"
    using c by (auto simp: starts_with_def is_sep_def)
  with abs dot seg joined_text [OF v ne] chk ne r clean_checked [OF chk] show ?thesis
    by (simp add: normalizeLocalTransferRelativePath_def path_isAbsolute_def)
qed

theorem local_path_normal_form_witness:
  "normalizeLocalTransferRelativePath False ''a//b.txt'' = Inr ''a/b.txt''
   \<and> normalizeLocalTransferRelativePath False ''a/b.txt'' = Inr ''a/b.txt''"
proof -
  have "normalizeLocalTransferRelativePath False ''a//b.txt'' = Inr ''a/b.txt''" by code_simp
  then show ?thesis using local_path_normal_form [of False "''a//b.txt''" "''a/b.txt''"] by blast
qed

lemma line_separator_sublist:
  "has_line_separator s \<longleftrightarrow> sublist [CHR 0xE2, CHR 0x80, CHR 0xA8] s \<or> sublist [CHR 0xE2, CHR 0x80, CHR 0xA9] s"
  by (induction s rule: has_line_separator.induct) (auto simp: sublist_Cons_right)

lemma joined_no_line_separator:
  assumes "\<not> has_line_separator s"
  shows "\<not> has_line_separator (join_with ''/'' (segments_of p s))"
proof
  assume "has_line_separator (join_with ''/'' (segments_of p s))"
  then obtain w where w: "w = [CHR 0xE2, CHR 0x80, CHR 0xA8] \<or> w = [CHR 0xE2, CHR 0x80, CHR 0xA9]"
    "sublist w (join_with ''/'' (segments_of p s))"
    unfolding line_separator_sublist by blast
  then have "\<exists>x \<in> set (segments_of p s). sublist w x" by (intro sublist_join) auto
  then have "sublist w s" using segments_of_chars [of _ p s] sublist_order.order.trans by blast
  with assms w(1) show False by (auto simp: line_separator_sublist)
qed

lemma joined_path_text:
  assumes "validatePathText (pre @ s) = Inr u" "validatePathText pre' = Inr ()" "length pre' = length pre"
  shows "validatePathText (pre' @ join_with ''/'' (segments_of p s)) = Inr ()"
proof -
  have "\<not> is_control c" if "c \<in> set (join_with ''/'' (segments_of p s))" for c
    using set_join [OF that] segments_of_chars [of _ p s] assms(1) slash_not_control
    by (auto simp: validatePathText_ok)
  then show ?thesis
    using assms length_segments [of "CHR ''/''" p s] by (auto simp: validatePathText_ok)
qed

lemma windows_normal_form:
  assumes "normalizeRemoteTransferPath Windows val = Inr r"
  shows "\<exists>d segs. is_upper d \<and> clean_segments is_sep segs \<and> r = [d] @ '':/'' @ join_with ''/'' segs
           \<and> normalizeRemoteTransferPath Windows r = Inr r"
proof -
  from assms have v: "validatePathText val = Inr ()" and n: "normalizeWindowsRemotePath val = Inr r"
    by (auto simp: normalizeRemoteTransferPath_def and_then_eq_Inr)
  then obtain letter rest where m: "drive_match val = Some (letter, rest)"
    and chk: "check_segments ''Remote path must not contain traversal segments'' True (segments_of is_sep rest) = Inr ()"
    and r: "r = [upper_char letter] @ '':/'' @ join_with ''/'' (segments_of is_sep rest)"
    by (auto simp: normalizeWindowsRemotePath_def and_then_eq_Inr Let_def split: if_splits option.splits)
  from m obtain c where val: "val = [letter, CHR '':'', c] @ rest" and l: "is_alpha letter"
    and nl: "\<not> has_line_separator rest"
    by (auto simp: drive_match_def split: list.splits if_splits)
  note u = upper_char_upper [OF l] upper_chars [OF upper_char_upper [OF l]]
  have "validatePathText ([upper_char letter] @ '':/'') = Inr ()"
    using u by (auto simp: validatePathText_ok MAX_TRANSFER_PATH_BYTES_def is_control_def)
  from joined_path_text [OF v [unfolded val] this] r
  have "validatePathText r = Inr ()" by simp
  moreover have "drive_match r = Some (upper_char letter, join_with ''/'' (segments_of is_sep rest))"
    using u joined_no_line_separator [OF nl] by (simp add: drive_match_def r)
  moreover have "\<not> starts_with r [backslash, backslash]" "\<not> starts_with r ''//''" 
     "\<not> starts_with r [backslash, backslash, CHR ''?'', backslash]" "\<not> starts_with r [backslash, backslash, CHR ''.'', backslash]"
    using u by (auto simp: starts_with_def r)
  ultimately have "normalizeRemoteTransferPath Windows r = Inr r"
    using chk u by (simp add: normalizeRemoteTransferPath_def normalizeWindowsRemotePath_def Let_def segments_idem r)
  with r u clean_checked [OF chk] show ?thesis by blast
qed

lemma posix_normal_form:
  assumes "normalizeRemoteTransferPath platform val = Inr r" "platform \<noteq> Windows"
  shows "\<exists>segs. clean_segments (\<lambda>c. c = CHR ''/'') segs \<and> r = ''/'' @ join_with ''/'' segs
           \<and> normalizeRemoteTransferPath platform r = Inr r"
proof -
  let ?p = "\<lambda>c. c = CHR ''/''"
  from assms have v: "validatePathText val = Inr ()" and s: "starts_with val ''/''"
    and chk: "check_segments ''Remote path must not contain traversal segments'' False (segments_of ?p val) = Inr ()"
    and r: "r = ''/'' @ join_with ''/'' (segments_of ?p val)"
    by (auto simp: normalizeRemoteTransferPath_def and_then_eq_Inr Let_def split: if_splits)
  from s obtain rest where val: "val = ''/'' @ rest" by (auto simp: starts_with_def prefix_def)
  then have seg: "segments_of ?p val = segments_of ?p rest" using segments_of_Cons [of ?p "CHR ''/''" rest] by simp
  have "validatePathText r = Inr ()"
    using joined_path_text [OF v [unfolded val], of "''/''" ?p] r seg by (simp add: validatePathText_ok MAX_TRANSFER_PATH_BYTES_def slash_not_control)
  moreover have "\<not> starts_with r ''//''"
  proof (cases "segments_of ?p val")
    case (Cons x xs)
    with segments_nonsep [OF Cons] r show ?thesis by (auto simp: starts_with_def)
  qed (simp add: r starts_with_def)
  moreover have "starts_with r ''/''" by (simp add: r starts_with_def)
  moreover have "segments_of ?p r = segments_of ?p val"
    using segments_idem [of ?p val] segments_of_Cons [of ?p] by (simp add: r)
  ultimately have "normalizeRemoteTransferPath platform r = Inr r"
    using chk assms(2) r by (simp add: normalizeRemoteTransferPath_def Let_def)
  with r clean_checked [OF chk] show ?thesis by blast
qed

text \<open>
  A remote path that is accepted is normalized to an absolute path without empty, \<open>.\<close> or
  \<open>..\<close> segments, below an upper case drive letter on Windows and below \<open>/\<close> elsewhere; the
  normal form is accepted again and is its own normal form.\<close>

theorem remote_path_normal_form:
  assumes "normalizeRemoteTransferPath platform val = Inr r"
  shows "normalizeRemoteTransferPath platform r = Inr r
         \<and> (if platform = Windows
            then \<exists>d segs. is_upper d \<and> clean_segments is_sep segs \<and> r = [d] @ '':/'' @ join_with ''/'' segs
            else \<exists>segs. clean_segments (\<lambda>c. c = CHR ''/'') segs \<and> r = ''/'' @ join_with ''/'' segs)"
  using windows_normal_form [of val r] posix_normal_form [of platform val r] assms by auto

theorem remote_path_normal_form_witness:
  "normalizeRemoteTransferPath Windows ''c:/Temp//a.txt'' = Inr ''C:/Temp/a.txt''
   \<and> normalizeRemoteTransferPath Windows ''C:/Temp/a.txt'' = Inr ''C:/Temp/a.txt''"
proof -
  have "normalizeRemoteTransferPath Windows ''c:/Temp//a.txt'' = Inr ''C:/Temp/a.txt''" by code_simp
  then show ?thesis using remote_path_normal_form [of Windows "''c:/Temp//a.txt''" "''C:/Temp/a.txt''"] by blast
qed

section \<open>Reading a batch back\<close>

text \<open>
  What a reader of the batch makes of a line: a command word, then arguments between double
  quotes, each after one space. Inside the quotes a backslash takes the next character literally
  and the first other quote ends the argument. This is the convention the batch is written in; the
  splitting of \<^verbatim>\<open>sftp\<close> itself, which has more rules, is not modelled.
\<close>

fun read_quoted :: "string \<Rightarrow> (string \<times> string) option" where
  "read_quoted [] = None"
| "read_quoted [c] = (if c = dquote_char then Some ([], []) else None)"
| "read_quoted (c # d # s) =
     (if c = dquote_char then Some ([], d # s)
      else if c = backslash then map_option (apfst ((#) d)) (read_quoted s)
      else map_option (apfst ((#) c)) (read_quoted (d # s)))"

lemma read_quoted_shorter: "read_quoted s = Some (v, r) \<Longrightarrow> length r < length s"
proof (induction s arbitrary: v r rule: read_quoted.induct)
  case (3 c d s)
  show ?case
  proof (cases "c = dquote_char")
    case True
    with "3.prems" show ?thesis by auto
  next
    case False
    with "3.prems" "3.IH" show ?thesis by (fastforce split: if_splits)
  qed
qed (auto split: if_splits)

function read_args :: "string \<Rightarrow> string list option" where
  "read_args s =
     (case s of
        [] \<Rightarrow> Some []
      | [a] \<Rightarrow> None
      | a # b # s1 \<Rightarrow>
          if a = CHR '' '' \<and> b = dquote_char
          then case read_quoted s1 of None \<Rightarrow> None | Some (v, r) \<Rightarrow> map_option ((#) v) (read_args r)
          else None)"
  by pat_completeness auto
termination by (relation "measure length") (auto dest: read_quoted_shorter)

declare read_args.simps [simp del]

definition read_line :: "string \<Rightarrow> (string \<times> string list) option" where
  "read_line s =
     map_option (\<lambda>args. (takeWhile (\<lambda>c. c \<noteq> CHR '' '') s, args)) (read_args (dropWhile (\<lambda>c. c \<noteq> CHR '' '') s))"

definition batch_lines :: "bytes \<Rightarrow> string list" where
  "batch_lines batch = butlast (split_on (\<lambda>c. c = newline) (map char_of_byte batch))"

text \<open>The command word and the paths a batch command stands for.\<close>

definition command_words :: "sftp_batch_command \<Rightarrow> string \<times> string list" where
  "command_words command =
     (case command of
        SftpGet again remote local \<Rightarrow> (if again then ''@reget'' else ''@get'', [remote, local])
      | SftpPut again local remote \<Rightarrow> (if again then ''@reput'' else ''@put'', [local, remote])
      | SftpRemote op remote ignore \<Rightarrow> ((if ignore = Some True then ''-@'' else ''@'') @ remote_operation_name op, [remote])
      | SftpRename source destination \<Rightarrow> (''@rename'', [source, destination]))"

definition command_remotes :: "sftp_batch_command \<Rightarrow> string list" where
  "command_remotes command =
     (case command of
        SftpGet _ remote _ \<Rightarrow> [remote] | SftpPut _ _ remote \<Rightarrow> [remote] | SftpRemote _ remote _ \<Rightarrow> [remote]
      | SftpRename source destination \<Rightarrow> [source, destination])"

lemma read_quoted_escape: "read_quoted (sftp_escape v @ dquote_char # rest) = Some (v, rest)"
proof (induction v)
  case Nil
  show ?case by (cases rest) (simp_all add: sftp_escape_def)
next
  case (Cons c v)
  have e: "sftp_escape (c # v) = (if sftp_special c then [backslash, c] else [c]) @ sftp_escape v"
    by (simp add: sftp_escape_def)
  obtain d t where d: "sftp_escape v @ dquote_char # rest = d # t"
    by (cases "sftp_escape v @ dquote_char # rest") auto
  show ?case
  proof (cases "sftp_special c")
    case True
    with Cons e show ?thesis by simp
  next
    case False
    then have "c \<noteq> dquote_char" "c \<noteq> backslash" by (auto simp: sftp_special_def)
    with False Cons e d show ?thesis by simp
  qed
qed

lemma quote_ok: "quoteSftpBatchPath v = Inr q \<longleftrightarrow>
    validatePathText v = Inr () \<and> q = [dquote_char] @ sftp_escape v @ [dquote_char]"
  by (auto simp: quoteSftpBatchPath_def and_then_eq_Inr)

lemma read_args_quoted:
  "read_args (CHR '' '' # dquote_char # sftp_escape v @ dquote_char # rest) = map_option ((#) v) (read_args rest)"
  by (subst read_args.simps) (simp add: read_quoted_escape)

lemma read_args_Nil [simp]: "read_args [] = Some []"
  by (subst read_args.simps) simp

lemma read_line_word:
  assumes "CHR '' '' \<notin> set w" "rest = [] \<or> hd rest = CHR '' ''"
  shows "read_line (w @ rest) = map_option (Pair w) (read_args rest)"
proof -
  have "takeWhile (\<lambda>c. c \<noteq> CHR '' '') (w @ rest) = w" "dropWhile (\<lambda>c. c \<noteq> CHR '' '') (w @ rest) = rest"
    using assms by (induction w) (auto simp: takeWhile_eq_Nil_iff dropWhile_eq_self_iff)
  then show ?thesis by (simp add: read_line_def)
qed

lemma two_paths_ok:
  assumes "two_paths w a b = Inr line" "CHR '' '' \<notin> set w"
  shows "read_line line = Some (w, [a, b])"
proof -
  from assms(1) have "line = w @ CHR '' '' # dquote_char # sftp_escape a @ dquote_char #
      (CHR '' '' # dquote_char # sftp_escape b @ dquote_char # [])"
    by (auto simp: two_paths_def and_then_eq_Inr quote_ok)
  then show ?thesis using read_line_word [OF assms(2)] by (simp add: read_args_quoted)
qed

lemma escape_no_newline:
  assumes "validatePathText v = Inr u"
  shows "newline \<notin> set (sftp_escape v)"
proof -
  have "newline \<notin> set v" using assms unfolding validatePathText_ok char_code_simps by auto
  then show ?thesis by (auto simp: sftp_escape_def)
qed

lemma two_paths_one_line:
  assumes "two_paths w a b = Inr line" "newline \<notin> set w"
  shows "newline \<notin> set line"
  using assms escape_no_newline [of a] escape_no_newline [of b]
  by (auto simp: two_paths_def and_then_eq_Inr quote_ok)

definition canonical_remote :: "string \<Rightarrow> bool" where
  "canonical_remote v \<longleftrightarrow> normalizeRemoteTransferPath Linux v = Inr v \<or> normalizeRemoteTransferPath Windows v = Inr v"

lemma requireAbsoluteRemote_ok: "requireAbsoluteRemoteBatchPath v = Inr u \<Longrightarrow> canonical_remote v"
  by (auto simp: requireAbsoluteRemoteBatchPath_def result_elims canonical_remote_def split: if_splits)

lemma op_name_plain: "CHR '' '' \<notin> set (remote_operation_name opn)" "newline \<notin> set (remote_operation_name opn)"
  by (cases opn; simp add: remote_operation_name_def)+

lemma render_command:
  assumes "renderSftpBatchCommand win32 command = Inr line"
  shows "read_line line = Some (command_words command)" "newline \<notin> set line"
    "list_all canonical_remote (command_remotes command)"
proof -
  show "read_line line = Some (command_words command)"
  proof (cases command)
    case (SftpRemote opn remote ignore)
    let ?w = "(if ignore = Some True then ''-@'' else ''@'') @ remote_operation_name opn"
    from assms SftpRemote have "line = ?w @ CHR '' '' # dquote_char # sftp_escape remote @ dquote_char # []"
      by (auto simp: renderSftpBatchCommand_def and_then_eq_Inr quote_ok)
    then show ?thesis
      using read_line_word [of ?w] op_name_plain SftpRemote by (simp add: read_args_quoted command_words_def)
  qed (use assms in \<open>auto simp: renderSftpBatchCommand_def and_then_eq_Inr command_words_def split: if_splits dest: two_paths_ok\<close>)
  show "newline \<notin> set line"
  proof (cases command)
    case (SftpRemote opn remote ignore)
    then show ?thesis using assms escape_no_newline [of remote] op_name_plain
      by (auto simp: renderSftpBatchCommand_def and_then_eq_Inr quote_ok split: if_splits)
  qed (use assms in \<open>auto simp: renderSftpBatchCommand_def and_then_eq_Inr split: if_splits dest: two_paths_one_line\<close>)
  show "list_all canonical_remote (command_remotes command)"
    using assms by (auto simp: renderSftpBatchCommand_def and_then_eq_Inr command_remotes_def
        dest: requireAbsoluteRemote_ok split: sftp_batch_command.splits)
qed

lemma render_all_lines:
  assumes "render_all win32 commands = Inr lines"
  shows "map read_line lines = map (Some \<circ> command_words) commands" "\<forall>l \<in> set lines. newline \<notin> set l"
    "\<forall>c \<in> set commands. list_all canonical_remote (command_remotes c)"
proof -
  from assms have "map read_line lines = map (Some \<circ> command_words) commands
      \<and> (\<forall>l \<in> set lines. newline \<notin> set l) \<and> (\<forall>c \<in> set commands. list_all canonical_remote (command_remotes c))"
  proof (induction commands arbitrary: lines)
    case (Cons c cs)
    from Cons.prems obtain l ls where l: "renderSftpBatchCommand win32 c = Inr l"
      "render_all win32 cs = Inr ls" "lines = l # ls" by (auto simp: and_then_eq_Inr)
    from Cons.IH [OF l(2)] render_command [OF l(1)] l(3) show ?case by simp
  qed simp
  then show "map read_line lines = map (Some \<circ> command_words) commands" "\<forall>l \<in> set lines. newline \<notin> set l"
    "\<forall>c \<in> set commands. list_all canonical_remote (command_remotes c)" by blast+
qed

lemma char_of_byte_buffer: "map char_of_byte (buffer_from s) = s"
  by (simp add: buffer_from_def comp_def)

lemma lines_of_text:
  assumes "\<forall>l \<in> set ls. newline \<notin> set l" "ls \<noteq> []"
  shows "butlast (split_on (\<lambda>c. c = newline) (join_with [newline] ls @ [newline])) = ls"
proof -
  have "join_with [newline] ls @ [newline] = join_with [newline] (ls @ [[]])"
    using assms(2)
  proof (induction ls)
    case (Cons x xs)
    then show ?case by (cases xs) auto
  qed simp
  moreover have "split_on (\<lambda>c. c = newline) (join_with [newline] (ls @ [[]])) = ls @ [[]]"
    using assms by (intro split_join) auto
  ultimately show ?thesis by simp
qed

text \<open>
  C27: Reading back an SFTP batch line by line gives one command per requested command, with the
  requested operation and exactly the requested paths, whatever characters the paths hold, and
  then \<open>@quit\<close>; no path can add, drop or change a command. Every remote path in it is absolute and
  its own normal form, and the batch fits the standard input of the \<open>sftp\<close> process.\<close>

theorem sftp_batch_reads_back:
  assumes "buildSftpBatch win32 commands = Inr batch"
  shows "map read_line (batch_lines batch) = map (Some \<circ> command_words) commands @ [Some (''@quit'', [])]
         \<and> (\<forall>c \<in> set commands. list_all canonical_remote (command_remotes c))
         \<and> 0 < length commands \<and> length commands \<le> 4096 \<and> length batch \<le> MAX_MANAGED_STDIN_BYTES"
proof -
  from assms obtain lines where lines: "render_all win32 commands = Inr lines"
    and batch: "batch = buffer_from (join_with [newline] (lines @ [''@quit'']) @ [newline])"
    and bounds: "length batch \<le> MAX_MANAGED_STDIN_BYTES" "commands \<noteq> []" "length commands \<le> 4096"
    by (auto simp: buildSftpBatch_def result_elims Let_def)
  have "batch_lines batch = lines @ [''@quit'']"
    unfolding batch_lines_def batch char_of_byte_buffer
    using render_all_lines(2) [OF lines] by (intro lines_of_text) auto
  moreover have "read_line ''@quit'' = Some (''@quit'', [])"
    using read_line_word [of "''@quit''" "[]"] by simp
  ultimately show ?thesis using render_all_lines [OF lines] bounds by simp
qed

definition example_batch :: "sftp_batch_command list" where
  "example_batch = [SftpRemote Mkdir ''/srv/a b'' (Some True), SftpPut False ''/tmp/x'' ([CHR ''/'', dquote_char, CHR ''*''])]"

lemma example_batch_length: "example_batch \<noteq> []" "length example_batch = 2"
  by (simp_all add: example_batch_def)

theorem sftp_batch_reads_back_witness:
  "(case buildSftpBatch False example_batch of Inl _ \<Rightarrow> False | Inr batch \<Rightarrow>
      map read_line (batch_lines batch) =
        [Some (''-@mkdir'', [''/srv/a b'']), Some (''@put'', [''/tmp/x'', [CHR ''/'', dquote_char, CHR ''*'']]),
         Some (''@quit'', [])])"
proof -
  have "(case render_all False example_batch of Inl _ \<Rightarrow> False | Inr lines \<Rightarrow>
      length (join_with [newline] (lines @ [''@quit'']) @ [newline]) < 100)" by code_simp
  then have "is_ok (buildSftpBatch False example_batch)"
    by (auto simp: buildSftpBatch_def buffer_from_def is_ok_def example_batch_length MAX_MANAGED_STDIN_BYTES_def split: sum.splits)
  then obtain batch where b: "buildSftpBatch False example_batch = Inr batch" by (auto simp: is_ok_iff)
  have "map (Some \<circ> command_words) example_batch =
      [Some (''-@mkdir'', [''/srv/a b'']), Some (''@put'', [''/tmp/x'', [CHR ''/'', dquote_char, CHR ''*'']])]"
    by code_simp
  with sftp_batch_reads_back [OF b, THEN conjunct1] show ?thesis unfolding b sum.case by simp
qed

section \<open>Confinement below the root\<close>

abbreviation slash :: "char \<Rightarrow> bool" where "slash \<equiv> \<lambda>c. c = CHR ''/''"

lemma posix_fold_append: "posix_fold acc (xs @ ys) = posix_fold (rev (posix_fold acc xs)) ys"
  by (induction acc xs rule: posix_fold.induct) auto

lemma posix_fold_clean:
  "clean_segments slash segs \<Longrightarrow> posix_fold acc segs = rev acc @ segs"
  by (induction segs arbitrary: acc) (auto simp: clean_segments_def)

lemma posix_fold_is_clean:
  "clean_segments slash acc \<Longrightarrow> \<forall>x \<in> set xs. \<forall>c \<in> set x. \<not> slash c \<Longrightarrow> clean_segments slash (posix_fold acc xs)"
proof (induction acc xs rule: posix_fold.induct)
  case (1 acc)
  then show ?case by (simp add: clean_segments_def)
next
  case (2 acc c cs)
  have "clean_segments slash (drop 1 acc)" using "2.prems"(1) by (auto simp: clean_segments_def dest: in_set_dropD)
  moreover have "c \<noteq> [] \<Longrightarrow> c \<noteq> ''.'' \<Longrightarrow> c \<noteq> ''..'' \<Longrightarrow> clean_segments slash (c # acc)"
    using "2.prems" by (simp add: clean_segments_def)
  ultimately show ?case using 2 by simp
qed

lemma posix_components_clean: "clean_segments slash (posix_components p)"
  unfolding posix_components_def
  by (rule posix_fold_is_clean) (auto simp: clean_segments_def dest: split_on_chars)

lemma split_on_join_Cons:
  "split_on slash (p @ CHR ''/'' # s) = split_on slash p @ split_on slash s"
  by (induction p) (auto split: list.splits)

lemma posix_components_join:
  assumes "clean_segments slash segs"
  shows "posix_components (join_with ''/'' (root # segs)) = posix_components root @ segs"
proof (cases "segs = []")
  case False
  then have "join_with ''/'' (root # segs) = root @ CHR ''/'' # join_with ''/'' segs" by (cases segs) auto
  moreover have "split_on slash (join_with ''/'' segs) = segs"
    using False assms by (intro split_join) (auto simp: clean_segments_def)
  ultimately show ?thesis
    by (simp add: posix_components_def split_on_join_Cons posix_fold_append posix_fold_clean [OF assms])
qed simp

lemma posix_components_path:
  assumes "clean_segments slash cs"
  shows "posix_components (posix_path cs) = cs"
  using posix_components_join [OF assms, of "[]"]
  by (cases cs) (simp_all add: posix_path_def posix_components_def)

lemma clean_take: "clean_segments sep segs \<Longrightarrow> clean_segments sep (take k segs)"
  by (auto simp: clean_segments_def dest: in_set_takeD)

lemma posix_resolve_clean:
  "clean_segments slash segs \<Longrightarrow> posix_resolve root segs = posix_path (posix_components root @ segs)"
  by (simp add: posix_resolve_def posix_components_join)

lemma clean_append: "clean_segments sep (xs @ ys) \<longleftrightarrow> clean_segments sep xs \<and> clean_segments sep ys"
  by (auto simp: clean_segments_def)

lemma contained_prefix:
  assumes "assertContained posix root cand = Inr u"
  shows "prefix (posix_components root) (posix_components cand)"
proof -
  let ?f = "posix_components root" and ?t = "posix_components cand"
  let ?p = "longest_common_prefix ?f ?t"
  define n where "n = length ?f - length ?p"
  let ?rest = "drop (length ?p) ?t"
  have rel: "posix_relative root cand = join_with ''/'' (replicate n ''..'' @ ?rest)"
    by (simp add: posix_relative_def n_def Let_def)
  have "n = 0"
  proof (rule ccontr)
    assume "n \<noteq> 0"
    then obtain m where "n = Suc m" by (cases n) auto
    then have "posix_relative root cand = ''..'' \<or> starts_with (posix_relative root cand) ''../''"
      unfolding rel starts_with_def by (cases m; cases ?rest) auto
    moreover have "posix_relative root cand \<noteq> []"
      unfolding rel using \<open>n = Suc m\<close> by (cases m; cases ?rest) auto
    ultimately show False using assms by (auto simp: assertContained_def posix_def guard_else_eq_Inr Let_def)
  qed
  then have "length ?f \<le> length ?p" by (simp add: n_def)
  moreover have "prefix ?p ?f" "prefix ?p ?t" by (rule longest_common_prefix_prefix1, rule longest_common_prefix_prefix2)
  ultimately show ?thesis by (metis prefix_order.eq_iff prefix_length_prefix prefix_order.refl)
qed

text \<open>The walk has inspected every prefix of the path up to where it ends.\<close>

definition stage :: "string \<Rightarrow> string list \<Rightarrow> nat \<Rightarrow> string" where
  "stage root segs k = posix_path (posix_components root @ take k segs)"

lemma stage_Suc:
  assumes "clean_segments slash (s # segs)"
  shows "stage root (s # segs) (Suc k) = stage (posix_resolve root [s]) segs k"
proof -
  have "clean_segments slash [s]" using assms by (simp add: clean_segments_def)
  moreover from this have "clean_segments slash (posix_components root @ [s])"
    using posix_components_clean by (simp add: clean_append)
  ultimately show ?thesis by (simp add: stage_def posix_resolve_clean posix_components_path)
qed

lemma walk_found:
  assumes "walk posix lstat root segs leaf = Inr (Some st)" "clean_segments slash segs" "segs \<noteq> []"
  shows "lstat (stage root segs (length segs)) = Found st \<and> st \<noteq> StSymlink
       \<and> (\<forall>k. 1 \<le> k \<and> k < length segs \<longrightarrow> lstat (stage root segs k) = Found StDirectory)"
  using assms
proof (induction segs arbitrary: root leaf)
  case (Cons s segs)
  let ?next = "posix_resolve root [s]"
  note stage = stage_Suc [OF Cons.prems(2), of root]
  have first: "stage ?next segs 0 = ?next"
    using Cons.prems(2) by (simp add: stage_def posix_resolve_def posix_components_path posix_components_clean)
  from Cons.prems(1) obtain e where e: "lstat ?next = Found e" "e \<noteq> StSymlink" "segs \<noteq> [] \<longrightarrow> e = StDirectory"
    "walk posix lstat ?next segs e = Inr (Some st)"
    by (auto simp: posix_def Let_def split: lstat_result.splits if_splits)
  show ?case
  proof (cases "segs = []")
    case True
    with e stage first show ?thesis by simp
  next
    case False
    have "clean_segments slash segs" using Cons.prems(2) by (simp add: clean_segments_def)
    note IH = Cons.IH [OF e(4) this False]
    have "lstat (stage root (s # segs) k) = Found StDirectory" if "1 \<le> k" "k < length (s # segs)" for k
      using that stage IH e False first by (cases k; cases "k - 1") auto
    with IH stage show ?thesis by simp
  qed
qed simp

lemma walk_missing:
  assumes "walk posix lstat root segs leaf = Inr None" "clean_segments slash segs"
  shows "\<exists>k. 1 \<le> k \<and> k \<le> length segs \<and> lstat (stage root segs k) = NotFound
       \<and> (\<forall>j. 1 \<le> j \<and> j < k \<longrightarrow> lstat (stage root segs j) = Found StDirectory)"
  using assms
proof (induction segs arbitrary: root leaf)
  case (Cons s segs)
  let ?next = "posix_resolve root [s]"
  note stage = stage_Suc [OF Cons.prems(2), of root]
  have first: "stage ?next segs 0 = ?next"
    using Cons.prems(2) by (simp add: stage_def posix_resolve_def posix_components_path posix_components_clean)
  have clean: "clean_segments slash segs" using Cons.prems(2) by (simp add: clean_segments_def)
  from Cons.prems(1) consider "lstat ?next = NotFound"
    | e where "lstat ?next = Found e" "segs \<noteq> [] \<longrightarrow> e = StDirectory" "walk posix lstat ?next segs e = Inr None"
    by (auto simp: posix_def Let_def split: lstat_result.splits if_splits)
  then show ?case
  proof cases
    case 1
    with stage [of 0] first show ?thesis by (intro exI [of _ 1]) auto
  next
    case 2
    then have ne: "segs \<noteq> []" by auto
    from Cons.IH [OF 2(3) clean] obtain k where k: "1 \<le> k" "k \<le> length segs" "lstat (stage ?next segs k) = NotFound"
      "\<And>j. 1 \<le> j \<Longrightarrow> j < k \<Longrightarrow> lstat (stage ?next segs j) = Found StDirectory" by blast
    have "lstat (stage root (s # segs) j) = Found StDirectory" if "1 \<le> j" "j < Suc k" for j
      using that stage k(4) 2 ne first by (cases j; cases "j - 1") auto
    with k stage show ?thesis by (intro exI [of _ "Suc k"]) auto
  qed
qed simp

definition path_segments :: "string \<Rightarrow> string list" where
  "path_segments relative = (if relative = ''.'' then [] else split_on slash relative)"

lemma normalized_segments:
  assumes "normalizeLocalTransferRelativePath win32 val = Inr r"
  shows "clean_segments slash (path_segments r)" "path_segments r = (if val = ''.'' then [] else segments_of is_sep val)"
proof -
  have "clean_segments slash (path_segments r) \<and> path_segments r = (if val = ''.'' then [] else segments_of is_sep val)"
  proof (cases "val = ''.''")
    case True
    with assms have "r = ''.''"
      by (auto simp: normalizeLocalTransferRelativePath_def result_elims Let_def)
    then show ?thesis using True by (simp add: path_segments_def clean_segments_def)
  next
    case False
    let ?segs = "segments_of is_sep val"
    from assms False have r: "r = join_with ''/'' ?segs" "?segs \<noteq> []" and c: "clean_segments is_sep ?segs"
      by (auto simp: normalizeLocalTransferRelativePath_def result_elims Let_def dest: clean_checked)
    then have split: "split_on slash r = ?segs" by (auto simp: clean_segments_def is_sep_def intro!: split_join)
    have "r \<noteq> ''.''"
    proof
      assume "r = ''.''"
      then have "?segs = [''.'']" using split by (simp flip: split)
      then show False using c by (simp add: clean_segments_def)
    qed
    with split False c show ?thesis by (auto simp: path_segments_def clean_segments_def is_sep_def)
  qed
  then show "clean_segments slash (path_segments r)" "path_segments r = (if val = ''.'' then [] else segments_of is_sep val)"
    by blast+
qed

definition has_kind :: "file_stats \<Rightarrow> entry_kind \<Rightarrow> bool" where
  "has_kind st kind = (case st of StFile n \<Rightarrow> kind = KindFile \<and> 0 \<le> n | StDirectory \<Rightarrow> kind = KindDirectory | _ \<Rightarrow> False)"

lemma classify_ok: "classifyEntry st = Inr kind \<Longrightarrow> (case st of StFile n \<Rightarrow> kind = KindFile | StDirectory \<Rightarrow> kind = KindDirectory | _ \<Rightarrow> False)"
  by (auto simp: classifyEntry_def split: file_stats.splits)

lemma safeLstat_ok: "safeLstat lstat p code = Inr st \<longleftrightarrow> lstat p = Found st"
  by (auto simp: safeLstat_def split: lstat_result.splits)

lemma required_ok: "(case x of None \<Rightarrow> Inl e | Some p \<Rightarrow> Inr p) = Inr q \<longleftrightarrow> x = Some q"
  by (simp split: option.splits)

lemma resolve_existing_ok:
  assumes "resolve_existing posix lstat realpath root cand rel kind leaf = Inr rp"
  shows "\<exists>p st. rp = \<lparr>rp_rootPath = root, rp_absolutePath = p, rp_relativePath = rel, rp_exists = True,
            rp_kind = Some kind, rp_size = (case st of StFile n \<Rightarrow> Some n | _ \<Rightarrow> None)\<rparr>
          \<and> realpath cand = Some p \<and> lstat p = Found st \<and> has_kind st kind
          \<and> prefix (posix_components root) (posix_components p)"
proof -
  from assms obtain p st where "realpath cand = Some p" "assertContained posix root p = Inr ()"
    "lstat p = Found st" "classifyEntry st = Inr kind" "case st of StFile n \<Rightarrow> is_safe_integer n \<and> \<not> n < 0 | _ \<Rightarrow> True"
    "rp = \<lparr>rp_rootPath = root, rp_absolutePath = p, rp_relativePath = rel, rp_exists = True,
            rp_kind = Some kind, rp_size = (case st of StFile n \<Rightarrow> Some n | _ \<Rightarrow> None)\<rparr>"
    by (auto simp: resolve_existing_def result_elims safeLstat_ok split: option.splits)
  with classify_ok [of st kind] contained_prefix [of root p] show ?thesis
    by (intro exI [of _ p] exI [of _ st]) (auto simp: has_kind_def split: file_stats.splits)
qed

text \<open>
  C26: On a POSIX gateway a local path that resolves is the requested one below the configured root. The
  configured root is absolute and itself a directory, not a link, and its real path, a directory too, is the root of the
  result. The segments of the request, none of them \<open>..\<close>, are followed from there: the
  result lies below that root component by component, and was reached without a symbolic link, as every
  proper ancestor below the root is a directory up to the entry itself or up to the first missing component; the entry
  found is of the requested kind. A missing entry is only accepted for a destination.\<close>

theorem resolved_path_confined:
  assumes "resolveLocalTransferPath posix lstat realpath root input kind mustExist = Inr rp"
  shows "let configured = posix_path (posix_components root);
      segs = (if input = ''.'' then [] else segments_of is_sep input); at = stage (rp_rootPath rp) segs in
    posix_isAbsolute root \<and> lstat configured = Found StDirectory \<and> realpath configured = Some (rp_rootPath rp)
    \<and> lstat (rp_rootPath rp) = Found StDirectory
    \<and> ''..'' \<notin> set segs \<and> ''.'' \<notin> set segs \<and> path_segments (rp_relativePath rp) = segs
    \<and> prefix (posix_components (rp_rootPath rp)) (posix_components (rp_absolutePath rp))
    \<and> (if rp_exists rp
        then rp_kind rp = Some kind \<and> realpath (at (length segs)) = Some (rp_absolutePath rp)
          \<and> (\<exists>st. lstat (rp_absolutePath rp) = Found st \<and> has_kind st kind)
          \<and> (\<forall>k. 1 \<le> k \<and> k < length segs \<longrightarrow> lstat (at k) = Found StDirectory)
          \<and> (segs = [] \<or> (\<exists>st. lstat (at (length segs)) = Found st \<and> st \<noteq> StSymlink))
        else \<not> mustExist \<and> rp_absolutePath rp = at (length segs)
          \<and> (\<exists>k. 1 \<le> k \<and> k \<le> length segs \<and> lstat (at k) = NotFound
               \<and> (\<forall>j. 1 \<le> j \<and> j < k \<longrightarrow> lstat (at j) = Found StDirectory)))"
proof -
  let ?lex = "pa_resolve posix root []"
  have win: "pa_win32 posix = False" and res: "pa_resolve posix = posix_resolve" by (simp_all add: posix_def)
  have lex: "?lex = posix_path (posix_components root)" by (simp add: res posix_resolve_def)
  from assms obtain rel canon walked u v where
    root: "validateLocalRoot posix root = Inr v" "lstat ?lex = Found StDirectory" "realpath ?lex = Some canon"
    and rel: "normalizeLocalTransferRelativePath False input = Inr rel"
    and canon: "lstat canon = Found StDirectory"
    and inside: "assertContained posix canon (posix_resolve canon (path_segments rel)) = Inr u"
    and walked: "walk posix lstat canon (path_segments rel) StDirectory = Inr walked"
    and final: "(case walked of
       None \<Rightarrow>
         if mustExist then Inl (TransferPathError PathNotFound ''Local transfer source was not found'')
         else Inr \<lparr>rp_rootPath = canon, rp_absolutePath = posix_resolve canon (path_segments rel), rp_relativePath = rel,
                   rp_exists = False, rp_kind = None, rp_size = None\<rparr>
     | Some leaf \<Rightarrow> resolve_existing posix lstat realpath canon (posix_resolve canon (path_segments rel)) rel kind leaf) = Inr rp"
    unfolding resolveLocalTransferPath_def Let_def win res path_segments_def
    by (auto simp only: result_elims safeLstat_ok required_ok)
  let ?segs = "path_segments rel"
  have clean: "clean_segments slash ?segs" by (rule normalized_segments(1) [OF rel])
  have segs: "(if input = ''.'' then [] else segments_of is_sep input) = ?segs" using normalized_segments(2) [OF rel] by simp
  have abs: "posix_isAbsolute root" using root(1) by (simp add: validateLocalRoot_def result_elims win path_isAbsolute_def)
  have dots: "''..'' \<notin> set ?segs" "''.'' \<notin> set ?segs" using clean by (auto simp: clean_segments_def)
  note known = abs root(2,3) [unfolded lex] canon dots
  have cand: "posix_resolve canon ?segs = stage canon ?segs (length ?segs)"
    by (simp add: posix_resolve_clean [OF clean] stage_def)
  show ?thesis
  proof (cases walked)
    case None
    with final have "\<not> mustExist" and rp: "rp = \<lparr>rp_rootPath = canon, rp_absolutePath = stage canon ?segs (length ?segs),
        rp_relativePath = rel, rp_exists = False, rp_kind = None, rp_size = None\<rparr>"
      by (simp_all add: cand split: if_splits)
    with walk_missing [OF walked [unfolded None] clean] contained_prefix [OF inside [unfolded cand]] known
    show ?thesis unfolding segs by (simp add: Let_def)
  next
    case (Some leaf)
    with final have "resolve_existing posix lstat realpath canon (stage canon ?segs (length ?segs)) rel kind leaf = Inr rp"
      by (simp add: cand)
    from resolve_existing_ok [OF this] obtain p st where
      "rp = \<lparr>rp_rootPath = canon, rp_absolutePath = p, rp_relativePath = rel, rp_exists = True,
            rp_kind = Some kind, rp_size = (case st of StFile n \<Rightarrow> Some n | _ \<Rightarrow> None)\<rparr>"
      "realpath (stage canon ?segs (length ?segs)) = Some p" "lstat p = Found st" "has_kind st kind"
      "prefix (posix_components canon) (posix_components p)" by blast
    with walk_found [OF walked [unfolded Some] clean] known show ?thesis
      unfolding segs by (cases "?segs = []") (auto simp: Let_def)
  qed
qed

definition example_lstat :: "string \<Rightarrow> lstat_result" where
  "example_lstat p =
     (if p = ''/srv'' \<or> p = ''/srv/in'' then Found StDirectory
      else if p = ''/srv/in/a.txt'' then Found (StFile 5) else NotFound)"

theorem resolved_path_confined_witness:
  "(case resolveLocalTransferPath posix example_lstat Some ''/srv/'' ''in//a.txt'' KindFile True of
      Inl _ \<Rightarrow> False
    | Inr rp \<Rightarrow> rp_exists rp \<and> rp_absolutePath rp = ''/srv/in/a.txt'' \<and> rp_rootPath rp = ''/srv''
        \<and> prefix (posix_components ''/srv'') (posix_components (rp_absolutePath rp)))"
proof -
  let ?r = "resolveLocalTransferPath posix example_lstat Some ''/srv/'' ''in//a.txt'' KindFile True"
  have "(case ?r of Inl _ \<Rightarrow> False | Inr rp \<Rightarrow> rp_exists rp \<and> rp_absolutePath rp = ''/srv/in/a.txt'')" by code_simp
  then obtain rp where rp: "?r = Inr rp" "rp_exists rp \<and> rp_absolutePath rp = ''/srv/in/a.txt''"
    by (cases ?r) auto
  have "posix_path (posix_components ''/srv/'') = ''/srv''" by code_simp
  with resolved_path_confined [OF rp(1)] have "rp_rootPath rp = ''/srv''"
    "prefix (posix_components (rp_rootPath rp)) (posix_components (rp_absolutePath rp))"
    unfolding Let_def by (metis option.inject, blast)
  with rp(2) show ?thesis unfolding rp(1) sum.case by simp
qed

end
