(* ===== verification/RemoteCommand.thy ===== *)
theory RemoteCommand
  imports Protocol Base64 TransferPaths "HOL-Library.List_Lexorder" "HOL-Library.Multiset"
begin

text \<open>
  \<^verbatim>\<open>src/src/core/remote-command.ts\<close>: how a script, a working directory and an environment become a
  fixed remote command line and a text on its standard input. The lemmas show that user text never
  reaches the command line, that a POSIX shell and the PowerShell wrapper read back
  exactly the text that was given, and that the standard input is small enough for the
  process runner.
\<close>

section \<open>Definitions\<close>

definition WINDOWS_POWERSHELL_REMOTE_COMMAND :: string where
  "WINDOWS_POWERSHELL_REMOTE_COMMAND = ''powershell.exe -NoLogo -NoProfile -NonInteractive -Command -''"

definition POSIX_BASH_REMOTE_COMMAND :: string where
  "POSIX_BASH_REMOTE_COMMAND = ''bash --noprofile --norc -s''"

datatype remote_shell = PowerShell | Cmd | Bash

definition shell_name :: "remote_shell \<Rightarrow> string" where
  "shell_name shell = (case shell of PowerShell \<Rightarrow> ''powershell'' | Cmd \<Rightarrow> ''cmd'' | Bash \<Rightarrow> ''bash'')"

definition platform_name :: "platform \<Rightarrow> string" where
  "platform_name p = (case p of Windows \<Rightarrow> ''windows'' | Linux \<Rightarrow> ''linux'' | MacOS \<Rightarrow> ''macos'')"

record structured_input =
  si_shell :: remote_shell
  si_script :: string
  si_cwd :: "string option"
  si_env :: "(string, string) jsmap option"
  si_encoding :: "string option"

record prepared_command =
  pc_command :: string
  pc_stdin :: "bytes option"

definition MAX_ENVIRONMENT_ENTRIES :: nat where "MAX_ENVIRONMENT_ENTRIES = 64"

text \<open>\<open>/^[A-Za-z_][A-Za-z0-9_]{0,127}$/\<close>\<close>

definition ENVIRONMENT_NAME_PATTERN :: "string \<Rightarrow> bool" where
  "ENVIRONMENT_NAME_PATTERN s =
     (case s of
        [] \<Rightarrow> False
      | c # cs \<Rightarrow> (is_alpha c \<or> c = CHR ''_'') \<and> list_all (\<lambda>d. is_alnum d \<or> d = CHR ''_'') cs \<and> length cs \<le> 127)"

definition WINDOWS_COMPLETION :: string where
  "WINDOWS_COMPLETION = join_with '';''
    [''$agentSshCommandSucceeded=$?'',
     ''$agentSshNativeExitVariable=Microsoft.PowerShell.Utility'' @ [backslash] @
       ''Get-Variable -Name LASTEXITCODE -Scope Global -ErrorAction SilentlyContinue'',
     ''$agentSshNativeExitCode=if($null -eq $agentSshNativeExitVariable){$null}else{$agentSshNativeExitVariable.Value}'',
     ''if($agentSshCommandSucceeded){exit 0}'',
     ''if($agentSshNativeExitCode -is [int] -and $agentSshNativeExitCode -ne 0){exit $agentSshNativeExitCode}'',
     ''exit 1'']"

definition WINDOWS_UTF8_SETUP :: "string list" where
  "WINDOWS_UTF8_SETUP =
    [''$agentSshUtf8=[System.Text.UTF8Encoding]::new($false)'',
     ''[Console]::InputEncoding=$agentSshUtf8'',
     ''[Console]::OutputEncoding=$agentSshUtf8'',
     ''$OutputEncoding=$agentSshUtf8'']"

definition invalidStructuredCommand :: "string \<Rightarrow> (string, detail) jsmap option \<Rightarrow> thrown" where
  "invalidStructuredCommand message details = Gateway (new_gateway_error InvalidParams message None details)"

definition powershell_open :: string where
  "powershell_open = ''[System.Text.Encoding]::UTF8.GetString([Convert]::FromBase64String('' @ [quote_char]"

definition powershellUtf8Expression :: "string \<Rightarrow> string" where
  "powershellUtf8Expression val = powershell_open @ base64 (buffer_from val) @ [quote_char] @ ''))''"

definition quotePosixLiteral :: "string \<Rightarrow> string" where
  "quotePosixLiteral val =
     [quote_char] @ replace_char quote_char [quote_char, backslash, quote_char, quote_char] val @ [quote_char]"

text \<open>The loop over the entries; \<open>seen\<close> is the set \<open>normalizedNames\<close>.\<close>

fun check_environment :: "bool \<Rightarrow> string list \<Rightarrow> (string \<times> string) list \<Rightarrow> bool" where
  "check_environment ignoreCase seen [] = True"
| "check_environment ignoreCase seen ((name, val) # entries) =
     (let normalizedName = (if ignoreCase then to_lower name else name) in
      if \<not> ENVIRONMENT_NAME_PATTERN name \<or> normalizedName \<in> set seen \<or> nul_char \<in> set val then False
      else check_environment ignoreCase (normalizedName # seen) entries)"

definition validateEnvironment ::
  "(string, string) jsmap option \<Rightarrow> bool \<Rightarrow> thrown + (string \<times> string) list" where
  "validateEnvironment val environmentNamesIgnoreCase =
     (case val of
        None \<Rightarrow> Inr []
      | Some entries \<Rightarrow>
          if length entries > MAX_ENVIRONMENT_ENTRIES
          then Inl (invalidStructuredCommand ''Remote environment has too many entries''
                 (Some [(''maximumEnvironmentEntries'', DNumber (int MAX_ENVIRONMENT_ENTRIES))]))
          else if \<not> check_environment environmentNamesIgnoreCase [] entries
          then Inl (invalidStructuredCommand ''Remote environment is invalid'' None)
          else Inr (sort_key fst entries))"

definition payload_bytes :: "structured_input \<Rightarrow> (string \<times> string) list \<Rightarrow> nat" where
  "payload_bytes input environment =
     length (si_script input) + (case si_cwd input of None \<Rightarrow> 0 | Some cwd \<Rightarrow> length cwd)
     + sum_list (map (\<lambda>(name, val). length name + length val) environment)"

definition shell_supported :: "platform \<Rightarrow> remote_shell \<Rightarrow> bool" where
  "shell_supported platform shell \<longleftrightarrow>
     (platform = Windows \<and> (shell = PowerShell \<or> shell = Cmd))
     \<or> ((platform = Linux \<or> platform = MacOS) \<and> shell = Bash)"

definition validateStructuredInput ::
  "platform \<Rightarrow> structured_input \<Rightarrow> thrown + (string \<times> string) list" where
  "validateStructuredInput platform input =
     and_then (guard_else (shell_supported platform (si_shell input))
       (invalidStructuredCommand ''Shell is not supported for the target platform''
         (Some [(''platform'', DString (platform_name platform)), (''shell'', DString (shell_name (si_shell input)))]))) (\<lambda>_.
     and_then (guard_else (\<not> (is_blank (si_script input) \<or> nul_char \<in> set (si_script input)))
       (invalidStructuredCommand ''Structured script is invalid'' None)) (\<lambda>_.
     and_then (guard_else (case si_cwd input of None \<Rightarrow> True | Some cwd \<Rightarrow> \<not> (is_blank cwd \<or> has_line_break cwd))
       (invalidStructuredCommand ''Remote working directory is invalid'' None)) (\<lambda>_.
     and_then (guard_else (case si_encoding input of None \<Rightarrow> True | Some e \<Rightarrow> e = ''utf-8'')
       (invalidStructuredCommand ''Structured command encoding is not supported'' None)) (\<lambda>_.
     and_then (validateEnvironment (si_env input) (si_shell input \<noteq> Bash)) (\<lambda>environment.
     and_then (guard_else (\<not> payload_bytes input environment > MAX_COMMAND_BYTES)
       (invalidStructuredCommand ''Structured command payload is too large''
         (Some [(''maximumPayloadBytes'', DNumber (int MAX_COMMAND_BYTES))]))) (\<lambda>_.
     Inr environment))))))"

definition set_environment_statement :: "string \<times> string \<Rightarrow> string" where
  "set_environment_statement entry =
     ''try{[System.Environment]::SetEnvironmentVariable('' @ powershellUtf8Expression (fst entry) @ '','' @
     powershellUtf8Expression (snd entry) @
     '',[System.EnvironmentVariableTarget]::Process)}catch{[Console]::Error.WriteLine('' @ [quote_char] @
     ''Remote environment setup failed.'' @ [quote_char] @ '');exit 1}''"

definition set_location_statement :: "string \<Rightarrow> string" where
  "set_location_statement cwd =
     ''try{Set-Location -LiteralPath ('' @ powershellUtf8Expression cwd @
     '') -ErrorAction Stop}catch{[Console]::Error.WriteLine('' @ [quote_char] @
     ''Remote working directory is unavailable.'' @ [quote_char] @ '');exit 1}''"

definition prepareWindowsContext :: "string option \<Rightarrow> (string \<times> string) list \<Rightarrow> string list" where
  "prepareWindowsContext cwd environment =
     map set_environment_statement environment
     @ (case cwd of None \<Rightarrow> [] | Some c \<Rightarrow> [set_location_statement c])"

definition powershell_create :: string where
  "powershell_create =
     ''try{$agentSshScript=[ScriptBlock]::Create($agentSshCommandText)}catch{[Console]::Error.WriteLine('' @ [quote_char] @
     ''PowerShell command parsing failed.'' @ [quote_char] @ '');exit 1}''"

definition powershell_run :: string where
  "powershell_run =
     ''try{& $agentSshScript 2>&1|ForEach-Object{if($_ -is [System.Management.Automation.ErrorRecord])'' @
     ''{[Console]::Error.WriteLine($_.Exception.Message)}else{$_}}}catch{[Console]::Error.WriteLine($_.Exception.Message);exit 1}''"

definition prepareWindowsPowerShellScript :: "string \<Rightarrow> string list \<Rightarrow> prepared_command" where
  "prepareWindowsPowerShellScript script context =
     (let commandText = script @ [newline, newline] @ WINDOWS_COMPLETION;
          wrapper = join_with '';'' (WINDOWS_UTF8_SETUP @ context @
            [''$agentSshCommandText='' @ powershellUtf8Expression commandText, powershell_create, powershell_run])
      in \<lparr>pc_command = WINDOWS_POWERSHELL_REMOTE_COMMAND, pc_stdin = Some (buffer_from (wrapper @ [newline]))\<rparr>)"

definition cmd_executable :: string where
  "cmd_executable =
     ''$agentSshCmdExecutable=[System.IO.Path]::Combine($env:SystemRoot,'' @ [quote_char] @
     ''System32'' @ [quote_char] @ '','' @ [quote_char] @ ''cmd.exe'' @ [quote_char] @ '')''"

definition cmd_batch_path :: string where
  "cmd_batch_path =
     ''$agentSshBatchPath=[System.IO.Path]::Combine($agentSshTempDirectory,('' @ [quote_char] @
     ''agent-ssh-'' @ [quote_char] @ ''+[System.Guid]::NewGuid().ToString('' @ [quote_char] @ ''N'' @ [quote_char] @
     '')+'' @ [quote_char] @ ''.cmd'' @ [quote_char] @ ''))''"

definition cmd_run :: string where
  "cmd_run =
     ''try{$agentSshBatchBytes=$agentSshUtf8.GetBytes($agentSshBatchText);'' @
     ''$agentSshBatchStream=[System.IO.File]::Open($agentSshBatchPath,[System.IO.FileMode]::CreateNew,'' @
     ''[System.IO.FileAccess]::Write,[System.IO.FileShare]::None);'' @
     ''try{$agentSshBatchStream.Write($agentSshBatchBytes,0,$agentSshBatchBytes.Length)}finally{$agentSshBatchStream.Dispose()};'' @
     ''& $agentSshCmdExecutable '' @ [quote_char] @ ''/d'' @ [quote_char] @ '' '' @ [quote_char] @ ''/q'' @ [quote_char] @ '' '' @
     [quote_char] @ ''/s'' @ [quote_char] @ '' '' @ [quote_char] @ ''/c'' @ [quote_char] @ '' ('' @
     [quote_char] @ ''call '' @ [dquote_char, quote_char] @ ''+$agentSshBatchPath+'' @ [quote_char, dquote_char, quote_char] @ '');'' @
     ''if($global:LASTEXITCODE -is [int]){$agentSshBatchExitCode=$global:LASTEXITCODE}}catch{[Console]::Error.WriteLine('' @
     [quote_char] @ ''Command Prompt execution failed.'' @ [quote_char] @
     '');$agentSshBatchExitCode=1}finally{try{[System.IO.File]::Delete($agentSshBatchPath)}catch{}}''"

definition prepareWindowsCmdScript :: "structured_input \<Rightarrow> (string \<times> string) list \<Rightarrow> prepared_command" where
  "prepareWindowsCmdScript input environment =
     (let batchText = join_with [return_char, newline] [''@echo off'', ''chcp 65001 >nul'', si_script input];
          wrapper = join_with '';'' (WINDOWS_UTF8_SETUP @
            [cmd_executable, ''$agentSshTempDirectory=[System.IO.Path]::GetTempPath()''] @
            prepareWindowsContext (si_cwd input) environment @
            [''$agentSshBatchText='' @ powershellUtf8Expression batchText, cmd_batch_path,
             ''$agentSshBatchExitCode=1'', cmd_run, ''exit $agentSshBatchExitCode''])
      in \<lparr>pc_command = WINDOWS_POWERSHELL_REMOTE_COMMAND, pc_stdin = Some (buffer_from (wrapper @ [newline]))\<rparr>)"

definition bash_failure :: "string \<Rightarrow> string" where
  "bash_failure message =
     '' 2>/dev/null; then printf '' @ [quote_char] @ ''%s'' @ [backslash] @ ''n'' @ [quote_char] @ '' '' @
     [quote_char] @ message @ [quote_char] @ '' >&2; exit 1; fi''"

definition bash_export :: "string \<times> string \<Rightarrow> string" where
  "bash_export entry =
     ''if ! export '' @ fst entry @ ''='' @ quotePosixLiteral (snd entry) @ bash_failure ''Remote environment setup failed.''"

definition bash_cd :: "string \<Rightarrow> string" where
  "bash_cd cwd = ''if ! cd -- '' @ quotePosixLiteral cwd @ bash_failure ''Remote working directory is unavailable.''"

definition preparePosixBashScript :: "structured_input \<Rightarrow> (string \<times> string) list \<Rightarrow> prepared_command" where
  "preparePosixBashScript input environment =
     (let prelude = map bash_export environment @ (case si_cwd input of None \<Rightarrow> [] | Some c \<Rightarrow> [bash_cd c])
      in \<lparr>pc_command = POSIX_BASH_REMOTE_COMMAND,
          pc_stdin = Some (buffer_from (join_with [newline] (prelude @ [si_script input, []])))\<rparr>)"

definition prepareRemoteCommand :: "platform \<Rightarrow> string \<Rightarrow> thrown + prepared_command" where
  "prepareRemoteCommand platform command =
     (if platform \<noteq> Windows then Inr \<lparr>pc_command = command, pc_stdin = None\<rparr>
      else if length command > MAX_COMMAND_BYTES
      then Inl (gateway_with InvalidParams ''Command is too long for a Windows target''
             [(''maximumCommandBytes'', DNumber (int MAX_COMMAND_BYTES))])
      else Inr (prepareWindowsPowerShellScript command []))"

definition prepareStructuredRemoteCommand :: "platform \<Rightarrow> structured_input \<Rightarrow> thrown + prepared_command" where
  "prepareStructuredRemoteCommand platform input =
     and_then (validateStructuredInput platform input) (\<lambda>environment.
     Inr (case si_shell input of
        PowerShell \<Rightarrow> prepareWindowsPowerShellScript (si_script input) (prepareWindowsContext (si_cwd input) environment)
      | Cmd \<Rightarrow> prepareWindowsCmdScript input environment
      | Bash \<Rightarrow> preparePosixBashScript input environment))"

section \<open>Reading the standard input back\<close>

text \<open>
  How a POSIX shell reads a word: single quotes keep everything up to the next quote, a backslash
  outside of quotes keeps the next character, letters, digits and a few marks stand for
  themselves, a blank or line end closes the word and any other character is not handled.
  The first argument says whether the reader is inside quotes.
\<close>

definition word_char :: "char \<Rightarrow> bool" where
  "word_char c \<longleftrightarrow> is_alnum c \<or> c \<in> set ''_=-./''"

fun posix_word :: "bool \<Rightarrow> string \<Rightarrow> (string \<times> string) option" where
  "posix_word True [] = None"
| "posix_word True (c # s) =
     (if c = quote_char then posix_word False s else map_option (apfst ((#) c)) (posix_word True s))"
| "posix_word False [] = Some ([], [])"
| "posix_word False (c # s) =
     (if c = quote_char then posix_word True s
      else if c = CHR '' '' \<or> c = newline then Some ([], c # s)
      else if c = backslash then (case s of [] \<Rightarrow> None | d # s1 \<Rightarrow> map_option (apfst ((#) d)) (posix_word False s1))
      else if word_char c then map_option (apfst ((#) c)) (posix_word False s)
      else None)"

definition strip_prefix :: "string \<Rightarrow> string \<Rightarrow> string option" where
  "strip_prefix p s = (if prefix p s then Some (drop (length p) s) else None)"

text \<open>One line of the prelude: fixed text, a word, fixed text up to the line end.\<close>

definition read_statement :: "string \<Rightarrow> string \<Rightarrow> string \<Rightarrow> (string \<times> string) option" where
  "read_statement start message s =
     Option.bind (strip_prefix start s) (\<lambda>s1.
     Option.bind (posix_word False s1) (\<lambda>(w, s2).
     map_option (Pair w) (strip_prefix (bash_failure message @ [newline]) s2)))"

fun read_exports :: "nat \<Rightarrow> string \<Rightarrow> ((string \<times> string) list \<times> string) option" where
  "read_exports 0 s = Some ([], s)"
| "read_exports (Suc n) s =
     Option.bind (read_statement ''if ! export '' ''Remote environment setup failed.'' s) (\<lambda>(w, s1).
     map_option (apfst ((#) (takeWhile (\<lambda>c. c \<noteq> CHR ''='') w, tl (dropWhile (\<lambda>c. c \<noteq> CHR ''='') w))))
       (read_exports n s1))"

definition read_bash :: "nat \<Rightarrow> bool \<Rightarrow> string \<Rightarrow> ((string \<times> string) list \<times> string option \<times> string) option" where
  "read_bash n has_cwd s =
     Option.bind (read_exports n s) (\<lambda>(env, s1).
     if has_cwd
     then map_option (\<lambda>(w, s2). (env, Some w, s2))
            (read_statement ''if ! cd -- '' ''Remote working directory is unavailable.'' s1)
     else Some (env, None, s1))"

lemma posix_word_inside:
  "posix_word True (replace_char quote_char [quote_char, backslash, quote_char, quote_char] v @ quote_char # rest)
   = map_option (apfst ((@) v)) (posix_word False rest)"
proof (induction v)
  case Nil
  show ?case by (cases "posix_word False rest") (auto simp: replace_char_def apfst_def map_prod_def)
next
  case (Cons c v)
  then show ?case by (cases "posix_word False rest") (auto simp: replace_char_def)
qed

lemma posix_word_quoted:
  "posix_word False (quotePosixLiteral v @ rest) = map_option (apfst ((@) v)) (posix_word False rest)"
  using posix_word_inside [of v rest] by (simp add: quotePosixLiteral_def)

lemma word_char_plain: "word_char c \<Longrightarrow> c \<noteq> quote_char \<and> c \<noteq> CHR '' '' \<and> c \<noteq> newline \<and> c \<noteq> backslash"
  by (auto simp: word_char_def is_alnum_def is_alpha_def char_code_simps)

lemma posix_word_plain:
  "list_all word_char w \<Longrightarrow> posix_word False (w @ rest) = map_option (apfst ((@) w)) (posix_word False rest)"
proof (induction w)
  case Nil
  show ?case by (cases "posix_word False rest") (auto simp: apfst_def map_prod_def)
next
  case (Cons c w)
  with word_char_plain [of c] show ?case by (cases "posix_word False rest") auto
qed

lemma strip_prefix_append [simp]: "strip_prefix p (p @ s) = Some s"
  by (simp add: strip_prefix_def)

lemma bash_failure_space: "\<exists>t. bash_failure m = CHR '' '' # t"
  by (simp add: bash_failure_def)

lemma read_statement_ok:
  assumes "\<And>rest. posix_word False (w @ CHR '' '' # rest) = Some (v, CHR '' '' # rest)"
  shows "read_statement start message (start @ w @ bash_failure message @ newline # s) = Some (v, s)"
proof -
  obtain t where t: "bash_failure message = CHR '' '' # t" using bash_failure_space by blast
  have "posix_word False (w @ bash_failure message @ newline # s) = Some (v, (bash_failure message @ [newline]) @ s)"
    using assms [of "t @ newline # s"] by (simp add: t)
  then show ?thesis unfolding read_statement_def strip_prefix_append by (simp del: append_assoc)
qed

lemma environment_name_chars: "ENVIRONMENT_NAME_PATTERN name \<Longrightarrow> list_all word_char name \<and> CHR ''='' \<notin> set name"
  by (cases name) (auto simp: ENVIRONMENT_NAME_PATTERN_def word_char_def is_alnum_def is_alpha_def
      char_code_simps list_all_iff)

lemma read_export_ok:
  assumes "ENVIRONMENT_NAME_PATTERN name"
  shows "read_statement ''if ! export '' ''Remote environment setup failed.'' (bash_export (name, val) @ newline # s)
    = Some (name @ CHR ''='' # val, s)"
proof -
  have "list_all word_char (name @ ''='')"
    using environment_name_chars [OF assms] by (simp add: word_char_def)
  then have "posix_word False ((name @ ''='' @ quotePosixLiteral val) @ CHR '' '' # rest)
      = Some (name @ CHR ''='' # val, CHR '' '' # rest)" for rest
    using posix_word_plain [of "name @ ''=''" "quotePosixLiteral val @ CHR '' '' # rest"]
      posix_word_quoted [of val "CHR '' '' # rest"] by simp
  from read_statement_ok [OF this, of "''if ! export ''" "''Remote environment setup failed.''" s]
  show ?thesis by (simp add: bash_export_def)
qed

lemma read_exports_ok:
  assumes "\<forall>(name, val) \<in> set env. ENVIRONMENT_NAME_PATTERN name"
  shows "read_exports (length env) (concat (map (\<lambda>e. bash_export e @ [newline]) env) @ s) = Some (env, s)"
  using assms
proof (induction env)
  case (Cons e env)
  obtain name val where e: "e = (name, val)" by (cases e)
  with Cons.prems have pat: "ENVIRONMENT_NAME_PATTERN name" by simp
  have "takeWhile (\<lambda>c. c \<noteq> CHR ''='') (name @ CHR ''='' # val) = name"
    "dropWhile (\<lambda>c. c \<noteq> CHR ''='') (name @ CHR ''='' # val) = CHR ''='' # val"
    using environment_name_chars [OF pat] by (auto simp: takeWhile_append dropWhile_append)
  with Cons e read_export_ok [OF pat, of val] show ?case by simp
qed simp

lemma read_cd_ok:
  "read_statement ''if ! cd -- '' ''Remote working directory is unavailable.'' (bash_cd cwd @ newline # s) = Some (cwd, s)"
  using read_statement_ok [of "quotePosixLiteral cwd" cwd "''if ! cd -- ''"] posix_word_quoted [of cwd]
  by (simp add: bash_cd_def)

lemma join_lines: "join_with [newline] (xs @ [s, []]) = concat (map (\<lambda>x. x @ [newline]) xs) @ s @ [newline]"
proof (induction xs)
  case (Cons x xs)
  then show ?case by (cases xs) auto
qed simp

section \<open>Checked input\<close>

lemma check_environment_ok:
  "check_environment ic seen entries \<longleftrightarrow>
     distinct (map (\<lambda>e. if ic then to_lower (fst e) else fst e) entries)
     \<and> (\<forall>e \<in> set entries. (if ic then to_lower (fst e) else fst e) \<notin> set seen)
     \<and> (\<forall>e \<in> set entries. ENVIRONMENT_NAME_PATTERN (fst e) \<and> nul_char \<notin> set (snd e))"
proof (induction entries arbitrary: seen)
  case (Cons e entries)
  obtain name val where e: "e = (name, val)" by (cases e)
  have step: "check_environment ic seen (e # entries) \<longleftrightarrow> ENVIRONMENT_NAME_PATTERN name
      \<and> (if ic then to_lower name else name) \<notin> set seen \<and> nul_char \<notin> set val
      \<and> check_environment ic ((if ic then to_lower name else name) # seen) entries"
    by (auto simp add: e Let_def)
  show ?case unfolding step Cons.IH by (cases ic) (force simp: e)+
qed simp

definition environment_ok :: "bool \<Rightarrow> (string \<times> string) list \<Rightarrow> bool" where
  "environment_ok ignoreCase env \<longleftrightarrow>
     length env \<le> MAX_ENVIRONMENT_ENTRIES \<and> sorted (map fst env)
     \<and> distinct (map (\<lambda>e. if ignoreCase then to_lower (fst e) else fst e) env)
     \<and> list_all (\<lambda>e. ENVIRONMENT_NAME_PATTERN (fst e) \<and> nul_char \<notin> set (snd e)) env"

lemma validateEnvironment_ok:
  assumes "validateEnvironment val ic = Inr env"
  shows "environment_ok ic env" "mset env = (case val of None \<Rightarrow> {#} | Some entries \<Rightarrow> mset entries)"
proof -
  have "environment_ok ic env \<and> mset env = (case val of None \<Rightarrow> {#} | Some entries \<Rightarrow> mset entries)"
  proof (cases val)
    case None
    with assms show ?thesis by (simp add: validateEnvironment_def environment_ok_def)
  next
    case (Some entries)
    let ?norm = "\<lambda>e. if ic then to_lower (fst e) else fst e"
    from assms Some have env: "env = sort_key fst entries" and len: "length entries \<le> MAX_ENVIRONMENT_ENTRIES"
      and chk: "check_environment ic [] entries" by (auto simp: validateEnvironment_def split: if_splits)
    have "mset (map ?norm env) = mset (map ?norm entries)" by (simp add: env)
    then have "distinct (map ?norm env) = distinct (map ?norm entries)" by (rule mset_eq_imp_distinct_iff)
    with chk len show ?thesis
      by (simp add: check_environment_ok environment_ok_def list_all_iff Some env)
  qed
  then show "environment_ok ic env" "mset env = (case val of None \<Rightarrow> {#} | Some entries \<Rightarrow> mset entries)" by blast+
qed

lemma validated_environment:
  assumes "validateStructuredInput platform input = Inr env"
  shows "environment_ok (si_shell input \<noteq> Bash) env" "payload_bytes input env \<le> MAX_COMMAND_BYTES"
    "shell_supported platform (si_shell input)"
    "mset env = (case si_env input of None \<Rightarrow> {#} | Some entries \<Rightarrow> mset entries)"
  using assms validateEnvironment_ok [of "si_env input" "si_shell input \<noteq> Bash" env]
  by (auto simp: validateStructuredInput_def result_elims)

section \<open>Properties\<close>

text \<open>
  A structured command that is accepted passes its environment on exactly: the same entries,
  in ascending order of their names, names unique (up to case for the Windows shells) and well
  formed, at most 64 of them, no text with a null character, and a payload within the byte limit.\<close>

theorem structured_environment_exact:
  assumes "validateStructuredInput platform input = Inr env"
  shows "mset env = mset (case si_env input of None \<Rightarrow> [] | Some entries \<Rightarrow> entries)
    \<and> environment_ok (platform = Windows) env
    \<and> payload_bytes input env \<le> 65536 \<and> \<not> is_blank (si_script input) \<and> nul_char \<notin> set (si_script input)"
proof -
  have "(si_shell input \<noteq> Bash) = (platform = Windows)"
    using validated_environment(3) [OF assms] by (auto simp: shell_supported_def)
  with validated_environment [OF assms] assms show ?thesis
    by (auto simp: validateStructuredInput_def result_elims MAX_COMMAND_BYTES_def split: option.splits)
qed

definition example_input :: structured_input where
  "example_input = \<lparr>si_shell = Bash, si_script = ''ls'', si_cwd = Some ''/tmp'',
     si_env = Some [(''B'', ''2''), (''A'', [quote_char])], si_encoding = None\<rparr>"

lemma example_input_valid: "validateStructuredInput Linux example_input = Inr [(''A'', [quote_char]), (''B'', ''2'')]"
proof -
  have "validateEnvironment (si_env example_input) False = Inr [(''A'', [quote_char]), (''B'', ''2'')]"
    "\<not> is_blank (si_script example_input)" "\<not> is_blank ''/tmp''" "\<not> has_line_break ''/tmp''" by code_simp+
  then show ?thesis
    by (simp add: validateStructuredInput_def example_input_def shell_supported_def payload_bytes_def MAX_COMMAND_BYTES_def)
qed

theorem structured_environment_exact_witness:
  "validateStructuredInput Linux example_input = Inr [(''A'', [quote_char]), (''B'', ''2'')]
   \<and> environment_ok False [(''A'', [quote_char]), (''B'', ''2'')]"
  using structured_environment_exact [OF example_input_valid] example_input_valid by simp

text \<open>
  C31: For \<open>bash\<close> the remote command line is a constant and a POSIX shell reading the standard
  input gets, whatever characters they hold, exactly the environment entries in order, the working
  directory if one was given, and then the script unchanged.\<close>

theorem bash_input_reads_back:
  assumes "prepareStructuredRemoteCommand platform input = Inr pc" "si_shell input = Bash"
  shows "\<exists>env stdin. validateStructuredInput platform input = Inr env
     \<and> pc = \<lparr>pc_command = POSIX_BASH_REMOTE_COMMAND, pc_stdin = Some stdin\<rparr>
     \<and> read_bash (length env) (si_cwd input \<noteq> None) (map char_of_byte stdin)
        = Some (env, si_cwd input, si_script input @ [newline])"
proof -
  from assms obtain env where env: "validateStructuredInput platform input = Inr env"
    and pc: "pc = preparePosixBashScript input env"
    by (auto simp: prepareStructuredRemoteCommand_def and_then_eq_Inr)
  have pat: "\<forall>(name, val) \<in> set env. ENVIRONMENT_NAME_PATTERN name"
    using validated_environment(1) [OF env] by (auto simp: environment_ok_def list_all_iff)
  let ?cd = "case si_cwd input of None \<Rightarrow> [] | Some c \<Rightarrow> [bash_cd c]"
  let ?prelude = "map bash_export env @ ?cd"
  define body where "body = join_with [newline] (?prelude @ [si_script input, []])"
  have "body = concat (map (\<lambda>x. x @ [newline]) ?prelude) @ si_script input @ [newline]"
    unfolding body_def by (rule join_lines)
  then have body: "body = concat (map (\<lambda>e. bash_export e @ [newline]) env)
      @ concat (map (\<lambda>x. x @ [newline]) ?cd) @ si_script input @ [newline]" by (simp add: comp_def)
  have "read_bash (length env) (si_cwd input \<noteq> None) body = Some (env, si_cwd input, si_script input @ [newline])"
    unfolding read_bash_def body read_exports_ok [OF pat] by (cases "si_cwd input") (simp_all add: read_cd_ok)
  moreover have "pc = \<lparr>pc_command = POSIX_BASH_REMOTE_COMMAND, pc_stdin = Some (buffer_from body)\<rparr>"
    by (simp add: pc preparePosixBashScript_def body_def Let_def)
  ultimately show ?thesis using env by (auto simp: char_of_byte_buffer)
qed

theorem bash_input_reads_back_witness:
  "(case prepareStructuredRemoteCommand Linux example_input of Inl _ \<Rightarrow> False | Inr pc \<Rightarrow>
      pc_command pc = POSIX_BASH_REMOTE_COMMAND
      \<and> read_bash 2 True (map char_of_byte (the (pc_stdin pc)))
         = Some ([(''A'', [quote_char]), (''B'', ''2'')], Some ''/tmp'', ''ls'' @ [newline]))"
proof -
  note v = example_input_valid
  then have p: "prepareStructuredRemoteCommand Linux example_input
      = Inr (preparePosixBashScript example_input [(''A'', [quote_char]), (''B'', ''2'')])"
    by (simp add: prepareStructuredRemoteCommand_def example_input_def)
  have "si_shell example_input = Bash" by (simp add: example_input_def)
  from bash_input_reads_back [OF p this] show ?thesis unfolding p sum.case v
    by (auto simp: example_input_def numeral_2_eq_2)
qed

section \<open>The PowerShell wrapper\<close>

text \<open>
  The texts a PowerShell line carries in encoded form: wherever the decoding expression starts, the
  base64 literal up to the closing quote, decoded.
\<close>

definition encoded_literal :: "string \<Rightarrow> string" where
  "encoded_literal s =
     map char_of_byte (from_base64 (takeWhile (\<lambda>c. c \<noteq> quote_char) (drop (length powershell_open) s)))"

fun encoded_texts :: "string \<Rightarrow> string list" where
  "encoded_texts [] = []"
| "encoded_texts (c # s) = (if prefix powershell_open (c # s) then [encoded_literal (c # s)] else []) @ encoded_texts s"

lemma encoded_texts_other [simp]: "c \<noteq> CHR ''['' \<Longrightarrow> encoded_texts (c # s) = encoded_texts s"
  by (simp add: powershell_open_def)

lemma encoded_texts_bracket:
  "encoded_texts (CHR ''['' # s) =
     (if prefix powershell_open (CHR ''['' # s) then [encoded_literal (CHR ''['' # s)] else []) @ encoded_texts s"
  by simp

declare encoded_texts.simps(2) [simp del]

lemma encoded_texts_append: "CHR ''['' \<notin> set x \<Longrightarrow> encoded_texts (x @ s) = encoded_texts s"
  by (induction x) auto

lemma base64_plain: "c \<in> set (base64 bs) \<Longrightarrow> c \<noteq> quote_char \<and> c \<noteq> CHR ''[''"
  by (drule base64_chars) (auto simp: base64_char_def is_alnum_def is_alpha_def char_code_simps)

lemma literal_of_expression: "encoded_literal (powershellUtf8Expression v @ s) = v"
proof -
  have "takeWhile (\<lambda>c. c \<noteq> quote_char) (base64 (buffer_from v) @ quote_char # t) = base64 (buffer_from v)" for t
    using base64_plain by (auto simp: takeWhile_append2)
  then show ?thesis
    by (simp add: encoded_literal_def powershellUtf8Expression_def from_base64_base64 char_of_byte_buffer)
qed

lemma encoded_expression: "encoded_texts (powershellUtf8Expression v @ s) = v # encoded_texts s"
proof -
  let ?e = "powershellUtf8Expression v @ s"
  obtain t where t: "?e = CHR ''['' # t @ ''))'' @ s" 
      "t = ''System.Text.Encoding]::UTF8.GetString([Convert]::FromBase64String('' @ [quote_char] @ base64 (buffer_from v) @ [quote_char]"
    by (simp add: powershellUtf8Expression_def powershell_open_def)
  have "encoded_texts (t @ ''))'' @ s) = encoded_texts (base64 (buffer_from v) @ quote_char # ''))'' @ s)"
    unfolding t(2) by (simp add: encoded_texts_bracket powershell_open_def)
  also have "\<dots> = encoded_texts s"
  proof -
    have "CHR ''['' \<notin> set (base64 (buffer_from v))" using base64_plain by blast
    then show ?thesis by (simp add: encoded_texts_append)
  qed
  finally have rest: "encoded_texts (t @ ''))'' @ s) = encoded_texts s" .
  have "prefix powershell_open ?e" by (simp add: powershellUtf8Expression_def)
  then have "encoded_texts ?e = [encoded_literal ?e] @ encoded_texts (t @ ''))'' @ s)" 
    unfolding t(1) by (simp add: encoded_texts_bracket)
  then show ?thesis unfolding rest literal_of_expression by simp
qed

lemma encoded_environment:
  "encoded_texts (set_environment_statement (name, val) @ s) = name # val # encoded_texts s"
  by (simp add: set_environment_statement_def encoded_expression encoded_texts_bracket powershell_open_def)

lemma encoded_location: "encoded_texts (set_location_statement cwd @ s) = cwd # encoded_texts s"
  by (simp add: set_location_statement_def encoded_expression encoded_texts_bracket powershell_open_def)

lemma join_Cons: "ys \<noteq> [] \<Longrightarrow> join_with sep (x # ys) = x @ sep @ join_with sep ys"
  by (cases ys) simp_all

lemma join_append: "xs \<noteq> [] \<Longrightarrow> ys \<noteq> [] \<Longrightarrow> join_with sep (xs @ ys) = join_with sep xs @ sep @ join_with sep ys"
proof (induction xs)
  case (Cons x xs)
  then show ?case by (cases xs) (simp_all add: join_Cons)
qed simp

definition context_texts :: "string option \<Rightarrow> (string \<times> string) list \<Rightarrow> string list" where
  "context_texts cwd env = concat (map (\<lambda>(name, val). [name, val]) env) @ (case cwd of None \<Rightarrow> [] | Some c \<Rightarrow> [c])"

lemma encoded_context:
  assumes "ys \<noteq> []"
  shows "encoded_texts (join_with '';'' (prepareWindowsContext cwd env @ ys)) = context_texts cwd env @ encoded_texts (join_with '';'' ys)"
proof (induction env)
  case Nil
  show ?case using assms
    by (cases cwd) (simp_all add: prepareWindowsContext_def context_texts_def join_Cons encoded_location)
next
  case (Cons e env)
  obtain name val where e: "e = (name, val)" by (cases e)
  have "prepareWindowsContext cwd (e # env) @ ys = set_environment_statement (name, val) # (prepareWindowsContext cwd env @ ys)"
    by (simp add: prepareWindowsContext_def e)
  moreover have "prepareWindowsContext cwd env @ ys \<noteq> []" using assms by simp
  ultimately show ?case using Cons
    by (simp add: join_Cons encoded_environment context_texts_def e)
qed

lemma encoded_setup: "ys \<noteq> [] \<Longrightarrow> encoded_texts (join_with '';'' (WINDOWS_UTF8_SETUP @ ys)) = encoded_texts (join_with '';'' ys)"
  by (simp add: WINDOWS_UTF8_SETUP_def join_Cons encoded_texts_bracket powershell_open_def)

lemma encoded_tail:
  "encoded_texts (join_with '';'' [powershell_create, powershell_run]) = []"
  by (simp add: powershell_create_def powershell_run_def encoded_texts_bracket powershell_open_def)

lemma encoded_cmd_tail:
  "encoded_texts (join_with '';'' [cmd_batch_path, ''$agentSshBatchExitCode=1'', cmd_run, ''exit $agentSshBatchExitCode'']) = []"
  by (simp add: cmd_batch_path_def cmd_run_def encoded_texts_bracket powershell_open_def)

definition printable :: "char \<Rightarrow> bool" where
  "printable c \<longleftrightarrow> 32 \<le> (of_char c :: nat) \<and> (of_char c :: nat) \<le> 126"

lemma base64_printable: "list_all printable (base64 bs)"
  unfolding list_all_iff
  by (auto dest!: base64_chars simp: printable_def base64_char_def is_alnum_def is_alpha_def char_code_simps)

lemma printable_fixed: "list_all printable powershell_open" "list_all printable powershell_create"
  "list_all printable powershell_run" "list_all printable cmd_batch_path" "list_all printable cmd_run"
  "list_all printable cmd_executable" "list_all (list_all printable) WINDOWS_UTF8_SETUP"
  by (simp_all add: powershell_open_def powershell_create_def powershell_run_def cmd_batch_path_def cmd_run_def
     cmd_executable_def WINDOWS_UTF8_SETUP_def printable_def)

lemma printable_expression: "list_all printable (powershellUtf8Expression v)"
  by (simp add: powershellUtf8Expression_def printable_fixed base64_printable) (simp add: printable_def)

lemma printable_context: "list_all (list_all printable) (prepareWindowsContext cwd env)"
proof -
  have "list_all printable (set_environment_statement e)" for e
    by (simp add: set_environment_statement_def printable_expression) (simp add: printable_def)
  moreover have "list_all printable (set_location_statement c)" for c
    by (simp add: set_location_statement_def printable_expression) (simp add: printable_def)
  ultimately show ?thesis by (auto simp: prepareWindowsContext_def list_all_iff split: option.splits)
qed

lemma printable_join: "list_all (list_all printable) xs \<Longrightarrow> list_all printable (join_with '';'' xs)"
proof (induction xs)
  case (Cons x xs)
  have "printable (CHR '';'')" by (simp add: printable_def)
  with Cons show ?case by (cases xs) simp_all
qed simp


definition powershell_program :: "string \<Rightarrow> string" where
  "powershell_program script = script @ [newline, newline] @ WINDOWS_COMPLETION"

lemma powershell_wrapper:
  assumes "pc = prepareWindowsPowerShellScript script (prepareWindowsContext cwd env)"
  shows "\<exists>line. pc = \<lparr>pc_command = WINDOWS_POWERSHELL_REMOTE_COMMAND, pc_stdin = Some (buffer_from (line @ [newline]))\<rparr>
    \<and> list_all printable line \<and> encoded_texts line = context_texts cwd env @ [powershell_program script]"
proof -
  let ?rest = "[''$agentSshCommandText='' @ powershellUtf8Expression (powershell_program script), powershell_create, powershell_run]"
  define line where "line = join_with '';'' (WINDOWS_UTF8_SETUP @ prepareWindowsContext cwd env @ ?rest)"
  have "encoded_texts line = context_texts cwd env @ encoded_texts (join_with '';'' ?rest)"
    unfolding line_def by (simp only: encoded_setup [of "_ @ ?rest"] encoded_context append_is_Nil_conv not_Cons_self2 list.distinct simp_thms)
  also have "encoded_texts (join_with '';'' ?rest) = [powershell_program script]"
    using encoded_tail by (simp add: encoded_expression)
  finally have "encoded_texts line = context_texts cwd env @ [powershell_program script]" .
  moreover have "list_all printable line"
    unfolding line_def
    by (intro printable_join) (simp add: printable_fixed printable_context printable_expression, simp add: printable_def)
  moreover have "pc = \<lparr>pc_command = WINDOWS_POWERSHELL_REMOTE_COMMAND, pc_stdin = Some (buffer_from (line @ [newline]))\<rparr>"
    by (simp add: assms prepareWindowsPowerShellScript_def Let_def line_def powershell_program_def)
  ultimately show ?thesis by blast
qed

definition cmd_program :: "string \<Rightarrow> string" where
  "cmd_program script = join_with [return_char, newline] [''@echo off'', ''chcp 65001 >nul'', script]"

lemma cmd_wrapper:
  assumes "pc = prepareWindowsCmdScript input env"
  shows "\<exists>line. pc = \<lparr>pc_command = WINDOWS_POWERSHELL_REMOTE_COMMAND, pc_stdin = Some (buffer_from (line @ [newline]))\<rparr>
    \<and> list_all printable line \<and> encoded_texts line = context_texts (si_cwd input) env @ [cmd_program (si_script input)]"
proof -
  let ?rest = "[''$agentSshBatchText='' @ powershellUtf8Expression (cmd_program (si_script input)), cmd_batch_path,
     ''$agentSshBatchExitCode=1'', cmd_run, ''exit $agentSshBatchExitCode'']"
  let ?start = "[cmd_executable, ''$agentSshTempDirectory=[System.IO.Path]::GetTempPath()'']"
  define body where "body = join_with '';'' (prepareWindowsContext (si_cwd input) env @ ?rest)"
  define line where "line = join_with '';'' (WINDOWS_UTF8_SETUP @ ?start @ prepareWindowsContext (si_cwd input) env @ ?rest)"
  have "encoded_texts line = encoded_texts (join_with '';'' (?start @ prepareWindowsContext (si_cwd input) env @ ?rest))"
    unfolding line_def by (rule encoded_setup) simp
  also have "\<dots> = encoded_texts (join_with '';'' ?start @ '';'' @ body)"
    unfolding body_def by (subst join_append) simp_all
  also have "\<dots> = encoded_texts body"
    by (simp add: cmd_executable_def encoded_texts_bracket powershell_open_def)
  also have "\<dots> = context_texts (si_cwd input) env @ encoded_texts (join_with '';'' ?rest)"
    unfolding body_def by (rule encoded_context) simp
  also have "encoded_texts (join_with '';'' ?rest) = [cmd_program (si_script input)]"
    using encoded_cmd_tail by (simp add: encoded_expression)
  finally have "encoded_texts line = context_texts (si_cwd input) env @ [cmd_program (si_script input)]" .
  moreover have "list_all printable line"
    unfolding line_def
    by (intro printable_join) (simp add: printable_fixed printable_context printable_expression, simp add: printable_def)
  moreover have "pc = \<lparr>pc_command = WINDOWS_POWERSHELL_REMOTE_COMMAND, pc_stdin = Some (buffer_from (line @ [newline]))\<rparr>"
    unfolding assms prepareWindowsCmdScript_def Let_def line_def cmd_program_def by simp
  ultimately show ?thesis by blast
qed

text \<open>
  C32: On Windows the remote command line is a constant, the standard input is a single line of
  printable ASCII, and the texts it carries in encoded form are exactly the names and values of
  the environment, the working directory and the script with its fixed frame, in that order: no user text
  stands in the line uncoded.\<close>

theorem windows_input_reads_back:
  assumes "prepareStructuredRemoteCommand Windows input = Inr pc"
  shows "\<exists>env line. validateStructuredInput Windows input = Inr env
    \<and> pc = \<lparr>pc_command = WINDOWS_POWERSHELL_REMOTE_COMMAND, pc_stdin = Some (buffer_from (line @ [newline]))\<rparr>
    \<and> list_all printable line
    \<and> encoded_texts line = context_texts (si_cwd input) env
        @ [if si_shell input = Cmd then cmd_program (si_script input) else powershell_program (si_script input)]"
proof -
  from assms obtain env where env: "validateStructuredInput Windows input = Inr env"
    and pc: "pc = (case si_shell input of
        PowerShell \<Rightarrow> prepareWindowsPowerShellScript (si_script input) (prepareWindowsContext (si_cwd input) env)
      | Cmd \<Rightarrow> prepareWindowsCmdScript input env | Bash \<Rightarrow> preparePosixBashScript input env)"
    by (auto simp: prepareStructuredRemoteCommand_def and_then_eq_Inr)
  have "si_shell input \<noteq> Bash" using validated_environment(3) [OF env] by (auto simp: shell_supported_def)
  with env pc cmd_wrapper [of pc input env] powershell_wrapper [of pc "si_script input" "si_cwd input" env]
  show ?thesis by (cases "si_shell input") auto
qed

definition example_windows_input :: structured_input where
  "example_windows_input = \<lparr>si_shell = Cmd, si_script = ''dir'', si_cwd = None,
     si_env = Some [(''A'', [quote_char, CHR '';''])], si_encoding = Some ''utf-8''\<rparr>"

lemma example_windows_valid: "validateStructuredInput Windows example_windows_input = Inr [(''A'', [quote_char, CHR '';''])]"
proof -
  have "validateEnvironment (si_env example_windows_input) True = Inr [(''A'', [quote_char, CHR '';''])]"
    "\<not> is_blank (si_script example_windows_input)" by code_simp+
  then show ?thesis
    by (simp add: validateStructuredInput_def example_windows_input_def shell_supported_def payload_bytes_def MAX_COMMAND_BYTES_def)
qed

theorem windows_input_reads_back_witness:
  "\<exists>line. prepareStructuredRemoteCommand Windows example_windows_input
       = Inr \<lparr>pc_command = WINDOWS_POWERSHELL_REMOTE_COMMAND, pc_stdin = Some (buffer_from (line @ [newline]))\<rparr>
     \<and> encoded_texts line = [''A'', [quote_char, CHR '';''], cmd_program ''dir'']"
proof -
  have p: "prepareStructuredRemoteCommand Windows example_windows_input
      = Inr (prepareWindowsCmdScript example_windows_input [(''A'', [quote_char, CHR '';''])])"
    by (simp add: prepareStructuredRemoteCommand_def example_windows_valid) (simp add: example_windows_input_def)
  from windows_input_reads_back [OF p] obtain line where
    "prepareWindowsCmdScript example_windows_input [(''A'', [quote_char, CHR '';''])]
      = \<lparr>pc_command = WINDOWS_POWERSHELL_REMOTE_COMMAND, pc_stdin = Some (buffer_from (line @ [newline]))\<rparr>"
    "encoded_texts line = context_texts (si_cwd example_windows_input) [(''A'', [quote_char, CHR '';''])]
      @ [cmd_program ''dir'']"
    unfolding example_windows_valid by (auto simp: example_windows_input_def)
  with p show ?thesis by (auto simp: context_texts_def example_windows_input_def)
qed

section \<open>Size of the standard input\<close>

lemma length_base64_le: "length (base64 bs) \<le> 2 * length bs + 4"
proof -
  have "length (sextets xs) \<le> 2 * length xs" for xs
    by (induction xs rule: sextets.induct) auto
  from this [of "map unat bs"] show ?thesis by (simp add: base64_def base64_pad_def)
qed

lemma length_expression: "length (powershellUtf8Expression v) \<le> 2 * length v + 80"
  using length_base64_le [of "buffer_from v"] by (simp add: powershellUtf8Expression_def powershell_open_def buffer_from_def)

lemma length_join_le: "length (join_with [a] xs) \<le> sum_list (map (\<lambda>x. Suc (length x)) xs)"
  using length_join [of xs a] by (cases "xs = []") auto

lemma length_context:
  "sum_list (map (\<lambda>x. Suc (length x)) (prepareWindowsContext cwd env))
   \<le> 400 * length env + 300 + 2 * (sum_list (map (\<lambda>(name, val). length name + length val) env)
      + (case cwd of None \<Rightarrow> 0 | Some c \<Rightarrow> length c))"
proof (induction env)
  case Nil
  show ?case
  proof (cases cwd)
    case (Some c)
    then show ?thesis using length_expression [of c] by (simp add: prepareWindowsContext_def set_location_statement_def)
  qed (simp add: prepareWindowsContext_def)
next
  case (Cons e env)
  obtain name val where e: "e = (name, val)" by (cases e)
  have "length (set_environment_statement e) \<le> 380 + 2 * (length name + length val)"
    using length_expression [of name] length_expression [of val] by (simp add: set_environment_statement_def e)
  with Cons show ?case by (simp add: prepareWindowsContext_def e)
qed

lemma length_fixed:
  "length powershell_create \<le> 200" "length powershell_run \<le> 300" "length cmd_batch_path \<le> 200"
  "length cmd_run \<le> 1000" "length cmd_executable \<le> 200" "length WINDOWS_COMPLETION \<le> 1000"
  "sum_list (map (\<lambda>x. Suc (length x)) WINDOWS_UTF8_SETUP) \<le> 300"
  by (simp_all add: powershell_create_def powershell_run_def cmd_batch_path_def cmd_run_def cmd_executable_def
      WINDOWS_COMPLETION_def WINDOWS_UTF8_SETUP_def)

lemma length_powershell:
  "length (the (pc_stdin (prepareWindowsPowerShellScript script context)))
   \<le> 3500 + 2 * length script + sum_list (map (\<lambda>x. Suc (length x)) context)"
proof -
  let ?t = "script @ [newline, newline] @ WINDOWS_COMPLETION"
  let ?xs = "WINDOWS_UTF8_SETUP @ context @ [''$agentSshCommandText='' @ powershellUtf8Expression ?t, powershell_create, powershell_run]"
  have "length (the (pc_stdin (prepareWindowsPowerShellScript script context))) = Suc (length (join_with '';'' ?xs))"
    by (simp add: prepareWindowsPowerShellScript_def Let_def buffer_from_def)
  moreover have "length (join_with '';'' ?xs) \<le> sum_list (map (\<lambda>x. Suc (length x)) ?xs)" by (rule length_join_le)
  ultimately show ?thesis using length_expression [of ?t] length_fixed by simp
qed

lemma length_cmd:
  "length (the (pc_stdin (prepareWindowsCmdScript input env)))
   \<le> 3500 + 2 * length (si_script input) + sum_list (map (\<lambda>x. Suc (length x)) (prepareWindowsContext (si_cwd input) env))"
proof -
  let ?t = "join_with [return_char, newline] [''@echo off'', ''chcp 65001 >nul'', si_script input]"
  let ?xs = "WINDOWS_UTF8_SETUP @ [cmd_executable, ''$agentSshTempDirectory=[System.IO.Path]::GetTempPath()''] @
            prepareWindowsContext (si_cwd input) env @
            [''$agentSshBatchText='' @ powershellUtf8Expression ?t, cmd_batch_path,
             ''$agentSshBatchExitCode=1'', cmd_run, ''exit $agentSshBatchExitCode'']"
  have "length (the (pc_stdin (prepareWindowsCmdScript input env))) = Suc (length (join_with '';'' ?xs))"
    by (simp add: prepareWindowsCmdScript_def Let_def buffer_from_def)
  moreover have "length (join_with '';'' ?xs) \<le> sum_list (map (\<lambda>x. Suc (length x)) ?xs)" by (rule length_join_le)
  ultimately show ?thesis using length_expression [of ?t] length_fixed by simp
qed

lemma length_quote: "length (quotePosixLiteral v) \<le> 4 * length v + 2"
proof -
  have "length (replace_char quote_char [quote_char, backslash, quote_char, quote_char] v) \<le> 4 * length v"
    by (induction v) (auto simp: replace_char_def)
  then show ?thesis by (simp add: quotePosixLiteral_def)
qed

lemma length_exports:
  "sum_list (map (\<lambda>x. Suc (length x)) (map bash_export env))
   \<le> 200 * length env + 4 * sum_list (map (\<lambda>(name, val). length name + length val) env)"
proof (induction env)
  case (Cons e env)
  obtain name val where e: "e = (name, val)" by (cases e)
  have "length (bash_export e) \<le> 190 + 4 * (length name + length val)"
    using length_quote [of val] by (simp add: bash_export_def bash_failure_def e)
  with Cons show ?case by (simp add: e)
qed simp

lemma length_bash:
  "length (the (pc_stdin (preparePosixBashScript input env))) \<le> 500 + 200 * length env + 4 * payload_bytes input env"
proof -
  let ?cd = "case si_cwd input of None \<Rightarrow> [] | Some c \<Rightarrow> [bash_cd c]"
  let ?xs = "(map bash_export env @ ?cd) @ [si_script input, []]"
  have "sum_list (map (\<lambda>x. Suc (length x)) ?cd) \<le> 200 + 4 * (case si_cwd input of None \<Rightarrow> 0 | Some c \<Rightarrow> length c)"
  proof (cases "si_cwd input")
    case (Some c)
    then show ?thesis using length_quote [of c] by (simp add: bash_cd_def bash_failure_def)
  qed simp
  moreover have "length (join_with [newline] ?xs) \<le> sum_list (map (\<lambda>x. Suc (length x)) ?xs)" by (rule length_join_le)
  moreover have "length (the (pc_stdin (preparePosixBashScript input env))) = length (join_with [newline] ?xs)"
    by (simp add: preparePosixBashScript_def Let_def buffer_from_def)
  ultimately show ?thesis using length_exports [of env] by (simp add: payload_bytes_def)
qed

text \<open>
  Whatever is accepted, the standard input made from it fits the bound of the process
  runner, so that a prepared command is never refused for its size.\<close>

theorem prepared_input_fits:
  "prepareStructuredRemoteCommand platform input = Inr pc \<or> prepareRemoteCommand platform command = Inr pc \<Longrightarrow>
   pc_stdin pc = Some stdin \<Longrightarrow> length stdin \<le> MAX_MANAGED_STDIN_BYTES"
proof (erule disjE)
  assume "prepareStructuredRemoteCommand platform input = Inr pc" and stdin: "pc_stdin pc = Some stdin"
  then obtain env where env: "validateStructuredInput platform input = Inr env"
    and pc: "pc = (case si_shell input of
        PowerShell \<Rightarrow> prepareWindowsPowerShellScript (si_script input) (prepareWindowsContext (si_cwd input) env)
      | Cmd \<Rightarrow> prepareWindowsCmdScript input env | Bash \<Rightarrow> preparePosixBashScript input env)"
    by (auto simp: prepareStructuredRemoteCommand_def and_then_eq_Inr)
  have "length env \<le> 64" "payload_bytes input env \<le> 65536"
    using validated_environment [OF env] by (simp_all add: environment_ok_def MAX_ENVIRONMENT_ENTRIES_def MAX_COMMAND_BYTES_def)
  moreover have "length stdin \<le> 4000 + 400 * length env + 4 * payload_bytes input env"
    using length_powershell [of "si_script input" "prepareWindowsContext (si_cwd input) env"] length_cmd [of input env]
      length_bash [of input env] length_context [of "si_cwd input" env] pc stdin
    by (cases "si_shell input") (simp_all add: payload_bytes_def)
  ultimately show ?thesis by (simp add: MAX_MANAGED_STDIN_BYTES_def)
next
  assume "prepareRemoteCommand platform command = Inr pc" and stdin: "pc_stdin pc = Some stdin"
  then have "length command \<le> 65536" "pc = prepareWindowsPowerShellScript command []"
    by (auto simp: prepareRemoteCommand_def MAX_COMMAND_BYTES_def split: if_splits)
  with stdin length_powershell [of command "[]"] show ?thesis by (simp add: MAX_MANAGED_STDIN_BYTES_def)
qed

theorem prepared_input_fits_witness:
  "\<exists>stdin. prepareStructuredRemoteCommand Linux example_input = Inr \<lparr>pc_command = POSIX_BASH_REMOTE_COMMAND, pc_stdin = Some stdin\<rparr>
     \<and> length stdin \<le> MAX_MANAGED_STDIN_BYTES"
proof -
  have p: "prepareStructuredRemoteCommand Linux example_input
      = Inr (preparePosixBashScript example_input [(''A'', [quote_char]), (''B'', ''2'')])"
    by (simp add: prepareStructuredRemoteCommand_def example_input_valid) (simp add: example_input_def)
  then obtain stdin where "prepareStructuredRemoteCommand Linux example_input
      = Inr \<lparr>pc_command = POSIX_BASH_REMOTE_COMMAND, pc_stdin = Some stdin\<rparr>"
    by (simp add: preparePosixBashScript_def Let_def)
  with prepared_input_fits [of Linux example_input "\<lparr>pc_command = POSIX_BASH_REMOTE_COMMAND, pc_stdin = Some stdin\<rparr>" "[]" stdin]
  show ?thesis by auto
qed

end
