(* ===== verification/Presets.thy ===== *)
theory Presets
  imports RemoteCommand
begin

text \<open>
  \<^verbatim>\<open>src/src/shared/operation-presets.ts\<close>: the catalogue of read-only operations, which presets grant
  them, the validation of a request and the script made from it. A request is a JSON value, as
  in the source, and each \<open>zod\<close> schema is a parser with an optional result. Names and
  descriptions of the catalogue, and the JSON schema \<open>z.toJSONSchema\<close> derives for a client, are
  left out; of the schema only the enumeration of allowed resources that the code writes into it is kept.
\<close>

section \<open>Catalogue\<close>

datatype preset_id = BasicInspection | LogInspection | DockerReadonly | DockerProtection

datatype operation_id =
    SystemIdentity | SystemCpu | SystemMemory | SystemDisk | SystemProcesses | SystemPorts
  | LogsFile | LogsService | DockerContainers | DockerStats | DockerHealth | DockerLogs

definition operation_name :: "operation_id \<Rightarrow> string" where
  "operation_name op =
     (case op of
        SystemIdentity \<Rightarrow> ''system.identity'' | SystemCpu \<Rightarrow> ''system.cpu'' | SystemMemory \<Rightarrow> ''system.memory''
      | SystemDisk \<Rightarrow> ''system.disk'' | SystemProcesses \<Rightarrow> ''system.processes'' | SystemPorts \<Rightarrow> ''system.ports''
      | LogsFile \<Rightarrow> ''logs.file'' | LogsService \<Rightarrow> ''logs.service'' | DockerContainers \<Rightarrow> ''docker.containers''
      | DockerStats \<Rightarrow> ''docker.stats'' | DockerHealth \<Rightarrow> ''docker.health'' | DockerLogs \<Rightarrow> ''docker.logs'')"

text \<open>\<open>operationIdSchema.options\<close>\<close>

definition operation_options :: "operation_id list" where
  "operation_options =
     [SystemIdentity, SystemCpu, SystemMemory, SystemDisk, SystemProcesses, SystemPorts, LogsFile, LogsService,
      DockerContainers, DockerStats, DockerHealth, DockerLogs]"

definition PERMISSION_PRESETS :: "(preset_id \<times> operation_id list) list" where
  "PERMISSION_PRESETS =
     [(BasicInspection, [SystemIdentity, SystemCpu, SystemMemory, SystemDisk, SystemProcesses, SystemPorts]),
      (LogInspection, [LogsFile, LogsService]),
      (DockerReadonly, [DockerContainers, DockerStats, DockerHealth, DockerLogs]),
      (DockerProtection, [])]"

record preset_selection =
  ps_presets :: "preset_id list"
  ps_logPaths :: "string list"
  ps_logServices :: "string list"

section \<open>Schemas\<close>

definition resource_pattern :: "string \<Rightarrow> string \<Rightarrow> bool" where
  "resource_pattern extra s =
     (case s of [] \<Rightarrow> False | c # cs \<Rightarrow> is_alnum c \<and> list_all (\<lambda>d. is_alnum d \<or> d \<in> set extra) cs \<and> length cs \<le> 127)"

definition resourceNameSchema :: "string \<Rightarrow> bool" where
  "resourceNameSchema s = resource_pattern ''_.@-'' s"

definition containerSchema :: "string \<Rightarrow> bool" where
  "containerSchema s = resource_pattern ''_.-'' s"

definition drive_absolute :: "string \<Rightarrow> bool" where
  "drive_absolute s = (case s of a # b # c # _ \<Rightarrow> is_alpha a \<and> b = CHR '':'' \<and> is_sep c | _ \<Rightarrow> False)"

definition logPathSchema :: "string \<Rightarrow> bool" where
  "logPathSchema s \<longleftrightarrow>
     1 \<le> utf16_length s \<and> utf16_length s \<le> 1024 \<and> \<not> list_ex is_control s
     \<and> (drive_absolute s \<or> (starts_with s ''/'' \<and> \<not> starts_with s ''//''))"

definition permissionPresetSelectionSchema :: "preset_selection \<Rightarrow> bool" where
  "permissionPresetSelectionSchema sel \<longleftrightarrow>
     length (ps_presets sel) \<le> 4 \<and> distinct (ps_presets sel)
     \<and> list_all logPathSchema (ps_logPaths sel) \<and> length (ps_logPaths sel) \<le> 32 \<and> distinct (ps_logPaths sel)
     \<and> list_all resourceNameSchema (ps_logServices sel) \<and> length (ps_logServices sel) \<le> 32 \<and> distinct (ps_logServices sel)"

definition operationIdSchema :: "json \<Rightarrow> operation_id option" where
  "operationIdSchema j = (case j of JString s \<Rightarrow> find (\<lambda>op. operation_name op = s) operation_options | _ \<Rightarrow> None)"

text \<open>A strict object: no other keys than the given ones.\<close>

definition strict_object :: "string list \<Rightarrow> json \<Rightarrow> (string \<times> json) list option" where
  "strict_object keys j =
     (case j of JObject obj \<Rightarrow> if list_all (\<lambda>(k, _). k \<in> set keys) obj then Some obj else None | _ \<Rightarrow> None)"

record operation_request =
  or_operation :: operation_id
  or_parameters :: "(string \<times> json) list"

definition operationRequestSchema :: "json \<Rightarrow> operation_request option" where
  "operationRequestSchema input =
     Option.bind (strict_object [''operation'', ''parameters''] input) (\<lambda>obj.
     Option.bind (map_of obj ''operation'') (\<lambda>opj.
     Option.bind (operationIdSchema opj) (\<lambda>op.
     case map_of obj ''parameters'' of
       None \<Rightarrow> Some \<lparr>or_operation = op, or_parameters = []\<rparr>
     | Some (JObject ps) \<Rightarrow> Some \<lparr>or_operation = op, or_parameters = ps\<rparr>
     | Some _ \<Rightarrow> None)))"

text \<open>\<open>z.number().int().min(1).max(hi).default(dflt)\<close> on an optional field.\<close>

definition bounded_int :: "int \<Rightarrow> int \<Rightarrow> json option \<Rightarrow> int option" where
  "bounded_int hi dflt j =
     (case j of None \<Rightarrow> Some dflt | Some (JInt n) \<Rightarrow> if 1 \<le> n \<and> n \<le> hi then Some n else None | Some _ \<Rightarrow> None)"

definition linesSchema :: "json option \<Rightarrow> int option" where
  "linesSchema = bounded_int 200 100"

definition limitSchema :: "json option \<Rightarrow> int option" where
  "limitSchema = bounded_int 100 30"

definition string_field :: "(string \<Rightarrow> bool) \<Rightarrow> json option \<Rightarrow> string option" where
  "string_field ok j = (case j of Some (JString s) \<Rightarrow> if ok s then Some s else None | _ \<Rightarrow> None)"

record operation_parameters =
  op_limit :: "int option"
  op_lines :: "int option"
  op_path :: "string option"
  op_service :: "string option"
  op_container :: "string option"

definition no_parameters :: operation_parameters where
  "no_parameters = \<lparr>op_limit = None, op_lines = None, op_path = None, op_service = None, op_container = None\<rparr>"

definition limit_parameters :: "(string \<times> json) list \<Rightarrow> operation_parameters option" where
  "limit_parameters ps =
     Option.bind (strict_object [''limit''] (JObject ps)) (\<lambda>obj.
     map_option (\<lambda>n. no_parameters\<lparr>op_limit := Some n\<rparr>) (limitSchema (map_of obj ''limit'')))"

text \<open>The schema of each operation's parameters.\<close>

definition parameterSchemas :: "operation_id \<Rightarrow> (string \<times> json) list \<Rightarrow> operation_parameters option" where
  "parameterSchemas op ps =
     (case op of
        SystemProcesses \<Rightarrow> limit_parameters ps
      | SystemPorts \<Rightarrow> limit_parameters ps
      | LogsFile \<Rightarrow>
          Option.bind (strict_object [''path'', ''lines''] (JObject ps)) (\<lambda>obj.
          Option.bind (string_field logPathSchema (map_of obj ''path'')) (\<lambda>path.
          map_option (\<lambda>n. no_parameters\<lparr>op_path := Some path, op_lines := Some n\<rparr>) (linesSchema (map_of obj ''lines''))))
      | LogsService \<Rightarrow>
          Option.bind (strict_object [''service'', ''lines''] (JObject ps)) (\<lambda>obj.
          Option.bind (string_field resourceNameSchema (map_of obj ''service'')) (\<lambda>service.
          map_option (\<lambda>n. no_parameters\<lparr>op_service := Some service, op_lines := Some n\<rparr>) (linesSchema (map_of obj ''lines''))))
      | DockerHealth \<Rightarrow>
          Option.bind (strict_object [''container''] (JObject ps)) (\<lambda>obj.
          map_option (\<lambda>c. no_parameters\<lparr>op_container := Some c\<rparr>) (string_field containerSchema (map_of obj ''container'')))
      | DockerLogs \<Rightarrow>
          Option.bind (strict_object [''container'', ''lines''] (JObject ps)) (\<lambda>obj.
          Option.bind (string_field containerSchema (map_of obj ''container'')) (\<lambda>c.
          map_option (\<lambda>n. no_parameters\<lparr>op_container := Some c, op_lines := Some n\<rparr>) (linesSchema (map_of obj ''lines''))))
      | _ \<Rightarrow> map_option (\<lambda>_. no_parameters) (strict_object [] (JObject ps)))"

section \<open>Granted operations\<close>

definition validPathForPlatform :: "string \<Rightarrow> platform \<Rightarrow> bool" where
  "validPathForPlatform path platform = (if platform = Windows then drive_absolute path else starts_with path ''/'')"

definition preset_allows :: "preset_selection \<Rightarrow> operation_id \<Rightarrow> bool" where
  "preset_allows sel op \<longleftrightarrow>
     list_ex (\<lambda>(preset, operations). preset \<in> set (ps_presets sel) \<and> op \<in> set operations) PERMISSION_PRESETS"

record operation_descriptor =
  od_id :: operation_id
  od_resources :: "string list option" \<comment> \<open>the enumeration written into the schema\<close>

definition listPresetOperations :: "preset_selection \<Rightarrow> platform \<Rightarrow> operation_descriptor list" where
  "listPresetOperations sel platform =
     (let ids = filter (preset_allows sel) operation_options;
          ids = filter (\<lambda>op. op \<noteq> LogsFile \<or> list_ex (\<lambda>p. validPathForPlatform p platform) (ps_logPaths sel)) ids;
          ids = filter (\<lambda>op. op \<noteq> LogsService \<or> length (ps_logServices sel) > 0) ids
      in map (\<lambda>op. \<lparr>od_id = op, od_resources =
           (if op = LogsFile then Some (filter (\<lambda>p. validPathForPlatform p platform) (ps_logPaths sel))
            else if op = LogsService then Some (ps_logServices sel) else None)\<rparr>) ids)"

section \<open>Scripts\<close>

definition sh_quote :: "string \<Rightarrow> string" where
  "sh_quote val = [quote_char] @ replace_char quote_char [quote_char, backslash, quote_char, quote_char] val @ [quote_char]"

definition ps_quote :: "string \<Rightarrow> string" where
  "ps_quote val = [quote_char] @ replace_char quote_char [quote_char, quote_char] val @ [quote_char]"

definition quote_for :: "platform \<Rightarrow> string \<Rightarrow> string" where
  "quote_for platform = (if platform = Windows then ps_quote else sh_quote)"

definition bounded :: "platform \<Rightarrow> string" where
  "bounded platform =
     (if platform = Windows then
      '' | ForEach-Object { $s=[string]$_; $s.Substring(0,[Math]::Min(1024,$s.Length)) } | Select-Object '' @
      ''-First 200''
      else '' | head -c 65536'')"

definition process_predicate :: "string \<Rightarrow> string" where
  "process_predicate service = ''process == '' @ [dquote_char] @ service @ [dquote_char]"

definition CPU_SCRIPTS :: "platform \<Rightarrow> string" where
  "CPU_SCRIPTS platform =
     (case platform of
      Linux \<Rightarrow>
      ''read -r _ u n s i w q sq st _ < /proc/stat'' @ [newline] @
      ''t1=$((u+n+s+i+w+q+sq+st)); i1=$((i+w))'' @ [newline] @ ''sleep 1'' @ [newline] @
      ''read -r _ u n s i w q sq st _ < /proc/stat'' @ [newline] @
      ''t2=$((u+n+s+i+w+q+sq+st)); i2=$((i+w))'' @ [newline] @ ''cores=$(getconf _NPROCESSORS_ONLN)'' @
      [newline] @ ''awk -v t='' @ [dquote_char] @ ''$((t2-t1))'' @ [dquote_char] @ '' -v idle='' @
      [dquote_char] @ ''$((i2-i1))'' @ [dquote_char] @ '' -v c='' @ [dquote_char] @ ''$cores'' @
      [dquote_char] @ '' '' @ [quote_char] @ ''BEGIN { if(t<=0) exit 1; printf '' @ [dquote_char] @
      ''AGENT_SSH_CPU %.4f %d'' @ [backslash] @ ''n'' @ [dquote_char] @ '', 100*(t-idle)/t,c }'' @
      [quote_char]
    | Windows \<Rightarrow>
      ''Start-Sleep -Seconds 1'' @ [newline] @
      ''$cpu=Get-CimInstance Win32_PerfFormattedData_PerfOS_Processor -Filter '' @ [dquote_char] @
      ''Name='' @ [quote_char] @ ''_Total'' @ [quote_char, dquote_char, newline] @
      ''$cores=(Get-CimInstance Win32_ComputerSystem).NumberOfLogicalProcessors'' @ [newline] @
      ''if ($null -eq $cpu -or $null -eq $cpu.PercentProcessorTime -or $null -eq $cores -or $cores -lt 1) { '' @
      ''throw '' @ [quote_char] @ ''CPU counters unavailable'' @ [quote_char] @ '' }'' @ [newline] @
      ''[Console]::WriteLine(('' @ [quote_char] @ ''AGENT_SSH_CPU {0} {1}'' @ [quote_char] @
      '' -f ([double]$cpu.PercentProcessorTime).ToString([Globalization.CultureInfo]::InvariantCulture),$cor'' @
      ''es))''
    | MacOS \<Rightarrow>
      ''idle=$(LC_ALL=C top -l 2 -s 1 -n 0 | awk '' @ [quote_char] @
      ''/CPU usage:/ {for(i=1;i<=NF;i++) if($i=='' @ [dquote_char] @ ''idle'' @ [dquote_char] @
      '') {v=$(i-1);gsub(/%/,'' @ [dquote_char, dquote_char] @ '',v)}} END {print v}'' @ [quote_char] @
      '')'' @ [newline] @ ''cores=$(sysctl -n hw.logicalcpu)'' @ [newline] @ ''awk -v idle='' @
      [dquote_char] @ ''$idle'' @ [dquote_char] @ '' -v c='' @ [dquote_char] @ ''$cores'' @
      [dquote_char] @ '' '' @ [quote_char] @ ''BEGIN {if(idle=='' @ [dquote_char, dquote_char] @
      '' || c<1) exit 1; printf '' @ [dquote_char] @ ''AGENT_SSH_CPU %.4f %d'' @ [backslash] @ ''n'' @
      [dquote_char] @ '',100-idle,c}'' @ [quote_char])"

definition system_identity_script :: "platform \<Rightarrow> string" where
  "system_identity_script platform =
     (case platform of
      Windows \<Rightarrow>
      ''$o=Get-CimInstance Win32_OperatingSystem; [pscustomobject]@'' @
      ''{hostname=[Environment]::MachineName; user=[Environment]::UserName; caption=$o.Caption; '' @
      ''version=$o.Version; architecture=$o.OSArchitecture} | ConvertTo-Json -Compress''
    | MacOS \<Rightarrow>
      ''hostname; id -un; sw_vers; uname -m''
    | Linux \<Rightarrow>
      ''hostname; id -un; uname -srmo'')"

definition system_memory_script :: "platform \<Rightarrow> string" where
  "system_memory_script platform =
     (case platform of
      Windows \<Rightarrow>
      ''Get-CimInstance Win32_OperatingSystem | Select-Object '' @
      ''TotalVisibleMemorySize,FreePhysicalMemory,TotalVirtualMemorySize,FreeVirtualMemory | ConvertTo-Json '' @
      ''-Compress''
    | MacOS \<Rightarrow>
      ''sysctl -n hw.memsize; vm_stat | head -n 30''
    | Linux \<Rightarrow>
      ''head -n 30 /proc/meminfo'')"

definition system_processes_script :: "platform \<Rightarrow> int \<Rightarrow> string" where
  "system_processes_script platform limit =
     (case platform of
      Windows \<Rightarrow>
      ''Get-Process | Sort-Object CPU -Descending | Select-Object -First '' @
      show_int limit @
      '' Id,ProcessName,CPU,WorkingSet64 | ConvertTo-Json -Compress''
    | MacOS \<Rightarrow>
      ''ps -axo pid,pcpu,pmem,comm -r | head -n '' @
      show_int (limit + 1)
    | Linux \<Rightarrow>
      ''ps -eo pid,pcpu,pmem,comm --sort=-pcpu | head -n '' @
      show_int (limit + 1))"

definition system_ports_script :: "platform \<Rightarrow> int \<Rightarrow> string" where
  "system_ports_script platform limit =
     (case platform of
      Windows \<Rightarrow>
      ''Get-NetTCPConnection -State Listen | Select-Object -First '' @
      show_int limit @
      '' LocalAddress,LocalPort,OwningProcess | ConvertTo-Json -Compress''
    | MacOS \<Rightarrow>
      ''lsof -nP -iTCP -sTCP:LISTEN | head -n '' @
      show_int (limit + 1)
    | Linux \<Rightarrow>
      ''ss -lntu | head -n '' @
      show_int (limit + 1))"

definition logs_service_script :: "platform \<Rightarrow> string \<Rightarrow> int \<Rightarrow> string" where
  "logs_service_script platform service lines =
     (let quote = quote_for platform in
     (case platform of
      Windows \<Rightarrow>
      ''Get-WinEvent -FilterHashtable @'' @ ''{LogName='' @
      quote service @
      '';StartTime=(Get-Date).AddHours(-1)} -MaxEvents '' @
      show_int lines @
      '' | Select-Object TimeCreated,Id,LevelDisplayName,@'' @ ''{Name='' @ [quote_char] @ ''Message'' @
      [quote_char] @
      '';Expression={$s=[string]$_.Message;$s.Substring(0,[Math]::Min(1024,$s.Length))}} | ConvertTo-Json '' @
      ''-Compress''
    | MacOS \<Rightarrow>
      ''/usr/bin/log show --last 1h --style compact --predicate '' @
      quote (process_predicate service) @
      '' | tail -n '' @
      show_int lines @
      bounded platform
    | Linux \<Rightarrow>
      ''journalctl --no-pager -u '' @
      quote service @
      '' --since '' @ [quote_char] @ ''1 hour ago'' @ [quote_char] @ '' -n '' @
      show_int lines @
      '' -o short-iso'' @
      bounded platform))"

definition system_disk_script :: "platform \<Rightarrow> string" where
  "system_disk_script platform =
     (case platform of
      Windows \<Rightarrow>
      ''Get-CimInstance Win32_LogicalDisk -Filter '' @ [quote_char] @ ''DriveType=3'' @ [quote_char] @
      '' | Select-Object -First 100 DeviceID,FileSystem,Size,FreeSpace | ConvertTo-Json -Compress''
    | _ \<Rightarrow>
      ''df -k -l -P | head -n 101'')"

definition logs_file_script :: "platform \<Rightarrow> string \<Rightarrow> int \<Rightarrow> string" where
  "logs_file_script platform path lines =
     (let quote = quote_for platform in
     (case platform of
      Windows \<Rightarrow>
      ''$f=Get-Item -LiteralPath '' @
      quote path @
      ''; if ($f -isnot [IO.FileInfo]) { throw '' @ [quote_char] @
      ''Authorized log resource is not a regular file'' @ [quote_char] @ '' }; Get-Content -LiteralPath '' @
      quote path @
      '' -Tail '' @
      show_int lines @
      '' -Encoding UTF8'' @
      bounded platform
    | _ \<Rightarrow>
      ''if [ ! -f '' @
      quote path @
      '' ]; then printf '' @ [quote_char] @ ''%s'' @ [backslash] @ ''n'' @ [quote_char] @ '' '' @
      [quote_char] @ ''Authorized log resource is not a regular file'' @ [quote_char] @
      '' >&2; exit 1; fi'' @ [newline] @ ''tail -n '' @
      show_int lines @
      '' '' @
      quote path @
      bounded platform))"

definition docker_containers_format :: "string" where
  "docker_containers_format =
     ''[{{json .ID}},{{json .Names}},{{json .Image}},{{json .Status}},{{json .Ports}}]''"

definition docker_stats_format :: "string" where
  "docker_stats_format =
     ''[{{json .ID}},{{json .Name}},{{json .CPUPerc}},{{json .MemUsage}},{{json .NetIO}},{{json .BlockIO}}]''"

definition docker_health_format :: "string" where
  "docker_health_format =
     ''[{{json .Id}},{{json .Name}},{{json .State.Status}},{{if .State.Health}}{{json '' @
      ''.State.Health.Status}}{{else}}null{{end}},{{.RestartCount}}]''"

definition first_hundred :: "platform \<Rightarrow> string" where
  "first_hundred platform = (if platform = Windows then '' | Select-Object -First 100'' else '' | head -n 100'')"

text \<open>The text of a parameter the schema of the operation guarantees.\<close>

definition text_of :: "string option \<Rightarrow> string" where
  "text_of v = (case v of None \<Rightarrow> ''undefined'' | Some s \<Rightarrow> s)"

definition operation_script :: "platform \<Rightarrow> operation_id \<Rightarrow> operation_parameters \<Rightarrow> string" where
  "operation_script platform op ps =
     (let limit = (case op_limit ps of None \<Rightarrow> 30 | Some n \<Rightarrow> n);
          lines = (case op_lines ps of None \<Rightarrow> 100 | Some n \<Rightarrow> n);
          quote = quote_for platform
      in case op of
        SystemIdentity \<Rightarrow> system_identity_script platform
      | SystemCpu \<Rightarrow> CPU_SCRIPTS platform
      | SystemMemory \<Rightarrow> system_memory_script platform
      | SystemDisk \<Rightarrow> system_disk_script platform
      | SystemProcesses \<Rightarrow> system_processes_script platform limit
      | SystemPorts \<Rightarrow> system_ports_script platform limit
      | LogsFile \<Rightarrow> logs_file_script platform (text_of (op_path ps)) lines
      | LogsService \<Rightarrow> logs_service_script platform (text_of (op_service ps)) lines
      | DockerContainers \<Rightarrow> ''docker ps -a --no-trunc --format '' @ quote docker_containers_format @ first_hundred platform
      | DockerStats \<Rightarrow> ''docker stats --no-stream --format '' @ quote docker_stats_format @ first_hundred platform
      | DockerHealth \<Rightarrow>
          ''docker inspect --type container --format '' @ quote docker_health_format @ '' '' @ quote (text_of (op_container ps))
      | DockerLogs \<Rightarrow>
          ''docker logs --timestamps --since 1h --tail '' @ show_int lines @ '' '' @ quote (text_of (op_container ps)) @
          '' 2>&1'' @ bounded platform)"

definition ps_native :: "operation_id \<Rightarrow> bool" where
  "ps_native op = starts_with (operation_name op) ''docker.''"

definition frame_script :: "platform \<Rightarrow> operation_id \<Rightarrow> string \<Rightarrow> string" where
  "frame_script platform op script =
     (if platform = Windows then
        ''$ErrorActionPreference='' @ [quote_char] @ (if ps_native op then ''Continue'' else ''Stop'') @ [quote_char, newline] @
        ''[Console]::OutputEncoding=[Text.UTF8Encoding]::new($false)'' @ [newline] @ script @
        (if ps_native op then [newline] @ ''if ($LASTEXITCODE -ne 0) { exit $LASTEXITCODE }'' else [])
      else
        ''set -o pipefail'' @ [newline] @ script @
        [newline] @ ''_agent_preset_status=$?'' @ [newline] @ ''if [ '' @ [dquote_char] @
      ''$_agent_preset_status'' @ [dquote_char] @ '' -eq 141 ]; then exit 0; else exit '' @
      [dquote_char] @ ''$_agent_preset_status'' @ [dquote_char] @ ''; fi'')"

record preset_command =
  pr_script :: string
  pr_shell :: remote_shell
  pr_encoding :: string

definition denied :: thrown where
  "denied = gateway CommandDenied (''Operation or resource is not allowed by this target'' @ [quote_char] @ ''s permission presets'')"

definition invalid :: thrown where
  "invalid = gateway InvalidParams
     ''Invalid preset operation parameters; use operation.list to inspect allowed parameters and resources''"

definition buildPresetOperation :: "preset_selection \<Rightarrow> platform \<Rightarrow> json \<Rightarrow> thrown + preset_command" where
  "buildPresetOperation sel platform input =
     (case operationRequestSchema input of
        None \<Rightarrow> Inl invalid
      | Some request \<Rightarrow>
          let op = or_operation request in
          if \<not> list_ex (\<lambda>d. od_id d = op) (listPresetOperations sel platform) then Inl denied
          else case parameterSchemas op (or_parameters request) of
            None \<Rightarrow> Inl invalid
          | Some ps \<Rightarrow>
              if op = LogsFile \<and> (text_of (op_path ps) \<notin> set (ps_logPaths sel) \<or> \<not> validPathForPlatform (text_of (op_path ps)) platform)
              then Inl denied
              else if op = LogsService \<and> text_of (op_service ps) \<notin> set (ps_logServices sel) then Inl denied
              else Inr \<lparr>pr_script = frame_script platform op (operation_script platform op ps),
                        pr_shell = (if platform = Windows then PowerShell else Bash), pr_encoding = ''utf-8''\<rparr>)"

section \<open>Checked requests\<close>

definition parameters_safe :: "operation_parameters \<Rightarrow> bool" where
  "parameters_safe ps \<longleftrightarrow>
     (case op_limit ps of None \<Rightarrow> True | Some n \<Rightarrow> 1 \<le> n \<and> n \<le> 100)
     \<and> (case op_lines ps of None \<Rightarrow> True | Some n \<Rightarrow> 1 \<le> n \<and> n \<le> 200)
     \<and> (case op_path ps of None \<Rightarrow> True | Some p \<Rightarrow> logPathSchema p)
     \<and> (case op_service ps of None \<Rightarrow> True | Some s \<Rightarrow> resourceNameSchema s)
     \<and> (case op_container ps of None \<Rightarrow> True | Some c \<Rightarrow> containerSchema c)"

lemma bounded_int_ok: "bounded_int hi dflt j = Some n \<Longrightarrow> 1 \<le> dflt \<Longrightarrow> dflt \<le> hi \<Longrightarrow> 1 \<le> n \<and> n \<le> hi"
  by (auto simp: bounded_int_def split: option.splits json.splits if_splits)

lemma lines_ok: "linesSchema j = Some n \<Longrightarrow> 1 \<le> n \<and> n \<le> 200"
  unfolding linesSchema_def by (rule bounded_int_ok [of 200 100]) simp_all

lemma limit_ok: "limitSchema j = Some n \<Longrightarrow> 1 \<le> n \<and> n \<le> 100"
  unfolding limitSchema_def by (rule bounded_int_ok [of 100 30]) simp_all

lemma string_field_ok: "string_field ok j = Some s \<Longrightarrow> ok s"
  by (auto simp: string_field_def split: option.splits json.splits if_splits)

lemma parameterSchemas_safe:
  assumes "parameterSchemas op ps = Some params"
  shows "parameters_safe params"
  using assms
  by (cases op) (auto simp: parameterSchemas_def limit_parameters_def parameters_safe_def no_parameters_def
      bind_eq_Some_conv dest: lines_ok limit_ok string_field_ok)

definition preset_grants :: "preset_selection \<Rightarrow> platform \<Rightarrow> operation_id \<Rightarrow> operation_parameters \<Rightarrow> bool" where
  "preset_grants sel platform op ps \<longleftrightarrow>
     preset_allows sel op
     \<and> (op = LogsFile \<longrightarrow> (\<exists>p. op_path ps = Some p \<and> p \<in> set (ps_logPaths sel) \<and> validPathForPlatform p platform))
     \<and> (op = LogsService \<longrightarrow> (\<exists>s. op_service ps = Some s \<and> s \<in> set (ps_logServices sel)))"

lemma listed_operation:
  "list_ex (\<lambda>d. od_id d = op) (listPresetOperations sel platform) \<longleftrightarrow>
     preset_allows sel op \<and> (op = LogsFile \<longrightarrow> list_ex (\<lambda>p. validPathForPlatform p platform) (ps_logPaths sel))
     \<and> (op = LogsService \<longrightarrow> ps_logServices sel \<noteq> [])"
proof -
  have "op \<in> set operation_options" by (cases op) (simp_all add: operation_options_def)
  then show ?thesis by (auto simp: listPresetOperations_def Let_def list_ex_iff)
qed

text \<open>What a target offers whatever the parameters: a selected preset grants the operation, and a log operation has a resource.\<close>

definition operation_offered :: "preset_selection \<Rightarrow> platform \<Rightarrow> operation_id \<Rightarrow> bool" where
  "operation_offered sel platform op \<longleftrightarrow>
     preset_allows sel op
     \<and> (op = LogsFile \<longrightarrow> (\<exists>p \<in> set (ps_logPaths sel). validPathForPlatform p platform))
     \<and> (op = LogsService \<longrightarrow> ps_logServices sel \<noteq> [])"

lemma grants_offered: "preset_grants sel platform op ps \<Longrightarrow> operation_offered sel platform op"
  by (auto simp: preset_grants_def operation_offered_def)

text \<open>
  C33: A preset operation becomes a script exactly when the request is well formed, a selected
  preset grants the operation, its parameters are within their schema (at most 200 lines, at most 100
  rows, names of plain characters, absolute paths without control characters) and the log file
  or service it names is one the selection lists. Every other request fails with the right code: a malformed request is an
  \<open>INVALID_PARAMS\<close> error, an operation that is not offered \<open>COMMAND_DENIED\<close> whatever its parameters, malformed
  parameters of an offered operation \<open>INVALID_PARAMS\<close>, and well-formed parameters naming a resource
  that is not granted \<open>COMMAND_DENIED\<close>.\<close>

theorem preset_operation_granted:
  "buildPresetOperation sel platform input =
    (case operationRequestSchema input of
      None \<Rightarrow> Inl invalid
    | Some request \<Rightarrow>
        let op = or_operation request in
        if \<not> operation_offered sel platform op then Inl denied
        else case parameterSchemas op (or_parameters request) of
          None \<Rightarrow> Inl invalid
        | Some ps \<Rightarrow>
            if \<not> preset_grants sel platform op ps then Inl denied
            else Inr \<lparr>pr_script = frame_script platform op (operation_script platform op ps),
                     pr_shell = (if platform = Windows then PowerShell else Bash), pr_encoding = ''utf-8''\<rparr>)
   \<and> (\<forall>op params ps. parameterSchemas op params = Some ps \<longrightarrow> parameters_safe ps)"
proof (cases "operationRequestSchema input")
  case None
  then show ?thesis using parameterSchemas_safe by (simp add: buildPresetOperation_def)
next
  case (Some request)
  let ?op = "or_operation request"
  let ?params = "parameterSchemas ?op (or_parameters request)"
  note b = buildPresetOperation_def [of sel platform input, unfolded Some option.case Let_def listed_operation]
  have offered: "operation_offered sel platform ?op \<longleftrightarrow>
      preset_allows sel ?op \<and> (?op = LogsFile \<longrightarrow> list_ex (\<lambda>p. validPathForPlatform p platform) (ps_logPaths sel))
      \<and> (?op = LogsService \<longrightarrow> ps_logServices sel \<noteq> [])"
    by (simp add: operation_offered_def list_ex_iff)
  note b = b [folded offered]
  show ?thesis
  proof (cases ?params)
    case None
    with Some b parameterSchemas_safe show ?thesis by (simp add: Let_def)
  next
    case ps: (Some ps)
    have "?op = LogsFile \<Longrightarrow> \<exists>p. op_path ps = Some p" and "?op = LogsService \<Longrightarrow> \<exists>s. op_service ps = Some s"
      using ps by (auto simp: parameterSchemas_def bind_eq_Some_conv no_parameters_def)
    then have "preset_grants sel platform ?op ps \<longleftrightarrow> operation_offered sel platform ?op
        \<and> \<not> (?op = LogsFile \<and> (text_of (op_path ps) \<notin> set (ps_logPaths sel) \<or> \<not> validPathForPlatform (text_of (op_path ps)) platform))
        \<and> \<not> (?op = LogsService \<and> text_of (op_service ps) \<notin> set (ps_logServices sel))"
      by (cases "?op = LogsFile"; cases "?op = LogsService")
        (auto simp: preset_grants_def operation_offered_def text_of_def)
    with Some b parameterSchemas_safe show ?thesis by (auto simp: Let_def ps)
  qed
qed

definition example_selection :: preset_selection where
  "example_selection = \<lparr>ps_presets = [LogInspection, DockerProtection], ps_logPaths = [''/var/log/syslog''], ps_logServices = []\<rparr>"

definition example_request :: "string \<Rightarrow> json" where
  "example_request path = JObject [(''operation'', JString ''logs.file''), (''parameters'', JObject [(''path'', JString path)])]"

theorem preset_operation_granted_witness:
  "is_ok (buildPresetOperation example_selection Linux (example_request ''/var/log/syslog''))
   \<and> buildPresetOperation example_selection Linux (example_request ''/etc/shadow'') = Inl denied"
proof
  show "is_ok (buildPresetOperation example_selection Linux (example_request ''/var/log/syslog''))" by code_simp
  have r: "operationRequestSchema (example_request ''/etc/shadow'') = Some \<lparr>or_operation = LogsFile, or_parameters = [(''path'', JString ''/etc/shadow'')]\<rparr>"
    by code_simp
  have p: "parameterSchemas LogsFile [(''path'', JString ''/etc/shadow'')] = Some (no_parameters\<lparr>op_path := Some ''/etc/shadow'', op_lines := Some 100\<rparr>)"
    by code_simp
  show "buildPresetOperation example_selection Linux (example_request ''/etc/shadow'') = Inl denied"
    using preset_operation_granted [where input = "example_request ''/etc/shadow''" and sel = example_selection and platform = Linux]
    by (simp add: r p Let_def preset_grants_def example_selection_def split: sum.splits)
qed

section \<open>Quoted resources\<close>

text \<open>
  How PowerShell reads a verbatim string literal after its opening quote. Five characters are single quotes to it: the
  ASCII one and the typographic ones from \<open>U+2018\<close> to \<open>U+201B\<close>, whose UTF-8 encodings are \<open>E2 80 98\<close> to
  \<open>E2 80 9B\<close>; two in a row, of whatever kind, stand for the second, and a single one ends the literal (section 2.3.5.2
  of the PowerShell language specification).
\<close>

definition typographic_at :: "string \<Rightarrow> bool" where
  "typographic_at s =
     (case s of a # b # c # _ \<Rightarrow> a = CHR 0xE2 \<and> b = CHR 0x80 \<and> c \<in> {CHR 0x98, CHR 0x99, CHR 0x9A, CHR 0x9B} | _ \<Rightarrow> False)"

fun typographic_quote :: "string \<Rightarrow> bool" where
  "typographic_quote [] = False"
| "typographic_quote (c # s) = (typographic_at (c # s) \<or> typographic_quote s)"

definition single_quote :: "string \<Rightarrow> (string \<times> string) option" where
  "single_quote s =
     (case s of
        [] \<Rightarrow> None
      | c # cs \<Rightarrow>
          if c = quote_char then Some ([c], cs)
          else if typographic_at s then Some (take 3 s, drop 3 s) else None)"

lemma single_quote_shorter: "single_quote s = Some (q, r) \<Longrightarrow> length r < length s \<and> s = q @ r"
  by (auto simp: single_quote_def split: list.splits if_splits)

function ps_literal :: "string \<Rightarrow> (string \<times> string) option" where
  "ps_literal s =
     (case single_quote s of
        Some (_, r) \<Rightarrow>
          (case single_quote r of
             Some (q, r2) \<Rightarrow> map_option (apfst ((@) q)) (ps_literal r2)
           | None \<Rightarrow> Some ([], r))
      | None \<Rightarrow> (case s of [] \<Rightarrow> None | c # cs \<Rightarrow> map_option (apfst ((#) c)) (ps_literal cs)))"
  by pat_completeness auto
termination by (relation "measure length") (auto dest!: single_quote_shorter)

declare ps_literal.simps [simp del]

definition read_literal :: "platform \<Rightarrow> string \<Rightarrow> (string \<times> string) option" where
  "read_literal platform s =
     (if platform = Windows then (case s of c # s1 \<Rightarrow> if c = quote_char then ps_literal s1 else None | [] \<Rightarrow> None)
      else posix_word False s)"

abbreviation doubled :: "string \<Rightarrow> string" where
  "doubled v \<equiv> replace_char quote_char [quote_char, quote_char] v"

lemma doubled_simps [simp]:
  "doubled [] = []" "doubled (c # v) = (if c = quote_char then [quote_char, quote_char] else [c]) @ doubled v"
  by (simp_all add: replace_char_def)

lemma quote_byte: "quote_char \<noteq> CHR 0xE2" "quote_char \<noteq> CHR 0x80"
  "quote_char \<notin> {CHR 0x98, CHR 0x99, CHR 0x9A, CHR 0x9B}" "CHR 0x80 \<noteq> CHR 0xE2"
  "CHR 0xE2 \<notin> {CHR 0x98, CHR 0x99, CHR 0x9A, CHR 0x9B}"
  by code_simp+

lemma typographic_bytes:
  "typographic_at (c # s) \<longleftrightarrow> c = CHR 0xE2 \<and> (\<exists>d r. s = CHR 0x80 # d # r \<and> d \<in> {CHR 0x98, CHR 0x99, CHR 0x9A, CHR 0x9B})"
  by (auto simp: typographic_at_def split: list.splits)

text \<open>Doubling the ASCII quotes makes or breaks no typographic one.\<close>

lemma typographic_doubled:
  assumes "c \<noteq> quote_char"
  shows "typographic_at (c # doubled v @ quote_char # rest) \<longleftrightarrow> typographic_at (c # v)"
proof -
  have third: "(\<exists>r. doubled w @ quote_char # rest = d # r) \<longleftrightarrow> (\<exists>r. w = d # r)" if "d \<noteq> quote_char" for w d
    using that by (cases w) auto
  have "(\<exists>d r. doubled v @ quote_char # rest = CHR 0x80 # d # r \<and> d \<in> {CHR 0x98, CHR 0x99, CHR 0x9A, CHR 0x9B})
      \<longleftrightarrow> (\<exists>d r. v = CHR 0x80 # d # r \<and> d \<in> {CHR 0x98, CHR 0x99, CHR 0x9A, CHR 0x9B})"
  proof (cases v)
    case Nil
    then show ?thesis using quote_byte(2) by auto
  next
    case (Cons b w)
    show ?thesis
    proof (cases "b = CHR 0x80")
      case True
      then have "doubled v @ quote_char # rest = CHR 0x80 # doubled w @ quote_char # rest" using Cons quote_byte(2) by simp
      then show ?thesis using Cons True third [of _ w] quote_byte(3) by (simp only: list.inject) metis
    next
      case False
      then show ?thesis using Cons quote_byte(2) by auto
    qed
  qed
  then show ?thesis unfolding typographic_bytes by blast
qed

text \<open>A literal is read back when it holds no typographic quote.\<close>

lemma ps_literal_quote:
  assumes "single_quote rest = None"
  shows "\<not> typographic_quote v \<Longrightarrow> ps_literal (doubled v @ quote_char # rest) = Some (v, rest)"
proof (induction v)
  case Nil
  then show ?case using assms by (subst ps_literal.simps) (simp add: single_quote_def)
next
  case (Cons c v)
  then have IH: "ps_literal (doubled v @ quote_char # rest) = Some (v, rest)" and t: "\<not> typographic_at (c # v)" by simp_all
  show ?case
  proof (cases "c = quote_char")
    case True
    then show ?thesis using IH by (subst ps_literal.simps) (simp add: single_quote_def)
  next
    case False
    with t have "single_quote (c # doubled v @ quote_char # rest) = None"
      by (simp add: single_quote_def typographic_doubled)
    then show ?thesis using IH False by (subst ps_literal.simps) simp
  qed
qed

text \<open>
  And only then: a reader takes the quotes in pairs, so it finds one quote in what it reads for two in what
  was written, whereas a typographic quote is written once.
\<close>

fun quotes :: "string \<Rightarrow> nat" where
  "quotes [] = 0"
| "quotes (c # s) = (if c = quote_char \<or> typographic_at (c # s) then 1 else 0) + quotes s"

lemma quotes_single: "single_quote s = Some (q, r) \<Longrightarrow> quotes (q @ w) = Suc (quotes w)"
proof -
  assume s: "single_quote s = Some (q, r)"
  have byte: "\<not> typographic_at (CHR 0x80 # w)" "\<not> typographic_at (d # w)" if "d \<in> {CHR 0x98, CHR 0x99, CHR 0x9A, CHR 0x9B}" for d w
    using that quote_byte(4,5) by (auto simp: typographic_bytes)
  show "quotes (q @ w) = Suc (quotes w)"
  proof (cases "hd s = quote_char")
    case True
    then show ?thesis using s by (auto simp: single_quote_def split: list.splits)
  next
    case False
    then obtain d where "q = [CHR 0xE2, CHR 0x80, d]" "d \<in> {CHR 0x98, CHR 0x99, CHR 0x9A, CHR 0x9B}"
      using s by (auto simp: single_quote_def typographic_bytes split: list.splits if_splits)
    then show ?thesis using byte quote_byte by (auto simp: typographic_bytes)
  qed
qed

text \<open>What is not a quote is copied.\<close>

lemma ps_literal_copies:
  assumes "ps_literal s = Some (d # v, r)" "d \<noteq> quote_char" "d \<noteq> CHR 0xE2"
  shows "\<exists>cs. s = d # cs \<and> ps_literal cs = Some (v, r)"
proof (cases "single_quote s")
  case None
  with assms(1) show ?thesis by (subst (asm) ps_literal.simps) (auto split: list.splits)
next
  case (Some x)
  obtain q r1 where x: "x = (q, r1)" by (cases x)
  have "\<exists>c q'. q2 = c # q' \<and> (c = quote_char \<or> c = CHR 0xE2)" if "single_quote t = Some (q2, r2)" for t q2 r2
    using that by (auto simp: single_quote_def typographic_bytes split: list.splits if_splits)
  with assms Some x show ?thesis by (subst (asm) ps_literal.simps) (fastforce split: option.splits)
qed

lemma quotes_read:
  "ps_literal s = Some (v, r) \<Longrightarrow> quotes s = Suc (2 * quotes v + quotes r)"
proof (induction s arbitrary: v r rule: ps_literal.induct)
  case (1 s)
  show ?case
  proof (cases "single_quote s")
    case None
    from "1.prems" None obtain c cs w where s: "s = c # cs" "ps_literal cs = Some (w, r)" "v = c # w"
      by (subst (asm) ps_literal.simps) (auto split: list.splits)
    from None s(1) have c: "c \<noteq> quote_char" "\<not> typographic_at (c # cs)" by (auto simp: single_quote_def split: if_splits)
    have "\<not> typographic_at (c # w)"
    proof
      assume "typographic_at (c # w)"
      then obtain d u where t: "c = CHR 0xE2" "w = CHR 0x80 # d # u" "d \<in> {CHR 0x98, CHR 0x99, CHR 0x9A, CHR 0x9B}"
        by (auto simp: typographic_bytes)
      from ps_literal_copies [of cs "CHR 0x80" "d # u" r] s(2) t(2) quote_byte obtain cs1 where
        cs1: "cs = CHR 0x80 # cs1" "ps_literal cs1 = Some (d # u, r)" by auto
      have "d \<noteq> quote_char" "d \<noteq> CHR 0xE2" using t(3) quote_byte(3,5) by auto
      from ps_literal_copies [OF cs1(2) this] obtain cs2 where "cs1 = d # cs2" by blast
      then have "typographic_at (c # cs)" using t cs1(1) by (auto simp: typographic_bytes)
      with c(2) show False by simp
    qed
    moreover have "quotes cs = Suc (2 * quotes w + quotes r)" using "1.IH"(1) [OF None s(1,2)] .
    ultimately show ?thesis using s c by simp
  next
    case (Some x)
    obtain q r1 where x: "x = (q, r1)" by (cases x)
    note sq = quotes_single [OF Some [unfolded x], of r1] and len = single_quote_shorter [OF Some [unfolded x]]
    show ?thesis
    proof (cases "single_quote r1")
      case None
      with "1.prems" Some x have "v = []" "r = r1" by (subst (asm) ps_literal.simps; simp)+
      with sq len show ?thesis by simp
    next
      case (Some y)
      obtain q2 r2 where y: "y = (q2, r2)" by (cases y)
      from "1.prems" \<open>single_quote s = Some x\<close> x Some y obtain w where w: "ps_literal r2 = Some (w, r)" "v = q2 @ w"
        by (subst (asm) ps_literal.simps) auto
      have "quotes r2 = Suc (2 * quotes w + quotes r)"
        using "1.IH"(2) [OF \<open>single_quote s = Some x\<close> x [symmetric] Some y [symmetric] w(1)] .
      moreover have "quotes r1 = Suc (quotes r2)" "quotes v = Suc (quotes w)"
        using quotes_single [OF Some [unfolded y]] single_quote_shorter [OF Some [unfolded y]] w(2) by auto
      ultimately show ?thesis using sq len by simp
    qed
  qed
qed

fun typographics :: "string \<Rightarrow> nat" where
  "typographics [] = 0"
| "typographics (c # s) = (if typographic_at (c # s) then 1 else 0) + typographics s"

lemma typographics_iff: "typographic_quote v \<longleftrightarrow> 0 < typographics v"
  by (induction v) auto

lemma quotes_doubled: "quotes (doubled v @ quote_char # rest) + typographics v = Suc (2 * quotes v + quotes rest)"
proof (induction v)
  case (Cons c v)
  then show ?case
    using typographic_doubled [of c v rest] quote_byte(1) by (cases "c = quote_char") (auto simp: typographic_bytes)
qed simp

lemma ps_literal_exact:
  assumes "single_quote rest = None"
  shows "ps_literal (doubled v @ quote_char # rest) = Some (v, rest) \<longleftrightarrow> \<not> typographic_quote v"
  using ps_literal_quote [OF assms, of v] quotes_read [of "doubled v @ quote_char # rest" v rest] quotes_doubled [of v rest]
  by (auto simp: typographics_iff)

definition ends_literal :: "string \<Rightarrow> bool" where
  "ends_literal s = (case s of [] \<Rightarrow> True | c # _ \<Rightarrow> c = CHR '' '' \<or> c = CHR '';'')"

lemma read_quoted_resource:
  assumes "ends_literal rest" "platform = Windows \<or> rest = [] \<or> hd rest = CHR '' ''"
  shows "read_literal platform (quote_for platform v @ rest) = Some (v, rest) \<longleftrightarrow> (platform = Windows \<longrightarrow> \<not> typographic_quote v)"
proof (cases "platform = Windows")
  case True
  have "single_quote rest = None"
    using assms(1) by (cases rest) (auto simp: ends_literal_def single_quote_def typographic_bytes)
  from ps_literal_exact [OF this] show ?thesis using True by (simp add: read_literal_def quote_for_def ps_quote_def)
next
  case False
  with assms(2) have "posix_word False rest = Some ([], rest)" by (cases rest) auto
  moreover have "sh_quote v = quotePosixLiteral v" by (simp add: sh_quote_def quotePosixLiteral_def)
  ultimately show ?thesis using False by (simp add: read_literal_def quote_for_def posix_word_quoted)
qed

lemma plain_no_quote: "list_all (\<lambda>c. (of_char c :: nat) < 128) v \<Longrightarrow> \<not> typographic_quote v"
  by (induction v) (auto simp: typographic_bytes)

definition with_resource :: "operation_id \<Rightarrow> string \<Rightarrow> operation_parameters \<Rightarrow> operation_parameters" where
  "with_resource op v ps =
     (case op of
        LogsFile \<Rightarrow> ps\<lparr>op_path := Some v\<rparr>
      | LogsService \<Rightarrow> ps\<lparr>op_service := Some v\<rparr>
      | _ \<Rightarrow> ps\<lparr>op_container := Some v\<rparr>)"

definition resource_text :: "platform \<Rightarrow> operation_id \<Rightarrow> string \<Rightarrow> string" where
  "resource_text platform op v = (if platform = MacOS \<and> op = LogsService then process_predicate v else v)"

definition closes_word :: "platform \<Rightarrow> string \<Rightarrow> bool" where
  "closes_word platform part \<longleftrightarrow> ends_literal part \<and> (platform = Windows \<or> part = [] \<or> hd part = CHR '' '')"

definition resource_parts :: "platform \<Rightarrow> operation_id \<Rightarrow> int \<Rightarrow> string list" where
  "resource_parts platform op lines =
     (case op of
      LogsFile \<Rightarrow> (if platform = Windows then
      [''$f=Get-Item -LiteralPath '',
      ''; if ($f -isnot [IO.FileInfo]) { throw '' @ [quote_char] @
      ''Authorized log resource is not a regular file'' @ [quote_char] @ '' }; Get-Content -LiteralPath '',
      '' -Tail '' @ show_int lines @ '' -Encoding UTF8'' @ bounded platform]
      else
      [''if [ ! -f '',
      '' ]; then printf '' @ [quote_char] @ ''%s'' @ [backslash] @ ''n'' @ [quote_char] @ '' '' @
      [quote_char] @ ''Authorized log resource is not a regular file'' @ [quote_char] @
      '' >&2; exit 1; fi'' @ [newline] @ ''tail -n '' @ show_int lines @ '' '',
      bounded platform])
    | LogsService \<Rightarrow> (case platform of Windows \<Rightarrow>
      [''Get-WinEvent -FilterHashtable @'' @ ''{LogName='',
      '';StartTime=(Get-Date).AddHours(-1)} -MaxEvents '' @ show_int lines @ '' | Select-Object TimeCreated,Id,LevelDisplayName,@'' @ ''{Name='' @ [quote_char] @ ''Message'' @
      [quote_char] @
      '';Expression={$s=[string]$_.Message;$s.Substring(0,[Math]::Min(1024,$s.Length))}} | ConvertTo-Json '' @
      ''-Compress'']
      | MacOS \<Rightarrow>
      [''/usr/bin/log show --last 1h --style compact --predicate '',
      '' | tail -n '' @ show_int lines @ bounded platform]
      | Linux \<Rightarrow>
      [''journalctl --no-pager -u '',
      '' --since '' @ [quote_char] @ ''1 hour ago'' @ [quote_char] @ '' -n '' @ show_int lines @ '' -o short-iso'' @ bounded platform])
    | DockerHealth \<Rightarrow> [''docker inspect --type container --format '' @ quote_for platform docker_health_format @ '' '', []]
    | _ \<Rightarrow> [''docker logs --timestamps --since 1h --tail '' @ show_int lines @ '' '', '' 2>&1'' @ bounded platform])"

lemma resource_parts_closed:
  "op = LogsFile \<or> op = LogsService \<or> op = DockerHealth \<or> op = DockerLogs \<Longrightarrow>
   list_all (closes_word platform) (tl (resource_parts platform op lines))"
  by (cases platform; cases op) (simp_all add: resource_parts_def closes_word_def ends_literal_def bounded_def)

lemma resource_script:
  assumes "op = LogsFile \<or> op = LogsService \<or> op = DockerHealth \<or> op = DockerLogs"
  shows "operation_script platform op (with_resource op v ps) =
    join_with (quote_for platform (resource_text platform op v))
      (resource_parts platform op (case op_lines ps of None \<Rightarrow> 100 | Some n \<Rightarrow> n))"
  using assms
  by (cases platform; cases op)
    (simp_all add: operation_script_def with_resource_def resource_text_def resource_parts_def text_of_def
      logs_file_script_def logs_service_script_def Let_def)

text \<open>
  C34: In the script of an operation on a log file, a service or a container, the named resource
  stands in quotes between fixed texts that do not depend on it. The shell of the target reads
  each quoted word back as the resource (on macOS the predicate naming the service) exactly when the target is not a Windows
  one or the resource holds no typographic single quote. The names of services and containers never hold
  one; a log path may, and then PowerShell ends the literal early or reads another path.\<close>

theorem preset_resource_reads_back:
  assumes "op = LogsFile \<or> op = LogsService \<or> op = DockerHealth \<or> op = DockerLogs"
  shows "(\<exists>parts. 2 \<le> length parts \<and> (\<forall>v.
      operation_script platform op (with_resource op v ps)
        = join_with (quote_for platform (resource_text platform op v)) parts
      \<and> (\<forall>part \<in> set (tl parts).
           read_literal platform (quote_for platform (resource_text platform op v) @ part)
             = Some (resource_text platform op v, part)
           \<longleftrightarrow> (platform = Windows \<longrightarrow> \<not> typographic_quote v))))
    \<and> (\<forall>v. resourceNameSchema v \<or> containerSchema v \<longrightarrow> \<not> typographic_quote v)"
proof -
  let ?parts = "resource_parts platform op (case op_lines ps of None \<Rightarrow> 100 | Some n \<Rightarrow> n)"
  have two: "2 \<le> length ?parts" using assms by (cases platform; cases op) (simp_all add: resource_parts_def)
  have "read_literal platform (quote_for platform w @ part) = Some (w, part) \<longleftrightarrow> (platform = Windows \<longrightarrow> \<not> typographic_quote w)"
    if "part \<in> set (tl ?parts)" for w part
    using resource_parts_closed [OF assms, of platform] that read_quoted_resource [where platform = platform and v = w]
    unfolding list_all_iff closes_word_def by blast
  moreover have "platform = Windows \<Longrightarrow> resource_text platform op v = v" for v by (simp add: resource_text_def)
  ultimately have read: "\<forall>part \<in> set (tl ?parts).
      read_literal platform (quote_for platform (resource_text platform op v) @ part) = Some (resource_text platform op v, part)
        \<longleftrightarrow> (platform = Windows \<longrightarrow> \<not> typographic_quote v)" for v by auto
  have "list_all (\<lambda>c. (of_char c :: nat) < 128) v" if "resourceNameSchema v \<or> containerSchema v" for v
    using that by (auto simp: resourceNameSchema_def containerSchema_def resource_pattern_def list_all_iff is_alnum_def is_alpha_def
        char_code_simps split: list.splits)
  then show ?thesis using two read resource_script [OF assms] plain_no_quote by blast
qed

text \<open>A path that is granted and within its schema, but not read back.\<close>

definition quoted_path :: string where
  "quoted_path = ''C:/logs/app'' @ [CHR 0xE2, CHR 0x80, CHR 0x99] @ ''s.log''"

theorem preset_resource_reads_back_witness:
  "logPathSchema quoted_path \<and> validPathForPlatform quoted_path Windows \<and> typographic_quote quoted_path
   \<and> (\<exists>parts. 2 \<le> length parts
       \<and> operation_script Windows LogsFile (with_resource LogsFile quoted_path no_parameters) = join_with (ps_quote quoted_path) parts
       \<and> (\<forall>part \<in> set (tl parts). ps_literal (tl (ps_quote quoted_path @ part)) \<noteq> Some (quoted_path, part)))"
proof -
  have q: "logPathSchema quoted_path" "validPathForPlatform quoted_path Windows" "typographic_quote quoted_path" by code_simp+
  have "read_literal Windows (ps_quote v @ part) = ps_literal (tl (ps_quote v @ part))" for v part
    by (simp add: read_literal_def ps_quote_def)
  then show ?thesis
    using preset_resource_reads_back [of LogsFile Windows no_parameters] q
    by (auto simp: quote_for_def resource_text_def)
qed

end
