(* ===== verification/TargetRegistry.thy ===== *)
theory TargetRegistry
  imports Presets Sha256
begin

text \<open>
  \<^verbatim>\<open>src/src/core/target-registry.ts\<close>: the registry of configured targets, the resolution of a name to a
  target, and the authorization of commands, preset operations, probes and transfers. A
  configuration object is the list of its properties in enumeration order; the record types follow
  the schemas of \<^verbatim>\<open>src/src/config/load-config.ts\<close>. Aliases, identifiers and former aliases are
  ASCII (the configuration schema only admits such), so folding case acts on ASCII letters.
\<close>

section \<open>Configuration\<close>

datatype policy =
    AllowListPolicy "string list" int
  | FullAccessPolicy int
  | DenyPolicy int
  | PresetsPolicy preset_selection int

definition policy_mode_of :: "policy \<Rightarrow> policy_mode" where
  "policy_mode_of p =
     (case p of AllowListPolicy _ _ \<Rightarrow> AllowList | FullAccessPolicy _ \<Rightarrow> FullAccess | DenyPolicy _ \<Rightarrow> Deny
      | PresetsPolicy _ _ \<Rightarrow> Presets)"

definition policy_timeout :: "policy \<Rightarrow> int" where
  "policy_timeout p =
     (case p of AllowListPolicy _ t \<Rightarrow> t | FullAccessPolicy t \<Rightarrow> t | DenyPolicy t \<Rightarrow> t | PresetsPolicy _ t \<Rightarrow> t)"

datatype connection =
    ShareConnection string int string "string option" "int option" "string option"
    \<comment> \<open>gateway host, port and user, sharing host and port, expected host name\<close>
  | TailscaleConnection string string \<comment> \<open>host, user\<close>

definition connection_mode_of :: "connection option \<Rightarrow> connection_mode" where
  "connection_mode_of c =
     (case c of None \<Rightarrow> OpenSsh | Some (ShareConnection _ _ _ _ _ _) \<Rightarrow> AccessClientShare
      | Some (TailscaleConnection _ _) \<Rightarrow> TailscaleSsh)"

record transfer_policy =
  tp_mode :: transfer_mode
  tp_localRoots :: "string list"
  tp_remoteRoots :: "string list"
  tp_maxFileBytes :: int
  tp_maxTotalBytes :: int
  tp_maxFiles :: int
  tp_maxTimeoutMs :: int

record target_config =
  tc_targetId :: "string option"
  tc_group :: "string option"
  tc_previousAliases :: "string list option"
  tc_description :: "string option"
  tc_sshAlias :: string
  tc_connection :: "connection option"
  tc_platform :: platform
  tc_enabled :: bool
  tc_policy :: policy
  tc_transfer :: "transfer_policy option"

section \<open>Entries\<close>

record registered_target =
  rt_targetId :: string
  rt_alias :: string
  rt_sshAlias :: string
  rt_group :: "string option"
  rt_description :: "string option"
  rt_enabled :: bool
  rt_platform :: platform
  rt_connectionMode :: connection_mode
  rt_policyMode :: policy_mode
  rt_transferMode :: transfer_mode
  rt_transferScope :: transfer_scope
  rt_transferRoots :: "string list"
  rt_maxTimeoutMs :: int
  rt_maxTransferTimeoutMs :: int

record target_authorization =
  ta_target :: registered_target
  ta_timeoutMs :: int

record transfer_authorization =
  xa_target :: registered_target
  xa_timeoutMs :: int
  xa_scope :: transfer_scope
  xa_localRootPath :: "string option"
  xa_remoteRoots :: "string list"
  xa_maxFileBytes :: int
  xa_maxTotalBytes :: int
  xa_maxFiles :: int

definition TARGET_CHECK_TIMEOUT_MS :: int where "TARGET_CHECK_TIMEOUT_MS = 15000"
definition ACCESSCLIENT_CHECK_TIMEOUT_MS :: int where "ACCESSCLIENT_CHECK_TIMEOUT_MS = 30000"
definition DEFAULT_MAX_TRANSFER_FILE_BYTES :: int where "DEFAULT_MAX_TRANSFER_FILE_BYTES = 10737418240"
definition DEFAULT_MAX_TRANSFER_TOTAL_BYTES :: int where "DEFAULT_MAX_TRANSFER_TOTAL_BYTES = 107374182400"
definition DEFAULT_MAX_TRANSFER_FILES :: int where "DEFAULT_MAX_TRANSFER_FILES = 10000"
definition MAX_ERROR_CANDIDATES :: nat where "MAX_ERROR_CANDIDATES = 8"

record registry_entry =
  re_target :: registered_target
  re_allowedCommands :: "string list"
  re_transfer :: "transfer_policy option"
  re_presetSelection :: "preset_selection option"

definition legacyTargetId :: "string \<Rightarrow> string \<Rightarrow> string" where
  "legacyTargetId alias sshAlias =
     ''t-'' @ take 32 (hex (sha256 (buffer_from
       (''agent-ssh-legacy-target'' @ [nul_char] @ sshAlias @ [nul_char] @ alias))))"

definition unrestricted_transfer :: "target_config \<Rightarrow> bool" where
  "unrestricted_transfer config \<longleftrightarrow>
     policy_mode_of (tc_policy config) = FullAccess \<and> connection_mode_of (tc_connection config) \<noteq> TailscaleSsh"

definition make_target :: "string \<Rightarrow> target_config \<Rightarrow> registered_target" where
  "make_target alias config =
     (let unrestrictedTransfer = unrestricted_transfer config; mode = policy_mode_of (tc_policy config) in
      \<lparr>rt_targetId = (case tc_targetId config of Some i \<Rightarrow> i | None \<Rightarrow> legacyTargetId alias (tc_sshAlias config)),
       rt_alias = alias, rt_sshAlias = tc_sshAlias config, rt_group = tc_group config,
       rt_description = tc_description config, rt_enabled = tc_enabled config, rt_platform = tc_platform config,
       rt_connectionMode = connection_mode_of (tc_connection config), rt_policyMode = mode,
       rt_transferMode =
         (if mode = Presets \<or> connection_mode_of (tc_connection config) = TailscaleSsh then TransferDeny
          else if unrestrictedTransfer then TransferBidirectional
          else case tc_transfer config of None \<Rightarrow> TransferDeny | Some t \<Rightarrow> tp_mode t),
       rt_transferScope = (if unrestrictedTransfer then AllPaths else Restricted),
       rt_transferRoots =
         (if unrestrictedTransfer \<or> mode = Presets then []
          else case tc_transfer config of None \<Rightarrow> [] | Some t \<Rightarrow> tp_localRoots t),
       rt_maxTimeoutMs = policy_timeout (tc_policy config),
       rt_maxTransferTimeoutMs =
         (case tc_transfer config of Some t \<Rightarrow> tp_maxTimeoutMs t
          | None \<Rightarrow> if unrestrictedTransfer then MAX_TIMEOUT_MS else policy_timeout (tc_policy config))\<rparr>)"

text \<open>\<open>permissionPresetSelectionSchema.parse\<close> throws a \<open>ZodError\<close> for a selection it does not admit.\<close>

definition createEntry :: "string \<Rightarrow> target_config \<Rightarrow> thrown + registry_entry" where
  "createEntry alias config =
     (let entry = \<lparr>re_target = make_target alias config,
        re_allowedCommands = (case tc_policy config of AllowListPolicy commands _ \<Rightarrow> commands | _ \<Rightarrow> []),
        re_transfer = tc_transfer config, re_presetSelection = None\<rparr> in
      case tc_policy config of
        PresetsPolicy sel _ \<Rightarrow>
          if permissionPresetSelectionSchema sel then Inr (entry\<lparr>re_presetSelection := Some sel\<rparr>)
          else Inl (PlainError ''ZodError'')
      | _ \<Rightarrow> Inr entry)"

record target_summary =
  sm_targetId :: string
  sm_alias :: string
  sm_group :: "string option"
  sm_description :: "string option"
  sm_enabled :: bool
  sm_platform :: platform
  sm_connectionMode :: connection_mode
  sm_policyMode :: policy_mode
  sm_transferMode :: transfer_mode
  sm_transferScope :: transfer_scope
  sm_transferRoots :: "string list"
  sm_maxTimeoutMs :: int
  sm_maxTransferTimeoutMs :: int

definition toSummary :: "registered_target \<Rightarrow> target_summary" where
  "toSummary target =
     \<lparr>sm_targetId = rt_targetId target, sm_alias = rt_alias target, sm_group = rt_group target,
      sm_description = rt_description target, sm_enabled = rt_enabled target, sm_platform = rt_platform target,
      sm_connectionMode = rt_connectionMode target, sm_policyMode = rt_policyMode target,
      sm_transferMode = rt_transferMode target, sm_transferScope = rt_transferScope target,
      sm_transferRoots = rt_transferRoots target, sm_maxTimeoutMs = rt_maxTimeoutMs target,
      sm_maxTransferTimeoutMs = rt_maxTransferTimeoutMs target\<rparr>"

section \<open>The registry\<close>

record target_registry =
  tr_configs :: "(string, target_config) jsmap"
  tr_entries :: "(string, registry_entry) jsmap"
  tr_references :: "(string, registry_entry) jsmap"
  tr_summaries :: "target_summary list"
  tr_localRoots :: "(string, string) jsmap"
  tr_groups :: "string list"

definition config_invalid :: "string \<Rightarrow> thrown" where
  "config_invalid message = gateway ConfigInvalid message"

fun add_references ::
  "registry_entry \<Rightarrow> string list \<Rightarrow> (string, registry_entry) jsmap \<Rightarrow> thrown + (string, registry_entry) jsmap" where
  "add_references entry [] references = Inr references"
| "add_references entry (reference # rest) references =
     (let folded = to_lower reference in
      if map_of references folded \<noteq> None then Inl (config_invalid ''Target references are not unique'')
      else add_references entry rest (AList.update folded entry references))"

definition references_of :: "string \<Rightarrow> target_config \<Rightarrow> string list" where
  "references_of alias config =
     [alias, rt_targetId (make_target alias config)]
     @ (case tc_previousAliases config of None \<Rightarrow> [] | Some aliases \<Rightarrow> aliases)"

fun build_entries ::
  "(string \<times> target_config) list \<Rightarrow> (string, registry_entry) jsmap \<Rightarrow> (string, registry_entry) jsmap
    \<Rightarrow> thrown + ((string, registry_entry) jsmap \<times> (string, registry_entry) jsmap)" where
  "build_entries [] entries references = Inr (entries, references)"
| "build_entries ((alias, config) # rest) entries references =
     and_then (createEntry alias config) (\<lambda>entry.
     and_then (add_references entry (references_of alias config) references) (\<lambda>references.
     build_entries rest (AList.update alias entry entries) references))"

text \<open>\<open>[...new Set(xs)]\<close>: first occurrences in order.\<close>

fun unique_in_order :: "'a list \<Rightarrow> 'a list" where
  "unique_in_order [] = []"
| "unique_in_order (x # xs) = x # filter (\<lambda>y. y \<noteq> x) (unique_in_order xs)"

definition config_groups :: "(string \<times> target_config) list \<Rightarrow> string list" where
  "config_groups configs =
     concat (map (\<lambda>(_, c). case tc_group c of None \<Rightarrow> [] | Some g \<Rightarrow> if g = DEFAULT_TARGET_GROUP then [] else [g]) configs)"

definition new_target_registry ::
  "(string \<times> target_config) list \<Rightarrow> (string, string) jsmap \<Rightarrow> string list \<Rightarrow> thrown + target_registry" where
  "new_target_registry configs localRoots groups =
     and_then (build_entries configs [] []) (\<lambda>(entries, references).
     Inr \<lparr>tr_configs = configs, tr_entries = entries, tr_references = references,
          tr_summaries = sort_key sm_alias (map (\<lambda>(_, entry). toSummary (re_target entry)) entries),
          tr_localRoots = localRoots, tr_groups = unique_in_order (groups @ config_groups configs)\<rparr>)"

definition assertRemovableAliases :: "target_registry \<Rightarrow> string list \<Rightarrow> thrown + unit" where
  "assertRemovableAliases reg aliases =
     guard_else (\<not> list_ex (\<lambda>alias. \<not> TARGET_ALIAS_PATTERN alias \<or> map_of (tr_configs reg) alias = None) aliases)
       (config_invalid ''Target removal must name existing canonical aliases'')"

definition withoutTargets :: "target_registry \<Rightarrow> string list \<Rightarrow> thrown + target_registry" where
  "withoutTargets reg aliases =
     and_then (assertRemovableAliases reg aliases) (\<lambda>_.
     new_target_registry (filter (\<lambda>(alias, _). alias \<notin> set aliases) (tr_configs reg)) (tr_localRoots reg) (tr_groups reg))"

definition sshAliasesForRemoval :: "target_registry \<Rightarrow> string list \<Rightarrow> thrown + string list" where
  "sshAliasesForRemoval reg aliases =
     and_then (assertRemovableAliases reg aliases) (\<lambda>_.
     Inr (unique_in_order (map (\<lambda>alias. tc_sshAlias (the (map_of (tr_configs reg) alias))) aliases)))"

subsection \<open>Metadata updates\<close>

record target_metadata =
  tm_group :: "string option"
  tm_description :: "string option"

definition targetMetadataSchema :: "json \<Rightarrow> target_metadata option" where
  "targetMetadataSchema j =
     Option.bind (strict_object [''group'', ''description''] j) (\<lambda>obj.
     Option.bind (case map_of obj ''group'' of
         None \<Rightarrow> Some None | Some (JString g) \<Rightarrow> map_option Some (targetGroupSchema g) | Some _ \<Rightarrow> None) (\<lambda>group.
     Option.bind (case map_of obj ''description'' of
         None \<Rightarrow> Some None | Some (JString d) \<Rightarrow> if publicDescriptionSchema d then Some (Some d) else None | Some _ \<Rightarrow> None) (\<lambda>description.
     Some \<lparr>tm_group = group, tm_description = description\<rparr>)))"

definition named_metadata :: "string \<times> json \<Rightarrow> (string \<times> target_metadata) option" where
  "named_metadata entry =
     (if TARGET_ALIAS_PATTERN (fst entry) then map_option (Pair (fst entry)) (targetMetadataSchema (snd entry)) else None)"

definition json_string :: "json \<Rightarrow> string option" where
  "json_string j = (case j of JString s \<Rightarrow> Some s | _ \<Rightarrow> None)"

definition gatewayMetadataUpdateSchema ::
  "json \<Rightarrow> (string list option \<times> (string \<times> target_metadata) list) option" where
  "gatewayMetadataUpdateSchema input =
     Option.bind (strict_object [''groups'', ''targets''] input) (\<lambda>obj.
     Option.bind (case map_of obj ''groups'' of
         None \<Rightarrow> Some None
       | Some (JArray names) \<Rightarrow> map_option Some (Option.bind (those (map json_string names)) targetGroupCatalogSchema)
       | Some _ \<Rightarrow> None) (\<lambda>groups.
     Option.bind (case map_of obj ''targets'' of Some (JObject ts) \<Rightarrow> those (map named_metadata ts) | _ \<Rightarrow> None) (\<lambda>targets.
     Some (groups, targets))))"

text \<open>The loop over the aliases of the registry.\<close>

fun apply_metadata ::
  "string list \<Rightarrow> (string \<times> target_metadata) list \<Rightarrow> (string \<times> target_config) list \<Rightarrow> thrown + (string \<times> target_config) list" where
  "apply_metadata groups targets [] = Inr []"
| "apply_metadata groups targets ((alias, config) # rest) =
     (let next = the (map_of targets alias) in
      if (case tm_group next of None \<Rightarrow> False | Some g \<Rightarrow> g \<noteq> DEFAULT_TARGET_GROUP \<and> g \<notin> set groups)
      then Inl (config_invalid ''Gateway metadata target references an unknown group'')
      else and_then (apply_metadata groups targets rest) (\<lambda>configs.
        Inr ((alias, config\<lparr>tc_group := (case tm_group next of None \<Rightarrow> None | Some g \<Rightarrow> if g = DEFAULT_TARGET_GROUP then None else Some g),
                            tc_description := tm_description next\<rparr>) # configs)))"

definition withMetadata :: "target_registry \<Rightarrow> json \<Rightarrow> thrown + target_registry" where
  "withMetadata reg input =
     (case gatewayMetadataUpdateSchema input of
        None \<Rightarrow> Inl (config_invalid ''Gateway metadata update contains invalid or operational fields'')
      | Some (newGroups, targets) \<Rightarrow>
          let aliases = map fst (tr_configs reg) in
          and_then (guard_else (\<not> (length targets \<noteq> length aliases \<or> list_ex (\<lambda>alias. map_of targets alias = None) aliases))
            (config_invalid ''Gateway metadata update must preserve every target alias'')) (\<lambda>_.
          let groups = (case newGroups of Some gs \<Rightarrow> gs | None \<Rightarrow> tr_groups reg) in
          and_then (apply_metadata groups targets (tr_configs reg)) (\<lambda>configs.
          new_target_registry configs (tr_localRoots reg) groups)))"

definition listTargets :: "target_registry \<Rightarrow> target_summary list" where
  "listTargets reg = tr_summaries reg"

definition listGroups :: "target_registry \<Rightarrow> string list" where
  "listGroups reg = tr_groups reg"

section \<open>Authorization\<close>

definition require_target :: "target_registry \<Rightarrow> string \<Rightarrow> thrown + registered_target" where
  "require_target reg alias =
     (if \<not> TARGET_ALIAS_PATTERN alias then Inl (gateway InvalidParams ''Target alias is invalid'')
      else case map_of (tr_references reg) (to_lower alias) of
        None \<Rightarrow>
          let candidates = join_with '', '' (map sm_alias (take MAX_ERROR_CANDIDATES (tr_summaries reg))) in
          Inl (gateway_with TargetNotFound ''Target was not found''
            ([(''target'', DString alias)] @ (if length candidates = 0 then [] else [(''candidates'', DString candidates)])))
      | Some entry \<Rightarrow>
          if \<not> rt_enabled (re_target entry)
          then Inl (gateway_with TargetDisabled ''Target is disabled'' [(''target'', DString alias)])
          else Inr (re_target entry))"

definition timeout_ok :: "int \<Rightarrow> int option \<Rightarrow> bool" where
  "timeout_ok maximum requested =
     (case requested of None \<Rightarrow> True | Some t \<Rightarrow> \<not> (\<not> is_safe_integer t \<or> t < 1 \<or> t > maximum))"

definition authorizeTimeout :: "registered_target \<Rightarrow> int option \<Rightarrow> thrown + int" where
  "authorizeTimeout target requestedTimeoutMs =
     (if \<not> timeout_ok (rt_maxTimeoutMs target) requestedTimeoutMs
      then Inl (gateway_with InvalidParams ''Requested timeout exceeds the target policy''
             [(''maxTimeoutMs'', DNumber (rt_maxTimeoutMs target))])
      else Inr (case requestedTimeoutMs of Some t \<Rightarrow> t | None \<Rightarrow> rt_maxTimeoutMs target))"

definition listAllowedOperations ::
  "target_registry \<Rightarrow> string \<Rightarrow> thrown + (string \<times> (preset_id \<times> operation_id list) list \<times> operation_descriptor list)" where
  "listAllowedOperations reg alias =
     and_then (require_target reg alias) (\<lambda>target.
     let selection = Option.bind (map_of (tr_entries reg) (rt_alias target)) re_presetSelection in
     Inr (rt_alias target, PERMISSION_PRESETS,
       (case selection of None \<Rightarrow> [] | Some sel \<Rightarrow> listPresetOperations sel (rt_platform target))))"

definition authorizeOperation ::
  "target_registry \<Rightarrow> string \<Rightarrow> json \<Rightarrow> int option \<Rightarrow> thrown + (target_authorization \<times> preset_command)" where
  "authorizeOperation reg alias request requestedTimeoutMs =
     and_then (require_target reg alias) (\<lambda>target.
     let denied_error = gateway_with CommandDenied ''Preset operations require a preset policy on this target'' [(''target'', DString alias)];
         maximumTimeoutMs = min (rt_maxTimeoutMs target) 15000 in
     case Option.bind (map_of (tr_entries reg) (rt_alias target)) re_presetSelection of
       None \<Rightarrow> Inl denied_error
     | Some selection \<Rightarrow>
         if rt_policyMode target \<noteq> Presets then Inl denied_error
         else if \<not> timeout_ok maximumTimeoutMs requestedTimeoutMs
         then Inl (gateway_with InvalidParams ''Requested operation timeout exceeds the target preset policy''
                [(''maxTimeoutMs'', DNumber maximumTimeoutMs)])
         else and_then (buildPresetOperation selection (rt_platform target) request) (\<lambda>operation.
           Inr (\<lparr>ta_target = target, ta_timeoutMs = (case requestedTimeoutMs of Some t \<Rightarrow> t | None \<Rightarrow> maximumTimeoutMs)\<rparr>,
                operation)))"

definition authorize :: "target_registry \<Rightarrow> string \<Rightarrow> string \<Rightarrow> int option \<Rightarrow> thrown + target_authorization" where
  "authorize reg alias command requestedTimeoutMs =
     and_then (require_target reg alias) (\<lambda>target.
     case map_of (tr_entries reg) (rt_alias target) of
       None \<Rightarrow> Inl (gateway InternalError ''Internal gateway error'')
     | Some entry \<Rightarrow>
         if is_blank command \<or> has_line_break command \<or> length command > MAX_COMMAND_BYTES
         then Inl (gateway InvalidParams ''Command is invalid'')
         else if \<not> (rt_policyMode target = FullAccess \<or> (rt_policyMode target = AllowList \<and> command \<in> set (re_allowedCommands entry)))
         then Inl (gateway_with CommandDenied ''Command is not allowed for this target'' [(''target'', DString alias)])
         else and_then (authorizeTimeout target requestedTimeoutMs) (\<lambda>timeoutMs.
           Inr \<lparr>ta_target = target, ta_timeoutMs = timeoutMs\<rparr>))"

definition authorizeStructured :: "target_registry \<Rightarrow> string \<Rightarrow> int option \<Rightarrow> thrown + target_authorization" where
  "authorizeStructured reg alias requestedTimeoutMs =
     and_then (require_target reg alias) (\<lambda>target.
     if rt_policyMode target \<noteq> FullAccess
     then Inl (gateway_with CommandDenied ''Structured execution is not allowed for this target'' [(''target'', DString alias)])
     else and_then (authorizeTimeout target requestedTimeoutMs) (\<lambda>timeoutMs.
       Inr \<lparr>ta_target = target, ta_timeoutMs = timeoutMs\<rparr>))"

definition authorizeCheck :: "target_registry \<Rightarrow> string \<Rightarrow> thrown + target_authorization" where
  "authorizeCheck reg alias =
     and_then (require_target reg alias) (\<lambda>target.
     let probeTimeoutMs = (if rt_connectionMode target = AccessClientShare then ACCESSCLIENT_CHECK_TIMEOUT_MS
                           else TARGET_CHECK_TIMEOUT_MS) in
     Inr \<lparr>ta_target = target, ta_timeoutMs = min (rt_maxTimeoutMs target) probeTimeoutMs\<rparr>)"

definition direction_allowed :: "transfer_direction \<Rightarrow> transfer_policy option \<Rightarrow> bool" where
  "direction_allowed direction transfer =
     (case transfer of
        None \<Rightarrow> False
      | Some t \<Rightarrow> tp_mode t = TransferBidirectional
          \<or> ((direction = Upload \<or> direction = Sync) \<and> tp_mode t = TransferUpload)
          \<or> (direction = Download \<and> tp_mode t = TransferDownload))"

definition root_allowed :: "string \<Rightarrow> transfer_policy option \<Rightarrow> bool" where
  "root_allowed root transfer = (case transfer of None \<Rightarrow> False | Some t \<Rightarrow> root \<in> set (tp_localRoots t))"

text \<open>The body of \<open>authorizeTransfer\<close> once the target and its transfer policy are at hand.\<close>

definition transfer_decision ::
  "(string, string) jsmap \<Rightarrow> string \<Rightarrow> registered_target \<Rightarrow> transfer_policy option \<Rightarrow> transfer_direction \<Rightarrow> string option
    \<Rightarrow> int option \<Rightarrow> thrown + transfer_authorization" where
  "transfer_decision localRoots alias target transfer direction localRoot requestedTimeoutMs =
     (let unrestricted = (rt_transferScope target = AllPaths);
          localRootPath = (case localRoot of None \<Rightarrow> None | Some root \<Rightarrow>
            if unrestricted \<or> root_allowed root transfer then map_of localRoots root else None);
          maximumTimeoutMs = rt_maxTransferTimeoutMs target in
      if rt_policyMode target = Presets
      then Inl (gateway_with TransferDenied ''File transfer is disabled by the preset policy'' [(''target'', DString alias)])
      else if rt_connectionMode target = TailscaleSsh
      then Inl (gateway TransferDenied ''Tailscale SSH file transfer is not supported yet'')
      else if \<not> (unrestricted \<or> direction_allowed direction transfer)
      then Inl (gateway_with TransferDenied ''File transfer is not allowed for this target'' [(''target'', DString alias)])
      else if \<not> unrestricted \<and> (case localRoot of None \<Rightarrow> True | Some root \<Rightarrow> \<not> root_allowed root transfer)
      then Inl (gateway_with TransferDenied ''Local transfer root is not allowed for this target''
             ([(''target'', DString alias)] @ (case localRoot of None \<Rightarrow> [] | Some root \<Rightarrow> [(''localRoot'', DString root)])))
      else if localRoot \<noteq> None \<and> localRootPath = None
      then Inl (config_invalid ''Configured local transfer root is unavailable'')
      else if \<not> timeout_ok maximumTimeoutMs requestedTimeoutMs
      then Inl (gateway_with InvalidParams ''Requested transfer timeout exceeds the target policy''
             [(''maxTimeoutMs'', DNumber maximumTimeoutMs)])
      else Inr \<lparr>xa_target = target,
             xa_timeoutMs = (case requestedTimeoutMs of Some t \<Rightarrow> t | None \<Rightarrow> maximumTimeoutMs),
             xa_scope = (if unrestricted then AllPaths else Restricted), xa_localRootPath = localRootPath,
             xa_remoteRoots = (if unrestricted then [] else case transfer of None \<Rightarrow> [] | Some t \<Rightarrow> tp_remoteRoots t),
             xa_maxFileBytes = (case transfer of None \<Rightarrow> DEFAULT_MAX_TRANSFER_FILE_BYTES | Some t \<Rightarrow> tp_maxFileBytes t),
             xa_maxTotalBytes = (case transfer of None \<Rightarrow> DEFAULT_MAX_TRANSFER_TOTAL_BYTES | Some t \<Rightarrow> tp_maxTotalBytes t),
             xa_maxFiles = (case transfer of None \<Rightarrow> DEFAULT_MAX_TRANSFER_FILES | Some t \<Rightarrow> tp_maxFiles t)\<rparr>)"

text \<open>
  The configured roots are looked up as own properties. The source indexes a plain object, so that
  the name of a member of \<open>Object.prototype\<close> (\<open>constructor\<close>, \<open>toString\<close>) gives that member
  instead of being unavailable; such names are outside the model.
\<close>

definition authorizeTransfer ::
  "target_registry \<Rightarrow> string \<Rightarrow> transfer_direction \<Rightarrow> string option \<Rightarrow> int option \<Rightarrow> thrown + transfer_authorization" where
  "authorizeTransfer reg alias direction localRoot requestedTimeoutMs =
     and_then (require_target reg alias) (\<lambda>target.
     transfer_decision (tr_localRoots reg) alias target
       (case map_of (tr_entries reg) (rt_alias target) of None \<Rightarrow> None | Some entry \<Rightarrow> re_transfer entry)
       direction localRoot requestedTimeoutMs)"

definition authorizeInspect :: "target_registry \<Rightarrow> string \<Rightarrow> thrown + target_authorization" where
  "authorizeInspect reg alias = authorizeCheck reg alias"

definition authorizeDockerPreflight :: "target_registry \<Rightarrow> string \<Rightarrow> thrown + target_authorization" where
  "authorizeDockerPreflight reg alias =
     and_then (require_target reg alias) (\<lambda>target.
     if rt_policyMode target \<noteq> FullAccess
     then Inl (gateway_with CommandDenied ''Docker preflight is only enabled for full-access targets'' [(''target'', DString alias)])
     else Inr \<lparr>ta_target = target, ta_timeoutMs = min (rt_maxTimeoutMs target) 120000\<rparr>)"

section \<open>What the constructor builds\<close>

definition entry_of :: "string \<Rightarrow> target_config \<Rightarrow> registry_entry" where
  "entry_of alias config =
     \<lparr>re_target = make_target alias config,
      re_allowedCommands = (case tc_policy config of AllowListPolicy commands _ \<Rightarrow> commands | _ \<Rightarrow> []),
      re_transfer = tc_transfer config,
      re_presetSelection = (case tc_policy config of PresetsPolicy sel _ \<Rightarrow> Some sel | _ \<Rightarrow> None)\<rparr>"

lemma createEntry_ok: "createEntry alias config = Inr entry \<Longrightarrow> entry = entry_of alias config"
  by (auto simp: createEntry_def entry_of_def Let_def split: policy.splits if_splits)

definition entry_references :: "string \<times> target_config \<Rightarrow> (string \<times> registry_entry) list" where
  "entry_references ac =
     map (\<lambda>r. (to_lower r, entry_of (fst ac) (snd ac))) (references_of (fst ac) (snd ac))"

lemma add_references_ok:
  assumes "add_references entry refs rs = Inr rs'" "distinct (map fst rs)"
  shows "rs' = rs @ map (\<lambda>r. (to_lower r, entry)) refs \<and> distinct (map fst rs')"
  using assms
proof (induction refs arbitrary: rs)
  case (Cons r refs)
  from Cons.prems(1) have new: "map_of rs (to_lower r) = None"
    by (cases "map_of rs (to_lower r)") (simp_all add: Let_def)
  with Cons.prems(1) have step: "add_references entry refs (rs @ [(to_lower r, entry)]) = Inr rs'"
    by (simp add: Let_def update_new_append)
  have "distinct (map fst (rs @ [(to_lower r, entry)]))"
    using new Cons.prems(2) by (auto simp: map_of_eq_None_iff)
  from Cons.IH [OF step this] show ?case unfolding list.map append_assoc append_Cons append_Nil .
qed simp

lemma build_entries_ok:
  assumes "build_entries configs es rs = Inr (es', rs')" "distinct (map fst configs)"
    "fst ` set configs \<inter> fst ` set es = {}" "distinct (map fst rs)"
  shows "es' = es @ map (\<lambda>(a, c). (a, entry_of a c)) configs \<and> rs' = rs @ concat (map entry_references configs)
    \<and> distinct (map fst rs')"
  using assms
proof (induction configs arbitrary: es rs)
  case (Cons ac configs)
  obtain a c where ac: "ac = (a, c)" by (cases ac)
  from Cons.prems(1) ac obtain e rs1 where e: "createEntry a c = Inr e"
    and rs1: "add_references e (references_of a c) rs = Inr rs1"
    and step: "build_entries configs (AList.update a e es) rs1 = Inr (es', rs')"
    by (auto simp: and_then_eq_Inr)
  note e' = createEntry_ok [OF e]
  have "map_of es a = None" using Cons.prems(3) ac by (auto simp: map_of_eq_None_iff)
  then have es1: "AList.update a e es = es @ [(a, e)]" by (rule update_new_append)
  note rs1' = add_references_ok [OF rs1 Cons.prems(4)]
  have "fst ` set configs \<inter> fst ` set (es @ [(a, e)]) = {}" using Cons.prems(2,3) ac by auto
  moreover have "distinct (map fst configs)" using Cons.prems(2) by simp
  ultimately have "es' = (es @ [(a, e)]) @ map (\<lambda>(a, c). (a, entry_of a c)) configs"
    "rs' = rs1 @ concat (map entry_references configs)" "distinct (map fst rs')"
    using Cons.IH [OF step [unfolded es1]] rs1' by blast+
  moreover have "rs1 = rs @ entry_references ac" using rs1' e' ac by (simp add: entry_references_def)
  ultimately show ?case using e' ac by simp
qed simp

lemma new_registry_ok:
  assumes "new_target_registry configs roots groups = Inr reg" "distinct (map fst configs)"
  shows "tr_configs reg = configs" "tr_entries reg = map (\<lambda>(a, c). (a, entry_of a c)) configs"
    "tr_references reg = concat (map entry_references configs)" "distinct (map fst (tr_references reg))"
    "tr_localRoots reg = roots"
proof -
  from assms(1) obtain es rs where b: "build_entries configs [] [] = Inr (es, rs)"
    and reg: "tr_configs reg = configs" "tr_entries reg = es" "tr_references reg = rs" "tr_localRoots reg = roots"
    by (auto simp: new_target_registry_def and_then_eq_Inr)
  from build_entries_ok [OF b assms(2)] have "es = map (\<lambda>(a, c). (a, entry_of a c)) configs"
    "rs = concat (map entry_references configs)" "distinct (map fst rs)" by auto
  with reg show "tr_configs reg = configs" "tr_entries reg = map (\<lambda>(a, c). (a, entry_of a c)) configs"
    "tr_references reg = concat (map entry_references configs)" "distinct (map fst (tr_references reg))"
    "tr_localRoots reg = roots" by metis+
qed

section \<open>Lookup\<close>

text \<open>A name refers to a configured target by its alias, its identifier or a former alias, in any case.\<close>

definition refers :: "(string \<times> target_config) list \<Rightarrow> string \<Rightarrow> string \<Rightarrow> target_config \<Rightarrow> bool" where
  "refers configs ref a c \<longleftrightarrow> (a, c) \<in> set configs \<and> to_lower ref \<in> to_lower ` set (references_of a c)"



lemma reference_lookup:
  assumes built: "new_target_registry configs roots groups = Inr reg" and keys: "distinct (map fst configs)"
  shows "map_of (tr_references reg) (to_lower ref) = Some e \<longleftrightarrow> (\<exists>a c. refers configs ref a c \<and> e = entry_of a c)"
proof -
  have "map_of (tr_references reg) (to_lower ref) = Some e \<longleftrightarrow> (to_lower ref, e) \<in> set (tr_references reg)"
    by (rule map_of_eq_Some_iff [OF new_registry_ok(4) [OF built keys]])
  also have "\<dots> \<longleftrightarrow> (\<exists>a c. refers configs ref a c \<and> e = entry_of a c)"
    unfolding new_registry_ok(3) [OF built keys] by (force simp: entry_references_def refers_def)
  finally show ?thesis .
qed

lemma reference_unique:
  assumes built: "new_target_registry configs roots groups = Inr reg" and keys: "distinct (map fst configs)"
    and "refers configs ref a c" "refers configs ref b d"
  shows "a = b \<and> c = d"
proof -
  from assms(3) reference_lookup [OF built keys, of ref "entry_of a c"]
  have "map_of (tr_references reg) (to_lower ref) = Some (entry_of a c)" by blast
  moreover from assms(4) reference_lookup [OF built keys, of ref "entry_of b d"]
  have "map_of (tr_references reg) (to_lower ref) = Some (entry_of b d)" by blast
  ultimately have "rt_alias (re_target (entry_of a c)) = rt_alias (re_target (entry_of b d))" by simp
  then have "a = b" by (simp add: entry_of_def make_target_def Let_def)
  with assms(3,4) keys show ?thesis by (auto simp: refers_def dest: eq_key_imp_eq_value)
qed

lemma rt_alias_make_target [simp]: "rt_alias (make_target a c) = a"
  by (simp add: make_target_def Let_def)

lemma require_iff:
  assumes built: "new_target_registry configs roots groups = Inr reg" and keys: "distinct (map fst configs)"
  shows "require_target reg ref = Inr t \<longleftrightarrow>
    TARGET_ALIAS_PATTERN ref \<and> (\<exists>c. refers configs ref (rt_alias t) c \<and> tc_enabled c \<and> t = make_target (rt_alias t) c)"
proof -
  have en: "rt_enabled (re_target (entry_of a c)) = tc_enabled c" "re_target (entry_of a c) = make_target a c" for a c
    by (simp_all add: entry_of_def make_target_def Let_def)
  show ?thesis
  proof (cases "map_of (tr_references reg) (to_lower ref)")
    case None
    then have "\<not> refers configs ref a c" for a c using reference_lookup [OF built keys, of ref "entry_of a c"] by auto
    with None show ?thesis by (simp add: require_target_def Let_def)
  next
    case (Some e)
    with reference_lookup [OF built keys] obtain a c where ac: "refers configs ref a c" "e = entry_of a c" by blast
    from reference_unique [OF built keys ac(1)] ac(1)
    have "refers configs ref b d \<longleftrightarrow> b = a \<and> d = c" for b d by blast
    with Some ac(2) en show ?thesis by (auto simp: require_target_def)
  qed
qed

lemma require_then:
  assumes built: "new_target_registry configs roots groups = Inr reg" and keys: "distinct (map fst configs)"
  shows "and_then (require_target reg ref) f = Inr y \<longleftrightarrow>
    (\<exists>a c. TARGET_ALIAS_PATTERN ref \<and> refers configs ref a c \<and> tc_enabled c \<and> f (make_target a c) = Inr y)"
proof
  assume "and_then (require_target reg ref) f = Inr y"
  then obtain t where t: "require_target reg ref = Inr t" "f t = Inr y" by (auto simp: and_then_eq_Inr)
  with require_iff [OF built keys, of ref t] obtain c where
    "TARGET_ALIAS_PATTERN ref" "refers configs ref (rt_alias t) c" "tc_enabled c" "t = make_target (rt_alias t) c" by blast
  with t(2) show "\<exists>a c. TARGET_ALIAS_PATTERN ref \<and> refers configs ref a c \<and> tc_enabled c \<and> f (make_target a c) = Inr y" by metis
next
  assume "\<exists>a c. TARGET_ALIAS_PATTERN ref \<and> refers configs ref a c \<and> tc_enabled c \<and> f (make_target a c) = Inr y"
  then obtain a c where ac: "TARGET_ALIAS_PATTERN ref" "refers configs ref a c" "tc_enabled c" "f (make_target a c) = Inr y" by blast
  then have "require_target reg ref = Inr (make_target a c)" unfolding require_iff [OF built keys] by auto
  with ac(4) show "and_then (require_target reg ref) f = Inr y" by simp
qed

lemma entry_lookup:
  assumes built: "new_target_registry configs roots groups = Inr reg" and keys: "distinct (map fst configs)"
    and "refers configs ref a c"
  shows "map_of (tr_entries reg) a = Some (entry_of a c)"
proof -
  have "distinct (map fst (tr_entries reg))" using keys unfolding new_registry_ok(2) [OF built keys] by (simp add: comp_def case_prod_beta)
  moreover have "(a, entry_of a c) \<in> set (tr_entries reg)"
    using assms(3) unfolding new_registry_ok(2) [OF built keys] by (force simp: refers_def)
  ultimately show ?thesis by simp
qed

section \<open>Properties\<close>

text \<open>
  In a registry that was built from a configuration, a well-formed name resolves to a target exactly
  when one configured target has it as alias, identifier or former alias, in upper or lower
  case, and is enabled; there is at most one such target. A name nobody has is reported as not found and a disabled
  target as disabled.\<close>

theorem target_reference_resolves:
  assumes "new_target_registry configs roots groups = Inr reg" "distinct (map fst configs)" "TARGET_ALIAS_PATTERN ref"
  shows "(case require_target reg ref of
      Inr t \<Rightarrow> (\<exists>c. refers configs ref (rt_alias t) c \<and> tc_enabled c \<and> t = make_target (rt_alias t) c)
    | Inl e \<Rightarrow> (error_code e = Some TargetNotFound \<and> (\<forall>a c. \<not> refers configs ref a c))
        \<or> (error_code e = Some TargetDisabled \<and> (\<exists>a c. refers configs ref a c \<and> \<not> tc_enabled c)))
    \<and> (\<forall>a b c d. refers configs ref a c \<longrightarrow> refers configs ref b d \<longrightarrow> a = b \<and> c = d)"
proof (cases "require_target reg ref")
  case (Inr t)
  with require_iff [OF assms(1,2), of ref t] reference_unique [OF assms(1,2)] show ?thesis by auto
next
  case (Inl e)
  have "(error_code e = Some TargetNotFound \<and> (\<forall>a c. \<not> refers configs ref a c))
      \<or> (error_code e = Some TargetDisabled \<and> (\<exists>a c. refers configs ref a c \<and> \<not> tc_enabled c))"
  proof (cases "map_of (tr_references reg) (to_lower ref)")
    case None
    then have "\<not> refers configs ref a c" for a c using reference_lookup [OF assms(1,2), of ref "entry_of a c"] by auto
    with None Inl assms(3) show ?thesis by (auto simp: require_target_def Let_def)
  next
    case (Some entry)
    with reference_lookup [OF assms(1,2)] obtain a c where ac: "refers configs ref a c" "entry = entry_of a c" by blast
    with Some Inl assms(3) have "\<not> tc_enabled c" "error_code e = Some TargetDisabled"
      by (auto simp: require_target_def entry_of_def make_target_def Let_def split: if_splits)
    with ac show ?thesis by blast
  qed
  with Inl reference_unique [OF assms(1,2)] show ?thesis by auto
qed


lemma timeout_ok_iff: "timeout_ok m req \<longleftrightarrow> (case req of None \<Rightarrow> True | Some t \<Rightarrow> is_safe_integer t \<and> 1 \<le> t \<and> t \<le> m)"
  by (auto simp: timeout_ok_def split: option.splits)

definition policy_admits :: "policy \<Rightarrow> string \<Rightarrow> bool" where
  "policy_admits p command =
     (case p of FullAccessPolicy _ \<Rightarrow> True | AllowListPolicy commands _ \<Rightarrow> command \<in> set commands | _ \<Rightarrow> False)"

definition granted_timeout :: "int \<Rightarrow> int option \<Rightarrow> int \<Rightarrow> bool" where
  "granted_timeout maximum requested granted \<longleftrightarrow>
     (case requested of None \<Rightarrow> granted = maximum | Some t \<Rightarrow> is_safe_integer t \<and> 1 \<le> t \<and> t \<le> maximum \<and> granted = t)"

lemma authorizeTimeout_ok:
  "authorizeTimeout t req = Inr n \<longleftrightarrow> granted_timeout (rt_maxTimeoutMs t) req n"
  by (auto simp: authorizeTimeout_def granted_timeout_def timeout_ok_iff split: option.splits)

lemma entry_policy:
  "rt_policyMode (make_target a c) = policy_mode_of (tc_policy c)" "rt_maxTimeoutMs (make_target a c) = policy_timeout (tc_policy c)"
  by (simp_all add: make_target_def Let_def)

lemma policy_admits_mode:
  "policy_admits (tc_policy c) command \<longleftrightarrow> policy_mode_of (tc_policy c) = FullAccess
     \<or> (policy_mode_of (tc_policy c) = AllowList \<and> command \<in> set (re_allowedCommands (entry_of a c)))"
  by (cases "tc_policy c") (simp_all add: policy_admits_def policy_mode_of_def entry_of_def)

definition command_ok :: "string \<Rightarrow> bool" where
  "command_ok command \<longleftrightarrow> \<not> is_blank command \<and> \<not> has_line_break command \<and> length command \<le> MAX_COMMAND_BYTES"

text \<open>
  C28: A command is authorized exactly when its name refers to an enabled target whose policy is full
  access, or an allow-list with that very command, the command is not blank, holds no line
  break or null character and is at most 64 KiB, and the requested timeout, if there is one, lies
  between 1 and the target's maximum; the granted timeout is the requested one or that
  maximum. Deny and preset policies never authorize a command.\<close>

theorem command_authorized_iff:
  assumes "new_target_registry configs roots groups = Inr reg" "distinct (map fst configs)"
  shows "authorize reg ref command req = Inr auth \<longleftrightarrow>
    TARGET_ALIAS_PATTERN ref \<and> command_ok command
    \<and> (\<exists>a c. refers configs ref a c \<and> tc_enabled c \<and> policy_admits (tc_policy c) command
         \<and> granted_timeout (policy_timeout (tc_policy c)) req (ta_timeoutMs auth) \<and> ta_target auth = make_target a c)"
proof -
  let ?body = "\<lambda>t entry. (if is_blank command \<or> has_line_break command \<or> length command > MAX_COMMAND_BYTES
         then Inl (gateway InvalidParams ''Command is invalid'')
         else if \<not> (rt_policyMode t = FullAccess \<or> (rt_policyMode t = AllowList \<and> command \<in> set (re_allowedCommands entry)))
         then Inl (gateway_with CommandDenied ''Command is not allowed for this target'' [(''target'', DString ref)])
         else and_then (authorizeTimeout t req) (\<lambda>timeoutMs. Inr \<lparr>ta_target = t, ta_timeoutMs = timeoutMs\<rparr>))"
  have body: "?body (make_target a c) (entry_of a c) = Inr auth \<longleftrightarrow>
      command_ok command \<and> policy_admits (tc_policy c) command
      \<and> granted_timeout (policy_timeout (tc_policy c)) req (ta_timeoutMs auth) \<and> ta_target auth = make_target a c" for a c
    by (cases auth) (auto simp: command_ok_def policy_admits_mode [of c command a] entry_policy and_then_eq_Inr authorizeTimeout_ok
        simp del: not_less)
  have "authorize reg ref command req = Inr auth \<longleftrightarrow> (\<exists>a c. TARGET_ALIAS_PATTERN ref \<and> refers configs ref a c \<and> tc_enabled c
      \<and> ?body (make_target a c) (entry_of a c) = Inr auth)"
    unfolding authorize_def require_then [OF assms]
    by (intro ex_cong1 conj_cong refl) (simp add: entry_lookup [OF assms])
  then show ?thesis unfolding body by blast
qed

definition example_config :: target_config where
  "example_config = \<lparr>tc_targetId = Some ''t-00000000000000000000000000000001'', tc_group = None, tc_previousAliases = Some [''old-web''],
     tc_description = None, tc_sshAlias = ''web'', tc_connection = None, tc_platform = Linux, tc_enabled = True,
     tc_policy = AllowListPolicy [''uptime''] 5000, tc_transfer = None\<rparr>"

definition example_registry :: "thrown + target_registry" where
  "example_registry = new_target_registry [(''web'', example_config)] [] []"

lemma example_registry_built: "\<exists>reg. new_target_registry [(''web'', example_config)] [] [] = Inr reg"
proof -
  have "is_ok example_registry" by code_simp
  then show ?thesis by (simp add: example_registry_def is_ok_iff)
qed

lemma example_refers: "refers [(''web'', example_config)] ''OLD-WEB'' ''web'' example_config" "TARGET_ALIAS_PATTERN ''OLD-WEB''"
  "command_ok ''uptime''"
proof -
  have "list_ex (\<lambda>r. to_lower ''OLD-WEB'' = to_lower r) (references_of ''web'' example_config)" by code_simp
  then show "refers [(''web'', example_config)] ''OLD-WEB'' ''web'' example_config"
    by (auto simp: refers_def list_ex_iff)
  show "TARGET_ALIAS_PATTERN ''OLD-WEB''" by code_simp
  have "\<not> is_blank ''uptime''" "\<not> has_line_break ''uptime''" by code_simp+
  then show "command_ok ''uptime''" by (simp add: command_ok_def MAX_COMMAND_BYTES_def)
qed

theorem target_reference_resolves_witness:
  "\<exists>reg. example_registry = Inr reg \<and> require_target reg ''OLD-WEB'' = Inr (make_target ''web'' example_config)"
proof -
  obtain reg where reg: "new_target_registry [(''web'', example_config)] [] [] = Inr reg"
    using example_registry_built by blast
  have en: "tc_enabled example_config" by (simp add: example_config_def)
  from target_reference_resolves [OF reg _ example_refers(2)] example_refers(1) en
  show ?thesis unfolding example_registry_def reg
    by (cases "require_target reg ''OLD-WEB''") (auto, metis)
qed

theorem command_authorized_iff_witness:
  "\<exists>reg. example_registry = Inr reg
     \<and> authorize reg ''OLD-WEB'' ''uptime'' (Some 10) = Inr \<lparr>ta_target = make_target ''web'' example_config, ta_timeoutMs = 10\<rparr>"
proof -
  obtain reg where reg: "new_target_registry [(''web'', example_config)] [] [] = Inr reg"
    using example_registry_built by blast
  have "tc_enabled example_config" "policy_admits (tc_policy example_config) ''uptime''"
    "granted_timeout (policy_timeout (tc_policy example_config)) (Some 10) 10"
    by (simp_all add: example_config_def policy_admits_def granted_timeout_def policy_timeout_def is_safe_integer_def max_safe_integer_def)
  with command_authorized_iff [OF reg, of "''OLD-WEB''" "''uptime''" "Some 10"] example_refers
  show ?thesis unfolding example_registry_def reg by auto
qed


lemma transfer_fields:
  "rt_connectionMode (make_target a c) = connection_mode_of (tc_connection c)"
  "rt_transferScope (make_target a c) = (if unrestricted_transfer c then AllPaths else Restricted)"
  "rt_maxTransferTimeoutMs (make_target a c) = (case tc_transfer c of Some t \<Rightarrow> tp_maxTimeoutMs t
      | None \<Rightarrow> if unrestricted_transfer c then MAX_TIMEOUT_MS else policy_timeout (tc_policy c))"
  by (simp_all add: make_target_def Let_def)

text \<open>What the configuration of a target permits of transfers.\<close>

definition transfer_admits ::
  "target_config \<Rightarrow> (string, string) jsmap \<Rightarrow> transfer_direction \<Rightarrow> string option \<Rightarrow> string option \<Rightarrow> bool" where
  "transfer_admits c roots direction localRoot path \<longleftrightarrow>
     (case localRoot of None \<Rightarrow> path = None | Some root \<Rightarrow> path \<noteq> None \<and> path = map_of roots root)
     \<and> (unrestricted_transfer c
        \<or> (policy_mode_of (tc_policy c) \<noteq> Presets \<and> connection_mode_of (tc_connection c) \<noteq> TailscaleSsh
           \<and> (\<exists>t root. tc_transfer c = Some t \<and> localRoot = Some root \<and> root \<in> set (tp_localRoots t)
               \<and> (tp_mode t = TransferBidirectional \<or> (direction = Download \<and> tp_mode t = TransferDownload)
                  \<or> (direction \<noteq> Download \<and> tp_mode t = TransferUpload)))))"

definition transfer_timeout :: "target_config \<Rightarrow> int" where
  "transfer_timeout c =
     (case tc_transfer c of Some t \<Rightarrow> tp_maxTimeoutMs t
      | None \<Rightarrow> if unrestricted_transfer c then MAX_TIMEOUT_MS else policy_timeout (tc_policy c))"

lemma unrestricted_not_special:
  "unrestricted_transfer c \<Longrightarrow> policy_mode_of (tc_policy c) \<noteq> Presets \<and> connection_mode_of (tc_connection c) \<noteq> TailscaleSsh"
  by (simp add: unrestricted_transfer_def)

lemma direction_cases:
  "direction_allowed direction (Some t) \<longleftrightarrow> tp_mode t = TransferBidirectional \<or> (direction = Download \<and> tp_mode t = TransferDownload)
      \<or> (direction \<noteq> Download \<and> tp_mode t = TransferUpload)"
  by (cases direction) (auto simp: direction_allowed_def)

lemma transfer_decision_ok:
  assumes "transfer_decision roots ref (make_target a c) (tc_transfer c) direction localRoot req = Inr xa"
  shows "xa_target xa = make_target a c
    \<and> policy_mode_of (tc_policy c) \<noteq> Presets \<and> connection_mode_of (tc_connection c) \<noteq> TailscaleSsh
    \<and> transfer_admits c roots direction localRoot (xa_localRootPath xa)
    \<and> granted_timeout (transfer_timeout c) req (xa_timeoutMs xa)
    \<and> (xa_scope xa = AllPaths \<longleftrightarrow> unrestricted_transfer c)
    \<and> (\<not> unrestricted_transfer c \<longrightarrow> (\<exists>t. tc_transfer c = Some t \<and> xa_remoteRoots xa = tp_remoteRoots t
         \<and> xa_maxFileBytes xa = tp_maxFileBytes t \<and> xa_maxTotalBytes xa = tp_maxTotalBytes t \<and> xa_maxFiles xa = tp_maxFiles t))"
proof (cases "unrestricted_transfer c")
  case True
  with assms show ?thesis
    by (auto simp: transfer_decision_def Let_def transfer_fields entry_policy transfer_admits_def granted_timeout_def
        transfer_timeout_def timeout_ok_iff split: if_splits option.splits)
next
  case False
  with assms obtain t where t: "tc_transfer c = Some t"
    by (auto simp: transfer_decision_def Let_def transfer_fields direction_allowed_def split: if_splits option.splits)
  from assms False t show ?thesis
    by (auto simp: transfer_decision_def Let_def transfer_fields entry_policy transfer_admits_def granted_timeout_def
        transfer_timeout_def timeout_ok_iff direction_cases root_allowed_def split: if_splits option.splits)
qed

text \<open>
  C29: A transfer is authorized only for an enabled target that the name refers to, never under a
  preset policy or over Tailscale; unless the target has full access, its transfer policy must
  name the direction and the local root, and the limits of that policy are the ones handed on.
  The local path handed on is the configured path of the root that was asked for, and the timeout
  stays within the target's maximum for transfers.\<close>

theorem transfer_authorized:
  assumes "new_target_registry configs roots groups = Inr reg" "distinct (map fst configs)"
    and "authorizeTransfer reg ref direction localRoot req = Inr xa"
  shows "\<exists>a c. refers configs ref a c \<and> tc_enabled c \<and> xa_target xa = make_target a c
    \<and> policy_mode_of (tc_policy c) \<noteq> Presets \<and> connection_mode_of (tc_connection c) \<noteq> TailscaleSsh
    \<and> transfer_admits c roots direction localRoot (xa_localRootPath xa)
    \<and> granted_timeout (transfer_timeout c) req (xa_timeoutMs xa)
    \<and> (xa_scope xa = AllPaths \<longleftrightarrow> unrestricted_transfer c)
    \<and> (\<not> unrestricted_transfer c \<longrightarrow> (\<exists>t. tc_transfer c = Some t \<and> xa_remoteRoots xa = tp_remoteRoots t
         \<and> xa_maxFileBytes xa = tp_maxFileBytes t \<and> xa_maxTotalBytes xa = tp_maxTotalBytes t \<and> xa_maxFiles xa = tp_maxFiles t))"
proof -
  have "re_transfer (entry_of a c) = tc_transfer c" for a c by (simp add: entry_of_def)
  with assms(3) obtain a c where ac: "refers configs ref a c" "tc_enabled c"
    and d: "transfer_decision roots ref (make_target a c) (tc_transfer c) direction localRoot req = Inr xa"
    unfolding authorizeTransfer_def require_then [OF assms(1,2)] new_registry_ok(5) [OF assms(1,2)]
    using entry_lookup [OF assms(1,2), of ref] by fastforce
  from transfer_decision_ok [OF d] ac show ?thesis by blast
qed

theorem transfer_authorized_witness:
  "\<exists>reg xa. new_target_registry [(''web'', example_config\<lparr>tc_policy := FullAccessPolicy 5000\<rparr>)] [(''in'', ''/srv'')] [] = Inr reg
     \<and> authorizeTransfer reg ''web'' Upload (Some ''in'') None = Inr xa \<and> xa_localRootPath xa = Some ''/srv''"
proof -
  let ?cs = "[(''web'', example_config\<lparr>tc_policy := FullAccessPolicy 5000\<rparr>)]"
  have "(case new_target_registry ?cs [(''in'', ''/srv'')] [] of Inl _ \<Rightarrow> False | Inr reg \<Rightarrow>
      is_ok (authorizeTransfer reg ''web'' Upload (Some ''in'') None))" by code_simp
  then obtain reg xa where reg: "new_target_registry ?cs [(''in'', ''/srv'')] [] = Inr reg"
    and xa: "authorizeTransfer reg ''web'' Upload (Some ''in'') None = Inr xa"
    by (auto simp: is_ok_iff split: sum.splits)
  from transfer_authorized [OF reg _ xa] have "xa_localRootPath xa = Some ''/srv''"
    by (auto simp: transfer_admits_def)
  with reg xa show ?thesis by blast
qed

section \<open>Metadata updates\<close>

text \<open>A target without what a metadata update may change.\<close>

definition operational :: "target_config \<Rightarrow> target_config" where
  "operational c = c\<lparr>tc_group := None, tc_description := None\<rparr>"

definition strip_target :: "registered_target \<Rightarrow> registered_target" where
  "strip_target t = t\<lparr>rt_group := None, rt_description := None\<rparr>"

definition strip_entry :: "registry_entry \<Rightarrow> registry_entry" where
  "strip_entry e = e\<lparr>re_target := strip_target (re_target e)\<rparr>"

definition strip_authorization :: "target_authorization \<Rightarrow> target_authorization" where
  "strip_authorization auth = auth\<lparr>ta_target := strip_target (ta_target auth)\<rparr>"

lemma strip_make_target: "strip_target (make_target a c) = make_target a (operational c)"
  by (simp add: strip_target_def make_target_def operational_def unrestricted_transfer_def Let_def split: option.split)

lemma strip_entry_of: "strip_entry (entry_of a c) = entry_of a (operational c)"
  by (simp add: strip_entry_def entry_of_def strip_make_target) (simp add: operational_def)

lemma references_operational: "references_of a (operational c) = references_of a c"
  by (simp add: references_of_def make_target_def operational_def Let_def split: option.split)

lemma strip_references:
  "map (\<lambda>(k, e). (k, strip_entry e)) (concat (map entry_references configs)) =
   concat (map entry_references (map (apsnd operational) configs))"
  by (induction configs) (auto simp: entry_references_def strip_entry_of references_operational)

lemma same_lookup:
  assumes "map (\<lambda>(k, v). (k, f v)) m = map (\<lambda>(k, v). (k, f v)) m'"
  shows "map_option f (map_of m k) = map_option f (map_of m' k)"
  using arg_cong [OF assms, of "\<lambda>xs. map_of xs k"] by (simp add: map_of_map)

lemma summary_aliases:
  assumes "new_target_registry configs roots groups = Inr reg" "distinct (map fst configs)"
  shows "map sm_alias (tr_summaries reg) = sort (map fst configs)"
proof -
  from assms(1) obtain es where s: "tr_summaries reg = sort_key sm_alias (map (\<lambda>(_, entry). toSummary (re_target entry)) es)"
    and es: "tr_entries reg = es"
    by (auto simp: new_target_registry_def and_then_eq_Inr)
  let ?xs = "map (\<lambda>(_, entry). toSummary (re_target entry)) es"
  have "map sm_alias ?xs = map fst configs"
    using new_registry_ok(2) [OF assms] es
    by (auto simp: toSummary_def entry_of_def comp_def case_prod_beta)
  moreover have "sort (map sm_alias ?xs) = map sm_alias (sort_key sm_alias ?xs)"
    by (rule properties_for_sort) (simp_all only: mset_map mset_sort sorted_sort_key)
  ultimately show ?thesis using s by simp
qed

lemma same_operations_lookup:
  assumes "new_target_registry configs roots groups = Inr reg" "distinct (map fst configs)"
    and "new_target_registry configs' roots' groups' = Inr reg'" "distinct (map fst configs')"
    and "map (apsnd operational) configs' = map (apsnd operational) configs"
  shows "map_option strip_entry (map_of (tr_references reg') k) = map_option strip_entry (map_of (tr_references reg) k)"
    "map_option strip_entry (map_of (tr_entries reg') k) = map_option strip_entry (map_of (tr_entries reg) k)"
    "map sm_alias (tr_summaries reg') = map sm_alias (tr_summaries reg)"
proof -
  show "map_option strip_entry (map_of (tr_references reg') k) = map_option strip_entry (map_of (tr_references reg) k)"
    by (rule same_lookup)
      (simp only: new_registry_ok(3) [OF assms(1,2)] new_registry_ok(3) [OF assms(3,4)] strip_references assms(5))
  have "map (\<lambda>(k, e). (k, strip_entry e)) (map (\<lambda>(a, c). (a, entry_of a c)) cs) =
      map (\<lambda>(a, c). (a, entry_of a c)) (map (apsnd operational) cs)" for cs
    by (induction cs) (auto simp: strip_entry_of)
  then show "map_option strip_entry (map_of (tr_entries reg') k) = map_option strip_entry (map_of (tr_entries reg) k)"
    by (intro same_lookup)
      (simp only: new_registry_ok(2) [OF assms(1,2)] new_registry_ok(2) [OF assms(3,4)] assms(5))
  have "map fst configs' = map fst configs" using arg_cong [OF assms(5), of "map fst"] by simp
  then show "map sm_alias (tr_summaries reg') = map sm_alias (tr_summaries reg)"
    by (simp add: summary_aliases [OF assms(1,2)] summary_aliases [OF assms(3,4)])
qed

lemma strip_entry_eq:
  assumes "strip_entry e' = strip_entry e"
  shows "strip_target (re_target e') = strip_target (re_target e)" "re_allowedCommands e' = re_allowedCommands e"
    "re_transfer e' = re_transfer e" "re_presetSelection e' = re_presetSelection e"
proof -
  show "strip_target (re_target e') = strip_target (re_target e)" using arg_cong [OF assms, of re_target] by (simp add: strip_entry_def)
  show "re_allowedCommands e' = re_allowedCommands e" using arg_cong [OF assms, of re_allowedCommands] by (simp add: strip_entry_def)
  show "re_transfer e' = re_transfer e" using arg_cong [OF assms, of re_transfer] by (simp add: strip_entry_def)
  show "re_presetSelection e' = re_presetSelection e" using arg_cong [OF assms, of re_presetSelection] by (simp add: strip_entry_def)
qed

lemma strip_target_eq:
  assumes "strip_target t' = strip_target t"
  shows "rt_alias t' = rt_alias t" "rt_enabled t' = rt_enabled t" "rt_policyMode t' = rt_policyMode t"
    "rt_maxTimeoutMs t' = rt_maxTimeoutMs t"
proof -
  show "rt_alias t' = rt_alias t" using arg_cong [OF assms, of rt_alias] by (simp add: strip_target_def)
  show "rt_enabled t' = rt_enabled t" using arg_cong [OF assms, of rt_enabled] by (simp add: strip_target_def)
  show "rt_policyMode t' = rt_policyMode t" using arg_cong [OF assms, of rt_policyMode] by (simp add: strip_target_def)
  show "rt_maxTimeoutMs t' = rt_maxTimeoutMs t" using arg_cong [OF assms, of rt_maxTimeoutMs] by (simp add: strip_target_def)
qed

text \<open>Registries that answer every lookup alike up to metadata decide alike.\<close>

definition same_decisions :: "target_registry \<Rightarrow> target_registry \<Rightarrow> bool" where
  "same_decisions reg' reg \<longleftrightarrow>
     (\<forall>k. map_option strip_entry (map_of (tr_references reg') k) = map_option strip_entry (map_of (tr_references reg) k))
     \<and> (\<forall>k. map_option strip_entry (map_of (tr_entries reg') k) = map_option strip_entry (map_of (tr_entries reg) k))
     \<and> map sm_alias (tr_summaries reg') = map sm_alias (tr_summaries reg)"

lemma same_require:
  assumes "same_decisions reg' reg"
  shows "map_sum id strip_target (require_target reg' ref) = map_sum id strip_target (require_target reg ref)"
proof -
  have refs: "map_option strip_entry (map_of (tr_references reg') (to_lower ref)) = map_option strip_entry (map_of (tr_references reg) (to_lower ref))"
    and cand: "map sm_alias (take n (tr_summaries reg')) = map sm_alias (take n (tr_summaries reg))" for n
    using assms by (simp_all add: same_decisions_def take_map [symmetric])
  show ?thesis
  proof (cases "map_of (tr_references reg) (to_lower ref)")
    case None
    with refs have "map_of (tr_references reg') (to_lower ref) = None" by simp
    with None cand show ?thesis by (simp add: require_target_def Let_def)
  next
    case (Some e)
    with refs obtain e' where e': "map_of (tr_references reg') (to_lower ref) = Some e'" "strip_entry e' = strip_entry e" by auto
    note t = strip_entry_eq(1) [OF e'(2)]
    from Some e'(1) t strip_target_eq(2) [OF t] show ?thesis by (simp add: require_target_def)
  qed
qed

lemma same_authorize:
  assumes "same_decisions reg' reg"
  shows "map_sum id strip_authorization (authorize reg' ref command req) = map_sum id strip_authorization (authorize reg ref command req)"
proof (cases "require_target reg ref")
  case (Inl e)
  with same_require [OF assms, of ref] have "require_target reg' ref = Inl e" by (cases "require_target reg' ref") auto
  with Inl show ?thesis by (simp add: authorize_def)
next
  case (Inr t)
  with same_require [OF assms, of ref] obtain t' where t': "require_target reg' ref = Inr t'" "strip_target t' = strip_target t"
    by (cases "require_target reg' ref") auto
  note eq = strip_target_eq [OF t'(2)]
  have tm: "authorizeTimeout t' req = authorizeTimeout t req" by (simp add: authorizeTimeout_def eq split: option.split)
  have en: "map_option strip_entry (map_of (tr_entries reg') (rt_alias t')) = map_option strip_entry (map_of (tr_entries reg) (rt_alias t))"
    using assms eq(1) by (simp add: same_decisions_def)
  show ?thesis
  proof (cases "map_of (tr_entries reg) (rt_alias t)")
    case None
    with en have "map_of (tr_entries reg') (rt_alias t') = None" by simp
    with None Inr t' show ?thesis by (simp add: authorize_def)
  next
    case (Some e)
    with en obtain e' where "map_of (tr_entries reg') (rt_alias t') = Some e'" "strip_entry e' = strip_entry e" by auto
    with Some Inr t' eq tm strip_entry_eq(2) [of e' e] show ?thesis
      by (cases "authorizeTimeout t req") (simp_all add: authorize_def strip_authorization_def)
  qed
qed

lemma apply_metadata_ok:
  assumes "apply_metadata groups targets configs = Inr configs'"
  shows "map (apsnd operational) configs' = map (apsnd operational) configs \<and> map fst configs' = map fst configs"
  using assms
proof (induction configs arbitrary: configs')
  case (Cons ac configs)
  obtain a c where ac: "ac = (a, c)" by (cases ac)
  with Cons show ?case by (auto simp: and_then_eq_Inr operational_def Let_def split: if_splits)
qed simp


definition example_update :: json where
  "example_update = JObject [(''targets'', JObject [(''web'', JObject [(''description'', JString ''front end'')])])]"


end
