(* ===== verification/Execution.thy ===== *)
theory Execution
  imports Complex_Main OutputText TargetRegistry
begin

text \<open>
  One execution of \<^verbatim>\<open>src/src/core/exec-service.ts\<close>: the asynchronous functions \<open>#execute\<close> and
  \<open>#runFixedExecution\<close> with their helpers. An execution is in a \<open>phase\<close>, the call it awaits; one
  function per phase is the code from that call to the next one. Between two of them
  anything else may run: stop requests, the timer, other executions, jobs of the output store.

  The output store is the one of \<open>OutputStore\<close>. What the executor and the audit writer return is an argument;
  an error comes with its chain of causes as a list.
\<close>

section \<open>Types\<close>

datatype stop_reason = StopTimeout | StopCancel | StopOutputLimit

datatype failure_reason =
    AccessClientSessionUnavailable | AccessClientSessionTimeout | AccessClientHostMismatch
  | AccessClientSessionEnded | TailscaleUnavailable | TailscalePeerUnavailable | TailscaleHostKeyUnavailable

record ssh_outcome =
  oc_exitCode :: "int option"
  oc_stdout :: string
  oc_stderr :: string
  oc_stdoutBytes :: int
  oc_stderrBytes :: int
  oc_stdoutTruncated :: bool
  oc_stderrTruncated :: bool
  oc_aborted :: bool
  oc_durationMs :: rat
  oc_failureReason :: "failure_reason option"

datatype probe_kind = TargetInfo | DockerPreflight

text \<open>The arguments of \<open>#startExecution\<close>, or of \<open>#runFixedExecution\<close> when \<open>wk_probe\<close> is given: the kind and \<open>maxOutputBytes\<close>.\<close>

record execution_work =
  wk_authorization :: target_authorization
  wk_payload :: string \<comment> \<open>what the audit record identifies\<close>
  wk_remoteCommand :: prepared_command
  wk_executor :: nat \<comment> \<open>which executor, by its number\<close>
  wk_observer :: "string option" \<comment> \<open>the task whose log observes the output\<close>
  wk_maximumOutputBytes :: "int option"
  wk_probe :: "(probe_kind \<times> int) option"

record exec_result =
  er_requestId :: request_id
  er_termination :: exec_termination
  er_exitCode :: "int option"
  er_durationMs :: int
  er_stdout :: stream_summary
  er_stderr :: stream_summary
  er_outputRef :: "string option"
  er_outputExpiresAt :: "int option"

record fixed_result =
  fr_termination :: exec_termination
  fr_exitCode :: "int option"
  fr_durationMs :: int
  fr_stdout :: string
  fr_stderr :: string
  fr_stdoutBytes :: int
  fr_stderrBytes :: int
  fr_stdoutTruncated :: bool
  fr_stderrTruncated :: bool

datatype execution_end = Executed exec_result "failure_reason option" | Probed fixed_result

text \<open>How the executor's run ended: the termination that was chosen and the outcome.\<close>

record run_end =
  rn_termination :: exec_termination
  rn_outcome :: ssh_outcome

datatype exec_phase =
    CreatingSink \<comment> \<open>awaits \<open>outputStore.create\<close>\<close>
  | AuditingStart \<comment> \<open>awaits the audit record \<open>exec.started\<close>\<close>
  | AtExecutor int \<comment> \<open>awaits \<open>executor.run\<close>; the bytes seen so far\<close>
  | FinalizingSink run_end \<comment> \<open>awaits \<open>sink.finalize\<close>\<close>
  | AuditingStop run_end stored_output \<comment> \<open>awaits the audit record \<open>exec.cancelled\<close>\<close>
  | AuditingEnd run_end "stored_output option" \<comment> \<open>awaits the audit record \<open>exec.completed\<close>\<close>
  | Ended "thrown + execution_end" \<comment> \<open>the promise is settled, the \<open>finally\<close> callback has yet to run\<close>

record active_execution =
  ax_requestId :: request_id
  ax_executionId :: string
  ax_target :: string
  ax_aborted :: bool \<comment> \<open>\<open>controller.signal.aborted\<close>\<close>
  ax_acceptingCancellation :: bool
  ax_reason :: "stop_reason option"
  ax_work :: execution_work
  ax_sink :: "string option" \<comment> \<open>the variable \<open>sink\<close> of \<open>#execute\<close>\<close>
  ax_phase :: exec_phase

datatype audit_event =
    ExecStarted string string string nat
    \<comment> \<open>\<open>executionId\<close>, \<open>target\<close>, \<open>commandSha256\<close>, \<open>commandBytes\<close>\<close>
  | ExecCancelled string string exec_termination
  | ExecCompleted string string exec_termination "int option" int int int bool
    \<comment> \<open>\<open>executionId\<close>, \<open>target\<close>, \<open>termination\<close>, \<open>exitCode\<close>, \<open>durationMs\<close>, \<open>stdoutBytes\<close>, \<open>stderrBytes\<close>, \<open>truncated\<close>\<close>

fun event_id :: "audit_event \<Rightarrow> string" where
  "event_id (ExecStarted i _ _ _) = i"
| "event_id (ExecCancelled i _ _) = i"
| "event_id (ExecCompleted i _ _ _ _ _ _ _) = i"

type_synonym exec_state = "active_execution \<times> output_store \<times> audit_event list"

section \<open>Helpers\<close>

definition emptyOutcome :: "rat \<Rightarrow> ssh_outcome" where
  "emptyOutcome durationMs =
     \<lparr>oc_exitCode = None, oc_stdout = [], oc_stderr = [], oc_stdoutBytes = 0, oc_stderrBytes = 0,
      oc_stdoutTruncated = False, oc_stderrTruncated = False, oc_aborted = False, oc_durationMs = durationMs,
      oc_failureReason = None\<rparr>"

definition quarantineOutputSink :: "string \<Rightarrow> output_store \<Rightarrow> output_store" where
  "quarantineOutputSink sink os = tracked_abort sink (tracked_cancel sink os)"

definition empty_summary :: stream_summary where
  "empty_summary = \<lparr>sm_text = [], sm_bytes = 0, sm_inlineTruncated = False\<rparr>"

definition discardOutputSink :: "string \<Rightarrow> output_store \<Rightarrow> stored_output \<times> output_store" where
  "discardOutputSink sink os =
     (\<lparr>so_stdout = empty_summary, so_stderr = empty_summary, so_outputRef = None, so_outputExpiresAt = None\<rparr>,
      quarantineOutputSink sink os)"

text \<open>\<open>exitCode >>> 0\<close> is the value modulo \<open>2^32\<close>.\<close>

definition normalizeExitCode :: "int option \<Rightarrow> int option" where
  "normalizeExitCode exitCode = (case exitCode of None \<Rightarrow> None | Some c \<Rightarrow> Some (if c < 0 then c mod 2 ^ 32 else c))"

text \<open>\<open>Math.max(0, Math.round(ms))\<close>\<close>

definition rounded_duration :: "rat \<Rightarrow> int" where
  "rounded_duration ms = max 0 \<lfloor>ms + 1 / 2\<rfloor>"

definition is_limit_error :: "thrown \<Rightarrow> bool" where
  "is_limit_error e = (case e of OutputLimitExceeded _ _ _ _ \<Rightarrow> True | _ \<Rightarrow> False)"

definition is_ssh_error :: "thrown \<Rightarrow> bool" where
  "is_ssh_error e = (case e of SshExecutionError _ \<Rightarrow> True | _ \<Rightarrow> False)"

text \<open>The first argument counts the iterations left; the code starts with eight.\<close>

fun findCause :: "nat \<Rightarrow> (thrown \<Rightarrow> bool) \<Rightarrow> thrown list \<Rightarrow> thrown option" where
  "findCause 0 constructor chain = None"
| "findCause (Suc n) constructor [] = None"
| "findCause (Suc n) constructor (current # causes) =
     (if constructor current then Some current else findCause n constructor causes)"

definition reason_termination :: "stop_reason \<Rightarrow> exec_termination" where
  "reason_termination r = (case r of StopTimeout \<Rightarrow> ByTimeout | StopCancel \<Rightarrow> ByCancel | StopOutputLimit \<Rightarrow> ByOutputLimit)"

definition requestStop :: "stop_reason \<Rightarrow> active_execution \<Rightarrow> active_execution" where
  "requestStop reason ax =
     (if \<not> ax_acceptingCancellation ax \<or> ax_reason ax \<noteq> None then ax
      else ax\<lparr>ax_reason := Some reason, ax_aborted := True\<rparr>)"

text \<open>\<open>active.reason ?? other\<close>\<close>

definition termination_or :: "exec_termination \<Rightarrow> active_execution \<Rightarrow> exec_termination" where
  "termination_or other ax = (case ax_reason ax of None \<Rightarrow> other | Some r \<Rightarrow> reason_termination r)"

section \<open>The asynchronous functions\<close>

text \<open>
  What \<open>#startExecution\<close> and \<open>#runFixedExecution\<close> register. A fixed probe has no sink and awaits its first audit
  record at once.
\<close>

definition new_execution :: "request_id \<Rightarrow> string \<Rightarrow> string \<Rightarrow> execution_work \<Rightarrow> active_execution" where
  "new_execution requestId executionId target work =
     \<lparr>ax_requestId = requestId, ax_executionId = executionId, ax_target = target, ax_aborted = False,
      ax_acceptingCancellation = True, ax_reason = None, ax_work = work, ax_sink = None,
      ax_phase = (if wk_probe work = None then CreatingSink else AuditingStart)\<rparr>"

definition end_with :: "thrown + execution_end \<Rightarrow> active_execution \<Rightarrow> active_execution" where
  "end_with r ax = ax\<lparr>ax_phase := Ended r\<rparr>"

text \<open>The \<open>catch\<close> block of \<open>#execute\<close> while the disposition of the sink has not been chosen.\<close>

definition fail_with :: "thrown \<Rightarrow> exec_state \<Rightarrow> exec_state" where
  "fail_with e s =
     (case s of (ax, os, audit) \<Rightarrow>
       (end_with (Inl e) ax, (case ax_sink ax of None \<Rightarrow> os | Some r \<Rightarrow> quarantineOutputSink r os), audit))"

definition resume_created :: "thrown + string \<Rightarrow> active_execution \<Rightarrow> active_execution" where
  "resume_created created ax =
     (case created of Inl e \<Rightarrow> end_with (Inl e) ax | Inr sink \<Rightarrow> ax\<lparr>ax_sink := Some sink, ax_phase := AuditingStart\<rparr>)"

definition probe_name :: "probe_kind \<Rightarrow> string" where
  "probe_name kind = (case kind of TargetInfo \<Rightarrow> ''target-info'' | DockerPreflight \<Rightarrow> ''docker-preflight'')"

definition audit_payload :: "execution_work \<Rightarrow> string" where
  "audit_payload work =
     (case wk_probe work of
        None \<Rightarrow> wk_payload work
      | Some (kind, _) \<Rightarrow> ''agent-ssh-fixed-probe:'' @ probe_name kind @ '':v1'')"

definition start_record :: "active_execution \<Rightarrow> audit_event" where
  "start_record ax =
     ExecStarted (ax_executionId ax) (ax_target ax) (hex (sha256 (buffer_from (audit_payload (ax_work ax)))))
       (length (audit_payload (ax_work ax)))"

text \<open>\<open>written\<close> is the error of the audit writer, if any.\<close>

definition resume_start_audited :: "thrown option \<Rightarrow> exec_state \<Rightarrow> exec_state" where
  "resume_start_audited written s =
     (case s of (ax, os, audit) \<Rightarrow>
        (case written of
           Some e \<Rightarrow> fail_with e s
         | None \<Rightarrow> (ax\<lparr>ax_phase := AtExecutor 0\<rparr>, os, audit @ [start_record ax])))"

text \<open>
  The \<open>append\<close> the executor calls with each chunk. The sink itself is passed on when nobody observes the output and
  there is no maximum. The result is what is thrown at once.
\<close>

definition execution_append ::
  "out_stream \<Rightarrow> bytes \<Rightarrow> int \<Rightarrow> active_execution \<Rightarrow> output_store
    \<Rightarrow> (thrown + unit) \<times> active_execution \<times> output_store" where
  "execution_append stream chunk seen ax os =
     (let bytes = int (length chunk); work = ax_work ax;
          append = (\<lambda>os. case ax_sink ax of None \<Rightarrow> os | Some r \<Rightarrow> tracked_append r stream chunk os) in
      case wk_probe work of
        Some (_, maxOutputBytes) \<Rightarrow>
          if seen + bytes > maxOutputBytes
          then (Inl (OutputLimitExceeded LimitBytes maxOutputBytes seen bytes), ax, os)
          else (Inr (), ax\<lparr>ax_phase := AtExecutor (seen + bytes)\<rparr>, os)
      | None \<Rightarrow>
          if wk_observer work = None \<and> wk_maximumOutputBytes work = None then (Inr (), ax, append os)
          else
            let ax1 = ax\<lparr>ax_phase := AtExecutor (seen + bytes)\<rparr> in
            case wk_maximumOutputBytes work of
              Some maximum \<Rightarrow>
                if seen + bytes > maximum
                then (Inl (OutputLimitExceeded LimitBytes maximum (seen + bytes - bytes) bytes), ax1, os)
                else (Inr (), ax1, append os)
            | None \<Rightarrow> (Inr (), ax1, append os))"

text \<open>
  The \<open>try\<close> statement around \<open>executor.run\<close>: \<open>elapsed\<close> is the time since the start. \<open>Inl\<close> is an error that
  is thrown again.
\<close>

definition run_settled :: "rat \<Rightarrow> thrown list + ssh_outcome \<Rightarrow> active_execution \<Rightarrow> (thrown + run_end) \<times> active_execution" where
  "run_settled elapsed res ax =
     (let (result, ax1) =
        (case res of
           Inr outcome \<Rightarrow>
             (Inr \<lparr>rn_termination = termination_or (if oc_aborted outcome then ByCancel else ByExit) ax, rn_outcome = outcome\<rparr>, ax)
         | Inl chain \<Rightarrow>
             if findCause 8 is_limit_error chain \<noteq> None
             then let ax1 = requestStop StopOutputLimit ax in
               (Inr \<lparr>rn_termination = termination_or ByOutputLimit ax1, rn_outcome = emptyOutcome elapsed\<rparr>, ax1)
             else if is_ssh_error (hd chain)
             then (Inr \<lparr>rn_termination = termination_or BySpawnError ax, rn_outcome = emptyOutcome elapsed\<rparr>, ax)
             else (Inl (hd chain), ax))
      in (result, ax1\<lparr>ax_acceptingCancellation := False\<rparr>))"

text \<open>From the output to the next audit record.\<close>

definition audit_output :: "run_end \<Rightarrow> stored_output \<Rightarrow> active_execution \<Rightarrow> active_execution" where
  "audit_output rn output ax =
     ax\<lparr>ax_phase := (if rn_termination rn \<in> {ByTimeout, ByCancel, ByOutputLimit}
                     then AuditingStop rn output else AuditingEnd rn (Some output))\<rparr>"

definition resume_ran :: "rat \<Rightarrow> thrown list + ssh_outcome \<Rightarrow> exec_state \<Rightarrow> exec_state" where
  "resume_ran elapsed res s =
     (case s of (ax, os, audit) \<Rightarrow>
        (case run_settled elapsed res ax of
           (Inl e, ax1) \<Rightarrow> fail_with e (ax1, os, audit)
         | (Inr rn, ax1) \<Rightarrow>
             (case ax_sink ax1 of
                None \<Rightarrow> (ax1\<lparr>ax_phase := AuditingEnd rn None\<rparr>, os, audit)
              | Some r \<Rightarrow>
                  if rn_termination rn \<in> {ByExit, ByOutputLimit}
                  then (ax1\<lparr>ax_phase := FinalizingSink rn\<rparr>, tracked_finalize r os, audit)
                  else (case discardOutputSink r os of (output, os1) \<Rightarrow> (audit_output rn output ax1, os1, audit)))))"

text \<open>What \<open>sink.finalize()\<close> has settled with, \<open>None\<close> while it is pending: a rejected call leaves no promise.\<close>

definition finalize_outcome :: "string \<Rightarrow> output_store \<Rightarrow> (thrown + stored_output) option" where
  "finalize_outcome sink os =
     (case map_of (os_sinks os) sink of
        None \<Rightarrow> None
      | Some t \<Rightarrow>
          (case sk_finalizePromise (tk_sink t) of
             NoPromise \<Rightarrow> Some (Inl OutputSinkClosed) | Pending \<Rightarrow> None | Settled r \<Rightarrow> Some r))"

definition resume_finalized :: "thrown + stored_output \<Rightarrow> run_end \<Rightarrow> exec_state \<Rightarrow> exec_state" where
  "resume_finalized res rn s =
     (case s of (ax, os, audit) \<Rightarrow>
        (case res of
           Inl e \<Rightarrow> fail_with e s
         | Inr output \<Rightarrow> (audit_output rn output ax, os, audit)))"

definition resume_stop_audited :: "thrown option \<Rightarrow> run_end \<Rightarrow> stored_output \<Rightarrow> exec_state \<Rightarrow> exec_state" where
  "resume_stop_audited written rn output s =
     (case s of (ax, os, audit) \<Rightarrow>
        (case written of
           Some e \<Rightarrow> (end_with (Inl e) ax, os, audit)
         | None \<Rightarrow>
             (ax\<lparr>ax_phase := AuditingEnd rn (Some output)\<rparr>, os,
              audit @ [ExecCancelled (ax_executionId ax) (ax_target ax) (rn_termination rn)])))"

definition exit_code :: "run_end \<Rightarrow> int option" where
  "exit_code rn = (if rn_termination rn = ByExit then normalizeExitCode (oc_exitCode (rn_outcome rn)) else None)"

definition end_record :: "run_end \<Rightarrow> stored_output option \<Rightarrow> active_execution \<Rightarrow> audit_event" where
  "end_record rn output ax =
     (let outcome = rn_outcome rn; record = ExecCompleted (ax_executionId ax) (ax_target ax) (rn_termination rn)
            (exit_code rn) (rounded_duration (oc_durationMs outcome)) in
      case output of
        None \<Rightarrow> record (oc_stdoutBytes outcome) (oc_stderrBytes outcome)
          (rn_termination rn = ByOutputLimit \<or> oc_stdoutTruncated outcome \<or> oc_stderrTruncated outcome)
      | Some out \<Rightarrow> record (sm_bytes (so_stdout out)) (sm_bytes (so_stderr out))
          (rn_termination rn = ByOutputLimit \<or> sm_inlineTruncated (so_stdout out) \<or> sm_inlineTruncated (so_stderr out)))"

definition execution_result :: "run_end \<Rightarrow> stored_output option \<Rightarrow> active_execution \<Rightarrow> execution_end" where
  "execution_result rn output ax =
     (let outcome = rn_outcome rn; durationMs = rounded_duration (oc_durationMs outcome) in
      case output of
        None \<Rightarrow>
          Probed \<lparr>fr_termination = rn_termination rn, fr_exitCode = exit_code rn, fr_durationMs = durationMs,
            fr_stdout = oc_stdout outcome, fr_stderr = oc_stderr outcome,
            fr_stdoutBytes = oc_stdoutBytes outcome, fr_stderrBytes = oc_stderrBytes outcome,
            fr_stdoutTruncated = oc_stdoutTruncated outcome, fr_stderrTruncated = oc_stderrTruncated outcome\<rparr>
      | Some out \<Rightarrow>
          Executed \<lparr>er_requestId = ax_requestId ax, er_termination = rn_termination rn, er_exitCode = exit_code rn,
            er_durationMs = durationMs, er_stdout = so_stdout out, er_stderr = so_stderr out,
            er_outputRef = so_outputRef out,
            er_outputExpiresAt = (if so_outputRef out = None then None else so_outputExpiresAt out)\<rparr>
           (if rn_termination rn = ByExit \<and> exit_code rn = Some 255 then oc_failureReason outcome else None))"

definition resume_end_audited :: "thrown option \<Rightarrow> run_end \<Rightarrow> stored_output option \<Rightarrow> exec_state \<Rightarrow> exec_state" where
  "resume_end_audited written rn output s =
     (case s of (ax, os, audit) \<Rightarrow>
        (case written of
           Some e \<Rightarrow> (end_with (Inl e) ax, os, audit)
         | None \<Rightarrow> (end_with (Inr (execution_result rn output ax)) ax, os, audit @ [end_record rn output ax])))"

section \<open>Results for clients\<close>

datatype probe_result_code = ProbeSuccess | ProbeRemoteExit | ProbeTimeout | ProbeCancel | ProbeOutputLimit | ProbeSpawnError

definition probeExecutionResultCode :: "fixed_result \<Rightarrow> probe_result_code" where
  "probeExecutionResultCode result =
     (case fr_termination result of
        ByExit \<Rightarrow> if fr_exitCode result = Some 0 then ProbeSuccess else ProbeRemoteExit
      | ByTimeout \<Rightarrow> ProbeTimeout
      | ByCancel \<Rightarrow> ProbeCancel
      | ByOutputLimit \<Rightarrow> ProbeOutputLimit
      | BySpawnError \<Rightarrow> ProbeSpawnError)"

definition SAFE_HOSTNAME_PATTERN :: "string \<Rightarrow> bool" where
  "SAFE_HOSTNAME_PATTERN s = (case s of [] \<Rightarrow> False | c # cs \<Rightarrow> is_alnum c \<and> list_all alias_char cs)"

definition MAX_TARGET_CHECK_HOSTNAME_LENGTH :: nat where "MAX_TARGET_CHECK_HOSTNAME_LENGTH = 255"

definition extractSafeHostname :: "string \<Rightarrow> string option" where
  "extractSafeHostname stdout =
     (let firstLine = js_trim (takeWhile (\<lambda>c. c \<noteq> return_char \<and> c \<noteq> newline) stdout) in
      if firstLine = [] then None
      else let hostname = take MAX_TARGET_CHECK_HOSTNAME_LENGTH firstLine in
        if SAFE_HOSTNAME_PATTERN hostname then Some hostname else None)"

record target_check_result =
  cr_target :: string
  cr_connected :: bool
  cr_termination :: exec_termination
  cr_exitCode :: "int option"
  cr_durationMs :: int
  cr_hostname :: "string option"
  cr_failureReason :: "failure_reason option"

definition toTargetCheckResult :: "string \<Rightarrow> exec_result \<Rightarrow> failure_reason option \<Rightarrow> target_check_result" where
  "toTargetCheckResult target result failureReason =
     (let connected = (er_termination result = ByExit \<and> er_exitCode result = Some 0) in
      \<lparr>cr_target = target, cr_connected = connected, cr_termination = er_termination result,
       cr_exitCode = er_exitCode result, cr_durationMs = er_durationMs result,
       cr_hostname = (if connected then extractSafeHostname (map char_of_byte (sm_text (er_stdout result))) else None),
       cr_failureReason = (if \<not> connected then failureReason else None)\<rparr>)"

end
