(* ===== verification/Transitions.thy ===== *)
theory Transitions
  imports Prelude
begin

text \<open>
  Invariants of transition systems. \<open>invariant_of\<close> is the contract of an invariant: it holds at the start and is kept
  by every step, so it holds in every state that can be reached. \<open>relative_invariant\<close> adds an invariant whose proof may use
  one that is known already.
\<close>

locale invariant_of =
  fixes start :: "'s \<Rightarrow> bool" and step :: "'s \<Rightarrow> 's \<Rightarrow> bool" and inv :: "'s \<Rightarrow> bool"
  assumes holds_first: "start s \<Longrightarrow> inv s"
    and kept: "inv s \<Longrightarrow> step s s' \<Longrightarrow> inv s'"
begin

lemma kept_all: "inv s \<Longrightarrow> step\<^sup>*\<^sup>* s s' \<Longrightarrow> inv s'"
  by (rotate_tac, induction rule: rtranclp_induct) (auto intro: kept)

lemma reached: "start s \<Longrightarrow> step\<^sup>*\<^sup>* s s' \<Longrightarrow> inv s'"
  using kept_all holds_first by blast

end

locale relative_invariant = known: invariant_of start step known
  for start :: "'s \<Rightarrow> bool" and step :: "'s \<Rightarrow> 's \<Rightarrow> bool" and known :: "'s \<Rightarrow> bool" +
  fixes inv :: "'s \<Rightarrow> bool"
  assumes also_first: "start s \<Longrightarrow> inv s"
    and also_kept: "known s \<Longrightarrow> inv s \<Longrightarrow> step s s' \<Longrightarrow> inv s'"

sublocale relative_invariant \<subseteq> both: invariant_of start step "\<lambda>s. known s \<and> inv s"
  by unfold_locales (auto intro: known.holds_first also_first known.kept also_kept)

end
