(* ===== verification/ExecCore.thy ===== *)
theory ExecCore
  imports Execution Transitions
begin

text \<open>
  All executions of the service as one transition system, \<open>core_step\<close>: the table of executions, the output store and the
  audit log. It leaves out sessions, counters, reloads and tasks, which \<open>ExecService\<close> adds. Three invariants are proved
  one upon the other with the locales of \<open>Transitions\<close>: the store is in a reachable state; every execution is where
  its audit records, its reason to stop and its sink say it is; a sink that is neither finalized nor aborted belongs to an
  execution that will do so.
\<close>

section \<open>Sinks only move forward\<close>

text \<open>A promise of a sink is never taken back, and a settled one keeps its value.\<close>

definition sink_forward :: "sink \<Rightarrow> sink \<Rightarrow> bool" where
  "sink_forward a b \<longleftrightarrow>
     (\<forall>v. sk_finalizePromise a = Settled v \<longrightarrow> sk_finalizePromise b = Settled v)
     \<and> (sk_finalizePromise a \<noteq> NoPromise \<longrightarrow> sk_finalizePromise b \<noteq> NoPromise)
     \<and> (sk_abortPromise a \<noteq> NoPromise \<longrightarrow> sk_abortPromise b \<noteq> NoPromise)"

definition disposed :: "sink \<Rightarrow> bool" where
  "disposed sk \<longleftrightarrow> sk_finalizePromise sk \<noteq> NoPromise \<or> sk_abortPromise sk \<noteq> NoPromise"

definition store_forward :: "output_store \<Rightarrow> output_store \<Rightarrow> bool" where
  "store_forward s s' \<longleftrightarrow>
     (\<forall>r t. map_of (os_sinks s) r = Some t \<longrightarrow>
        (\<exists>t'. map_of (os_sinks s') r = Some t' \<and> sink_forward (tk_sink t) (tk_sink t')))"

lemma sink_forward_refl [simp]: "sink_forward a a"
  by (simp add: sink_forward_def)

lemma sink_forward_trans: "sink_forward a b \<Longrightarrow> sink_forward b c \<Longrightarrow> sink_forward a c"
  by (auto simp: sink_forward_def)

lemma disposed_forward: "sink_forward a b \<Longrightarrow> disposed a \<Longrightarrow> disposed b"
  by (auto simp: sink_forward_def disposed_def)

lemma store_forward_same: "os_sinks s' = os_sinks s \<Longrightarrow> store_forward s s'"
  by (simp add: store_forward_def)

lemma store_forward_trans: "store_forward a b \<Longrightarrow> store_forward b c \<Longrightarrow> store_forward a c"
  unfolding store_forward_def by (meson sink_forward_trans)

lemma forward_append: "sink_forward sk (snd (sink_append stream chunk sk))"
  by (simp add: sink_forward_def sink_append_def)

lemma forward_cancel: "sink_forward sk (sink_cancel sk)"
  by (simp add: sink_forward_def sink_cancel_def)

lemma forward_finalize: "sink_forward sk (snd (sink_finalize sk))"
  by (simp add: sink_forward_def sink_finalize_def)

lemma forward_abort: "sink_forward sk (sink_abort sk)"
  using forward_cancel [of sk] by (auto simp: sink_forward_def sink_abort_def Let_def)

lemma forward_run:
  assumes "sink_protocol sk" "sink_run aio fio now (sk, fs, q) = (sk', fs', q')"
  shows "sink_forward sk sk'"
proof (cases "sk_tail sk")
  case Nil
  with assms(2) show ?thesis by (simp add: sink_run_def)
next
  case (Cons job jobs)
  let ?sk = "sk\<lparr>sk_tail := jobs\<rparr>"
  obtain appends where tail: "list_all is_append appends"
    "sk_tail sk = appends @ (if sk_finalizePromise sk = Pending then [FinalizeJob]
       else if sk_abortPromise sk = Pending then [AbortJob] else [])"
    using assms(1) by (auto simp: sink_protocol_def)
  have unsettled: "\<not> settled sk" using assms(1) Cons by (auto simp: sink_protocol_def)
  show ?thesis
  proof (cases job)
    case (AppendJob stream chunk)
    obtain res where "appendNow aio stream chunk (?sk, fs, q) = (res, sk', fs', q')"
      using assms(2) Cons AppendJob by (cases "appendNow aio stream chunk (?sk, fs, q)") (simp add: sink_run_def)
    from append_promises [OF this] show ?thesis by (simp add: sink_forward_def)
  next
    case FinalizeJob
    with tail Cons have p: "sk_finalizePromise sk = Pending" "sk_abortPromise sk = NoPromise"
      using assms(1) by (cases appends; auto simp: sink_protocol_def split: if_splits)+
    from FinalizeJob assms(2) Cons have "finalize_job fio now (?sk, fs, q) = (sk', fs', q')" by (simp add: sink_run_def)
    then have "is_settled (sk_finalizePromise sk')"
      by (auto simp: finalize_job_def is_settled_def Let_def split: prod.splits sum.splits)
    with p show ?thesis by (auto simp: sink_forward_def is_settled_def)
  next
    case AbortJob
    with tail Cons have p: "sk_finalizePromise sk = NoPromise" "sk_abortPromise sk = Pending"
      using assms(1) by (cases appends; auto simp: sink_protocol_def split: if_splits)+
    from AbortJob assms(2) Cons have "abort_job fio (?sk, fs, q) = (sk', fs', q')" by (simp add: sink_run_def)
    then have "is_settled (sk_abortPromise sk')"
      by (auto simp: abort_job_def is_settled_def Let_def split: prod.splits)
    with p show ?thesis by (auto simp: sink_forward_def is_settled_def)
  qed
qed

subsection \<open>The store\<close>

lemma put_sink_lookup:
  "map_of (os_sinks (put_sink r sk s)) x =
     (if x = r then map_option (\<lambda>t. t\<lparr>tk_sink := sk\<rparr>) (map_of (os_sinks s) r) else map_of (os_sinks s) x)"
  by (auto simp: put_sink_def update_conv' split: option.splits)

lemma release_lookup:
  "map_option tk_sink (map_of (os_sinks (releaseOnce r s)) x) = map_option tk_sink (map_of (os_sinks s) x)"
  by (auto simp: releaseOnce_def update_conv' split: option.splits)

text \<open>What is in the store, without the wrapper.\<close>

definition the_sink :: "output_store \<Rightarrow> string \<Rightarrow> sink option" where
  "the_sink s r = map_option tk_sink (map_of (os_sinks s) r)"

lemma lookup_the_sink:
  "map_of (os_sinks s) r = Some t \<Longrightarrow> the_sink s r = Some (tk_sink t)"
  "map_of (os_sinks s) r = None \<Longrightarrow> the_sink s r = None"
  by (simp_all add: the_sink_def)

lemma the_sink_release [simp]: "the_sink (releaseOnce r s) x = the_sink s x"
  by (simp add: the_sink_def release_lookup)

lemma the_sink_put [simp]:
  "the_sink (put_sink r sk s) x = (if x = r \<and> the_sink s r \<noteq> None then Some sk else the_sink s x)"
  by (auto simp: the_sink_def put_sink_lookup)

lemma store_forward_alt:
  "store_forward s s' \<longleftrightarrow> (\<forall>r sk. the_sink s r = Some sk \<longrightarrow> (\<exists>sk'. the_sink s' r = Some sk' \<and> sink_forward sk sk'))"
  unfolding store_forward_def the_sink_def by fastforce

lemma the_sink_fs [simp]:
  "the_sink (s\<lparr>os_fs := fs\<rparr>) x = the_sink s x" "the_sink (s\<lparr>os_quota := q\<rparr>) x = the_sink s x"
  "the_sink (s\<lparr>os_initialization := i\<rparr>) x = the_sink s x" "the_sink (s\<lparr>os_activeReferences := a\<rparr>) x = the_sink s x"
  by (simp_all add: the_sink_def)

lemma the_sink_tracked:
  "the_sink (tracked_append r stream chunk s) x =
     (if x = r then map_option (\<lambda>sk. snd (sink_append stream chunk sk)) (the_sink s r) else the_sink s x)"
  "the_sink (tracked_cancel r s) x = (if x = r then map_option sink_cancel (the_sink s r) else the_sink s x)"
  "the_sink (tracked_abort r s) x = (if x = r then map_option sink_abort (the_sink s r) else the_sink s x)"
  "the_sink (tracked_finalize r s) x = (if x = r then map_option (snd \<circ> sink_finalize) (the_sink s r) else the_sink s x)"
  by (cases "map_of (os_sinks s) r"; simp add: tracked_append_def tracked_cancel_def tracked_abort_def
      tracked_finalize_def Let_def lookup_the_sink split: prod.split)+

lemma the_sink_run:
  assumes "os_inv s" "the_sink s x = Some sk"
  shows "\<exists>sk'. the_sink (tracked_run aio fio now r s) x = Some sk' \<and> sink_forward sk sk'"
proof (cases "map_of (os_sinks s) r")
  case None
  with assms(2) show ?thesis by (simp add: tracked_run_def)
next
  case (Some t)
  obtain k fs q where run: "sink_run aio fio now (tk_sink t, os_fs s, os_quota s) = (k, fs, q)" by (metis prod_cases3)
  have "sink_protocol (tk_sink t)" using assms(1) Some by (auto simp: os_inv_def tracked_ok_def)
  from forward_run [OF this run] have f: "sink_forward (tk_sink t) k" .
  have "the_sink (tracked_run aio fio now r s) x = (if x = r then Some k else the_sink s x)"
    using Some run by (simp add: tracked_run_def Let_def lookup_the_sink)
  with f Some assms(2) show ?thesis by (auto simp: the_sink_def)
qed

lemma run_no_new_sinks: "the_sink (tracked_run aio fio now r s) x = None \<longleftrightarrow> the_sink s x = None"
proof (cases "map_of (os_sinks s) r")
  case (Some t)
  obtain k fs q where "sink_run aio fio now (tk_sink t, os_fs s, os_quota s) = (k, fs, q)" by (metis prod_cases3)
  with Some show ?thesis by (simp add: tracked_run_def Let_def lookup_the_sink)
qed (simp add: tracked_run_def)

lemma ensure_sinks: "ensureInitialized parse io now s = (res, s') \<Longrightarrow> os_sinks s' = os_sinks s"
  by (auto simp: ensureInitialized_def os_initialize_def split: option.splits prod.splits sum.splits if_splits)

lemma cleanup_sinks: "cleanupExpired parse io now s = (res, s') \<Longrightarrow> os_sinks s' = os_sinks s"
  by (auto simp: cleanupExpired_def dest!: ensure_sinks split: prod.splits sum.splits)

lemma not_found_sinks: "throwReadNotFound io reference s = (e, s') \<Longrightarrow> os_sinks s' = os_sinks s"
  by (auto simp: throwReadNotFound_def split: if_splits)

lemma expire_sinks: "expire_entry io reference s = (e, s') \<Longrightarrow> os_sinks s' = os_sinks s"
  by (auto simp: expire_entry_def split: prod.splits bool.splits)

lemma payload_sinks: "read_payload io reference stream offset n m s = (res, s') \<Longrightarrow> os_sinks s' = os_sinks s"
  by (auto simp: read_payload_def Let_def dest!: not_found_sinks split: prod.splits sum.splits if_splits option.splits fs_node.splits)

lemma read_sinks: "os_read parse io now reference stream offset limit s = (res, s') \<Longrightarrow> os_sinks s' = os_sinks s"
  by (auto simp: os_read_def Let_def dest!: ensure_sinks not_found_sinks expire_sinks payload_sinks
      split: prod.splits sum.splits if_splits)

lemma create_sinks:
  assumes "os_create parse io now random requestId s = (res, s')"
    and "\<forall>i. base64url (random i) \<notin> fst ` set (os_sinks s)"
  shows "case res of
      Inl e \<Rightarrow> os_sinks s' = os_sinks s
    | Inr r \<Rightarrow> the_sink s r = None
        \<and> (\<exists>a b c. \<forall>x. the_sink s' x = (if x = r then Some (new_sink r a b c) else the_sink s x))"
proof -
  consider "\<not> valid_request_id requestId" | e s1 where "valid_request_id requestId" "ensureInitialized parse io now s = (Inl e, s1)"
    | u s1 where "valid_request_id requestId" "ensureInitialized parse io now s = (Inr u, s1)"
    by (metis old.sum.exhaust surj_pair)
  then show ?thesis
  proof cases
    case (3 u s1)
    obtain res2 s2 where r: "reserveReference io random s1 = (res2, s2)" by force
    note spec = reserve_loop_spec [OF r [unfolded reserveReference_def]] and s1 = ensure_sinks [OF 3(2)]
    show ?thesis
    proof (cases res2)
      case (Inl e)
      with assms(1) 3 r spec s1 show ?thesis by (auto simp: os_create_def)
    next
      case (Inr reference)
      with spec obtain j where "reference = base64url (random j)" by auto
      with assms(2) have "map_of (os_sinks s) reference = None" by (auto simp: map_of_eq_None_iff)
      moreover have "os_sinks s2 = os_sinks s" using spec Inr s1 by auto
      ultimately show ?thesis using assms(1) 3 r Inr
        by (auto simp: os_create_def the_sink_def update_conv' intro!: exI)
    qed
  qed (use assms(1) in \<open>auto simp: os_create_def dest!: ensure_sinks\<close>)
qed

section \<open>Executions as a transition system\<close>

text \<open>The steps of one execution, with the store and the audit log it writes.\<close>

inductive exec_step :: "exec_state \<Rightarrow> exec_state \<Rightarrow> bool" where
  created: "ax_phase ax = CreatingSink \<Longrightarrow>
    os_create parse io now random (StringId (ax_executionId ax)) os = (res, os') \<Longrightarrow>
    (\<forall>j. base64url (random j) \<notin> fst ` set (os_sinks os)) \<Longrightarrow> exec_step (ax, os, audit) (resume_created res ax, os', audit)"
| start_audited: "ax_phase ax = AuditingStart \<Longrightarrow>
    exec_step (ax, os, audit) (resume_start_audited written (ax, os, audit))"
| chunk: "ax_phase ax = AtExecutor seen \<Longrightarrow> execution_append stream bytes seen ax os = (res, ax', os') \<Longrightarrow>
    exec_step (ax, os, audit) (ax', os', audit)"
| stop: "exec_step (ax, os, audit) (requestStop reason ax, os, audit)"
| ended: "ax_phase ax = AtExecutor seen \<Longrightarrow> res \<noteq> Inl [] \<Longrightarrow>
    exec_step (ax, os, audit) (resume_ran elapsed res (ax, os, audit))"
| finalized: "ax_phase ax = FinalizingSink rn \<Longrightarrow> ax_sink ax = Some sink \<Longrightarrow> finalize_outcome sink os = Some res \<Longrightarrow>
    exec_step (ax, os, audit) (resume_finalized res rn (ax, os, audit))"
| stop_audited: "ax_phase ax = AuditingStop rn out \<Longrightarrow>
    exec_step (ax, os, audit) (resume_stop_audited written rn out (ax, os, audit))"
| end_audited: "ax_phase ax = AuditingEnd rn out' \<Longrightarrow>
    exec_step (ax, os, audit) (resume_end_audited written rn out' (ax, os, audit))"

text \<open>What happens in the store without an execution.\<close>

inductive store_call :: "output_store \<Rightarrow> output_store \<Rightarrow> bool" where
  job: "store_call os (tracked_run aio fio now r os)"
| read: "os_read parse io now reference stream offset limit os = (res, os') \<Longrightarrow> store_call os os'"
| cleanup: "cleanupExpired parse io now os = (res, os') \<Longrightarrow> store_call os os'"

text \<open>
  All executions with the store and the audit log: the part of the service that the properties of executions
  depend on. An execution is admitted under a new key, makes steps, is asked to stop, possibly
  together with others, and is removed after its end.
\<close>

record exec_core =
  co_table :: "string \<times> request_id \<Rightarrow> active_execution option"
  co_outputs :: output_store
  co_audit :: "audit_event list"

definition new_id :: "exec_core \<Rightarrow> string \<Rightarrow> bool" where
  "new_id c i \<longleftrightarrow> (\<forall>key ax. co_table c key = Some ax \<longrightarrow> ax_executionId ax \<noteq> i) \<and> (\<forall>e \<in> set (co_audit c). event_id e \<noteq> i)"

definition stopped :: "('k \<Rightarrow> active_execution option) \<Rightarrow> ('k \<Rightarrow> active_execution option) \<Rightarrow> bool" where
  "stopped t t' \<longleftrightarrow> (\<forall>key. t' key = t key \<or> (\<exists>ax. t key = Some ax \<and> t' key = Some (requestStop StopCancel ax)))"

inductive core_step :: "exec_core \<Rightarrow> exec_core \<Rightarrow> bool" where
  admit: "co_table c key = None \<Longrightarrow> new_id c i \<Longrightarrow>
    core_step c (c\<lparr>co_table := (co_table c)(key \<mapsto> new_execution (snd key) i target work)\<rparr>)"
| go_on: "co_table c key = Some ax \<Longrightarrow> exec_step (ax, co_outputs c, co_audit c) (ax', os', audit') \<Longrightarrow>
    core_step c (c\<lparr>co_table := (co_table c)(key \<mapsto> ax'), co_outputs := os', co_audit := audit'\<rparr>)"
| stops: "stopped (co_table c) t \<Longrightarrow> core_step c (c\<lparr>co_table := t\<rparr>)"
| remove: "co_table c key = Some ax \<Longrightarrow> ax_phase ax = Ended r \<Longrightarrow>
    core_step c (c\<lparr>co_table := (co_table c)(key := None)\<rparr>)"
| store: "store_call (co_outputs c) os \<Longrightarrow> core_step c (c\<lparr>co_outputs := os\<rparr>)"

definition core_start :: "exec_core \<Rightarrow> bool" where
  "core_start c \<longleftrightarrow> co_table c = (\<lambda>_. None) \<and> co_audit c = [] \<and> os_reachable (co_outputs c) \<and> os_sinks (co_outputs c) = []"

section \<open>The store under executions\<close>

lemma quarantine_steps: "os_step\<^sup>*\<^sup>* os (quarantineOutputSink r os)"
  unfolding quarantineOutputSink_def
  by (meson os_step.abort os_step.cancel rtranclp.rtrancl_refl rtranclp.rtrancl_into_rtrancl)

lemma fail_steps: "fail_with e (ax, os, audit) = (ax', os', audit') \<Longrightarrow> os_step\<^sup>*\<^sup>* os os'"
  by (auto simp: fail_with_def quarantine_steps split: option.splits)

lemma append_steps: "execution_append stream bytes seen ax os = (res, ax', os') \<Longrightarrow> os_step\<^sup>*\<^sup>* os os'"
  by (auto simp: execution_append_def Let_def intro: os_step.append split: option.splits prod.splits if_splits)

lemma ran_steps: "resume_ran elapsed res (ax, os, audit) = (ax', os', audit') \<Longrightarrow> os_step\<^sup>*\<^sup>* os os'"
  by (auto simp: resume_ran_def discardOutputSink_def quarantine_steps dest!: fail_steps intro: os_step.finalize
      split: option.splits prod.splits sum.splits if_splits)

lemma exec_step_store:
  assumes "exec_step (ax, os, audit) (ax', os', audit')"
  shows "os_step\<^sup>*\<^sup>* os os'"
  using assms
proof cases
  case created
  then show ?thesis by (blast intro: os_step.create)
next
  case (start_audited written)
  then show ?thesis by (auto simp: resume_start_audited_def dest!: fail_steps [OF sym] split: option.splits)
next
  case (finalized rn sink res)
  then show ?thesis by (auto simp: resume_finalized_def dest!: fail_steps [OF sym] split: sum.splits)
next
  case (stop_audited rn out written)
  then show ?thesis by (auto simp: resume_stop_audited_def split: option.splits)
next
  case (end_audited rn out' written)
  then show ?thesis by (auto simp: resume_end_audited_def split: option.splits)
qed (auto dest!: append_steps ran_steps [OF sym])

lemma reachable_steps: "os_step\<^sup>*\<^sup>* s s' \<Longrightarrow> os_reachable s \<Longrightarrow> os_reachable s'"
  by (induction rule: rtranclp_induct) (auto intro: os_reachable.step)

lemma store_call_step: "store_call s s' \<Longrightarrow> os_step s s'"
  by (induction rule: store_call.induct) (auto intro: os_step.intros)

interpretation stores: invariant_of core_start core_step "\<lambda>c. os_reachable (co_outputs c)"
proof
  fix c c' assume r: "os_reachable (co_outputs c)" and "core_step c c'"
  from this(2) show "os_reachable (co_outputs c')"
    by cases (use r in \<open>auto dest: exec_step_store store_call_step intro: reachable_steps os_reachable.step\<close>)
qed (simp add: core_start_def)

section \<open>What holds of an execution\<close>

definition empty_output :: stored_output where
  "empty_output = \<lparr>so_stdout = empty_summary, so_stderr = empty_summary, so_outputRef = None, so_outputExpiresAt = None\<rparr>"

fun before_end :: "exec_phase \<Rightarrow> bool" where
  "before_end CreatingSink = True"
| "before_end AuditingStart = True"
| "before_end (AtExecutor _) = True"
| "before_end _ = False"

definition is_probe :: "execution_work \<Rightarrow> bool" where
  "is_probe work \<longleftrightarrow> wk_probe work \<noteq> None"

definition control_ok :: "active_execution \<Rightarrow> bool" where
  "control_ok ax \<longleftrightarrow>
     (ax_aborted ax \<longleftrightarrow> ax_reason ax \<noteq> None)
     \<and> (before_end (ax_phase ax) \<longrightarrow> ax_acceptingCancellation ax)
     \<and> (\<not> before_end (ax_phase ax) \<longrightarrow> (\<forall>e. ax_phase ax \<noteq> Ended (Inl e)) \<longrightarrow> \<not> ax_acceptingCancellation ax)
     \<and> (ax_phase ax = CreatingSink \<longrightarrow> ax_sink ax = None \<and> \<not> is_probe (ax_work ax))
     \<and> (ax_phase ax \<noteq> CreatingSink \<longrightarrow> (\<forall>e. ax_phase ax \<noteq> Ended (Inl e)) \<longrightarrow> (ax_sink ax = None \<longleftrightarrow> is_probe (ax_work ax)))"

text \<open>The termination is the first reason to stop; without one it is what the executor reported.\<close>

definition termination_ok :: "active_execution \<Rightarrow> run_end \<Rightarrow> bool" where
  "termination_ok ax rn \<longleftrightarrow>
     (case ax_reason ax of
        Some reason \<Rightarrow> rn_termination rn = reason_termination reason
      | None \<Rightarrow> rn_termination rn = BySpawnError \<or> rn_termination rn = (if oc_aborted (rn_outcome rn) then ByCancel else ByExit))"

text \<open>The reported output is what the sink was finalized with, or nothing from a sink that is aborted.\<close>

definition output_ok :: "active_execution \<Rightarrow> output_store \<Rightarrow> run_end \<Rightarrow> stored_output option \<Rightarrow> bool" where
  "output_ok ax os rn output \<longleftrightarrow>
     (case ax_sink ax of
        None \<Rightarrow> output = None
      | Some r \<Rightarrow>
          if rn_termination rn \<in> {ByExit, ByOutputLimit} then (\<exists>v. output = Some v \<and> finalize_outcome r os = Some (Inr v))
          else output = Some empty_output \<and> (\<exists>sk. the_sink os r = Some sk \<and> sk_abortPromise sk \<noteq> NoPromise))"

definition stop_records :: "active_execution \<Rightarrow> run_end \<Rightarrow> stored_output option \<Rightarrow> audit_event list" where
  "stop_records ax rn output =
     (if output \<noteq> None \<and> rn_termination rn \<in> {ByTimeout, ByCancel, ByOutputLimit}
      then [ExecCancelled (ax_executionId ax) (ax_target ax) (rn_termination rn)] else [])"

definition open_sink :: "output_store \<Rightarrow> string \<Rightarrow> bool" where
  "open_sink os r \<longleftrightarrow> (\<exists>sk. the_sink os r = Some sk \<and> sk_finalizePromise sk = NoPromise)"

definition own_records :: "active_execution \<Rightarrow> audit_event list \<Rightarrow> audit_event list" where
  "own_records ax audit = filter (\<lambda>e. event_id e = ax_executionId ax) audit"

definition progress_ok :: "active_execution \<Rightarrow> output_store \<Rightarrow> audit_event list \<Rightarrow> bool" where
  "progress_ok ax os audit \<longleftrightarrow>
     (case ax_phase ax of
        CreatingSink \<Rightarrow> own_records ax audit = []
      | AuditingStart \<Rightarrow> own_records ax audit = [] \<and> (\<forall>r. ax_sink ax = Some r \<longrightarrow> open_sink os r)
      | AtExecutor _ \<Rightarrow> own_records ax audit = [start_record ax] \<and> (\<forall>r. ax_sink ax = Some r \<longrightarrow> open_sink os r)
      | FinalizingSink rn \<Rightarrow> own_records ax audit = [start_record ax] \<and> termination_ok ax rn
          \<and> rn_termination rn \<in> {ByExit, ByOutputLimit} \<and> (\<exists>r sk. ax_sink ax = Some r \<and> the_sink os r = Some sk)
      | AuditingStop rn output \<Rightarrow> own_records ax audit = [start_record ax] \<and> termination_ok ax rn
          \<and> rn_termination rn \<in> {ByTimeout, ByCancel, ByOutputLimit} \<and> output_ok ax os rn (Some output)
      | AuditingEnd rn output \<Rightarrow> own_records ax audit = start_record ax # stop_records ax rn output
          \<and> termination_ok ax rn \<and> output_ok ax os rn output
      | Ended (Inl e) \<Rightarrow> True
      | Ended (Inr v) \<Rightarrow> (\<exists>rn output. v = execution_result rn output ax \<and> termination_ok ax rn \<and> output_ok ax os rn output
          \<and> own_records ax audit = start_record ax # stop_records ax rn output @ [end_record rn output ax]))"

definition exec_ok :: "request_id \<Rightarrow> active_execution \<Rightarrow> output_store \<Rightarrow> audit_event list \<Rightarrow> bool" where
  "exec_ok requestId ax os audit \<longleftrightarrow> ax_requestId ax = requestId \<and> control_ok ax \<and> progress_ok ax os audit
     \<and> (\<forall>r. ax_sink ax = Some r \<longrightarrow> the_sink os r \<noteq> None)"

subsection \<open>Interference\<close>

definition sink_quiet :: "string \<Rightarrow> output_store \<Rightarrow> output_store \<Rightarrow> bool" where
  "sink_quiet r os os' \<longleftrightarrow>
     (\<forall>sk. the_sink os r = Some sk \<longrightarrow> (\<exists>sk'. the_sink os' r = Some sk' \<and> sink_forward sk sk'
        \<and> (sk_finalizePromise sk = NoPromise \<longrightarrow> sk_finalizePromise sk' = NoPromise)))"

lemma sink_quiet_same: "the_sink os' r = the_sink os r \<Longrightarrow> sink_quiet r os os'"
  by (simp add: sink_quiet_def)

lemma finalize_outcome_alt:
  "finalize_outcome r os = (case the_sink os r of None \<Rightarrow> None | Some sk \<Rightarrow>
     (case sk_finalizePromise sk of NoPromise \<Rightarrow> Some (Inl OutputSinkClosed) | Pending \<Rightarrow> None | Settled v \<Rightarrow> Some v))"
  by (simp add: finalize_outcome_def the_sink_def split: option.split)

lemma finalize_outcome_quiet:
  "sink_quiet r os os' \<Longrightarrow> finalize_outcome r os = Some (Inr v) \<Longrightarrow> finalize_outcome r os' = Some (Inr v)"
  by (auto simp: finalize_outcome_alt sink_quiet_def sink_forward_def split: option.splits promise.splits)

lemma open_sink_quiet: "sink_quiet r os os' \<Longrightarrow> open_sink os r \<Longrightarrow> open_sink os' r"
  by (auto simp: open_sink_def sink_quiet_def)

lemma aborted_quiet:
  "sink_quiet r os os' \<Longrightarrow> the_sink os r = Some sk \<Longrightarrow> sk_abortPromise sk \<noteq> NoPromise \<Longrightarrow>
   \<exists>sk'. the_sink os' r = Some sk' \<and> sk_abortPromise sk' \<noteq> NoPromise"
  by (auto simp: sink_quiet_def sink_forward_def)

lemma output_ok_quiet:
  "output_ok ax os rn output \<Longrightarrow> (\<And>r. ax_sink ax = Some r \<Longrightarrow> sink_quiet r os os') \<Longrightarrow> output_ok ax os' rn output"
  by (auto simp: output_ok_def intro: finalize_outcome_quiet aborted_quiet split: option.splits if_splits)

lemma own_records_append [simp]: "own_records ax (audit @ es) = own_records ax audit @ own_records ax es"
  by (simp add: own_records_def)

lemma own_records_other: "(\<And>e. e \<in> set es \<Longrightarrow> event_id e \<noteq> ax_executionId ax) \<Longrightarrow> own_records ax es = []"
  by (auto simp: own_records_def filter_empty_conv)

lemma exec_ok_quiet:
  assumes "exec_ok q ax os audit" "\<And>r. ax_sink ax = Some r \<Longrightarrow> sink_quiet r os os'" "own_records ax es = []"
  shows "exec_ok q ax os' (audit @ es)"
proof -
  have "the_sink os' r \<noteq> None" if "ax_sink ax = Some r" for r
    using assms(1) assms(2) [OF that] that by (auto simp: exec_ok_def sink_quiet_def)
  moreover have "progress_ok ax os' (audit @ es)"
  proof -
    have p: "progress_ok ax os audit" using assms(1) by (simp add: exec_ok_def)
    show ?thesis
    proof (cases "ax_phase ax")
      case (FinalizingSink rn)
      with p assms show ?thesis by (force simp: progress_ok_def sink_quiet_def)
    next
      case (Ended v)
      with p assms(2,3) show ?thesis
        by (cases v) (auto simp: progress_ok_def intro: output_ok_quiet)
    qed (use p assms(2,3) in \<open>auto simp: progress_ok_def intro: output_ok_quiet open_sink_quiet\<close>)
  qed
  ultimately show ?thesis using assms(1) by (simp add: exec_ok_def)
qed

lemma run_keeps_open:
  assumes "sink_protocol sk" "sink_run aio fio now (sk, fs, q) = (sk', fs', q')" "sk_finalizePromise sk = NoPromise"
  shows "sk_finalizePromise sk' = NoPromise"
proof (cases "sk_tail sk")
  case Nil
  with assms(2,3) show ?thesis by (simp add: sink_run_def)
next
  case (Cons job jobs)
  let ?sk = "sk\<lparr>sk_tail := jobs\<rparr>"
  show ?thesis
  proof (cases job)
    case (AppendJob stream chunk)
    obtain res where "appendNow aio stream chunk (?sk, fs, q) = (res, sk', fs', q')"
      using assms(2) Cons AppendJob by (cases "appendNow aio stream chunk (?sk, fs, q)") (simp add: sink_run_def)
    from append_promises [OF this] assms(3) show ?thesis by simp
  next
    case FinalizeJob
    with assms(1,3) Cons show ?thesis
      by (auto simp: sink_protocol_def Cons_eq_append_conv split: if_splits)
  next
    case AbortJob
    with assms(2,3) Cons show ?thesis
      by (auto simp: sink_run_def abort_job_def closeHandles_def Let_def split: prod.splits if_splits)
  qed
qed

lemma store_call_quiet:
  assumes "store_call os os'" "os_inv os"
  shows "sink_quiet r os os'"
  using assms(1)
proof cases
  case (job aio fio now x)
  show ?thesis
  proof (cases "map_of (os_sinks os) x")
    case None
    then show ?thesis by (simp add: job tracked_run_def sink_quiet_def)
  next
    case (Some t)
    obtain k fs q where run: "sink_run aio fio now (tk_sink t, os_fs os, os_quota os) = (k, fs, q)" by (metis prod_cases3)
    have p: "sink_protocol (tk_sink t)" using assms(2) Some by (auto simp: os_inv_def tracked_ok_def)
    have "the_sink os' y = (if y = x then Some k else the_sink os y)" for y
      using Some run by (simp add: job tracked_run_def Let_def lookup_the_sink)
    with forward_run [OF p run] run_keeps_open [OF p run] Some show ?thesis
      by (auto simp: sink_quiet_def lookup_the_sink)
  qed
next
  case read
  then show ?thesis by (intro sink_quiet_same) (simp add: the_sink_def read_sinks)
next
  case cleanup
  then show ?thesis by (intro sink_quiet_same) (simp add: the_sink_def cleanup_sinks)
qed

subsection \<open>What a step of an execution leaves alone\<close>

lemma requestStop_fields [simp]:
  "ax_requestId (requestStop reason ax) = ax_requestId ax" "ax_executionId (requestStop reason ax) = ax_executionId ax"
  "ax_target (requestStop reason ax) = ax_target ax" "ax_work (requestStop reason ax) = ax_work ax"
  "ax_sink (requestStop reason ax) = ax_sink ax" "ax_phase (requestStop reason ax) = ax_phase ax"
  "ax_acceptingCancellation (requestStop reason ax) = ax_acceptingCancellation ax"
  by (simp_all add: requestStop_def)

lemma run_settled_fields:
  assumes "run_settled elapsed res ax = (result, ax')"
  shows "ax_requestId ax' = ax_requestId ax" "ax_executionId ax' = ax_executionId ax" "ax_target ax' = ax_target ax"
    "ax_work ax' = ax_work ax" "ax_sink ax' = ax_sink ax" "\<not> ax_acceptingCancellation ax'"
  using assms by (auto simp: run_settled_def Let_def split: sum.splits if_splits)

definition same_identity :: "active_execution \<Rightarrow> active_execution \<Rightarrow> bool" where
  "same_identity ax ax' \<longleftrightarrow> ax_requestId ax' = ax_requestId ax \<and> ax_executionId ax' = ax_executionId ax
     \<and> ax_target ax' = ax_target ax \<and> ax_work ax' = ax_work ax"

lemma fail_with_cases:
  "fail_with e (ax, os, audit) = (ax\<lparr>ax_phase := Ended (Inl e)\<rparr>,
     (case ax_sink ax of None \<Rightarrow> os | Some r \<Rightarrow> quarantineOutputSink r os), audit)"
  by (simp add: fail_with_def end_with_def)

lemma the_sink_quarantine:
  "the_sink (quarantineOutputSink r os) x =
     (if x = r then map_option (\<lambda>sk. sink_abort (sink_cancel sk)) (the_sink os r) else the_sink os x)"
  by (simp add: quarantineOutputSink_def the_sink_tracked option.map_comp comp_def)

text \<open>An execution changes its own sink only, writes its own audit records only, and keeps its identity.\<close>

lemma exec_step_frame:
  assumes "exec_step (ax, os, audit) (ax', os', audit')"
  shows "same_identity ax ax' \<and> (\<exists>es. audit' = audit @ es \<and> (\<forall>e \<in> set es. event_id e = ax_executionId ax))
    \<and> (\<forall>x. ax_sink ax' \<noteq> Some x \<longrightarrow> ax_sink ax \<noteq> Some x \<longrightarrow> the_sink os' x = the_sink os x)
    \<and> (\<forall>x. the_sink os x = None \<longrightarrow> the_sink os' x \<noteq> None \<longrightarrow> ax_sink ax' = Some x)
    \<and> (ax_sink ax' = ax_sink ax \<or> (\<exists>x. ax_phase ax = CreatingSink \<and> ax_sink ax' = Some x \<and> the_sink os x = None))"
  using assms
proof cases
  case (created parse io now random res)
  note c = create_sinks [OF created(4,5)]
  show ?thesis
  proof (cases res)
    case (Inl e)
    with created c show ?thesis
      by (auto simp: resume_created_def end_with_def same_identity_def the_sink_def)
  next
    case (Inr r)
    with created c show ?thesis by (auto simp: resume_created_def same_identity_def split: if_splits)
  qed
next
  case (start_audited written)
  then show ?thesis
    by (auto simp: resume_start_audited_def fail_with_cases same_identity_def the_sink_quarantine start_record_def
        split: option.splits)
next
  case (chunk seen stream bytes res)
  then show ?thesis
    by (auto simp: execution_append_def Let_def same_identity_def the_sink_tracked split: option.splits prod.splits if_splits)
next
  case (stop reason)
  then show ?thesis by (auto simp: same_identity_def)
next
  case (ended seen res elapsed)
  obtain result ax1 where run: "run_settled elapsed res ax = (result, ax1)" by force
  from ended run run_settled_fields [OF run] show ?thesis
    by (auto simp: resume_ran_def fail_with_cases same_identity_def the_sink_quarantine the_sink_tracked discardOutputSink_def
        audit_output_def split: option.splits sum.splits if_splits)
next
  case (finalized rn sink res)
  then show ?thesis
    by (auto simp: resume_finalized_def fail_with_cases same_identity_def the_sink_quarantine audit_output_def
        split: sum.splits if_splits)
next
  case (stop_audited rn out written)
  then show ?thesis by (auto simp: resume_stop_audited_def end_with_def same_identity_def split: option.splits)
next
  case (end_audited rn out' written)
  then show ?thesis
    by (auto simp: resume_end_audited_def end_with_def same_identity_def end_record_def Let_def split: option.splits)
qed

subsection \<open>Steps keep what holds of an execution\<close>

lemma records_phase [simp]:
  "start_record (ax\<lparr>ax_phase := ph\<rparr>) = start_record ax" "own_records (ax\<lparr>ax_phase := ph\<rparr>) audit = own_records ax audit"
  "start_record (ax\<lparr>ax_sink := sink\<rparr>) = start_record ax" "own_records (ax\<lparr>ax_sink := sink\<rparr>) audit = own_records ax audit"
  "end_record rn output (ax\<lparr>ax_phase := ph\<rparr>) = end_record rn output ax"
  "execution_result rn output (ax\<lparr>ax_phase := ph\<rparr>) = execution_result rn output ax"
  "stop_records (ax\<lparr>ax_phase := ph\<rparr>) rn output = stop_records ax rn output"
  "termination_ok (ax\<lparr>ax_phase := ph\<rparr>) rn = termination_ok ax rn"
  "output_ok (ax\<lparr>ax_phase := ph\<rparr>) os rn output = output_ok ax os rn output"
  by (simp_all add: start_record_def own_records_def end_record_def execution_result_def stop_records_def
      termination_ok_def output_ok_def Let_def cong: option.case_cong)

lemma records_stop [simp]:
  "start_record (requestStop reason ax) = start_record ax" "own_records (requestStop reason ax) audit = own_records ax audit"
  by (simp_all add: start_record_def own_records_def)

lemma own_start_record [simp]: "own_records ax [start_record ax] = [start_record ax]"
  by (simp add: own_records_def start_record_def)

lemma own_end_record [simp]: "own_records ax [end_record rn output ax] = [end_record rn output ax]"
  by (simp add: own_records_def end_record_def Let_def split: option.split)

lemma exec_ok_stop:
  assumes "exec_ok q ax os audit"
  shows "exec_ok q (requestStop reason ax) os audit"
proof (cases "ax_acceptingCancellation ax \<and> ax_reason ax = None")
  case False
  then have "requestStop reason ax = ax" by (auto simp: requestStop_def)
  with assms show ?thesis by simp
next
  case True
  then have p: "before_end (ax_phase ax) \<or> (\<exists>e. ax_phase ax = Ended (Inl e))"
    using assms by (auto simp: exec_ok_def control_ok_def)
  have "control_ok (requestStop reason ax)" using assms True by (auto simp: exec_ok_def control_ok_def requestStop_def)
  moreover have "progress_ok (requestStop reason ax) os audit" using p assms
    by (cases "ax_phase ax") (auto simp: exec_ok_def progress_ok_def)
  ultimately show ?thesis using assms by (simp add: exec_ok_def)
qed

lemma quarantined:
  assumes "os_inv os" "open_sink os r"
  shows "\<exists>sk. the_sink (quarantineOutputSink r os) r = Some sk \<and> sk_abortPromise sk \<noteq> NoPromise"
proof -
  from assms(2) obtain sk where sk: "the_sink os r = Some sk" "sk_finalizePromise sk = NoPromise" by (auto simp: open_sink_def)
  then have "sink_protocol sk" using assms(1) by (auto simp: the_sink_def os_inv_def tracked_ok_def)
  with sk(2) have "\<not> sk_published sk" by (auto simp: sink_protocol_def)
  with sk show ?thesis by (auto simp: the_sink_quarantine sink_abort_def sink_cancel_def Let_def)
qed

lemma the_sink_kept: "the_sink os x \<noteq> None \<Longrightarrow> the_sink (quarantineOutputSink r os) x \<noteq> None"
  "the_sink os x \<noteq> None \<Longrightarrow> the_sink (tracked_finalize r os) x \<noteq> None"
  "the_sink os x \<noteq> None \<Longrightarrow> the_sink (tracked_append r stream chunk os) x \<noteq> None"
  by (auto simp: the_sink_quarantine the_sink_tracked)

lemma exec_ok_fail:
  assumes "exec_ok q ax os audit" "fail_with e (ax, os, audit) = (ax', os', audit')"
  shows "exec_ok q ax' os' audit'"
proof -
  have "ax' = ax\<lparr>ax_phase := Ended (Inl e)\<rparr>" "os' = (case ax_sink ax of None \<Rightarrow> os | Some r \<Rightarrow> quarantineOutputSink r os)"
    using assms(2) by (simp_all add: fail_with_cases)
  moreover have "control_ok (ax\<lparr>ax_phase := Ended (Inl e)\<rparr>)" using assms(1) by (simp add: exec_ok_def control_ok_def)
  moreover have "progress_ok (ax\<lparr>ax_phase := Ended (Inl e)\<rparr>) os' audit'" by (simp add: progress_ok_def)
  ultimately show ?thesis using assms(1) by (simp add: exec_ok_def the_sink_kept split: option.split)
qed

lemma run_settled_termination:
  assumes "run_settled elapsed res ax = (Inr rn, ax')" "ax_acceptingCancellation ax"
  shows "termination_ok ax' rn"
proof -
  have t: "oc_aborted v \<Longrightarrow> termination_ok (ax\<lparr>ax_acceptingCancellation := b\<rparr>) \<lparr>rn_termination = termination_or ByCancel ax, rn_outcome = v\<rparr>"
    "\<not> oc_aborted v \<Longrightarrow> termination_ok (ax\<lparr>ax_acceptingCancellation := b\<rparr>) \<lparr>rn_termination = termination_or ByExit ax, rn_outcome = v\<rparr>"
    "termination_ok (ax\<lparr>ax_acceptingCancellation := b\<rparr>) \<lparr>rn_termination = termination_or BySpawnError ax, rn_outcome = v\<rparr>" for v b
    by (auto simp: termination_ok_def termination_or_def split: option.splits)
  have "ax_reason (requestStop StopOutputLimit ax) \<noteq> None" using assms(2) by (auto simp: requestStop_def)
  then have "termination_ok ((requestStop StopOutputLimit ax)\<lparr>ax_acceptingCancellation := b\<rparr>)
      \<lparr>rn_termination = termination_or ByOutputLimit (requestStop StopOutputLimit ax), rn_outcome = v\<rparr>" for b v
    by (auto simp: termination_ok_def termination_or_def split: option.splits)
  with t assms(1) show ?thesis by (auto simp: run_settled_def Let_def split: sum.splits if_splits)
qed

lemma run_settled_control:
  assumes "run_settled elapsed res ax = (result, ax')" "ax_aborted ax \<longleftrightarrow> ax_reason ax \<noteq> None"
  shows "ax_aborted ax' \<longleftrightarrow> ax_reason ax' \<noteq> None" "ax_phase ax' = ax_phase ax"
proof -
  have "ax' = ax\<lparr>ax_acceptingCancellation := False\<rparr> \<or> ax' = (requestStop StopOutputLimit ax)\<lparr>ax_acceptingCancellation := False\<rparr>"
    using assms(1) by (auto simp: run_settled_def Let_def split: sum.splits if_splits)
  with assms(2) show "ax_aborted ax' \<longleftrightarrow> ax_reason ax' \<noteq> None" "ax_phase ax' = ax_phase ax"
    by (auto simp: requestStop_def split: if_splits)
qed

lemma run_settled_records:
  assumes "run_settled elapsed res ax = (result, ax')"
  shows "start_record ax' = start_record ax" "own_records ax' audit = own_records ax audit"
  using run_settled_fields [OF assms] by (simp_all add: start_record_def own_records_def)

lemma exec_ok_audit_output:
  assumes "ax_requestId ax = q" "ax_aborted ax \<longleftrightarrow> ax_reason ax \<noteq> None" "\<not> ax_acceptingCancellation ax"
    and "ax_sink ax = Some r" "\<not> is_probe (ax_work ax)" "the_sink os r \<noteq> None"
    and "own_records ax audit = [start_record ax]" "termination_ok ax rn" "output_ok ax os rn (Some output)"
  shows "exec_ok q (audit_output rn output ax) os audit"
proof (cases "rn_termination rn \<in> {ByTimeout, ByCancel, ByOutputLimit}")
  case True
  then have "audit_output rn output ax = ax\<lparr>ax_phase := AuditingStop rn output\<rparr>" by (simp add: audit_output_def)
  with assms True show ?thesis by (simp add: exec_ok_def control_ok_def progress_ok_def)
next
  case False
  then have "audit_output rn output ax = ax\<lparr>ax_phase := AuditingEnd rn (Some output)\<rparr>" by (simp add: audit_output_def)
  moreover have "stop_records ax rn (Some output) = []" using False by (simp add: stop_records_def)
  ultimately show ?thesis using assms by (simp add: exec_ok_def control_ok_def progress_ok_def)
qed

lemma exec_ok_ran:
  assumes ok: "exec_ok q ax os audit" "os_inv os" and ph: "ax_phase ax = AtExecutor seen"
    and step: "resume_ran elapsed res (ax, os, audit) = (ax', os', audit')"
  shows "exec_ok q ax' os' audit'"
proof -
  obtain result ax1 where run: "run_settled elapsed res ax = (result, ax1)" by force
  note f = run_settled_fields [OF run] and rec = run_settled_records [OF run]
  have own: "own_records ax audit = [start_record ax]" "\<And>r. ax_sink ax = Some r \<Longrightarrow> open_sink os r"
    using ok ph by (auto simp: exec_ok_def progress_ok_def)
  have c: "ax_aborted ax \<longleftrightarrow> ax_reason ax \<noteq> None" "ax_acceptingCancellation ax" "ax_requestId ax = q"
    "ax_sink ax = None \<longleftrightarrow> is_probe (ax_work ax)" "\<And>r. ax_sink ax = Some r \<Longrightarrow> the_sink os r \<noteq> None"
    using ok(1) ph unfolding exec_ok_def control_ok_def by (simp_all del: not_None_eq)
  note ctl = run_settled_control [OF run c(1)]
  show ?thesis
  proof (cases result)
    case (Inl e)
    let ?b = "ax1\<lparr>ax_phase := Ended (Inl e)\<rparr>"
    have "ax' = ?b" "os' = (case ax_sink ax of None \<Rightarrow> os | Some r \<Rightarrow> quarantineOutputSink r os)"
      using step run Inl f by (simp_all add: resume_ran_def fail_with_cases)
    moreover have "control_ok ?b" using ctl f by (simp add: control_ok_def)
    moreover have "progress_ok ?b os' audit'" by (simp add: progress_ok_def)
    ultimately show ?thesis using c f by (simp add: exec_ok_def the_sink_kept split: option.split)
  next
    case (Inr rn)
    have t: "termination_ok ax1 rn" using run_settled_termination [OF run [unfolded Inr] c(2)] .
    show ?thesis
    proof (cases "ax_sink ax")
      case None
      let ?b = "ax1\<lparr>ax_phase := AuditingEnd rn None\<rparr>"
      have "ax' = ?b" "os' = os" "audit' = audit" using step run Inr f None by (simp_all add: resume_ran_def)
      moreover have "stop_records ax1 rn None = []" by (simp add: stop_records_def)
      moreover have "output_ok ax1 os rn None" using f None by (simp add: output_ok_def)
      ultimately show ?thesis using c f ctl rec own t None by (simp add: exec_ok_def control_ok_def progress_ok_def)
    next
      case (Some r)
      have probe: "\<not> is_probe (ax_work ax)" using c(4) Some by simp
      show ?thesis
      proof (cases "rn_termination rn \<in> {ByExit, ByOutputLimit}")
        case True
        let ?b = "ax1\<lparr>ax_phase := FinalizingSink rn\<rparr>"
        have "ax' = ?b" "os' = tracked_finalize r os" "audit' = audit"
          using step run Inr f Some True by (simp_all add: resume_ran_def)
        moreover have "the_sink (tracked_finalize r os) r \<noteq> None" by (rule the_sink_kept) (rule c(5) [OF Some])
        ultimately show ?thesis using c f ctl rec own t Some True probe
          by (simp add: exec_ok_def control_ok_def progress_ok_def)
      next
        case False
        have e: "ax' = audit_output rn empty_output ax1" "os' = quarantineOutputSink r os" "audit' = audit"
          using step run Inr f Some False by (simp_all add: resume_ran_def discardOutputSink_def empty_output_def)
        have "output_ok ax1 os' rn (Some empty_output)"
          using quarantined [OF ok(2) own(2) [OF Some]] False f Some e by (simp add: output_ok_def)
        moreover have "the_sink os' r \<noteq> None" unfolding e by (rule the_sink_kept) (rule c(5) [OF Some])
        ultimately show ?thesis unfolding e(1,3)
          by (intro exec_ok_audit_output) (use c f ctl rec own t Some probe in simp_all)
      qed
    qed
  qed
qed

lemma open_sink_append: "open_sink (tracked_append r stream chunk os) x \<longleftrightarrow> open_sink os x"
proof -
  have "sk_finalizePromise (snd (sink_append stream chunk sk)) = sk_finalizePromise sk" for sk by (simp add: sink_append_def)
  then show ?thesis by (auto simp: open_sink_def the_sink_tracked)
qed

lemma append_effect:
  assumes "execution_append stream bytes seen ax os = (res, ax', os')"
  shows "ax' = ax \<or> (\<exists>n. ax' = ax\<lparr>ax_phase := AtExecutor n\<rparr>)"
    "os' = os \<or> (\<exists>r. ax_sink ax = Some r \<and> os' = tracked_append r stream bytes os)"
  using assms by (auto simp: execution_append_def Let_def split: option.splits prod.splits if_splits)

lemma exec_step_ok:
  assumes step: "exec_step (ax, os, audit) (ax', os', audit')" and ok: "exec_ok q ax os audit" "os_inv os"
  shows "exec_ok q ax' os' audit'"
  using step
proof cases
  case (created parse io now random res)
  note c = create_sinks [OF created(4,5)]
  have a: "ax_aborted ax \<longleftrightarrow> ax_reason ax \<noteq> None" "ax_acceptingCancellation ax" "ax_requestId ax = q"
    "ax_sink ax = None" "\<not> is_probe (ax_work ax)" "own_records ax audit = []"
    using ok(1) created(3) unfolding exec_ok_def control_ok_def progress_ok_def by (simp_all del: not_None_eq)
  show ?thesis
  proof (cases res)
    case (Inl e)
    with created a show ?thesis by (simp add: resume_created_def end_with_def exec_ok_def control_ok_def progress_ok_def)
  next
    case (Inr r)
    with c obtain x y z where "the_sink os' r = Some (new_sink r x y z)" by auto
    with created a Inr show ?thesis
      by (simp add: resume_created_def exec_ok_def control_ok_def progress_ok_def open_sink_def new_sink_def)
  qed
next
  case (start_audited written)
  show ?thesis
  proof (cases written)
    case None
    have a: "ax_aborted ax \<longleftrightarrow> ax_reason ax \<noteq> None" "ax_acceptingCancellation ax" "ax_requestId ax = q"
      "ax_sink ax = None \<longleftrightarrow> is_probe (ax_work ax)" "own_records ax audit = []"
      "\<And>r. ax_sink ax = Some r \<Longrightarrow> open_sink os r" "\<And>r. ax_sink ax = Some r \<Longrightarrow> the_sink os r \<noteq> None"
      using ok(1) start_audited(2) unfolding exec_ok_def control_ok_def progress_ok_def by (simp_all del: not_None_eq)
    have e: "ax' = ax\<lparr>ax_phase := AtExecutor 0\<rparr>" "os' = os" "audit' = audit @ [start_record ax]"
      using start_audited(1) None by (simp_all add: resume_start_audited_def)
    show ?thesis using a unfolding e exec_ok_def control_ok_def progress_ok_def by simp
  next
    case (Some e)
    with start_audited exec_ok_fail [OF ok(1)] show ?thesis by (simp add: resume_start_audited_def)
  qed
next
  case (chunk seen stream bytes res)
  note e = append_effect [OF chunk(3)]
  have o: "open_sink os' r" if "open_sink os r" for r
    using e(2) that by (auto simp: open_sink_append)
  have k: "the_sink os' r \<noteq> None" if "the_sink os r \<noteq> None" for r
    using e(2) that the_sink_kept(3) by auto
  have a: "ax_aborted ax \<longleftrightarrow> ax_reason ax \<noteq> None" "ax_acceptingCancellation ax" "ax_requestId ax = q"
    "ax_sink ax = None \<longleftrightarrow> is_probe (ax_work ax)" "own_records ax audit = [start_record ax]"
    "\<And>r. ax_sink ax = Some r \<Longrightarrow> open_sink os r" "\<And>r. ax_sink ax = Some r \<Longrightarrow> the_sink os r \<noteq> None"
    using ok(1) chunk(2) unfolding exec_ok_def control_ok_def progress_ok_def by (simp_all del: not_None_eq)
  have "exec_ok q (ax\<lparr>ax_phase := AtExecutor n\<rparr>) os' audit" for n
    using a o k unfolding exec_ok_def control_ok_def progress_ok_def by simp
  moreover have "ax = ax\<lparr>ax_phase := AtExecutor seen\<rparr>" using chunk(2) by (cases ax) simp
  ultimately show ?thesis using e(1) chunk(1) by metis
next
  case (stop reason)
  with exec_ok_stop [OF ok(1)] show ?thesis by simp
next
  case (ended seen res elapsed)
  with exec_ok_ran [OF ok] show ?thesis by simp
next
  case (finalized rn sink res)
  show ?thesis
  proof (cases res)
    case (Inl e)
    with finalized exec_ok_fail [OF ok(1)] show ?thesis by (simp add: resume_finalized_def)
  next
    case (Inr out)
    then have e: "ax' = audit_output rn out ax" "os' = os" "audit' = audit"
      using finalized by (simp_all add: resume_finalized_def)
    have a: "ax_aborted ax \<longleftrightarrow> ax_reason ax \<noteq> None" "\<not> ax_acceptingCancellation ax" "ax_requestId ax = q"
      "\<not> is_probe (ax_work ax)" "own_records ax audit = [start_record ax]" "termination_ok ax rn"
      "rn_termination rn \<in> {ByExit, ByOutputLimit}" "the_sink os sink \<noteq> None"
      using ok(1) finalized(2,3) unfolding exec_ok_def control_ok_def progress_ok_def by (simp_all del: not_None_eq)
    have "output_ok ax os rn (Some out)" using a(7) finalized(3,4) Inr by (simp add: output_ok_def)
    with a finalized(3) show ?thesis unfolding e by (intro exec_ok_audit_output) simp_all
  qed
next
  case (stop_audited rn out written)
  then show ?thesis using ok(1)
    by (cases written) (simp_all add: resume_stop_audited_def end_with_def exec_ok_def control_ok_def progress_ok_def
        stop_records_def own_records_def)
next
  case (end_audited rn out' written)
  then show ?thesis using ok(1)
    by (cases written) (auto simp: resume_end_audited_def end_with_def exec_ok_def control_ok_def progress_ok_def)
qed

section \<open>Invariants of all executions\<close>

text \<open>No two executions share an identifier or a sink.\<close>

definition separate :: "('k \<Rightarrow> active_execution option) \<Rightarrow> bool" where
  "separate t \<longleftrightarrow> (\<forall>k1 k2 a1 a2. t k1 = Some a1 \<longrightarrow> t k2 = Some a2 \<longrightarrow> k1 \<noteq> k2 \<longrightarrow>
     ax_executionId a1 \<noteq> ax_executionId a2 \<and> (\<forall>r. ax_sink a1 = Some r \<longrightarrow> ax_sink a2 \<noteq> Some r))"

definition executions_ok :: "exec_core \<Rightarrow> bool" where
  "executions_ok c \<longleftrightarrow> separate (co_table c)
     \<and> (\<forall>key. pred_option (\<lambda>ax. exec_ok (snd key) ax (co_outputs c) (co_audit c)) (co_table c key))"

lemma executions_okI:
  assumes "separate (co_table c)" "\<And>key ax. co_table c key = Some ax \<Longrightarrow> exec_ok (snd key) ax (co_outputs c) (co_audit c)"
  shows "executions_ok c"
  using assms by (auto simp: executions_ok_def pred_option_def elim: option.set_cases simp del: split_paired_All)

lemma executions_okD:
  assumes "executions_ok c"
  shows "separate (co_table c)" "co_table c key = Some ax \<Longrightarrow> exec_ok (snd key) ax (co_outputs c) (co_audit c)"
proof -
  show "separate (co_table c)" using assms by (simp add: executions_ok_def)
  have "pred_option (\<lambda>ax. exec_ok (snd key) ax (co_outputs c) (co_audit c)) (co_table c key)"
    using assms unfolding executions_ok_def by blast
  then show "co_table c key = Some ax \<Longrightarrow> exec_ok (snd key) ax (co_outputs c) (co_audit c)" by simp
qed

lemma separate_id: "separate t \<Longrightarrow> t k = Some a \<Longrightarrow> t k' = Some b \<Longrightarrow> k \<noteq> k' \<Longrightarrow> ax_executionId a \<noteq> ax_executionId b"
  unfolding separate_def by blast

lemma separate_sink: "separate t \<Longrightarrow> t k = Some a \<Longrightarrow> t k' = Some b \<Longrightarrow> k \<noteq> k' \<Longrightarrow> ax_sink a = Some r \<Longrightarrow> ax_sink b \<noteq> Some r"
  unfolding separate_def by blast

lemma separate_update:
  assumes "separate t" "\<And>k b. t k = Some b \<Longrightarrow> k \<noteq> key \<Longrightarrow> ax_executionId b \<noteq> ax_executionId a"
    and "\<And>k b r. t k = Some b \<Longrightarrow> k \<noteq> key \<Longrightarrow> ax_sink b = Some r \<Longrightarrow> ax_sink a \<noteq> Some r"
  shows "separate (t(key \<mapsto> a))"
  using assms unfolding separate_def by (simp split: if_splits) metis

lemma separate_remove: "separate t \<Longrightarrow> separate (t(key := None))"
  unfolding separate_def by (simp split: if_splits)

lemma separate_stopped:
  assumes "separate t" "stopped t t'"
  shows "separate t'"
proof -
  have "\<exists>b. t k = Some b \<and> ax_executionId b = ax_executionId a \<and> ax_sink b = ax_sink a" if "t' k = Some a" for k a
    using assms(2) that unfolding stopped_def by (metis option.inject requestStop_fields(2,5))
  with assms(1) show ?thesis unfolding separate_def by metis
qed

lemma own_records_fresh: "(\<forall>e \<in> set audit. event_id e \<noteq> ax_executionId ax) \<Longrightarrow> own_records ax audit = []"
  by (rule own_records_other) blast

lemma new_execution_ok:
  assumes "\<forall>e \<in> set audit. event_id e \<noteq> i"
  shows "exec_ok q (new_execution q i target work) os audit"
proof -
  have "own_records (new_execution q i target work) audit = []"
    using assms by (intro own_records_fresh) (simp add: new_execution_def)
  then show ?thesis
    by (cases "wk_probe work") (simp_all add: exec_ok_def control_ok_def progress_ok_def is_probe_def new_execution_def)
qed

lemma executions_admit:
  assumes "executions_ok c" "co_table c key = None" "new_id c i"
  shows "executions_ok (c\<lparr>co_table := (co_table c)(key \<mapsto> new_execution (snd key) i target work)\<rparr>)"
proof (rule executions_okI)
  let ?n = "new_execution (snd key) i target work"
  have n: "ax_executionId ?n = i" "ax_sink ?n = None" by (simp_all add: new_execution_def)
  with assms(3) show "separate (co_table (c\<lparr>co_table := (co_table c)(key \<mapsto> ?n)\<rparr>))"
    by (simp, intro separate_update [OF executions_okD(1) [OF assms(1)]]) (auto simp: new_id_def)
  fix k ax assume "co_table (c\<lparr>co_table := (co_table c)(key \<mapsto> ?n)\<rparr>) k = Some ax"
  then show "exec_ok (snd k) ax (co_outputs (c\<lparr>co_table := (co_table c)(key \<mapsto> ?n)\<rparr>)) (co_audit (c\<lparr>co_table := (co_table c)(key \<mapsto> ?n)\<rparr>))"
    using new_execution_ok [of "co_audit c" i "snd key" target work] assms(3) executions_okD(2) [OF assms(1)]
    by (auto simp: new_id_def split: if_splits)
qed

lemma executions_stops:
  assumes "executions_ok c" "stopped (co_table c) t"
  shows "executions_ok (c\<lparr>co_table := t\<rparr>)"
proof (rule executions_okI)
  show "separate (co_table (c\<lparr>co_table := t\<rparr>))" using separate_stopped [OF executions_okD(1) [OF assms(1)] assms(2)] by simp
  fix k a assume "co_table (c\<lparr>co_table := t\<rparr>) k = Some a"
  then obtain b where b: "co_table c k = Some b" "a = b \<or> a = requestStop StopCancel b"
    using assms(2) unfolding stopped_def by (simp, metis option.inject)
  from exec_ok_stop [OF executions_okD(2) [OF assms(1) b(1)]] executions_okD(2) [OF assms(1) b(1)] b(2)
  show "exec_ok (snd k) a (co_outputs (c\<lparr>co_table := t\<rparr>)) (co_audit (c\<lparr>co_table := t\<rparr>))" by auto
qed

lemma executions_go_on:
  assumes ok: "executions_ok c" "os_inv (co_outputs c)" and ax: "co_table c key = Some ax"
    and step: "exec_step (ax, co_outputs c, co_audit c) (ax', os', audit')"
  shows "executions_ok (c\<lparr>co_table := (co_table c)(key \<mapsto> ax'), co_outputs := os', co_audit := audit'\<rparr>)"
proof -
  note f = exec_step_frame [OF step]
  from f obtain es where es: "audit' = co_audit c @ es" "\<forall>e \<in> set es. event_id e = ax_executionId ax" by blast
  have id: "ax_executionId ax' = ax_executionId ax" using f by (simp add: same_identity_def)
  have sink: "ax_sink ax' = ax_sink ax \<or> (\<exists>x. ax_sink ax' = Some x \<and> the_sink (co_outputs c) x = None)" using f by blast
  have other: "exec_ok (snd k) a os' audit'" "ax_executionId a \<noteq> ax_executionId ax"
    "\<And>r. ax_sink a = Some r \<Longrightarrow> ax_sink ax' \<noteq> Some r" if a: "co_table c k = Some a" "k \<noteq> key" for k a
  proof -
    have o: "exec_ok (snd k) a (co_outputs c) (co_audit c)" by (rule executions_okD(2) [OF ok(1) a(1)])
    show i: "ax_executionId a \<noteq> ax_executionId ax" using separate_id [OF executions_okD(1) [OF ok(1)] a(1) ax a(2)] .
    have d: "ax_sink ax \<noteq> Some r \<and> ax_sink ax' \<noteq> Some r" if r: "ax_sink a = Some r" for r
    proof -
      have "the_sink (co_outputs c) r \<noteq> None" using o r by (simp add: exec_ok_def)
      moreover have "ax_sink ax \<noteq> Some r" using separate_sink [OF executions_okD(1) [OF ok(1)] a(1) ax a(2) r] .
      ultimately show ?thesis using sink by auto
    qed
    then show "\<And>r. ax_sink a = Some r \<Longrightarrow> ax_sink ax' \<noteq> Some r" by blast
    have "sink_quiet r (co_outputs c) os'" if "ax_sink a = Some r" for r
      using d [OF that] f by (intro sink_quiet_same) blast
    moreover have "own_records a es = []" using es(2) i by (intro own_records_other) auto
    ultimately show "exec_ok (snd k) a os' audit'" unfolding es(1) by (rule exec_ok_quiet [OF o])
  qed
  have own: "exec_ok (snd key) ax' os' audit'" by (rule exec_step_ok [OF step executions_okD(2) [OF ok(1) ax] ok(2)])
  show ?thesis
  proof (rule executions_okI)
    show "separate (co_table (c\<lparr>co_table := (co_table c)(key \<mapsto> ax'), co_outputs := os', co_audit := audit'\<rparr>))"
      using other(2,3) id by (simp, intro separate_update [OF executions_okD(1) [OF ok(1)]]) auto
    fix k a assume "co_table (c\<lparr>co_table := (co_table c)(key \<mapsto> ax'), co_outputs := os', co_audit := audit'\<rparr>) k = Some a"
    with own other(1) show "exec_ok (snd k) a (co_outputs (c\<lparr>co_table := (co_table c)(key \<mapsto> ax'), co_outputs := os', co_audit := audit'\<rparr>))
        (co_audit (c\<lparr>co_table := (co_table c)(key \<mapsto> ax'), co_outputs := os', co_audit := audit'\<rparr>))"
      by (simp split: if_splits)
  qed
qed

lemma executions_store:
  assumes "executions_ok c" "os_inv (co_outputs c)" "store_call (co_outputs c) os"
  shows "executions_ok (c\<lparr>co_outputs := os\<rparr>)"
proof (rule executions_okI)
  fix k a assume "co_table (c\<lparr>co_outputs := os\<rparr>) k = Some a"
  then have "exec_ok (snd k) a (co_outputs c) (co_audit c)" using executions_okD(2) [OF assms(1)] by simp
  from exec_ok_quiet [OF this store_call_quiet [OF assms(3,2)], of "[]"]
  show "exec_ok (snd k) a (co_outputs (c\<lparr>co_outputs := os\<rparr>)) (co_audit (c\<lparr>co_outputs := os\<rparr>))" by (simp add: own_records_def)
qed (use executions_okD(1) [OF assms(1)] in simp)

lemma executions_remove: "executions_ok c \<Longrightarrow> executions_ok (c\<lparr>co_table := (co_table c)(key := None)\<rparr>)"
  by (rule executions_okI) (auto dest: executions_okD simp: separate_remove split: if_splits)

interpretation executions: relative_invariant core_start core_step "\<lambda>c. os_reachable (co_outputs c)" executions_ok
proof
  fix c c' assume known: "os_reachable (co_outputs c)" and ok: "executions_ok c" and "core_step c c'"
  from this(3) show "executions_ok c'"
    by cases (use ok reachable_inv [OF known] in
      \<open>auto intro: executions_admit executions_go_on executions_stops executions_store executions_remove\<close>)
qed (auto simp: core_start_def separate_def intro: executions_okI)

section \<open>No sink is left open\<close>

fun holds_sink :: "exec_phase \<Rightarrow> bool" where
  "holds_sink AuditingStart = True"
| "holds_sink (AtExecutor _) = True"
| "holds_sink (FinalizingSink _) = True"
| "holds_sink _ = False"

definition holder :: "exec_core \<Rightarrow> string \<Rightarrow> string \<times> request_id \<Rightarrow> bool" where
  "holder c r key \<longleftrightarrow> (\<exists>ax. co_table c key = Some ax \<and> ax_sink ax = Some r \<and> holds_sink (ax_phase ax))"

definition sinks_held :: "exec_core \<Rightarrow> bool" where
  "sinks_held c \<longleftrightarrow> (\<forall>r sk. the_sink (co_outputs c) r = Some sk \<longrightarrow> \<not> disposed sk \<longrightarrow> (\<exists>key. holder c r key))"

lemma quarantine_disposed:
  assumes "os_inv os" "the_sink (quarantineOutputSink r os) r = Some sk"
  shows "disposed sk"
proof -
  from assms(2) obtain k where k: "the_sink os r = Some k" "sk = sink_abort (sink_cancel k)" by (auto simp: the_sink_quarantine)
  then have "sink_protocol k" using assms(1) by (auto simp: the_sink_def os_inv_def tracked_ok_def)
  with k(2) show ?thesis
    by (auto simp: disposed_def sink_protocol_def sink_abort_def sink_cancel_def Let_def)
qed

text \<open>An execution that lets go of its sink has disposed of it.\<close>

lemma step_disposes:
  assumes step: "exec_step (ax, os, audit) (ax', os', audit')" and "os_inv os"
    and "ax_sink ax = Some r" "holds_sink (ax_phase ax)"
  shows "holds_sink (ax_phase ax') \<or> (\<forall>sk. the_sink os' r = Some sk \<longrightarrow> disposed sk)"
  using step
proof cases
  case (created parse io now random res)
  with assms(4) show ?thesis by simp
next
  case (start_audited written)
  with assms(2,3) show ?thesis
    by (auto simp: resume_start_audited_def fail_with_cases intro: quarantine_disposed split: option.splits)
next
  case (chunk seen stream bytes res)
  from append_effect(1) [OF chunk(3)] chunk(2) show ?thesis by auto
next
  case (stop reason)
  with assms(4) show ?thesis by simp
next
  case (ended seen res elapsed)
  obtain result ax1 where run: "run_settled elapsed res ax = (result, ax1)" by force
  from ended run run_settled_fields(5) [OF run] assms(2,3) show ?thesis
    by (auto simp: resume_ran_def fail_with_cases discardOutputSink_def audit_output_def intro: quarantine_disposed
        split: option.splits sum.splits if_splits)
next
  case (finalized rn sink res)
  show ?thesis
  proof (cases res)
    case (Inl e)
    with finalized assms(2,3) show ?thesis by (auto simp: resume_finalized_def fail_with_cases intro: quarantine_disposed)
  next
    case (Inr v)
    with finalized assms(3) have "finalize_outcome r os = Some (Inr v)" "os' = os"
      by (auto simp: resume_finalized_def)
    then show ?thesis by (auto simp: finalize_outcome_alt disposed_def split: promise.splits option.splits)
  qed
qed (use assms(4) in simp_all)

lemma os_step_forward:
  assumes "os_step s s'" "os_inv s"
  shows "store_forward s s'"
  unfolding store_forward_alt
proof (intro allI impI)
  fix r sk assume sk: "the_sink s r = Some sk"
  from assms(1) show "\<exists>sk'. the_sink s' r = Some sk' \<and> sink_forward sk sk'"
  proof cases
    case (create parse io now random requestId res)
    show ?thesis
    proof (cases res)
      case (Inl e)
      with create_sinks [OF create] have "the_sink s' r = the_sink s r" by (simp add: the_sink_def)
      with sk show ?thesis by simp
    next
      case (Inr x)
      with create_sinks [OF create] have "the_sink s x = None" "\<And>y. y \<noteq> x \<Longrightarrow> the_sink s' y = the_sink s y" by auto
      with sk have "the_sink s' r = Some sk" by (cases "r = x") simp_all
      then show ?thesis by simp
    qed
  next
    case read
    then have "the_sink s' r = the_sink s r" by (simp add: the_sink_def read_sinks)
    with sk show ?thesis by simp
  next
    case cleanup
    then have "the_sink s' r = the_sink s r" by (simp add: the_sink_def cleanup_sinks)
    with sk show ?thesis by simp
  next
    case (run aio fio now x)
    with the_sink_run [OF assms(2) sk] show ?thesis by simp
  qed (use sk in \<open>auto simp: the_sink_tracked forward_append forward_cancel forward_abort forward_finalize\<close>)
qed

lemma os_steps_forward: "os_step\<^sup>*\<^sup>* s s' \<Longrightarrow> os_inv s \<Longrightarrow> store_forward s s' \<and> os_inv s'"
proof (induction rule: rtranclp_induct)
  case base
  then show ?case by (simp add: store_forward_same)
next
  case (step t u)
  then have t: "store_forward s t" "os_inv t" by simp_all
  from store_forward_trans [OF t(1) os_step_forward [OF step(2) t(2)]] step_inv [OF step(2) t(2)] show ?case by simp
qed

lemma exec_step_undisposed:
  assumes "exec_step (ax, os, audit) (ax', os', audit')" "os_inv os" "the_sink os r = Some sk"
    "the_sink os' r = Some sk'" "\<not> disposed sk'"
  shows "\<not> disposed sk"
  using os_steps_forward [OF exec_step_store [OF assms(1)] assms(2)] assms(3-5) disposed_forward
  by (fastforce simp: store_forward_alt)

lemma store_call_sinks:
  assumes "store_call os os'" "os_inv os" "the_sink os' r = Some sk" "\<not> disposed sk"
  shows "\<exists>k. the_sink os r = Some k \<and> \<not> disposed k"
proof -
  have "the_sink os r \<noteq> None"
    using assms(1)
  proof cases
    case (job aio fio now x)
    with assms(3) run_no_new_sinks [of aio fio now x os r] show ?thesis by simp
  qed (use assms(3) in \<open>auto simp: the_sink_def dest: read_sinks cleanup_sinks\<close>)
  with store_call_quiet [OF assms(1,2), of r] assms(3,4) disposed_forward show ?thesis by (auto simp: sink_quiet_def)
qed

lemma held_go_on:
  assumes held: "sinks_held c" and ok: "executions_ok c" "os_inv (co_outputs c)" and ax: "co_table c key = Some ax"
    and step: "exec_step (ax, co_outputs c, co_audit c) (ax', os', audit')"
  shows "sinks_held (c\<lparr>co_table := (co_table c)(key \<mapsto> ax'), co_outputs := os', co_audit := audit'\<rparr>)"
  unfolding sinks_held_def
proof (intro allI impI)
  let ?c = "c\<lparr>co_table := (co_table c)(key \<mapsto> ax'), co_outputs := os', co_audit := audit'\<rparr>"
  note f = exec_step_frame [OF step]
  fix r sk assume "the_sink (co_outputs ?c) r = Some sk" and u: "\<not> disposed sk"
  then have sk: "the_sink os' r = Some sk" by simp
  show "\<exists>k. holder ?c r k"
  proof (cases "the_sink (co_outputs c) r")
    case None
    with f sk have s: "ax_sink ax' = Some r" by (metis option.distinct(1))
    have "ax_sink ax \<noteq> Some r" using executions_okD(2) [OF ok(1) ax] None by (auto simp: exec_ok_def)
    with f s have p: "ax_phase ax = CreatingSink" "ax_sink ax \<noteq> ax_sink ax'" by metis+
    have "ax_phase ax' = AuditingStart"
      using step by cases (use p in \<open>auto simp: resume_created_def end_with_def split: sum.splits\<close>)
    with s show ?thesis by (intro exI [of _ key]) (simp add: holder_def)
  next
    case (Some k)
    with held exec_step_undisposed [OF step ok(2) Some sk u] obtain key' b where
      b: "co_table c key' = Some b" "ax_sink b = Some r" "holds_sink (ax_phase b)" unfolding sinks_held_def holder_def by blast
    show ?thesis
    proof (cases "key' = key")
      case False
      with b show ?thesis by (intro exI [of _ key']) (simp add: holder_def)
    next
      case True
      with b ax have a: "ax_sink ax = Some r" "holds_sink (ax_phase ax)" by simp_all
      from step_disposes [OF step ok(2) a] sk u have "holds_sink (ax_phase ax')" by blast
      moreover have "ax_sink ax' = Some r" using f a by (metis holds_sink.simps(4))
      ultimately show ?thesis by (intro exI [of _ key]) (simp add: holder_def)
    qed
  qed
qed

lemma held_table:
  assumes "sinks_held c" "\<And>r key. holder c r key \<Longrightarrow> holder (c\<lparr>co_table := t\<rparr>) r key"
  shows "sinks_held (c\<lparr>co_table := t\<rparr>)"
  using assms unfolding sinks_held_def by (simp, meson)

lemma held_stops: "sinks_held c \<Longrightarrow> stopped (co_table c) t \<Longrightarrow> sinks_held (c\<lparr>co_table := t\<rparr>)"
proof (erule held_table)
  fix r key assume "stopped (co_table c) t" "holder c r key"
  then obtain ax where "co_table c key = Some ax" "ax_sink ax = Some r" "holds_sink (ax_phase ax)"
    "t key = Some ax \<or> t key = Some (requestStop StopCancel ax)"
    unfolding stopped_def holder_def by (metis option.inject)
  then show "holder (c\<lparr>co_table := t\<rparr>) r key" by (auto simp: holder_def)
qed

lemma held_store:
  assumes "sinks_held c" "os_inv (co_outputs c)" "store_call (co_outputs c) os"
  shows "sinks_held (c\<lparr>co_outputs := os\<rparr>)"
  using assms(1) store_call_sinks [OF assms(3,2)] unfolding sinks_held_def holder_def by simp blast

interpretation held: relative_invariant core_start core_step "\<lambda>c. os_reachable (co_outputs c) \<and> executions_ok c" sinks_held
proof
  fix c c' assume "os_reachable (co_outputs c) \<and> executions_ok c" and held: "sinks_held c" and "core_step c c'"
  then have known: "os_inv (co_outputs c)" "executions_ok c" by (simp_all add: reachable_inv)
  from \<open>core_step c c'\<close> show "sinks_held c'"
  proof cases
    case (admit key i target work)
    with held show ?thesis by (auto intro!: held_table simp: holder_def)
  next
    case (remove key ax r)
    with held show ?thesis by (auto intro!: held_table simp: holder_def)
  qed (use held known in \<open>auto intro: held_go_on held_stops held_store\<close>)
qed (simp add: core_start_def sinks_held_def the_sink_def)

end
