(* ===== verification/RollingLog.thy ===== *)
theory RollingLog
  imports Utf8 Errors Paging
begin

text \<open>
  The class \<open>RollingByteLog\<close> of \<^verbatim>\<open>src/src/core/task-store.ts\<close>: the bounded log of one stream of a
  task. It keeps the last \<open>limit\<close> bytes, counts everything that was ever appended and serves
  pages that do not end inside a UTF-8 sequence.

  \<open>log_of w\<close> relates a log to the whole stream \<open>w\<close> appended so far; the lemmas show that
  \<open>append\<close> keeps the relation, that \<open>read\<close> returns the slice of \<open>w\<close> it announces, and that
  the log is a paged source once the task has ended.
\<close>

section \<open>Definitions\<close>

record rolling_log =
  rl_limit :: nat
  rl_buffer :: bytes
  rl_startOffset :: nat
  rl_totalBytes :: nat

definition new_rolling_log :: "nat \<Rightarrow> rolling_log" where
  "new_rolling_log limit = \<lparr>rl_limit = limit, rl_buffer = [], rl_startOffset = 0, rl_totalBytes = 0\<rparr>"

definition subarray :: "'a list \<Rightarrow> nat \<Rightarrow> nat \<Rightarrow> 'a list" where
  "subarray xs start stop = take (stop - start) (drop start xs)"

definition rl_append :: "rolling_log \<Rightarrow> bytes \<Rightarrow> rolling_log" where
  "rl_append log chunk =
     (let total = rl_totalBytes log + length chunk;
          buffer = rl_buffer log @ chunk
      in if length buffer > rl_limit log
         then let overflow = length buffer - rl_limit log
              in log\<lparr>rl_totalBytes := total, rl_buffer := drop overflow buffer,
                     rl_startOffset := rl_startOffset log + overflow\<rparr>
         else log\<lparr>rl_totalBytes := total, rl_buffer := buffer\<rparr>)"

definition utf8SequenceLength :: "byte \<Rightarrow> nat" where
  "utf8SequenceLength lead =
     (if lead \<ge> 0xC2 \<and> lead \<le> 0xDF then 2
      else if lead \<ge> 0xE0 \<and> lead \<le> 0xEF then 3
      else if lead \<ge> 0xF0 \<and> lead \<le> 0xF4 then 4
      else 1)"

definition isValidUtf8 :: "bytes \<Rightarrow> bool" where
  "isValidUtf8 bytes = valid_utf8 bytes"

definition invalidCursor :: thrown where
  "invalidCursor = gateway InvalidParams ''Task cursor is invalid''"

text \<open>\<open>rp_bytes\<close> are the bytes whose decoding is the \<open>text\<close> of the page.\<close>

record read_page =
  rp_bytes :: bytes
  rp_text :: bytes
  rp_bytesRead :: nat
  rp_droppedBytes :: nat
  rp_nextOffset :: nat
  rp_hadDecodingErrors :: bool

definition page_window :: "rolling_log \<Rightarrow> nat \<Rightarrow> nat \<Rightarrow> bytes" where
  "page_window log relative limit =
     (let bytes = subarray (rl_buffer log) relative (min (length (rl_buffer log)) (relative + limit));
          completeBytes = completeUtf8PrefixLength bytes
      in if length bytes > 0 \<and> completeBytes = 0
         then let partialLength = length bytes - completeBytes;
                  expectedLength = utf8SequenceLength (bytes ! completeBytes);
                  missingBytes = expectedLength - partialLength
              in if missingBytes > 0
                 then subarray (rl_buffer log) relative
                        (min (length (rl_buffer log)) (relative + length bytes + missingBytes))
                 else bytes
         else bytes)"

text \<open>A page is cut back to whole sequences unless it is the last one of an ended task.\<close>

definition page_bytes :: "rolling_log \<Rightarrow> nat \<Rightarrow> nat \<Rightarrow> bool \<Rightarrow> bytes" where
  "page_bytes log effectiveOffset limit terminal =
     (let window = page_window log (effectiveOffset - rl_startOffset log) limit
      in if \<not> terminal \<or> effectiveOffset + length window < rl_totalBytes log
         then take (completeUtf8PrefixLength window) window
         else window)"

definition rl_read :: "rolling_log \<Rightarrow> int \<Rightarrow> nat \<Rightarrow> bool \<Rightarrow> thrown + read_page" where
  "rl_read log requestedOffset limit terminal =
     (if \<not> is_safe_integer requestedOffset \<or> requestedOffset < 0 then Inl invalidCursor
      else if requestedOffset > int (rl_totalBytes log) then Inl invalidCursor
      else
        let effectiveOffset = max (nat requestedOffset) (rl_startOffset log);
            droppedBytes = effectiveOffset - nat requestedOffset;
            bytes = page_bytes log effectiveOffset limit terminal
        in Inr \<lparr>rp_bytes = bytes, rp_text = utf8_decode bytes, rp_bytesRead = length bytes,
                 rp_droppedBytes = droppedBytes, rp_nextOffset = effectiveOffset + length bytes,
                 rp_hadDecodingErrors = (\<not> isValidUtf8 bytes)\<rparr>)"

text \<open>The log after the stream \<open>w\<close>.\<close>

definition log_of :: "bytes \<Rightarrow> rolling_log \<Rightarrow> bool" where
  "log_of w log \<longleftrightarrow>
     rl_totalBytes log = length w \<and> rl_startOffset log = length w - rl_limit log
     \<and> rl_buffer log = drop (rl_startOffset log) w"

section \<open>Lemmas\<close>

lemma log_of_new [simp]: "log_of [] (new_rolling_log limit)"
  by (simp add: log_of_def new_rolling_log_def)

lemma rl_limit_append [simp]: "rl_limit (rl_append log chunk) = rl_limit log"
  by (simp add: rl_append_def Let_def)

lemma rl_limit_new [simp]: "rl_limit (new_rolling_log limit) = limit"
  by (simp add: new_rolling_log_def)

lemma log_of_append:
  assumes "log_of w log"
  shows "log_of (w @ chunk) (rl_append log chunk)"
proof -
  have "rl_limit log \<le> length (rl_buffer log) \<or> rl_startOffset log = 0"
    using assms by (auto simp: log_of_def)
  with assms show ?thesis
    by (auto simp: log_of_def rl_append_def Let_def)
qed

lemma log_of_fold:
  "log_of w log \<Longrightarrow> log_of (w @ concat chunks) (fold (\<lambda>c l. rl_append l c) chunks log)"
proof (induction chunks arbitrary: w log)
  case Nil
  then show ?case by simp
next
  case (Cons c cs)
  from Cons.IH [OF log_of_append [OF Cons.prems, of c]] show ?case by simp
qed

lemma rl_buffer_bound: "log_of w log \<Longrightarrow> length (rl_buffer log) \<le> rl_limit log"
  by (simp add: log_of_def)

lemma take_length_take: "take (length (take n xs)) xs = take n xs"
  by (cases "n \<le> length xs") simp_all

lemma subarray_slice: "subarray xs a b = take (length (subarray xs a b)) (drop a xs)"
  unfolding subarray_def by (rule take_length_take [symmetric])

lemma length_subarray: "length (subarray xs a b) = min (length xs) b - a"
  by (auto simp: subarray_def min_def)

lemma window_slice: "page_window log r n = take (length (page_window log r n)) (drop r (rl_buffer log))"
  unfolding page_window_def Let_def
  using subarray_slice by (auto split: if_splits)

lemma page_bytes_take:
  "\<exists>k. page_bytes log off n terminal = take k (drop (off - rl_startOffset log) (rl_buffer log))"
proof -
  let ?w = "page_window log (off - rl_startOffset log) n"
  have "take k ?w = take (min k (length ?w)) (drop (off - rl_startOffset log) (rl_buffer log))" for k
    by (subst window_slice) simp
  with window_slice [of log "off - rl_startOffset log" n] show ?thesis
    unfolding page_bytes_def Let_def by (cases "terminal \<and> \<not> off + length ?w < rl_totalBytes log") auto
qed

lemma page_bytes_length:
  "length (page_bytes log off n terminal) \<le> length (page_window log (off - rl_startOffset log) n)"
  by (simp add: page_bytes_def Let_def complete_le)

lemma page_bytes_slice:
  assumes "log_of w log" "rl_startOffset log \<le> off"
  shows "page_bytes log off n terminal = take (length (page_bytes log off n terminal)) (drop off w)"
proof -
  have "drop (off - rl_startOffset log) (rl_buffer log) = drop off w"
    using assms by (simp add: log_of_def)
  with page_bytes_take [of log off n terminal] show ?thesis by (metis take_length_take)
qed

lemma utf8SequenceLength_expected: "utf8SequenceLength b = expected_bytes b"
proof -
  have "\<not> 0xC2 \<le> b \<and> \<not> 0xE0 \<le> b \<and> \<not> 0xF0 \<le> b" if "b \<le> 0x7F"
    using that by (simp add: word_le_nat_alt)
  then show ?thesis unfolding utf8SequenceLength_def expected_bytes_def by simp
qed

text \<open>The prefix length is zero only when the bytes are the start of one sequence.\<close>

lemma complete_zero:
  assumes "completeUtf8PrefixLength bs = 0" "bs \<noteq> []"
  shows "length bs < expected_bytes (bs ! 0)"
proof -
  obtain j m where s: "scan_back bs (int (length bs) - 1) 0 = (j, m)" by force
  with assms show ?thesis
    by (cases "j = 0") (auto simp: completeUtf8PrefixLength_def Let_def split: if_splits)
qed

lemma window_first_sequence:
  assumes "0 < n" "r < length (rl_buffer log)"
  shows "page_window log r n \<noteq> []
    \<and> (completeUtf8PrefixLength (page_window log r n) = 0 \<longrightarrow> r + length (page_window log r n) = length (rl_buffer log))"
proof -
  let ?buf = "rl_buffer log"
  let ?b = "subarray ?buf r (min (length ?buf) (r + n))"
  have b: "length ?b = min (length ?buf) (r + n) - r" "0 < length ?b"
    using assms by (auto simp: length_subarray)
  show ?thesis
  proof (cases "completeUtf8PrefixLength ?b = 0")
    case False
    with b show ?thesis by (auto simp: page_window_def Let_def)
  next
    case True
    define e where "e = expected_bytes (?b ! 0)"
    define c where "c = subarray ?buf r (min (length ?buf) (r + length ?b + (e - length ?b)))"
    from complete_zero [OF True] b(2) have lt: "length ?b < e" by (auto simp: e_def)
    have w: "page_window log r n = c"
      using True b(2) lt by (simp add: page_window_def Let_def utf8SequenceLength_expected e_def c_def)
    have lc: "length c = min (length ?buf) (r + e) - r"
      using lt by (simp add: c_def length_subarray)
    have "c ! 0 = ?b ! 0"
      using assms(1,2) lt by (simp add: c_def subarray_def)
    then have first: "expected_bytes (c ! 0) = e" by (simp add: e_def)
    have ne: "c \<noteq> []" using lc assms(2) lt by (auto simp flip: length_greater_0_conv)
    have "r + length c = length ?buf" if "completeUtf8PrefixLength c = 0"
      using complete_zero [OF that ne] lc first assms(2) by auto
    with w ne show ?thesis by simp
  qed
qed

lemma window_length:
  assumes "0 < n"
  shows "length (page_window log r n) \<le> max n 4"
proof -
  let ?buf = "rl_buffer log"
  let ?b = "subarray ?buf r (min (length ?buf) (r + n))"
  have "expected_bytes (?b ! 0) \<le> 4" by (rule expected_bytes_le)
  moreover have "length ?b < expected_bytes (?b ! 0)" if "completeUtf8PrefixLength ?b = 0" "?b \<noteq> []"
    using complete_zero that by simp
  ultimately show ?thesis
    by (auto simp: page_window_def Let_def utf8SequenceLength_expected length_subarray)
qed

text \<open>The abstract view of \<open>read\<close>.\<close>

lemma rl_read_Inr:
  "rl_read log off n terminal = Inr p \<longleftrightarrow>
     is_safe_integer off \<and> 0 \<le> off \<and> off \<le> int (rl_totalBytes log) \<and>
     p = (let e = max (nat off) (rl_startOffset log); b = page_bytes log e n terminal in
       \<lparr>rp_bytes = b, rp_text = utf8_decode b, rp_bytesRead = length b, rp_droppedBytes = e - nat off,
        rp_nextOffset = e + length b, rp_hadDecodingErrors = (\<not> valid_utf8 b)\<rparr>)"
  by (auto simp: rl_read_def Let_def isValidUtf8_def)

lemma rl_read_spec:
  assumes "log_of w log" "rl_read log off n terminal = Inr p" "0 < n"
  shows "0 \<le> off" "nat off \<le> length w"
    "rp_bytes p = take (rp_bytesRead p) (drop (nat off + rp_droppedBytes p) w)"
    "rp_nextOffset p = nat off + rp_droppedBytes p + rp_bytesRead p"
    "rp_nextOffset p \<le> length w"
    "rp_droppedBytes p = (length w - rl_limit log) - nat off"
    "rp_bytesRead p \<le> max n 4"
    "rp_bytesRead p = length (rp_bytes p)"
    "rp_text p = utf8_decode (rp_bytes p)"
    "rp_hadDecodingErrors p = (\<not> valid_utf8 (rp_bytes p))"
proof -
  define e where "e = max (nat off) (rl_startOffset log)"
  define b where "b = page_bytes log e n terminal"
  from assms(2) have off: "0 \<le> off" "off \<le> int (rl_totalBytes log)"
    and p: "p = \<lparr>rp_bytes = b, rp_text = utf8_decode b, rp_bytesRead = length b,
      rp_droppedBytes = e - nat off, rp_nextOffset = e + length b, rp_hadDecodingErrors = (\<not> valid_utf8 b)\<rparr>"
    by (simp_all add: rl_read_Inr Let_def e_def b_def)
  have l: "rl_totalBytes log = length w" "rl_startOffset log = length w - rl_limit log"
    using assms(1) by (auto simp: log_of_def)
  show "0 \<le> off" by (rule off)
  show o: "nat off \<le> length w" using off l by simp
  have slice: "b = take (length b) (drop e w)"
    unfolding b_def by (rule page_bytes_slice [OF assms(1)]) (simp add: e_def)
  have eff: "nat off + (e - nat off) = e" by (simp add: e_def)
  with p slice show "rp_bytes p = take (rp_bytesRead p) (drop (nat off + rp_droppedBytes p) w)"
    by simp
  from p eff show "rp_nextOffset p = nat off + rp_droppedBytes p + rp_bytesRead p" by simp
  have "e \<le> length w" using o l by (simp add: e_def)
  moreover have "length b \<le> length w - e" using slice by (metis length_drop length_take min.cobounded1)
  ultimately show "rp_nextOffset p \<le> length w" using p by simp
  show "rp_droppedBytes p = (length w - rl_limit log) - nat off" using p l by (simp add: e_def)
  show "rp_bytesRead p \<le> max n 4"
    using page_bytes_length [of log e n terminal] window_length [OF assms(3), of log "e - rl_startOffset log"] p
    by (auto simp: b_def)
  show "rp_bytesRead p = length (rp_bytes p)" "rp_text p = utf8_decode (rp_bytes p)"
    "rp_hadDecodingErrors p = (\<not> valid_utf8 (rp_bytes p))"
    using p by simp_all
qed

lemma rl_read_ok:
  assumes "log_of w log" "off \<le> length w" "int (length w) \<le> max_safe_integer"
  obtains p where "rl_read log (int off) n terminal = Inr p"
  using assms that by (simp add: rl_read_Inr log_of_def is_safe_integer_def max_safe_integer_def)

lemma page_bytes_progress:
  assumes "log_of w log" "rl_startOffset log \<le> off" "off < length w" "0 < n"
  shows "page_bytes log off n True \<noteq> []"
proof -
  let ?r = "off - rl_startOffset log"
  have r: "?r < length (rl_buffer log)" using assms by (auto simp: log_of_def)
  have e: "off + length (page_window log ?r n) = length w"
    if "?r + length (page_window log ?r n) = length (rl_buffer log)"
    using that assms by (simp add: log_of_def)
  let ?w = "page_window log ?r n"
  from window_first_sequence [OF assms(4) r] have ne: "?w \<noteq> []"
    and z: "completeUtf8PrefixLength ?w = 0 \<Longrightarrow> off + length ?w = length w"
    using e by blast+
  show ?thesis
  proof (cases "off + length ?w < length w")
    case True
    with z have "0 < completeUtf8PrefixLength ?w" by fastforce
    with True ne assms(1) show ?thesis by (simp add: page_bytes_def Let_def log_of_def)
  next
    case False
    with ne assms(1) show ?thesis by (simp add: page_bytes_def Let_def log_of_def)
  qed
qed

lemma rl_read_progress:
  assumes "log_of w log" "rl_read log (int off) n True = Inr p" "0 < n" "off < length w"
  shows "off < rp_nextOffset p"
proof -
  define e where "e = max off (rl_startOffset log)"
  from assms(2) have p: "rp_nextOffset p = e + length (page_bytes log e n True)"
    by (simp add: rl_read_Inr Let_def e_def)
  show ?thesis
  proof (cases "rl_startOffset log \<le> off")
    case True
    with page_bytes_progress [OF assms(1) True assms(4,3)] show ?thesis
      by (simp add: p e_def max_absorb1)
  next
    case False
    then show ?thesis by (simp add: p e_def)
  qed
qed

text \<open>The log of an ended task, beside the stream it was fed, is a paged source.\<close>

definition ended_page :: "bytes \<times> rolling_log \<Rightarrow> nat \<Rightarrow> nat \<Rightarrow> bytes" where
  "ended_page s limit offset =
     (case rl_read (snd s) (int offset) limit True of Inl _ \<Rightarrow> [] | Inr p \<Rightarrow> rp_bytes p)"

definition ended_log :: "bytes \<times> rolling_log \<Rightarrow> bool" where
  "ended_log s \<longleftrightarrow> log_of (fst s) (snd s) \<and> int (length (fst s)) \<le> max_safe_integer"

lemma ended_page_eq:
  assumes "ended_log s" "rl_startOffset (snd s) \<le> offset" "offset \<le> length (fst s)"
  shows "ended_page s limit offset = page_bytes (snd s) offset limit True"
proof -
  from assms obtain p where "rl_read (snd s) (int offset) limit True = Inr p"
    by (auto simp: ended_log_def intro: rl_read_ok)
  with assms(2) show ?thesis
    by (simp add: ended_page_def) (simp add: rl_read_Inr Let_def max_absorb1)
qed

interpretation task_log: paged_source ended_log fst "\<lambda>s. rl_startOffset (snd s)" ended_page
proof
  fix s :: "bytes \<times> rolling_log" and limit offset :: nat
  assume "ended_log s" "0 < limit" "rl_startOffset (snd s) \<le> offset" "offset \<le> length (fst s)"
  then show "ended_page s limit offset = take (length (ended_page s limit offset)) (drop offset (fst s))"
    using page_bytes_slice by (simp add: ended_page_eq) (simp add: ended_log_def)
next
  fix s :: "bytes \<times> rolling_log" and limit offset :: nat
  assume "ended_log s" "0 < limit" "rl_startOffset (snd s) \<le> offset" "offset < length (fst s)"
  then show "ended_page s limit offset \<noteq> []"
    using page_bytes_progress [of "fst s" "snd s" offset limit]
    by (subst ended_page_eq) (auto simp: ended_log_def)
qed

section \<open>Properties\<close>

text \<open>
  C40: a log that was created with capacity \<open>capacity\<close> and fed the chunks in order holds the
  last \<open>capacity\<close> bytes of everything appended, and counts all of it.
\<close>

theorem rolling_log_keeps_tail:
  "let log = fold (\<lambda>c l. rl_append l c) chunks (new_rolling_log capacity); w = concat chunks in
   rl_buffer log = drop (length w - capacity) w \<and> rl_totalBytes log = length w
   \<and> rl_startOffset log + length (rl_buffer log) = rl_totalBytes log
   \<and> length (rl_buffer log) \<le> capacity"
proof -
  let ?log = "fold (\<lambda>c l. rl_append l c) chunks (new_rolling_log capacity)"
  have lim: "rl_limit (fold (\<lambda>c l. rl_append l c) cs l) = rl_limit l" for cs l
    by (induction cs arbitrary: l) simp_all
  have "log_of ([] @ concat chunks) ?log" by (rule log_of_fold) simp
  then show ?thesis by (auto simp: log_of_def lim Let_def)
qed

text \<open>
  A page of a log. Whatever the offset, the page is the slice of the appended stream that
  starts after the announced number of dropped bytes; the dropped bytes are exactly those
  that have left the buffer; the next offset is the end of the slice and never passes the
  end of the stream; a page holds at most \<open>max limit 4\<close> bytes; and the text is the decoding of
  the slice, flagged exactly when the slice is not well-formed.
\<close>

theorem rolling_log_read_slice:
  assumes "log_of w log" "rl_read log offset limit terminal = Inr page" "0 < limit"
  shows "rp_bytes page = take (rp_bytesRead page) (drop (nat offset + rp_droppedBytes page) w)
    \<and> rp_droppedBytes page = (length w - rl_limit log) - nat offset
    \<and> rp_nextOffset page = nat offset + rp_droppedBytes page + rp_bytesRead page
    \<and> rp_nextOffset page \<le> length w
    \<and> rp_bytesRead page \<le> max limit 4
    \<and> rp_text page = utf8_decode (rp_bytes page)
    \<and> (rp_hadDecodingErrors page \<longleftrightarrow> rp_text page \<noteq> rp_bytes page)"
proof -
  note s = rl_read_spec [OF assms]
  have "valid_utf8 (rp_bytes page) \<longleftrightarrow> utf8_decode (rp_bytes page) = rp_bytes page"
    using decode_valid valid_decode [of "rp_bytes page"] by metis
  with s show ?thesis by simp
qed

theorem rolling_log_read_slice_witness:
  "rp_bytes \<lparr>rp_bytes = [0x62], rp_text = [0x62], rp_bytesRead = 1, rp_droppedBytes = 1,
     rp_nextOffset = 2, rp_hadDecodingErrors = False\<rparr> = take 1 (drop (0 + 1) [0x61, 0x62, 0x63])"
proof -
  let ?log = "\<lparr>rl_limit = 2, rl_buffer = [0x62, 0x63], rl_startOffset = 1, rl_totalBytes = 3\<rparr>"
  have l: "log_of [0x61, 0x62, 0x63] ?log" by (simp add: log_of_def)
  have r: "rl_read ?log 0 1 True = Inr \<lparr>rp_bytes = [0x62], rp_text = [0x62], rp_bytesRead = 1,
     rp_droppedBytes = 1, rp_nextOffset = 2, rp_hadDecodingErrors = False\<rparr>" by code_simp
  show ?thesis using rolling_log_read_slice [OF l r] by simp
qed

text \<open>
  Following the pages of an ended task. A client that starts at an offset still held by
  the log and asks for each next page where the last one ended collects the rest of the
  stream byte for byte; as many requests as there are bytes are always enough.
\<close>

theorem rolling_log_follow_collects_stream:
  assumes "log_of w log" "int (length w) \<le> max_safe_integer" "0 < limit"
    "length w - rl_limit log \<le> offset" "offset \<le> length w" "length w - offset \<le> requests"
  shows "follow_pages (\<lambda>i. case rl_read log (int i) limit True of Inl _ \<Rightarrow> [] | Inr p \<Rightarrow> rp_bytes p)
     requests offset = drop offset w"
proof -
  have "ended_log (w, log)" "rl_startOffset log \<le> offset"
    using assms by (auto simp: ended_log_def log_of_def)
  with assms have "follow_pages (ended_page (w, log) limit) requests offset = drop offset (fst (w, log))"
    by (intro task_log.follow_all) auto
  then show ?thesis by (simp add: ended_page_def [abs_def])
qed

theorem rolling_log_follow_collects_stream_witness:
  "follow_pages (\<lambda>i. case rl_read (rl_append (new_rolling_log 8) [0xE2, 0x82, 0xAC, 0x41]) (int i) 1 True of
       Inl _ \<Rightarrow> [] | Inr p \<Rightarrow> rp_bytes p) 4 0 = [0xE2, 0x82, 0xAC, 0x41]"
proof -
  have l: "log_of [0xE2, 0x82, 0xAC, 0x41] (rl_append (new_rolling_log 8) [0xE2, 0x82, 0xAC, 0x41])"
    using log_of_append [OF log_of_new [of 8], of "[0xE2, 0x82, 0xAC, 0x41]"] by simp
  show ?thesis
    using rolling_log_follow_collects_stream [OF l, of 1 0 4] by (simp add: max_safe_integer_def)
qed

end
