(* ===== verification/TaskStore.thy ===== *)
theory TaskStore
  imports RollingLog Base64 Protocol
begin

text \<open>
  The class \<open>TaskStore\<close> of \<^verbatim>\<open>src/src/core/task-store.ts\<close>: the long-running tasks a daemon holds. A
  task is started, appends to its two logs, is stopped by a timeout or a cancellation
  request, settles exactly once, and is kept until its time to live has passed or its place
  is needed.

  \<open>task_store\<close> is the object with its private fields, \<open>task\<close> one \<open>InternalTask\<close>; each method
  is a function from the store to the new store with what the method returns or throws. What
  happens on its own (the worker appends or settles, the timer fires) is an event of the step
  relation \<open>ts_step\<close>. Clock readings, the random run identifiers, the SHA-256 digest and
  \<open>JSON.parse\<close> are arguments.
\<close>

section \<open>State\<close>

datatype requested_stop = StopCancelled | StopTimedOut

type_synonym result_object = "(string, detail) jsmap"

record task =
  t_runId :: string
  t_target :: string
  t_kind :: task_kind
  t_startedAtMs :: int
  t_aborted :: bool \<comment> \<open>\<open>controller.signal.aborted\<close>\<close>
  t_stdout :: rolling_log
  t_stderr :: rolling_log
  t_state :: task_state
  t_updatedAtMs :: int
  t_finishedAtMs :: "int option"
  t_expiresAtMs :: "int option"
  t_termination :: "exec_termination option"
  t_exitCode :: "int option option" \<comment> \<open>undefined, \<open>null\<close> or a number\<close>
  t_result :: "result_object option"
  t_error :: "(gateway_code \<times> string) option"
  t_requestedStop :: "requested_stop option"
  t_settled :: bool \<comment> \<open>the promise \<open>completion\<close> has settled\<close>

record task_store =
  ts_ttlMs :: int
  ts_maxRetainedTasks :: int
  ts_maxConcurrentTasks :: int
  ts_maxLogBytesPerStream :: int
  ts_tasks :: "(string, task) jsmap"
  ts_closing :: bool

record task_completion =
  tc_termination :: "exec_termination option"
  tc_exitCode :: "int option option"
  tc_result :: "result_object option"

record start_options =
  so_kind :: task_kind
  so_target :: string
  so_timeoutMs :: "int option"

section \<open>Operations\<close>

definition requirePositiveInteger :: "int \<Rightarrow> string \<Rightarrow> thrown + unit" where
  "requirePositiveInteger value name =
     guard_else (is_safe_integer value \<and> value \<ge> 1) (RangeError (name @ '' must be a positive safe integer''))"

definition DEFAULT_MAX_LOG_BYTES :: int where "DEFAULT_MAX_LOG_BYTES = 1048576"

definition new_task_store :: "int \<Rightarrow> int \<Rightarrow> int \<Rightarrow> int option \<Rightarrow> thrown + task_store" where
  "new_task_store ttlMs maxRetainedTasks maxConcurrentTasks maxLogBytesPerStream =
     and_then (requirePositiveInteger ttlMs ''ttlMs'') (\<lambda>_.
     and_then (requirePositiveInteger maxRetainedTasks ''maxRetainedTasks'') (\<lambda>_.
     and_then (requirePositiveInteger maxConcurrentTasks ''maxConcurrentTasks'') (\<lambda>_.
     let logBytes = (case maxLogBytesPerStream of None \<Rightarrow> DEFAULT_MAX_LOG_BYTES | Some n \<Rightarrow> n) in
     and_then (requirePositiveInteger logBytes ''maxLogBytesPerStream'') (\<lambda>_.
     Inr \<lparr>ts_ttlMs = ttlMs, ts_maxRetainedTasks = maxRetainedTasks,
          ts_maxConcurrentTasks = maxConcurrentTasks, ts_maxLogBytesPerStream = logBytes,
          ts_tasks = [], ts_closing = False\<rparr>))))"

definition is_running :: "task \<Rightarrow> bool" where
  "is_running t \<longleftrightarrow> t_state t = Running"

definition activeCount :: "task_store \<Rightarrow> int" where
  "activeCount s = int (length (filter is_running (map snd (ts_tasks s))))"

definition not_expired :: "int \<Rightarrow> task \<Rightarrow> bool" where
  "not_expired now t = (case t_expiresAtMs t of None \<Rightarrow> True | Some e \<Rightarrow> \<not> e \<le> now)"

definition ts_cleanup :: "int \<Rightarrow> task_store \<Rightarrow> task_store" where
  "ts_cleanup now s = s\<lparr>ts_tasks := filter (\<lambda>(runId, t). not_expired now t) (ts_tasks s)\<rparr>"

definition finished_key :: "task \<Rightarrow> int" where
  "finished_key t = (case t_finishedAtMs t of None \<Rightarrow> 0 | Some f \<Rightarrow> f)"

definition oldest_terminal :: "(string, task) jsmap \<Rightarrow> task option" where
  "oldest_terminal tasks =
     (case sort_key finished_key (filter (\<lambda>t. \<not> is_running t) (map snd tasks)) of
        [] \<Rightarrow> None | t # _ \<Rightarrow> Some t)"

text \<open>
  The loop of \<open>#makeRetentionRoom\<close>, with one unit of fuel per round: a round removes a task, so
  the number of tasks plus one is enough (\<open>retention_room_fuel\<close>).
\<close>

fun retention_room :: "nat \<Rightarrow> int \<Rightarrow> (string, task) jsmap \<Rightarrow> (thrown + unit) \<times> (string, task) jsmap" where
  "retention_room 0 maximum tasks = (Inl (PlainError ''out of fuel''), tasks)"
| "retention_room (Suc n) maximum tasks =
     (if int (length tasks) \<ge> maximum
      then case oldest_terminal tasks of
             None \<Rightarrow> (Inl (gateway_with ExecutionLimitReached ''Task retention limit reached''
                              [(''maximum'', DNumber maximum)]), tasks)
           | Some t \<Rightarrow> retention_room n maximum (AList.delete (t_runId t) tasks)
      else (Inr (), tasks))"

definition makeRetentionRoom :: "task_store \<Rightarrow> (thrown + unit) \<times> task_store" where
  "makeRetentionRoom s =
     (let (r, tasks) = retention_room (Suc (length (ts_tasks s))) (ts_maxRetainedTasks s) (ts_tasks s)
      in (r, s\<lparr>ts_tasks := tasks\<rparr>))"

text \<open>\<open>createRunId i\<close> is what the \<open>i\<close>-th call of the identifier source returns.\<close>

fun unique_run_id :: "nat \<Rightarrow> (nat \<Rightarrow> string) \<Rightarrow> nat \<Rightarrow> (string, task) jsmap \<Rightarrow> thrown + string" where
  "unique_run_id 0 createRunId attempt tasks = Inl (PlainError ''Could not allocate a unique task run ID'')"
| "unique_run_id (Suc n) createRunId attempt tasks =
     (let runId = createRunId attempt in
      if \<not> opaque_reference runId then Inl (PlainError ''Task run ID source returned an invalid value'')
      else if map_of tasks runId = None then Inr runId
      else unique_run_id n createRunId (Suc attempt) tasks)"

definition uniqueRunId :: "(nat \<Rightarrow> string) \<Rightarrow> (string, task) jsmap \<Rightarrow> thrown + string" where
  "uniqueRunId createRunId tasks = unique_run_id 8 createRunId 0 tasks"

definition new_task :: "task_store \<Rightarrow> start_options \<Rightarrow> string \<Rightarrow> int \<Rightarrow> task" where
  "new_task s opts runId startedAtMs =
     \<lparr>t_runId = runId, t_target = so_target opts, t_kind = so_kind opts, t_startedAtMs = startedAtMs,
      t_aborted = False,
      t_stdout = new_rolling_log (nat (ts_maxLogBytesPerStream s)),
      t_stderr = new_rolling_log (nat (ts_maxLogBytesPerStream s)),
      t_state = Running, t_updatedAtMs = startedAtMs, t_finishedAtMs = None, t_expiresAtMs = None,
      t_termination = None, t_exitCode = None, t_result = None, t_error = None,
      t_requestedStop = None, t_settled = False\<rparr>"

text \<open>
  \<open>start\<close>: \<open>now\<close> is the clock in \<open>#cleanup\<close>, \<open>startedAtMs\<close> the clock when the task is made.
  The result is the new run identifier.
\<close>

definition ts_start ::
  "task_store \<Rightarrow> start_options \<Rightarrow> int \<Rightarrow> int \<Rightarrow> (nat \<Rightarrow> string) \<Rightarrow> (thrown + string) \<times> task_store" where
  "ts_start s opts now startedAtMs createRunId =
     (if ts_closing s then (Inl (gateway ExecutionLimitReached ''Gateway is stopping''), s)
      else case (case so_timeoutMs opts of None \<Rightarrow> Inr () | Some t \<Rightarrow> requirePositiveInteger t ''timeoutMs'') of
        Inl e \<Rightarrow> (Inl e, s)
      | Inr _ \<Rightarrow>
          let s1 = ts_cleanup now s in
          if activeCount s1 \<ge> ts_maxConcurrentTasks s1
          then (Inl (gateway_with ExecutionLimitReached ''Task concurrency limit reached''
                      [(''maximum'', DNumber (ts_maxConcurrentTasks s1))]), s1)
          else case makeRetentionRoom s1 of
            (Inl e, s2) \<Rightarrow> (Inl e, s2)
          | (Inr _, s2) \<Rightarrow>
              (case uniqueRunId createRunId (ts_tasks s2) of
                 Inl e \<Rightarrow> (Inl e, s2)
               | Inr runId \<Rightarrow>
                   (Inr runId,
                    s2\<lparr>ts_tasks := AList.update runId (new_task s2 opts runId startedAtMs) (ts_tasks s2)\<rparr>)))"

text \<open>Changes to one task object of the map.\<close>

definition modify_task :: "string \<Rightarrow> (task \<Rightarrow> task) \<Rightarrow> task_store \<Rightarrow> task_store" where
  "modify_task runId f s =
     (case map_of (ts_tasks s) runId of
        None \<Rightarrow> s
      | Some t \<Rightarrow> s\<lparr>ts_tasks := AList.update runId (f t) (ts_tasks s)\<rparr>)"

definition task_timeout :: "task \<Rightarrow> task" where
  "task_timeout t =
     (if t_state t \<noteq> Running \<or> t_requestedStop t \<noteq> None then t
      else t\<lparr>t_requestedStop := Some StopTimedOut, t_aborted := True\<rparr>)"

definition task_append :: "out_stream \<Rightarrow> bytes \<Rightarrow> int \<Rightarrow> task \<Rightarrow> task" where
  "task_append stream chunk now t =
     (if t_state t \<noteq> Running then t
      else case stream of
             Stdout \<Rightarrow> t\<lparr>t_stdout := rl_append (t_stdout t) chunk, t_updatedAtMs := now\<rparr>
           | Stderr \<Rightarrow> t\<lparr>t_stderr := rl_append (t_stderr t) chunk, t_updatedAtMs := now\<rparr>)"

definition stateForTermination :: "exec_termination option \<Rightarrow> int option option \<Rightarrow> task_state" where
  "stateForTermination termination exitCode =
     (if termination = Some ByTimeout then TimedOut
      else if termination = Some ByCancel then Cancelled
      else if termination = Some ByExit \<and> exitCode = Some (Some 0) then Succeeded
      else if termination = None then Succeeded else Failed)"

definition stop_state :: "requested_stop \<Rightarrow> task_state" where
  "stop_state r = (case r of StopCancelled \<Rightarrow> Cancelled | StopTimedOut \<Rightarrow> TimedOut)"

definition stop_termination :: "requested_stop \<Rightarrow> exec_termination" where
  "stop_termination r = (if r = StopTimedOut then ByTimeout else ByCancel)"

definition task_finish :: "int \<Rightarrow> int \<Rightarrow> task \<Rightarrow> task" where
  "task_finish ttlMs now t =
     t\<lparr>t_finishedAtMs := Some now, t_updatedAtMs := now, t_expiresAtMs := Some (now + ttlMs)\<rparr>"

definition task_stopped :: "requested_stop \<Rightarrow> task \<Rightarrow> task" where
  "task_stopped r t = t\<lparr>t_state := stop_state r, t_termination := Some (stop_termination r), t_exitCode := Some None\<rparr>"

definition task_complete :: "int \<Rightarrow> int \<Rightarrow> task_completion \<Rightarrow> task \<Rightarrow> task" where
  "task_complete ttlMs now c t0 =
     (let t = (case tc_result c of None \<Rightarrow> t0 | Some r \<Rightarrow> t0\<lparr>t_result := Some r\<rparr>);
          t' = (case t_requestedStop t of
                  Some r \<Rightarrow> task_stopped r t
                | None \<Rightarrow>
                    t\<lparr>t_termination := (case tc_termination c of None \<Rightarrow> t_termination t | x \<Rightarrow> x),
                      t_exitCode := (case tc_exitCode c of None \<Rightarrow> t_exitCode t | x \<Rightarrow> x),
                      t_state := stateForTermination (tc_termination c) (tc_exitCode c)\<rparr>)
      in (task_finish ttlMs now t')\<lparr>t_settled := True\<rparr>)"

definition task_fail :: "int \<Rightarrow> int \<Rightarrow> thrown \<Rightarrow> task \<Rightarrow> task" where
  "task_fail ttlMs now error t =
     (let t' = (case t_requestedStop t of
                  Some r \<Rightarrow> task_stopped r t
                | None \<Rightarrow>
                    t\<lparr>t_state := Failed,
                      t_error := Some (case error of
                          Gateway g \<Rightarrow> (ge_code g, ge_message g)
                        | _ \<Rightarrow> (InternalError, ''Task failed inside the SSH Gateway''))\<rparr>)
      in (task_finish ttlMs now t')\<lparr>t_settled := True\<rparr>)"

definition taskNotFound :: thrown where
  "taskNotFound = gateway ExecutionNotFound ''Task was not found or has expired''"

definition ts_require :: "int \<Rightarrow> string \<Rightarrow> task_store \<Rightarrow> (thrown + task) \<times> task_store" where
  "ts_require now runId s =
     (let s1 = ts_cleanup now s in
      if \<not> opaque_reference runId then (Inl taskNotFound, s1)
      else case map_of (ts_tasks s1) runId of
             None \<Rightarrow> (Inl taskNotFound, s1)
           | Some t \<Rightarrow> (Inr t, s1))"

record task_status =
  st_task :: task \<comment> \<open>the reported fields of the task\<close>
  st_durationMs :: int
  st_stdoutBytes :: nat
  st_stderrBytes :: nat

definition ts_status :: "int \<Rightarrow> int \<Rightarrow> string \<Rightarrow> task_store \<Rightarrow> (thrown + task_status) \<times> task_store" where
  "ts_status nowCleanup now runId s =
     (case ts_require nowCleanup runId s of
        (Inl e, s1) \<Rightarrow> (Inl e, s1)
      | (Inr t, s1) \<Rightarrow>
          (Inr \<lparr>st_task = t,
                st_durationMs = max 0 ((case t_finishedAtMs t of None \<Rightarrow> now | Some f \<Rightarrow> f) - t_startedAtMs t),
                st_stdoutBytes = rl_totalBytes (t_stdout t),
                st_stderrBytes = rl_totalBytes (t_stderr t)\<rparr>, s1))"

definition ts_cancel :: "int \<Rightarrow> string \<Rightarrow> task_store \<Rightarrow> (thrown + (bool \<times> task_state)) \<times> task_store" where
  "ts_cancel now runId s =
     (case ts_require now runId s of
        (Inl e, s1) \<Rightarrow> (Inl e, s1)
      | (Inr t, s1) \<Rightarrow>
          if t_state t \<noteq> Running \<or> t_requestedStop t \<noteq> None then (Inr (False, t_state t), s1)
          else (Inr (True, t_state t),
                modify_task runId (\<lambda>t. t\<lparr>t_requestedStop := Some StopCancelled, t_aborted := True\<rparr>) s1))"

definition task_shutdown :: "task \<Rightarrow> task" where
  "task_shutdown t =
     (if t_state t = Running
      then t\<lparr>t_requestedStop := (case t_requestedStop t of None \<Rightarrow> Some StopCancelled | r \<Rightarrow> r), t_aborted := True\<rparr>
      else t)"

text \<open>\<open>shutdown\<close> up to the point where it awaits the completions of the running tasks.\<close>

definition ts_shutdown :: "task_store \<Rightarrow> task_store" where
  "ts_shutdown s = s\<lparr>ts_closing := True, ts_tasks := map (\<lambda>(k, t). (k, task_shutdown t)) (ts_tasks s)\<rparr>"

section \<open>Cursors\<close>

text \<open>\<open>sha256 text\<close> is the SHA-256 digest of \<open>text\<close> in base64url.\<close>

definition cursor_preimage :: "string \<Rightarrow> int \<Rightarrow> int \<Rightarrow> string" where
  "cursor_preimage runId stdoutOffset stderrOffset =
     ''agent-ssh-task-cursor-v2'' @ [nul_char] @ runId @ [nul_char]
       @ show_int stdoutOffset @ [nul_char] @ show_int stderrOffset"

definition taskCursorBinding :: "(string \<Rightarrow> string) \<Rightarrow> string \<Rightarrow> int \<Rightarrow> int \<Rightarrow> string" where
  "taskCursorBinding sha256 runId stdoutOffset stderrOffset =
     take 22 (sha256 (cursor_preimage runId stdoutOffset stderrOffset))"

text \<open>\<open>JSON.stringify(cursor)\<close>: the binding has only base64url characters, so nothing is escaped.\<close>

definition cursor_text :: "(string \<Rightarrow> string) \<Rightarrow> string \<Rightarrow> int \<Rightarrow> int \<Rightarrow> string" where
  "cursor_text sha256 runId stdoutOffset stderrOffset =
     ''{\"v\":2,\"o\":'' @ show_int stdoutOffset @ '',\"e\":'' @ show_int stderrOffset
       @ '',\"b\":\"'' @ taskCursorBinding sha256 runId stdoutOffset stderrOffset @ ''\"}''"

definition encodeCursor :: "(string \<Rightarrow> string) \<Rightarrow> string \<Rightarrow> int \<Rightarrow> int \<Rightarrow> string" where
  "encodeCursor sha256 runId stdoutOffset stderrOffset =
     base64url (buffer_from (cursor_text sha256 runId stdoutOffset stderrOffset))"

definition decodeCursor ::
  "(string \<Rightarrow> json option) \<Rightarrow> (string \<Rightarrow> string) \<Rightarrow> string \<Rightarrow> string \<Rightarrow> thrown + (int \<times> int)" where
  "decodeCursor parse sha256 cursor runId =
     (case parse (map char_of_byte (utf8_decode (from_base64 cursor))) of
        Some (JObject members) \<Rightarrow>
          if join_with '','' (sort (map fst members)) \<noteq> ''b,e,o,v'' then Inl invalidCursor
          else
            (case (map_of members ''v'', map_of members ''o'', map_of members ''e'', map_of members ''b'') of
               (Some (JInt v), Some (JInt out), Some (JInt err), Some (JString b)) \<Rightarrow>
                 if v \<noteq> 2 \<or> \<not> is_safe_integer out \<or> out < 0 \<or> \<not> is_safe_integer err \<or> err < 0
                 then Inl invalidCursor
                 else if b \<noteq> taskCursorBinding sha256 runId out err then Inl invalidCursor
                 else Inr (out, err)
             | _ \<Rightarrow> Inl invalidCursor)
      | _ \<Rightarrow> Inl invalidCursor)"

record task_tail =
  tt_state :: task_state
  tt_stdout :: read_page
  tt_stdoutTotal :: nat
  tt_stderr :: read_page
  tt_stderrTotal :: nat
  tt_nextCursor :: string
  tt_eof :: bool

definition ts_tail ::
  "(string \<Rightarrow> json option) \<Rightarrow> (string \<Rightarrow> string) \<Rightarrow> int \<Rightarrow> string \<Rightarrow> string option \<Rightarrow> int \<Rightarrow> task_store
    \<Rightarrow> (thrown + task_tail) \<times> task_store" where
  "ts_tail parse sha256 now runId cursor limit s =
     (case requirePositiveInteger limit ''limit'' of
        Inl e \<Rightarrow> (Inl e, s)
      | Inr _ \<Rightarrow>
          (case ts_require now runId s of
             (Inl e, s1) \<Rightarrow> (Inl e, s1)
           | (Inr t, s1) \<Rightarrow>
               (and_then (case cursor of None \<Rightarrow> Inr (0, 0) | Some c \<Rightarrow> decodeCursor parse sha256 c runId) (\<lambda>(out, err).
                let terminal = (t_state t \<noteq> Running) in
                and_then (rl_read (t_stdout t) out (nat limit) terminal) (\<lambda>stdout.
                and_then (rl_read (t_stderr t) err (nat limit) terminal) (\<lambda>stderr.
                Inr \<lparr>tt_state = t_state t,
                     tt_stdout = stdout, tt_stdoutTotal = rl_totalBytes (t_stdout t),
                     tt_stderr = stderr, tt_stderrTotal = rl_totalBytes (t_stderr t),
                     tt_nextCursor = encodeCursor sha256 runId (int (rp_nextOffset stdout)) (int (rp_nextOffset stderr)),
                     tt_eof = (terminal \<and> rp_nextOffset stdout \<ge> rl_totalBytes (t_stdout t)
                        \<and> rp_nextOffset stderr \<ge> rl_totalBytes (t_stderr t))\<rparr>))), s1)))"

section \<open>Steps and reachable stores\<close>

text \<open>
  One step of the store: a method call, or something that happens to a task on its own. The
  worker promise of a task settles once, which is the guard of the last two rules.
\<close>

inductive ts_step :: "task_store \<Rightarrow> task_store \<Rightarrow> bool" where
  start: "ts_start s opts now startedAtMs createRunId = (r, s') \<Longrightarrow> ts_step s s'"
| status: "ts_status nowCleanup now runId s = (r, s') \<Longrightarrow> ts_step s s'"
| tail: "ts_tail parse sha256 now runId cursor limit s = (r, s') \<Longrightarrow> ts_step s s'"
| cancel: "ts_cancel now runId s = (r, s') \<Longrightarrow> ts_step s s'"
| shutdown: "ts_step s (ts_shutdown s)"
| append: "ts_step s (modify_task runId (task_append stream chunk now) s)"
| timer: "ts_step s (modify_task runId task_timeout s)"
| complete: "map_of (ts_tasks s) runId = Some t \<Longrightarrow> \<not> t_settled t \<Longrightarrow>
    ts_step s (modify_task runId (task_complete (ts_ttlMs s) now c) s)"
| fail: "map_of (ts_tasks s) runId = Some t \<Longrightarrow> \<not> t_settled t \<Longrightarrow>
    ts_step s (modify_task runId (task_fail (ts_ttlMs s) now e) s)"

inductive ts_reachable :: "task_store \<Rightarrow> bool" where
  init: "new_task_store ttl retained concurrent logBytes = Inr s \<Longrightarrow> ts_reachable s"
| step: "ts_reachable s \<Longrightarrow> ts_step s s' \<Longrightarrow> ts_reachable s'"

section \<open>Invariant\<close>

definition log_ok :: "int \<Rightarrow> rolling_log \<Rightarrow> bool" where
  "log_ok limit log \<longleftrightarrow> rl_limit log = nat limit \<and> (\<exists>w. log_of w log)"

definition task_ok :: "int \<Rightarrow> int \<Rightarrow> string \<Rightarrow> task \<Rightarrow> bool" where
  "task_ok ttl logBytes runId t \<longleftrightarrow>
     t_runId t = runId \<and> opaque_reference runId
     \<and> (t_state t = Running \<longleftrightarrow> \<not> t_settled t)
     \<and> (t_state t = Running \<longrightarrow> t_finishedAtMs t = None \<and> t_expiresAtMs t = None)
     \<and> (t_state t \<noteq> Running \<longrightarrow> (\<exists>f. t_finishedAtMs t = Some f \<and> t_expiresAtMs t = Some (f + ttl)))
     \<and> (t_aborted t \<longleftrightarrow> t_requestedStop t \<noteq> None)
     \<and> (\<forall>r. t_requestedStop t = Some r \<longrightarrow> t_state t \<noteq> Running \<longrightarrow>
           t_state t = stop_state r \<and> t_termination t = Some (stop_termination r) \<and> t_exitCode t = Some None)
     \<and> log_ok logBytes (t_stdout t) \<and> log_ok logBytes (t_stderr t)"

definition ts_inv :: "task_store \<Rightarrow> bool" where
  "ts_inv s \<longleftrightarrow>
     1 \<le> ts_maxRetainedTasks s \<and> 1 \<le> ts_maxConcurrentTasks s
     \<and> distinct (map fst (ts_tasks s))
     \<and> (\<forall>(runId, t) \<in> set (ts_tasks s). task_ok (ts_ttlMs s) (ts_maxLogBytesPerStream s) runId t)
     \<and> int (length (ts_tasks s)) \<le> ts_maxRetainedTasks s
     \<and> activeCount s \<le> ts_maxConcurrentTasks s"

section \<open>Lemmas\<close>

subsection \<open>Single tasks\<close>

lemma log_ok_append [simp]: "log_ok n log \<Longrightarrow> log_ok n (rl_append log chunk)"
  unfolding log_ok_def using log_of_append by fastforce

lemma log_ok_new [simp]: "log_ok n (new_rolling_log (nat n))"
  unfolding log_ok_def using log_of_new [of "nat n"] by fastforce

lemma task_ok_append: "task_ok ttl n k t \<Longrightarrow> task_ok ttl n k (task_append stream chunk now t)"
  by (cases stream) (auto simp: task_ok_def task_append_def)

lemma task_ok_timeout: "task_ok ttl n k t \<Longrightarrow> task_ok ttl n k (task_timeout t)"
  by (auto simp: task_ok_def task_timeout_def)

lemma task_ok_shutdown: "task_ok ttl n k t \<Longrightarrow> task_ok ttl n k (task_shutdown t)"
  by (auto simp: task_ok_def task_shutdown_def split: option.splits)

lemma task_ok_cancel:
  "task_ok ttl n k t \<Longrightarrow> t_state t = Running \<Longrightarrow>
   task_ok ttl n k (t\<lparr>t_requestedStop := Some StopCancelled, t_aborted := True\<rparr>)"
  by (auto simp: task_ok_def)

lemma stop_state_not_running [simp]: "stop_state r \<noteq> Running"
  by (cases r) (simp_all add: stop_state_def)

lemma stateForTermination_not_running [simp]: "stateForTermination x y \<noteq> Running"
  by (auto simp: stateForTermination_def)

lemma task_ok_complete: "task_ok ttl n k t \<Longrightarrow> task_ok ttl n k (task_complete ttl now c t)"
  by (auto simp: task_ok_def task_complete_def task_finish_def task_stopped_def Let_def split: option.splits)

lemma task_ok_fail: "task_ok ttl n k t \<Longrightarrow> task_ok ttl n k (task_fail ttl now e t)"
  by (auto simp: task_ok_def task_fail_def task_finish_def task_stopped_def Let_def split: option.splits)

lemma task_ok_new:
  "opaque_reference k \<Longrightarrow> task_ok (ts_ttlMs s) (ts_maxLogBytesPerStream s) k (new_task s opts k now)"
  by (simp add: task_ok_def new_task_def)

lemma log_ok_buffer:
  "log_ok n log \<Longrightarrow> length (rl_buffer log) \<le> nat n \<and> length (rl_buffer log) = rl_totalBytes log - rl_startOffset log"
  by (auto simp: log_ok_def log_of_def)

text \<open>No change of a task other than its start makes it running.\<close>

lemma running_task_ops [simp]:
  "is_running (task_append stream chunk now t) = is_running t"
  "is_running (task_timeout t) = is_running t"
  "is_running (task_shutdown t) = is_running t"
  "\<not> is_running (task_complete ttl now c t)"
  "\<not> is_running (task_fail ttl now e t)"
  by (cases stream)
    (auto simp: is_running_def task_append_def task_timeout_def task_shutdown_def task_complete_def
      task_fail_def task_finish_def task_stopped_def Let_def split: option.splits)

subsection \<open>The store\<close>

lemma ts_inv_task:
  "ts_inv s \<Longrightarrow> map_of (ts_tasks s) k = Some t \<Longrightarrow> task_ok (ts_ttlMs s) (ts_maxLogBytesPerStream s) k t"
  by (auto simp: ts_inv_def dest!: map_of_SomeD)

lemma count_running_update:
  "map_of m k = Some t \<Longrightarrow> (is_running v \<longrightarrow> is_running t) \<Longrightarrow>
   length (filter is_running (map snd (AList.update k v m))) \<le> length (filter is_running (map snd m))"
  by (induction m) (auto split: if_splits)

lemma ts_inv_modify:
  assumes "ts_inv s"
    and ok: "\<And>t. map_of (ts_tasks s) k = Some t \<Longrightarrow> task_ok (ts_ttlMs s) (ts_maxLogBytesPerStream s) k t \<Longrightarrow>
      task_ok (ts_ttlMs s) (ts_maxLogBytesPerStream s) k (f t) \<and> (is_running (f t) \<longrightarrow> is_running t)"
  shows "ts_inv (modify_task k f s)"
proof (cases "map_of (ts_tasks s) k")
  case None
  with assms show ?thesis by (simp add: modify_task_def)
next
  case (Some t)
  note inv = assms(1) [unfolded ts_inv_def]
  from ok [OF Some ts_inv_task [OF assms(1) Some]]
  have f: "task_ok (ts_ttlMs s) (ts_maxLogBytesPerStream s) k (f t)" "is_running (f t) \<longrightarrow> is_running t" by auto
  have d: "distinct (map fst (ts_tasks s))" using inv by blast
  have "activeCount (modify_task k f s) \<le> activeCount s"
    using count_running_update [OF Some f(2)] Some by (simp add: activeCount_def modify_task_def)
  moreover have "set (AList.update k (f t) (ts_tasks s)) \<subseteq> insert (k, f t) (set (ts_tasks s))"
    using set_update_old [OF d Some] by auto
  ultimately show ?thesis
    using inv f(1) Some d
    by (auto simp: ts_inv_def modify_task_def jsmap_simps)
qed

lemma ts_inv_cleanup: "ts_inv s \<Longrightarrow> ts_inv (ts_cleanup now s)"
proof -
  assume inv: "ts_inv s"
  let ?p = "\<lambda>(runId :: string, t). not_expired now t"
  have "length (filter is_running (map snd (filter ?p m))) \<le> length (filter is_running (map snd m))" for m
    by (induction m) auto
  moreover have "length (filter ?p (ts_tasks s)) \<le> length (ts_tasks s)" by simp
  ultimately show ?thesis
    using inv unfolding ts_inv_def activeCount_def ts_cleanup_def
    by (auto simp: distinct_keys_filter intro: order_trans [of _ "int (length (ts_tasks s))"]
        order_trans [of _ "int (length (filter is_running (map snd (ts_tasks s))))"])
qed

lemma running_not_expired:
  "ts_inv s \<Longrightarrow> map_of (ts_tasks s) k = Some t \<Longrightarrow> t_state t = Running \<Longrightarrow>
   map_of (ts_tasks (ts_cleanup now s)) k = Some t"
  using ts_inv_task [of s k t]
  by (auto simp: ts_cleanup_def map_of_filter_keys ts_inv_def task_ok_def not_expired_def)

subsection \<open>Retention\<close>

lemma oldest_terminal_in:
  assumes "oldest_terminal m = Some t"
  shows "t \<in> snd ` set m" "\<not> is_running t"
proof -
  let ?xs = "sort_key finished_key (filter (\<lambda>t. \<not> is_running t) (map snd m))"
  from assms obtain ys where xs: "?xs = t # ys"
    by (auto simp: oldest_terminal_def split: list.splits)
  have "t \<in> set ?xs" unfolding xs by simp
  then show "t \<in> snd ` set m" "\<not> is_running t" by auto
qed

lemma oldest_terminal_min:
  assumes "oldest_terminal m = Some t" "u \<in> snd ` set m" "\<not> is_running u"
  shows "finished_key t \<le> finished_key u"
proof -
  let ?xs = "sort_key finished_key (filter (\<lambda>t. \<not> is_running t) (map snd m))"
  from assms(1) obtain ys where xs: "?xs = t # ys"
    by (auto simp: oldest_terminal_def split: list.splits)
  have "sorted (map finished_key ?xs)" by (rule sorted_sort_key)
  moreover have "u \<in> set ?xs" using assms(2,3) by simp
  ultimately show ?thesis unfolding xs by auto
qed

lemma oldest_terminal_None: "oldest_terminal m = None \<longleftrightarrow> (\<forall>t \<in> snd ` set m. is_running t)"
proof -
  have "oldest_terminal m = None \<longleftrightarrow> filter (\<lambda>t. \<not> is_running t) (map snd m) = []"
    by (auto simp: oldest_terminal_def split: list.splits) (metis filter_empty_conv set_empty set_sort)+
  then show ?thesis by (auto simp: filter_empty_conv)
qed

definition keyed :: "(string, task) jsmap \<Rightarrow> bool" where
  "keyed m \<longleftrightarrow> distinct (map fst m) \<and> (\<forall>(k, t) \<in> set m. t_runId t = k)"

lemma keyed_delete: "keyed m \<Longrightarrow> keyed (AList.delete k m)"
  by (auto simp: keyed_def AList.delete_eq distinct_keys_filter)

lemma keyed_oldest:
  assumes "keyed m" "oldest_terminal m = Some t"
  shows "map_of m (t_runId t) = Some t"
  using oldest_terminal_in [OF assms(2)] assms(1) by (auto simp: keyed_def)

lemma length_delete_oldest:
  assumes "keyed m" "oldest_terminal m = Some t"
  shows "Suc (length (AList.delete (t_runId t) m)) = length m"
  using length_delete_present [OF _ keyed_oldest [OF assms]] assms(1) by (simp add: keyed_def)

text \<open>What one run of the loop does: fuel is never exhausted, and only ended tasks leave.\<close>

lemma retention_room_spec:
  assumes "keyed m" "length m < n" "1 \<le> maximum" "retention_room n maximum m = (r, m')"
  shows "keyed m'" "set m' \<subseteq> set m" "\<forall>(k, t) \<in> set m. is_running t \<longrightarrow> (k, t) \<in> set m'"
    "r = Inr () \<Longrightarrow> int (length m') < maximum"
    "\<And>e. r = Inl e \<Longrightarrow> (\<forall>t \<in> snd ` set m'. is_running t) \<and> int (length m') \<ge> maximum \<and>
       e = gateway_with ExecutionLimitReached ''Task retention limit reached'' [(''maximum'', DNumber maximum)]"
proof -
  have "keyed m' \<and> set m' \<subseteq> set m \<and> (\<forall>(k, t) \<in> set m. is_running t \<longrightarrow> (k, t) \<in> set m')
    \<and> (r = Inr () \<longrightarrow> int (length m') < maximum)
    \<and> (\<forall>e. r = Inl e \<longrightarrow> (\<forall>t \<in> snd ` set m'. is_running t) \<and> int (length m') \<ge> maximum \<and>
       e = gateway_with ExecutionLimitReached ''Task retention limit reached'' [(''maximum'', DNumber maximum)])"
    using assms
  proof (induction n arbitrary: m)
    case 0
    then show ?case by simp
  next
    case (Suc n)
    show ?case
    proof (cases "int (length m) \<ge> maximum")
      case False
      with Suc.prems show ?thesis by auto
    next
      case full: True
      show ?thesis
      proof (cases "oldest_terminal m")
        case None
        with full Suc.prems show ?thesis by (auto simp: oldest_terminal_None)
      next
        case (Some t)
        let ?m = "AList.delete (t_runId t) m"
        from Suc.prems(1) Some have "Suc (length ?m) = length m" by (rule length_delete_oldest)
        with Suc.prems(2) have l: "length ?m < n" by simp
        from Some full Suc.prems(4) have e: "retention_room n maximum ?m = (r, m')" by simp
        note ih = Suc.IH [OF keyed_delete [OF Suc.prems(1)] l Suc.prems(3) e]
        have sub: "set ?m \<subseteq> set m" by (auto simp: AList.delete_eq)
        have run: "(k, u) \<in> set ?m" if "(k, u) \<in> set m" "is_running u" for k u
        proof -
          have "map_of m k = Some u" using that(1) Suc.prems(1) by (simp add: keyed_def)
          with that(2) oldest_terminal_in(2) [OF Some] keyed_oldest [OF Suc.prems(1) Some]
          have "k \<noteq> t_runId t" by auto
          with that(1) show ?thesis by (simp add: AList.delete_eq)
        qed
        have "set m' \<subseteq> set m" using ih sub by blast
        moreover have "\<forall>(k, t) \<in> set m. is_running t \<longrightarrow> (k, t) \<in> set m'" using ih run by fast
        ultimately show ?thesis using ih by blast
      qed
    qed
  qed
  then show "keyed m'" "set m' \<subseteq> set m" "\<forall>(k, t) \<in> set m. is_running t \<longrightarrow> (k, t) \<in> set m'"
    "r = Inr () \<Longrightarrow> int (length m') < maximum"
    "\<And>e. r = Inl e \<Longrightarrow> (\<forall>t \<in> snd ` set m'. is_running t) \<and> int (length m') \<ge> maximum \<and>
       e = gateway_with ExecutionLimitReached ''Task retention limit reached'' [(''maximum'', DNumber maximum)]"
    by blast+
qed

lemma task_ok_runId: "task_ok ttl n k t \<Longrightarrow> t_runId t = k"
  by (simp add: task_ok_def)

lemma ts_inv_keyed: "ts_inv s \<Longrightarrow> keyed (ts_tasks s)"
  by (auto simp: ts_inv_def keyed_def dest: task_ok_runId)

lemma active_card:
  assumes "distinct (map fst m)"
  shows "length (filter is_running (map snd m)) = card {p \<in> set m. is_running (snd p)}"
proof -
  have "length (filter is_running (map snd m)) = length (filter (\<lambda>p. is_running (snd p)) m)"
    by (simp add: filter_map comp_def)
  also have "\<dots> = card (set (filter (\<lambda>p. is_running (snd p)) m))"
    using assms by (metis distinct_card distinct_filter distinct_map)
  finally show ?thesis by simp
qed

text \<open>A store that differs only in having dropped ended tasks.\<close>

definition drops_ended :: "task_store \<Rightarrow> task_store \<Rightarrow> bool" where
  "drops_ended s s' \<longleftrightarrow>
     (\<exists>m. s' = s\<lparr>ts_tasks := m\<rparr> \<and> distinct (map fst m) \<and> set m \<subseteq> set (ts_tasks s)
        \<and> (\<forall>(k, t) \<in> set (ts_tasks s). is_running t \<longrightarrow> (k, t) \<in> set m))"

lemma drops_ended_inv:
  assumes "ts_inv s" "drops_ended s s'"
  shows "ts_inv s'" "activeCount s' = activeCount s"
proof -
  from assms(2) obtain m where m: "s' = s\<lparr>ts_tasks := m\<rparr>" "distinct (map fst m)" "set m \<subseteq> set (ts_tasks s)"
    "\<forall>(k, t) \<in> set (ts_tasks s). is_running t \<longrightarrow> (k, t) \<in> set m"
    by (auto simp: drops_ended_def)
  have d: "distinct (map fst (ts_tasks s))" using assms(1) by (simp add: ts_inv_def)
  have "{p \<in> set m. is_running (snd p)} = {p \<in> set (ts_tasks s). is_running (snd p)}"
    using m(3,4) by auto
  then show act: "activeCount s' = activeCount s"
    using active_card [OF d] active_card [OF m(2)] m(1) by (simp add: activeCount_def)
  have "length m = card (set m)" using m(2) by (simp add: distinct_card distinct_map)
  also have "\<dots> \<le> card (set (ts_tasks s))" using m(3) by (simp add: card_mono)
  also have "\<dots> \<le> length (ts_tasks s)" by (rule card_length)
  finally have "length m \<le> length (ts_tasks s)" .
  with assms(1) act m(1-3) show "ts_inv s'" by (auto simp: ts_inv_def)
qed

lemma drops_ended_refl: "ts_inv s \<Longrightarrow> drops_ended s s"
  by (auto simp: drops_ended_def ts_inv_def intro!: exI [of _ "ts_tasks s"])

lemma drops_ended_trans: "drops_ended s s1 \<Longrightarrow> drops_ended s1 s2 \<Longrightarrow> drops_ended s s2"
  unfolding drops_ended_def by fastforce

lemma drops_ended_cleanup: "ts_inv s \<Longrightarrow> drops_ended s (ts_cleanup now s)"
  unfolding drops_ended_def ts_cleanup_def
  by (intro exI conjI, rule refl)
    (auto simp: ts_inv_def task_ok_def is_running_def not_expired_def distinct_keys_filter)

lemma drops_ended_room:
  assumes "ts_inv s" "makeRetentionRoom s = (r, s')"
  shows "drops_ended s s'" "r = Inr () \<Longrightarrow> int (length (ts_tasks s')) < ts_maxRetainedTasks s'"
proof -
  from assms(2) obtain m where m: "retention_room (Suc (length (ts_tasks s))) (ts_maxRetainedTasks s) (ts_tasks s) = (r, m)"
    "s' = s\<lparr>ts_tasks := m\<rparr>"
    by (auto simp: makeRetentionRoom_def split: prod.splits)
  have "1 \<le> ts_maxRetainedTasks s" using assms(1) by (simp add: ts_inv_def)
  note spec = retention_room_spec [OF ts_inv_keyed [OF assms(1)] lessI this m(1)]
  show "drops_ended s s'"
    using spec(1-3) m(2) by (auto simp: drops_ended_def keyed_def)
  show "int (length (ts_tasks s')) < ts_maxRetainedTasks s'" if "r = Inr ()"
    using spec(4) [OF that] m(2) by simp
qed

lemma drops_ended_running:
  assumes "ts_inv s" "drops_ended s s'" "map_of (ts_tasks s) k = Some t" "is_running t"
  shows "map_of (ts_tasks s') k = Some t"
proof -
  from assms(2) obtain m where m: "s' = s\<lparr>ts_tasks := m\<rparr>" "distinct (map fst m)"
    "\<forall>(k, t) \<in> set (ts_tasks s). is_running t \<longrightarrow> (k, t) \<in> set m"
    by (auto simp: drops_ended_def)
  with map_of_SomeD [OF assms(3)] assms(4) have "(k, t) \<in> set m" by auto
  with m show ?thesis by simp
qed

lemma drops_ended_lookup:
  "ts_inv s \<Longrightarrow> drops_ended s s' \<Longrightarrow> map_of (ts_tasks s') k = Some t \<Longrightarrow> map_of (ts_tasks s) k = Some t"
  by (auto simp: drops_ended_def ts_inv_def dest!: map_of_SomeD)

lemma unique_run_id_ok:
  "unique_run_id n gen i m = Inr k \<Longrightarrow> opaque_reference k \<and> map_of m k = None \<and> (\<exists>j \<ge> i. j < i + n \<and> k = gen j)"
proof (induction n arbitrary: i)
  case 0
  then show ?case by simp
next
  case (Suc n)
  show ?case
  proof (cases "opaque_reference (gen i) \<and> map_of m (gen i) = None")
    case True
    with Suc.prems show ?thesis by (auto simp: Let_def)
  next
    case False
    with Suc.prems have "unique_run_id n gen (Suc i) m = Inr k"
      by (auto simp: Let_def split: if_splits)
    from Suc.IH [OF this] obtain j where "opaque_reference k" "map_of m k = None" "Suc i \<le> j"
      "j < Suc i + n" "k = gen j"
      by blast
    then show ?thesis by (intro conjI exI [of _ j]) auto
  qed
qed

text \<open>\<open>start\<close> either fails after dropping ended tasks, or adds one fresh running task.\<close>

lemma ts_start_cases:
  assumes "ts_inv s" "ts_start s opts now startedAtMs gen = (r, s')"
  obtains (failed) e where "r = Inl e" "drops_ended s s'"
  | (started) k s2 where "r = Inr k" "drops_ended s s2" "opaque_reference k" "map_of (ts_tasks s2) k = None"
      "activeCount s2 < ts_maxConcurrentTasks s2" "int (length (ts_tasks s2)) < ts_maxRetainedTasks s2"
      "\<not> ts_closing s" "s' = s2\<lparr>ts_tasks := AList.update k (new_task s2 opts k startedAtMs) (ts_tasks s2)\<rparr>"
proof -
  let ?s1 = "ts_cleanup now s"
  have d1: "drops_ended s ?s1" using assms(1) by (rule drops_ended_cleanup)
  have i1: "ts_inv ?s1" using drops_ended_inv(1) [OF assms(1) d1] .
  obtain rr s2 where room: "makeRetentionRoom ?s1 = (rr, s2)" by force
  have d2: "drops_ended s s2" using d1 drops_ended_room(1) [OF i1 room] by (rule drops_ended_trans)
  have a2: "activeCount s2 = activeCount ?s1" using drops_ended_inv(2) [OF i1 drops_ended_room(1) [OF i1 room]] .
  have c2: "ts_maxConcurrentTasks s2 = ts_maxConcurrentTasks ?s1"
    using drops_ended_room(1) [OF i1 room] by (auto simp: drops_ended_def)
  consider (closing) "ts_closing s"
    | (timeout) e where "\<not> ts_closing s"
        "(case so_timeoutMs opts of None \<Rightarrow> Inr () | Some t \<Rightarrow> requirePositiveInteger t ''timeoutMs'') = Inl e"
    | (busy) "\<not> ts_closing s" "activeCount ?s1 \<ge> ts_maxConcurrentTasks ?s1"
        "(case so_timeoutMs opts of None \<Rightarrow> Inr () | Some t \<Rightarrow> requirePositiveInteger t ''timeoutMs'') = Inr ()"
    | (go) "\<not> ts_closing s" "\<not> activeCount ?s1 \<ge> ts_maxConcurrentTasks ?s1"
        "(case so_timeoutMs opts of None \<Rightarrow> Inr () | Some t \<Rightarrow> requirePositiveInteger t ''timeoutMs'') = Inr ()"
    by (cases "case so_timeoutMs opts of None \<Rightarrow> Inr () | Some t \<Rightarrow> requirePositiveInteger t ''timeoutMs''") auto
  then show ?thesis
  proof cases
    case closing
    with assms show ?thesis using failed drops_ended_refl by (auto simp: ts_start_def)
  next
    case timeout
    with assms show ?thesis using failed drops_ended_refl by (auto simp: ts_start_def)
  next
    case busy
    with assms d1 show ?thesis using failed by (auto simp: ts_start_def Let_def)
  next
    case go
    show ?thesis
    proof (cases rr)
      case (Inl e)
      with go assms d2 room show ?thesis using failed by (auto simp: ts_start_def Let_def)
    next
      case rr: (Inr u)
      show ?thesis
      proof (cases "uniqueRunId gen (ts_tasks s2)")
        case (Inl e)
        with go rr assms(2) room have "r = Inl e" "s' = s2" by (auto simp: ts_start_def Let_def)
        with d2 show ?thesis using failed by simp
      next
        case (Inr k)
        with go rr room assms(2) have "r = Inr k"
          "s' = s2\<lparr>ts_tasks := AList.update k (new_task s2 opts k startedAtMs) (ts_tasks s2)\<rparr>"
          by (auto simp: ts_start_def Let_def)
        moreover have "opaque_reference k" "map_of (ts_tasks s2) k = None"
          using unique_run_id_ok Inr by (auto simp: uniqueRunId_def)
        moreover have "activeCount s2 < ts_maxConcurrentTasks s2" using go a2 c2 by simp
        moreover have "int (length (ts_tasks s2)) < ts_maxRetainedTasks s2"
          using drops_ended_room(2) [OF i1 room] rr by simp
        ultimately show ?thesis using started d2 go by blast
      qed
    qed
  qed
qed

lemma ts_inv_start:
  assumes "ts_inv s" "ts_start s opts now startedAtMs gen = (r, s')"
  shows "ts_inv s'"
  using assms
proof (cases rule: ts_start_cases)
  case (failed e)
  then show ?thesis using drops_ended_inv(1) [OF assms(1)] by blast
next
  case (started k s2)
  have "ts_inv s2" using drops_ended_inv(1) [OF assms(1) started(2)] .
  moreover have "is_running (new_task s2 opts k startedAtMs)" by (simp add: is_running_def new_task_def)
  ultimately show ?thesis
    using started(3-6,8) task_ok_new [OF started(3), of s2 opts startedAtMs]
    by (auto simp: ts_inv_def activeCount_def update_new_append jsmap_simps map_of_eq_None_iff)
qed

lemma ts_require_eq:
  "ts_require now k s = (r, s') \<Longrightarrow> s' = ts_cleanup now s \<and> (\<forall>t. r = Inr t \<longrightarrow> map_of (ts_tasks s') k = Some t)"
  by (auto simp: ts_require_def Let_def split: if_splits option.splits)

lemma ts_status_store: "ts_status nowc now k s = (r, s') \<Longrightarrow> s' = ts_cleanup nowc s"
  using ts_require_eq [of nowc k s] by (auto simp: ts_status_def split: prod.splits sum.splits)

lemma ts_tail_store: "ts_tail parse sha now k c n s = (r, s') \<Longrightarrow> s' = s \<or> s' = ts_cleanup now s"
  using ts_require_eq [of now k s] by (auto simp: ts_tail_def split: prod.splits sum.splits)

lemma ts_cancel_store:
  assumes "ts_cancel now k s = (r, s')"
  shows "s' = ts_cleanup now s \<or> (\<exists>t. map_of (ts_tasks (ts_cleanup now s)) k = Some t \<and> t_state t = Running
      \<and> t_requestedStop t = None \<and>
      s' = modify_task k (\<lambda>t. t\<lparr>t_requestedStop := Some StopCancelled, t_aborted := True\<rparr>) (ts_cleanup now s))"
  using assms ts_require_eq [of now k s]
  by (auto simp: ts_cancel_def split: prod.splits sum.splits if_splits)

lemma ts_inv_shutdown: "ts_inv s \<Longrightarrow> ts_inv (ts_shutdown s)"
proof -
  assume inv: "ts_inv s"
  have "filter is_running (map snd (map (\<lambda>(k, t). (k, task_shutdown t)) m))
      = map task_shutdown (filter is_running (map snd m))" for m :: "(string, task) jsmap"
    by (induction m) auto
  then have "activeCount (ts_shutdown s) = activeCount s"
    by (simp add: activeCount_def ts_shutdown_def)
  moreover have "fst \<circ> (\<lambda>(k, t). (k, task_shutdown t)) = (fst :: string \<times> task \<Rightarrow> string)"
    by (simp add: fun_eq_iff)
  ultimately show ?thesis
    using inv by (auto simp: ts_inv_def ts_shutdown_def intro: task_ok_shutdown)
qed

theorem ts_inv_step: "ts_step s s' \<Longrightarrow> ts_inv s \<Longrightarrow> ts_inv s'"
proof (induction rule: ts_step.induct)
  case (start s opts now st gen r s')
  then show ?case by (metis ts_inv_start)
next
  case (status nowc now k s r s')
  then show ?case using ts_status_store ts_inv_cleanup by metis
next
  case (tail parse sha now k c n s r s')
  then show ?case using ts_tail_store ts_inv_cleanup by metis
next
  case (cancel now k s r s')
  from ts_cancel_store [OF cancel(1)] show ?case
  proof
    assume "s' = ts_cleanup now s"
    with cancel(2) show ?thesis using ts_inv_cleanup by simp
  next
    assume "\<exists>t. map_of (ts_tasks (ts_cleanup now s)) k = Some t \<and> t_state t = Running
      \<and> t_requestedStop t = None \<and>
      s' = modify_task k (\<lambda>t. t\<lparr>t_requestedStop := Some StopCancelled, t_aborted := True\<rparr>) (ts_cleanup now s)"
    then show ?thesis
      using ts_inv_cleanup [OF cancel(2), of now] task_ok_cancel
      by (auto intro!: ts_inv_modify simp: is_running_def)
  qed
next
  case (shutdown s)
  then show ?case by (rule ts_inv_shutdown)
qed (auto intro!: ts_inv_modify task_ok_append task_ok_timeout task_ok_complete task_ok_fail)

lemma ts_reachable_inv: "ts_reachable s \<Longrightarrow> ts_inv s"
proof (induction rule: ts_reachable.induct)
  case (init ttl retained concurrent logBytes s)
  then show ?case
    by (auto simp: new_task_store_def requirePositiveInteger_def result_elims Let_def ts_inv_def activeCount_def)
next
  case (step s s')
  then show ?case using ts_inv_step by blast
qed

subsection \<open>What a step can do to one task\<close>

lemma map_of_modify:
  "map_of (ts_tasks (modify_task k f s)) j =
     (if j = k then map_option f (map_of (ts_tasks s) k) else map_of (ts_tasks s) j)"
  by (auto simp: modify_task_def update_conv' split: option.splits)

lemma map_of_shutdown:
  "map_of (ts_tasks (ts_shutdown s)) k = map_option task_shutdown (map_of (ts_tasks s) k)"
  by (simp add: ts_shutdown_def map_of_map)

definition same_task :: "task \<Rightarrow> task \<Rightarrow> bool" where
  "same_task t t' \<longleftrightarrow> t_runId t' = t_runId t \<and> t_target t' = t_target t \<and> t_kind t' = t_kind t
     \<and> t_startedAtMs t' = t_startedAtMs t
     \<and> rl_totalBytes (t_stdout t) \<le> rl_totalBytes (t_stdout t')
     \<and> rl_totalBytes (t_stderr t) \<le> rl_totalBytes (t_stderr t')
     \<and> (\<forall>r. t_requestedStop t = Some r \<longrightarrow> t_requestedStop t' = Some r)"

lemma rl_total_append: "rl_totalBytes (rl_append log chunk) = rl_totalBytes log + length chunk"
  by (simp add: rl_append_def Let_def)

lemma same_task_ops:
  "same_task t t" "same_task t (task_append stream chunk now t)" "same_task t (task_timeout t)"
  "same_task t (task_shutdown t)" "same_task t (task_complete ttl now c t)" "same_task t (task_fail ttl now e t)"
  "t_requestedStop t = None \<Longrightarrow> same_task t (t\<lparr>t_requestedStop := Some StopCancelled, t_aborted := True\<rparr>)"
  by (auto simp: same_task_def task_append_def task_timeout_def task_shutdown_def task_complete_def task_fail_def
      task_finish_def task_stopped_def rl_total_append Let_def split: option.splits out_stream.splits)

lemma ended_unchanged:
  assumes "\<not> is_running t"
  shows "task_append stream chunk now t = t" "task_timeout t = t" "task_shutdown t = t"
  using assms by (simp_all add: is_running_def task_append_def task_timeout_def task_shutdown_def)

lemma running_survives_step:
  assumes "ts_step s s'" "ts_inv s" "map_of (ts_tasks s) k = Some t" "is_running t"
  shows "\<exists>t'. map_of (ts_tasks s') k = Some t' \<and> same_task t t'"
  using assms
proof (induction rule: ts_step.induct)
  case (start s opts now st gen r s')
  from start(2,1) show ?case
  proof (cases rule: ts_start_cases)
    case (failed e)
    then show ?thesis using drops_ended_running [OF start(2) _ start(3,4)] same_task_ops(1) by blast
  next
    case (started j s2)
    then have "map_of (ts_tasks s2) k = Some t" using drops_ended_running [OF start(2) _ start(3,4)] by blast
    with started show ?thesis using same_task_ops(1) by (auto simp: update_conv')
  qed
next
  case (status nowc now j s r s')
  then show ?case using ts_status_store running_not_expired same_task_ops(1) by (metis is_running_def)
next
  case (tail parse sha now j c n s r s')
  then show ?case using ts_tail_store running_not_expired same_task_ops(1) by (metis is_running_def)
next
  case (cancel now j s r s')
  then have c: "map_of (ts_tasks (ts_cleanup now s)) k = Some t"
    using running_not_expired by (simp add: is_running_def)
  from ts_cancel_store [OF cancel(1)] c show ?case
    by (auto simp: map_of_modify same_task_ops)
next
  case (shutdown s)
  then show ?case by (auto simp: map_of_shutdown same_task_ops)
qed (auto simp: map_of_modify same_task_ops)

lemma ended_is_final:
  assumes "ts_step s s'" "ts_inv s" "map_of (ts_tasks s) k = Some t" "\<not> is_running t"
    "map_of (ts_tasks s') k = Some t'"
  shows "t' = t \<or> (\<exists>s2 opts st. t' = new_task s2 opts k st)"
  using assms
proof (induction rule: ts_step.induct)
  case (start s opts now st gen r s')
  from start(2,1) show ?case
  proof (cases rule: ts_start_cases)
    case (failed e)
    then have "map_of (ts_tasks s) k = Some t'" using drops_ended_lookup start(2,5) by blast
    with start(3) show ?thesis by simp
  next
    case (started j s2)
    then show ?thesis
      using start(3,5) drops_ended_lookup [OF start(2) started(2)]
      by (cases "j = k") (simp_all add: update_conv', blast)
  qed
next
  case (status nowc now j s r s')
  then show ?case
    using ts_status_store drops_ended_lookup drops_ended_cleanup by (metis option.inject)
next
  case (tail parse sha now j c n s r s')
  then show ?case
    using ts_tail_store drops_ended_lookup drops_ended_cleanup by (metis option.inject)
next
  case (cancel now j s r s')
  note look = drops_ended_lookup [OF cancel(2) drops_ended_cleanup [OF cancel(2), of now]]
  from ts_cancel_store [OF cancel(1)] cancel(3-5) show ?case
    using look [of k] look [of j]
    by (cases "j = k") (auto simp: map_of_modify is_running_def)
next
  case (shutdown s)
  then show ?case by (auto simp: map_of_shutdown ended_unchanged)
next
  case (append s j stream chunk now)
  then show ?case by (auto simp: map_of_modify ended_unchanged split: if_splits)
next
  case (timer s j)
  then show ?case by (auto simp: map_of_modify ended_unchanged split: if_splits)
next
  case (complete s j u now c)
  then show ?case using ts_inv_task [of s j u]
    by (auto simp: map_of_modify is_running_def task_ok_def split: if_splits)
next
  case (fail s j u now e)
  then show ?case using ts_inv_task [of s j u]
    by (auto simp: map_of_modify is_running_def task_ok_def split: if_splits)
qed

text \<open>Whether a start is accepted depends on the running tasks only.\<close>

lemma activeCount_le_length: "activeCount s \<le> int (length (ts_tasks s))"
  unfolding activeCount_def by (simp add: order_trans [OF length_filter_le])

lemma room_iff:
  assumes "ts_inv s" "makeRetentionRoom s = (r, s')"
  shows "r = Inr () \<longleftrightarrow> activeCount s < ts_maxRetainedTasks s"
proof -
  from assms(2) obtain m where m: "retention_room (Suc (length (ts_tasks s))) (ts_maxRetainedTasks s) (ts_tasks s) = (r, m)"
    "s' = s\<lparr>ts_tasks := m\<rparr>"
    by (auto simp: makeRetentionRoom_def split: prod.splits)
  have "1 \<le> ts_maxRetainedTasks s" using assms(1) by (simp add: ts_inv_def)
  note spec = retention_room_spec [OF ts_inv_keyed [OF assms(1)] lessI this m(1)]
  have act: "activeCount s' = activeCount s" using drops_ended_inv(2) [OF assms(1) drops_ended_room(1) [OF assms]] .
  show ?thesis
  proof (cases r)
    case (Inl e)
    with spec(5) have all: "\<forall>t \<in> snd ` set m. is_running t" and full: "ts_maxRetainedTasks s \<le> int (length m)"
      by auto
    have "filter is_running (map snd m) = map snd m" using all by (auto simp: filter_id_conv)
    with full act m(2) Inl show ?thesis by (simp add: activeCount_def)
  next
    case (Inr u)
    with spec(4) have "int (length m) < ts_maxRetainedTasks s" by simp
    with activeCount_le_length [of s'] act m(2) Inr show ?thesis by simp
  qed
qed

definition fresh_attempt :: "(nat \<Rightarrow> string) \<Rightarrow> (string, task) jsmap \<Rightarrow> nat \<Rightarrow> bool" where
  "fresh_attempt gen tasks i \<longleftrightarrow>
     (\<forall>j \<le> i. opaque_reference (gen j)) \<and> (\<forall>j < i. map_of tasks (gen j) \<noteq> None) \<and> map_of tasks (gen i) = None"

lemma unique_run_id_iff:
  "unique_run_id n gen i tasks = Inr k \<longleftrightarrow> (\<exists>j < n. fresh_attempt (\<lambda>l. gen (i + l)) tasks j \<and> k = gen (i + j))"
proof (induction n arbitrary: i)
  case (Suc n)
  have step: "fresh_attempt (\<lambda>l. gen (i + l)) tasks (Suc j) \<longleftrightarrow>
      opaque_reference (gen i) \<and> map_of tasks (gen i) \<noteq> None \<and> fresh_attempt (\<lambda>l. gen (Suc i + l)) tasks j" for j
    unfolding fresh_attempt_def by (auto simp: All_less_Suc2 less_Suc_eq_le [symmetric])
  have first: "fresh_attempt (\<lambda>l. gen (i + l)) tasks 0 \<longleftrightarrow> opaque_reference (gen i) \<and> map_of tasks (gen i) = None"
    by (simp add: fresh_attempt_def)
  show ?case
    unfolding Ex_less_Suc2 step first using Suc.IH [of "Suc i"] by (auto simp: Let_def)
qed simp

lemma uniqueRunId_iff: "uniqueRunId gen tasks = Inr k \<longleftrightarrow> (\<exists>j < 8. fresh_attempt gen tasks j \<and> k = gen j)"
  using unique_run_id_iff [of 8 gen 0 tasks k] by (simp add: uniqueRunId_def)

definition timeout_accepted :: "int option \<Rightarrow> bool" where
  "timeout_accepted timeoutMs \<longleftrightarrow> (case timeoutMs of None \<Rightarrow> True | Some t \<Rightarrow> is_safe_integer t \<and> 1 \<le> t)"

lemma timeout_accepted_iff:
  "timeout_accepted timeoutMs \<longleftrightarrow> (case timeoutMs of None \<Rightarrow> Inr () | Some t \<Rightarrow> requirePositiveInteger t ''timeoutMs'') = Inr ()"
  by (auto simp: timeout_accepted_def requirePositiveInteger_def guard_else_def split: option.splits)

text \<open>What the tasks are once the expired ones and, where needed, the oldest ended ones are gone.\<close>

definition kept_tasks :: "int \<Rightarrow> task_store \<Rightarrow> (string, task) jsmap" where
  "kept_tasks now s = ts_tasks (snd (makeRetentionRoom (ts_cleanup now s)))"

lemma kept_tasks_ok:
  assumes "ts_inv s"
  shows "set (kept_tasks now s) \<subseteq> set (ts_tasks s)" "(k, t) \<in> set (ts_tasks s) \<Longrightarrow> is_running t \<Longrightarrow> (k, t) \<in> set (kept_tasks now s)"
proof -
  have d: "drops_ended s (ts_cleanup now s)" by (rule drops_ended_cleanup [OF assms])
  have "drops_ended s (snd (makeRetentionRoom (ts_cleanup now s)))"
    using drops_ended_trans [OF d drops_ended_room(1) [OF drops_ended_inv(1) [OF assms d]]] by (metis prod.collapse)
  then show "set (kept_tasks now s) \<subseteq> set (ts_tasks s)"
    "(k, t) \<in> set (ts_tasks s) \<Longrightarrow> is_running t \<Longrightarrow> (k, t) \<in> set (kept_tasks now s)"
    unfolding drops_ended_def kept_tasks_def by auto
qed

lemma start_accepted_iff:
  assumes "ts_inv s"
  shows "fst (ts_start s opts now st gen) = Inr k \<longleftrightarrow>
    \<not> ts_closing s \<and> timeout_accepted (so_timeoutMs opts)
    \<and> activeCount s < ts_maxConcurrentTasks s \<and> activeCount s < ts_maxRetainedTasks s
    \<and> (\<exists>i < 8. fresh_attempt gen (kept_tasks now s) i \<and> k = gen i)"
    and "fst (ts_start s opts now st gen) = Inr k \<Longrightarrow>
      ts_tasks (snd (ts_start s opts now st gen)) = kept_tasks now s @ [(k, new_task s opts k st)]"
proof -
  let ?s1 = "ts_cleanup now s"
  have d1: "drops_ended s ?s1" using assms(1) by (rule drops_ended_cleanup)
  have i1: "ts_inv ?s1" and a1: "activeCount ?s1 = activeCount s"
    using drops_ended_inv [OF assms(1) d1] by auto
  have k1: "ts_maxConcurrentTasks ?s1 = ts_maxConcurrentTasks s" "ts_maxRetainedTasks ?s1 = ts_maxRetainedTasks s"
    by (simp_all add: ts_cleanup_def)
  obtain rr s2 where room: "makeRetentionRoom ?s1 = (rr, s2)" by force
  then have kept: "kept_tasks now s = ts_tasks s2" by (simp add: kept_tasks_def)
  show iff: "fst (ts_start s opts now st gen) = Inr k \<longleftrightarrow>
    \<not> ts_closing s \<and> timeout_accepted (so_timeoutMs opts)
    \<and> activeCount s < ts_maxConcurrentTasks s \<and> activeCount s < ts_maxRetainedTasks s
    \<and> (\<exists>i < 8. fresh_attempt gen (kept_tasks now s) i \<and> k = gen i)"
    using room_iff [OF i1 room] a1 k1 room
    unfolding kept timeout_accepted_iff uniqueRunId_iff [symmetric]
    by (cases rr) (auto simp: ts_start_def Let_def split: sum.splits)
  assume started: "fst (ts_start s opts now st gen) = Inr k"
  have new: "new_task s2 opts k st = new_task s opts k st"
  proof -
    have "ts_maxLogBytesPerStream s2 = ts_maxLogBytesPerStream s"
      using room by (auto simp: makeRetentionRoom_def ts_cleanup_def split: prod.splits)
    then show ?thesis by (simp add: new_task_def)
  qed
  have "map_of (ts_tasks s2) k = None"
    using started unfolding iff kept by (auto simp: fresh_attempt_def)
  then have "AList.update k (new_task s2 opts k st) (ts_tasks s2) = ts_tasks s2 @ [(k, new_task s2 opts k st)]"
    by (rule update_new_append)
  with started room show "ts_tasks (snd (ts_start s opts now st gen)) = kept_tasks now s @ [(k, new_task s opts k st)]"
    unfolding kept new [symmetric]
    by (auto simp: ts_start_def Let_def split: if_splits sum.splits option.splits)
qed

subsection \<open>Cursors\<close>

lemma ascii_cursor_text:
  assumes "ascii (sha256 (cursor_preimage runId out err))" "0 \<le> out" "0 \<le> err"
  shows "ascii (cursor_text sha256 runId out err)"
proof -
  have "ascii (taskCursorBinding sha256 runId out err)"
    using assms(1) by (auto simp: taskCursorBinding_def ascii_def list_all_iff dest: in_set_takeD)
  moreover have "ascii ''{\"v\":2,\"o\":''" "ascii '',\"e\":''" "ascii '',\"b\":\"''" "ascii ''\"}''"
    by code_simp+
  ultimately show ?thesis
    unfolding cursor_text_def ascii_append using assms(2,3) by (simp only: ascii_show_int)
qed

lemma decode_encode_cursor:
  assumes "ascii (sha256 (cursor_preimage runId out err))"
    "is_safe_integer out" "0 \<le> out" "is_safe_integer err" "0 \<le> err"
    "parse (cursor_text sha256 runId out err) = Some (JObject [(''v'', JInt 2), (''o'', JInt out),
       (''e'', JInt err), (''b'', JString (taskCursorBinding sha256 runId out err))])"
  shows "decodeCursor parse sha256 (encodeCursor sha256 runId out err) other =
    (if taskCursorBinding sha256 other out err = taskCursorBinding sha256 runId out err
     then Inr (out, err) else Inl invalidCursor)"
proof -
  have "map char_of_byte (utf8_decode (from_base64 (encodeCursor sha256 runId out err))) = cursor_text sha256 runId out err"
    unfolding encodeCursor_def from_base64_base64url
    using assms(1,3,5) by (intro ascii_roundtrip ascii_cursor_text)
  moreover have "join_with '','' (sort [''v'', ''o'', ''e'', ''b'']) = ''b,e,o,v''" by code_simp
  ultimately show ?thesis using assms by (auto simp: decodeCursor_def)
qed

section \<open>Properties\<close>

text \<open>
  C15: in every reachable store at most the configured number of tasks run at the same time and
  at most the configured number is retained; tasks are filed once, under their own run identifier,
  which is 43 characters of the base64url alphabet; and each log holds the last bytes of its stream, no more than
  its limit.
\<close>

theorem task_store_limits:
  assumes "ts_reachable s"
  shows "activeCount s \<le> ts_maxConcurrentTasks s \<and> int (length (ts_tasks s)) \<le> ts_maxRetainedTasks s
    \<and> distinct (map fst (ts_tasks s))
    \<and> (\<forall>(runId, t) \<in> set (ts_tasks s). t_runId t = runId \<and> length runId = 43 \<and> list_all opaque_char runId
         \<and> (\<forall>log \<in> {t_stdout t, t_stderr t}. length (rl_buffer log) \<le> nat (ts_maxLogBytesPerStream s)
              \<and> length (rl_buffer log) = rl_totalBytes log - rl_startOffset log))"
proof -
  have inv: "ts_inv s" by (rule ts_reachable_inv [OF assms])
  have "t_runId t = runId \<and> length runId = 43 \<and> list_all opaque_char runId
      \<and> (\<forall>log \<in> {t_stdout t, t_stderr t}. length (rl_buffer log) \<le> nat (ts_maxLogBytesPerStream s)
           \<and> length (rl_buffer log) = rl_totalBytes log - rl_startOffset log)"
    if "(runId, t) \<in> set (ts_tasks s)" for runId t
  proof -
    have ok: "task_ok (ts_ttlMs s) (ts_maxLogBytesPerStream s) runId t" using inv that by (auto simp: ts_inv_def)
    then have "\<forall>log \<in> {t_stdout t, t_stderr t}. log_ok (ts_maxLogBytesPerStream s) log" by (simp add: task_ok_def)
    then show ?thesis using ok log_ok_buffer by (auto simp: task_ok_def opaque_reference_def)
  qed
  with inv show ?thesis unfolding ts_inv_def by blast
qed

definition example_store :: task_store where
  "example_store = \<lparr>ts_ttlMs = 1000, ts_maxRetainedTasks = 2, ts_maxConcurrentTasks = 1,
     ts_maxLogBytesPerStream = 16, ts_tasks = [], ts_closing = False\<rparr>"

definition example_id :: string where
  "example_id = replicate 43 CHR ''a''"

definition example_options :: start_options where
  "example_options = \<lparr>so_kind = ExecTask, so_target = ''build'', so_timeoutMs = Some 5000\<rparr>"

definition example_started :: task_store where
  "example_started = snd (ts_start example_store example_options 0 0 (\<lambda>_. example_id))"

lemma example_reachable: "ts_reachable example_store" "ts_reachable example_started"
proof -
  have "new_task_store 1000 2 1 (Some 16) = Inr example_store" by code_simp
  then show r: "ts_reachable example_store" by (rule ts_reachable.init)
  show "ts_reachable example_started"
    unfolding example_started_def
    by (rule ts_reachable.step [OF r]) (rule ts_step.start, rule prod.collapse [symmetric])
qed

lemma example_running:
  "map_of (ts_tasks example_started) example_id = Some (new_task example_store example_options example_id 0)"
  "is_running (new_task example_store example_options example_id 0)"
  by code_simp+

theorem task_store_limits_witness:
  "activeCount example_started = 1 \<and> activeCount example_started \<le> ts_maxConcurrentTasks example_started"
proof -
  have "activeCount example_started = 1" by code_simp
  then show ?thesis using task_store_limits [OF example_reachable(2)] by simp
qed

text \<open>
  No step of the store removes a running task or forgets what is known about it: after any
  step the task is still there under its identifier, with the same target, kind and start
  time, with logs that have only grown and with its stop request, if it had one.
\<close>

theorem running_task_survives:
  assumes "ts_reachable s" "ts_step s s'" "map_of (ts_tasks s) runId = Some t" "t_state t = Running"
  shows "\<exists>t'. map_of (ts_tasks s') runId = Some t' \<and> t_target t' = t_target t \<and> t_kind t' = t_kind t
    \<and> t_startedAtMs t' = t_startedAtMs t
    \<and> rl_totalBytes (t_stdout t) \<le> rl_totalBytes (t_stdout t')
    \<and> rl_totalBytes (t_stderr t) \<le> rl_totalBytes (t_stderr t')
    \<and> (t_requestedStop t = None \<or> t_requestedStop t' = t_requestedStop t)"
proof -
  from assms(4) have "is_running t" by (simp add: is_running_def)
  from running_survives_step [OF assms(2) ts_reachable_inv [OF assms(1)] assms(3) this]
  show ?thesis by (cases "t_requestedStop t") (auto simp: same_task_def)
qed

theorem running_task_survives_witness:
  "\<exists>t'. map_of (ts_tasks (ts_shutdown example_started)) example_id = Some t' \<and> t_target t' = ''build''"
proof -
  have r: "t_state (new_task example_store example_options example_id 0) = Running"
    "t_target (new_task example_store example_options example_id 0) = ''build''"
    by code_simp+
  from running_task_survives [OF example_reachable(2) ts_step.shutdown example_running(1) r(1)] r(2)
  show ?thesis by auto
qed

text \<open>
  C16: an outcome is final. A task that has ended is never changed again: while it is still held
  under its identifier every step leaves it as it is, unless the identifier is drawn again
  for a task that is newly started.
\<close>

theorem ended_task_is_final:
  assumes "ts_reachable s" "ts_step s s'" "map_of (ts_tasks s) runId = Some t" "t_state t \<noteq> Running"
    "map_of (ts_tasks s') runId = Some t'"
  shows "t' = t \<or> (\<exists>s2 opts startedAtMs. t' = new_task s2 opts runId startedAtMs)"
proof -
  from assms(4) have "\<not> is_running t" by (simp add: is_running_def)
  from ended_is_final [OF assms(2) ts_reachable_inv [OF assms(1)] assms(3) this assms(5)]
  show ?thesis .
qed

definition example_completion :: task_completion where
  "example_completion = \<lparr>tc_termination = Some ByExit, tc_exitCode = Some (Some 0), tc_result = None\<rparr>"

definition example_ended :: task_store where
  "example_ended = modify_task example_id (task_complete 1000 7 example_completion) example_started"

lemma example_ended_reachable: "ts_reachable example_ended"
proof -
  have "ts_ttlMs example_started = 1000" "\<not> t_settled (new_task example_store example_options example_id 0)"
    by code_simp+
  with ts_reachable.step [OF example_reachable(2) ts_step.complete [OF example_running(1)]]
  show ?thesis by (simp add: example_ended_def)
qed

theorem ended_task_is_final_witness:
  "map_of (ts_tasks (modify_task example_id task_timeout example_ended)) example_id =
     map_of (ts_tasks example_ended) example_id
   \<and> map_option t_state (map_of (ts_tasks example_ended) example_id) = Some Succeeded"
proof -
  let ?t = "task_complete 1000 7 example_completion (new_task example_store example_options example_id 0)"
  have e: "map_of (ts_tasks example_ended) example_id = Some ?t" "t_state ?t = Succeeded" "task_timeout ?t = ?t"
    by code_simp+
  have m: "map_of (ts_tasks (modify_task example_id task_timeout example_ended)) example_id = Some ?t"
    using e by (simp add: map_of_modify)
  have ne: "t_state ?t \<noteq> Running" using e(2) by simp
  from ended_task_is_final [OF example_ended_reachable ts_step.timer e(1) ne m]
  show ?thesis using e m by simp
qed

text \<open>
  C17: the first stop request decides. In every reachable store a task that was asked to stop
  and has ended is reported as timed out or cancelled, according to the request that was
  recorded, with no exit code, whatever its worker returned or threw.
\<close>

theorem stop_request_decides_outcome:
  assumes "ts_reachable s" "map_of (ts_tasks s) runId = Some t" "t_requestedStop t = Some r" "t_state t \<noteq> Running"
  shows "t_state t = (case r of StopCancelled \<Rightarrow> Cancelled | StopTimedOut \<Rightarrow> TimedOut)
    \<and> t_termination t = Some (case r of StopCancelled \<Rightarrow> ByCancel | StopTimedOut \<Rightarrow> ByTimeout)
    \<and> t_exitCode t = Some None"
  using ts_inv_task [OF ts_reachable_inv [OF assms(1)] assms(2)] assms(3,4)
  by (cases r) (auto simp: task_ok_def stop_state_def stop_termination_def)

definition example_stopped :: task_store where
  "example_stopped =
     modify_task example_id (task_complete 1000 7 example_completion)
       (modify_task example_id task_timeout example_started)"

theorem stop_request_decides_outcome_witness:
  "map_option t_state (map_of (ts_tasks example_stopped) example_id) = Some TimedOut"
proof -
  let ?s = "modify_task example_id task_timeout example_started"
  let ?u = "task_timeout (new_task example_store example_options example_id 0)"
  let ?t = "task_complete 1000 7 example_completion ?u"
  have r1: "ts_reachable ?s" by (rule ts_reachable.step [OF example_reachable(2) ts_step.timer])
  have u: "map_of (ts_tasks ?s) example_id = Some ?u" using example_running(1) by (simp add: map_of_modify)
  have c: "\<not> t_settled ?u" "ts_ttlMs ?s = 1000" "t_requestedStop ?t = Some StopTimedOut" "t_state ?t \<noteq> Running"
    by code_simp+
  have r2: "ts_reachable example_stopped"
    using ts_reachable.step [OF r1 ts_step.complete [OF u c(1)]] c(2) by (simp add: example_stopped_def)
  have t: "map_of (ts_tasks example_stopped) example_id = Some ?t"
    using example_running(1) by (simp add: example_stopped_def map_of_modify)
  from stop_request_decides_outcome [OF r2 t c(3,4)] t show ?thesis by simp
qed

text \<open>
  C18: a start is accepted exactly when the store is not stopping, the timeout is a positive safe integer if there is one,
  the running tasks leave room under both limits, and one of the first eight identifiers is fresh, all those
  drawn up to it being well formed. Tasks that have ended never stand in the way of a new one. An accepted start
  adds exactly one task, the running one it announces, to the tasks that are kept, and these include every task
  that runs.
\<close>

theorem task_start_accepted_iff_room:
  assumes "ts_reachable s"
  shows "let (r, s') = ts_start s opts now startedAtMs createRunId; kept = kept_tasks now s in
    (is_ok r \<longleftrightarrow>
       \<not> ts_closing s \<and> timeout_accepted (so_timeoutMs opts)
       \<and> activeCount s < ts_maxConcurrentTasks s \<and> activeCount s < ts_maxRetainedTasks s
       \<and> (\<exists>i < 8. fresh_attempt createRunId kept i))
    \<and> (\<forall>runId. r = Inr runId \<longrightarrow>
         (\<exists>i < 8. fresh_attempt createRunId kept i \<and> runId = createRunId i)
         \<and> ts_tasks s' = kept @ [(runId, new_task s opts runId startedAtMs)])
    \<and> set kept \<subseteq> set (ts_tasks s) \<and> (\<forall>(k, t) \<in> set (ts_tasks s). is_running t \<longrightarrow> (k, t) \<in> set kept)"
proof -
  have inv: "ts_inv s" by (rule ts_reachable_inv [OF assms])
  obtain r s' where run: "ts_start s opts now startedAtMs createRunId = (r, s')" by force
  note iff = start_accepted_iff [OF inv, of opts now startedAtMs createRunId, unfolded run fst_conv snd_conv]
  have "is_ok r \<longleftrightarrow> (\<exists>k. r = Inr k)" by (cases r) simp_all
  then show ?thesis
    using iff kept_tasks_ok [OF inv, where now = now] by (auto simp: run Let_def)
qed

theorem task_start_accepted_iff_room_witness:
  "is_ok (fst (ts_start example_ended example_options 8 8 (\<lambda>i. if i = 0 then example_id else replicate 43 CHR ''b'')))
   \<and> \<not> is_ok (fst (ts_start example_started example_options 8 8 (\<lambda>_. replicate 43 CHR ''b'')))"
proof -
  let ?g = "\<lambda>i :: nat. if i = 0 then example_id else replicate 43 CHR ''b''"
  have ids: "opaque_reference example_id" "opaque_reference (replicate 43 CHR ''b'')"
    "\<not> Option.is_none (map_of (kept_tasks 8 example_ended) example_id)"
    "Option.is_none (map_of (kept_tasks 8 example_ended) (replicate 43 CHR ''b''))" by code_simp+
  then have first: "fresh_attempt ?g (kept_tasks 8 example_ended) (Suc 0)"
    by (simp add: fresh_attempt_def le_Suc_eq Option.is_none_def)
  have e: "timeout_accepted (so_timeoutMs example_options)"
    "\<not> ts_closing example_ended" "activeCount example_ended = 0" "ts_maxConcurrentTasks example_ended = 1"
    "ts_maxRetainedTasks example_ended = 2" "activeCount example_started = 1" "ts_maxConcurrentTasks example_started = 1"
    by code_simp+
  have ex: "\<exists>i < 8. fresh_attempt ?g (kept_tasks 8 example_ended) i" using first by (intro exI [of _ "Suc 0"]) simp
  note ended = task_start_accepted_iff_room [OF example_ended_reachable, where opts = example_options and now = 8
      and startedAtMs = 8 and createRunId = ?g, unfolded Let_def case_prod_unfold, THEN conjunct1]
    and started = task_start_accepted_iff_room [OF example_reachable(2), where opts = example_options and now = 8
      and startedAtMs = 8 and createRunId = "\<lambda>_. replicate 43 CHR ''b''", unfolded Let_def case_prod_unfold, THEN conjunct1]
  have "is_ok (fst (ts_start example_ended example_options 8 8 ?g))" unfolding ended e(3-5) using e(1,2) ex by simp
  moreover have "\<not> is_ok (fst (ts_start example_started example_options 8 8 (\<lambda>_. replicate 43 CHR ''b'')))"
    unfolding started e(6,7) by simp
  ultimately show ?thesis by blast
qed

text \<open>
  C19: cursors. A cursor made for a task and two offsets decodes to these offsets for the same
  task; for another task it is rejected as soon as the bindings of the two tasks differ.
  \<open>JSON.parse\<close> is assumed to read the text of a cursor as the object it was printed from, and
  the digest to be ASCII text.
\<close>

theorem cursor_roundtrip:
  assumes "ascii (sha256 (cursor_preimage runId out err))"
    and "is_safe_integer out" "0 \<le> out" "is_safe_integer err" "0 \<le> err"
    and "parse (cursor_text sha256 runId out err) = Some (JObject [(''v'', JInt 2), (''o'', JInt out),
       (''e'', JInt err), (''b'', JString (taskCursorBinding sha256 runId out err))])"
  shows "decodeCursor parse sha256 (encodeCursor sha256 runId out err) runId = Inr (out, err)
    \<and> (taskCursorBinding sha256 other out err \<noteq> taskCursorBinding sha256 runId out err \<longrightarrow>
        decodeCursor parse sha256 (encodeCursor sha256 runId out err) other = Inl invalidCursor)"
  using decode_encode_cursor [of sha256 runId out err parse] assms by simp

theorem cursor_roundtrip_witness:
  "decodeCursor (\<lambda>s. if s = cursor_text (\<lambda>x. take 43 (rev x)) ''run'' 5 0
       then Some (JObject [(''v'', JInt 2), (''o'', JInt 5), (''e'', JInt 0),
         (''b'', JString (taskCursorBinding (\<lambda>x. take 43 (rev x)) ''run'' 5 0))]) else None)
     (\<lambda>x. take 43 (rev x)) (encodeCursor (\<lambda>x. take 43 (rev x)) ''run'' 5 0) ''run'' = Inr (5, 0)"
proof -
  let ?h = "\<lambda>x. take 43 (rev x) :: string"
  let ?p = "\<lambda>s. if s = cursor_text ?h ''run'' 5 0
       then Some (JObject [(''v'', JInt 2), (''o'', JInt 5), (''e'', JInt 0),
         (''b'', JString (taskCursorBinding ?h ''run'' 5 0))]) else None"
  have a: "ascii (?h (cursor_preimage ''run'' 5 0))" by code_simp
  have n: "is_safe_integer 5" "(0::int) \<le> 5" "is_safe_integer 0" "(0::int) \<le> 0" by code_simp+
  have p: "?p (cursor_text ?h ''run'' 5 0) = Some (JObject [(''v'', JInt 2), (''o'', JInt 5),
       (''e'', JInt 0), (''b'', JString (taskCursorBinding ?h ''run'' 5 0))])" by simp
  show ?thesis using cursor_roundtrip [of ?h "''run''" 5 0 ?p, OF a n p] by blast
qed

lemma tail_cases:
  assumes "ts_tail parse sha256 now runId cursor limit s = (Inr r, s')"
  obtains t out err where "map_of (ts_tasks s') runId = Some t" "1 \<le> limit" "s' = ts_cleanup now s"
    "(case cursor of None \<Rightarrow> Inr (0, 0) | Some c \<Rightarrow> decodeCursor parse sha256 c runId) = Inr (out, err)"
    "rl_read (t_stdout t) out (nat limit) (t_state t \<noteq> Running) = Inr (tt_stdout r)"
    "rl_read (t_stderr t) err (nat limit) (t_state t \<noteq> Running) = Inr (tt_stderr r)"
    "tt_state r = t_state t"
    "tt_eof r \<longleftrightarrow> t_state t \<noteq> Running \<and> rl_totalBytes (t_stdout t) \<le> rp_nextOffset (tt_stdout r)
       \<and> rl_totalBytes (t_stderr t) \<le> rp_nextOffset (tt_stderr r)"
proof -
  obtain q s1 where q: "ts_require now runId s = (q, s1)" by force
  show ?thesis
  proof (cases q)
    case (Inl e)
    with assms q show ?thesis
      by (auto simp: ts_tail_def split: sum.splits)
  next
    case (Inr t)
    with ts_require_eq [OF q] have t: "map_of (ts_tasks s1) runId = Some t" "s1 = ts_cleanup now s" by auto
    from assms q Inr have lim: "1 \<le> limit" "s' = s1"
      by (auto simp: ts_tail_def requirePositiveInteger_def guard_else_def split: if_splits sum.splits)
    obtain out err where c: "(case cursor of None \<Rightarrow> Inr (0, 0) | Some c \<Rightarrow> decodeCursor parse sha256 c runId) = Inr (out, err)"
      using assms q Inr
      by (cases "case cursor of None \<Rightarrow> Inr (0, 0) | Some c \<Rightarrow> decodeCursor parse sha256 c runId")
        (auto simp: ts_tail_def split: sum.splits)
    show ?thesis
      using assms q Inr lim t c that
      by (auto simp: ts_tail_def Let_def and_then_eq_Inr split: sum.splits)
  qed
qed

text \<open>
  C20: tailing an ended task makes progress until the end. A successful \<open>tail\<close> of a task that is no longer
  running starts at the offsets \<open>out\<close> and \<open>err\<close> that the presented cursor holds; the offsets it reports next are never
  before these and never after the end of the streams, and they are what the new cursor is made of, so that decoding it
  gives them. Either both are the ends of the streams, which is reported, or at least one is strictly past
  the presented offset. So the number of bytes left, \<open>(total out - out) + (total err - err)\<close>, falls with every page.
\<close>

theorem tail_of_ended_task_progresses:
  assumes "ts_reachable s" "ts_tail parse sha256 now runId cursor limit s = (Inr r, s')" "tt_state r \<noteq> Running"
  shows "\<exists>out err. (case cursor of None \<Rightarrow> Inr (0, 0) | Some c \<Rightarrow> decodeCursor parse sha256 c runId) = Inr (out, err)
    \<and> 0 \<le> out \<and> out \<le> int (rp_nextOffset (tt_stdout r)) \<and> rp_nextOffset (tt_stdout r) \<le> tt_stdoutTotal r
    \<and> 0 \<le> err \<and> err \<le> int (rp_nextOffset (tt_stderr r)) \<and> rp_nextOffset (tt_stderr r) \<le> tt_stderrTotal r
    \<and> tt_nextCursor r = encodeCursor sha256 runId (int (rp_nextOffset (tt_stdout r))) (int (rp_nextOffset (tt_stderr r)))
    \<and> (if tt_eof r then rp_nextOffset (tt_stdout r) = tt_stdoutTotal r \<and> rp_nextOffset (tt_stderr r) = tt_stderrTotal r
       else out < int (rp_nextOffset (tt_stdout r)) \<or> err < int (rp_nextOffset (tt_stderr r)))"
proof -
  from assms(2) obtain t out err where t: "map_of (ts_tasks s') runId = Some t" "1 \<le> limit" "s' = ts_cleanup now s"
    "(case cursor of None \<Rightarrow> Inr (0, 0) | Some c \<Rightarrow> decodeCursor parse sha256 c runId) = Inr (out, err)"
    "rl_read (t_stdout t) out (nat limit) (t_state t \<noteq> Running) = Inr (tt_stdout r)"
    "rl_read (t_stderr t) err (nat limit) (t_state t \<noteq> Running) = Inr (tt_stderr r)"
    "tt_state r = t_state t" "tt_eof r \<longleftrightarrow> t_state t \<noteq> Running \<and> rl_totalBytes (t_stdout t) \<le> rp_nextOffset (tt_stdout r)
       \<and> rl_totalBytes (t_stderr t) \<le> rp_nextOffset (tt_stderr r)"
    by (rule tail_cases)
  have tot: "tt_stdoutTotal r = rl_totalBytes (t_stdout t)" "tt_stderrTotal r = rl_totalBytes (t_stderr t)"
    "tt_nextCursor r = encodeCursor sha256 runId (int (rp_nextOffset (tt_stdout r))) (int (rp_nextOffset (tt_stderr r)))"
    using assms(2) ts_require_eq [of now runId s] t(1,3)
    by (auto simp: ts_tail_def Let_def and_then_eq_Inr split: sum.splits prod.splits)
  have "ts_inv s'" using ts_inv_cleanup [OF ts_reachable_inv [OF assms(1)]] t(3) by simp
  from ts_inv_task [OF this t(1)] obtain v w where w: "log_of v (t_stdout t)" "log_of w (t_stderr t)"
    by (auto simp: task_ok_def log_ok_def)
  have pos: "0 < nat limit" using t(2) by simp
  have page: "0 \<le> off \<and> off \<le> int (rp_nextOffset p) \<and> rp_nextOffset p \<le> rl_totalBytes log
      \<and> (rp_nextOffset p = rl_totalBytes log \<or> off < int (rp_nextOffset p))"
    if "log_of u log" "rl_read log off (nat limit) True = Inr p" for u log off p
  proof -
    note sp = rl_read_spec [OF that pos]
    have len: "rl_totalBytes log = length u" using that(1) by (simp add: log_of_def)
    show ?thesis
    proof (cases "nat off < length u")
      case True
      from sp(1) have "rl_read log (int (nat off)) (nat limit) True = Inr p" using that(2) by simp
      from rl_read_progress [OF that(1) this pos True] have "off < int (rp_nextOffset p)" using sp(1) by linarith
      with sp(1,5) len show ?thesis by simp
    next
      case False
      have "nat off \<le> rp_nextOffset p" using sp(4) by simp
      with False sp(1,2,5) len show ?thesis by simp
    qed
  qed
  have run: "t_state t \<noteq> Running" using assms(3) t(7) by simp
  with t(5,6) have rd: "rl_read (t_stdout t) out (nat limit) True = Inr (tt_stdout r)"
    "rl_read (t_stderr t) err (nat limit) True = Inr (tt_stderr r)" by simp_all
  show ?thesis
    using page [OF w(1) rd(1)] page [OF w(2) rd(2)] t(4,8) tot run by (intro exI [of _ out] exI [of _ err]) auto
qed

definition example_output :: task_store where
  "example_output =
     modify_task example_id (task_complete 1000 7 example_completion)
       (modify_task example_id (task_append Stdout [0x68, 0x69] 3) example_started)"

lemma example_output_reachable: "ts_reachable example_output"
proof -
  let ?s = "modify_task example_id (task_append Stdout [0x68, 0x69] 3) example_started"
  let ?u = "task_append Stdout [0x68, 0x69] 3 (new_task example_store example_options example_id 0)"
  have r1: "ts_reachable ?s" by (rule ts_reachable.step [OF example_reachable(2) ts_step.append])
  have u: "map_of (ts_tasks ?s) example_id = Some ?u" using example_running(1) by (simp add: map_of_modify)
  have c: "\<not> t_settled ?u" "ts_ttlMs ?s = 1000" by code_simp+
  show ?thesis
    using ts_reachable.step [OF r1 ts_step.complete [OF u c(1)]] c(2) by (simp add: example_output_def)
qed

theorem tail_of_ended_task_progresses_witness:
  "\<exists>r s'. ts_tail (\<lambda>_. None) (\<lambda>x. x) 8 example_id None 1 example_output = (Inr r, s') \<and> \<not> tt_eof r
     \<and> (0 < rp_nextOffset (tt_stdout r) \<or> 0 < rp_nextOffset (tt_stderr r))"
proof -
  have c: "case ts_tail (\<lambda>_. None) (\<lambda>x. x) 8 example_id None 1 example_output of
      (Inr r, s') \<Rightarrow> tt_state r \<noteq> Running \<and> \<not> tt_eof r | _ \<Rightarrow> False" by code_simp
  then obtain r s' where r: "ts_tail (\<lambda>_. None) (\<lambda>x. x) 8 example_id None 1 example_output = (Inr r, s')"
    "tt_state r \<noteq> Running" "\<not> tt_eof r"
    by (auto split: prod.splits sum.splits)
  from tail_of_ended_task_progresses [OF example_output_reachable r(1,2)] r show ?thesis by auto
qed

end
