(* ===== verification/JsonText.thy ===== *)
theory JsonText
  imports Protocol
begin

text \<open>
  \<open>JSON.stringify\<close>, as the execution service uses it for audit payloads and the pipe server for its
  frames, and that the text it makes is a single line.
\<close>

section \<open>Printing\<close>

text \<open>\<open>JSON.stringify\<close> of a string: the two-character escapes, and \<open>\u00XX\<close> for other control characters.\<close>

definition json_escape :: "char \<Rightarrow> string" where
  "json_escape c =
     (if c = dquote_char \<or> c = backslash then [backslash, c]
      else if c = CHR 0x08 then [backslash, CHR ''b'']
      else if c = CHR 0x09 then [backslash, CHR ''t'']
      else if c = newline then [backslash, CHR ''n'']
      else if c = CHR 0x0C then [backslash, CHR ''f'']
      else if c = return_char then [backslash, CHR ''r'']
      else if of_char c < (32 :: nat) then [backslash] @ ''u00'' @ hex [of_char c]
      else [c])"

definition json_quote :: "string \<Rightarrow> string" where
  "json_quote s = [dquote_char] @ concat (map json_escape s) @ [dquote_char]"

definition json_member :: "string \<times> string \<Rightarrow> string" where
  "json_member member = json_quote (fst member) @ '':'' @ snd member"

definition json_object :: "(string \<times> string) list \<Rightarrow> string" where
  "json_object members = ''{'' @ join_with '','' (map json_member members) @ ''}''"

text \<open>
  \<open>JSON.stringify\<close> of a value. The numbers the gateway prints are integers: durations are rounded and the
  parameters of an operation pass a schema, so the last equation is never used.
\<close>

fun json_value :: "json \<Rightarrow> string" where
  "json_value JNull = ''null''"
| "json_value (JBool b) = (if b then ''true'' else ''false'')"
| "json_value (JInt n) = show_int n"
| "json_value (JString s) = json_quote s"
| "json_value (JArray js) = ''['' @ join_with '','' (map json_value js) @ '']''"
| "json_value (JObject ms) = ''{'' @ join_with '','' (map (\<lambda>(k, j). json_quote k @ '':'' @ json_value j) ms) @ ''}''"
| "json_value JFraction = ''null''"

section \<open>One line\<close>

definition no_controls :: "string \<Rightarrow> bool" where
  "no_controls s \<longleftrightarrow> list_all (\<lambda>c. (32 :: nat) \<le> of_char c) s"

lemma no_controls_append [simp]: "no_controls (s @ t) \<longleftrightarrow> no_controls s \<and> no_controls t" "no_controls []"
  "no_controls (c # s) \<longleftrightarrow> (32 :: nat) \<le> of_char c \<and> no_controls s"
  by (simp_all add: no_controls_def)

lemma no_controls_concat: "no_controls (concat ss) \<longleftrightarrow> list_all no_controls ss"
  by (induction ss) simp_all

lemma no_controls_joined: "no_controls sep \<Longrightarrow> list_all no_controls ss \<Longrightarrow> no_controls (join_with sep ss)"
  by (induction sep ss rule: join_with.induct) simp_all

lemma hex_digit_code: "n < 16 \<Longrightarrow> (32 :: nat) \<le> of_char (hex_digit n)"
  by (simp add: hex_digit_def)

lemma no_controls_hex: "no_controls (hex bs)"
proof -
  have "no_controls [hex_digit (unat b div 16), hex_digit (unat b mod 16)]" for b :: byte
    using hex_digit_code [of "unat b div 16"] hex_digit_code [of "unat b mod 16"] unsigned_less [of b, where 'a = nat] by simp
  then show ?thesis by (simp add: hex_def no_controls_concat list_all_iff)
qed

lemma no_controls_escape: "no_controls (json_escape c)"
  by (auto simp: json_escape_def no_controls_hex not_less)

lemma no_controls_quote: "no_controls (json_quote s)"
  by (simp add: json_quote_def no_controls_concat list_all_iff no_controls_escape)

lemma no_controls_show_nat: "no_controls (show_nat n)"
proof (induction n rule: show_nat.induct)
  case (1 n)
  have "(32 :: nat) \<le> of_char (digit_char d)" if "d < 10" for d using that by (simp add: digit_char_def)
  with 1 show ?case by (subst show_nat.simps) simp
qed

lemma no_controls_json: "no_controls (json_value j)"
proof (induction j)
  case (JInt n)
  show ?case by (simp add: show_int_def no_controls_show_nat)
next
  case (JString s)
  show ?case by (simp add: no_controls_quote)
next
  case (JArray js)
  then have "no_controls (join_with '','' (map json_value js))" by (intro no_controls_joined) (simp_all add: list_all_iff)
  then show ?case by simp
next
  case (JObject ms)
  then have "no_controls (join_with '','' (map (\<lambda>(k, j). json_quote k @ '':'' @ json_value j) ms))"
    by (intro no_controls_joined) (auto simp: list_all_iff no_controls_quote)
  then show ?case by simp
qed simp_all

lemma json_single_line: "newline \<notin> set (json_value j)"
  using no_controls_json [of j] by (auto simp: no_controls_def list_all_iff)

end
