(* ===== verification/ExecService.thy ===== *)
theory ExecService
  imports ExecCore TaskStore JsonText
begin

text \<open>
  The class \<open>ExecService\<close> of \<^verbatim>\<open>src/src/core/exec-service.ts\<close>: admission of executions, cancellation, tasks, configuration
  reloads and shutdown, over the executions of \<open>Execution\<close>, the registry, the output store and the task store.

  \<open>exec_service\<close> is the object. Its methods are functions; what happens when an awaited call settles is a step of
  the relation \<open>es_step\<close>. The closures the code hands to the task store and to the executor are
  state: \<open>es_workers\<close> are the workers of exec tasks, \<open>es_deliveries\<close> the chunks a task log has yet to observe. A reload lease is
  its position in \<open>es_leases\<close>, which is also the identity of its token object. Executors and
  host key inspectors are known by a number.
\<close>

section \<open>State\<close>

record generation =
  gn_registry :: target_registry
  gn_executor :: nat
  gn_hostKeyInspector :: "nat option"

record reload_lease =
  le_settled :: bool
  le_committed :: bool

datatype worker =
    WorkerWaiting string execution_work \<comment> \<open>not called yet; the target and the prepared execution\<close>
  | WorkerRunning \<comment> \<open>awaits its execution\<close>
  | WorkerReturned "thrown + execution_end"

record exec_service =
  es_generation :: generation
  es_outputStore :: output_store
  es_audit :: "audit_event list"
  es_maxConcurrentExecutions :: int
  es_taskStore :: task_store
  es_ownsTaskStore :: bool
  es_activeBySession :: "(string, (request_id, active_execution) jsmap) jsmap"
  es_reloadToken :: "nat option"
  es_leases :: "reload_lease list"
  es_activeCount :: int
  es_closing :: bool
  es_workers :: "(string, worker) jsmap"
  es_deliveries :: "(string \<times> out_stream \<times> bytes) list"

definition new_exec_service ::
  "generation \<Rightarrow> output_store \<Rightarrow> int \<Rightarrow> task_store option \<Rightarrow> thrown + exec_service" where
  "new_exec_service gen outputStore maxConcurrentExecutions taskStore =
     and_then (guard_else (is_safe_integer maxConcurrentExecutions \<and> \<not> maxConcurrentExecutions < 1)
       (RangeError ''maxConcurrentExecutions must be a positive integer'')) (\<lambda>_.
     and_then (case taskStore of Some ts \<Rightarrow> Inr ts | None \<Rightarrow> new_task_store (15 * 60000) 1024 maxConcurrentExecutions None) (\<lambda>tasks.
     Inr \<lparr>es_generation = gen, es_outputStore = outputStore, es_audit = [],
          es_maxConcurrentExecutions = maxConcurrentExecutions,
          es_taskStore = tasks, es_ownsTaskStore = (taskStore = None),
          es_activeBySession = [], es_reloadToken = None, es_leases = [], es_activeCount = 0,
          es_closing = False, es_workers = [], es_deliveries = []\<rparr>))"

section \<open>The table of executions\<close>

definition es_lookup :: "exec_service \<Rightarrow> string \<Rightarrow> request_id \<Rightarrow> active_execution option" where
  "es_lookup s sessionId requestId =
     Option.bind (map_of (es_activeBySession s) sessionId) (\<lambda>executions. map_of executions requestId)"

text \<open>A change to the object that an entry of the table refers to.\<close>

definition put_execution :: "string \<Rightarrow> request_id \<Rightarrow> active_execution \<Rightarrow> exec_service \<Rightarrow> exec_service" where
  "put_execution sessionId requestId ax s =
     (case map_of (es_activeBySession s) sessionId of
        None \<Rightarrow> s
      | Some executions \<Rightarrow>
          s\<lparr>es_activeBySession := AList.update sessionId (AList.update requestId ax executions) (es_activeBySession s)\<rparr>)"

definition limit_reached :: "exec_service \<Rightarrow> thrown" where
  "limit_reached s = gateway_with ExecutionLimitReached ''Execution concurrency limit reached''
     [(''maximum'', DNumber (es_maxConcurrentExecutions s))]"

text \<open>The admission that \<open>#startExecution\<close> and \<open>#runFixedExecution\<close> share; \<open>executionId\<close> is the random UUID.\<close>

definition startExecution ::
  "string \<Rightarrow> request_id \<Rightarrow> string \<Rightarrow> string \<Rightarrow> execution_work \<Rightarrow> exec_service \<Rightarrow> (thrown + unit) \<times> exec_service" where
  "startExecution sessionId requestId executionId target work s =
     (if es_activeCount s \<ge> es_maxConcurrentExecutions s then (Inl (limit_reached s), s)
      else
        let (sessionExecutions, s1) =
          (case map_of (es_activeBySession s) sessionId of
             Some executions \<Rightarrow> (executions, s)
           | None \<Rightarrow> ([], s\<lparr>es_activeBySession := AList.update sessionId [] (es_activeBySession s)\<rparr>)) in
        if map_of sessionExecutions requestId \<noteq> None
        then (Inl (gateway InvalidParams ''Request ID is already executing in this session''), s1)
        else (Inr (), (put_execution sessionId requestId (new_execution requestId executionId target work) s1)
               \<lparr>es_activeCount := es_activeCount s1 + 1\<rparr>))"

definition removeExecution :: "string \<Rightarrow> request_id \<Rightarrow> exec_service \<Rightarrow> exec_service" where
  "removeExecution sessionId requestId s =
     (case map_of (es_activeBySession s) sessionId of
        None \<Rightarrow> s
      | Some executions \<Rightarrow>
          let rest = AList.delete requestId executions in
          s\<lparr>es_activeCount := (if map_of executions requestId \<noteq> None then es_activeCount s - 1 else es_activeCount s),
            es_activeBySession := (if rest = [] then AList.delete sessionId (es_activeBySession s)
                                   else AList.update sessionId rest (es_activeBySession s))\<rparr>)"

section \<open>Stopping\<close>

definition es_cancel :: "string \<Rightarrow> request_id \<Rightarrow> exec_service \<Rightarrow> bool \<times> exec_service" where
  "es_cancel sessionId requestId s =
     (case es_lookup s sessionId requestId of
        None \<Rightarrow> (False, s)
      | Some ax \<Rightarrow>
          if \<not> ax_acceptingCancellation ax then (False, s)
          else (True, put_execution sessionId requestId (requestStop StopCancel ax) s))"

definition stop_all :: "(request_id, active_execution) jsmap \<Rightarrow> (request_id, active_execution) jsmap" where
  "stop_all executions =
     map (\<lambda>(k, ax). (k, if ax_acceptingCancellation ax then requestStop StopCancel ax else ax)) executions"

definition es_disconnect :: "string \<Rightarrow> exec_service \<Rightarrow> exec_service" where
  "es_disconnect sessionId s =
     s\<lparr>es_activeBySession :=
        map (\<lambda>(k, m). (k, if k = sessionId then stop_all m else m)) (es_activeBySession s)\<rparr>"

definition task_aborted :: "string \<Rightarrow> task_store \<Rightarrow> bool" where
  "task_aborted runId ts = (case map_of (ts_tasks ts) runId of None \<Rightarrow> False | Some t \<Rightarrow> t_aborted t)"

definition worker_session :: "string \<Rightarrow> string" where
  "worker_session runId = ''task:'' @ runId"

text \<open>
  The \<open>abort\<close> listeners of the workers run at once when the task store aborts a task: each cancels the execution of
  its worker.
\<close>

definition abort_fires :: "task_store \<Rightarrow> task_store \<Rightarrow> string \<times> worker \<Rightarrow> bool" where
  "abort_fires before after entry =
     (case entry of (runId, w) \<Rightarrow>
       (case w of WorkerWaiting _ _ \<Rightarrow> False | _ \<Rightarrow> \<not> task_aborted runId before \<and> task_aborted runId after))"

definition set_tasks :: "task_store \<Rightarrow> exec_service \<Rightarrow> exec_service" where
  "set_tasks tasks s =
     fold (\<lambda>(runId, _) s. snd (es_cancel (worker_session runId) (StringId runId) s))
       (filter (abort_fires (es_taskStore s) tasks) (es_workers s)) (s\<lparr>es_taskStore := tasks\<rparr>)"

text \<open>
  \<open>shutdown\<close> up to its first \<open>await\<close>, and the loop over the executions that follows at once when the task store
  belongs to somebody else.
\<close>

definition stop_executions :: "exec_service \<Rightarrow> exec_service" where
  "stop_executions s = s\<lparr>es_activeBySession := map (\<lambda>(k, m). (k, stop_all m)) (es_activeBySession s)\<rparr>"

definition es_shutdown :: "exec_service \<Rightarrow> exec_service" where
  "es_shutdown s =
     (let s1 = s\<lparr>es_closing := True, es_reloadToken := None\<rparr> in
      if es_ownsTaskStore s1 then set_tasks (ts_shutdown (es_taskStore s1)) s1 else stop_executions s1)"

section \<open>Reloading\<close>

definition assertExecutionAvailable :: "exec_service \<Rightarrow> thrown + unit" where
  "assertExecutionAvailable s =
     (if es_closing s then Inl (gateway ExecutionLimitReached ''Gateway is stopping'')
      else if es_reloadToken s \<noteq> None then Inl (gateway ExecutionLimitReached ''Gateway configuration is reloading'')
      else Inr ())"

definition work_active :: "exec_service \<Rightarrow> bool" where
  "work_active s \<longleftrightarrow> es_activeCount s \<noteq> 0 \<or> activeCount (es_taskStore s) \<noteq> 0"

definition service_closing :: thrown where
  "service_closing = ReloadError ServiceClosing ''Gateway configuration cannot reload while the service is stopping''"

definition executions_active :: thrown where
  "executions_active = ReloadError ActiveExecutions ''Gateway configuration cannot reload while executions are active''"

definition beginReload :: "exec_service \<Rightarrow> (thrown + nat) \<times> exec_service" where
  "beginReload s =
     (if es_closing s then (Inl service_closing, s)
      else if es_reloadToken s \<noteq> None
      then (Inl (ReloadError ReloadInProgress ''Gateway configuration reload is already in progress''), s)
      else if work_active s then (Inl executions_active, s)
      else let token = length (es_leases s) in
        (Inr token, s\<lparr>es_reloadToken := Some token,
           es_leases := es_leases s @ [\<lparr>le_settled = False, le_committed = False\<rparr>]\<rparr>))"

definition lease_settle :: "nat \<Rightarrow> exec_service \<Rightarrow> exec_service" where
  "lease_settle token s =
     (if le_settled (es_leases s ! token) then s
      else s\<lparr>es_leases := (es_leases s)[token := (es_leases s ! token)\<lparr>le_settled := True\<rparr>],
             es_reloadToken := (if es_reloadToken s = Some token then None else es_reloadToken s)\<rparr>)"

definition lease_commit :: "nat \<Rightarrow> generation \<Rightarrow> exec_service \<Rightarrow> (thrown + unit) \<times> exec_service" where
  "lease_commit token gen s =
     (let lease = es_leases s ! token in
      if le_settled lease \<or> le_committed lease \<or> es_reloadToken s \<noteq> Some token
      then (Inl (PlainError ''Gateway configuration reload lease is no longer active''), s)
      else if es_closing s then (Inl service_closing, lease_settle token s)
      else if work_active s then (Inl executions_active, lease_settle token s)
      else (Inr (), s\<lparr>es_generation := gen,
              es_leases := (es_leases s)[token := lease\<lparr>le_committed := True\<rparr>]\<rparr>))"

definition updateMetadata :: "json \<Rightarrow> exec_service \<Rightarrow> (thrown + target_registry) \<times> exec_service" where
  "updateMetadata metadata s =
     (if es_closing s
      then (Inl (ReloadError ServiceClosing ''Gateway metadata cannot update while the service is stopping''), s)
      else if es_reloadToken s \<noteq> None
      then (Inl (ReloadError ReloadInProgress ''Gateway configuration reload is already in progress''), s)
      else case withMetadata (gn_registry (es_generation s)) metadata of
        Inl e \<Rightarrow> (Inl e, s)
      | Inr registry \<Rightarrow> (Inr registry, s\<lparr>es_generation := (es_generation s)\<lparr>gn_registry := registry\<rparr>\<rparr>))"

definition removeTargets ::
  "string list \<Rightarrow> json option \<Rightarrow> exec_service \<Rightarrow> (thrown + (target_registry \<times> string list)) \<times> exec_service" where
  "removeTargets aliases metadata s =
     (case beginReload s of
        (Inl e, s1) \<Rightarrow> (Inl e, s1)
      | (Inr token, s1) \<Rightarrow>
          let cur = es_generation s1 in
          (case and_then (sshAliasesForRemoval (gn_registry cur) aliases) (\<lambda>sshAliases.
                and_then (withoutTargets (gn_registry cur) aliases) (\<lambda>registry.
                and_then (case metadata of None \<Rightarrow> Inr registry | Some m \<Rightarrow> withMetadata registry m) (\<lambda>registry.
                Inr (registry, sshAliases)))) of
             Inl e \<Rightarrow> (Inl e, lease_settle token s1)
           | Inr (registry, sshAliases) \<Rightarrow>
               (case lease_commit token (cur\<lparr>gn_registry := registry\<rparr>) s1 of
                  (Inl e, s2) \<Rightarrow> (Inl e, lease_settle token s2)
                | (Inr _, s2) \<Rightarrow> (Inr (registry, sshAliases), lease_settle token s2))))"

section \<open>Starting executions\<close>

text \<open>
  The entries of \<open>env\<close> are sorted by name. A name that is not an identifier, for which the order of the members of an
  object could differ, is refused by \<open>prepareStructuredRemoteCommand\<close> before the payload is used.
\<close>

definition canonicalStructuredPayload :: "structured_input \<Rightarrow> string" where
  "canonicalStructuredPayload params =
     json_object
       ([(''type'', json_quote ''agent-ssh-structured-v1''),
         (''shell'', json_quote (shell_name (si_shell params))),
         (''script'', json_quote (si_script params)),
         (''cwd'', case si_cwd params of None \<Rightarrow> ''null'' | Some cwd \<Rightarrow> json_quote cwd),
         (''env'', json_object (map (\<lambda>(name, val). (name, json_quote val))
            (sort_key fst (case si_env params of None \<Rightarrow> [] | Some env \<Rightarrow> env))))]
        @ (case si_encoding params of None \<Rightarrow> [] | Some encoding \<Rightarrow> [(''encoding'', json_quote encoding)]))"

text \<open>The parameters of \<open>exec.run\<close> and \<open>task.start\<close>: a command, or a structured script.\<close>

datatype run_command = RunCommand string | RunScript structured_input

record run_params =
  rp_target :: string
  rp_command :: run_command
  rp_timeoutMs :: "int option"

definition prepared_work :: "generation \<Rightarrow> target_authorization \<Rightarrow> string \<Rightarrow> prepared_command \<Rightarrow> execution_work" where
  "prepared_work gen authorization command remoteCommand =
     \<lparr>wk_authorization = authorization, wk_payload = command, wk_remoteCommand = remoteCommand,
      wk_executor = gn_executor gen, wk_observer = None, wk_maximumOutputBytes = None, wk_probe = None\<rparr>"

definition prepareRun :: "run_params \<Rightarrow> exec_service \<Rightarrow> thrown + execution_work" where
  "prepareRun params s =
     and_then (assertExecutionAvailable s) (\<lambda>_.
     let gen = es_generation s in
     case rp_command params of
       RunCommand command \<Rightarrow>
         and_then (authorize (gn_registry gen) (rp_target params) command (rp_timeoutMs params)) (\<lambda>authorization.
         and_then (prepareRemoteCommand (rt_platform (ta_target authorization)) command) (\<lambda>remoteCommand.
         Inr (prepared_work gen authorization command remoteCommand)))
     | RunScript script \<Rightarrow>
         and_then (authorizeStructured (gn_registry gen) (rp_target params) (rp_timeoutMs params)) (\<lambda>authorization.
         and_then (prepareStructuredRemoteCommand (rt_platform (ta_target authorization)) script) (\<lambda>remoteCommand.
         Inr (prepared_work gen authorization (canonicalStructuredPayload script) remoteCommand))))"

definition es_run ::
  "string \<Rightarrow> request_id \<Rightarrow> string \<Rightarrow> run_params \<Rightarrow> exec_service \<Rightarrow> (thrown + unit) \<times> exec_service" where
  "es_run sessionId requestId executionId params s =
     (case prepareRun params s of
        Inl e \<Rightarrow> (Inl e, s)
      | Inr work \<Rightarrow> startExecution sessionId requestId executionId (rp_target params) work s)"

definition TARGET_CHECK_COMMAND :: string where "TARGET_CHECK_COMMAND = ''hostname''"

definition es_check :: "string \<Rightarrow> request_id \<Rightarrow> string \<Rightarrow> string \<Rightarrow> exec_service \<Rightarrow> (thrown + unit) \<times> exec_service" where
  "es_check sessionId requestId executionId target s =
     (case and_then (assertExecutionAvailable s) (\<lambda>_.
           and_then (authorizeCheck (gn_registry (es_generation s)) target) (\<lambda>authorization.
           and_then (prepareRemoteCommand (rt_platform (ta_target authorization)) TARGET_CHECK_COMMAND) (\<lambda>remoteCommand.
           Inr (prepared_work (es_generation s) authorization TARGET_CHECK_COMMAND remoteCommand)))) of
        Inl e \<Rightarrow> (Inl e, s)
      | Inr work \<Rightarrow> startExecution sessionId requestId executionId target work s)"

definition MAX_PRESET_OUTPUT_BYTES :: int where "MAX_PRESET_OUTPUT_BYTES = 256 * 1024"

definition runOperation ::
  "string \<Rightarrow> request_id \<Rightarrow> string \<Rightarrow> string \<Rightarrow> operation_id \<Rightarrow> (string \<times> json) list \<Rightarrow> int option \<Rightarrow> exec_service
    \<Rightarrow> (thrown + unit) \<times> exec_service" where
  "runOperation sessionId requestId executionId target operation parameters timeoutMs s =
     (let request = JObject [(''operation'', JString (operation_name operation)), (''parameters'', JObject parameters)] in
      case and_then (assertExecutionAvailable s) (\<lambda>_.
           and_then (authorizeOperation (gn_registry (es_generation s)) target request timeoutMs) (\<lambda>(authorization, command).
           and_then (prepareStructuredRemoteCommand (rt_platform (ta_target authorization))
               \<lparr>si_shell = pr_shell command, si_script = pr_script command, si_cwd = None, si_env = None,
                si_encoding = Some (pr_encoding command)\<rparr>) (\<lambda>remoteCommand.
           Inr (authorization, (prepared_work (es_generation s) authorization (json_value request) remoteCommand)
             \<lparr>wk_maximumOutputBytes := Some MAX_PRESET_OUTPUT_BYTES\<rparr>)))) of
        Inl e \<Rightarrow> (Inl e, s)
      | Inr (authorization, work) \<Rightarrow>
          startExecution sessionId requestId executionId (rt_alias (ta_target authorization)) work s)"

text \<open>\<open>#runFixedExecution\<close> after the checks of its callers: a probe is a command with its input and an output limit.\<close>

definition runFixedExecution ::
  "string \<Rightarrow> request_id \<Rightarrow> string \<Rightarrow> string \<Rightarrow> target_authorization \<Rightarrow> probe_kind \<Rightarrow> prepared_command \<Rightarrow> int \<Rightarrow> exec_service
    \<Rightarrow> (thrown + unit) \<times> exec_service" where
  "runFixedExecution sessionId requestId executionId target authorization kind probe maxOutputBytes s =
     startExecution sessionId requestId executionId target
       ((prepared_work (es_generation s) authorization [] probe)\<lparr>wk_probe := Some (kind, maxOutputBytes)\<rparr>) s"

section \<open>Tasks\<close>

text \<open>\<open>createRunId\<close>, \<open>now\<close> and \<open>startedAtMs\<close> are those of the task store.\<close>

definition es_startTask ::
  "int \<Rightarrow> int \<Rightarrow> (nat \<Rightarrow> string) \<Rightarrow> run_params \<Rightarrow> exec_service \<Rightarrow> (thrown + string) \<times> exec_service" where
  "es_startTask now startedAtMs createRunId params s =
     (case prepareRun params s of
        Inl e \<Rightarrow> (Inl e, s)
      | Inr work \<Rightarrow>
          (case ts_start (es_taskStore s) \<lparr>so_kind = ExecTask, so_target = rp_target params, so_timeoutMs = None\<rparr>
              now startedAtMs createRunId of
             (Inl e, tasks) \<Rightarrow> (Inl e, set_tasks tasks s)
           | (Inr runId, tasks) \<Rightarrow>
               (Inr runId, (set_tasks tasks s)\<lparr>es_workers := AList.update runId (WorkerWaiting (rp_target params) work) (es_workers s)\<rparr>)))"

definition es_taskStatus :: "int \<Rightarrow> int \<Rightarrow> string \<Rightarrow> exec_service \<Rightarrow> (thrown + task_status) \<times> exec_service" where
  "es_taskStatus nowCleanup now runId s =
     (case ts_status nowCleanup now runId (es_taskStore s) of (r, tasks) \<Rightarrow> (r, set_tasks tasks s))"

definition es_taskTail ::
  "(string \<Rightarrow> json option) \<Rightarrow> (string \<Rightarrow> string) \<Rightarrow> int \<Rightarrow> string \<Rightarrow> string option \<Rightarrow> int \<Rightarrow> exec_service
    \<Rightarrow> (thrown + task_tail) \<times> exec_service" where
  "es_taskTail parse sha now runId cursor limit s =
     (case ts_tail parse sha now runId cursor limit (es_taskStore s) of (r, tasks) \<Rightarrow> (r, set_tasks tasks s))"

definition es_cancelTask :: "int \<Rightarrow> string \<Rightarrow> exec_service \<Rightarrow> (thrown + (bool \<times> task_state)) \<times> exec_service" where
  "es_cancelTask now runId s =
     (case ts_cancel now runId (es_taskStore s) of (r, tasks) \<Rightarrow> (r, set_tasks tasks s))"

text \<open>The worker up to \<open>await execution\<close>, called by the task store in a later turn.\<close>

definition begin_worker :: "string \<Rightarrow> string \<Rightarrow> exec_service \<Rightarrow> exec_service" where
  "begin_worker runId executionId s =
     (case map_of (es_workers s) runId of
        Some (WorkerWaiting target work) \<Rightarrow>
          let (r, s1) = startExecution (worker_session runId) (StringId runId) executionId target
                (work\<lparr>wk_observer := Some runId\<rparr>) s;
              s2 = (if task_aborted runId (es_taskStore s1)
                    then snd (es_cancel (worker_session runId) (StringId runId) s1) else s1) in
          s2\<lparr>es_workers := AList.update runId
            (case r of Inl e \<Rightarrow> WorkerReturned (Inl e) | Inr _ \<Rightarrow> WorkerRunning) (es_workers s2)\<rparr>
      | _ \<Rightarrow> s)"

text \<open>The object the worker returns; \<open>outputExpiresAt\<close> is in milliseconds here and an ISO text in the code.\<close>

definition worker_value :: "exec_result \<Rightarrow> task_completion" where
  "worker_value result =
     \<lparr>tc_termination = Some (er_termination result), tc_exitCode = Some (er_exitCode result),
      tc_result = Some ([(''durationMs'', DNumber (er_durationMs result)),
          (''stdoutBytes'', DNumber (sm_bytes (er_stdout result))), (''stderrBytes'', DNumber (sm_bytes (er_stderr result)))]
        @ (case er_outputRef result of
             None \<Rightarrow> []
           | Some r \<Rightarrow> [(''outputRef'', DString r)]
               @ (case er_outputExpiresAt result of None \<Rightarrow> [] | Some t \<Rightarrow> [(''outputExpiresAt'', DNumber t)])))\<rparr>"

text \<open>The worker after the execution has settled, with the completion handlers of the task store.\<close>

definition worker_done :: "int \<Rightarrow> string \<Rightarrow> exec_service \<Rightarrow> exec_service" where
  "worker_done now runId s =
     (case map_of (es_workers s) runId of
        Some (WorkerReturned r) \<Rightarrow>
          let ttl = ts_ttlMs (es_taskStore s) in
          (set_tasks (modify_task runId
             (case r of
                Inl e \<Rightarrow> task_fail ttl now e
              | Inr (Executed result _) \<Rightarrow> task_complete ttl now (worker_value result)
              | Inr (Probed _) \<Rightarrow> id) (es_taskStore s)) s)
           \<lparr>es_workers := AList.delete runId (es_workers s)\<rparr>
      | _ \<Rightarrow> s)"

text \<open>The \<open>finally\<close> callback of an execution; the worker of a task learns the result.\<close>

definition finish_execution :: "string \<Rightarrow> request_id \<Rightarrow> thrown + execution_end \<Rightarrow> active_execution \<Rightarrow> exec_service \<Rightarrow> exec_service" where
  "finish_execution sessionId requestId r ax s =
     (let s1 = removeExecution sessionId requestId s in
      case wk_observer (ax_work ax) of
        None \<Rightarrow> s1
      | Some runId \<Rightarrow> s1\<lparr>es_workers := AList.update runId (WorkerReturned r) (es_workers s1)\<rparr>)"

text \<open>A chunk from the executor; a stored chunk is observed later by the log of the task.\<close>

definition append_output :: "string \<Rightarrow> request_id \<Rightarrow> out_stream \<Rightarrow> bytes \<Rightarrow> int \<Rightarrow> active_execution \<Rightarrow> exec_service \<Rightarrow> exec_service" where
  "append_output sessionId requestId stream chunk seen ax s =
     (case execution_append stream chunk seen ax (es_outputStore s) of
        (r, ax1, os) \<Rightarrow>
          (put_execution sessionId requestId ax1 s)
            \<lparr>es_outputStore := os,
             es_deliveries := es_deliveries s @
               (case (r, wk_observer (ax_work ax)) of (Inr _, Some runId) \<Rightarrow> [(runId, stream, chunk)] | _ \<Rightarrow> [])\<rparr>)"

text \<open>The first awaited \<open>sink.append\<close> has settled; \<open>stored\<close> when it was fulfilled.\<close>

definition deliver :: "bool \<Rightarrow> int \<Rightarrow> exec_service \<Rightarrow> exec_service" where
  "deliver stored now s =
     (case es_deliveries s of
        [] \<Rightarrow> s
      | (runId, stream, chunk) # rest \<Rightarrow>
          (if stored then set_tasks (modify_task runId (task_append stream chunk now) (es_taskStore s)) s else s)
            \<lparr>es_deliveries := rest\<rparr>)"

section \<open>Steps and reachable services\<close>

definition put_state :: "string \<Rightarrow> request_id \<Rightarrow> exec_state \<Rightarrow> exec_service \<Rightarrow> exec_service" where
  "put_state sessionId requestId st s =
     (case st of (ax, os, audit) \<Rightarrow>
       (put_execution sessionId requestId ax s)\<lparr>es_outputStore := os, es_audit := audit\<rparr>)"

text \<open>A random UUID is not one used before.\<close>

definition fresh_id :: "exec_service \<Rightarrow> string \<Rightarrow> bool" where
  "fresh_id s i \<longleftrightarrow>
     (\<forall>(k, m) \<in> set (es_activeBySession s). \<forall>(r, ax) \<in> set m. ax_executionId ax \<noteq> i)
     \<and> (\<forall>e \<in> set (es_audit s). event_id e \<noteq> i)"

abbreviation at_phase :: "exec_service \<Rightarrow> string \<Rightarrow> request_id \<Rightarrow> active_execution \<Rightarrow> exec_phase \<Rightarrow> bool" where
  "at_phase s k r ax ph \<equiv> es_lookup s k r = Some ax \<and> ax_phase ax = ph"

text \<open>
  One step: a call of a method, an execution that goes on after what it awaits has settled, its timer, a worker, a job or a
  call of the output store, or something another user of the task store does.
\<close>

inductive es_step :: "exec_service \<Rightarrow> exec_service \<Rightarrow> bool" where
  run: "fresh_id s i \<Longrightarrow> es_run k r i params s = (res, s') \<Longrightarrow> es_step s s'"
| check: "fresh_id s i \<Longrightarrow> es_check k r i target s = (res, s') \<Longrightarrow> es_step s s'"
| operation: "fresh_id s i \<Longrightarrow> runOperation k r i target oper parameters timeoutMs s = (res, s') \<Longrightarrow> es_step s s'"
| fixed: "fresh_id s i \<Longrightarrow> assertExecutionAvailable s = Inr () \<Longrightarrow>
    runFixedExecution k r i target authorization kind probe maxOutputBytes s = (res, s') \<Longrightarrow> es_step s s'"
| start_task: "es_startTask now startedAtMs createRunId params s = (res, s') \<Longrightarrow> es_step s s'"
| task_status: "es_taskStatus nowCleanup now runId s = (res, s') \<Longrightarrow> es_step s s'"
| task_tail: "es_taskTail parse sha now runId cursor limit s = (res, s') \<Longrightarrow> es_step s s'"
| cancel_task: "es_cancelTask now runId s = (res, s') \<Longrightarrow> es_step s s'"
| cancel: "es_cancel k r s = (b, s') \<Longrightarrow> es_step s s'"
| disconnect: "es_step s (es_disconnect k s)"
| begin_reload: "beginReload s = (res, s') \<Longrightarrow> es_step s s'"
| commit: "token < length (es_leases s) \<Longrightarrow> lease_commit token gen s = (res, s') \<Longrightarrow> es_step s s'"
| release: "token < length (es_leases s) \<Longrightarrow> es_step s (lease_settle token s)"
| metadata: "updateMetadata m s = (res, s') \<Longrightarrow> es_step s s'"
| remove: "removeTargets aliases m s = (res, s') \<Longrightarrow> es_step s s'"
| shutdown: "es_step s (es_shutdown s)"
| shutdown_resume: "es_closing s \<Longrightarrow> es_ownsTaskStore s \<Longrightarrow> es_step s (stop_executions s)"
| created: "at_phase s k r ax CreatingSink \<Longrightarrow>
    os_create parse io now random (StringId (ax_executionId ax)) (es_outputStore s) = (res, os) \<Longrightarrow>
    (\<forall>j. base64url (random j) \<notin> fst ` set (os_sinks (es_outputStore s))) \<Longrightarrow>
    es_step s (put_state k r (resume_created res ax, os, es_audit s) s)"
| start_audited: "at_phase s k r ax AuditingStart \<Longrightarrow>
    es_step s (put_state k r (resume_start_audited written (ax, es_outputStore s, es_audit s)) s)"
| chunk: "at_phase s k r ax (AtExecutor seen) \<Longrightarrow> es_step s (append_output k r stream chunk seen ax s)"
| timer: "at_phase s k r ax (AtExecutor seen) \<Longrightarrow> es_step s (put_execution k r (requestStop StopTimeout ax) s)"
| ended: "at_phase s k r ax (AtExecutor seen) \<Longrightarrow> res \<noteq> Inl [] \<Longrightarrow>
    es_step s (put_state k r (resume_ran elapsed res (ax, es_outputStore s, es_audit s)) s)"
| finalized: "at_phase s k r ax (FinalizingSink rn) \<Longrightarrow> ax_sink ax = Some sink \<Longrightarrow>
    finalize_outcome sink (es_outputStore s) = Some res \<Longrightarrow>
    es_step s (put_state k r (resume_finalized res rn (ax, es_outputStore s, es_audit s)) s)"
| stop_audited: "at_phase s k r ax (AuditingStop rn out) \<Longrightarrow>
    es_step s (put_state k r (resume_stop_audited written rn out (ax, es_outputStore s, es_audit s)) s)"
| end_audited: "at_phase s k r ax (AuditingEnd rn out') \<Longrightarrow>
    es_step s (put_state k r (resume_end_audited written rn out' (ax, es_outputStore s, es_audit s)) s)"
| finish: "at_phase s k r ax (Ended res) \<Longrightarrow> es_step s (finish_execution k r res ax s)"
| worker_begins: "fresh_id s i \<Longrightarrow> es_step s (begin_worker runId i s)"
| worker_ends: "es_step s (worker_done now runId s)"
| delivery: "es_step s (deliver stored now s)"
| store_job: "es_step s (s\<lparr>es_outputStore := tracked_run aio fio now r (es_outputStore s)\<rparr>)"
| store_read: "os_read parse io now reference stream offset limit (es_outputStore s) = (res, os) \<Longrightarrow>
    es_step s (s\<lparr>es_outputStore := os\<rparr>)"
| store_cleanup: "cleanupExpired parse io now (es_outputStore s) = (res, os) \<Longrightarrow> es_step s (s\<lparr>es_outputStore := os\<rparr>)"
| other_task: "\<not> es_ownsTaskStore s \<Longrightarrow> ts_step (es_taskStore s) tasks \<Longrightarrow>
    (\<forall>runId w t. map_of (es_workers s) runId = Some w \<longrightarrow> map_of (ts_tasks (es_taskStore s)) runId = Some t \<longrightarrow>
       (\<exists>t'. map_of (ts_tasks tasks) runId = Some t' \<and> t_state t' = t_state t)) \<Longrightarrow>
    es_step s (set_tasks tasks s)"

text \<open>The service is made once the output store and, when it is passed in, the task store exist.\<close>

definition es_initial :: "exec_service \<Rightarrow> bool" where
  "es_initial s \<longleftrightarrow>
     (\<exists>gen os maxConcurrent tasks. new_exec_service gen os maxConcurrent tasks = Inr s \<and> os_reachable os \<and> os_sinks os = []
        \<and> (\<forall>ts. tasks = Some ts \<longrightarrow> ts_reachable ts))"

definition es_reachable :: "exec_service \<Rightarrow> bool" where
  "es_reachable s \<longleftrightarrow> (\<exists>s0. es_initial s0 \<and> es_step\<^sup>*\<^sup>* s0 s)"

section \<open>The table\<close>

definition table_size :: "('k, ('r, 'a) jsmap) jsmap \<Rightarrow> nat" where
  "table_size t = sum_list (map (length \<circ> snd) t)"

definition well_formed :: "('k, ('r, 'a) jsmap) jsmap \<Rightarrow> bool" where
  "well_formed t \<longleftrightarrow> distinct (map fst t) \<and> (\<forall>(k, m) \<in> set t. m \<noteq> [] \<and> distinct (map fst m))"

definition table_ok :: "exec_service \<Rightarrow> bool" where
  "table_ok s \<longleftrightarrow> well_formed (es_activeBySession s) \<and> es_activeCount s = int (table_size (es_activeBySession s))
     \<and> es_activeCount s \<le> es_maxConcurrentExecutions s"

lemma length_update: "length (AList.update k v al) = (if map_of al k = None then Suc (length al) else length al)"
  by (induction al) auto

lemma length_delete:
  "distinct (map fst al) \<Longrightarrow> map_of al k \<noteq> None \<Longrightarrow> Suc (length (AList.delete k al)) = length al"
proof (induction al)
  case (Cons a al)
  show ?case
  proof (cases "fst a = k")
    case True
    with Cons.prems have "map_of al k = None" by (auto simp: map_of_eq_None_iff)
    with True delete_absent [of al k] show ?thesis by (cases a) (simp add: AList.delete_eq)
  next
    case False
    with Cons show ?thesis by (cases a) (auto simp: AList.delete_eq)
  qed
qed simp

lemma size_update_new: "map_of t k = None \<Longrightarrow> table_size (AList.update k m t) = table_size t + length m"
  by (induction t) (auto simp: table_size_def split: if_splits)

lemma size_update_old:
  "distinct (map fst t) \<Longrightarrow> map_of t k = Some m \<Longrightarrow> table_size (AList.update k m' t) + length m = table_size t + length m'"
  by (induction t) (auto simp: table_size_def split: if_splits)

lemma size_delete: "distinct (map fst t) \<Longrightarrow> map_of t k = Some m \<Longrightarrow> table_size (AList.delete k t) + length m = table_size t"
proof (induction t)
  case (Cons a t)
  show ?case
  proof (cases "fst a = k")
    case True
    with Cons.prems have "map_of t k = None" "snd a = m" by (auto simp: map_of_eq_None_iff)
    with True delete_absent [of t k] show ?thesis by (cases a) (simp add: table_size_def AList.delete_eq)
  next
    case False
    with Cons show ?thesis by (cases a) (auto simp: table_size_def AList.delete_eq)
  qed
qed simp

lemma well_formedD: "well_formed t \<Longrightarrow> map_of t k = Some m \<Longrightarrow> m \<noteq> [] \<and> distinct (map fst m)"
  unfolding well_formed_def by (blast dest: map_of_SomeD)

lemma well_formed_update:
  assumes "well_formed t" "m \<noteq> []" "distinct (map fst m)"
  shows "well_formed (AList.update k m t)"
proof -
  have "(k', m') \<in> set t \<or> m' = m" if "(k', m') \<in> set (AList.update k m t)" for k' m'
    using that by (induction t) (auto split: if_splits)
  with assms show ?thesis unfolding well_formed_def by (fastforce simp: distinct_update)
qed

lemma well_formed_delete: "well_formed t \<Longrightarrow> well_formed (AList.delete k t)"
  by (auto simp: well_formed_def AList.delete_eq distinct_map_filter)

lemma lookup_put:
  "es_lookup (put_execution k r ax s) k' r' =
     (if k' = k \<and> r' = r \<and> map_of (es_activeBySession s) k \<noteq> None then Some ax else es_lookup s k' r')"
  by (auto simp: es_lookup_def put_execution_def update_conv' split: option.splits)

lemma put_ok:
  assumes "table_ok s" "es_lookup s k r = Some ax0"
  shows "table_ok (put_execution k r ax s)"
proof -
  obtain m where m: "map_of (es_activeBySession s) k = Some m" "map_of m r = Some ax0"
    using assms(2) by (auto simp: es_lookup_def bind_eq_Some_conv)
  have wf: "well_formed (es_activeBySession s)" using assms(1) by (simp add: table_ok_def)
  have d: "distinct (map fst (es_activeBySession s))" using wf by (simp add: well_formed_def)
  let ?m = "AList.update r ax m"
  have len: "length ?m = length m" using m(2) by (simp add: length_update)
  have "?m \<noteq> []" "distinct (map fst ?m)"
    using well_formedD [OF wf m(1)] len by (auto simp: distinct_update)
  from well_formed_update [OF wf this] size_update_old [OF d m(1), of ?m] len m assms(1)
  show ?thesis by (simp add: put_execution_def table_ok_def)
qed

lemma put_fields [simp]:
  "es_taskStore (put_execution k r ax s) = es_taskStore s" "es_outputStore (put_execution k r ax s) = es_outputStore s"
  "es_audit (put_execution k r ax s) = es_audit s" "es_generation (put_execution k r ax s) = es_generation s"
  "es_closing (put_execution k r ax s) = es_closing s" "es_reloadToken (put_execution k r ax s) = es_reloadToken s"
  "es_leases (put_execution k r ax s) = es_leases s" "es_activeCount (put_execution k r ax s) = es_activeCount s"
  "es_maxConcurrentExecutions (put_execution k r ax s) = es_maxConcurrentExecutions s"
  "es_ownsTaskStore (put_execution k r ax s) = es_ownsTaskStore s" "es_workers (put_execution k r ax s) = es_workers s"
  "es_deliveries (put_execution k r ax s) = es_deliveries s"
  by (simp_all add: put_execution_def split: option.split)

subsection \<open>Admission and removal\<close>

lemma start_refused:
  assumes "startExecution k r i target work s = (Inl e, s')" "table_ok s"
  shows "s' = s"
  using assms by (auto simp: startExecution_def Let_def split: if_splits option.splits)

lemma start_admitted:
  assumes "startExecution k r i target work s = (Inr u, s')" "table_ok s"
  shows "table_ok s'" "es_lookup s k r = None" "es_activeCount s < es_maxConcurrentExecutions s"
    "es_lookup s' k' r' = (if k' = k \<and> r' = r then Some (new_execution r i target work) else es_lookup s k' r')"
    "\<exists>t. s' = s\<lparr>es_activeBySession := t, es_activeCount := es_activeCount s + 1\<rparr>"
proof -
  let ?t = "es_activeBySession s" and ?ax = "new_execution r i target work"
  define m where "m = (case map_of ?t k of Some m \<Rightarrow> m | None \<Rightarrow> [])"
  have r: "map_of m r = None" "es_activeCount s < es_maxConcurrentExecutions s"
    using assms(1) by (auto simp: startExecution_def m_def Let_def split: if_splits option.splits)
  have s': "s' = s\<lparr>es_activeBySession := AList.update k (AList.update r ?ax m) ?t, es_activeCount := es_activeCount s + 1\<rparr>"
    using assms(1) by (auto simp: startExecution_def m_def Let_def put_execution_def update_conv' split: if_splits option.splits)
  have wf: "well_formed ?t" and d: "distinct (map fst ?t)" using assms(2) by (simp_all add: table_ok_def well_formed_def)
  have len: "length (AList.update r ?ax m) = Suc (length m)" using r(1) by (simp add: length_update)
  have "distinct (map fst m)" using well_formedD [OF wf] by (auto simp: m_def split: option.splits)
  then have "well_formed (AList.update k (AList.update r ?ax m) ?t)"
    using len by (intro well_formed_update [OF wf]) (auto simp: distinct_update)
  moreover have "table_size (AList.update k (AList.update r ?ax m) ?t) = Suc (table_size ?t)"
  proof (cases "map_of ?t k")
    case None
    then show ?thesis using size_update_new [OF None, of "AList.update r ?ax m"] len by (simp add: m_def)
  next
    case (Some m0)
    then have "m0 = m" by (simp add: m_def)
    then show ?thesis using size_update_old [OF d Some, of "AList.update r ?ax m"] len by simp
  qed
  ultimately show "table_ok s'" using assms(2) r(2) by (simp add: s' table_ok_def)
  show "es_lookup s k r = None" using r(1) by (auto simp: es_lookup_def m_def split: option.splits)
  show "es_activeCount s < es_maxConcurrentExecutions s" by (rule r)
  show "es_lookup s' k' r' = (if k' = k \<and> r' = r then Some ?ax else es_lookup s k' r')"
    by (auto simp: s' es_lookup_def update_conv' m_def split: option.splits)
  show "\<exists>t. s' = s\<lparr>es_activeBySession := t, es_activeCount := es_activeCount s + 1\<rparr>" unfolding s' by blast
qed

lemma remove_execution:
  assumes "table_ok s" "es_lookup s k r = Some ax"
  shows "table_ok (removeExecution k r s)"
    "es_lookup (removeExecution k r s) k' r' = (if k' = k \<and> r' = r then None else es_lookup s k' r')"
    "\<exists>t. removeExecution k r s = s\<lparr>es_activeBySession := t, es_activeCount := es_activeCount s - 1\<rparr>"
proof -
  let ?t = "es_activeBySession s"
  obtain m where m: "map_of ?t k = Some m" "map_of m r = Some ax" using assms(2) by (auto simp: es_lookup_def bind_eq_Some_conv)
  have wf: "well_formed ?t" and d: "distinct (map fst ?t)" using assms(1) by (simp_all add: table_ok_def well_formed_def)
  note dm = conjunct2 [OF well_formedD [OF wf m(1)]]
  let ?m = "AList.delete r m"
  let ?u = "if ?m = [] then AList.delete k ?t else AList.update k ?m ?t"
  have s': "removeExecution k r s = s\<lparr>es_activeBySession := ?u, es_activeCount := es_activeCount s - 1\<rparr>"
    using m by (simp add: removeExecution_def Let_def)
  have len: "Suc (length ?m) = length m" using length_delete [OF dm, of r] m(2) by simp
  have "well_formed ?u"
    using well_formed_delete [OF wf] well_formed_update [OF wf, of ?m] dm by (simp add: AList.delete_eq distinct_map_filter)
  moreover have "Suc (table_size ?u) = table_size ?t"
    using size_delete [OF d m(1)] size_update_old [OF d m(1), of ?m] len by (auto split: if_splits)
  ultimately show "table_ok (removeExecution k r s)" using assms(1) by (auto simp: s' table_ok_def)
  have "map_of ?m r' = (if r' = r then None else map_of m r')" for r' by (simp add: delete_conv')
  moreover have "map_of m r' = None" if "?m = []" "r' \<noteq> r" for r'
    using that by (auto simp: AList.delete_eq filter_empty_conv map_of_eq_None_iff)
  ultimately show "es_lookup (removeExecution k r s) k' r' = (if k' = k \<and> r' = r then None else es_lookup s k' r')"
    using m by (auto simp: s' es_lookup_def update_conv' delete_conv')
  show "\<exists>t. removeExecution k r s = s\<lparr>es_activeBySession := t, es_activeCount := es_activeCount s - 1\<rparr>" unfolding s' by blast
qed

subsection \<open>Stop requests\<close>

definition es_table :: "exec_service \<Rightarrow> string \<times> request_id \<Rightarrow> active_execution option" where
  "es_table s = (\<lambda>(k, r). es_lookup s k r)"

text \<open>Only stop requests have happened.\<close>

definition stops_only :: "exec_service \<Rightarrow> exec_service \<Rightarrow> bool" where
  "stops_only s s' \<longleftrightarrow> (\<exists>t. s' = s\<lparr>es_activeBySession := t\<rparr>) \<and> stopped (es_table s) (es_table s')
     \<and> (table_ok s \<longrightarrow> table_ok s')"

lemma stopped_refl [simp]: "stopped t t"
  by (simp add: stopped_def)

lemma requestStop_idem [simp]: "requestStop r (requestStop r ax) = requestStop r ax"
  by (simp add: requestStop_def)

lemma stopped_trans: "stopped a b \<Longrightarrow> stopped b c \<Longrightarrow> stopped a c"
  unfolding stopped_def by (metis option.inject requestStop_idem)

lemma stops_only_refl [simp]: "stops_only s s"
  unfolding stops_only_def using exI [of "\<lambda>t. s = s\<lparr>es_activeBySession := t\<rparr>" "es_activeBySession s"] by simp

lemma stops_only_trans: "stops_only a b \<Longrightarrow> stops_only b c \<Longrightarrow> stops_only a c"
  unfolding stops_only_def by (auto intro: stopped_trans)

lemma stops_only_cancel: "stops_only s (snd (es_cancel k r s))"
proof (cases "es_lookup s k r")
  case None
  then show ?thesis by (simp add: es_cancel_def)
next
  case (Some ax)
  let ?s = "put_execution k r (requestStop StopCancel ax) s"
  have m: "map_of (es_activeBySession s) k \<noteq> None" using Some by (auto simp: es_lookup_def bind_eq_Some_conv)
  have "\<exists>t. ?s = s\<lparr>es_activeBySession := t\<rparr>" using m by (auto simp: put_execution_def)
  moreover have "stopped (es_table s) (es_table ?s)"
    using Some by (auto simp: stopped_def es_table_def lookup_put)
  ultimately have "stops_only s ?s" using put_ok [OF _ Some] by (simp add: stops_only_def)
  with Some show ?thesis by (simp add: es_cancel_def)
qed

text \<open>The loops over sessions keep the keys of the table.\<close>

lemma map_of_map_values: "map_of (map (\<lambda>(k, m). (k, f k m)) t) k = map_option (f k) (map_of t k)"
  by (induction t) auto

lemma stop_all_keys [simp]: "map fst (stop_all m) = map fst m" "stop_all m = [] \<longleftrightarrow> m = []" "length (stop_all m) = length m"
  by (induction m) (auto simp: stop_all_def)

lemma stop_all_lookup:
  "map_of (stop_all m) r = map_option (\<lambda>ax. if ax_acceptingCancellation ax then requestStop StopCancel ax else ax) (map_of m r)"
  unfolding stop_all_def by (rule map_of_map_values)

lemma stops_only_loop:
  assumes "\<And>k m. f k m = m \<or> f k m = stop_all m"
  shows "stops_only s (s\<lparr>es_activeBySession := map (\<lambda>(k, m). (k, f k m)) (es_activeBySession s)\<rparr>)"
proof -
  let ?t = "map (\<lambda>(k, m). (k, f k m)) (es_activeBySession s)"
  have keys: "map fst (f k m) = map fst m" "f k m = [] \<longleftrightarrow> m = []" "length (f k m) = length m" for k m
    using assms [of k m] by (metis stop_all_keys(1), metis stop_all_keys(2), metis stop_all_keys(3))
  have "well_formed ?t \<longleftrightarrow> well_formed (es_activeBySession s)"
    by (auto simp: well_formed_def keys comp_def case_prod_beta)
  moreover have "table_size ?t = table_size (es_activeBySession s)"
    by (simp add: table_size_def keys comp_def case_prod_beta)
  moreover have "stopped (es_table s) (es_table (s\<lparr>es_activeBySession := ?t\<rparr>))"
    unfolding stopped_def
  proof
    fix key :: "string \<times> request_id"
    obtain k r where key: "key = (k, r)" by force
    show "es_table (s\<lparr>es_activeBySession := ?t\<rparr>) key = es_table s key
      \<or> (\<exists>ax. es_table s key = Some ax \<and> es_table (s\<lparr>es_activeBySession := ?t\<rparr>) key = Some (requestStop StopCancel ax))"
    proof (cases "map_of (es_activeBySession s) k")
      case None
      then show ?thesis by (simp add: key es_table_def es_lookup_def map_of_map_values)
    next
      case (Some m)
      then have "es_table s key = map_of m r" "es_table (s\<lparr>es_activeBySession := ?t\<rparr>) key = map_of (f k m) r"
        by (simp_all add: key es_table_def es_lookup_def map_of_map_values)
      with assms [of k m] show ?thesis by (cases "map_of m r") (auto simp: stop_all_lookup)
    qed
  qed
  ultimately show ?thesis by (auto simp: stops_only_def table_ok_def)
qed

lemma stops_only_disconnect: "stops_only s (es_disconnect k s)"
  unfolding es_disconnect_def by (rule stops_only_loop) simp

lemma stops_only_executions: "stops_only s (stop_executions s)"
  unfolding stop_executions_def by (rule stops_only_loop) simp

lemma stops_only_fold:
  "stops_only s (fold (\<lambda>(runId, _) s. snd (es_cancel (worker_session runId) (StringId runId) s)) ws s)"
proof (induction ws arbitrary: s)
  case (Cons w ws)
  then show ?case by (cases w) (auto intro: stops_only_trans [OF stops_only_cancel])
qed simp

lemma set_tasks_stops: "stops_only (s\<lparr>es_taskStore := tasks\<rparr>) (set_tasks tasks s)"
  unfolding set_tasks_def by (rule stops_only_fold)

lemma stops_only_fields:
  assumes "stops_only s s'"
  shows "es_taskStore s' = es_taskStore s" "es_outputStore s' = es_outputStore s" "es_audit s' = es_audit s"
    "es_generation s' = es_generation s" "es_closing s' = es_closing s" "es_reloadToken s' = es_reloadToken s"
    "es_leases s' = es_leases s" "es_activeCount s' = es_activeCount s" "es_workers s' = es_workers s"
    "es_maxConcurrentExecutions s' = es_maxConcurrentExecutions s" "es_ownsTaskStore s' = es_ownsTaskStore s"
    "es_deliveries s' = es_deliveries s"
  using assms by (auto simp: stops_only_def)

lemmas set_tasks_fields [simp] = stops_only_fields [OF set_tasks_stops, simplified]

lemma es_table_cong: "es_activeBySession s' = es_activeBySession s \<Longrightarrow> es_table s' = es_table s"
  by (auto simp: es_table_def es_lookup_def fun_eq_iff)

lemma table_ok_cong:
  "es_activeBySession s' = es_activeBySession s \<Longrightarrow> es_activeCount s' = es_activeCount s \<Longrightarrow>
   es_maxConcurrentExecutions s' = es_maxConcurrentExecutions s \<Longrightarrow> table_ok s' = table_ok s"
  by (simp add: table_ok_def)

section \<open>The service is an instance of the transition system of executions\<close>

definition core_of :: "exec_service \<Rightarrow> exec_core" where
  "core_of s = \<lparr>co_table = es_table s, co_outputs = es_outputStore s, co_audit = es_audit s\<rparr>"

lemma core_of_simps [simp]:
  "co_table (core_of s) = es_table s" "co_outputs (core_of s) = es_outputStore s" "co_audit (core_of s) = es_audit s"
  by (simp_all add: core_of_def)

lemma core_eqI: "co_table c = t \<Longrightarrow> co_outputs c = os \<Longrightarrow> co_audit c = a \<Longrightarrow> c = \<lparr>co_table = t, co_outputs = os, co_audit = a\<rparr>"
  by (cases c) simp

text \<open>What the simulation shows of a step.\<close>

definition simulated :: "exec_service \<Rightarrow> exec_service \<Rightarrow> bool" where
  "simulated s s' \<longleftrightarrow> table_ok s' \<and> core_step\<^sup>*\<^sup>* (core_of s) (core_of s')"

lemma simulated_trans: "simulated a b \<Longrightarrow> simulated b c \<Longrightarrow> simulated a c"
  unfolding simulated_def by auto

lemma simulated_same:
  assumes "table_ok s" "es_activeBySession s' = es_activeBySession s" "es_activeCount s' = es_activeCount s"
    "es_maxConcurrentExecutions s' = es_maxConcurrentExecutions s" "es_outputStore s' = es_outputStore s" "es_audit s' = es_audit s"
  shows "simulated s s'"
proof -
  have "core_of s' = core_of s" using assms(5,6) es_table_cong [OF assms(2)] by (simp add: core_of_def)
  with table_ok_cong [OF assms(2-4)] assms(1) show ?thesis by (simp add: simulated_def)
qed

lemma simulated_refl: "table_ok s \<Longrightarrow> simulated s s"
  by (rule simulated_same) simp_all

lemma simulated_stops:
  assumes "stops_only s s'" "table_ok s"
  shows "simulated s s'"
proof -
  have "core_of s' = (core_of s)\<lparr>co_table := es_table s'\<rparr>"
    using stops_only_fields [OF assms(1)] by (simp add: core_of_def)
  moreover have "core_step (core_of s) ((core_of s)\<lparr>co_table := es_table s'\<rparr>)"
    using assms(1) by (intro core_step.stops) (simp add: stops_only_def)
  ultimately show ?thesis using assms by (simp add: simulated_def stops_only_def)
qed

lemma simulated_set_tasks: "table_ok s \<Longrightarrow> simulated s (set_tasks tasks s)"
  by (rule simulated_trans [OF simulated_same [of s "s\<lparr>es_taskStore := tasks\<rparr>"] simulated_stops [OF set_tasks_stops]])
    (simp_all add: table_ok_def)

lemma fresh_new_id: "fresh_id s i \<Longrightarrow> new_id (core_of s) i"
  unfolding new_id_def fresh_id_def core_of_simps es_table_def es_lookup_def
  by (auto simp: bind_eq_Some_conv dest!: map_of_SomeD)

lemma simulated_start:
  assumes "startExecution k r i target work s = (res, s')" "table_ok s" "fresh_id s i"
  shows "simulated s s'"
proof (cases res)
  case (Inl e)
  with start_refused assms(1,2) have "s' = s" by blast
  with assms(2) show ?thesis by (simp add: simulated_refl)
next
  case (Inr u)
  note a = start_admitted [OF assms(1) [unfolded Inr] assms(2)]
  from a(5) obtain t where t: "s' = s\<lparr>es_activeBySession := t, es_activeCount := es_activeCount s + 1\<rparr>" by blast
  have "es_table s' = (es_table s)((k, r) \<mapsto> new_execution r i target work)"
    using a(4) by (auto simp: es_table_def fun_eq_iff)
  then have "core_of s' = (core_of s)\<lparr>co_table := (co_table (core_of s))((k, r) \<mapsto> new_execution (snd (k, r)) i target work)\<rparr>"
    by (simp add: core_of_def t)
  moreover have "co_table (core_of s) (k, r) = None" using a(2) by (simp add: es_table_def)
  ultimately have "core_step (core_of s) (core_of s')"
    using core_step.admit [of "core_of s" "(k, r)" i target work] fresh_new_id [OF assms(3)] by simp
  with a(1) show ?thesis by (simp add: simulated_def)
qed

lemma simulated_go_on:
  assumes "table_ok s" "es_lookup s k r = Some ax" "exec_step (ax, es_outputStore s, es_audit s) st"
  shows "simulated s (put_state k r st s)"
proof -
  obtain ax' os' audit' where st: "st = (ax', os', audit')" by (cases st)
  let ?s = "put_state k r st s"
  have m: "map_of (es_activeBySession s) k \<noteq> None" using assms(2) by (auto simp: es_lookup_def bind_eq_Some_conv)
  have "es_table ?s = es_table (put_execution k r ax' s)" by (rule es_table_cong) (simp add: put_state_def st)
  then have "core_of ?s = (core_of s)\<lparr>co_table := (co_table (core_of s))((k, r) \<mapsto> ax'), co_outputs := os', co_audit := audit'\<rparr>"
    using m by (auto simp: core_of_def put_state_def st es_table_def fun_eq_iff lookup_put)
  moreover have "co_table (core_of s) (k, r) = Some ax" using assms(2) by (simp add: es_table_def)
  ultimately have "core_step (core_of s) (core_of ?s)"
    using core_step.go_on [of "core_of s" "(k, r)" ax] assms(3) by (simp add: st)
  moreover have "table_ok ?s" using put_ok [OF assms(1,2)] by (simp add: put_state_def st table_ok_def)
  ultimately show ?thesis by (simp add: simulated_def)
qed

lemma simulated_store:
  assumes "table_ok s" "store_call (es_outputStore s) os"
  shows "simulated s (s\<lparr>es_outputStore := os\<rparr>)"
proof -
  have "es_table (s\<lparr>es_outputStore := os\<rparr>) = es_table s" by (rule es_table_cong) simp
  then have "core_of (s\<lparr>es_outputStore := os\<rparr>) = (core_of s)\<lparr>co_outputs := os\<rparr>" by (simp add: core_of_def)
  with core_step.store [of "core_of s" os] assms show ?thesis by (simp add: simulated_def table_ok_def r_into_rtranclp)
qed

lemma simulated_finish:
  assumes "table_ok s" "es_lookup s k r = Some ax" "ax_phase ax = Ended res"
  shows "simulated s (finish_execution k r res ax s)"
proof -
  note d = remove_execution [OF assms(1,2)]
  from d(3) obtain t where t: "removeExecution k r s = s\<lparr>es_activeBySession := t, es_activeCount := es_activeCount s - 1\<rparr>" by blast
  have "core_of (removeExecution k r s) = (core_of s)\<lparr>co_table := (co_table (core_of s))((k, r) := None)\<rparr>"
    using d(2) by (auto simp: core_of_def t es_table_def fun_eq_iff)
  moreover have "co_table (core_of s) (k, r) = Some ax" using assms(2) by (simp add: es_table_def)
  ultimately have "simulated s (removeExecution k r s)"
    using core_step.remove [of "core_of s" "(k, r)" ax res] assms(3) d(1) by (simp add: simulated_def)
  moreover have "simulated (removeExecution k r s) (finish_execution k r res ax s)"
    by (rule simulated_same [OF d(1)]) (simp_all add: finish_execution_def Let_def split: option.split)
  ultimately show ?thesis by (rule simulated_trans)
qed

lemma simulated_reload:
  assumes "table_ok s"
  shows "simulated s (snd (beginReload s))" "simulated s (lease_settle token s)" "simulated s (snd (lease_commit token gen s))"
    "simulated s (snd (updateMetadata m s))"
  by (rule simulated_same [OF assms];
      simp add: beginReload_def lease_settle_def lease_commit_def updateMetadata_def Let_def split: sum.split)+

lemma simulated_remove_targets:
  assumes "removeTargets aliases m s = (res, s')" "table_ok s"
  shows "simulated s s'"
proof -
  obtain b s1 where b: "beginReload s = (b, s1)" by force
  have 1: "simulated s s1" using simulated_reload(1) [OF assms(2)] b by simp
  then have ok: "table_ok s1" by (simp add: simulated_def)
  have settle: "simulated s (lease_settle token s2)" if "simulated s s2" for token s2
    using that simulated_reload(2) [of s2] simulated_trans by (auto simp: simulated_def)
  have commit: "simulated s s2" if "lease_commit token gen s1 = (x, s2)" for token gen x s2
    using simulated_trans [OF 1 simulated_reload(3) [OF ok, of token gen]] that by simp
  from assms(1) b 1 settle commit show ?thesis
    by (auto simp: removeTargets_def Let_def split: sum.splits prod.splits)
qed

lemma simulated_shutdown:
  assumes "table_ok s"
  shows "simulated s (es_shutdown s)"
proof -
  let ?s = "s\<lparr>es_closing := True, es_reloadToken := None\<rparr>"
  have 1: "simulated s ?s" by (rule simulated_same [OF assms]) simp_all
  then have "table_ok ?s" by (simp add: simulated_def)
  from simulated_trans [OF 1 simulated_set_tasks [OF this]] simulated_trans [OF 1 simulated_stops [OF stops_only_executions this]]
  show ?thesis by (simp add: es_shutdown_def Let_def)
qed

lemma simulated_methods:
  assumes "table_ok s" "fresh_id s i"
  shows "es_run k r i params s = (res, s') \<Longrightarrow> simulated s s'"
    and "es_check k r i target s = (res, s') \<Longrightarrow> simulated s s'"
    and "runOperation k r i target oper parameters timeoutMs s = (res, s') \<Longrightarrow> simulated s s'"
    and "runFixedExecution k r i target authorization kind probe maxOutputBytes s = (res, s') \<Longrightarrow> simulated s s'"
  using simulated_start [OF _ assms] simulated_refl [OF assms(1)]
  by (auto simp: es_run_def es_check_def runOperation_def runFixedExecution_def Let_def split: sum.splits prod.splits)

lemma simulated_tasks:
  assumes "table_ok s"
  shows "es_startTask now startedAtMs createRunId params s = (res, s') \<Longrightarrow> simulated s s'"
    and "es_taskStatus nowCleanup now runId s = (res2, s') \<Longrightarrow> simulated s s'"
    and "es_taskTail parse sha now runId cursor limit s = (res3, s') \<Longrightarrow> simulated s s'"
    and "es_cancelTask now runId s = (res4, s') \<Longrightarrow> simulated s s'"
    and "simulated s (worker_done now runId s)" "simulated s (deliver stored now s)"
proof -
  have more: "simulated s ((set_tasks tasks s)\<lparr>es_workers := w\<rparr>)" "simulated s ((set_tasks tasks s)\<lparr>es_deliveries := d\<rparr>)" for tasks w d
  proof -
    have ok: "table_ok (set_tasks tasks s)" using simulated_set_tasks [OF assms] by (simp add: simulated_def)
    show "simulated s ((set_tasks tasks s)\<lparr>es_workers := w\<rparr>)" "simulated s ((set_tasks tasks s)\<lparr>es_deliveries := d\<rparr>)"
      by (rule simulated_trans [OF simulated_set_tasks [OF assms] simulated_same [OF ok]]; simp)+
  qed
  note sims = more simulated_set_tasks [OF assms] simulated_refl [OF assms]
  show "es_startTask now startedAtMs createRunId params s = (res, s') \<Longrightarrow> simulated s s'"
    using sims by (auto simp: es_startTask_def split: sum.splits prod.splits)
  show "es_taskStatus nowCleanup now runId s = (res2, s') \<Longrightarrow> simulated s s'"
    using sims by (auto simp: es_taskStatus_def split: prod.splits)
  show "es_taskTail parse sha now runId cursor limit s = (res3, s') \<Longrightarrow> simulated s s'"
    using sims by (auto simp: es_taskTail_def split: prod.splits)
  show "es_cancelTask now runId s = (res4, s') \<Longrightarrow> simulated s s'"
    using sims by (auto simp: es_cancelTask_def split: prod.splits)
  show "simulated s (worker_done now runId s)"
    using sims by (auto simp: worker_done_def Let_def split: option.splits worker.splits)
  have "simulated s (s\<lparr>es_deliveries := d\<rparr>)" for d by (rule simulated_same [OF assms]) simp_all
  with sims show "simulated s (deliver stored now s)" by (auto simp: deliver_def split: list.splits)
qed

lemma simulated_worker:
  assumes "table_ok s" "fresh_id s i"
  shows "simulated s (begin_worker runId i s)"
proof (cases "map_of (es_workers s) runId")
  case None
  then show ?thesis by (simp add: begin_worker_def simulated_refl [OF assms(1)])
next
  case (Some w)
  show ?thesis
  proof (cases w)
    case (WorkerWaiting target work)
    obtain res s1 where st: "startExecution (worker_session runId) (StringId runId) i target (work\<lparr>wk_observer := Some runId\<rparr>) s = (res, s1)"
      by force
    let ?s2 = "if task_aborted runId (es_taskStore s1) then snd (es_cancel (worker_session runId) (StringId runId) s1) else s1"
    have 1: "simulated s s1" by (rule simulated_start [OF st assms])
    then have "table_ok s1" by (simp add: simulated_def)
    with simulated_stops [OF stops_only_cancel] simulated_refl have "simulated s1 ?s2" by simp
    with 1 have 2: "simulated s ?s2" by (rule simulated_trans)
    then have ok: "table_ok ?s2" by (simp add: simulated_def)
    have "simulated ?s2 (?s2\<lparr>es_workers := ws\<rparr>)" for ws by (rule simulated_same [OF ok]) simp_all
    with 2 have "simulated s (?s2\<lparr>es_workers := ws\<rparr>)" for ws by (rule simulated_trans)
    with Some WorkerWaiting st show ?thesis by (simp add: begin_worker_def Let_def)
  qed (use Some simulated_refl [OF assms(1)] in \<open>simp_all add: begin_worker_def\<close>)
qed

lemma simulated_chunk:
  assumes "table_ok s" "es_lookup s k r = Some ax" "ax_phase ax = AtExecutor seen"
  shows "simulated s (append_output k r stream bytes seen ax s)"
proof -
  obtain res ax1 os where e: "execution_append stream bytes seen ax (es_outputStore s) = (res, ax1, os)" by (metis prod_cases3)
  have 1: "simulated s (put_state k r (ax1, os, es_audit s) s)"
    by (rule simulated_go_on [OF assms(1,2) exec_step.chunk [OF assms(3) e]])
  then have ok: "table_ok (put_state k r (ax1, os, es_audit s) s)" by (simp add: simulated_def)
  have "simulated (put_state k r (ax1, os, es_audit s) s) (append_output k r stream bytes seen ax s)"
    by (rule simulated_same [OF ok]) (simp_all add: put_state_def append_output_def e)
  with 1 show ?thesis by (rule simulated_trans)
qed

lemma simulated_put_same:
  assumes "table_ok s" "es_lookup s k r = Some ax" "exec_step (ax, es_outputStore s, es_audit s) (ax', es_outputStore s, es_audit s)"
  shows "simulated s (put_execution k r ax' s)"
proof -
  have "put_state k r (ax', es_outputStore s, es_audit s) s = put_execution k r ax' s"
    by (simp add: put_state_def)
  with simulated_go_on [OF assms] show ?thesis by simp
qed

lemma step_simulated:
  assumes "es_step s s'" "table_ok s"
  shows "simulated s s'"
  using assms(1)
proof cases
  case (timer k r ax seen)
  then show ?thesis by (auto intro: simulated_put_same [OF assms(2)] exec_step.stop)
next
  case (begin_reload res)
  with simulated_reload(1) [OF assms(2)] show ?thesis by simp
next
  case (commit token gen res)
  with simulated_reload(3) [OF assms(2), of token gen] show ?thesis by simp
next
  case (metadata m res)
  with simulated_reload(4) [OF assms(2), of m] show ?thesis by simp
next
  case (cancel k r b)
  with simulated_stops [OF stops_only_cancel assms(2), of k r] show ?thesis by simp
next
  case (remove aliases m res)
  then show ?thesis by (rule simulated_remove_targets [OF _ assms(2)])
next
  case (other_task tasks)
  with simulated_set_tasks [OF assms(2)] show ?thesis by simp
qed (use assms(2) in \<open>auto intro: simulated_methods simulated_tasks simulated_worker simulated_chunk simulated_go_on exec_step.intros
    simulated_store store_call.intros simulated_finish simulated_shutdown simulated_reload(2)
    simulated_stops [OF stops_only_disconnect] simulated_stops [OF stops_only_executions]\<close>)

end
