(* ===== verification/ExecTasks.thy ===== *)
theory ExecTasks
  imports ExecService
begin

text \<open>
  The service with its task store: every worker has a running task, a running worker has its execution, and all use
  the executor of the current configuration. No task runs a probe.
\<close>

section \<open>Tasks, workers and executors\<close>

definition task_runs :: "string \<Rightarrow> task_store \<Rightarrow> bool" where
  "task_runs runId ts \<longleftrightarrow> (\<exists>t. map_of (ts_tasks ts) runId = Some t \<and> is_running t)"

definition worker_key :: "string \<Rightarrow> string \<times> request_id" where
  "worker_key runId = (worker_session runId, StringId runId)"

definition es_works :: "exec_service \<Rightarrow> string \<times> request_id \<Rightarrow> execution_work option" where
  "es_works s key = map_option ax_work (es_table s key)"

text \<open>
  Every worker belongs to a running task; the execution of a task and its worker know each other; all work uses the
  current executor; a task store of the service's own has no running task without a worker.
\<close>

definition workers_ok ::
  "('k \<Rightarrow> execution_work option) \<Rightarrow> (string \<Rightarrow> 'k) \<Rightarrow> (string \<Rightarrow> worker option) \<Rightarrow> (string \<Rightarrow> bool) \<Rightarrow> nat \<Rightarrow> bool \<Rightarrow> bool" where
  "workers_ok works key_of workers runs executor owns \<longleftrightarrow>
     (\<forall>runId. workers runId \<noteq> None \<longrightarrow> runs runId)
     \<and> (\<forall>key wk runId. works key = Some wk \<longrightarrow> wk_observer wk = Some runId \<longrightarrow> key = key_of runId \<and> workers runId = Some WorkerRunning)
     \<and> (\<forall>runId. workers runId = Some WorkerRunning \<longrightarrow> (\<exists>wk. works (key_of runId) = Some wk \<and> wk_observer wk = Some runId))
     \<and> (\<forall>key wk. works key = Some wk \<longrightarrow> wk_executor wk = executor)
     \<and> (\<forall>runId target wk. workers runId = Some (WorkerWaiting target wk) \<longrightarrow> wk_executor wk = executor \<and> wk_observer wk = None)
     \<and> (owns \<longrightarrow> (\<forall>runId. runs runId \<longrightarrow> workers runId \<noteq> None))"

abbreviation service_workers_ok :: "exec_service \<Rightarrow> bool" where
  "service_workers_ok s \<equiv> workers_ok (es_works s) worker_key (map_of (es_workers s)) (\<lambda>runId. task_runs runId (es_taskStore s))
     (gn_executor (es_generation s)) (es_ownsTaskStore s)"

lemma worker_key_inject: "worker_key a = worker_key b \<longleftrightarrow> a = b"
  by (auto simp: worker_key_def)

subsection \<open>Changes of the parts\<close>

lemma workers_tasks:
  assumes "workers_ok works key_of workers runs x owns" "\<And>runId. workers runId \<noteq> None \<Longrightarrow> runs' runId"
    and "\<And>runId. owns \<Longrightarrow> runs' runId \<Longrightarrow> runs runId"
  shows "workers_ok works key_of workers runs' x owns"
  using assms unfolding workers_ok_def by blast

lemma workers_okD:
  assumes "workers_ok works key_of workers runs x owns"
  shows "workers runId = Some w \<Longrightarrow> runs runId"
    and "works key = Some wk \<Longrightarrow> wk_observer wk = Some runId \<Longrightarrow> key = key_of runId"
    and "works key = Some wk \<Longrightarrow> wk_observer wk = Some runId \<Longrightarrow> workers runId = Some WorkerRunning"
    and "workers runId = Some WorkerRunning \<Longrightarrow> \<exists>wk. works (key_of runId) = Some wk \<and> wk_observer wk = Some runId"
    and "works key = Some wk \<Longrightarrow> wk_executor wk = x"
    and "workers runId = Some (WorkerWaiting target wk) \<Longrightarrow> wk_executor wk = x"
    and "workers runId = Some (WorkerWaiting target wk) \<Longrightarrow> wk_observer wk = None"
    and "owns \<Longrightarrow> runs runId \<Longrightarrow> workers runId \<noteq> None"
  using assms unfolding workers_ok_def by blast+

lemma workers_okI:
  assumes "\<And>runId w. workers runId = Some w \<Longrightarrow> runs runId"
    and "\<And>key wk runId. works key = Some wk \<Longrightarrow> wk_observer wk = Some runId \<Longrightarrow> key = key_of runId \<and> workers runId = Some WorkerRunning"
    and "\<And>runId. workers runId = Some WorkerRunning \<Longrightarrow> \<exists>wk. works (key_of runId) = Some wk \<and> wk_observer wk = Some runId"
    and "\<And>key wk. works key = Some wk \<Longrightarrow> wk_executor wk = x"
    and "\<And>runId target wk. workers runId = Some (WorkerWaiting target wk) \<Longrightarrow> wk_executor wk = x \<and> wk_observer wk = None"
    and "\<And>runId. owns \<Longrightarrow> runs runId \<Longrightarrow> workers runId \<noteq> None"
  shows "workers_ok works key_of workers runs x owns"
proof -
  have "runs runId" if "workers runId \<noteq> None" for runId using that assms(1) by (cases "workers runId") auto
  with assms(2-6) show ?thesis unfolding workers_ok_def by blast
qed

lemma workers_admit:
  assumes "workers_ok works key_of workers runs x owns" "works key = None" "wk_observer wk = None" "wk_executor wk = x"
  shows "workers_ok (works(key \<mapsto> wk)) key_of workers runs x owns"
proof (rule workers_okI)
  show "\<exists>w. (works(key \<mapsto> wk)) (key_of j) = Some w \<and> wk_observer w = Some j" if "workers j = Some WorkerRunning" for j
    using workers_okD(4) [OF assms(1) that] assms(2) by (cases "key_of j = key") auto
qed (use assms in \<open>auto dest: workers_okD [OF assms(1)] split: if_splits\<close>)

lemma workers_begin:
  assumes "workers_ok works key_of workers runs x owns" "works (key_of runId) = None" "workers runId = Some (WorkerWaiting target wk)"
  shows "workers_ok (works(key_of runId \<mapsto> wk\<lparr>wk_observer := Some runId\<rparr>)) key_of (workers(runId \<mapsto> WorkerRunning)) runs x owns"
proof (rule workers_okI)
  note d = workers_okD [OF assms(1)]
  have new: "wk_observer w \<noteq> Some runId" if "works key = Some w" for key w using d(3) [OF that] assms(3) by fastforce
  show "key = key_of j \<and> (workers(runId \<mapsto> WorkerRunning)) j = Some WorkerRunning"
    if "(works(key_of runId \<mapsto> wk\<lparr>wk_observer := Some runId\<rparr>)) key = Some w" "wk_observer w = Some j" for key w j
    using that new d(2,3) by (cases "key = key_of runId") (auto split: if_splits)
  show "\<exists>w. (works(key_of runId \<mapsto> wk\<lparr>wk_observer := Some runId\<rparr>)) (key_of j) = Some w \<and> wk_observer w = Some j"
    if "(workers(runId \<mapsto> WorkerRunning)) j = Some WorkerRunning" for j
    using that d(4) [of j] assms(2) by (cases "j = runId") auto
qed (use assms in \<open>auto dest: workers_okD [OF assms(1)] split: if_splits\<close>)

lemma workers_return:
  assumes "workers_ok works key_of workers runs x owns" "workers runId = Some w" "w \<noteq> WorkerRunning"
  shows "workers_ok works key_of (workers(runId \<mapsto> WorkerReturned r)) runs x owns"
proof -
  have "works key = Some wk \<Longrightarrow> wk_observer wk \<noteq> Some runId" for key wk
    using assms unfolding workers_ok_def by fastforce
  with assms show ?thesis unfolding workers_ok_def by (auto split: if_splits)
qed

lemma workers_finish:
  assumes "workers_ok works key_of workers runs x owns" "works key = Some wk" "wk_observer wk = Some runId"
  shows "workers_ok (works(key := None)) key_of (workers(runId \<mapsto> WorkerReturned r)) runs x owns"
proof -
  have key: "key = key_of runId" "workers runId = Some WorkerRunning" using assms unfolding workers_ok_def by blast+
  have "runs runId" using assms(1) key(2) unfolding workers_ok_def by (metis option.distinct(1))
  have only: "k = key" if "works k = Some w" "wk_observer w = Some runId" for k w
    using assms(1) that key unfolding workers_ok_def by blast
  have other: "key_of j \<noteq> key" if "j \<noteq> runId" "workers j = Some WorkerRunning" for j
    using assms that unfolding workers_ok_def by (metis option.inject)
  show ?thesis using assms(1) \<open>runs runId\<close> only other unfolding workers_ok_def by (auto split: if_splits)
qed

lemma workers_forget:
  assumes "workers_ok works key_of workers runs x owns" "works key = Some wk" "wk_observer wk = None"
  shows "workers_ok (works(key := None)) key_of workers runs x owns"
proof -
  have "key_of j \<noteq> key" if "workers j = Some WorkerRunning" for j
    using assms that unfolding workers_ok_def by (metis option.inject option.distinct(1))
  with assms(1) show ?thesis unfolding workers_ok_def by (auto split: if_splits)
qed

lemma workers_done:
  assumes "workers_ok works key_of workers runs x owns" "workers runId = Some (WorkerReturned r)"
    and "\<And>j. runs' j \<longleftrightarrow> runs j \<and> j \<noteq> runId"
  shows "workers_ok works key_of (workers(runId := None)) runs' x owns"
  using assms unfolding workers_ok_def by (auto split: if_splits)

lemma workers_new:
  assumes "workers_ok works key_of workers runs x owns" "workers runId = None" "wk_observer wk = None" "wk_executor wk = x"
    and "\<And>j. runs' j \<longleftrightarrow> runs j \<or> j = runId"
  shows "workers_ok works key_of (workers(runId \<mapsto> WorkerWaiting target wk)) runs' x owns"
proof -
  have "works key = Some w \<Longrightarrow> wk_observer w \<noteq> Some runId" for key w
    using assms(1,2) unfolding workers_ok_def by fastforce
  with assms show ?thesis unfolding workers_ok_def by (auto split: if_splits)
qed

lemma workers_idle:
  assumes "workers_ok works key_of workers runs x owns" "works = (\<lambda>_. None)" "\<And>runId. \<not> runs runId"
  shows "workers_ok works key_of workers runs y owns"
  using assms unfolding workers_ok_def by auto

subsection \<open>The parts under the steps of the service\<close>

lemma works_stops: "stops_only s s' \<Longrightarrow> es_works s' = es_works s"
proof
  fix key assume "stops_only s s'"
  then have "es_table s' key = es_table s key \<or> (\<exists>ax. es_table s key = Some ax \<and> es_table s' key = Some (requestStop StopCancel ax))"
    unfolding stops_only_def stopped_def by blast
  then show "es_works s' key = es_works s key" by (auto simp: es_works_def)
qed

lemma works_cong: "es_activeBySession s' = es_activeBySession s \<Longrightarrow> es_works s' = es_works s"
  using es_table_cong [of s' s] by (simp add: es_works_def fun_eq_iff)

lemma works_set_tasks [simp]: "es_works (set_tasks tasks s) = es_works s"
  using works_stops [OF set_tasks_stops [of tasks s]] works_cong [of "s\<lparr>es_taskStore := tasks\<rparr>" s] by simp

lemma works_put:
  assumes "es_lookup s k r = Some ax" "ax_work ax' = ax_work ax"
  shows "es_works (put_execution k r ax' s) = es_works s"
  using assms by (auto simp: es_works_def es_table_def lookup_put fun_eq_iff)

lemma works_put_state:
  assumes "es_lookup s k r = Some ax" "exec_step (ax, es_outputStore s, es_audit s) st"
  shows "es_works (put_state k r st s) = es_works s"
proof -
  obtain ax' os' audit' where st: "st = (ax', os', audit')" by (cases st)
  have "ax_work ax' = ax_work ax" using exec_step_frame [OF assms(2) [unfolded st]] by (simp add: same_identity_def)
  from works_put [OF assms(1) this] works_cong [of "put_state k r st s" "put_execution k r ax' s"]
  show ?thesis by (simp add: put_state_def st)
qed

lemma works_start:
  assumes "startExecution k r i target work s = (Inr u, s')" "table_ok s"
  shows "es_works s' = (es_works s)((k, r) \<mapsto> work)" "es_works s (k, r) = None"
  using start_admitted [OF assms] by (auto simp: es_works_def es_table_def fun_eq_iff new_execution_def)

lemma works_remove:
  assumes "table_ok s" "es_lookup s k r = Some ax"
  shows "es_works (removeExecution k r s) = (es_works s)((k, r) := None)"
  using remove_execution(2) [OF assms] by (auto simp: es_works_def es_table_def fun_eq_iff)

lemma runs_drops: "ts_inv s \<Longrightarrow> drops_ended s s' \<Longrightarrow> task_runs k s' = task_runs k s"
  unfolding task_runs_def by (meson drops_ended_running drops_ended_lookup)

lemma runs_modify: "(\<And>t. is_running (f t) = is_running t) \<Longrightarrow> task_runs j (modify_task k f s) = task_runs j s"
  by (auto simp: task_runs_def map_of_modify)

lemma runs_cleanup: "ts_inv s \<Longrightarrow> task_runs j (ts_cleanup now s) = task_runs j s"
  using runs_drops drops_ended_cleanup by blast

lemma runs_cancel:
  assumes "ts_inv s" "ts_cancel now k s = (r, s')"
  shows "task_runs j s' = task_runs j s"
proof -
  have "is_running (t\<lparr>t_requestedStop := Some StopCancelled, t_aborted := True\<rparr>) = is_running t" for t by (simp add: is_running_def)
  with ts_cancel_store [OF assms(2)] runs_cleanup [OF assms(1)] show ?thesis by (auto simp: runs_modify)
qed

lemma runs_shutdown: "task_runs j (ts_shutdown s) = task_runs j s"
  by (auto simp: task_runs_def map_of_shutdown)

lemma runs_none: "activeCount s = 0 \<Longrightarrow> \<not> task_runs k s"
  by (auto simp: activeCount_def task_runs_def filter_empty_conv dest!: map_of_SomeD)

lemma table_empty_list: "table_ok s \<Longrightarrow> es_activeCount s = 0 \<Longrightarrow> es_activeBySession s = []"
proof (rule ccontr)
  assume ok: "table_ok s" and z: "es_activeCount s = 0" and "es_activeBySession s \<noteq> []"
  then obtain k m t where t: "es_activeBySession s = (k, m) # t" by (metis list.exhaust surj_pair)
  with ok have "m \<noteq> []" by (simp add: table_ok_def well_formed_def)
  then have "0 < length m" by simp
  with ok z t show False unfolding table_ok_def table_size_def by simp
qed

lemma table_empty: "table_ok s \<Longrightarrow> es_activeCount s = 0 \<Longrightarrow> es_table s = (\<lambda>_. None)"
  using table_empty_list [of s] by (simp add: es_table_def es_lookup_def fun_eq_iff)

subsection \<open>The invariant\<close>

definition tasks_ok :: "exec_service \<Rightarrow> bool" where
  "tasks_ok s \<longleftrightarrow> ts_reachable (es_taskStore s) \<and> service_workers_ok s"

lemma tasks_ok_same:
  assumes "tasks_ok s" "es_works s' = es_works s" "es_workers s' = es_workers s" "es_taskStore s' = es_taskStore s"
    "gn_executor (es_generation s') = gn_executor (es_generation s)" "es_ownsTaskStore s' = es_ownsTaskStore s"
  shows "tasks_ok s'"
  using assms by (simp add: tasks_ok_def)

lemma tasks_ok_stops: "stops_only s s' \<Longrightarrow> tasks_ok s \<Longrightarrow> tasks_ok s'"
  by (erule tasks_ok_same) (simp_all add: works_stops stops_only_fields)

lemma tasks_ok_set:
  assumes "tasks_ok s" "ts_reachable tasks" "\<And>j. task_runs j tasks = task_runs j (es_taskStore s)"
  shows "tasks_ok (set_tasks tasks s)"
  using assms by (simp add: tasks_ok_def)

lemma tasks_ok_start:
  assumes "startExecution k r i target work s = (res, s')" "table_ok s" "tasks_ok s"
    and "wk_observer work = None" "wk_executor work = gn_executor (es_generation s)"
  shows "tasks_ok s'"
proof (cases res)
  case (Inl e)
  with start_refused assms(1,2) have "s' = s" by blast
  with assms(3) show ?thesis by simp
next
  case (Inr u)
  note w = works_start [OF assms(1) [unfolded Inr] assms(2)]
  from start_admitted(5) [OF assms(1) [unfolded Inr] assms(2)] obtain t where
    t: "s' = s\<lparr>es_activeBySession := t, es_activeCount := es_activeCount s + 1\<rparr>" by blast
  have "workers_ok (es_works s') worker_key (map_of (es_workers s)) (\<lambda>runId. task_runs runId (es_taskStore s))
     (gn_executor (es_generation s)) (es_ownsTaskStore s)"
    unfolding w(1) by (rule workers_admit) (use assms w(2) in \<open>simp_all add: tasks_ok_def\<close>)
  with assms(3) show ?thesis by (simp add: tasks_ok_def t)
qed

lemma prepared_fields [simp]:
  "wk_observer (prepared_work gen a c p) = None" "wk_executor (prepared_work gen a c p) = gn_executor gen"
  by (simp_all add: prepared_work_def)

lemma prepareRun_fields: "prepareRun params s = Inr work \<Longrightarrow> wk_observer work = None \<and> wk_executor work = gn_executor (es_generation s)"
  by (auto simp: prepareRun_def and_then_def Let_def split: sum.splits run_command.splits)

lemma tasks_ok_methods:
  assumes "table_ok s" "tasks_ok s"
  shows "es_run k r i params s = (res, s') \<Longrightarrow> tasks_ok s'"
    and "es_check k r i target s = (res, s') \<Longrightarrow> tasks_ok s'"
    and "runOperation k r i target oper parameters timeoutMs s = (res, s') \<Longrightarrow> tasks_ok s'"
    and "runFixedExecution k r i target authorization kind probe maxOutputBytes s = (res, s') \<Longrightarrow> tasks_ok s'"
proof -
  note start = tasks_ok_start [OF _ assms]
  show "es_run k r i params s = (res, s') \<Longrightarrow> tasks_ok s'"
    using start prepareRun_fields assms(2) by (auto simp: es_run_def split: sum.splits)
  show "es_check k r i target s = (res, s') \<Longrightarrow> tasks_ok s'"
    using start assms(2) by (auto simp: es_check_def and_then_def split: sum.splits)
  show "runOperation k r i target oper parameters timeoutMs s = (res, s') \<Longrightarrow> tasks_ok s'"
    using start assms(2) by (auto simp: runOperation_def and_then_def Let_def split: sum.splits prod.splits)
  show "runFixedExecution k r i target authorization kind probe maxOutputBytes s = (res, s') \<Longrightarrow> tasks_ok s'"
    unfolding runFixedExecution_def by (erule start) simp_all
qed

lemma tasks_ok_startTask:
  assumes "es_startTask now startedAtMs createRunId params s = (res, s')" "tasks_ok s"
  shows "tasks_ok s'"
proof (cases "prepareRun params s")
  case (Inl e)
  with assms show ?thesis by (simp add: es_startTask_def)
next
  case (Inr work)
  let ?ts = "es_taskStore s" and ?opts = "\<lparr>so_kind = ExecTask, so_target = rp_target params, so_timeoutMs = None\<rparr>"
  obtain r tasks where st: "ts_start ?ts ?opts now startedAtMs createRunId = (r, tasks)" by force
  have inv: "ts_inv ?ts" and reach: "ts_reachable tasks"
    using assms(2) ts_step.start [OF st] by (auto simp: tasks_ok_def intro: ts_reachable_inv ts_reachable.step)
  from inv st show ?thesis
  proof (cases rule: ts_start_cases)
    case (failed e)
    with assms(1) Inr st have "s' = set_tasks tasks s" by (simp add: es_startTask_def)
    with tasks_ok_set [OF assms(2) reach] runs_drops [OF inv failed(2)] show ?thesis by simp
  next
    case (started runId ts2)
    let ?w = "WorkerWaiting (rp_target params) work"
    have s': "s' = (set_tasks tasks s)\<lparr>es_workers := AList.update runId ?w (es_workers s)\<rparr>"
      using assms(1) Inr st started(1) by (simp add: es_startTask_def)
    have "is_running (new_task ts2 ?opts runId startedAtMs)" by (simp add: new_task_def is_running_def)
    then have runs: "task_runs j tasks \<longleftrightarrow> task_runs j ?ts \<or> j = runId" for j
      using runs_drops [OF inv started(2), of j] started(8) by (auto simp: task_runs_def update_conv')
    have fresh: "\<not> task_runs runId ?ts" using runs_drops [OF inv started(2), of runId] started(4) by (simp add: task_runs_def)
    have ok: "service_workers_ok s" using assms(2) by (simp add: tasks_ok_def)
    have "map_of (es_workers s) runId = None" using workers_okD(1) [OF ok] fresh by (cases "map_of (es_workers s) runId") auto
    from workers_new [OF ok this _ _ runs, of work] prepareRun_fields [OF Inr]
    have "workers_ok (es_works s) worker_key ((map_of (es_workers s))(runId \<mapsto> ?w)) (\<lambda>j. task_runs j tasks)
        (gn_executor (es_generation s)) (es_ownsTaskStore s)" by simp
    moreover have "es_works s' = es_works s" unfolding s' by (subst works_cong [of _ "set_tasks tasks s"]) simp_all
    ultimately show ?thesis using reach by (simp add: tasks_ok_def s' update_conv')
  qed
qed

lemma tasks_ok_task_calls:
  assumes "tasks_ok s"
  shows "es_taskStatus nowCleanup now runId s = (res2, s') \<Longrightarrow> tasks_ok s'"
    and "es_taskTail parse sha now runId cursor limit s = (res3, s') \<Longrightarrow> tasks_ok s'"
    and "es_cancelTask now runId s = (res4, s') \<Longrightarrow> tasks_ok s'"
proof -
  have inv: "ts_inv (es_taskStore s)" and reach: "ts_reachable (es_taskStore s)"
    using assms by (auto simp: tasks_ok_def intro: ts_reachable_inv)
  note set = tasks_ok_set [OF assms ts_reachable.step [OF reach]] and cl = runs_cleanup [OF inv]
  show "es_taskStatus nowCleanup now runId s = (res2, s') \<Longrightarrow> tasks_ok s'"
  proof -
    assume st: "es_taskStatus nowCleanup now runId s = (res2, s')"
    obtain r tasks where t: "ts_status nowCleanup now runId (es_taskStore s) = (r, tasks)" by force
    from set [OF ts_step.status [OF t]] cl ts_status_store [OF t] t st show ?thesis by (simp add: es_taskStatus_def)
  qed
  show "es_taskTail parse sha now runId cursor limit s = (res3, s') \<Longrightarrow> tasks_ok s'"
  proof -
    assume st: "es_taskTail parse sha now runId cursor limit s = (res3, s')"
    obtain r tasks where t: "ts_tail parse sha now runId cursor limit (es_taskStore s) = (r, tasks)" by force
    have "task_runs j tasks = task_runs j (es_taskStore s)" for j using ts_tail_store [OF t] cl by auto
    from set [OF ts_step.tail [OF t] this] t st show ?thesis by (simp add: es_taskTail_def)
  qed
  show "es_cancelTask now runId s = (res4, s') \<Longrightarrow> tasks_ok s'"
    using set [OF ts_step.cancel] runs_cancel [OF inv] by (auto simp: es_cancelTask_def split: prod.splits)
qed

lemma tasks_ok_deliver:
  assumes "tasks_ok s"
  shows "tasks_ok (deliver stored now s)"
proof (cases "es_deliveries s")
  case Nil
  with assms show ?thesis by (simp add: deliver_def)
next
  case (Cons d rest)
  obtain runId stream chunk where d: "d = (runId, stream, chunk)" by (cases d)
  let ?t = "modify_task runId (task_append stream chunk now) (es_taskStore s)"
  have "tasks_ok (set_tasks ?t s)"
    using assms by (intro tasks_ok_set) (auto simp: tasks_ok_def runs_modify intro: ts_reachable.step ts_step.append)
  moreover have "tasks_ok (u\<lparr>es_deliveries := rest\<rparr>)" if "tasks_ok u" for u
    using that by (rule tasks_ok_same) (simp_all add: works_cong [of "u\<lparr>es_deliveries := rest\<rparr>" u])
  ultimately show ?thesis using assms Cons d by (simp add: deliver_def)
qed

lemma tasks_ok_worker:
  assumes "table_ok s" "tasks_ok s"
  shows "tasks_ok (begin_worker runId i s)"
proof (cases "\<exists>target work. map_of (es_workers s) runId = Some (WorkerWaiting target work)")
  case False
  then have "begin_worker runId i s = s" by (auto simp: begin_worker_def split: option.splits worker.splits)
  with assms(2) show ?thesis by simp
next
  case True
  then obtain target work where w: "map_of (es_workers s) runId = Some (WorkerWaiting target work)" by blast
  have ok: "service_workers_ok s" using assms(2) by (simp add: tasks_ok_def)
  let ?work = "work\<lparr>wk_observer := Some runId\<rparr>"
  obtain res s1 where st: "startExecution (worker_session runId) (StringId runId) i target ?work s = (res, s1)" by force
  define s2 where "s2 = (if task_aborted runId (es_taskStore s1) then snd (es_cancel (worker_session runId) (StringId runId) s1) else s1)"
  have c: "stops_only s1 s2" unfolding s2_def using stops_only_cancel by simp
  note f = stops_only_fields [OF c] and wk = works_stops [OF c]
  show ?thesis
  proof (cases res)
    case (Inl e)
    let ?s = "s2\<lparr>es_workers := AList.update runId (WorkerReturned (Inl e)) (es_workers s2)\<rparr>"
    have b: "begin_worker runId i s = ?s" using w st Inl by (simp add: begin_worker_def s2_def Let_def)
    have "s1 = s" using start_refused [OF st [unfolded Inl] assms(1)] .
    moreover have "es_works ?s = es_works s2" by (rule works_cong) simp
    moreover have "workers_ok (es_works s) worker_key ((map_of (es_workers s))(runId \<mapsto> WorkerReturned (Inl e)))
        (\<lambda>j. task_runs j (es_taskStore s)) (gn_executor (es_generation s)) (es_ownsTaskStore s)"
      by (rule workers_return [OF ok w]) simp
    ultimately show ?thesis using assms(2) f wk unfolding b by (simp add: tasks_ok_def update_conv')
  next
    case (Inr u)
    let ?s = "s2\<lparr>es_workers := AList.update runId WorkerRunning (es_workers s2)\<rparr>"
    have b: "begin_worker runId i s = ?s" using w st Inr by (simp add: begin_worker_def s2_def Let_def)
    note ws = works_start [OF st [unfolded Inr] assms(1), folded worker_key_def]
    from start_admitted(5) [OF st [unfolded Inr] assms(1)] obtain t where
      t: "s1 = s\<lparr>es_activeBySession := t, es_activeCount := es_activeCount s + 1\<rparr>" by blast
    have "es_works ?s = es_works s2" by (rule works_cong) simp
    moreover have "workers_ok ((es_works s)(worker_key runId \<mapsto> ?work)) worker_key ((map_of (es_workers s))(runId \<mapsto> WorkerRunning))
        (\<lambda>j. task_runs j (es_taskStore s)) (gn_executor (es_generation s)) (es_ownsTaskStore s)"
      by (rule workers_begin [OF ok ws(2) w])
    ultimately show ?thesis using assms(2) f wk ws(1) unfolding b by (simp add: tasks_ok_def update_conv' t)
  qed
qed

lemma tasks_ok_done:
  assumes "tasks_ok s"
  shows "tasks_ok (worker_done now runId s) \<or> (\<exists>x. map_of (es_workers s) runId = Some (WorkerReturned (Inr (Probed x))))"
proof (cases "\<exists>r. map_of (es_workers s) runId = Some (WorkerReturned r)")
  case False
  then have "worker_done now runId s = s" by (auto simp: worker_done_def split: option.splits worker.splits)
  with assms show ?thesis by simp
next
  case True
  then obtain r where w: "map_of (es_workers s) runId = Some (WorkerReturned r)" by blast
  let ?ts = "es_taskStore s" and ?ttl = "ts_ttlMs (es_taskStore s)"
  have ok: "service_workers_ok s" and reach: "ts_reachable ?ts" using assms by (simp_all add: tasks_ok_def)
  from workers_okD(1) [OF ok w] obtain t where t: "map_of (ts_tasks ?ts) runId = Some t" "is_running t" by (auto simp: task_runs_def)
  have unsettled: "\<not> t_settled t"
    using ts_inv_task [OF ts_reachable_inv [OF reach] t(1)] t(2) by (simp add: task_ok_def is_running_def)
  have main: "tasks_ok ((set_tasks (modify_task runId f ?ts) s)\<lparr>es_workers := AList.delete runId (es_workers s)\<rparr>)"
    if f: "ts_step ?ts (modify_task runId f ?ts)" "\<not> is_running (f t)" for f
  proof -
    let ?s = "(set_tasks (modify_task runId f ?ts) s)\<lparr>es_workers := AList.delete runId (es_workers s)\<rparr>"
    have "task_runs j (modify_task runId f ?ts) \<longleftrightarrow> task_runs j ?ts \<and> j \<noteq> runId" for j
      using f(2) t by (auto simp: task_runs_def map_of_modify)
    from workers_done [OF ok w this]
    have "workers_ok (es_works s) worker_key ((map_of (es_workers s))(runId := None)) (\<lambda>j. task_runs j (modify_task runId f ?ts))
        (gn_executor (es_generation s)) (es_ownsTaskStore s)" .
    moreover have "es_works ?s = es_works s" by (subst works_cong [of _ "set_tasks (modify_task runId f ?ts) s"]) simp_all
    moreover have "ts_reachable (modify_task runId f ?ts)" using reach f(1) by (rule ts_reachable.step)
    ultimately show ?thesis by (simp add: tasks_ok_def delete_conv')
  qed
  show ?thesis
  proof (cases r)
    case (Inl e)
    with w main [OF ts_step.fail [OF t(1) unsettled]] show ?thesis by (simp add: worker_done_def Let_def)
  next
    case (Inr v)
    show ?thesis
    proof (cases v)
      case (Executed result reason)
      with w Inr main [OF ts_step.complete [OF t(1) unsettled]] show ?thesis by (simp add: worker_done_def Let_def)
    next
      case (Probed x)
      with w Inr show ?thesis by blast
    qed
  qed
qed

text \<open>A task never runs a probe, so its worker returns the result of a command.\<close>

fun no_probe :: "worker \<Rightarrow> bool" where
  "no_probe (WorkerWaiting _ wk) = (\<not> is_probe wk)"
| "no_probe WorkerRunning = True"
| "no_probe (WorkerReturned r) = (case r of Inr (Probed _) \<Rightarrow> False | _ \<Rightarrow> True)"

definition probes_ok :: "exec_service \<Rightarrow> bool" where
  "probes_ok s \<longleftrightarrow> (\<forall>key wk. es_works s key = Some wk \<longrightarrow> wk_observer wk \<noteq> None \<longrightarrow> \<not> is_probe wk)
     \<and> (\<forall>runId w. map_of (es_workers s) runId = Some w \<longrightarrow> no_probe w)"

lemma probes_same:
  "probes_ok s \<Longrightarrow> es_works s' = es_works s \<Longrightarrow> es_workers s' = es_workers s \<Longrightarrow> probes_ok s'"
  by (simp add: probes_ok_def)

lemma probes_stops: "stops_only s s' \<Longrightarrow> probes_ok s \<Longrightarrow> probes_ok s'"
  by (erule probes_same) (simp_all add: works_stops stops_only_fields)

lemma probes_start:
  assumes "startExecution k r i target work s = (res, s')" "table_ok s" "probes_ok s"
    and "wk_observer work = None \<or> \<not> is_probe work"
  shows "probes_ok s'"
proof (cases res)
  case (Inl e)
  with start_refused assms(1,2) have "s' = s" by blast
  with assms(3) show ?thesis by simp
next
  case (Inr u)
  from start_admitted(5) [OF assms(1) [unfolded Inr] assms(2)] obtain t where
    t: "s' = s\<lparr>es_activeBySession := t, es_activeCount := es_activeCount s + 1\<rparr>" by blast
  have "es_workers s' = es_workers s" by (simp add: t)
  with works_start(1) [OF assms(1) [unfolded Inr] assms(2)] assms(3,4) show ?thesis
    unfolding probes_ok_def by (auto split: if_splits simp del: not_None_eq split_paired_All)
qed

lemma prepareRun_no_probe: "prepareRun params s = Inr work \<Longrightarrow> \<not> is_probe work"
  by (auto simp: prepareRun_def and_then_def Let_def is_probe_def prepared_work_def split: sum.splits run_command.splits)

lemma probes_methods:
  assumes "table_ok s" "probes_ok s"
  shows "es_run k r i params s = (res, s') \<Longrightarrow> probes_ok s'"
    and "es_check k r i target s = (res, s') \<Longrightarrow> probes_ok s'"
    and "runOperation k r i target oper parameters timeoutMs s = (res, s') \<Longrightarrow> probes_ok s'"
    and "runFixedExecution k r i target authorization kind probe maxOutputBytes s = (res, s') \<Longrightarrow> probes_ok s'"
proof -
  note start = probes_start [OF _ assms]
  show "es_run k r i params s = (res, s') \<Longrightarrow> probes_ok s'"
    using start prepareRun_no_probe assms(2) by (auto simp: es_run_def split: sum.splits)
  show "es_check k r i target s = (res, s') \<Longrightarrow> probes_ok s'"
    using start assms(2) by (auto simp: es_check_def and_then_def split: sum.splits)
  show "runOperation k r i target oper parameters timeoutMs s = (res, s') \<Longrightarrow> probes_ok s'"
    using start assms(2) by (auto simp: runOperation_def and_then_def Let_def split: sum.splits prod.splits)
  show "runFixedExecution k r i target authorization kind probe maxOutputBytes s = (res, s') \<Longrightarrow> probes_ok s'"
    unfolding runFixedExecution_def by (erule start) simp_all
qed

lemma probes_workers:
  assumes "probes_ok s" "no_probe w"
  shows "probes_ok (s\<lparr>es_workers := AList.update runId w (es_workers s)\<rparr>)" "probes_ok (s\<lparr>es_workers := AList.delete runId (es_workers s)\<rparr>)"
  using assms works_cong [of "s\<lparr>es_workers := AList.update runId w (es_workers s)\<rparr>" s]
    works_cong [of "s\<lparr>es_workers := AList.delete runId (es_workers s)\<rparr>" s]
  unfolding probes_ok_def by (auto simp: update_conv' delete_conv' split: if_splits simp del: split_paired_All)

lemma probes_set_tasks: "probes_ok s \<Longrightarrow> probes_ok (set_tasks tasks s)"
  by (erule probes_same) simp_all

lemma probes_tasks:
  assumes "probes_ok s"
  shows "es_startTask now startedAtMs createRunId params s = (res, s') \<Longrightarrow> probes_ok s'"
    and "es_taskStatus nowCleanup now runId s = (res2, s') \<Longrightarrow> probes_ok s'"
    and "es_taskTail parse sha now runId cursor limit s = (res3, s') \<Longrightarrow> probes_ok s'"
    and "es_cancelTask now runId s = (res4, s') \<Longrightarrow> probes_ok s'"
    and "probes_ok (worker_done now runId s)" "probes_ok (deliver stored now s)"
proof -
  note set = probes_set_tasks [OF assms]
  have new: "probes_ok ((set_tasks tasks s)\<lparr>es_workers := AList.update runId (WorkerWaiting target work) (es_workers s)\<rparr>)"
    if "prepareRun params s = Inr work" for tasks runId target work
    using probes_workers(1) [OF set, of "WorkerWaiting target work" runId tasks] prepareRun_no_probe [OF that] by simp
  show "es_startTask now startedAtMs createRunId params s = (res, s') \<Longrightarrow> probes_ok s'"
    using set new assms by (auto simp: es_startTask_def split: sum.splits prod.splits)
  show "es_taskStatus nowCleanup now runId s = (res2, s') \<Longrightarrow> probes_ok s'"
    using set by (auto simp: es_taskStatus_def split: prod.splits)
  show "es_taskTail parse sha now runId cursor limit s = (res3, s') \<Longrightarrow> probes_ok s'"
    using set by (auto simp: es_taskTail_def split: prod.splits)
  show "es_cancelTask now runId s = (res4, s') \<Longrightarrow> probes_ok s'"
    using set by (auto simp: es_cancelTask_def split: prod.splits)
  have "probes_ok ((set_tasks tasks s)\<lparr>es_workers := AList.delete runId (es_workers s)\<rparr>)" for tasks
    using probes_workers(2) [OF set, of WorkerRunning runId tasks] by simp
  then show "probes_ok (worker_done now runId s)"
    using assms by (auto simp: worker_done_def Let_def split: option.splits worker.splits)
  have "probes_ok (u\<lparr>es_deliveries := d\<rparr>)" if "probes_ok u" for u d
    using that by (rule probes_same) (simp_all add: works_cong [of "u\<lparr>es_deliveries := d\<rparr>" u])
  with set assms show "probes_ok (deliver stored now s)" by (auto simp: deliver_def split: list.splits)
qed

lemma probes_begin:
  assumes "table_ok s" "probes_ok s"
  shows "probes_ok (begin_worker runId i s)"
proof (cases "\<exists>target work. map_of (es_workers s) runId = Some (WorkerWaiting target work)")
  case False
  then have "begin_worker runId i s = s" by (auto simp: begin_worker_def split: option.splits worker.splits)
  with assms(2) show ?thesis by simp
next
  case True
  then obtain target work where w: "map_of (es_workers s) runId = Some (WorkerWaiting target work)" by blast
  then have np: "\<not> is_probe (work\<lparr>wk_observer := Some runId\<rparr>)" using assms(2) by (fastforce simp: probes_ok_def is_probe_def)
  obtain res s1 where st: "startExecution (worker_session runId) (StringId runId) i target (work\<lparr>wk_observer := Some runId\<rparr>) s = (res, s1)"
    by force
  let ?s2 = "if task_aborted runId (es_taskStore s1) then snd (es_cancel (worker_session runId) (StringId runId) s1) else s1"
  have "probes_ok s1" using probes_start [OF st assms] np by simp
  then have "probes_ok ?s2" using probes_stops [OF stops_only_cancel] by simp
  from probes_workers(1) [OF this, of _ runId] show ?thesis using w st
    by (cases res) (simp_all add: begin_worker_def Let_def)
qed

lemma probes_finish:
  assumes "table_ok s" "executions_ok (core_of s)" "probes_ok s" "es_lookup s k r = Some ax" "ax_phase ax = Ended res"
  shows "probes_ok (finish_execution k r res ax s)"
proof -
  have rm: "probes_ok (removeExecution k r s)"
    using assms(3) works_remove [OF assms(1,4)] remove_execution(3) [OF assms(1,4)]
    unfolding probes_ok_def by (auto split: if_splits simp del: split_paired_All)
  show ?thesis
  proof (cases "wk_observer (ax_work ax)")
    case None
    with rm show ?thesis by (simp add: finish_execution_def)
  next
    case (Some runId)
    have "es_works s (k, r) = Some (ax_work ax)" using assms(4) by (simp add: es_works_def es_table_def)
    with assms(3) Some have np: "\<not> is_probe (ax_work ax)" unfolding probes_ok_def by blast
    have ok: "exec_ok (snd (k, r)) ax (es_outputStore s) (es_audit s)"
      using executions_okD(2) [OF assms(2), of "(k, r)" ax] assms(4) by (simp add: es_table_def)
    have "no_probe (WorkerReturned res)"
    proof (cases res)
      case (Inr v)
      then have "ax_sink ax \<noteq> None" using ok np assms(5) by (auto simp: exec_ok_def control_ok_def)
      then show ?thesis using ok assms(5) Inr
        by (auto simp: exec_ok_def progress_ok_def output_ok_def execution_result_def Let_def split: if_splits)
    qed simp
    from probes_workers(1) [OF rm this, of runId] Some show ?thesis by (simp add: finish_execution_def Let_def)
  qed
qed

end
