(* ===== verification/ExecProps.thy ===== *)
theory ExecProps
  imports ExecTasks
begin

text \<open>
  The invariant of the execution service and what follows from it: limits, results, sinks, reloads and the
  cancellation of tasks.
\<close>

section \<open>The invariant of the service\<close>

definition service_inv :: "exec_service \<Rightarrow> bool" where
  "service_inv s \<longleftrightarrow> table_ok s \<and> os_reachable (es_outputStore s) \<and> executions_ok (core_of s) \<and> sinks_held (core_of s)
     \<and> tasks_ok s \<and> probes_ok s"

lemma tasks_ok_commit:
  assumes "table_ok s" "tasks_ok s"
  shows "tasks_ok (snd (lease_commit token gen s))" "tasks_ok (lease_settle token s)"
proof -
  have settle: "tasks_ok (lease_settle token s)"
    by (rule tasks_ok_same [OF assms(2) works_cong]) (simp_all add: lease_settle_def)
  then show "tasks_ok (lease_settle token s)" .
  let ?s = "s\<lparr>es_generation := gen, es_leases := (es_leases s)[token := (es_leases s ! token)\<lparr>le_committed := True\<rparr>]\<rparr>"
  have "tasks_ok ?s" if "\<not> work_active s"
  proof -
    have z: "es_activeCount s = 0" "activeCount (es_taskStore s) = 0" using that by (auto simp: work_active_def)
    have e: "es_works s = (\<lambda>_. None)" using table_empty [OF assms(1) z(1)] by (intro ext) (simp add: es_works_def)
    have "workers_ok (es_works s) worker_key (map_of (es_workers s)) (\<lambda>j. task_runs j (es_taskStore s))
        (gn_executor gen) (es_ownsTaskStore s)"
      by (rule workers_idle [of _ _ _ _ "gn_executor (es_generation s)"])
        (use assms(2) e runs_none [OF z(2)] in \<open>simp_all only: tasks_ok_def not_False_eq_True\<close>)
    moreover have "es_works ?s = es_works s" by (rule works_cong) simp
    ultimately show ?thesis using assms(2) by (simp add: tasks_ok_def)
  qed
  with settle assms(2) show "tasks_ok (snd (lease_commit token gen s))" by (simp add: lease_commit_def Let_def)
qed

lemma tasks_ok_generation:
  assumes "table_ok s" "tasks_ok s"
  shows "tasks_ok (snd (beginReload s))" "tasks_ok (snd (updateMetadata m s))"
  by (rule tasks_ok_same [OF assms(2) works_cong];
      simp add: beginReload_def updateMetadata_def Let_def split: sum.split)+

lemma reload_fields:
  "es_workers (snd (beginReload s)) = es_workers s" "es_activeBySession (snd (beginReload s)) = es_activeBySession s"
  "es_workers (snd (updateMetadata m s)) = es_workers s" "es_activeBySession (snd (updateMetadata m s)) = es_activeBySession s"
  "es_workers (lease_settle token s) = es_workers s" "es_activeBySession (lease_settle token s) = es_activeBySession s"
  "es_workers (snd (lease_commit token gen s)) = es_workers s" "es_activeBySession (snd (lease_commit token gen s)) = es_activeBySession s"
  by (simp_all add: beginReload_def updateMetadata_def lease_settle_def lease_commit_def Let_def split: sum.split)

lemma probes_generation:
  assumes "probes_ok s"
  shows "probes_ok (snd (beginReload s))" "probes_ok (snd (updateMetadata m s))" "probes_ok (lease_settle token s)"
    "probes_ok (snd (lease_commit token gen s))"
  by (rule probes_same [OF assms works_cong]; simp add: reload_fields)+

lemma removeTargets_cases:
  assumes "removeTargets aliases m s = (res, s')"
  obtains (refused) "s' = snd (beginReload s)"
  | (failed) token where "s' = lease_settle token (snd (beginReload s))"
  | (committed) token registry where
      "s' = lease_settle token (snd (lease_commit token ((es_generation s)\<lparr>gn_registry := registry\<rparr>) (snd (beginReload s))))"
proof -
  obtain b s1 where br: "beginReload s = (b, s1)" by force
  then have s1: "snd (beginReload s) = s1" and g: "es_generation s1 = es_generation s"
    by (auto simp: beginReload_def Let_def split: if_splits)
  show thesis
  proof (cases b)
    case (Inl e)
    with assms br have "s' = s1" by (simp add: removeTargets_def)
    with s1 show thesis by (intro refused) simp
  next
    case (Inr token)
    define chain where "chain = and_then (sshAliasesForRemoval (gn_registry (es_generation s)) aliases) (\<lambda>sshAliases.
                and_then (withoutTargets (gn_registry (es_generation s)) aliases) (\<lambda>registry.
                and_then (case m of None \<Rightarrow> Inr registry | Some m \<Rightarrow> withMetadata registry m) (\<lambda>registry.
                Inr (registry, sshAliases))))"
    have eq: "removeTargets aliases m s = (case chain of Inl e \<Rightarrow> (Inl e, lease_settle token s1)
      | Inr (registry, sshAliases) \<Rightarrow>
          (case lease_commit token ((es_generation s)\<lparr>gn_registry := registry\<rparr>) s1 of
             (Inl e, s2) \<Rightarrow> (Inl e, lease_settle token s2)
           | (Inr _, s2) \<Rightarrow> (Inr (registry, sshAliases), lease_settle token s2)))"
      unfolding removeTargets_def br Inr prod.case sum.case Let_def g chain_def by (rule refl)
    show thesis
    proof (cases chain)
      case (Inl e)
      with assms eq have "s' = lease_settle token s1" by simp
      with s1 show thesis by (intro failed) simp
    next
      case (Inr v)
      obtain registry sshAliases where v: "v = (registry, sshAliases)" by force
      obtain c s2 where c: "lease_commit token ((es_generation s)\<lparr>gn_registry := registry\<rparr>) s1 = (c, s2)" by force
      have "s' = lease_settle token s2" using assms eq Inr v c by (cases c) simp_all
      with s1 c show thesis by (intro committed [of token registry]) simp
    qed
  qed
qed

lemma generation_steps:
  assumes "table_ok s" "tasks_ok s" "probes_ok s" "removeTargets aliases m s = (res, s')"
  shows "tasks_ok s' \<and> probes_ok s'"
proof -
  let ?s = "snd (beginReload s)"
  have 1: "table_ok ?s" "tasks_ok ?s" "probes_ok ?s"
    using simulated_reload(1) [OF assms(1)] tasks_ok_generation(1) [OF assms(1,2)] probes_generation(1) [OF assms(3)]
    by (simp_all add: simulated_def)
  have 2: "tasks_ok (lease_settle token u) \<and> probes_ok (lease_settle token u)" if "table_ok u" "tasks_ok u" "probes_ok u" for token u
    using tasks_ok_commit(2) [OF that(1,2)] probes_generation(3) [OF that(3)] by simp
  from assms(4) show ?thesis
  proof (cases rule: removeTargets_cases)
    case refused
    with 1 show ?thesis by simp
  next
    case (failed token)
    with 1 2 show ?thesis by simp
  next
    case (committed token registry)
    let ?u = "snd (lease_commit token ((es_generation s)\<lparr>gn_registry := registry\<rparr>) ?s)"
    have "table_ok ?u" "tasks_ok ?u" "probes_ok ?u"
      using simulated_reload(3) [OF 1(1)] tasks_ok_commit(1) [OF 1(1,2)] probes_generation(4) [OF 1(3)] by (simp_all add: simulated_def)
    with committed 2 show ?thesis by simp
  qed
qed

lemma tasks_ok_other:
  assumes "tasks_ok s" "\<not> es_ownsTaskStore s" "ts_step (es_taskStore s) tasks"
    and "\<forall>runId w t. map_of (es_workers s) runId = Some w \<longrightarrow> map_of (ts_tasks (es_taskStore s)) runId = Some t \<longrightarrow>
       (\<exists>t'. map_of (ts_tasks tasks) runId = Some t' \<and> t_state t' = t_state t)"
  shows "tasks_ok (set_tasks tasks s)"
proof -
  have ok: "service_workers_ok s" using assms(1) by (simp add: tasks_ok_def)
  have "task_runs runId tasks" if "map_of (es_workers s) runId \<noteq> None" for runId
    using that workers_okD(1) [OF ok] assms(4) by (fastforce simp: task_runs_def is_running_def)
  with workers_tasks [OF ok, of "\<lambda>j. task_runs j tasks"] assms(1,2,3) show ?thesis
    by (auto simp: tasks_ok_def intro: ts_reachable.step)
qed

lemma tasks_ok_shutdown:
  assumes "tasks_ok s"
  shows "tasks_ok (es_shutdown s)"
proof -
  let ?s = "s\<lparr>es_closing := True, es_reloadToken := None\<rparr>"
  have 1: "tasks_ok ?s" by (rule tasks_ok_same [OF assms works_cong]) simp_all
  have "tasks_ok (set_tasks (ts_shutdown (es_taskStore ?s)) ?s)"
    using 1 by (intro tasks_ok_set) (auto simp: tasks_ok_def runs_shutdown intro: ts_reachable.step ts_step.shutdown)
  with 1 tasks_ok_stops [OF stops_only_executions 1] show ?thesis by (simp add: es_shutdown_def Let_def)
qed

lemma probes_shutdown: "probes_ok s \<Longrightarrow> probes_ok (es_shutdown s)"
proof -
  assume p: "probes_ok s"
  let ?s = "s\<lparr>es_closing := True, es_reloadToken := None\<rparr>"
  have "probes_ok ?s" by (rule probes_same [OF p works_cong]) simp_all
  with probes_set_tasks probes_stops [OF stops_only_executions] show ?thesis by (simp add: es_shutdown_def Let_def)
qed

lemma tasks_ok_finish:
  assumes "table_ok s" "tasks_ok s" "es_lookup s k r = Some ax"
  shows "tasks_ok (finish_execution k r res ax s)"
proof -
  have ok: "service_workers_ok s" using assms(2) by (simp add: tasks_ok_def)
  have w: "es_works s (k, r) = Some (ax_work ax)" using assms(3) by (simp add: es_works_def es_table_def)
  note rm = works_remove [OF assms(1,3)]
  from remove_execution(3) [OF assms(1,3)] obtain t where
    t: "removeExecution k r s = s\<lparr>es_activeBySession := t, es_activeCount := es_activeCount s - 1\<rparr>" by blast
  show ?thesis
  proof (cases "wk_observer (ax_work ax)")
    case None
    with workers_forget [OF ok w] assms(2) rm show ?thesis by (simp add: finish_execution_def tasks_ok_def t)
  next
    case (Some runId)
    let ?s = "(removeExecution k r s)\<lparr>es_workers := AList.update runId (WorkerReturned res) (es_workers s)\<rparr>"
    have "es_works ?s = es_works (removeExecution k r s)" by (rule works_cong) simp
    with workers_finish [OF ok w Some, of res] assms(2) rm have "tasks_ok ?s" by (simp add: tasks_ok_def t update_conv')
    with Some t show ?thesis by (simp add: finish_execution_def Let_def)
  qed
qed

definition parts_ok :: "exec_service \<Rightarrow> bool" where
  "parts_ok s \<longleftrightarrow> tasks_ok s \<and> probes_ok s"

lemma parts_same:
  assumes "parts_ok s" "es_works s' = es_works s" "es_workers s' = es_workers s" "es_taskStore s' = es_taskStore s"
    "es_generation s' = es_generation s" "es_ownsTaskStore s' = es_ownsTaskStore s"
  shows "parts_ok s'"
  using assms tasks_ok_same [of s s'] probes_same [of s s'] by (simp add: parts_ok_def)

lemma parts_put_state:
  assumes "es_lookup s k r = Some ax" "exec_step (ax, es_outputStore s, es_audit s) st" "parts_ok s"
  shows "parts_ok (put_state k r st s)"
  by (rule parts_same [OF assms(3) works_put_state [OF assms(1,2)]])
    (simp_all add: put_state_def put_execution_def split: prod.split option.split)

lemma parts_chunk:
  assumes "es_lookup s k r = Some ax" "ax_phase ax = AtExecutor seen" "parts_ok s"
  shows "parts_ok (append_output k r stream chunk seen ax s)"
proof -
  obtain res ax1 os where e: "execution_append stream chunk seen ax (es_outputStore s) = (res, ax1, os)" by (metis prod_cases3)
  have 1: "parts_ok (put_state k r (ax1, os, es_audit s) s)"
    by (rule parts_put_state [OF assms(1) exec_step.chunk [OF assms(2) e] assms(3)])
  have 2: "es_works (append_output k r stream chunk seen ax s) = es_works (put_state k r (ax1, os, es_audit s) s)"
    by (rule works_cong) (simp add: append_output_def put_state_def e)
  show ?thesis
    by (rule parts_same [OF 1 2]) (simp_all add: append_output_def put_state_def e)
qed

lemma parts_timer:
  assumes "es_lookup s k r = Some ax" "parts_ok s"
  shows "parts_ok (put_execution k r (requestStop reason ax) s)"
proof -
  have "put_state k r (requestStop reason ax, es_outputStore s, es_audit s) s = put_execution k r (requestStop reason ax) s"
    by (simp add: put_state_def)
  with parts_put_state [OF assms(1) exec_step.stop assms(2)] show ?thesis by metis
qed

lemma parts_store: "parts_ok s \<Longrightarrow> parts_ok (s\<lparr>es_outputStore := os\<rparr>)"
  by (rule parts_same [OF _ works_cong]) simp_all

lemma parts_stops: "stops_only s s' \<Longrightarrow> parts_ok s \<Longrightarrow> parts_ok s'"
  using tasks_ok_stops probes_stops by (simp add: parts_ok_def)

lemma parts_generation:
  assumes "table_ok s" "parts_ok s"
  shows "beginReload s = (res1, s') \<Longrightarrow> parts_ok s'" "lease_commit token gen s = (res2, s') \<Longrightarrow> parts_ok s'"
    "parts_ok (lease_settle token s)" "updateMetadata m s = (res4, s') \<Longrightarrow> parts_ok s'"
  using tasks_ok_generation [of s] tasks_ok_commit [of s] probes_generation [of s] assms
  by (metis parts_ok_def snd_conv)+

lemma parts_methods:
  assumes "table_ok s" "parts_ok s"
  shows "es_run k r i params s = (res, s') \<Longrightarrow> parts_ok s'"
    and "es_check k r i target s = (res, s') \<Longrightarrow> parts_ok s'"
    and "runOperation k r i target oper parameters timeoutMs s = (res, s') \<Longrightarrow> parts_ok s'"
    and "runFixedExecution k r i target authorization kind probe maxOutputBytes s = (res, s') \<Longrightarrow> parts_ok s'"
proof -
  have t: "tasks_ok s" and p: "probes_ok s" using assms(2) by (auto simp: parts_ok_def)
  note tm = tasks_ok_methods [OF assms(1) t] and pm = probes_methods [OF assms(1) p]
  show "es_run k r i params s = (res, s') \<Longrightarrow> parts_ok s'" using tm(1) pm(1) by (simp add: parts_ok_def)
  show "es_check k r i target s = (res, s') \<Longrightarrow> parts_ok s'" using tm(2) pm(2) by (simp add: parts_ok_def)
  show "runOperation k r i target oper parameters timeoutMs s = (res, s') \<Longrightarrow> parts_ok s'"
    using tm(3) pm(3) by (simp add: parts_ok_def)
  show "runFixedExecution k r i target authorization kind probe maxOutputBytes s = (res, s') \<Longrightarrow> parts_ok s'"
    using tm(4) pm(4) by (simp add: parts_ok_def)
qed

lemma parts_tasks:
  assumes "parts_ok s"
  shows "es_startTask now startedAtMs createRunId params s = (res, s') \<Longrightarrow> parts_ok s'"
    and "es_taskStatus nowCleanup now runId s = (res2, s') \<Longrightarrow> parts_ok s'"
    and "es_taskTail parse sha now runId cursor limit s = (res3, s') \<Longrightarrow> parts_ok s'"
    and "es_cancelTask now runId s = (res4, s') \<Longrightarrow> parts_ok s'"
    and "parts_ok (deliver stored now s)" "parts_ok (worker_done now runId s)"
proof -
  have t: "tasks_ok s" and p: "probes_ok s" using assms by (auto simp: parts_ok_def)
  note pt = probes_tasks [OF p] and tt = tasks_ok_task_calls [OF t]
  show "es_startTask now startedAtMs createRunId params s = (res, s') \<Longrightarrow> parts_ok s'"
    using pt(1) tasks_ok_startTask t by (simp add: parts_ok_def)
  show "es_taskStatus nowCleanup now runId s = (res2, s') \<Longrightarrow> parts_ok s'" using pt(2) tt(1) by (simp add: parts_ok_def)
  show "es_taskTail parse sha now runId cursor limit s = (res3, s') \<Longrightarrow> parts_ok s'" using pt(3) tt(2) by (simp add: parts_ok_def)
  show "es_cancelTask now runId s = (res4, s') \<Longrightarrow> parts_ok s'" using pt(4) tt(3) by (simp add: parts_ok_def)
  show "parts_ok (deliver stored now s)" using pt(6) tasks_ok_deliver t by (simp add: parts_ok_def)
  have "\<not> no_probe (WorkerReturned (Inr (Probed x)))" for x by simp
  then have "\<nexists>x. map_of (es_workers s) runId = Some (WorkerReturned (Inr (Probed x)))"
    using p unfolding probes_ok_def by blast
  then show "parts_ok (worker_done now runId s)" using tasks_ok_done [OF t] pt(5) unfolding parts_ok_def by blast
qed

lemma step_parts:
  assumes "es_step s s'" "table_ok s" "executions_ok (core_of s)" "parts_ok s"
  shows "parts_ok s'"
proof -
  have t: "tasks_ok s" and p: "probes_ok s" using assms(4) by (auto simp: parts_ok_def)
  note go = parts_put_state [OF _ _ assms(4)]
  from assms(1) show ?thesis
  proof cases
    case (remove aliases m res)
    with generation_steps [OF assms(2) t p] show ?thesis unfolding parts_ok_def by blast
  next
    case shutdown
    with tasks_ok_shutdown [OF t] probes_shutdown [OF p] show ?thesis by (simp add: parts_ok_def)
  next
    case (finish k r ax res)
    with tasks_ok_finish [OF assms(2) t] probes_finish [OF assms(2,3) p] show ?thesis unfolding parts_ok_def by blast
  next
    case (worker_begins i runId)
    with tasks_ok_worker [OF assms(2) t] probes_begin [OF assms(2) p] show ?thesis unfolding parts_ok_def by blast
  next
    case (other_task tasks)
    with tasks_ok_other [OF t] probes_set_tasks [OF p] show ?thesis unfolding parts_ok_def by blast
  next
    case (cancel k r b)
    with parts_stops [OF stops_only_cancel assms(4), of k r] show ?thesis by simp
  next
    case (timer k r ax seen)
    with parts_timer [OF _ assms(4)] show ?thesis by blast
  next
    case (chunk k r ax seen stream bytes)
    with parts_chunk [OF _ _ assms(4)] show ?thesis by blast
  qed (use assms(2,4) in \<open>auto intro: parts_methods parts_tasks parts_store go exec_step.intros parts_generation
      parts_stops [OF stops_only_disconnect] parts_stops [OF stops_only_executions]\<close>)
qed

lemma core_kept:
  assumes "core_step\<^sup>*\<^sup>* c c'" "os_reachable (co_outputs c)" "executions_ok c" "sinks_held c"
  shows "os_reachable (co_outputs c') \<and> executions_ok c' \<and> sinks_held c'"
  using held.both.kept_all [of c c'] assms by auto

lemma service_inv_parts:
  "service_inv s \<longleftrightarrow> table_ok s \<and> os_reachable (es_outputStore s) \<and> executions_ok (core_of s) \<and> sinks_held (core_of s) \<and> parts_ok s"
  by (simp add: service_inv_def parts_ok_def)

lemma new_task_store_empty: "new_task_store ttl retained concurrent logBytes = Inr ts \<Longrightarrow> ts_tasks ts = []"
  by (auto simp: new_task_store_def and_then_def Let_def split: sum.splits)

lemma initial_core: "es_initial s \<Longrightarrow> core_start (core_of s) \<and> table_ok s \<and> parts_ok s"
proof -
  assume "es_initial s"
  then obtain gen os mx tasks where n: "new_exec_service gen os mx tasks = Inr s" and os: "os_reachable os" "os_sinks os = []"
    and ts: "\<And>ts. tasks = Some ts \<Longrightarrow> ts_reachable ts" unfolding es_initial_def by blast
  from n have f: "es_activeBySession s = []" "es_activeCount s = 0" "es_workers s = []" "es_audit s = []" "es_outputStore s = os"
      "0 < es_maxConcurrentExecutions s" "es_ownsTaskStore s \<longleftrightarrow> tasks = None" and
    t: "(case tasks of Some ts \<Rightarrow> Inr ts | None \<Rightarrow> new_task_store (15 * 60000) 1024 mx None) = Inr (es_taskStore s)"
    by (auto simp: new_exec_service_def and_then_def guard_else_def split: sum.splits if_splits)
  have e: "es_table s = (\<lambda>_. None)" by (auto simp: es_table_def es_lookup_def f fun_eq_iff)
  then have w: "es_works s = (\<lambda>_. None)" by (intro ext) (simp add: es_works_def)
  have "ts_reachable (es_taskStore s)" using t ts by (cases tasks) (auto intro: ts_reachable.init)
  moreover have "\<not> task_runs runId (es_taskStore s)" if "tasks = None" for runId
    using new_task_store_empty t that by (fastforce simp: task_runs_def)
  ultimately have "parts_ok s" using w f by (simp add: parts_ok_def tasks_ok_def probes_ok_def workers_ok_def)
  moreover have "table_ok s" using f by (simp add: table_ok_def well_formed_def table_size_def)
  ultimately show ?thesis using e os f by (simp add: core_start_def core_of_def)
qed

interpretation service: invariant_of es_initial es_step service_inv
proof
  fix s assume "es_initial s"
  from initial_core [OF this] show "service_inv s"
    using held.both.holds_first [of "core_of s"] by (simp add: service_inv_parts)
next
  fix s s' assume inv: "service_inv s" and st: "es_step s s'"
  then have "simulated s s'" using step_simulated by (simp add: service_inv_def)
  then have 1: "table_ok s'" "core_step\<^sup>*\<^sup>* (core_of s) (core_of s')" by (simp_all add: simulated_def)
  have "parts_ok s'" by (rule step_parts [OF st]) (use inv in \<open>simp_all add: service_inv_parts\<close>)
  with 1(1) core_kept [OF 1(2)] inv show "service_inv s'" by (simp add: service_inv_parts)
qed

section \<open>A reload excludes executions\<close>

definition reload_quiet :: "exec_service \<Rightarrow> bool" where
  "reload_quiet s \<longleftrightarrow> (es_reloadToken s \<noteq> None \<longrightarrow> es_activeCount s = 0 \<and> es_workers s = [])"

lemma quiet_none: "es_reloadToken s = None \<Longrightarrow> reload_quiet s"
  by (simp add: reload_quiet_def)

lemma quiet_same:
  "reload_quiet s \<Longrightarrow> es_reloadToken s' = es_reloadToken s \<Longrightarrow> es_activeCount s' = es_activeCount s \<Longrightarrow> es_workers s' = es_workers s
   \<Longrightarrow> reload_quiet s'"
  by (simp add: reload_quiet_def)

lemma quiet_stops: "reload_quiet s \<Longrightarrow> stops_only s s' \<Longrightarrow> reload_quiet s'"
  by (erule quiet_same) (simp_all add: stops_only_fields)

lemma start_token: "startExecution k r i target work s = (res, s') \<Longrightarrow> es_reloadToken s' = es_reloadToken s"
  by (auto simp: startExecution_def Let_def split: if_splits option.splits)

lemma available_token: "assertExecutionAvailable s = Inr u \<Longrightarrow> es_reloadToken s = None"
  by (auto simp: assertExecutionAvailable_def split: if_splits)

lemma prepareRun_token: "prepareRun params s = Inr work \<Longrightarrow> es_reloadToken s = None"
  using available_token [of s] by (cases "assertExecutionAvailable s") (auto simp: prepareRun_def and_then_def)

lemma quiet_methods:
  assumes "reload_quiet s"
  shows "es_run k r i params s = (res, s') \<Longrightarrow> reload_quiet s'"
    and "es_check k r i target s = (res, s') \<Longrightarrow> reload_quiet s'"
    and "runOperation k r i target oper parameters timeoutMs s = (res, s') \<Longrightarrow> reload_quiet s'"
    and "assertExecutionAvailable s = Inr () \<Longrightarrow> runFixedExecution k r i target authorization kind probe maxOutputBytes s = (res, s')
       \<Longrightarrow> reload_quiet s'"
    and "es_startTask now startedAtMs createRunId params s = (res2, s') \<Longrightarrow> reload_quiet s'"
proof -
  have start: "reload_quiet s'" if "startExecution k r i target work s = (res, s')" "es_reloadToken s = None" for target work
    using start_token [OF that(1)] that(2) by (intro quiet_none) simp
  show "es_run k r i params s = (res, s') \<Longrightarrow> reload_quiet s'"
    using start prepareRun_token [of params s] assms by (auto simp: es_run_def split: sum.splits)
  show "es_check k r i target s = (res, s') \<Longrightarrow> reload_quiet s'"
    using start available_token [of s] assms
    by (cases "assertExecutionAvailable s") (auto simp: es_check_def and_then_def split: sum.splits)
  show "runOperation k r i target oper parameters timeoutMs s = (res, s') \<Longrightarrow> reload_quiet s'"
    using start available_token [of s] assms
    by (cases "assertExecutionAvailable s") (auto simp: runOperation_def and_then_def Let_def split: sum.splits prod.splits)
  show "reload_quiet s'" if "assertExecutionAvailable s = Inr ()"
    "runFixedExecution k r i target authorization kind probe maxOutputBytes s = (res, s')"
    using start [OF that(2) [unfolded runFixedExecution_def]] available_token [OF that(1)] by blast
  show "es_startTask now startedAtMs createRunId params s = (res2, s') \<Longrightarrow> reload_quiet s'"
    using prepareRun_token [of params s] assms
    by (auto simp: es_startTask_def intro!: quiet_none split: sum.splits prod.splits)
qed

lemma quiet_reload:
  assumes "service_inv s" "reload_quiet s"
  shows "reload_quiet (snd (beginReload s))" "reload_quiet (snd (updateMetadata m s))"
proof -
  have "es_workers s = []" if "activeCount (es_taskStore s) = 0"
  proof (rule ccontr)
    assume "es_workers s \<noteq> []"
    then obtain runId where "runId \<in> fst ` set (es_workers s)" by (cases "es_workers s") auto
    then have "map_of (es_workers s) runId \<noteq> None" by (simp add: map_of_eq_None_iff)
    then have "task_runs runId (es_taskStore s)" using assms(1) unfolding service_inv_def tasks_ok_def workers_ok_def by blast
    with runs_none [OF that] show False by blast
  qed
  with assms(2) show "reload_quiet (snd (beginReload s))"
    by (auto simp: beginReload_def Let_def reload_quiet_def work_active_def)
  show "reload_quiet (snd (updateMetadata m s))"
    using assms(2) by (simp add: updateMetadata_def reload_quiet_def split: sum.split)
qed

lemma settle_quiet: "reload_quiet s \<Longrightarrow> reload_quiet (lease_settle token s)"
  by (simp add: lease_settle_def reload_quiet_def)

lemma commit_quiet: "reload_quiet s \<Longrightarrow> reload_quiet (snd (lease_commit token gen s))"
  by (simp add: lease_commit_def Let_def reload_quiet_def lease_settle_def)

lemma quiet_remove:
  assumes "service_inv s" "reload_quiet s" "removeTargets aliases m s = (res, s')"
  shows "reload_quiet s'"
  using assms(3)
  by (cases rule: removeTargets_cases) (use quiet_reload(1) [OF assms(1,2)] in \<open>auto intro!: settle_quiet commit_quiet\<close>)

lemma quiet_finish:
  assumes "service_inv s" "reload_quiet s" "es_lookup s k r = Some ax"
  shows "reload_quiet (finish_execution k r res ax s)"
proof -
  have ok: "table_ok s" using assms(1) by (simp add: service_inv_def)
  have "es_activeCount s \<noteq> 0" using table_empty [OF ok] assms(3) by (auto simp: es_table_def fun_eq_iff)
  then have "es_reloadToken s = None" using assms(2) by (auto simp: reload_quiet_def)
  with remove_execution(3) [OF ok assms(3)] show ?thesis
    by (auto simp: finish_execution_def Let_def intro!: quiet_none split: option.split)
qed

lemma quiet_worker:
  assumes "reload_quiet s"
  shows "reload_quiet (begin_worker runId i s)" "reload_quiet (worker_done now runId s)" "reload_quiet (deliver stored now s)"
proof -
  show "reload_quiet (begin_worker runId i s)"
  proof (cases "es_reloadToken s")
    case None
    have "es_reloadToken (begin_worker runId i s) = None"
      using None start_token [of "worker_session runId" "StringId runId" i _ _ s]
      by (auto simp: begin_worker_def Let_def stops_only_fields(6) [OF stops_only_cancel] split: option.split worker.split prod.split)
    then show ?thesis by (rule quiet_none)
  next
    case (Some t)
    then have "es_workers s = []" using assms by (simp add: reload_quiet_def)
    then show ?thesis using assms by (simp add: begin_worker_def)
  qed
  show "reload_quiet (worker_done now runId s)" using assms
    by (auto simp: reload_quiet_def worker_done_def Let_def split: option.split worker.split)
  show "reload_quiet (deliver stored now s)" using assms
    by (auto simp: reload_quiet_def deliver_def split: list.split)
qed

lemma quiet_put_state: "reload_quiet s \<Longrightarrow> reload_quiet (put_state k r st s)"
  by (erule quiet_same) (simp_all add: put_state_def split: prod.split)

lemma quiet_put: "reload_quiet s \<Longrightarrow> reload_quiet (put_execution k r ax s)"
  by (erule quiet_same) simp_all

lemma quiet_chunk: "reload_quiet s \<Longrightarrow> reload_quiet (append_output k r stream chunk seen ax s)"
  by (erule quiet_same) (simp_all add: append_output_def split: prod.split)

lemma quiet_set_tasks: "reload_quiet s \<Longrightarrow> reload_quiet (set_tasks tasks s)"
  by (erule quiet_same) simp_all

lemma quiet_task_calls:
  assumes "reload_quiet s"
  shows "es_taskStatus nowCleanup now runId s = (res2, s') \<Longrightarrow> reload_quiet s'"
    and "es_taskTail parse sha now runId cursor limit s = (res3, s') \<Longrightarrow> reload_quiet s'"
    and "es_cancelTask now runId s = (res4, s') \<Longrightarrow> reload_quiet s'"
  using quiet_set_tasks [OF assms] by (auto simp: es_taskStatus_def es_taskTail_def es_cancelTask_def split: prod.splits)

lemma quiet_shutdown: "reload_quiet (es_shutdown s)"
  by (rule quiet_none) (simp add: es_shutdown_def Let_def stops_only_fields(6) [OF stops_only_executions])

lemma quiet_store: "reload_quiet s \<Longrightarrow> reload_quiet (s\<lparr>es_outputStore := os\<rparr>)"
  by (erule quiet_same) simp_all

interpretation reloads: relative_invariant es_initial es_step service_inv reload_quiet
proof
  fix s s' assume inv: "service_inv s" and quiet: "reload_quiet s" and st: "es_step s s'"
  from st show "reload_quiet s'"
  proof cases
    case (begin_reload res)
    with quiet_reload(1) [OF inv quiet] show ?thesis by simp
  next
    case (commit token gen res)
    with commit_quiet [OF quiet, of token gen] show ?thesis by simp
  next
    case (metadata m res)
    with quiet_reload(2) [OF inv quiet, of m] show ?thesis by simp
  next
    case (cancel k r b)
    with quiet_stops [OF quiet stops_only_cancel, of k r] show ?thesis by simp
  next
    case (remove aliases m res)
    with quiet_remove [OF inv quiet] show ?thesis by blast
  next
    case (finish k r ax res)
    with quiet_finish [OF inv quiet] show ?thesis by blast
  next
    case (fixed i k r target authorization kind probe maxOutputBytes res)
    with quiet_methods(4) [OF quiet] show ?thesis by blast
  qed (use quiet in \<open>auto intro: quiet_methods quiet_task_calls quiet_put_state quiet_put quiet_chunk quiet_set_tasks quiet_shutdown
      quiet_store quiet_worker settle_quiet quiet_stops [OF _ stops_only_disconnect] quiet_stops [OF _ stops_only_executions]\<close>)
qed (auto simp: es_initial_def new_exec_service_def and_then_def guard_else_def intro!: quiet_none split: sum.splits if_splits)

section \<open>An aborted task stops its execution\<close>

definition stopping :: "active_execution \<Rightarrow> bool" where
  "stopping ax \<longleftrightarrow> (ax_acceptingCancellation ax \<longrightarrow> ax_reason ax \<noteq> None)"

lemma stopping_request [simp]: "stopping (requestStop reason ax)"
  by (simp add: stopping_def requestStop_def)

lemma run_settled_closed:
  assumes "run_settled elapsed res ax = (res', ax')"
  shows "\<not> ax_acceptingCancellation ax'"
  using assms by (auto simp: run_settled_def Let_def split: sum.splits if_splits)

lemma stopping_update [simp]: "stopping (ax\<lparr>ax_phase := ph\<rparr>) = stopping ax" "stopping (ax\<lparr>ax_sink := sk\<rparr>) = stopping ax"
  by (simp_all add: stopping_def)

lemma exec_step_stopping:
  assumes "exec_step (ax, os, audit) (ax', os', audit')" "stopping ax"
  shows "stopping ax'"
  using assms(1)
proof cases
  case (created parse io now random res)
  with assms(2) show ?thesis by (auto simp: resume_created_def end_with_def split: sum.splits)
next
  case (start_audited written)
  with assms(2) show ?thesis by (auto simp: resume_start_audited_def fail_with_def end_with_def split: option.splits)
next
  case (chunk seen stream bytes res)
  with assms(2) show ?thesis by (auto simp: execution_append_def Let_def split: option.splits if_splits)
next
  case (stop reason)
  then show ?thesis by simp
next
  case (ended seen res elapsed)
  obtain r ax1 where r: "run_settled elapsed res ax = (r, ax1)" by force
  have "stopping ax1" using run_settled_closed [OF r] by (simp add: stopping_def)
  with ended r show ?thesis
    by (auto simp: resume_ran_def fail_with_def end_with_def audit_output_def discardOutputSink_def split: sum.splits option.splits if_splits)
next
  case (finalized rn sink res)
  with assms(2) show ?thesis by (auto simp: resume_finalized_def fail_with_def end_with_def audit_output_def split: sum.splits)
next
  case (stop_audited rn out written)
  with assms(2) show ?thesis by (auto simp: resume_stop_audited_def end_with_def split: option.splits)
next
  case (end_audited rn out written)
  with assms(2) show ?thesis by (auto simp: resume_end_audited_def end_with_def split: option.splits)
qed

definition aborts_reach :: "exec_service \<Rightarrow> bool" where
  "aborts_reach s \<longleftrightarrow> (\<forall>runId ax. map_of (es_workers s) runId = Some WorkerRunning \<longrightarrow> task_aborted runId (es_taskStore s) \<longrightarrow>
     es_table s (worker_key runId) = Some ax \<longrightarrow> stopping ax)"

lemma aborts_reachD:
  "aborts_reach s \<Longrightarrow> map_of (es_workers s) runId = Some WorkerRunning \<Longrightarrow> task_aborted runId (es_taskStore s) \<Longrightarrow>
   es_table s (worker_key runId) = Some ax \<Longrightarrow> stopping ax"
  unfolding aborts_reach_def by blast

text \<open>No execution of a task is replaced, and none forgets that it has to stop.\<close>

definition keeps_stopping :: "exec_service \<Rightarrow> exec_service \<Rightarrow> bool" where
  "keeps_stopping s s' \<longleftrightarrow> (\<forall>runId ax'. map_of (es_workers s') runId = Some WorkerRunning \<longrightarrow>
     es_table s' (worker_key runId) = Some ax' \<longrightarrow>
     map_of (es_workers s) runId = Some WorkerRunning
     \<and> (\<exists>ax. es_table s (worker_key runId) = Some ax \<and> (stopping ax \<longrightarrow> stopping ax')))"

lemma reach_kept:
  assumes "aborts_reach s" "keeps_stopping s s'" "es_taskStore s' = es_taskStore s"
  shows "aborts_reach s'"
  using assms unfolding aborts_reach_def keeps_stopping_def by metis

lemma keeps_same: "es_table s' = es_table s \<Longrightarrow> es_workers s' = es_workers s \<Longrightarrow> keeps_stopping s s'"
  by (simp add: keeps_stopping_def)

lemma stopped_keeps:
  assumes "stopped t t'" "t' key = Some ax'"
  shows "\<exists>ax. t key = Some ax \<and> (stopping ax \<longrightarrow> stopping ax')"
proof -
  from assms(1) have "t' key = t key \<or> (\<exists>ax. t key = Some ax \<and> t' key = Some (requestStop StopCancel ax))"
    unfolding stopped_def by blast
  then show ?thesis by (elim disjE exE conjE) (use assms(2) in \<open>auto intro: exI [of _ ax']\<close>)
qed

lemma stops_only_keeps:
  "stops_only s s' \<Longrightarrow> es_table s' key = Some ax' \<Longrightarrow> \<exists>ax. es_table s key = Some ax \<and> (stopping ax \<longrightarrow> stopping ax')"
  using stopped_keeps [of "es_table s" "es_table s'" key ax'] by (simp only: stops_only_def simp_thms)

lemma keeps_stops: "stops_only s s' \<Longrightarrow> keeps_stopping s s'"
  using stops_only_keeps [of s s'] stops_only_fields(9) [of s s'] unfolding keeps_stopping_def by simp

lemma keeps_put_state:
  assumes "es_lookup s k r = Some ax" "exec_step (ax, es_outputStore s, es_audit s) st"
  shows "keeps_stopping s (put_state k r st s)"
proof -
  obtain ax' os' audit' where st: "st = (ax', os', audit')" by (cases st)
  have t: "es_table (put_state k r st s) = es_table (put_execution k r ax' s)" by (rule es_table_cong) (simp add: put_state_def st)
  have w: "es_workers (put_state k r st s) = es_workers s" by (simp add: put_state_def st)
  have "stopping ax \<longrightarrow> stopping ax'" using exec_step_stopping assms(2) st by blast
  then show ?thesis using assms(1) unfolding keeps_stopping_def t w
    by (auto simp: es_table_def worker_key_def lookup_put split: if_splits)
qed

lemma fold_cancel_stops:
  assumes "runId \<in> fst ` set ws"
    "es_lookup (fold (\<lambda>(runId, _) s. snd (es_cancel (worker_session runId) (StringId runId) s)) ws s) (worker_session runId) (StringId runId) = Some ax"
  shows "stopping ax"
  using assms
proof (induction ws arbitrary: s)
  case (Cons w ws)
  obtain i x where w: "w = (i, x)" by force
  let ?s = "snd (es_cancel (worker_session i) (StringId i) s)"
  show ?case
  proof (cases "runId \<in> fst ` set ws")
    case True
    with Cons.IH [of ?s] Cons.prems(2) show ?thesis by (simp add: w)
  next
    case False
    then have i: "i = runId" using Cons.prems(1) w by auto
    have 1: "stopping a" if "es_lookup ?s (worker_session runId) (StringId runId) = Some a" for a
    proof -
      from that have "map_of (es_activeBySession s) (worker_session runId) \<noteq> None"
        by (auto simp: es_cancel_def i es_lookup_def put_execution_def bind_eq_Some_conv split: option.splits if_splits)
      with that show ?thesis by (auto simp: es_cancel_def i lookup_put stopping_def requestStop_def split: option.splits if_splits)
    qed
    from stops_only_keeps [OF stops_only_fold [of ?s ws], of "(worker_session runId, StringId runId)" ax] Cons.prems(2) 1
    show ?thesis by (auto simp: w es_table_def)
  qed
qed simp

lemma reach_set_tasks:
  assumes "aborts_reach s"
  shows "aborts_reach (set_tasks tasks s)"
proof -
  have "stopping ax" if w: "map_of (es_workers s) runId = Some WorkerRunning" and a: "task_aborted runId tasks"
    and t: "es_table (set_tasks tasks s) (worker_key runId) = Some ax" for runId ax
  proof (cases "task_aborted runId (es_taskStore s)")
    case True
    have "keeps_stopping (s\<lparr>es_taskStore := tasks\<rparr>) (set_tasks tasks s)" by (rule keeps_stops [OF set_tasks_stops])
    with w t obtain ax0 where "es_table (s\<lparr>es_taskStore := tasks\<rparr>) (worker_key runId) = Some ax0" "stopping ax0 \<longrightarrow> stopping ax"
      unfolding keeps_stopping_def by fastforce
    moreover have "es_table (s\<lparr>es_taskStore := tasks\<rparr>) = es_table s" by (rule es_table_cong) simp
    ultimately show ?thesis using aborts_reachD [OF assms w True] by auto
  next
    case False
    have "(runId, WorkerRunning) \<in> set (filter (abort_fires (es_taskStore s) tasks) (es_workers s))"
      using map_of_SomeD [OF w] a False by (simp add: abort_fires_def)
    then have "runId \<in> fst ` set (filter (abort_fires (es_taskStore s) tasks) (es_workers s))" by force
    from fold_cancel_stops [OF this, of "s\<lparr>es_taskStore := tasks\<rparr>" ax] t show ?thesis
      by (simp add: set_tasks_def es_table_def worker_key_def)
  qed
  then show ?thesis by (simp add: aborts_reach_def)
qed

lemma reach_start:
  assumes "startExecution k r i target work s = (res, s')" "service_inv s" "aborts_reach s"
  shows "aborts_reach s'"
proof (cases res)
  case (Inl e)
  with start_refused assms(1,2) have "s' = s" by (auto simp: service_inv_def)
  with assms(3) show ?thesis by simp
next
  case (Inr u)
  have ok: "table_ok s" and w: "service_workers_ok s" using assms(2) by (simp_all add: service_inv_def tasks_ok_def)
  note start = start_admitted [OF assms(1) [unfolded Inr] ok]
  from start(5) obtain t where t: "s' = s\<lparr>es_activeBySession := t, es_activeCount := es_activeCount s + 1\<rparr>" by blast
  then have ws: "es_workers s' = es_workers s" and ts: "es_taskStore s' = es_taskStore s" by simp_all
  have "es_table s' (worker_key runId) = es_table s (worker_key runId)"
    if "map_of (es_workers s) runId = Some WorkerRunning" for runId
  proof -
    from w that have "es_works s (worker_key runId) \<noteq> None" unfolding workers_ok_def by fastforce
    with start(2) have "worker_key runId \<noteq> (k, r)" by (auto simp: es_works_def es_table_def)
    then show ?thesis using start(4) [of "worker_session runId" "StringId runId"] by (auto simp: es_table_def worker_key_def)
  qed
  with ws have "keeps_stopping s s'" by (simp add: keeps_stopping_def)
  from reach_kept [OF assms(3) this ts] show ?thesis .
qed

lemma reach_methods:
  assumes "service_inv s" "aborts_reach s"
  shows "es_run k r i params s = (res, s') \<Longrightarrow> aborts_reach s'"
    and "es_check k r i target s = (res, s') \<Longrightarrow> aborts_reach s'"
    and "runOperation k r i target oper parameters timeoutMs s = (res, s') \<Longrightarrow> aborts_reach s'"
    and "runFixedExecution k r i target authorization kind probe maxOutputBytes s = (res, s') \<Longrightarrow> aborts_reach s'"
proof -
  note start = reach_start [OF _ assms]
  show "es_run k r i params s = (res, s') \<Longrightarrow> aborts_reach s'"
    using start assms(2) by (auto simp: es_run_def split: sum.splits)
  show "es_check k r i target s = (res, s') \<Longrightarrow> aborts_reach s'"
    using start assms(2) by (auto simp: es_check_def split: sum.splits)
  show "runOperation k r i target oper parameters timeoutMs s = (res, s') \<Longrightarrow> aborts_reach s'"
    using start assms(2) by (auto simp: runOperation_def Let_def split: sum.splits prod.splits)
  show "runFixedExecution k r i target authorization kind probe maxOutputBytes s = (res, s') \<Longrightarrow> aborts_reach s'"
    unfolding runFixedExecution_def by (erule start)
qed

lemma reach_workers:
  assumes "aborts_reach s" "w \<noteq> WorkerRunning"
  shows "aborts_reach (s\<lparr>es_workers := AList.update runId w (es_workers s)\<rparr>)" "aborts_reach (s\<lparr>es_workers := AList.delete runId (es_workers s)\<rparr>)"
proof -
  have "keeps_stopping s (s\<lparr>es_workers := AList.update runId w (es_workers s)\<rparr>)"
    using assms(2) es_table_cong [of "s\<lparr>es_workers := AList.update runId w (es_workers s)\<rparr>" s]
    by (auto simp: keeps_stopping_def update_conv' split: if_splits)
  then show "aborts_reach (s\<lparr>es_workers := AList.update runId w (es_workers s)\<rparr>)" by (rule reach_kept [OF assms(1)]) simp
  have "keeps_stopping s (s\<lparr>es_workers := AList.delete runId (es_workers s)\<rparr>)"
    using es_table_cong [of "s\<lparr>es_workers := AList.delete runId (es_workers s)\<rparr>" s]
    by (auto simp: keeps_stopping_def delete_conv' split: if_splits)
  then show "aborts_reach (s\<lparr>es_workers := AList.delete runId (es_workers s)\<rparr>)" by (rule reach_kept [OF assms(1)]) simp
qed

lemma reach_tasks:
  assumes "aborts_reach s"
  shows "es_startTask now startedAtMs createRunId params s = (res, s') \<Longrightarrow> aborts_reach s'"
    and "es_taskStatus nowCleanup now runId s = (res2, s') \<Longrightarrow> aborts_reach s'"
    and "es_taskTail parse sha now runId cursor limit s = (res3, s') \<Longrightarrow> aborts_reach s'"
    and "es_cancelTask now runId s = (res4, s') \<Longrightarrow> aborts_reach s'"
    and "aborts_reach (worker_done now runId s)" "aborts_reach (deliver stored now s)"
proof -
  note set = reach_set_tasks [OF assms]
  have new: "aborts_reach ((set_tasks tasks s)\<lparr>es_workers := AList.update runId (WorkerWaiting target work) (es_workers s)\<rparr>)"
    for tasks runId target work
    using reach_workers(1) [OF set, of "WorkerWaiting target work" runId tasks] by simp
  show "es_startTask now startedAtMs createRunId params s = (res, s') \<Longrightarrow> aborts_reach s'"
    using set new assms by (auto simp: es_startTask_def split: sum.splits prod.splits)
  show "es_taskStatus nowCleanup now runId s = (res2, s') \<Longrightarrow> aborts_reach s'"
    using set by (auto simp: es_taskStatus_def split: prod.splits)
  show "es_taskTail parse sha now runId cursor limit s = (res3, s') \<Longrightarrow> aborts_reach s'"
    using set by (auto simp: es_taskTail_def split: prod.splits)
  show "es_cancelTask now runId s = (res4, s') \<Longrightarrow> aborts_reach s'"
    using set by (auto simp: es_cancelTask_def split: prod.splits)
  have "aborts_reach ((set_tasks tasks s)\<lparr>es_workers := AList.delete runId (es_workers s)\<rparr>)" for tasks
    using reach_workers(2) [OF set, of "WorkerReturned (Inl e)" runId tasks for e] by simp
  then show "aborts_reach (worker_done now runId s)"
    using assms by (auto simp: worker_done_def Let_def split: option.splits worker.splits)
  have "aborts_reach (u\<lparr>es_deliveries := d\<rparr>)" if "aborts_reach u" for u d
    by (rule reach_kept [OF that keeps_same [OF es_table_cong]]) simp_all
  with set assms show "aborts_reach (deliver stored now s)" by (auto simp: deliver_def split: list.splits)
qed

lemma reach_begin:
  assumes "service_inv s" "aborts_reach s"
  shows "aborts_reach (begin_worker runId i s)"
proof (cases "\<exists>target work. map_of (es_workers s) runId = Some (WorkerWaiting target work)")
  case False
  then have "begin_worker runId i s = s" by (auto simp: begin_worker_def split: option.splits worker.splits)
  with assms(2) show ?thesis by simp
next
  case True
  then obtain target work where w: "map_of (es_workers s) runId = Some (WorkerWaiting target work)" by blast
  obtain res s1 where st: "startExecution (worker_session runId) (StringId runId) i target (work\<lparr>wk_observer := Some runId\<rparr>) s = (res, s1)"
    by force
  define s2 where "s2 = (if task_aborted runId (es_taskStore s1) then snd (es_cancel (worker_session runId) (StringId runId) s1) else s1)"
  have "stops_only s1 s2" by (simp add: s2_def stops_only_cancel)
  note f = stops_only_fields [OF this]
  have "aborts_reach s1" by (rule reach_start [OF st assms])
  then have 2: "aborts_reach s2" by (rule reach_kept [OF _ keeps_stops [OF \<open>stops_only s1 s2\<close>] f(1)])
  have eq: "begin_worker runId i s = s2\<lparr>es_workers := AList.update runId
      (case res of Inl e \<Rightarrow> WorkerReturned (Inl e) | Inr _ \<Rightarrow> WorkerRunning) (es_workers s2)\<rparr>"
    by (simp add: begin_worker_def w st s2_def Let_def)
  show ?thesis
  proof (cases res)
    case (Inl e)
    with reach_workers(1) [OF 2, of "WorkerReturned (Inl e)" runId] eq show ?thesis by simp
  next
    case (Inr u)
    have own: "stopping ax" if "task_aborted runId (es_taskStore s2)" "es_table s2 (worker_key runId) = Some ax" for ax
      using fold_cancel_stops [of runId "[(runId, ())]" s1 ax] that f(1) by (simp add: s2_def es_table_def worker_key_def)
    have t: "es_table (begin_worker runId i s) = es_table s2" unfolding eq by (rule es_table_cong) simp
    from own aborts_reachD [OF 2] show ?thesis unfolding aborts_reach_def t unfolding eq Inr
      by (auto simp: update_conv' split: if_splits)
  qed
qed

lemma reach_finish:
  assumes "service_inv s" "aborts_reach s" "es_lookup s k r = Some ax"
  shows "aborts_reach (finish_execution k r res ax s)"
proof -
  have ok: "table_ok s" using assms(1) by (simp add: service_inv_def)
  note rm = remove_execution [OF ok assms(3)]
  from rm(3) obtain t where t: "removeExecution k r s = s\<lparr>es_activeBySession := t, es_activeCount := es_activeCount s - 1\<rparr>" by blast
  have "keeps_stopping s (removeExecution k r s)"
    using rm(2) by (auto simp: keeps_stopping_def es_table_def worker_key_def t split: if_splits)
  then have 1: "aborts_reach (removeExecution k r s)" by (rule reach_kept [OF assms(2)]) (simp add: t)
  show ?thesis
    using 1 reach_workers(1) [OF 1, of "WorkerReturned res"] by (auto simp: finish_execution_def Let_def split: option.split)
qed

lemma reach_same:
  "aborts_reach s \<Longrightarrow> es_activeBySession s' = es_activeBySession s \<Longrightarrow> es_workers s' = es_workers s \<Longrightarrow>
   es_taskStore s' = es_taskStore s \<Longrightarrow> aborts_reach s'"
  by (rule reach_kept [OF _ keeps_same [OF es_table_cong]])

lemma reach_stops: "aborts_reach s \<Longrightarrow> stops_only s s' \<Longrightarrow> aborts_reach s'"
  by (rule reach_kept [OF _ keeps_stops]) (simp_all add: stops_only_fields)

lemma reload_tasks:
  "es_taskStore (snd (beginReload s)) = es_taskStore s" "es_taskStore (snd (updateMetadata m s)) = es_taskStore s"
  "es_taskStore (lease_settle token s) = es_taskStore s" "es_taskStore (snd (lease_commit token gen s)) = es_taskStore s"
  by (simp_all add: beginReload_def updateMetadata_def lease_settle_def lease_commit_def Let_def split: sum.split)

lemma reach_reload:
  assumes "aborts_reach s"
  shows "aborts_reach (snd (beginReload s))" "aborts_reach (snd (updateMetadata m s))"
    "aborts_reach (lease_settle token s)" "aborts_reach (snd (lease_commit token gen s))"
  by (rule reach_same [OF assms]; simp add: reload_fields reload_tasks)+

lemma reach_remove:
  assumes "aborts_reach s" "removeTargets aliases m s = (res, s')"
  shows "aborts_reach s'"
  using assms(2) by (cases rule: removeTargets_cases) (simp_all add: reach_reload assms(1))

lemma reach_shutdown:
  assumes "aborts_reach s"
  shows "aborts_reach (es_shutdown s)"
proof -
  have "aborts_reach (s\<lparr>es_closing := True, es_reloadToken := None\<rparr>)" by (rule reach_same [OF assms]) simp_all
  from reach_set_tasks [OF this] reach_stops [OF this stops_only_executions] show ?thesis by (simp add: es_shutdown_def Let_def)
qed

lemma reach_put_state:
  assumes "aborts_reach s" "es_lookup s k r = Some ax" "exec_step (ax, es_outputStore s, es_audit s) st"
  shows "aborts_reach (put_state k r st s)"
  by (rule reach_kept [OF assms(1) keeps_put_state [OF assms(2,3)]]) (simp add: put_state_def split: prod.split)

lemma reach_timer:
  assumes "aborts_reach s" "es_lookup s k r = Some ax"
  shows "aborts_reach (put_execution k r (requestStop reason ax) s)"
proof -
  have "put_state k r (requestStop reason ax, es_outputStore s, es_audit s) s = put_execution k r (requestStop reason ax) s"
    by (simp add: put_state_def)
  with reach_put_state [OF assms exec_step.stop] show ?thesis by metis
qed

lemma reach_chunk:
  assumes "aborts_reach s" "es_lookup s k r = Some ax" "ax_phase ax = AtExecutor seen"
  shows "aborts_reach (append_output k r stream chunk seen ax s)"
proof -
  obtain res ax1 os where e: "execution_append stream chunk seen ax (es_outputStore s) = (res, ax1, os)" by (metis prod_cases3)
  show ?thesis
    by (rule reach_same [OF reach_put_state [OF assms(1,2) exec_step.chunk [OF assms(3) e]]])
      (simp_all add: append_output_def put_state_def e)
qed

lemma reach_store: "aborts_reach s \<Longrightarrow> aborts_reach (s\<lparr>es_outputStore := os\<rparr>)"
  by (rule reach_same) simp_all

interpretation aborts: relative_invariant es_initial es_step service_inv aborts_reach
proof
  fix s s' assume inv: "service_inv s" and ok: "aborts_reach s" and st: "es_step s s'"
  note go = reach_put_state [OF ok]
  from st show "aborts_reach s'"
  proof cases
    case (begin_reload res)
    with reach_reload(1) [OF ok] show ?thesis by simp
  next
    case (commit token gen res)
    with reach_reload(4) [OF ok, of token gen] show ?thesis by simp
  next
    case (metadata m res)
    with reach_reload(2) [OF ok, of m] show ?thesis by simp
  next
    case (cancel k r b)
    with reach_stops [OF ok stops_only_cancel, of k r] show ?thesis by simp
  next
    case (timer k r ax seen)
    with reach_timer [OF ok] show ?thesis by blast
  next
    case (chunk k r ax seen stream bytes)
    with reach_chunk [OF ok] show ?thesis by blast
  next
    case (finish k r ax res)
    with reach_finish [OF inv ok] show ?thesis by blast
  qed (use inv ok in \<open>auto intro: reach_methods reach_tasks reach_begin reach_set_tasks reach_shutdown reach_store reach_remove
      reach_reload(3) go exec_step.intros reach_stops [OF _ stops_only_disconnect] reach_stops [OF _ stops_only_executions]\<close>)
qed (auto simp: es_initial_def new_exec_service_def and_then_def guard_else_def aborts_reach_def split: sum.splits if_splits)

lemma reachable_invs:
  assumes "es_reachable s"
  shows "service_inv s" "reload_quiet s" "aborts_reach s"
proof -
  from assms obtain s0 where "es_initial s0" "es_step\<^sup>*\<^sup>* s0 s" by (auto simp: es_reachable_def)
  from reloads.both.reached [OF this] aborts.both.reached [OF this] show "service_inv s" "reload_quiet s" "aborts_reach s" by simp_all
qed

lemma reachable_step: "es_reachable s \<Longrightarrow> es_step s s' \<Longrightarrow> es_reachable s'"
  unfolding es_reachable_def by (meson rtranclp.rtrancl_into_rtrancl)

section \<open>The first stop reason stays\<close>

text \<open>The object of an execution is the same one, and a recorded reason is not replaced.\<close>

definition runs_on :: "active_execution \<Rightarrow> active_execution \<Rightarrow> bool" where
  "runs_on ax ax' \<longleftrightarrow> ax_executionId ax' = ax_executionId ax \<and> (ax_reason ax \<noteq> None \<longrightarrow> ax_reason ax' = ax_reason ax)"

lemma runs_on_refl [simp]: "runs_on ax ax"
  by (simp add: runs_on_def)

lemma runs_on_trans: "runs_on a b \<Longrightarrow> runs_on b c \<Longrightarrow> runs_on a c"
  by (auto simp: runs_on_def)

lemma runs_on_stop [simp]: "runs_on ax (requestStop reason ax)"
  by (simp add: runs_on_def requestStop_def)

lemma runs_on_update [simp]:
  "runs_on ax (ax'\<lparr>ax_phase := ph\<rparr>) = runs_on ax ax'" "runs_on ax (ax'\<lparr>ax_sink := sk\<rparr>) = runs_on ax ax'"
  "runs_on ax (ax'\<lparr>ax_acceptingCancellation := b\<rparr>) = runs_on ax ax'"
  by (simp_all add: runs_on_def)

lemma run_settled_runs_on:
  assumes "run_settled elapsed res ax = (res', ax')"
  shows "runs_on ax ax'"
proof -
  have "ax' = ax\<lparr>ax_acceptingCancellation := False\<rparr> \<or> ax' = (requestStop StopOutputLimit ax)\<lparr>ax_acceptingCancellation := False\<rparr>"
    using assms by (auto simp: run_settled_def Let_def split: sum.splits if_splits)
  then show ?thesis by auto
qed

lemma exec_step_runs_on:
  assumes "exec_step (ax, os, audit) (ax', os', audit')"
  shows "runs_on ax ax'"
  using assms
proof cases
  case (created parse io now random res)
  then show ?thesis by (auto simp: resume_created_def end_with_def split: sum.splits)
next
  case (start_audited written)
  then show ?thesis by (auto simp: resume_start_audited_def fail_with_def end_with_def split: option.splits)
next
  case (chunk seen stream bytes res)
  then show ?thesis by (auto simp: execution_append_def Let_def split: option.splits if_splits)
next
  case (stop reason)
  then show ?thesis by simp
next
  case (ended seen res elapsed)
  obtain r ax1 where r: "run_settled elapsed res ax = (r, ax1)" by force
  with ended run_settled_runs_on [OF r] show ?thesis
    by (auto simp: resume_ran_def fail_with_def end_with_def audit_output_def discardOutputSink_def split: sum.splits option.splits if_splits)
next
  case (finalized rn sink res)
  then show ?thesis by (auto simp: resume_finalized_def fail_with_def end_with_def audit_output_def split: sum.splits)
next
  case (stop_audited rn out written)
  then show ?thesis by (auto simp: resume_stop_audited_def end_with_def split: option.splits)
next
  case (end_audited rn out written)
  then show ?thesis by (auto simp: resume_end_audited_def end_with_def split: option.splits)
qed

text \<open>Every execution of the new table has a new identifier or was in the old one.\<close>

definition flows :: "string set \<Rightarrow> exec_service \<Rightarrow> exec_service \<Rightarrow> bool" where
  "flows new s s' \<longleftrightarrow> (\<forall>key ax'. es_table s' key = Some ax' \<longrightarrow>
     ax_executionId ax' \<in> new \<or> (\<exists>ax. es_table s key = Some ax \<and> runs_on ax ax'))"

lemma flows_trans: "flows new a b \<Longrightarrow> flows new b c \<Longrightarrow> flows new a c"
  unfolding flows_def
proof (intro allI impI)
  assume ab: "\<forall>key ax'. es_table b key = Some ax' \<longrightarrow> ax_executionId ax' \<in> new \<or> (\<exists>ax. es_table a key = Some ax \<and> runs_on ax ax')"
    and bc: "\<forall>key ax'. es_table c key = Some ax' \<longrightarrow> ax_executionId ax' \<in> new \<or> (\<exists>ax. es_table b key = Some ax \<and> runs_on ax ax')"
  fix key ax' assume "es_table c key = Some ax'"
  with bc consider "ax_executionId ax' \<in> new" | ax1 where "es_table b key = Some ax1" "runs_on ax1 ax'" by blast
  then show "ax_executionId ax' \<in> new \<or> (\<exists>ax. es_table a key = Some ax \<and> runs_on ax ax')"
  proof cases
    case 1
    then show ?thesis ..
  next
    case 2
    from ab 2(1) consider "ax_executionId ax1 \<in> new" | ax where "es_table a key = Some ax" "runs_on ax ax1" by blast
    then show ?thesis
    proof cases
      case 1
      with 2(2) show ?thesis by (simp add: runs_on_def)
    next
      case (2 ax)
      with \<open>runs_on ax1 ax'\<close> show ?thesis by (blast intro: runs_on_trans)
    qed
  qed
qed

lemma flows_table: "es_table s' = es_table s \<Longrightarrow> flows new s s'"
  by (auto simp: flows_def)

lemma flows_same: "es_activeBySession s' = es_activeBySession s \<Longrightarrow> flows new s s'"
  by (rule flows_table [OF es_table_cong])

lemma flows_stops: "stops_only s s' \<Longrightarrow> flows new s s'"
proof -
  assume "stops_only s s'"
  then have st: "stopped (es_table s) (es_table s')" by (simp add: stops_only_def)
  have "\<exists>ax. es_table s key = Some ax \<and> runs_on ax ax'" if t: "es_table s' key = Some ax'" for key ax'
  proof -
    from st have "es_table s' key = es_table s key \<or> (\<exists>ax. es_table s key = Some ax \<and> es_table s' key = Some (requestStop StopCancel ax))"
      unfolding stopped_def by blast
    then show ?thesis by (elim disjE exE conjE) (use t in \<open>auto intro: exI [of _ ax']\<close>)
  qed
  then show ?thesis by (simp add: flows_def)
qed

lemma flows_set_tasks: "flows new s (set_tasks tasks s)"
  by (rule flows_trans [OF flows_same flows_stops [OF set_tasks_stops]]) simp

lemma flows_put_state:
  assumes "es_lookup s k r = Some ax" "exec_step (ax, es_outputStore s, es_audit s) st"
  shows "flows new s (put_state k r st s)"
proof -
  obtain ax' os' audit' where st: "st = (ax', os', audit')" by (cases st)
  have t: "es_table (put_state k r st s) = es_table (put_execution k r ax' s)" by (rule es_table_cong) (simp add: put_state_def st)
  have "runs_on ax ax'" using exec_step_runs_on assms(2) st by blast
  then show ?thesis using assms(1) unfolding flows_def t
    by (auto simp: es_table_def lookup_put split: if_splits)
qed

lemma flows_put:
  assumes "es_lookup s k r = Some ax"
  shows "flows new s (put_execution k r (requestStop reason ax) s)"
proof -
  have eq: "put_state k r (requestStop reason ax, es_outputStore s, es_audit s) s = put_execution k r (requestStop reason ax) s"
    by (simp add: put_state_def)
  show ?thesis using flows_put_state [OF assms exec_step.stop, of new reason] by (simp only: eq)
qed

lemma flows_chunk:
  assumes "es_lookup s k r = Some ax" "ax_phase ax = AtExecutor seen"
  shows "flows new s (append_output k r stream chunk seen ax s)"
proof -
  obtain res ax1 os where e: "execution_append stream chunk seen ax (es_outputStore s) = (res, ax1, os)" by (metis prod_cases3)
  show ?thesis
    by (rule flows_trans [OF flows_put_state [OF assms(1) exec_step.chunk [OF assms(2) e]] flows_same])
      (simp add: append_output_def put_state_def e)
qed

lemma flows_start:
  assumes "startExecution k r i target work s = (res, s')" "table_ok s"
  shows "flows {i} s s'"
proof (cases res)
  case (Inl e)
  with start_refused assms have "s' = s" by blast
  then show ?thesis by (simp add: flows_table)
next
  case (Inr u)
  note a = start_admitted [OF assms(1) [unfolded Inr] assms(2)]
  have "ax_executionId (new_execution r i target work) = i" by (simp add: new_execution_def)
  then show ?thesis unfolding flows_def es_table_def using a(4) by (auto split: if_splits)
qed

lemma flows_methods:
  assumes "table_ok s"
  shows "es_run k r i params s = (res, s') \<Longrightarrow> flows {i} s s'"
    and "es_check k r i target s = (res, s') \<Longrightarrow> flows {i} s s'"
    and "runOperation k r i target oper parameters timeoutMs s = (res, s') \<Longrightarrow> flows {i} s s'"
    and "runFixedExecution k r i target authorization kind probe maxOutputBytes s = (res, s') \<Longrightarrow> flows {i} s s'"
  using flows_start [OF _ assms] flows_table [of s s "{i}"]
  by (auto simp: es_run_def es_check_def runOperation_def runFixedExecution_def Let_def split: sum.splits prod.splits)

lemma flows_tasks:
  shows "es_startTask now startedAtMs createRunId params s = (res, s') \<Longrightarrow> flows new s s'"
    and "es_taskStatus nowCleanup now runId s = (res2, s') \<Longrightarrow> flows new s s'"
    and "es_taskTail parse sha now runId cursor limit s = (res3, s') \<Longrightarrow> flows new s s'"
    and "es_cancelTask now runId s = (res4, s') \<Longrightarrow> flows new s s'"
    and "flows new s (worker_done now runId s)" "flows new s (deliver stored now s)"
proof -
  have workers: "flows new s ((set_tasks tasks s)\<lparr>es_workers := w\<rparr>)" for tasks w
    by (rule flows_trans [OF flows_set_tasks flows_same]) simp
  have sent: "flows new s ((set_tasks tasks s)\<lparr>es_deliveries := d\<rparr>)" for tasks d
    by (rule flows_trans [OF flows_set_tasks flows_same]) simp
  have queued: "flows new s (s\<lparr>es_deliveries := d\<rparr>)" for d by (rule flows_same) simp
  note all = workers sent queued flows_set_tasks [of new s] flows_table [of s s new]
  show "es_startTask now startedAtMs createRunId params s = (res, s') \<Longrightarrow> flows new s s'"
    using all by (auto simp: es_startTask_def split: sum.splits prod.splits)
  show "es_taskStatus nowCleanup now runId s = (res2, s') \<Longrightarrow> flows new s s'"
    using all by (auto simp: es_taskStatus_def split: prod.splits)
  show "es_taskTail parse sha now runId cursor limit s = (res3, s') \<Longrightarrow> flows new s s'"
    using all by (auto simp: es_taskTail_def split: prod.splits)
  show "es_cancelTask now runId s = (res4, s') \<Longrightarrow> flows new s s'"
    using all by (auto simp: es_cancelTask_def split: prod.splits)
  show "flows new s (worker_done now runId s)"
    using all by (auto simp: worker_done_def Let_def split: option.splits worker.splits)
  show "flows new s (deliver stored now s)"
    using all by (auto simp: deliver_def split: list.splits)
qed

lemma flows_worker:
  assumes "table_ok s"
  shows "flows {i} s (begin_worker runId i s)"
proof (cases "\<exists>target work. map_of (es_workers s) runId = Some (WorkerWaiting target work)")
  case False
  then have "begin_worker runId i s = s" by (auto simp: begin_worker_def split: option.splits worker.splits)
  then show ?thesis by (simp add: flows_table)
next
  case True
  then obtain target work where w: "map_of (es_workers s) runId = Some (WorkerWaiting target work)" by blast
  obtain res s1 where st: "startExecution (worker_session runId) (StringId runId) i target (work\<lparr>wk_observer := Some runId\<rparr>) s = (res, s1)"
    by force
  define s2 where "s2 = (if task_aborted runId (es_taskStore s1) then snd (es_cancel (worker_session runId) (StringId runId) s1) else s1)"
  have "stops_only s1 s2" by (simp add: s2_def stops_only_cancel)
  from flows_trans [OF flows_start [OF st assms] flows_stops [OF this]] have "flows {i} s s2" .
  moreover have "es_activeBySession (begin_worker runId i s) = es_activeBySession s2"
    by (simp add: begin_worker_def w st s2_def Let_def)
  ultimately show ?thesis using flows_trans flows_same by blast
qed

lemma flows_finish:
  assumes "table_ok s" "es_lookup s k r = Some ax"
  shows "flows new s (finish_execution k r res ax s)"
proof -
  have "flows new s (removeExecution k r s)"
    using remove_execution(2) [OF assms] by (auto simp: flows_def es_table_def split: if_splits)
  moreover have "flows new (removeExecution k r s) (finish_execution k r res ax s)"
    by (rule flows_same) (simp add: finish_execution_def Let_def split: option.split)
  ultimately show ?thesis by (rule flows_trans)
qed

lemma flows_shutdown: "flows new s (es_shutdown s)"
proof -
  have "flows new s (s\<lparr>es_closing := True, es_reloadToken := None\<rparr>)" by (rule flows_same) simp
  from flows_trans [OF this flows_set_tasks] flows_trans [OF this flows_stops [OF stops_only_executions]]
  show ?thesis by (simp add: es_shutdown_def Let_def)
qed

lemma flows_remove: "removeTargets aliases m s = (res, s') \<Longrightarrow> flows new s s'"
  by (rule flows_same) (auto elim!: removeTargets_cases simp: reload_fields)

lemma es_step_flows:
  assumes "es_step s s'" "table_ok s"
  shows "\<exists>new. flows new s s' \<and> (\<forall>key ax. es_table s key = Some ax \<longrightarrow> ax_executionId ax \<notin> new)"
proof -
  have fresh: "\<forall>key ax. es_table s key = Some ax \<longrightarrow> ax_executionId ax \<notin> {i}" if "fresh_id s i" for i
    using fresh_new_id [OF that] by (auto simp: new_id_def)
  have "flows {} s s' \<or> (\<exists>i. fresh_id s i \<and> flows {i} s s')"
    using assms(1)
  proof cases
    case (begin_reload res)
    then show ?thesis using flows_same [of s' s "{}"] reload_fields(2) [of s] by simp
  next
    case (commit token gen res)
    then show ?thesis using flows_same [of s' s "{}"] reload_fields(8) [of token gen s] by simp
  next
    case (release token)
    then show ?thesis using flows_same [of s' s "{}"] reload_fields(6) [of token s] by simp
  next
    case (metadata m res)
    then show ?thesis using flows_same [of s' s "{}"] reload_fields(4) [of m s] by simp
  next
    case (cancel k r b)
    with flows_stops [OF stops_only_cancel, of "{}" s k r] show ?thesis by simp
  next
    case (store_job aio fio now r)
    then show ?thesis using flows_same [of s' s "{}"] by simp
  next
    case (store_read parse io now reference stream offset limit res os)
    then show ?thesis using flows_same [of s' s "{}"] by simp
  next
    case (store_cleanup parse io now res os)
    then show ?thesis using flows_same [of s' s "{}"] by simp
  next
    case (remove aliases m res)
    then show ?thesis using flows_remove by blast
  next
    case (timer k r ax seen)
    then show ?thesis using flows_put [of s k r ax "{}" StopTimeout] by simp
  next
    case (chunk k r ax seen stream bytes)
    then show ?thesis using flows_chunk [of s k r ax seen "{}" stream bytes] by simp
  next
    case (finish k r ax res)
    then show ?thesis using flows_finish [OF assms(2), of k r ax "{}" res] by simp
  next
    case (other_task tasks)
    then show ?thesis using flows_set_tasks [of "{}" s tasks] by simp
  qed (use assms(2) in \<open>auto intro: flows_methods flows_tasks [where new = "{}"] flows_worker flows_shutdown flows_put_state exec_step.intros
      flows_stops [OF stops_only_disconnect] flows_stops [OF stops_only_executions]\<close>)
  then show ?thesis
  proof (elim disjE exE conjE)
    assume "flows {} s s'"
    then show ?thesis by (intro exI [of _ "{}"]) simp
  next
    fix i
    assume "fresh_id s i" "flows {i} s s'"
    then show ?thesis using fresh by (intro exI [of _ "{i}"]) blast
  qed
qed

text \<open>A step after which the execution with the given identifier is registered under the given key.\<close>

definition step_with :: "string \<Rightarrow> request_id \<Rightarrow> string \<Rightarrow> exec_service \<Rightarrow> exec_service \<Rightarrow> bool" where
  "step_with k r i s s' \<longleftrightarrow> es_step s s' \<and> (\<exists>ax. es_lookup s' k r = Some ax \<and> ax_executionId ax = i)"

lemma step_runs_on:
  assumes "es_step s s'" "table_ok s" "es_lookup s k r = Some ax" "es_lookup s' k r = Some ax'" "ax_executionId ax' = ax_executionId ax"
  shows "runs_on ax ax'"
proof -
  from es_step_flows [OF assms(1,2)] obtain new where
    f: "flows new s s'" "\<And>key ax. es_table s key = Some ax \<Longrightarrow> ax_executionId ax \<notin> new" by blast
  have t: "es_table s (k, r) = Some ax" "es_table s' (k, r) = Some ax'" using assms(3,4) by (simp_all add: es_table_def)
  with f(1) f(2) [OF t(1)] assms(5) show ?thesis unfolding flows_def by fastforce
qed

lemma steps_run_on:
  assumes "(step_with k r i)\<^sup>*\<^sup>* s s'" "es_reachable s" "es_lookup s k r = Some ax" "ax_executionId ax = i"
  shows "es_reachable s' \<and> (\<exists>ax'. es_lookup s' k r = Some ax' \<and> runs_on ax ax')"
  using assms(1)
proof (induction rule: rtranclp_induct)
  case base
  then show ?case using assms(2,3) by auto
next
  case (step s1 s2)
  then obtain ax1 where 1: "es_reachable s1" "es_lookup s1 k r = Some ax1" "runs_on ax ax1" by blast
  from step.hyps(2) obtain ax2 where 2: "es_step s1 s2" "es_lookup s2 k r = Some ax2" "ax_executionId ax2 = i"
    by (auto simp: step_with_def)
  have "table_ok s1" using reachable_invs(1) [OF 1(1)] by (simp add: service_inv_def)
  moreover have "ax_executionId ax2 = ax_executionId ax1" using 1(3) 2(3) assms(4) by (simp add: runs_on_def)
  ultimately have "runs_on ax1 ax2" using step_runs_on [OF 2(1) _ 1(2) 2(2)] by blast
  with 1 2 show ?case using runs_on_trans reachable_step by blast
qed

section \<open>Properties\<close>

text \<open>
  C3: the service never runs more executions than its limit, and its counter and its table agree. In every reachable
  service \<open>activeCount\<close> is the number of executions in the table, no more than \<open>maxConcurrentExecutions\<close>; a session
  appears once and with at least one execution, a request of a session once.
\<close>

theorem execution_limits:
  assumes "es_reachable s"
  shows "es_activeCount s = int (sum_list (map (length \<circ> snd) (es_activeBySession s)))
    \<and> es_activeCount s \<le> es_maxConcurrentExecutions s
    \<and> distinct (map fst (es_activeBySession s))
    \<and> (\<forall>(k, m) \<in> set (es_activeBySession s). m \<noteq> [] \<and> distinct (map fst m))"
  using reachable_invs(1) [OF assms] by (simp add: service_inv_def table_ok_def well_formed_def table_size_def)

text \<open>
  C1: what a finished execution reports. When the promise of an execution is fulfilled there is a run \<open>rn\<close> such that:
  the result is made of it; its termination is the first reason for which the execution was asked to stop,
  and if there was none what the executor reported; the audit log holds for this execution the record of the start,
  for a stopped one that of the stop, and that of the end with the same termination and exit code, in this order and
  nothing else; and the output is what the sink was finalized with after an exit or an exceeded limit, and is empty otherwise, with the
  sink aborted. That it is the first reason says the last part: in every state on the way from the registration of the execution,
  once a reason is recorded, or a request has been made to an execution that accepts one and has none, this reason
  decides the termination, whatever is requested later.
\<close>

theorem execution_outcome:
  assumes "es_reachable s" "es_lookup s k r = Some ax" "ax_phase ax = Ended (Inr v)"
  shows "\<exists>rn output. v = execution_result rn output ax \<and> ax_requestId ax = r
    \<and> (case ax_reason ax of
         Some reason \<Rightarrow> rn_termination rn = reason_termination reason
       | None \<Rightarrow> rn_termination rn \<in> {BySpawnError, if oc_aborted (rn_outcome rn) then ByCancel else ByExit})
    \<and> filter (\<lambda>e. event_id e = ax_executionId ax) (es_audit s) =
        [start_record ax]
        @ (if output \<noteq> None \<and> rn_termination rn \<in> {ByTimeout, ByCancel, ByOutputLimit}
           then [ExecCancelled (ax_executionId ax) (ax_target ax) (rn_termination rn)] else [])
        @ [end_record rn output ax]
    \<and> (case ax_sink ax of
         None \<Rightarrow> wk_probe (ax_work ax) \<noteq> None \<and> output = None
       | Some sink \<Rightarrow> wk_probe (ax_work ax) = None \<and>
           (if rn_termination rn \<in> {ByExit, ByOutputLimit}
            then \<exists>v. output = Some v \<and> finalize_outcome sink (es_outputStore s) = Some (Inr v)
            else output = Some (fst (discardOutputSink sink (es_outputStore s)))
              \<and> (\<exists>t. map_of (os_sinks (es_outputStore s)) sink = Some t \<and> sk_abortPromise (tk_sink t) \<noteq> NoPromise)))
    \<and> (\<forall>s1 ax1 reason. es_reachable s1 \<longrightarrow> es_lookup s1 k r = Some ax1 \<longrightarrow> ax_executionId ax1 = ax_executionId ax \<longrightarrow>
         (step_with k r (ax_executionId ax))\<^sup>*\<^sup>* s1 s \<longrightarrow>
         ax_reason ax1 = Some reason
           \<or> (\<exists>ax0. ax_acceptingCancellation ax0 \<and> ax_reason ax0 = None \<and> ax1 = requestStop reason ax0) \<longrightarrow>
         rn_termination rn = reason_termination reason)"
proof -
  have "executions_ok (core_of s)" using reachable_invs(1) [OF assms(1)] by (simp add: service_inv_def)
  from executions_okD(2) [OF this, of "(k, r)" ax] assms(2) have ok: "exec_ok r ax (es_outputStore s) (es_audit s)"
    by (simp add: es_table_def)
  then have ids: "ax_requestId ax = r" and pr: "ax_sink ax = None \<longleftrightarrow> is_probe (ax_work ax)"
    using assms(3) by (auto simp: exec_ok_def control_ok_def)
  have probe: "ax_sink ax = None \<Longrightarrow> wk_probe (ax_work ax) \<noteq> None" "\<And>x. ax_sink ax = Some x \<Longrightarrow> wk_probe (ax_work ax) = None"
    using pr unfolding is_probe_def by (blast, metis option.distinct(1))
  from ok assms(3) obtain rn out where rn: "v = execution_result rn out ax" "termination_ok ax rn"
    "output_ok ax (es_outputStore s) rn out"
    "own_records ax (es_audit s) = start_record ax # stop_records ax rn out @ [end_record rn out ax]"
    by (auto simp: exec_ok_def progress_ok_def)
  show ?thesis
  proof (intro exI [of _ rn] exI [of _ out] conjI)
    show "case ax_reason ax of Some reason \<Rightarrow> rn_termination rn = reason_termination reason
       | None \<Rightarrow> rn_termination rn \<in> {BySpawnError, if oc_aborted (rn_outcome rn) then ByCancel else ByExit}"
      using rn(2) by (auto simp: termination_ok_def split: option.splits)
    show "filter (\<lambda>e. event_id e = ax_executionId ax) (es_audit s) = [start_record ax]
        @ (if out \<noteq> None \<and> rn_termination rn \<in> {ByTimeout, ByCancel, ByOutputLimit}
           then [ExecCancelled (ax_executionId ax) (ax_target ax) (rn_termination rn)] else [])
        @ [end_record rn out ax]"
      using rn(4) by (simp add: own_records_def stop_records_def)
    show "case ax_sink ax of
         None \<Rightarrow> wk_probe (ax_work ax) \<noteq> None \<and> out = None
       | Some sink \<Rightarrow> wk_probe (ax_work ax) = None \<and>
           (if rn_termination rn \<in> {ByExit, ByOutputLimit}
            then \<exists>v. out = Some v \<and> finalize_outcome sink (es_outputStore s) = Some (Inr v)
            else out = Some (fst (discardOutputSink sink (es_outputStore s)))
              \<and> (\<exists>t. map_of (os_sinks (es_outputStore s)) sink = Some t \<and> sk_abortPromise (tk_sink t) \<noteq> NoPromise))"
      using rn(3) probe by (auto simp: output_ok_def discardOutputSink_def empty_output_def the_sink_def split: option.splits if_splits)
    show "\<forall>s1 ax1 reason. es_reachable s1 \<longrightarrow> es_lookup s1 k r = Some ax1 \<longrightarrow> ax_executionId ax1 = ax_executionId ax \<longrightarrow>
         (step_with k r (ax_executionId ax))\<^sup>*\<^sup>* s1 s \<longrightarrow>
         ax_reason ax1 = Some reason
           \<or> (\<exists>ax0. ax_acceptingCancellation ax0 \<and> ax_reason ax0 = None \<and> ax1 = requestStop reason ax0) \<longrightarrow>
         rn_termination rn = reason_termination reason"
    proof (intro allI impI)
      fix s1 ax1 reason
      assume 1: "es_reachable s1" "es_lookup s1 k r = Some ax1" "ax_executionId ax1 = ax_executionId ax"
        "(step_with k r (ax_executionId ax))\<^sup>*\<^sup>* s1 s"
        and "ax_reason ax1 = Some reason
           \<or> (\<exists>ax0. ax_acceptingCancellation ax0 \<and> ax_reason ax0 = None \<and> ax1 = requestStop reason ax0)"
      from this(5) have "ax_reason ax1 = Some reason" by (auto simp: requestStop_def)
      moreover have "runs_on ax1 ax" using steps_run_on [OF 1(4,1,2,3)] assms(2) by auto
      ultimately have "ax_reason ax = Some reason" by (simp add: runs_on_def)
      then show "rn_termination rn = reason_termination reason" using rn(2) by (simp add: termination_ok_def)
    qed
  qed (use rn(1) ids in simp_all)
qed

text \<open>
  C2: no out sink is left behind. In every reachable service the out store is in a state its own methods can reach,
  and a sink that was neither finalized nor aborted belongs to exactly one execution, one
  that is registered and has not ended: every path out of an execution, errors included, disposes of its sink.
\<close>

theorem no_open_sink_left:
  assumes "es_reachable s"
  shows "os_reachable (es_outputStore s)
    \<and> (\<forall>sink t. map_of (os_sinks (es_outputStore s)) sink = Some t \<longrightarrow> \<not> disposed (tk_sink t) \<longrightarrow>
        (\<exists>k r ax. es_lookup s k r = Some ax \<and> ax_sink ax = Some sink \<and> holds_sink (ax_phase ax)
           \<and> (\<forall>k' r' ax'. es_lookup s k' r' = Some ax' \<longrightarrow> ax_sink ax' = Some sink \<longrightarrow> k' = k \<and> r' = r)))"
proof -
  have inv: "service_inv s" by (rule reachable_invs(1) [OF assms])
  then have sep: "separate (es_table s)" using executions_okD(1) [of "core_of s"] by (simp add: service_inv_def)
  have "\<exists>k r ax. es_lookup s k r = Some ax \<and> ax_sink ax = Some sink \<and> holds_sink (ax_phase ax)
      \<and> (\<forall>k' r' ax'. es_lookup s k' r' = Some ax' \<longrightarrow> ax_sink ax' = Some sink \<longrightarrow> k' = k \<and> r' = r)"
    if "map_of (os_sinks (es_outputStore s)) sink = Some t" "\<not> disposed (tk_sink t)" for sink t
  proof -
    have "the_sink (es_outputStore s) sink = Some (tk_sink t)" using that(1) by (simp add: the_sink_def)
    with inv that(2) obtain key ax where h: "es_table s key = Some ax" "ax_sink ax = Some sink" "holds_sink (ax_phase ax)"
      unfolding service_inv_def sinks_held_def holder_def by (metis core_of_simps(1,2))
    have u: "(k', r') = key" if "es_lookup s k' r' = Some ax'" "ax_sink ax' = Some sink" for k' r' ax'
      using sep h(1,2) that unfolding separate_def es_table_def by (metis prod.case)
    obtain k r where key: "key = (k, r)" by (cases key)
    have "es_lookup s k r = Some ax" using h(1) by (simp add: key es_table_def)
    with h(2,3) u key show ?thesis by blast
  qed
  moreover have "os_reachable (es_outputStore s)" using inv by (simp add: service_inv_def)
  ultimately show ?thesis by blast
qed

text \<open>
  C4: a configuration reload and executions exclude each other. While a reload holds the token no execution
  is registered and no exec task waits or runs; and every registered execution and every task that waits for
  its turn uses the executor of the current configuration, so none can outlive the configuration it was authorized under.
\<close>

theorem reload_excludes_executions:
  assumes "es_reachable s"
  shows "(es_reloadToken s \<noteq> None \<longrightarrow> es_activeBySession s = [] \<and> es_activeCount s = 0 \<and> es_workers s = [])
    \<and> (\<forall>k r ax. es_lookup s k r = Some ax \<longrightarrow> wk_executor (ax_work ax) = gn_executor (es_generation s))
    \<and> (\<forall>runId target work. map_of (es_workers s) runId = Some (WorkerWaiting target work) \<longrightarrow>
         wk_executor work = gn_executor (es_generation s))"
proof -
  have inv: "service_inv s" and quiet: "reload_quiet s" by (rule reachable_invs [OF assms])+
  have w: "service_workers_ok s" and ok: "table_ok s" using inv by (simp_all add: service_inv_def tasks_ok_def)
  have "es_activeBySession s = []" if "es_activeCount s = 0" using ok that by (rule table_empty_list)
  moreover have "wk_executor (ax_work ax) = gn_executor (es_generation s)" if "es_lookup s k r = Some ax" for k r ax
  proof -
    have "es_works s (k, r) = Some (ax_work ax)" using that by (simp add: es_works_def es_table_def)
    with w show ?thesis unfolding workers_ok_def by blast
  qed
  moreover have "wk_executor work = gn_executor (es_generation s)"
    if "map_of (es_workers s) runId = Some (WorkerWaiting target work)" for runId target work
    using w that unfolding workers_ok_def by blast
  ultimately show ?thesis using quiet by (auto simp: reload_quiet_def)
qed

text \<open>
  C5: stopping a task reaches its execution. Every exec task whose worker runs has exactly the execution
  registered under its own session and run id, observed by the log of the task; the task is still running in the
  task store; and as soon as the task was aborted, by a cancellation, a timeout or the shutdown of the task store, that execution was
  told to stop or had ended already.
\<close>

theorem aborted_task_stops_execution:
  assumes "es_reachable s" "map_of (es_workers s) runId = Some WorkerRunning"
  shows "\<exists>t ax. map_of (ts_tasks (es_taskStore s)) runId = Some t \<and> is_running t
    \<and> es_lookup s (worker_session runId) (StringId runId) = Some ax \<and> wk_observer (ax_work ax) = Some runId
    \<and> (t_aborted t \<longrightarrow> ax_acceptingCancellation ax \<longrightarrow> ax_aborted ax \<and> ax_reason ax \<noteq> None)"
proof -
  have inv: "service_inv s" and reach: "aborts_reach s" by (rule reachable_invs [OF assms(1)])+
  have w: "service_workers_ok s" using inv by (simp add: service_inv_def tasks_ok_def)
  from w assms(2) have "task_runs runId (es_taskStore s)" unfolding workers_ok_def by fastforce
  then obtain t where t: "map_of (ts_tasks (es_taskStore s)) runId = Some t" "is_running t" by (auto simp: task_runs_def)
  from w assms(2) obtain wk where wk: "es_works s (worker_key runId) = Some wk" "wk_observer wk = Some runId"
    unfolding workers_ok_def by blast
  then obtain ax where ax: "es_table s (worker_key runId) = Some ax" "ax_work ax = wk" by (auto simp: es_works_def)
  have "exec_ok (snd (worker_key runId)) ax (es_outputStore s) (es_audit s)"
    using executions_okD(2) [of "core_of s" "worker_key runId" ax] ax(1) inv by (simp add: service_inv_def)
  then have "ax_aborted ax \<longleftrightarrow> ax_reason ax \<noteq> None" by (simp add: exec_ok_def control_ok_def)
  moreover have "stopping ax" if "t_aborted t"
    using aborts_reachD [OF reach assms(2) _ ax(1)] t(1) that by (simp add: task_aborted_def)
  ultimately show ?thesis using t ax wk(2) by (auto simp: es_table_def worker_key_def stopping_def)
qed

section \<open>Witnesses\<close>

text \<open>A service with one target and room for one execution, and a run of a command in it.\<close>

definition example_service :: exec_service where
  "example_service = projr (new_exec_service \<lparr>gn_registry = projr example_registry, gn_executor = 1, gn_hostKeyInspector = None\<rparr>
     (projr (new_output_store (\<lambda>_. False) ''out'' 4 10 20 2 1000 None [])) 1 (Some example_store))"

definition example_checking :: exec_service where
  "example_checking = snd (es_check ''s'' (StringId ''r'') ''e1'' ''web'' example_service)"

lemma example_initial: "es_initial example_service"
proof -
  let ?os = "new_output_store (\<lambda>_. False) ''out'' 4 10 20 2 1000 None []"
  have "is_ok ?os" by code_simp
  then have "?os = Inr (projr ?os)" by (auto simp: is_ok_iff)
  then have os: "os_reachable (projr ?os)" by (rule os_reachable.init) simp
  have none: "os_sinks (projr ?os) = []" by code_simp
  have "is_ok (new_exec_service \<lparr>gn_registry = projr example_registry, gn_executor = 1, gn_hostKeyInspector = None\<rparr> (projr ?os) 1 (Some example_store))"
    by code_simp
  then have "new_exec_service \<lparr>gn_registry = projr example_registry, gn_executor = 1, gn_hostKeyInspector = None\<rparr> (projr ?os) 1 (Some example_store)
      = Inr example_service" by (auto simp: is_ok_iff example_service_def)
  with os none example_reachable(1) show ?thesis unfolding es_initial_def by blast
qed

lemma initial_reachable: "es_initial s \<Longrightarrow> es_reachable s"
  by (auto simp: es_reachable_def)

lemma example_checking_reachable: "es_reachable example_checking"
proof -
  have "fresh_id example_service ''e1''" by (simp add: fresh_id_def) code_simp
  from es_step.check [OF this] show ?thesis
    unfolding example_checking_def using reachable_step [OF initial_reachable [OF example_initial]] by (metis prod.collapse)
qed

lemma example_checking_phase: "map_option ax_phase (es_lookup example_checking ''s'' (StringId ''r'')) = Some CreatingSink"
  by code_simp

theorem execution_limits_witness:
  "es_activeCount example_checking = 1 \<and> es_maxConcurrentExecutions example_checking = 1
   \<and> sum_list (map (length \<circ> snd) (es_activeBySession example_checking)) = 1"
proof -
  have "es_activeCount example_checking = 1" "es_maxConcurrentExecutions example_checking = 1" by code_simp+
  with execution_limits [OF example_checking_reachable] show ?thesis by simp
qed

theorem reload_excludes_executions_witness:
  "wk_executor (ax_work (the (es_lookup example_checking ''s'' (StringId ''r'')))) = 1
   \<and> es_reloadToken (snd (beginReload example_service)) \<noteq> None \<and> es_workers (snd (beginReload example_service)) = []"
proof -
  obtain ax where ax: "es_lookup example_checking ''s'' (StringId ''r'') = Some ax" using example_checking_phase by auto
  have "gn_executor (es_generation example_checking) = 1" by code_simp
  with reload_excludes_executions [OF example_checking_reachable] ax have "wk_executor (ax_work ax) = 1" by metis
  moreover have "es_reachable (snd (beginReload example_service))"
    using reachable_step [OF initial_reachable [OF example_initial] es_step.begin_reload] by (metis prod.collapse)
  moreover have "es_reloadToken (snd (beginReload example_service)) \<noteq> None" by code_simp
  ultimately show ?thesis using reload_excludes_executions [of "snd (beginReload example_service)"] ax by simp
qed

text \<open>The sink of the command is created.\<close>

definition example_created :: exec_service where
  "example_created =
     (case os_create (\<lambda>_. None) no_faults 0 (\<lambda>_. replicate 32 0) (StringId ''e1'') (es_outputStore example_checking) of (res, os) \<Rightarrow>
       put_state ''s'' (StringId ''r'') (resume_created res (the (es_lookup example_checking ''s'' (StringId ''r''))), os, es_audit example_checking)
         example_checking)"

lemma example_created_reachable: "es_reachable example_created"
proof -
  obtain ax where ax: "es_lookup example_checking ''s'' (StringId ''r'') = Some ax" "ax_phase ax = CreatingSink"
    using example_checking_phase by auto
  have "map_option ax_executionId (es_lookup example_checking ''s'' (StringId ''r'')) = Some ''e1''" by code_simp
  then have i: "ax_executionId ax = ''e1''" using ax by simp
  have none: "os_sinks (es_outputStore example_checking) = []" by code_simp
  obtain res os where c: "os_create (\<lambda>_. None) no_faults 0 (\<lambda>_. replicate 32 0) (StringId (ax_executionId ax)) (es_outputStore example_checking)
      = (res, os)" by force
  have "es_step example_checking (put_state ''s'' (StringId ''r'') (resume_created res ax, os, es_audit example_checking) example_checking)"
    by (rule es_step.created [OF _ c]) (use ax none in simp_all)
  moreover have "example_created = put_state ''s'' (StringId ''r'') (resume_created res ax, os, es_audit example_checking) example_checking"
    using c ax(1) by (simp add: example_created_def i)
  ultimately show ?thesis using reachable_step [OF example_checking_reachable] by simp
qed

theorem no_open_sink_left_witness:
  "\<exists>k r ax. es_lookup example_created k r = Some ax \<and> ax_sink ax = Some (base64url (replicate 32 0)) \<and> holds_sink (ax_phase ax)"
proof -
  let ?r = "base64url (replicate 32 0)"
  have "map_option (\<lambda>t. disposed (tk_sink t)) (map_of (os_sinks (es_outputStore example_created)) ?r) = Some False" by code_simp
  then obtain t where "map_of (os_sinks (es_outputStore example_created)) ?r = Some t" "\<not> disposed (tk_sink t)" by auto
  with no_open_sink_left [OF example_created_reachable] show ?thesis by blast
qed

lemma lookup_put_state: "es_lookup s k r = Some ax \<Longrightarrow> es_lookup (put_state k r (ax', os, audit) s) k r = Some ax'"
  by (auto simp: es_lookup_def put_state_def put_execution_def update_conv' bind_eq_Some_conv)

lemma goes_on:
  assumes "es_reachable s" "es_lookup s k r = Some ax" "es_step s (put_state k r (ax', os, audit) s)"
  shows "\<exists>s'. es_reachable s' \<and> es_lookup s' k r = Some ax'"
  using reachable_step [OF assms(1,3)] lookup_put_state [OF assms(2)] by blast

lemma timeout_run:
  assumes "es_reachable s" "es_lookup s k r = Some ax" "ax_phase ax = AuditingStart" "ax_acceptingCancellation ax" "ax_reason ax = None"
    "ax_sink ax = Some sink"
  shows "\<exists>s' ax' v. es_reachable s' \<and> es_lookup s' k r = Some ax' \<and> ax_phase ax' = Ended (Inr v) \<and> ax_reason ax' = Some StopTimeout"
proof -
  let ?ax1 = "ax\<lparr>ax_phase := AtExecutor 0\<rparr>"
  have "es_step s (put_state k r (?ax1, es_outputStore s, es_audit s @ [start_record ax]) s)"
    using es_step.start_audited [of s k r ax None] assms(2,3) by (simp add: resume_start_audited_def)
  from goes_on [OF assms(1,2) this] obtain s1 where s1: "es_reachable s1" "es_lookup s1 k r = Some ?ax1" by blast
  let ?ax2 = "?ax1\<lparr>ax_reason := Some StopTimeout, ax_aborted := True\<rparr>"
  have "put_execution k r ?ax2 s1 = put_state k r (?ax2, es_outputStore s1, es_audit s1) s1" by (simp add: put_state_def)
  moreover have "requestStop StopTimeout ?ax1 = ?ax2" using assms(4,5) by (simp add: requestStop_def)
  ultimately have "es_step s1 (put_state k r (?ax2, es_outputStore s1, es_audit s1) s1)"
    using es_step.timer [of s1 k r ?ax1 0] s1(2) by simp
  from goes_on [OF s1 this] obtain s2 where s2: "es_reachable s2" "es_lookup s2 k r = Some ?ax2" by blast
  let ?rn = "\<lparr>rn_termination = ByTimeout, rn_outcome = emptyOutcome 5\<rparr>"
  let ?out = "fst (discardOutputSink sink (es_outputStore s2))"
  let ?ax3 = "?ax2\<lparr>ax_acceptingCancellation := False, ax_phase := AuditingStop ?rn ?out\<rparr>"
  have "resume_ran 5 (Inr (emptyOutcome 5)) (?ax2, es_outputStore s2, es_audit s2) =
      (?ax3, snd (discardOutputSink sink (es_outputStore s2)), es_audit s2)"
    using assms(6) by (simp add: resume_ran_def run_settled_def termination_or_def reason_termination_def emptyOutcome_def audit_output_def
        case_prod_beta)
  then have "es_step s2 (put_state k r (?ax3, snd (discardOutputSink sink (es_outputStore s2)), es_audit s2) s2)"
    using es_step.ended [of s2 k r ?ax2 0 "Inr (emptyOutcome 5)" 5] s2(2) by simp
  from goes_on [OF s2 this] obtain s3 where s3: "es_reachable s3" "es_lookup s3 k r = Some ?ax3" by blast
  let ?ax4 = "?ax3\<lparr>ax_phase := AuditingEnd ?rn (Some ?out)\<rparr>"
  have "es_step s3 (put_state k r (?ax4, es_outputStore s3, es_audit s3 @ [ExecCancelled (ax_executionId ax) (ax_target ax) ByTimeout]) s3)"
    using es_step.stop_audited [of s3 k r ?ax3 ?rn ?out None] s3(2) by (simp add: resume_stop_audited_def)
  from goes_on [OF s3 this] obtain s4 where s4: "es_reachable s4" "es_lookup s4 k r = Some ?ax4" by blast
  let ?ax5 = "?ax4\<lparr>ax_phase := Ended (Inr (execution_result ?rn (Some ?out) ?ax4))\<rparr>"
  have "es_step s4 (put_state k r (?ax5, es_outputStore s4, es_audit s4 @ [end_record ?rn (Some ?out) ?ax4]) s4)"
    using es_step.end_audited [of s4 k r ?ax4 ?rn "Some ?out" None] s4(2) by (simp add: resume_end_audited_def end_with_def)
  from goes_on [OF s4 this] obtain s5 where "es_reachable s5" "es_lookup s5 k r = Some ?ax5" by blast
  moreover have "ax_phase ?ax5 = Ended (Inr (execution_result ?rn (Some ?out) ?ax4))" "ax_reason ?ax5 = Some StopTimeout" by simp_all
  ultimately show ?thesis by blast
qed

theorem execution_outcome_witness:
  "\<exists>s ax rn out. es_reachable s \<and> es_lookup s ''s'' (StringId ''r'') = Some ax
     \<and> ax_phase ax = Ended (Inr (execution_result rn out ax)) \<and> rn_termination rn = ByTimeout"
proof -
  have "map_option (\<lambda>ax. (ax_phase ax, ax_acceptingCancellation ax, ax_reason ax, ax_sink ax)) (es_lookup example_created ''s'' (StringId ''r''))
      = Some (AuditingStart, True, None, Some (base64url (replicate 32 0)))" by code_simp
  then obtain ax0 where "es_lookup example_created ''s'' (StringId ''r'') = Some ax0" "ax_phase ax0 = AuditingStart"
    "ax_acceptingCancellation ax0" "ax_reason ax0 = None" "ax_sink ax0 = Some (base64url (replicate 32 0))" by auto
  from timeout_run [OF example_created_reachable this] obtain s ax v where
    s: "es_reachable s" "es_lookup s ''s'' (StringId ''r'') = Some ax" "ax_phase ax = Ended (Inr v)" and r: "ax_reason ax = Some StopTimeout"
    by blast
  from execution_outcome [OF s] obtain rn out where "v = execution_result rn out ax" "rn_termination rn = ByTimeout"
    by (auto simp: r reason_termination_def)
  with s show ?thesis by blast
qed

text \<open>A task that was started and cancelled.\<close>

definition example_params :: run_params where
  "example_params = \<lparr>rp_target = ''web'', rp_command = RunCommand ''uptime'', rp_timeoutMs = None\<rparr>"

definition example_task :: exec_service where
  "example_task = snd (es_startTask 0 0 (\<lambda>_. example_id) example_params example_service)"

lemma example_prepared: "\<exists>work. prepareRun example_params example_service = Inr work \<and> wk_probe work = None"
proof -
  have "is_ok example_registry" by code_simp
  then obtain reg where e: "example_registry = Inr reg" by (auto simp: is_ok_iff)
  then have reg: "new_target_registry [(''web'', example_config)] [] [] = Inr reg" by (simp add: example_registry_def)
  have en: "tc_enabled example_config" "policy_admits (tc_policy example_config) ''uptime''"
    by (simp_all add: example_config_def policy_admits_def)
  have f: "refers [(''web'', example_config)] ''web'' ''web'' example_config" by (simp add: refers_def references_of_def)
  have "TARGET_ALIAS_PATTERN ''web''" by code_simp
  with f have "require_target reg ''web'' = Inr (make_target ''web'' example_config)"
    using require_iff [OF reg, of "''web''" "make_target ''web'' example_config"] en by auto
  moreover have "map_of (tr_entries reg) ''web'' = Some (entry_of ''web'' example_config)" using entry_lookup [OF reg] f by simp
  ultimately have "is_ok (authorize reg ''web'' ''uptime'' None)"
    using example_refers(3) policy_admits_mode [of example_config "''uptime''" "''web''"] en
    by (auto simp: authorize_def command_ok_def entry_policy authorizeTimeout_def timeout_ok_def)
  moreover have "gn_registry (es_generation example_service) = projr example_registry" by code_simp
  then have "gn_registry (es_generation example_service) = reg" by (simp add: e)
  moreover have "is_ok (assertExecutionAvailable example_service)" by code_simp
  ultimately show ?thesis
    by (auto simp: prepareRun_def example_params_def is_ok_iff and_then_def prepareRemoteCommand_def MAX_COMMAND_BYTES_def prepared_work_def
        split: sum.split)
qed

lemma example_task_reachable:
  "\<exists>work. es_reachable example_task \<and> map_of (es_workers example_task) example_id = Some (WorkerWaiting ''web'' work)
     \<and> es_activeBySession example_task = [] \<and> es_activeCount example_task = 0 \<and> es_maxConcurrentExecutions example_task = 1
     \<and> es_audit example_task = []
     \<and> es_taskStore example_task = snd (ts_start (es_taskStore example_service) \<lparr>so_kind = ExecTask, so_target = ''web'', so_timeoutMs = None\<rparr>
         0 0 (\<lambda>_. example_id))"
proof -
  obtain work where w: "prepareRun example_params example_service = Inr work" using example_prepared by blast
  have ts: "fst (ts_start (es_taskStore example_service) \<lparr>so_kind = ExecTask, so_target = ''web'', so_timeoutMs = None\<rparr> 0 0
      (\<lambda>_. example_id)) = Inr example_id" by code_simp
  have "es_workers example_service = []" "es_activeBySession example_service = []" "es_activeCount example_service = 0"
    "es_maxConcurrentExecutions example_service = 1" "es_audit example_service = []" by code_simp+
  moreover have "set_tasks tasks example_service = example_service\<lparr>es_taskStore := tasks\<rparr>" for tasks
    using \<open>es_workers example_service = []\<close> by (simp add: set_tasks_def)
  moreover have "es_reachable example_task"
    unfolding example_task_def using reachable_step [OF initial_reachable [OF example_initial] es_step.start_task] by (metis prod.collapse)
  ultimately show ?thesis using w ts
    by (auto simp: example_task_def es_startTask_def example_params_def split: prod.split)
qed

theorem aborted_task_stops_execution_witness:
  "\<exists>s ax. es_reachable s \<and> task_aborted example_id (es_taskStore s)
     \<and> es_lookup s (worker_session example_id) (StringId example_id) = Some ax \<and> wk_observer (ax_work ax) = Some example_id"
proof -
  obtain work where t: "es_reachable example_task" "map_of (es_workers example_task) example_id = Some (WorkerWaiting ''web'' work)"
    "es_activeBySession example_task = []" "es_activeCount example_task = 0" "es_maxConcurrentExecutions example_task = 1" "es_audit example_task = []"
    and ts: "es_taskStore example_task = snd (ts_start (es_taskStore example_service)
      \<lparr>so_kind = ExecTask, so_target = ''web'', so_timeoutMs = None\<rparr> 0 0 (\<lambda>_. example_id))"
    using example_task_reachable by blast
  let ?s1 = "begin_worker example_id ''e1'' example_task"
  let ?s2 = "snd (es_cancelTask 0 example_id ?s1)"
  have "fresh_id example_task ''e1''" using t by (simp add: fresh_id_def)
  from reachable_step [OF t(1) es_step.worker_begins [OF this]] have r1: "es_reachable ?s1" .
  from reachable_step [OF r1 es_step.cancel_task] have r2: "es_reachable ?s2" by (metis prod.collapse)
  have nt: "\<not> task_aborted example_id (es_taskStore example_task)" unfolding ts by code_simp
  then have w1: "map_of (es_workers ?s1) example_id = Some WorkerRunning" "es_taskStore ?s1 = es_taskStore example_task"
    using t by (simp_all add: begin_worker_def startExecution_def Let_def put_execution_def update_conv')
  have w2: "map_of (es_workers ?s2) example_id = Some WorkerRunning"
    "es_taskStore ?s2 = snd (ts_cancel 0 example_id (es_taskStore ?s1))"
    using w1 by (simp_all add: es_cancelTask_def split: prod.split)
  have "task_aborted example_id (es_taskStore ?s2)" unfolding w2(2) w1(2) ts by code_simp
  with aborted_task_stops_execution [OF r2 w2(1)] r2 show ?thesis by blast
qed

end
