(* ===== verification/PipeServer.thy ===== *)
theory PipeServer
  imports JsonText OutputStore Sha256 Transitions
begin

text \<open>
  The JSON-RPC server of \<^verbatim>\<open>src/src/daemon/pipe-server.ts\<close> and the gate of
  \<^verbatim>\<open>src/src/daemon/activation-gate.ts\<close>: how the bytes of a connection become frames, how a session is
  opened, which requests reach the dispatcher and what is written back.

  A \<open>connection_state\<close> is the object \<open>ConnectionState\<close> with what its socket shows: whether it is destroyed, the frames
  written and the bytes not yet flushed. \<open>cn_calls\<close> are all calls of \<open>dispatch\<close> it made and \<open>cn_pending_calls\<close>
  those that have not settled. \<open>JSON.parse\<close> is the argument \<open>parse\<close>, the random session identifier the argument \<open>sid\<close>.
\<close>

section \<open>Types and limits\<close>

definition MAX_RPC_FRAME_BYTES :: int where "MAX_RPC_FRAME_BYTES = 1048576"
definition DEFAULT_MAX_INFLIGHT_REQUESTS :: int where "DEFAULT_MAX_INFLIGHT_REQUESTS = 16"
definition MAX_PENDING_RESPONSE_BYTES :: int where "MAX_PENDING_RESPONSE_BYTES = MAX_RPC_FRAME_BYTES * 4"

record rpc_call =
  rc_method :: string
  rc_params :: "json option"
  rc_sessionId :: string
  rc_requestId :: request_id

record connection_state =
  cn_buffer :: bytes
  cn_context :: "string option"
  cn_inflightRequests :: int
  cn_destroyed :: bool
  cn_sent :: "json list"
  cn_writableLength :: int
  cn_calls :: "rpc_call list"
  cn_pending_calls :: "rpc_call list"

record pipe_server =
  ps_token :: string
  ps_serverVersion :: string
  ps_maxConnections :: int
  ps_maxInflightRequestsPerConnection :: int
  ps_connections :: "(nat, connection_state) jsmap"
  ps_disconnected :: "string list" \<comment> \<open>the calls of \<open>dispatcher.disconnected\<close>\<close>

definition pipe_positive_integer :: "int \<Rightarrow> string \<Rightarrow> thrown + int" where
  "pipe_positive_integer n name =
     (if \<not> is_safe_integer n \<or> n < 1 then Inl (RangeError (name @ '' must be a positive safe integer'')) else Inr n)"

definition new_pipe_server :: "string \<Rightarrow> string \<Rightarrow> int option \<Rightarrow> int option \<Rightarrow> thrown + pipe_server" where
  "new_pipe_server token serverVersion maxConnections maxInflight =
     and_then (pipe_positive_integer (case maxConnections of None \<Rightarrow> 32 | Some n \<Rightarrow> n) ''maxConnections'') (\<lambda>mc.
     and_then (pipe_positive_integer (case maxInflight of None \<Rightarrow> DEFAULT_MAX_INFLIGHT_REQUESTS | Some n \<Rightarrow> n)
         ''maxInflightRequestsPerConnection'') (\<lambda>mi.
     Inr \<lparr>ps_token = token, ps_serverVersion = serverVersion, ps_maxConnections = mc,
          ps_maxInflightRequestsPerConnection = mi, ps_connections = [], ps_disconnected = []\<rparr>))"

section \<open>Schemas\<close>

text \<open>A strict object: its members have these names only.\<close>

definition exact_object :: "string list \<Rightarrow> json \<Rightarrow> (string \<times> json) list option" where
  "exact_object names j =
     (case j of JObject ms \<Rightarrow> if list_all (\<lambda>(k, _). k \<in> set names) ms then Some ms else None | _ \<Rightarrow> None)"

definition bounded_string :: "nat \<Rightarrow> nat \<Rightarrow> json option \<Rightarrow> string option" where
  "bounded_string lo hi j =
     (case j of Some (JString s) \<Rightarrow> if lo \<le> utf16_length s \<and> utf16_length s \<le> hi then Some s else None | _ \<Rightarrow> None)"

definition rpcIdSchema :: "json option \<Rightarrow> request_id option" where
  "rpcIdSchema j =
     (case j of
        Some (JInt n) \<Rightarrow> if is_safe_integer n then Some (NumberId n) else None
      | _ \<Rightarrow> map_option StringId (bounded_string 1 128 j))"

definition id_json :: "request_id \<Rightarrow> json" where
  "id_json i = (case i of StringId s \<Rightarrow> JString s | NumberId n \<Rightarrow> JInt n)"

record rpc_request =
  rq_id :: request_id
  rq_method :: string
  rq_params :: "json option"

definition JsonRpcRequestSchema :: "json \<Rightarrow> rpc_request option" where
  "JsonRpcRequestSchema raw =
     Option.bind (exact_object [''jsonrpc'', ''id'', ''method'', ''params''] raw) (\<lambda>ms.
     if map_of ms ''jsonrpc'' \<noteq> Some (JString ''2.0'') then None else
     Option.bind (rpcIdSchema (map_of ms ''id'')) (\<lambda>requestId.
     Option.bind (bounded_string 1 128 (map_of ms ''method'')) (\<lambda>rpcMethod.
     Some \<lparr>rq_id = requestId, rq_method = rpcMethod, rq_params = map_of ms ''params''\<rparr>)))"

text \<open>\<open>z.base64url().min(32).max(256)\<close>: the letters of base64url in a number that some bytes have.\<close>

definition token_format :: "string \<Rightarrow> bool" where
  "token_format s \<longleftrightarrow> list_all base64url_char s \<and> length s mod 4 \<noteq> 1 \<and> 32 \<le> length s \<and> length s \<le> 256"

definition client_format :: "json option \<Rightarrow> bool" where
  "client_format client =
     (case Option.bind client (exact_object [''name'', ''version'', ''pid'']) of
        None \<Rightarrow> False
      | Some ms \<Rightarrow>
          bounded_string 1 64 (map_of ms ''name'') \<noteq> None \<and> bounded_string 1 64 (map_of ms ''version'') \<noteq> None
          \<and> (case map_of ms ''pid'' of None \<Rightarrow> True | Some (JInt n) \<Rightarrow> is_safe_integer n \<and> 0 < n | _ \<Rightarrow> False))"

text \<open>The token and the protocol version of an attempt to open a session.\<close>

definition SessionOpenAttemptSchema :: "json option \<Rightarrow> (string \<times> int) option" where
  "SessionOpenAttemptSchema params =
     Option.bind (Option.bind params (exact_object [''token'', ''protocolVersion'', ''client''])) (\<lambda>ms.
     case (map_of ms ''token'', map_of ms ''protocolVersion'') of
       (Some (JString token), Some (JInt version)) \<Rightarrow>
         if token_format token \<and> is_safe_integer version \<and> client_format (map_of ms ''client'') then Some (token, version) else None
     | _ \<Rightarrow> None)"

definition constantTimeTokenEquals :: "string \<Rightarrow> string \<Rightarrow> bool" where
  "constantTimeTokenEquals left right \<longleftrightarrow> sha256 (buffer_from left) = sha256 (buffer_from right)"

section \<open>Writing\<close>

definition destroy :: "connection_state \<Rightarrow> connection_state" where
  "destroy c = c\<lparr>cn_destroyed := True\<rparr>"

definition frame_bytes :: "json \<Rightarrow> bytes" where
  "frame_bytes j = buffer_from (json_value j @ [newline])"

definition writeFrame :: "json \<Rightarrow> connection_state \<Rightarrow> connection_state" where
  "writeFrame j c =
     (if cn_destroyed c then c
      else let frame = int (length (frame_bytes j)) in
        if frame > MAX_RPC_FRAME_BYTES then destroy c
        else if cn_writableLength c + frame > MAX_PENDING_RESPONSE_BYTES then destroy c
        else c\<lparr>cn_sent := cn_sent c @ [j], cn_writableLength := cn_writableLength c + frame\<rparr>)"

definition writeResult :: "request_id \<Rightarrow> json \<Rightarrow> connection_state \<Rightarrow> connection_state" where
  "writeResult i result c =
     writeFrame (JObject [(''jsonrpc'', JString ''2.0''), (''id'', id_json i), (''result'', result)]) c"

definition writeError :: "request_id option \<Rightarrow> int \<Rightarrow> string \<Rightarrow> json option \<Rightarrow> connection_state \<Rightarrow> connection_state" where
  "writeError i code message data c =
     writeFrame (JObject [(''jsonrpc'', JString ''2.0''), (''id'', case i of None \<Rightarrow> JNull | Some i \<Rightarrow> id_json i),
       (''error'', JObject ([(''code'', JInt code), (''message'', JString message)]
          @ (case data of None \<Rightarrow> [] | Some d \<Rightarrow> [(''data'', d)])))]) c"

definition detail_json :: "detail \<Rightarrow> json" where
  "detail_json d = (case d of DString s \<Rightarrow> JString s | DNumber n \<Rightarrow> JInt n | DBool b \<Rightarrow> JBool b | DNull \<Rightarrow> JNull)"

definition error_data :: "public_error \<Rightarrow> json" where
  "error_data e =
     JObject ([(''gatewayCode'', JString (gateway_code_name (pe_gatewayCode e)))]
       @ (case pe_details e of None \<Rightarrow> [] | Some ds \<Rightarrow> [(''details'', JObject (map (\<lambda>(k, d). (k, detail_json d)) ds))]))"

section \<open>Frames\<close>

text \<open>The request of an authenticated frame that is not \<open>session.open\<close>.\<close>

definition start_call :: "pipe_server \<Rightarrow> string \<Rightarrow> rpc_request \<Rightarrow> connection_state \<Rightarrow> connection_state" where
  "start_call server sessionId request c =
     (if cn_inflightRequests c \<ge> ps_maxInflightRequestsPerConnection server then destroy c
      else let call = \<lparr>rc_method = rq_method request, rc_params = rq_params request, rc_sessionId = sessionId,
                       rc_requestId = rq_id request\<rparr> in
        c\<lparr>cn_inflightRequests := cn_inflightRequests c + 1, cn_calls := cn_calls c @ [call],
          cn_pending_calls := cn_pending_calls c @ [call]\<rparr>)"

definition open_session :: "pipe_server \<Rightarrow> string \<Rightarrow> rpc_request \<Rightarrow> connection_state \<Rightarrow> connection_state" where
  "open_session server sid request c =
     (if rq_method request \<noteq> ''session.open''
      then destroy (writeError (Some (rq_id request)) (- 32001) ''Authentication required'' None c)
      else case SessionOpenAttemptSchema (rq_params request) of
        None \<Rightarrow> destroy (writeError (Some (rq_id request)) (- 32001) ''Authentication failed'' None c)
      | Some (token, version) \<Rightarrow>
          if \<not> constantTimeTokenEquals token (ps_token server)
          then destroy (writeError (Some (rq_id request)) (- 32001) ''Authentication failed'' None c)
          else if version \<noteq> PROTOCOL_VERSION
          then destroy (writeError (Some (rq_id request)) (- 32002) ''Protocol version mismatch''
             (Some (JObject [(''gatewayCode'', JString (gateway_code_name ProtocolVersionMismatch)),
                (''details'', JObject [(''expectedProtocolVersion'', JInt PROTOCOL_VERSION),
                   (''receivedProtocolVersion'', JInt version)])])) c)
          else writeResult (rq_id request)
             (JObject [(''protocolVersion'', JInt PROTOCOL_VERSION), (''serverVersion'', JString (ps_serverVersion server)),
                (''sessionId'', JString sid)]) (c\<lparr>cn_context := Some sid\<rparr>))"

definition parse_frame :: "(string \<Rightarrow> json option) \<Rightarrow> bytes \<Rightarrow> json option" where
  "parse_frame parse line = (if valid_utf8 line then parse (map char_of_byte line) else None)"

definition destroy_unless_open :: "connection_state \<Rightarrow> connection_state" where
  "destroy_unless_open c = (if cn_context c = None then destroy c else c)"

text \<open>\<open>#acceptFrame\<close> up to \<open>await dispatch\<close>.\<close>

definition acceptFrame :: "(string \<Rightarrow> json option) \<Rightarrow> pipe_server \<Rightarrow> string \<Rightarrow> bytes \<Rightarrow> connection_state \<Rightarrow> connection_state" where
  "acceptFrame parse server sid line c =
     (if cn_destroyed c then c
      else case parse_frame parse line of
        None \<Rightarrow> destroy_unless_open (writeError None (- 32700) ''Parse error'' None c)
      | Some raw \<Rightarrow>
          (case JsonRpcRequestSchema raw of
             None \<Rightarrow> destroy_unless_open (writeError None (- 32600) ''Invalid Request'' None c)
           | Some request \<Rightarrow>
               (case cn_context c of
                  None \<Rightarrow> open_session server sid request c
                | Some sessionId \<Rightarrow>
                    if rq_method request = ''session.open''
                    then writeError (Some (rq_id request)) (- 32600) ''Session is already open'' None c
                    else start_call server sessionId request c)))"

definition frame_too_long :: "connection_state \<Rightarrow> connection_state" where
  "frame_too_long c = destroy (writeError None (- 32600) ''Request frame exceeds 1 MiB'' None c)"

text \<open>The loop of \<open>#acceptChunk\<close>; \<open>buffer\<close> is what is left of \<open>state.buffer\<close>.\<close>

function accept_lines ::
  "(string \<Rightarrow> json option) \<Rightarrow> pipe_server \<Rightarrow> string \<Rightarrow> bytes \<Rightarrow> connection_state \<Rightarrow> connection_state" where
  "accept_lines parse server sid buffer c =
     (if 10 \<notin> set buffer then c\<lparr>cn_buffer := buffer\<rparr>
      else let line = takeWhile (\<lambda>b. b \<noteq> 10) buffer; rest = drop (Suc (length line)) buffer in
        if int (length line) > MAX_RPC_FRAME_BYTES then frame_too_long (c\<lparr>cn_buffer := rest\<rparr>)
        else accept_lines parse server sid rest (if line \<noteq> [] then acceptFrame parse server sid line c else c))"
  by pat_completeness auto
termination
  by (relation "measure (\<lambda>(_, _, _, buffer, _). length buffer)") (auto intro!: diff_less length_pos_if_in_set)

declare accept_lines.simps [simp del]

definition acceptChunk :: "(string \<Rightarrow> json option) \<Rightarrow> pipe_server \<Rightarrow> string \<Rightarrow> bytes \<Rightarrow> connection_state \<Rightarrow> connection_state" where
  "acceptChunk parse server sid chunk c =
     (let buffer = cn_buffer c @ chunk in
      if int (length buffer) > MAX_RPC_FRAME_BYTES \<and> 10 \<notin> set buffer then frame_too_long (c\<lparr>cn_buffer := buffer\<rparr>)
      else accept_lines parse server sid buffer c)"

text \<open>\<open>#acceptFrame\<close> after \<open>await dispatch\<close>: \<open>Inl None\<close> is a \<open>ZodError\<close>.\<close>

definition call_settled :: "nat \<Rightarrow> thrown option + json \<Rightarrow> connection_state \<Rightarrow> connection_state" where
  "call_settled i outcome c =
     (let requestId = rc_requestId (cn_pending_calls c ! i);
          c1 = (case outcome of
             Inr result \<Rightarrow> writeResult requestId result c
           | Inl None \<Rightarrow> writeError (Some requestId) json_rpc_invalid_params ''Invalid params'' None c
           | Inl (Some e) \<Rightarrow>
               let p = toPublicError e in writeError (Some requestId) (pe_code p) (pe_message p) (Some (error_data p)) c) in
      c1\<lparr>cn_inflightRequests := cn_inflightRequests c1 - 1,
         cn_pending_calls := take i (cn_pending_calls c1) @ drop (Suc i) (cn_pending_calls c1)\<rparr>)"

section \<open>Connections\<close>

definition new_connection :: connection_state where
  "new_connection = \<lparr>cn_buffer = [], cn_context = None, cn_inflightRequests = 0, cn_destroyed = False, cn_sent = [],
     cn_writableLength = 0, cn_calls = [], cn_pending_calls = []\<rparr>"

text \<open>\<open>socket\<close> is a number not used before.\<close>

definition acceptConnection :: "nat \<Rightarrow> pipe_server \<Rightarrow> pipe_server" where
  "acceptConnection socket server =
     (if int (length (ps_connections server)) \<ge> ps_maxConnections server then server
      else server\<lparr>ps_connections := ps_connections server @ [(socket, new_connection)]\<rparr>)"

definition closeConnection :: "nat \<Rightarrow> pipe_server \<Rightarrow> pipe_server" where
  "closeConnection socket server =
     (case map_of (ps_connections server) socket of
        None \<Rightarrow> server
      | Some c \<Rightarrow>
          server\<lparr>ps_connections := AList.delete socket (ps_connections server),
                 ps_disconnected := ps_disconnected server @ (case cn_context c of None \<Rightarrow> [] | Some sid \<Rightarrow> [sid])\<rparr>)"

definition close_server :: "pipe_server \<Rightarrow> pipe_server" where
  "close_server server = server\<lparr>ps_connections := map (\<lambda>(k, c). (k, destroy c)) (ps_connections server)\<rparr>"

section \<open>The activation gate\<close>

record 'd activation_gate =
  ag_delegate :: 'd
  ag_active :: bool

definition new_gate :: "'d \<Rightarrow> 'd activation_gate" where
  "new_gate delegate = \<lparr>ag_delegate = delegate, ag_active = False\<rparr>"

definition gate_activate :: "'d activation_gate \<Rightarrow> 'd activation_gate" where
  "gate_activate g = g\<lparr>ag_active := True\<rparr>"

text \<open>\<open>dispatch\<close> is that of the delegate: what it answers at once or later, and the delegate afterwards.\<close>

definition gate_dispatch ::
  "(rpc_call \<Rightarrow> 'd \<Rightarrow> (thrown + 'r) \<times> 'd) \<Rightarrow> rpc_call \<Rightarrow> 'd activation_gate \<Rightarrow> (thrown + 'r) \<times> 'd activation_gate" where
  "gate_dispatch dispatch call g =
     (if \<not> ag_active g then (Inl (gateway DaemonNotActive ''Gateway daemon is not active''), g)
      else case dispatch call (ag_delegate g) of (r, d) \<Rightarrow> (r, g\<lparr>ag_delegate := d\<rparr>))"

section \<open>Lines\<close>

text \<open>The complete lines of a stream and what follows the last line break.\<close>

fun split_lines :: "bytes \<Rightarrow> bytes list \<times> bytes" where
  "split_lines [] = ([], [])"
| "split_lines (b # w) =
     (case split_lines w of (ls, r) \<Rightarrow>
       if b = 10 then ([] # ls, r) else case ls of [] \<Rightarrow> ([], b # r) | l # ls' \<Rightarrow> ((b # l) # ls', r))"

abbreviation lines_of :: "bytes \<Rightarrow> bytes list" where "lines_of w \<equiv> fst (split_lines w)"
abbreviation rest_of :: "bytes \<Rightarrow> bytes" where "rest_of w \<equiv> snd (split_lines w)"

lemma split_lines_none: "10 \<notin> set w \<Longrightarrow> split_lines w = ([], w)"
  by (induction w) auto

lemma split_lines_line: "10 \<notin> set u \<Longrightarrow> split_lines (u @ 10 # w) = (u # lines_of w, rest_of w)"
  by (induction u) (auto split: prod.splits)

lemma split_lines_first:
  assumes "10 \<in> set w"
  shows "split_lines w = (takeWhile (\<lambda>b. b \<noteq> 10) w # lines_of (drop (Suc (length (takeWhile (\<lambda>b. b \<noteq> 10) w))) w),
    rest_of (drop (Suc (length (takeWhile (\<lambda>b. b \<noteq> 10) w))) w))"
proof -
  let ?u = "takeWhile (\<lambda>b. b \<noteq> 10) w" and ?v = "dropWhile (\<lambda>b. b \<noteq> 10) w"
  have "?v \<noteq> []" using assms by (simp add: dropWhile_eq_Nil_conv)
  then have "?v = 10 # tl ?v" using hd_dropWhile [of "\<lambda>b. b \<noteq> 10" w] by (metis list.collapse)
  moreover have "tl ?v = drop (Suc (length ?u)) w"
    by (metis dropWhile_eq_drop drop_Suc tl_drop)
  ultimately have w: "w = ?u @ 10 # drop (Suc (length ?u)) w" by (metis takeWhile_dropWhile_id)
  have "10 \<notin> set ?u" by (auto dest: set_takeWhileD)
  from split_lines_line [OF this, of "drop (Suc (length ?u)) w"] w show ?thesis by metis
qed

lemma split_lines_append:
  "split_lines (u @ v) = (lines_of u @ lines_of (rest_of u @ v), rest_of (rest_of u @ v))"
proof (induction u)
  case (Cons b u)
  obtain ls r where u: "split_lines u = (ls, r)" by force
  show ?case
  proof (cases "b \<noteq> 10 \<and> ls = []")
    case True
    then show ?thesis using Cons u by (auto split: prod.splits list.splits)
  next
    case False
    then show ?thesis using Cons u by (cases ls) (auto split: prod.splits list.splits)
  qed
qed simp

definition fits :: "bytes \<Rightarrow> bool" where
  "fits line \<longleftrightarrow> int (length line) \<le> MAX_RPC_FRAME_BYTES"

text \<open>The frames of a stream: its lines that are not empty, up to the first that is too long.\<close>

definition frames_of :: "bytes \<Rightarrow> bytes list" where
  "frames_of w = filter (\<lambda>l. l \<noteq> []) (takeWhile fits (lines_of w))"

lemma frames_append:
  assumes "list_all fits (lines_of u)"
  shows "frames_of (u @ v) = frames_of u @ frames_of (rest_of u @ v)"
proof -
  have all: "fits l" if "l \<in> set (lines_of u)" for l using assms that by (simp add: list_all_iff)
  then have "takeWhile fits (lines_of u) = lines_of u" unfolding takeWhile_eq_all_conv by blast
  moreover from all have "takeWhile fits (lines_of u @ x) = lines_of u @ takeWhile fits x" for x by (rule takeWhile_append2)
  ultimately show ?thesis by (simp only: frames_of_def split_lines_append [of u v] fst_conv filter_append)
qed

lemma frames_line:
  assumes "10 \<in> set w" "fits (takeWhile (\<lambda>b. b \<noteq> 10) w)"
  shows "frames_of w = (let l = takeWhile (\<lambda>b. b \<noteq> 10) w; fs = frames_of (drop (Suc (length l)) w) in if l = [] then fs else l # fs)"
  using assms(2) by (simp add: frames_of_def split_lines_first [OF assms(1)] Let_def)

lemma accept_lines_spec:
  "\<exists>buf. accept_lines parse server sid buffer c =
     (let d = fold (acceptFrame parse server sid) (frames_of buffer) c in
      if list_all fits (lines_of buffer) then d\<lparr>cn_buffer := rest_of buffer\<rparr> else frame_too_long (d\<lparr>cn_buffer := buf\<rparr>))"
proof (induction parse server sid buffer c rule: accept_lines.induct)
  case (1 parse server sid buffer c)
  let ?l = "takeWhile (\<lambda>b. b \<noteq> 10) buffer"
  let ?r = "drop (Suc (length ?l)) buffer"
  show ?case
  proof (cases "10 \<in> set buffer")
    case False
    then show ?thesis by (simp add: accept_lines.simps frames_of_def split_lines_none Let_def)
  next
    case True
    note sl = split_lines_first [OF True]
    show ?thesis
    proof (cases "fits ?l")
      case False
      then have "frames_of buffer = []" "\<not> list_all fits (lines_of buffer)" by (simp_all add: frames_of_def sl)
      moreover have "accept_lines parse server sid buffer c = frame_too_long (c\<lparr>cn_buffer := ?r\<rparr>)"
        using True False by (simp add: accept_lines.simps fits_def)
      ultimately show ?thesis by auto
    next
      case fit: True
      let ?c = "if ?l \<noteq> [] then acceptFrame parse server sid ?l c else c"
      have "accept_lines parse server sid buffer c = accept_lines parse server sid ?r ?c"
        using True fit by (subst accept_lines.simps) (simp add: fits_def Let_def)
      moreover have "fold (acceptFrame parse server sid) (frames_of buffer) c = fold (acceptFrame parse server sid) (frames_of ?r) ?c"
        by (simp add: frames_line [OF True fit] Let_def)
      moreover have "list_all fits (lines_of buffer) = list_all fits (lines_of ?r)" "rest_of buffer = rest_of ?r"
        using fit by (simp_all add: sl)
      moreover have "\<exists>buf. accept_lines parse server sid ?r ?c = (let d = fold (acceptFrame parse server sid) (frames_of ?r) ?c in
          if list_all fits (lines_of ?r) then d\<lparr>cn_buffer := rest_of ?r\<rparr> else frame_too_long (d\<lparr>cn_buffer := buf\<rparr>))"
        by (rule "1.IH" [OF _ refl refl]) (use True fit in \<open>simp_all add: fits_def\<close>)
      ultimately show ?thesis by (simp only:)
    qed
  qed
qed

section \<open>Runs of a connection\<close>

text \<open>
  \<open>conn_run parse server w c\<close>: the connection is \<open>c\<close> after the bytes \<open>w\<close> were received, in whatever chunks. Calls
  settle, the socket flushes and the timer, the peer or the server closes the socket at any time in between.
\<close>

inductive conn_run :: "(string \<Rightarrow> json option) \<Rightarrow> pipe_server \<Rightarrow> bytes \<Rightarrow> connection_state \<Rightarrow> bool"
  for parse :: "string \<Rightarrow> json option" and server :: pipe_server where
  opened: "conn_run parse server [] new_connection"
| received: "conn_run parse server w c \<Longrightarrow> \<not> cn_destroyed c \<Longrightarrow> conn_run parse server (w @ chunk) (acceptChunk parse server sid chunk c)"
| answered: "conn_run parse server w c \<Longrightarrow> i < length (cn_pending_calls c) \<Longrightarrow> conn_run parse server w (call_settled i outcome c)"
| flushed: "conn_run parse server w c \<Longrightarrow> 0 \<le> n \<Longrightarrow> n \<le> cn_writableLength c \<Longrightarrow>
    conn_run parse server w (c\<lparr>cn_writableLength := cn_writableLength c - n\<rparr>)"
| closed: "conn_run parse server w c \<Longrightarrow> conn_run parse server w (destroy c)"

section \<open>Frames and calls\<close>

definition request_of :: "(string \<Rightarrow> json option) \<Rightarrow> bytes \<Rightarrow> rpc_request option" where
  "request_of parse line = Option.bind (parse_frame parse line) JsonRpcRequestSchema"

text \<open>A frame that opens a session: a valid request with the token and the version of this server.\<close>

definition authenticates :: "(string \<Rightarrow> json option) \<Rightarrow> pipe_server \<Rightarrow> bytes \<Rightarrow> bool" where
  "authenticates parse server line =
     (case request_of parse line of
        None \<Rightarrow> False
      | Some request \<Rightarrow> rq_method request = ''session.open'' \<and>
          (case SessionOpenAttemptSchema (rq_params request) of
             None \<Rightarrow> False
           | Some (token, version) \<Rightarrow> constantTimeTokenEquals token (ps_token server) \<and> version = PROTOCOL_VERSION))"

text \<open>The call a frame asks for.\<close>

definition call_of :: "(string \<Rightarrow> json option) \<Rightarrow> string \<Rightarrow> bytes \<Rightarrow> rpc_call option" where
  "call_of parse sessionId line =
     Option.bind (request_of parse line) (\<lambda>request.
     if rq_method request = ''session.open'' then None
     else Some \<lparr>rc_method = rq_method request, rc_params = rq_params request, rc_sessionId = sessionId, rc_requestId = rq_id request\<rparr>)"

text \<open>What the connection has done with these frames.\<close>

definition served :: "(string \<Rightarrow> json option) \<Rightarrow> pipe_server \<Rightarrow> bytes list \<Rightarrow> connection_state \<Rightarrow> bool" where
  "served parse server frames c =
     (case cn_context c of
        None \<Rightarrow> cn_calls c = [] \<and> (\<not> cn_destroyed c \<longrightarrow> frames = [])
      | Some sid \<Rightarrow> (\<exists>f fs. frames = f # fs \<and> authenticates parse server f
          \<and> prefix (cn_calls c) (List.map_filter (call_of parse sid) fs)
          \<and> (\<not> cn_destroyed c \<longrightarrow> cn_calls c = List.map_filter (call_of parse sid) fs)))"

lemma map_filter_append: "List.map_filter f (xs @ ys) = List.map_filter f xs @ List.map_filter f ys"
  by (induction xs) (simp_all add: map_filter_simps split: option.split)

lemma write_fields [simp]:
  "cn_context (writeFrame j c) = cn_context c" "cn_calls (writeFrame j c) = cn_calls c"
  "cn_pending_calls (writeFrame j c) = cn_pending_calls c" "cn_inflightRequests (writeFrame j c) = cn_inflightRequests c"
  "cn_buffer (writeFrame j c) = cn_buffer c"
  by (simp_all add: writeFrame_def destroy_def Let_def)

lemma write_destroyed: "cn_destroyed c \<Longrightarrow> cn_destroyed (writeFrame j c)"
  by (simp add: writeFrame_def)

lemma write_error_fields [simp]:
  "cn_context (writeError i code m d c) = cn_context c" "cn_calls (writeError i code m d c) = cn_calls c"
  "cn_pending_calls (writeError i code m d c) = cn_pending_calls c" "cn_inflightRequests (writeError i code m d c) = cn_inflightRequests c"
  "cn_buffer (writeError i code m d c) = cn_buffer c"
  "cn_context (writeResult j r c) = cn_context c" "cn_calls (writeResult j r c) = cn_calls c"
  "cn_pending_calls (writeResult j r c) = cn_pending_calls c" "cn_inflightRequests (writeResult j r c) = cn_inflightRequests c"
  "cn_buffer (writeResult j r c) = cn_buffer c"
  by (simp_all add: writeError_def writeResult_def)

lemma destroy_fields [simp]:
  "cn_context (destroy c) = cn_context c" "cn_calls (destroy c) = cn_calls c" "cn_pending_calls (destroy c) = cn_pending_calls c"
  "cn_inflightRequests (destroy c) = cn_inflightRequests c" "cn_buffer (destroy c) = cn_buffer c" "cn_destroyed (destroy c)"
  "cn_sent (destroy c) = cn_sent c" "cn_writableLength (destroy c) = cn_writableLength c"
  by (simp_all add: destroy_def)

lemma served_mono:
  assumes "served parse server frames c" "cn_context c' = cn_context c" "cn_calls c' = cn_calls c"
    "\<not> cn_destroyed c' \<Longrightarrow> \<not> cn_destroyed c"
  shows "served parse server frames c'"
  using assms by (auto simp: served_def split: option.splits)

text \<open>A closed connection ignores further frames.\<close>

lemma served_closed:
  assumes "served parse server frames c" "cn_destroyed c"
  shows "served parse server (frames @ later) c"
proof (cases "cn_context c")
  case (Some sid)
  with assms obtain f fs where "frames = f # fs" "authenticates parse server f"
    "prefix (cn_calls c) (List.map_filter (call_of parse sid) fs)" by (auto simp: served_def)
  with Some assms(2) show ?thesis by (auto simp: served_def map_filter_append intro: prefix_prefix)
qed (use assms in \<open>auto simp: served_def\<close>)

lemma frame_first:
  assumes "served parse server [] c" "\<not> cn_destroyed c"
  shows "served parse server [line] (acceptFrame parse server sid line c)"
proof -
  have n: "cn_context c = None" "cn_calls c = []" using assms(1) by (auto simp: served_def split: option.splits)
  show ?thesis
  proof (cases "request_of parse line")
    case None
    with n assms(2) show ?thesis
      by (auto simp: acceptFrame_def request_of_def served_def destroy_unless_open_def bind_eq_None_conv split: option.splits)
  next
    case (Some request)
    then obtain raw where raw: "parse_frame parse line = Some raw" "JsonRpcRequestSchema raw = Some request"
      by (auto simp: request_of_def bind_eq_Some_conv)
    then have e: "acceptFrame parse server sid line c = open_session server sid request c"
      using n(1) assms(2) by (simp add: acceptFrame_def)
    show ?thesis
    proof (cases "authenticates parse server line")
      case True
      then have "cn_context (open_session server sid request c) = Some sid" "cn_calls (open_session server sid request c) = []"
        using Some n(2) by (auto simp: authenticates_def open_session_def split: option.splits)
      with True show ?thesis by (simp add: e served_def map_filter_simps)
    next
      case False
      then have "cn_destroyed (open_session server sid request c)" "cn_context (open_session server sid request c) = None"
        "cn_calls (open_session server sid request c) = []"
        using Some n by (auto simp: authenticates_def open_session_def split: option.splits)
      then show ?thesis by (simp add: e served_def)
    qed
  qed
qed

lemma frame_later:
  assumes "served parse server frames c" "\<not> cn_destroyed c" "cn_context c = Some sid0"
  shows "served parse server (frames @ [line]) (acceptFrame parse server sid line c)"
proof -
  from assms obtain f fs where f: "frames = f # fs" "authenticates parse server f"
    "cn_calls c = List.map_filter (call_of parse sid0) fs" by (auto simp: served_def)
  show ?thesis
  proof (cases "request_of parse line")
    case None
    then have "cn_context (acceptFrame parse server sid line c) = Some sid0" "cn_calls (acceptFrame parse server sid line c) = cn_calls c"
      using assms(2,3) by (auto simp: acceptFrame_def request_of_def destroy_unless_open_def bind_eq_None_conv split: option.splits)
    moreover have "call_of parse sid0 line = None" using None by (simp add: call_of_def)
    ultimately show ?thesis using f by (simp add: served_def map_filter_append)
  next
    case (Some request)
    then obtain raw where raw: "parse_frame parse line = Some raw" "JsonRpcRequestSchema raw = Some request"
      by (auto simp: request_of_def bind_eq_Some_conv)
    show ?thesis
    proof (cases "rq_method request = ''session.open''")
      case True
      then have "call_of parse sid0 line = None" using Some by (simp add: call_of_def)
      with True raw assms(2,3) f show ?thesis by (simp add: acceptFrame_def served_def map_filter_append)
    next
      case False
      then have "acceptFrame parse server sid line c = start_call server sid0 request c" using raw assms(2,3) by (simp add: acceptFrame_def)
      with False Some assms(3) f show ?thesis
        by (auto simp: start_call_def served_def map_filter_append call_of_def Let_def)
    qed
  qed
qed

lemma frame_served:
  assumes "served parse server frames c"
  shows "served parse server (frames @ [line]) (acceptFrame parse server sid line c)"
proof (cases "cn_destroyed c")
  case True
  then have "acceptFrame parse server sid line c = c" by (simp add: acceptFrame_def)
  with served_closed [OF assms True, of "[line]"] show ?thesis by simp
next
  case alive: False
  show ?thesis
  proof (cases "cn_context c")
    case None
    then have "frames = []" using assms alive by (simp add: served_def)
    with frame_first [of parse server c line sid] assms alive show ?thesis by simp
  next
    case (Some sid0)
    from frame_later [OF assms alive Some] show ?thesis .
  qed
qed

lemma frames_served:
  "served parse server frames c \<Longrightarrow> served parse server (frames @ fs) (fold (acceptFrame parse server sid) fs c)"
proof (induction fs arbitrary: frames c)
  case (Cons f fs)
  from Cons.IH [OF frame_served [OF Cons.prems, of f sid]] show ?case by simp
qed simp

text \<open>The state of a connection and the bytes it received.\<close>

definition conn_ok :: "(string \<Rightarrow> json option) \<Rightarrow> pipe_server \<Rightarrow> bytes \<Rightarrow> connection_state \<Rightarrow> bool" where
  "conn_ok parse server w c \<longleftrightarrow> served parse server (frames_of w) c
     \<and> (\<not> cn_destroyed c \<longrightarrow> list_all fits (lines_of w) \<and> cn_buffer c = rest_of w)"

lemma conn_ok_same:
  assumes "conn_ok parse server w c" "cn_context c' = cn_context c" "cn_calls c' = cn_calls c" "cn_buffer c' = cn_buffer c"
    "\<not> cn_destroyed c' \<Longrightarrow> \<not> cn_destroyed c"
  shows "conn_ok parse server w c'"
  using assms served_mono [of parse server "frames_of w" c c'] by (auto simp: conn_ok_def)

lemma frame_too_long_fields [simp]:
  "cn_context (frame_too_long c) = cn_context c" "cn_calls (frame_too_long c) = cn_calls c" "cn_destroyed (frame_too_long c)"
  "cn_pending_calls (frame_too_long c) = cn_pending_calls c" "cn_inflightRequests (frame_too_long c) = cn_inflightRequests c"
  by (simp_all add: frame_too_long_def)

lemma conn_ok_chunk:
  assumes "conn_ok parse server w c" "\<not> cn_destroyed c"
  shows "conn_ok parse server (w @ chunk) (acceptChunk parse server sid chunk c)"
proof -
  have fit: "list_all fits (lines_of w)" and buf: "cn_buffer c = rest_of w" and s: "served parse server (frames_of w) c"
    using assms by (auto simp: conn_ok_def)
  let ?b = "cn_buffer c @ chunk"
  note fr = frames_append [OF fit, of chunk, folded buf] and sl = split_lines_append [of w chunk, folded buf]
  have s': "served parse server (frames_of (w @ chunk)) (fold (acceptFrame parse server sid) (frames_of ?b) c)"
    unfolding fr by (rule frames_served [OF s])
  show ?thesis
  proof (cases "int (length ?b) > MAX_RPC_FRAME_BYTES \<and> 10 \<notin> set ?b")
    case True
    then have "frames_of ?b = []" by (simp add: frames_of_def split_lines_none)
    with s' have "served parse server (frames_of (w @ chunk)) c" by simp
    then have "served parse server (frames_of (w @ chunk)) (frame_too_long (c\<lparr>cn_buffer := ?b\<rparr>))" by (rule served_mono) simp_all
    with True show ?thesis by (simp add: acceptChunk_def conn_ok_def)
  next
    case False
    then have e: "acceptChunk parse server sid chunk c = accept_lines parse server sid ?b c" by (auto simp: acceptChunk_def Let_def)
    let ?d = "fold (acceptFrame parse server sid) (frames_of ?b) c"
    obtain buf' where a: "accept_lines parse server sid ?b c =
        (if list_all fits (lines_of ?b) then ?d\<lparr>cn_buffer := rest_of ?b\<rparr> else frame_too_long (?d\<lparr>cn_buffer := buf'\<rparr>))"
      using accept_lines_spec [of parse server sid ?b c] by (auto simp: Let_def)
    have 1: "served parse server (frames_of (w @ chunk)) (?d\<lparr>cn_buffer := rest_of ?b\<rparr>)" by (rule served_mono [OF s']) simp_all
    have 2: "served parse server (frames_of (w @ chunk)) (frame_too_long (?d\<lparr>cn_buffer := buf'\<rparr>))" by (rule served_mono [OF s']) simp_all
    show ?thesis
    proof (cases "list_all fits (lines_of ?b)")
      case True
      with 1 fit sl show ?thesis unfolding e a conn_ok_def by (simp only: sl fst_conv snd_conv list_all_append) simp
    next
      case False
      with 2 show ?thesis unfolding e a conn_ok_def by simp
    qed
  qed
qed

lemma settled_fields [simp]:
  "cn_context (call_settled i outcome c) = cn_context c" "cn_calls (call_settled i outcome c) = cn_calls c"
  "cn_buffer (call_settled i outcome c) = cn_buffer c"
  by (simp_all add: call_settled_def Let_def split: sum.split option.split)

lemma settled_destroyed: "cn_destroyed c \<Longrightarrow> cn_destroyed (call_settled i outcome c)"
  by (auto simp: call_settled_def Let_def writeError_def writeResult_def write_destroyed split: sum.split option.split)

lemma run_ok: "conn_run parse server w c \<Longrightarrow> conn_ok parse server w c"
proof (induction rule: conn_run.induct)
  case opened
  show ?case by (simp add: conn_ok_def served_def new_connection_def frames_of_def)
next
  case (received w c chunk sid)
  then show ?case by (intro conn_ok_chunk)
next
  case (answered w c i outcome)
  from answered.IH show ?case by (rule conn_ok_same) (use settled_destroyed in auto)
next
  case (flushed w c n)
  from flushed.IH show ?case by (rule conn_ok_same) simp_all
next
  case (closed w c)
  from closed.IH show ?case by (rule conn_ok_same) simp_all
qed

section \<open>Bounds\<close>

definition conn_bounded :: "pipe_server \<Rightarrow> connection_state \<Rightarrow> bool" where
  "conn_bounded server c \<longleftrightarrow>
     cn_inflightRequests c = int (length (cn_pending_calls c)) \<and> cn_inflightRequests c \<le> ps_maxInflightRequestsPerConnection server
     \<and> subseq (cn_pending_calls c) (cn_calls c)
     \<and> 0 \<le> cn_writableLength c \<and> cn_writableLength c \<le> MAX_PENDING_RESPONSE_BYTES
     \<and> list_all (\<lambda>j. int (length (frame_bytes j)) \<le> MAX_RPC_FRAME_BYTES) (cn_sent c)"

lemma bounded_destroy [simp]: "conn_bounded server (destroy c) = conn_bounded server c"
  by (simp add: conn_bounded_def)

lemma bounded_buffer [simp]: "conn_bounded server (c\<lparr>cn_buffer := b\<rparr>) = conn_bounded server c"
  "conn_bounded server (c\<lparr>cn_context := x\<rparr>) = conn_bounded server c"
  by (simp_all add: conn_bounded_def)

lemma bounded_write: "conn_bounded server c \<Longrightarrow> conn_bounded server (writeFrame j c)"
  by (auto simp: writeFrame_def Let_def conn_bounded_def)

lemma bounded_response:
  "conn_bounded server c \<Longrightarrow> conn_bounded server (writeError i code m d c)"
  "conn_bounded server c \<Longrightarrow> conn_bounded server (writeResult k r c)"
  by (simp_all add: writeError_def writeResult_def bounded_write)

lemma bounded_frame: "conn_bounded server c \<Longrightarrow> conn_bounded server (acceptFrame parse server sid line c)"
  by (auto simp: acceptFrame_def destroy_unless_open_def open_session_def bounded_response split: option.split prod.split)
    (auto simp: start_call_def Let_def conn_bounded_def intro: list_emb_append_mono)

lemma bounded_frames: "conn_bounded server c \<Longrightarrow> conn_bounded server (fold (acceptFrame parse server sid) fs c)"
  by (induction fs arbitrary: c) (auto intro: bounded_frame)

lemma bounded_chunk: "conn_bounded server c \<Longrightarrow> conn_bounded server (acceptChunk parse server sid chunk c)"
proof -
  assume b: "conn_bounded server c"
  have long: "conn_bounded server (frame_too_long u)" if "conn_bounded server u" for u
    using that by (simp add: frame_too_long_def bounded_response)
  obtain buf where "accept_lines parse server sid (cn_buffer c @ chunk) c =
     (let d = fold (acceptFrame parse server sid) (frames_of (cn_buffer c @ chunk)) c in
      if list_all fits (lines_of (cn_buffer c @ chunk)) then d\<lparr>cn_buffer := rest_of (cn_buffer c @ chunk)\<rparr>
      else frame_too_long (d\<lparr>cn_buffer := buf\<rparr>))"
    using accept_lines_spec by blast
  with b bounded_frames [OF b] show ?thesis by (auto simp: acceptChunk_def Let_def intro: long)
qed

lemma bounded_settled:
  assumes "conn_bounded server c" "i < length (cn_pending_calls c)"
  shows "conn_bounded server (call_settled i outcome c)"
proof -
  let ?p = "cn_pending_calls c"
  have drop1: "subseq (take i ?p @ drop (Suc i) ?p) ?p"
  proof -
    have "subseq (take i ?p @ drop (Suc i) ?p) (take i ?p @ drop i ?p)"
      using assms(2) by (intro list_emb_append_mono) (simp_all add: list_emb_Cons flip: Cons_nth_drop_Suc)
    then show ?thesis by simp
  qed
  have "conn_bounded server (c1\<lparr>cn_inflightRequests := cn_inflightRequests c1 - 1,
      cn_pending_calls := take i (cn_pending_calls c1) @ drop (Suc i) (cn_pending_calls c1)\<rparr>)"
    if "conn_bounded server c1" "cn_pending_calls c1 = ?p" "cn_calls c1 = cn_calls c" for c1
    using that assms(2) subseq_order.order_trans [OF drop1] by (auto simp: conn_bounded_def)
  note this [OF bounded_response(1) [OF assms(1)]] this [OF bounded_response(2) [OF assms(1)]]
  then show ?thesis by (auto simp: call_settled_def Let_def split: sum.split option.split)
qed

lemma run_bounded:
  assumes "conn_run parse server w c" "0 \<le> ps_maxInflightRequestsPerConnection server"
  shows "conn_bounded server c"
  using assms(1)
proof (induction rule: conn_run.induct)
  case opened
  show ?case using assms(2) by (simp add: conn_bounded_def new_connection_def MAX_PENDING_RESPONSE_BYTES_def MAX_RPC_FRAME_BYTES_def)
next
  case (flushed w c n)
  then show ?case by (simp add: conn_bounded_def)
qed (simp_all add: bounded_chunk bounded_settled)

lemma char_of_newline: "of_char c = (10 :: byte) \<Longrightarrow> c = newline"
proof -
  assume "of_char c = (10 :: byte)"
  then have "char_of_byte (of_char c) = char_of_byte 10" by (rule arg_cong)
  moreover have "char_of_byte 10 = newline" by code_simp
  ultimately show ?thesis by (simp only: char_of_byte_of_char)
qed

lemma frame_single_line: "\<exists>t. frame_bytes j = t @ [10] \<and> 10 \<notin> set t"
proof -
  have "buffer_from (json_value j @ [newline]) = buffer_from (json_value j) @ [10]" by (simp add: buffer_from_def)
  moreover have "10 \<notin> set (buffer_from (json_value j))"
    using json_single_line [of j] char_of_newline by (auto simp: buffer_from_def)
  ultimately show ?thesis unfolding frame_bytes_def by blast
qed

section \<open>Properties\<close>

text \<open>
  C6: what reaches the dispatcher. Whatever the chunks in which a client's bytes arrive, a connection hands over exactly the calls of its
  frames, in order and under its own session, and only if the first frame opened the session with
  the token and the version of the server: before that nothing is dispatched, and a first frame that
  does not open the session closes the connection. A connection that was closed in between has handed over a prefix.
\<close>

theorem requests_reach_dispatcher:
  assumes "conn_run parse server w c"
  shows "case cn_context c of
      None \<Rightarrow> cn_calls c = [] \<and> (\<not> cn_destroyed c \<longrightarrow> frames_of w = [])
    | Some sid \<Rightarrow> (\<exists>f fs. frames_of w = f # fs \<and> authenticates parse server f
        \<and> prefix (cn_calls c) (List.map_filter (call_of parse sid) fs)
        \<and> (\<not> cn_destroyed c \<longrightarrow> cn_calls c = List.map_filter (call_of parse sid) fs))"
  using run_ok [OF assms] by (simp add: conn_ok_def served_def)

text \<open>
  C7: the resources of a connection are bounded. On a server that could be made, a connection has at most the configured number of
  requests in flight, each of them a call it made; the responses not yet flushed stay within four
  frames; and every response is one line of at most a MiB.
\<close>

theorem connection_bounds:
  assumes "new_pipe_server token version maxConnections maxInflight = Inr server" "conn_run parse server w c"
  shows "int (length (cn_pending_calls c)) \<le> ps_maxInflightRequestsPerConnection server \<and> subseq (cn_pending_calls c) (cn_calls c)
    \<and> cn_writableLength c \<le> 4 * 1048576
    \<and> list_all (\<lambda>j. length (frame_bytes j) \<le> 1048576 \<and> (\<exists>t. frame_bytes j = t @ [10] \<and> 10 \<notin> set t)) (cn_sent c)"
proof -
  have "0 \<le> ps_maxInflightRequestsPerConnection server"
    using assms(1) by (auto simp: new_pipe_server_def and_then_def pipe_positive_integer_def split: sum.splits if_splits)
  from run_bounded [OF assms(2) this] show ?thesis
    by (auto simp: conn_bounded_def list_all_iff frame_single_line MAX_PENDING_RESPONSE_BYTES_def MAX_RPC_FRAME_BYTES_def)
qed

section \<open>Witnesses\<close>

text \<open>A client that opens a session with the right token and asks for a ping, in two chunks.\<close>

definition example_token :: string where
  "example_token = replicate 32 (CHR ''A'')"

definition example_server :: pipe_server where
  "example_server = \<lparr>ps_token = example_token, ps_serverVersion = ''1'', ps_maxConnections = 1,
     ps_maxInflightRequestsPerConnection = 1, ps_connections = [], ps_disconnected = []\<rparr>"

definition example_open :: json where
  "example_open = JObject [(''jsonrpc'', JString ''2.0''), (''id'', JInt 1), (''method'', JString ''session.open''),
     (''params'', JObject [(''token'', JString example_token), (''protocolVersion'', JInt 8),
        (''client'', JObject [(''name'', JString ''cli''), (''version'', JString ''1'')])])]"

definition example_ping :: json where
  "example_ping = JObject [(''jsonrpc'', JString ''2.0''), (''id'', JInt 2), (''method'', JString ''system.ping'')]"

definition example_json :: "string \<Rightarrow> json option" where
  "example_json s = (if s = ''o'' then Some example_open else if s = ''p'' then Some example_ping else None)"

definition example_connection :: connection_state where
  "example_connection = acceptChunk example_json example_server ''s1'' [112, 10]
     (acceptChunk example_json example_server ''s1'' [111, 10] new_connection)"

lemma example_schemas:
  "\<exists>request. request_of example_json [111] = Some request \<and> rq_id request = NumberId 1 \<and> rq_method request = ''session.open''
     \<and> SessionOpenAttemptSchema (rq_params request) = Some (example_token, PROTOCOL_VERSION)"
  "request_of example_json [112] = Some \<lparr>rq_id = NumberId 2, rq_method = ''system.ping'', rq_params = None\<rparr>"
proof -
  have "(case request_of example_json [111] of None \<Rightarrow> False | Some request \<Rightarrow> rq_id request = NumberId 1 \<and> rq_method request = ''session.open''
     \<and> SessionOpenAttemptSchema (rq_params request) = Some (example_token, PROTOCOL_VERSION))" by code_simp
  then show "\<exists>request. request_of example_json [111] = Some request \<and> rq_id request = NumberId 1 \<and> rq_method request = ''session.open''
     \<and> SessionOpenAttemptSchema (rq_params request) = Some (example_token, PROTOCOL_VERSION)" by (auto split: option.splits)
  show "request_of example_json [112] = Some \<lparr>rq_id = NumberId 2, rq_method = ''system.ping'', rq_params = None\<rparr>" by code_simp
qed

lemma example_run: "conn_run example_json example_server [111, 10, 112, 10] example_connection"
  "\<not> cn_destroyed example_connection" "cn_context example_connection = Some ''s1''"
proof -
  let ?c1 = "acceptChunk example_json example_server ''s1'' [111, 10] new_connection"
  obtain request where r: "request_of example_json [111] = Some request" "rq_id request = NumberId 1" "rq_method request = ''session.open''"
    "SessionOpenAttemptSchema (rq_params request) = Some (example_token, PROTOCOL_VERSION)" using example_schemas(1) by blast
  let ?answer = "JObject [(''jsonrpc'', JString ''2.0''), (''id'', JInt 1), (''result'',
     JObject [(''protocolVersion'', JInt PROTOCOL_VERSION), (''serverVersion'', JString ''1''), (''sessionId'', JString ''s1'')])]"
  have len: "int (length (frame_bytes ?answer)) \<le> 1000" by code_simp
  have "acceptFrame example_json example_server ''s1'' [111] new_connection = open_session example_server ''s1'' request new_connection"
    using r(1) by (auto simp: acceptFrame_def request_of_def bind_eq_Some_conv new_connection_def)
  also have "\<dots> = writeFrame ?answer (new_connection\<lparr>cn_context := Some ''s1''\<rparr>)"
    using r(2-4) by (simp add: open_session_def constantTimeTokenEquals_def example_server_def writeResult_def id_json_def)
  finally have f1: "acceptFrame example_json example_server ''s1'' [111] new_connection = \<dots>" .
  have lines: "lines_of [111, 10] = [[111]]" "rest_of [111, 10] = []" "frames_of [111, 10] = [[111]]"
    "lines_of [112, 10] = [[112]]" "rest_of [112, 10] = []" "frames_of [112, 10] = [[112]]"
    by (simp_all add: frames_of_def fits_def MAX_RPC_FRAME_BYTES_def)
  have fit: "fits [111]" "fits [112]" by (simp_all add: fits_def MAX_RPC_FRAME_BYTES_def)
  have c1: "?c1 = (writeFrame ?answer (new_connection\<lparr>cn_context := Some ''s1''\<rparr>))\<lparr>cn_buffer := []\<rparr>"
    using accept_lines_spec [of example_json example_server "''s1''" "[111, 10]" new_connection] f1 lines fit
    by (auto simp: acceptChunk_def new_connection_def Let_def MAX_RPC_FRAME_BYTES_def)
  then have "\<not> cn_destroyed ?c1" "cn_context ?c1 = Some ''s1''" "cn_buffer ?c1 = []" "cn_inflightRequests ?c1 = 0"
    using len by (simp_all add: writeFrame_def new_connection_def Let_def MAX_RPC_FRAME_BYTES_def MAX_PENDING_RESPONSE_BYTES_def destroy_def)
  note c1 = this
  have mi: "ps_maxInflightRequestsPerConnection example_server = 1" by (simp add: example_server_def)
  have f2: "acceptFrame example_json example_server ''s1'' [112] ?c1 = start_call example_server ''s1''
      \<lparr>rq_id = NumberId 2, rq_method = ''system.ping'', rq_params = None\<rparr> ?c1"
    using c1 example_schemas(2) by (auto simp: acceptFrame_def request_of_def bind_eq_Some_conv)
  have ec: "example_connection = (start_call example_server ''s1''
      \<lparr>rq_id = NumberId 2, rq_method = ''system.ping'', rq_params = None\<rparr> ?c1)\<lparr>cn_buffer := []\<rparr>"
    using accept_lines_spec [of example_json example_server "''s1''" "[112, 10]" ?c1] f2 lines fit c1
    by (auto simp: example_connection_def acceptChunk_def [of _ _ _ "[112, 10]"] Let_def MAX_RPC_FRAME_BYTES_def)
  show "\<not> cn_destroyed example_connection" "cn_context example_connection = Some ''s1''"
    unfolding ec using c1 by (simp_all add: start_call_def mi Let_def)
  have "conn_run example_json example_server ([] @ [111, 10]) ?c1"
    by (rule conn_run.received [OF conn_run.opened]) (simp add: new_connection_def)
  from conn_run.received [OF this c1(1), of "[112, 10]" "''s1''"]
  show "conn_run example_json example_server [111, 10, 112, 10] example_connection" by (simp add: example_connection_def)
qed

theorem requests_reach_dispatcher_witness:
  "cn_calls example_connection = [\<lparr>rc_method = ''system.ping'', rc_params = None, rc_sessionId = ''s1'', rc_requestId = NumberId 2\<rparr>]"
proof -
  have "frames_of [111, 10, 112, 10] = [[111], [112]]" by (simp add: frames_of_def fits_def MAX_RPC_FRAME_BYTES_def)
  moreover have "call_of example_json ''s1'' [112] =
      Some \<lparr>rc_method = ''system.ping'', rc_params = None, rc_sessionId = ''s1'', rc_requestId = NumberId 2\<rparr>"
    by (simp add: call_of_def example_schemas(2))
  ultimately show ?thesis using requests_reach_dispatcher [OF example_run(1)] example_run(2,3) by auto
qed

theorem connection_bounds_witness:
  "length (cn_pending_calls example_connection) \<le> 1 \<and> cn_writableLength example_connection \<le> 4 * 1048576"
proof -
  have "(case new_pipe_server example_token ''1'' (Some 1) (Some 1) of Inl _ \<Rightarrow> False | Inr server \<Rightarrow> server = example_server)"
    by (simp add: new_pipe_server_def pipe_positive_integer_def and_then_def is_safe_integer_def max_safe_integer_def example_server_def)
  then have "new_pipe_server example_token ''1'' (Some 1) (Some 1) = Inr example_server" by (auto split: sum.splits)
  from connection_bounds [OF this example_run(1)] show ?thesis by (simp add: example_server_def)
qed

section \<open>The gate\<close>

text \<open>Until it is activated the gate refuses every call and the delegate sees none; afterwards it is the delegate.\<close>

lemma gate_fails_closed:
  "\<not> ag_active g \<Longrightarrow> gate_dispatch dispatch call g = (Inl (gateway DaemonNotActive ''Gateway daemon is not active''), g)"
  "gate_dispatch dispatch call (gate_activate g) = map_prod id (\<lambda>d. (gate_activate g)\<lparr>ag_delegate := d\<rparr>) (dispatch call (ag_delegate g))"
  "\<not> ag_active (new_gate d)"
  by (simp_all add: gate_dispatch_def gate_activate_def new_gate_def split: prod.split)

section \<open>The table of connections\<close>

lemma connections_bounded:
  assumes "int (length (ps_connections server)) \<le> ps_maxConnections server"
  shows "int (length (ps_connections (acceptConnection k server))) \<le> ps_maxConnections server"
    "int (length (ps_connections (closeConnection k server))) \<le> ps_maxConnections server"
proof -
  show "int (length (ps_connections (acceptConnection k server))) \<le> ps_maxConnections server"
    using assms by (simp add: acceptConnection_def)
  have "length (AList.delete k xs) \<le> length xs" for xs :: "(nat \<times> connection_state) list" by (simp add: AList.delete_eq)
  from order_trans [OF iffD2 [OF of_nat_le_iff this] assms]
  show "int (length (ps_connections (closeConnection k server))) \<le> ps_maxConnections server"
    using assms by (simp add: closeConnection_def split: option.split)
qed

end
