(* ===== verification/ProbeParser.thy ===== *)
theory ProbeParser
  imports Execution
begin

text \<open>
  \<^verbatim>\<open>src/src/core/probe-parser.ts\<close>: the answer of a fixed probe. \<open>parseFrame\<close> reads the framed text
  a probe script prints, a header, one \<open>key:base64\<close> line per field and an end line; \<open>parseTargetInfo\<close> and
  \<open>parseDockerPreflight\<close> read the fields. A thrown \<open>FixedProbeParseError\<close> is \<open>Inl\<close> of its message.
  The lemmas characterise the accepted frames, the well-formed results and the verdict of a preflight.
\<close>

section \<open>Types\<close>

type_synonym 'a parsed = "string + 'a"
type_synonym probe_fields = "(string, string) jsmap"

datatype probe_warning =
    MachineIdUnavailable | HostnameUnavailable | OsInfoPartial | DiskInfoUnavailable
  | DockerNotInstalled | DockerDaemonUnreachable | DockerContextRemote | ComposeNotInstalled
  | ComposeConfigInvalid | ComposeConfigUnavailable | PortStateUnknown | PortListenerObserved
  | ContainerStateUnavailable | ContainerUnhealthy | ContainerStarting | ContainerListTruncated
  | RequiredDiskSpaceUnavailable | RequiredDiskSpaceInsufficient

datatype context_scope = ScopeLocal | ScopeRemote | ScopeUnknown
datatype compose_provider = Plugin | Standalone
datatype port_protocol = Tcp | Udp
datatype port_observation = ListenerObserved | NotObserved | ObservationUnknown
datatype port_ownership = RequestedProject | OtherContainer | HostProcess | OwnershipUnknown
datatype container_state =
  ContainerCreated | ContainerRestarting | ContainerRunning | ContainerRemoving | ContainerPaused | ContainerExited | ContainerDead
datatype container_health = HealthHealthy | HealthUnhealthy | HealthStarting | HealthNone
datatype container_status = ContainersOk | ContainersUnavailable | ContainersNotRequested
datatype disk_status = DiskAvailable | DiskUnavailable | DiskNotRequested
datatype compose_config = ComposeFileValid | ComposeFileInvalid | ComposeFileUnavailable | ComposeFileNotRequested
datatype preflight_intent = IntentCreate | IntentUpdate | IntentInspect
datatype preflight_overall = Ready | Degraded | Blocked

record operating_system_info =
  os_name :: "string option"
  os_version :: "string option"
  os_build :: "string option"
  os_kernel :: "string option"
  os_architecture :: "string option"

record disk_info =
  di_path :: string
  di_totalBytes :: int
  di_availableBytes :: int

record compose_facts =
  cf_installed :: bool
  cf_provider :: "compose_provider option"
  cf_version :: "string option"

record docker_facts =
  df_installed :: bool
  df_daemonReachable :: bool
  df_clientVersion :: "string option"
  df_serverVersion :: "string option"
  df_contextName :: "string option"
  df_contextScope :: "context_scope option"
  df_compose :: compose_facts

record target_info_result =
  ti_reportedPlatform :: platform
  ti_nativeMachineId :: "string option"
  ti_hostname :: "string option"
  ti_os :: operating_system_info
  ti_disk :: "disk_info option"
  ti_docker :: docker_facts
  ti_warnings :: "probe_warning list"

record port_result =
  pt_protocol :: port_protocol
  pt_port :: int
  pt_observation :: port_observation
  pt_ownership :: port_ownership

record container_result =
  ct_name :: string
  ct_service :: "string option"
  ct_state :: container_state
  ct_health :: container_health

record containers_result =
  cs_status :: container_status
  cs_filter :: "string option"
  cs_items :: "container_result list"
  cs_truncated :: bool

record preflight_disk =
  pd_status :: disk_status
  pd_path :: "string option"
  pd_totalBytes :: "int option"
  pd_availableBytes :: "int option"
  pd_requiredBytes :: "int option"

text \<open>\<open>daemon\<close> and \<open>compose\<close> of the answer are the two parts of \<open>pf_docker\<close>.\<close>

record preflight_result =
  pf_intent :: preflight_intent
  pf_reportedPlatform :: platform
  pf_overall :: preflight_overall
  pf_docker :: docker_facts
  pf_composeRequested :: bool
  pf_composeConfig :: compose_config
  pf_ports :: "port_result list"
  pf_containers :: containers_result
  pf_disk :: preflight_disk
  pf_warnings :: "probe_warning list"

datatype probe_result = TargetInfoResult target_info_result | PreflightResult preflight_result

definition MAX_FIXED_PROBE_OUTPUT_BYTES :: nat where "MAX_FIXED_PROBE_OUTPUT_BYTES = 128 * 1024"
definition MAX_PROBE_FIELDS :: nat where "MAX_PROBE_FIELDS = 512"
definition MAX_ENCODED_FIELD_BYTES :: nat where "MAX_ENCODED_FIELD_BYTES = 24 * 1024"
definition FIXED_PROBE_OUTPUT_PROTOCOL :: string where "FIXED_PROBE_OUTPUT_PROTOCOL = ''agent-ssh-probe-v1''"
definition PROBE_END :: string where "PROBE_END = ''AGENT_SSH_PROBE_END''"

section \<open>Patterns\<close>

text \<open>A first character, then at most \<open>n\<close> others.\<close>

definition name_pattern :: "(char \<Rightarrow> bool) \<Rightarrow> (char \<Rightarrow> bool) \<Rightarrow> nat \<Rightarrow> string \<Rightarrow> bool" where
  "name_pattern first others n s = (case s of [] \<Rightarrow> False | c # cs \<Rightarrow> first c \<and> list_all others cs \<and> length cs \<le> n)"

definition dot_parts :: "string \<Rightarrow> string list" where
  "dot_parts s = split_on (\<lambda>c. c = CHR ''.'') s"

definition KEY_PATTERN :: "string \<Rightarrow> bool" where
  "KEY_PATTERN key =
     (case dot_parts key of
        [] \<Rightarrow> False
      | part # parts \<Rightarrow>
          (case part of [] \<Rightarrow> False | c # cs \<Rightarrow> is_lower c \<and> list_all is_alnum cs)
          \<and> list_all (\<lambda>p. p \<noteq> [] \<and> list_all is_alnum p) parts)"

definition base64_letter :: "char \<Rightarrow> bool" where
  "base64_letter c \<longleftrightarrow> is_alnum c \<or> c = CHR ''+'' \<or> c = CHR ''/''"

fun CANONICAL_BASE64_PATTERN :: "string \<Rightarrow> bool" where
  "CANONICAL_BASE64_PATTERN [] = True"
| "CANONICAL_BASE64_PATTERN (a # b # c # d # rest) =
     ((base64_letter a \<and> base64_letter b \<and> base64_letter c \<and> base64_letter d \<and> CANONICAL_BASE64_PATTERN rest)
      \<or> (rest = [] \<and> base64_letter a \<and> base64_letter b \<and> d = CHR ''=''
         \<and> (c = CHR ''='' \<or> base64_letter c)))"
| "CANONICAL_BASE64_PATTERN _ = False"

definition HOSTNAME_PATTERN :: "string \<Rightarrow> bool" where
  "HOSTNAME_PATTERN = name_pattern is_alnum alias_char 254"

definition SAFE_CONTAINER_NAME_PATTERN :: "string \<Rightarrow> bool" where
  "SAFE_CONTAINER_NAME_PATTERN = name_pattern is_alnum alias_char 127"

definition service_char :: "char \<Rightarrow> bool" where
  "service_char c \<longleftrightarrow> is_lower c \<or> is_digit c \<or> c = CHR ''_'' \<or> c = CHR ''-''"

definition SAFE_SERVICE_NAME_PATTERN :: "string \<Rightarrow> bool" where
  "SAFE_SERVICE_NAME_PATTERN = name_pattern (\<lambda>c. is_lower c \<or> is_digit c) service_char 127"

definition SAFE_DOCKER_CONTEXT_PATTERN :: "string \<Rightarrow> bool" where
  "SAFE_DOCKER_CONTEXT_PATTERN = name_pattern is_alnum alias_char 127"

definition COMPOSE_PROJECT_FILTER_PATTERN :: "string \<Rightarrow> bool" where
  "COMPOSE_PROJECT_FILTER_PATTERN s \<longleftrightarrow>
     starts_with s ''label=com.docker.compose.project=''
     \<and> name_pattern (\<lambda>c. is_lower c \<or> is_digit c) service_char 62
         (drop (length ''label=com.docker.compose.project='') s)"

definition canonical_decimal :: "string \<Rightarrow> bool" where
  "canonical_decimal s \<longleftrightarrow> s \<noteq> [] \<and> list_all is_digit s \<and> (hd s = CHR ''0'' \<longrightarrow> s = ''0'')"

definition TARGET_INFO_KEYS :: "string list" where
  "TARGET_INFO_KEYS =
     [''platform'', ''machine.nativeId'', ''machine.hostname'', ''os.name'', ''os.version'', ''os.build'',
      ''os.kernel'', ''os.architecture'', ''disk.path'', ''disk.totalBytes'', ''disk.availableBytes'',
      ''docker.installed'', ''docker.daemonReachable'', ''docker.clientVersion'', ''docker.serverVersion'',
      ''docker.contextName'', ''docker.contextScope'', ''compose.installed'', ''compose.provider'', ''compose.version'']"

definition PREFLIGHT_KEYS :: "string list" where
  "PREFLIGHT_KEYS =
     [''platform'', ''docker.installed'', ''docker.daemonReachable'', ''docker.clientVersion'', ''docker.serverVersion'',
      ''docker.contextName'', ''docker.contextScope'', ''compose.installed'', ''compose.provider'', ''compose.version'',
      ''preflight.intent'', ''compose.requested'', ''compose.config'', ''ports.count'', ''containers.status'',
      ''containers.count'', ''containers.truncated'', ''containers.filter'', ''disk.status'', ''disk.path'',
      ''disk.totalBytes'', ''disk.availableBytes'', ''disk.requiredBytes'']"

section \<open>Frames\<close>

definition decodeCanonicalBase64 :: "string \<Rightarrow> string parsed" where
  "decodeCanonicalBase64 encoded =
     and_then (guard_else (utf16_length encoded \<noteq> 0 \<and> utf16_length encoded \<le> MAX_ENCODED_FIELD_BYTES
         \<and> CANONICAL_BASE64_PATTERN encoded) ''Probe output contains invalid Base64'') (\<lambda>_.
     let decoded = from_base64 encoded in
     and_then (guard_else (base64 decoded = encoded \<and> valid_utf8 decoded)
       ''Probe output contains non-canonical or non-UTF-8 data'') (\<lambda>_.
     let txt = map char_of_byte decoded in
     and_then (guard_else (\<not> list_ex is_control txt) ''Probe output contains control characters'') (\<lambda>_.
     Inr txt)))"

definition known_key :: "probe_kind \<Rightarrow> string \<Rightarrow> bool" where
  "known_key kind key =
     (case kind of
        TargetInfo \<Rightarrow> key \<in> set TARGET_INFO_KEYS
      | DockerPreflight \<Rightarrow>
          key \<in> set PREFLIGHT_KEYS
          \<or> (case dot_parts key of
               [grp, index, field] \<Rightarrow>
                 canonical_decimal index
                 \<and> ((grp = ''port'' \<and> field \<in> {''protocol'', ''port'', ''observation'', ''ownership''})
                    \<or> (grp = ''container'' \<and> field = ''record''))
             | _ \<Rightarrow> False))"

definition assertKnownKeys :: "probe_kind \<Rightarrow> string list \<Rightarrow> unit parsed" where
  "assertKnownKeys kind keys = guard_else (list_all (known_key kind) keys) ''Probe output contains an unknown field''"

fun parse_fields :: "probe_fields \<Rightarrow> string list \<Rightarrow> probe_fields parsed" where
  "parse_fields flds [] = Inr flds"
| "parse_fields flds (line # lines) =
     and_then (guard_else (length line \<le> MAX_ENCODED_FIELD_BYTES) ''Probe output contains an oversized field'') (\<lambda>_.
     let key = takeWhile (\<lambda>c. c \<noteq> CHR '':'') line; rest = dropWhile (\<lambda>c. c \<noteq> CHR '':'') line in
     and_then (guard_else (rest \<noteq> [] \<and> key \<noteq> []) ''Probe output contains a malformed field'') (\<lambda>_.
     and_then (guard_else (KEY_PATTERN key \<and> map_of flds key = None)
       ''Probe output contains an invalid or duplicate key'') (\<lambda>_.
     and_then (decodeCanonicalBase64 (tl rest)) (\<lambda>val.
     parse_fields (AList.update key val flds) lines))))"

text \<open>\<open>/\r(?!\n)/u.test(raw)\<close> and \<open>raw.replaceAll("\r\n", "\n")\<close>.\<close>

fun bare_return :: "string \<Rightarrow> bool" where
  "bare_return [] = False"
| "bare_return (c # cs) =
     ((c = return_char \<and> (case cs of [] \<Rightarrow> True | d # _ \<Rightarrow> d \<noteq> newline)) \<or> bare_return cs)"

fun unix_lines :: "string \<Rightarrow> string" where
  "unix_lines [] = []"
| "unix_lines (c # cs) =
     (if c = return_char \<and> (case cs of [] \<Rightarrow> False | d # _ \<Rightarrow> d = newline) then unix_lines cs else c # unix_lines cs)"

definition frame_header :: "probe_kind \<Rightarrow> string" where
  "frame_header kind = FIXED_PROBE_OUTPUT_PROTOCOL @ [CHR 0x09] @ probe_name kind"

definition parseFrame :: "probe_kind \<Rightarrow> bytes \<Rightarrow> probe_fields parsed" where
  "parseFrame kind byts =
     and_then (guard_else (length byts \<noteq> 0 \<and> length byts \<le> MAX_FIXED_PROBE_OUTPUT_BYTES)
       ''Probe output is empty or exceeds its byte limit'') (\<lambda>_.
     and_then (guard_else (valid_utf8 byts) ''Probe output is not valid UTF-8'') (\<lambda>_.
     let raw = map char_of_byte byts in
     and_then (guard_else (\<not> bare_return raw) ''Probe output contains a bare carriage return'') (\<lambda>_.
     let normalized = unix_lines raw in
     and_then (guard_else (normalized \<noteq> [] \<and> last normalized = newline) ''Probe output is incomplete'') (\<lambda>_.
     let lines = split_on (\<lambda>c. c = newline) (butlast normalized) in
     and_then (guard_else (hd lines = frame_header kind \<and> last lines = PROBE_END)
       ''Probe output has an invalid frame boundary'') (\<lambda>_.
     let fieldLines = butlast (tl lines) in
     and_then (guard_else (length fieldLines \<noteq> 0 \<and> length fieldLines \<le> MAX_PROBE_FIELDS)
       ''Probe output has an invalid field count'') (\<lambda>_.
     and_then (parse_fields [] fieldLines) (\<lambda>flds.
     and_then (assertKnownKeys kind (map fst flds)) (\<lambda>_.
     Inr flds))))))))"

section \<open>Values of fields\<close>

definition assertText :: "string \<Rightarrow> string \<Rightarrow> nat \<Rightarrow> (string \<Rightarrow> bool) \<Rightarrow> unit parsed" where
  "assertText val key maximumLength pattern =
     guard_else (utf16_length val \<noteq> 0 \<and> utf16_length val \<le> maximumLength \<and> pattern val)
       (''Probe returned an invalid value for '' @ key)"

abbreviation any_text :: "string \<Rightarrow> bool" where
  "any_text \<equiv> \<lambda>_. True"

definition requiredText :: "probe_fields \<Rightarrow> string \<Rightarrow> nat \<Rightarrow> (string \<Rightarrow> bool) \<Rightarrow> string parsed" where
  "requiredText flds key maximumLength pattern =
     (case map_of flds key of
        None \<Rightarrow> Inl (''Probe output is missing '' @ key)
      | Some val \<Rightarrow> and_then (assertText val key maximumLength pattern) (\<lambda>_. Inr val))"

definition optionalText :: "probe_fields \<Rightarrow> string \<Rightarrow> nat \<Rightarrow> (string \<Rightarrow> bool) \<Rightarrow> string option parsed" where
  "optionalText flds key maximumLength pattern =
     (case map_of flds key of
        None \<Rightarrow> Inr None
      | Some val \<Rightarrow> and_then (assertText val key maximumLength pattern) (\<lambda>_. Inr (Some val)))"

text \<open>An enumeration pairs the admitted texts with their values.\<close>

definition enumValue :: "string \<Rightarrow> (string \<times> 'a) list \<Rightarrow> 'a parsed" where
  "enumValue val values =
     (case map_of values val of None \<Rightarrow> Inl ''Probe returned an unknown enum value'' | Some v \<Rightarrow> Inr v)"

definition requiredEnum :: "probe_fields \<Rightarrow> string \<Rightarrow> (string \<times> 'a) list \<Rightarrow> 'a parsed" where
  "requiredEnum flds key values = and_then (requiredText flds key 128 any_text) (\<lambda>val. enumValue val values)"

definition optionalEnum :: "probe_fields \<Rightarrow> string \<Rightarrow> (string \<times> 'a) list \<Rightarrow> 'a option parsed" where
  "optionalEnum flds key values =
     (case map_of flds key of
        None \<Rightarrow> Inr None
      | Some val \<Rightarrow> and_then (enumValue val values) (\<lambda>v. Inr (Some v)))"

definition requiredBoolean :: "probe_fields \<Rightarrow> string \<Rightarrow> bool parsed" where
  "requiredBoolean flds key =
     and_then (requiredText flds key 5 any_text) (\<lambda>val.
     if val = ''true'' then Inr True else if val = ''false'' then Inr False
     else Inl (''Probe returned an invalid boolean for '' @ key))"

definition requiredSafeInteger :: "probe_fields \<Rightarrow> string \<Rightarrow> int \<Rightarrow> int \<Rightarrow> int parsed" where
  "requiredSafeInteger flds key maximum minimum =
     and_then (requiredText flds key 32 any_text) (\<lambda>val.
     and_then (guard_else (canonical_decimal val) (''Probe returned an invalid integer for '' @ key)) (\<lambda>_.
     let parsed = int (read_nat 0 val) in
     and_then (guard_else (is_safe_integer parsed \<and> minimum \<le> parsed \<and> parsed \<le> maximum)
       (''Probe returned an out-of-range integer for '' @ key)) (\<lambda>_.
     Inr parsed)))"

definition optionalSafeInteger :: "probe_fields \<Rightarrow> string \<Rightarrow> int option parsed" where
  "optionalSafeInteger flds key =
     (if map_of flds key = None then Inr None
      else and_then (requiredSafeInteger flds key max_safe_integer 0) (\<lambda>n. Inr (Some n)))"

text \<open>The keys \<open>label.N. ...\<close> with an index that is not below the count.\<close>

definition dynamic_index :: "string \<Rightarrow> string \<Rightarrow> nat option" where
  "dynamic_index label key =
     (case dot_parts key of
        grp # index # _ # _ \<Rightarrow>
          if grp = label \<and> index \<noteq> [] \<and> list_all is_digit index then Some (read_nat 0 index) else None
      | _ \<Rightarrow> None)"

definition assertDynamicIndexes :: "probe_fields \<Rightarrow> string \<Rightarrow> int \<Rightarrow> unit parsed" where
  "assertDynamicIndexes flds label n =
     guard_else (list_all (\<lambda>key. case dynamic_index label key of None \<Rightarrow> True
         | Some index \<Rightarrow> is_safe_integer (int index) \<and> int index < n) (map fst flds))
       (''Probe returned an out-of-range '' @ label @ '' index'')"

section \<open>Facts\<close>

definition platform_values :: "(string \<times> platform) list" where
  "platform_values = [(''windows'', Windows), (''linux'', Linux), (''macos'', MacOS)]"

definition readPlatform :: "probe_fields \<Rightarrow> platform parsed" where
  "readPlatform flds = requiredEnum flds ''platform'' platform_values"

definition readOperatingSystem :: "probe_fields \<Rightarrow> operating_system_info parsed" where
  "readOperatingSystem flds =
     and_then (optionalText flds ''os.name'' 256 any_text) (\<lambda>name.
     and_then (optionalText flds ''os.version'' 128 any_text) (\<lambda>version.
     and_then (optionalText flds ''os.build'' 128 any_text) (\<lambda>build.
     and_then (optionalText flds ''os.kernel'' 256 any_text) (\<lambda>kernel.
     and_then (optionalText flds ''os.architecture'' 128 any_text) (\<lambda>architecture.
     Inr \<lparr>os_name = name, os_version = version, os_build = build, os_kernel = kernel, os_architecture = architecture\<rparr>)))))"

definition readCompleteDisk :: "probe_fields \<Rightarrow> disk_info option parsed" where
  "readCompleteDisk flds =
     and_then (optionalText flds ''disk.path'' 4096 any_text) (\<lambda>path.
     and_then (optionalSafeInteger flds ''disk.totalBytes'') (\<lambda>totalBytes.
     and_then (optionalSafeInteger flds ''disk.availableBytes'') (\<lambda>availableBytes.
     case (path, totalBytes, availableBytes) of
       (None, None, None) \<Rightarrow> Inr None
     | (Some path, Some totalBytes, Some availableBytes) \<Rightarrow>
         if availableBytes > totalBytes then Inl ''Probe returned impossible disk information''
         else Inr (Some \<lparr>di_path = path, di_totalBytes = totalBytes, di_availableBytes = availableBytes\<rparr>)
     | _ \<Rightarrow> Inl ''Probe returned incomplete disk information'')))"

definition readDockerFacts :: "probe_fields \<Rightarrow> docker_facts parsed" where
  "readDockerFacts flds =
     and_then (requiredBoolean flds ''docker.installed'') (\<lambda>installed.
     and_then (requiredBoolean flds ''docker.daemonReachable'') (\<lambda>daemonReachable.
     and_then (optionalText flds ''docker.clientVersion'' 128 any_text) (\<lambda>clientVersion.
     and_then (optionalText flds ''docker.serverVersion'' 128 any_text) (\<lambda>serverVersion.
     and_then (optionalText flds ''docker.contextName'' 128 SAFE_DOCKER_CONTEXT_PATTERN) (\<lambda>contextName.
     and_then (optionalEnum flds ''docker.contextScope''
       [(''local'', ScopeLocal), (''remote'', ScopeRemote), (''unknown'', ScopeUnknown)]) (\<lambda>contextScope.
     and_then (requiredBoolean flds ''compose.installed'') (\<lambda>composeInstalled.
     and_then (optionalEnum flds ''compose.provider''
       [(''plugin'', Plugin), (''standalone'', Standalone)]) (\<lambda>provider.
     and_then (optionalText flds ''compose.version'' 128 any_text) (\<lambda>composeVersion.
     if (\<not> installed \<and> (daemonReachable \<or> clientVersion \<noteq> None \<or> serverVersion \<noteq> None))
        \<or> (daemonReachable \<and> serverVersion = None)
        \<or> (\<not> daemonReachable \<and> (contextName \<noteq> None \<or> contextScope \<noteq> None))
        \<or> (contextName = None) \<noteq> (contextScope = None)
        \<or> composeInstalled \<noteq> (provider \<noteq> None)
        \<or> (\<not> composeInstalled \<and> composeVersion \<noteq> None)
     then Inl ''Probe returned inconsistent Docker information''
     else Inr \<lparr>df_installed = installed, df_daemonReachable = daemonReachable, df_clientVersion = clientVersion,
       df_serverVersion = serverVersion, df_contextName = contextName, df_contextScope = contextScope,
       df_compose = \<lparr>cf_installed = composeInstalled, cf_provider = provider, cf_version = composeVersion\<rparr>\<rparr>)))))))))"

definition appendDockerWarnings :: "docker_facts \<Rightarrow> probe_warning list \<Rightarrow> probe_warning list" where
  "appendDockerWarnings docker warnings =
     warnings
     @ (if \<not> df_installed docker then [DockerNotInstalled]
        else if \<not> df_daemonReachable docker then [DockerDaemonUnreachable] else [])
     @ (if df_contextScope docker = Some ScopeRemote then [DockerContextRemote] else [])
     @ (if \<not> cf_installed (df_compose docker) then [ComposeNotInstalled] else [])"

definition is_hex :: "char \<Rightarrow> bool" where
  "is_hex c \<longleftrightarrow> is_digit c \<or> (CHR ''A'' \<le> c \<and> c \<le> CHR ''F'') \<or> (CHR ''a'' \<le> c \<and> c \<le> CHR ''f'')"

definition isNativeMachineId :: "platform \<Rightarrow> string \<Rightarrow> bool" where
  "isNativeMachineId platform val \<longleftrightarrow>
     (let parts = split_on (\<lambda>c. c = CHR ''-'') val in
      (if platform = Linux then length val = 32 \<and> list_all is_hex val
       else map length parts = [8, 4, 4, 4, 12] \<and> list_all (list_all is_hex) parts)
      \<and> \<not> list_all (\<lambda>p. p \<noteq> [] \<and> list_all (\<lambda>c. c = CHR ''0'') p) parts)"

definition normalizeNativeId :: "string \<Rightarrow> string" where
  "normalizeNativeId val = to_lower val"

definition parseTargetInfo :: "probe_fields \<Rightarrow> target_info_result parsed" where
  "parseTargetInfo flds =
     and_then (readPlatform flds) (\<lambda>reportedPlatform.
     and_then (optionalText flds ''machine.nativeId'' 128 any_text) (\<lambda>nativeMachineId.
     and_then (guard_else (case nativeMachineId of None \<Rightarrow> True | Some n \<Rightarrow> isNativeMachineId reportedPlatform n)
       ''Probe returned an invalid native machine ID'') (\<lambda>_.
     and_then (optionalText flds ''machine.hostname'' 255 HOSTNAME_PATTERN) (\<lambda>hostname.
     and_then (readOperatingSystem flds) (\<lambda>os.
     and_then (readCompleteDisk flds) (\<lambda>disk.
     and_then (readDockerFacts flds) (\<lambda>docker.
     let warnings =
       (if nativeMachineId = None then [MachineIdUnavailable] else [])
       @ (if hostname = None then [HostnameUnavailable] else [])
       @ (if os_name os = None \<or> os_version os = None then [OsInfoPartial] else [])
       @ (if disk = None then [DiskInfoUnavailable] else []) in
     Inr \<lparr>ti_reportedPlatform = reportedPlatform, ti_nativeMachineId = map_option normalizeNativeId nativeMachineId,
       ti_hostname = hostname, ti_os = os, ti_disk = disk, ti_docker = docker,
       ti_warnings = appendDockerWarnings docker warnings\<rparr>)))))))"

section \<open>Preflight\<close>

definition port_key :: "nat \<Rightarrow> string \<Rightarrow> string" where
  "port_key index field = ''port.'' @ show_nat index @ ''.'' @ field"

definition protocol_name :: "port_protocol \<Rightarrow> string" where
  "protocol_name p = (case p of Tcp \<Rightarrow> ''tcp'' | Udp \<Rightarrow> ''udp'')"

definition readPort :: "probe_fields \<Rightarrow> nat \<Rightarrow> port_result parsed" where
  "readPort flds index =
     and_then (requiredEnum flds (port_key index ''protocol'') [(''tcp'', Tcp), (''udp'', Udp)]) (\<lambda>protocol.
     and_then (requiredSafeInteger flds (port_key index ''port'') 65535 1) (\<lambda>port.
     and_then (requiredEnum flds (port_key index ''observation'')
       [(''listener-observed'', ListenerObserved), (''not-observed'', NotObserved), (''unknown'', ObservationUnknown)])
       (\<lambda>observation.
     and_then (requiredEnum flds (port_key index ''ownership'')
       [(''requested-project'', RequestedProject), (''other-container'', OtherContainer),
        (''host-process'', HostProcess), (''unknown'', OwnershipUnknown)]) (\<lambda>ownership.
     and_then (guard_else (ownership = HostProcess \<longrightarrow> observation = ListenerObserved)
       ''Host-process port ownership requires a listener'') (\<lambda>_.
     Inr \<lparr>pt_protocol = protocol, pt_port = port, pt_observation = observation, pt_ownership = ownership\<rparr>)))))"

definition port_identity :: "port_result \<Rightarrow> string" where
  "port_identity p = protocol_name (pt_protocol p) @ '':'' @ show_int (pt_port p)"

text \<open>The loop over the indexes, with the identities seen and the ports read so far.\<close>

fun read_ports :: "probe_fields \<Rightarrow> string list \<Rightarrow> port_result list \<Rightarrow> nat list \<Rightarrow> port_result list parsed" where
  "read_ports flds seen ports [] = Inr ports"
| "read_ports flds seen ports (index # indexes) =
     and_then (readPort flds index) (\<lambda>p.
     and_then (guard_else (port_identity p \<notin> set seen) ''Probe returned duplicate ports'') (\<lambda>_.
     read_ports flds (port_identity p # seen) (ports @ [p]) indexes))"

definition readPorts :: "probe_fields \<Rightarrow> port_result list parsed" where
  "readPorts flds =
     and_then (requiredSafeInteger flds ''ports.count'' 64 0) (\<lambda>n.
     and_then (assertDynamicIndexes flds ''port'' n) (\<lambda>_.
     read_ports flds [] [] [0..<nat n]))"

definition readContainer :: "probe_fields \<Rightarrow> nat \<Rightarrow> container_result parsed" where
  "readContainer flds index =
     and_then (requiredText flds (''container.'' @ show_nat index @ ''.record'') 1024 any_text) (\<lambda>record.
     case split_on (\<lambda>c. c = CHR ''|'') record of
       [rawName, rawState, rawHealth, service] \<Rightarrow>
         (let name = (if starts_with rawName ''/'' then tl rawName else rawName) in
          and_then (guard_else (SAFE_CONTAINER_NAME_PATTERN name) ''Probe returned an invalid container name'') (\<lambda>_.
          and_then (enumValue rawState
            [(''created'', ContainerCreated), (''restarting'', ContainerRestarting), (''running'', ContainerRunning),
             (''removing'', ContainerRemoving), (''paused'', ContainerPaused), (''exited'', ContainerExited),
             (''dead'', ContainerDead)]) (\<lambda>state.
          and_then (enumValue rawHealth
            [(''healthy'', HealthHealthy), (''unhealthy'', HealthUnhealthy), (''starting'', HealthStarting),
             (''none'', HealthNone)]) (\<lambda>health.
          and_then (guard_else (service \<noteq> [] \<longrightarrow> SAFE_SERVICE_NAME_PATTERN service)
            ''Probe returned an invalid Compose service name'') (\<lambda>_.
          Inr \<lparr>ct_name = name, ct_service = (if service = [] then None else Some service),
            ct_state = state, ct_health = health\<rparr>)))))
     | _ \<Rightarrow> Inl ''Probe returned a malformed container record'')"

fun read_containers :: "probe_fields \<Rightarrow> container_result list \<Rightarrow> nat list \<Rightarrow> container_result list parsed" where
  "read_containers flds items [] = Inr items"
| "read_containers flds items (index # indexes) =
     and_then (readContainer flds index) (\<lambda>item. read_containers flds (items @ [item]) indexes)"

definition readContainers :: "probe_fields \<Rightarrow> containers_result parsed" where
  "readContainers flds =
     and_then (requiredEnum flds ''containers.status''
       [(''ok'', ContainersOk), (''unavailable'', ContainersUnavailable), (''not-requested'', ContainersNotRequested)])
       (\<lambda>status.
     and_then (requiredSafeInteger flds ''containers.count'' 100 0) (\<lambda>n.
     and_then (requiredBoolean flds ''containers.truncated'') (\<lambda>truncated.
     and_then (optionalText flds ''containers.filter'' 128 COMPOSE_PROJECT_FILTER_PATTERN) (\<lambda>filter.
     and_then (assertDynamicIndexes flds ''container'' n) (\<lambda>_.
     and_then (guard_else (\<not> (status \<noteq> ContainersOk \<and> (n \<noteq> 0 \<or> truncated)))
       ''Unavailable container results must be empty'') (\<lambda>_.
     and_then (guard_else ((status = ContainersNotRequested) = (filter = None))
       ''Container status and project filter disagree'') (\<lambda>_.
     and_then (read_containers flds [] [0..<nat n]) (\<lambda>items.
     Inr \<lparr>cs_status = status, cs_filter = filter, cs_items = items, cs_truncated = truncated\<rparr>))))))))"

definition readPreflightDisk :: "probe_fields \<Rightarrow> preflight_disk parsed" where
  "readPreflightDisk flds =
     and_then (requiredEnum flds ''disk.status''
       [(''available'', DiskAvailable), (''unavailable'', DiskUnavailable), (''not-requested'', DiskNotRequested)])
       (\<lambda>status.
     and_then (optionalText flds ''disk.path'' 4096 any_text) (\<lambda>path.
     and_then (optionalSafeInteger flds ''disk.totalBytes'') (\<lambda>totalBytes.
     and_then (optionalSafeInteger flds ''disk.availableBytes'') (\<lambda>availableBytes.
     and_then (optionalSafeInteger flds ''disk.requiredBytes'') (\<lambda>requiredBytes.
     and_then
       (if status = DiskAvailable then
          (if path = None \<or> totalBytes = None \<or> availableBytes = None
           then Inl ''Available disk results must include size information''
           else guard_else (the availableBytes \<le> the totalBytes) ''Probe returned impossible disk information'')
        else guard_else (path = None \<and> totalBytes = None \<and> availableBytes = None)
          ''Unavailable disk results must not include size information'') (\<lambda>_.
     Inr \<lparr>pd_status = status, pd_path = path, pd_totalBytes = totalBytes, pd_availableBytes = availableBytes,
       pd_requiredBytes = requiredBytes\<rparr>))))))"

definition isPortConflict :: "port_result \<Rightarrow> preflight_intent \<Rightarrow> bool" where
  "isPortConflict entry intent \<longleftrightarrow>
     (if pt_ownership entry = RequestedProject \<and> intent \<noteq> IntentCreate then False
      else pt_ownership entry \<noteq> OwnershipUnknown \<or> pt_observation entry = ListenerObserved)"

text \<open>\<open>disk.requiredBytes !== undefined && (disk.availableBytes === undefined || \<dots> < \<dots>)\<close>\<close>

definition space_missing :: "preflight_disk \<Rightarrow> bool" where
  "space_missing disk =
     (case (pd_requiredBytes disk, pd_availableBytes disk) of
        (Some required, Some available) \<Rightarrow> available < required
      | (Some _, None) \<Rightarrow> True
      | (None, _) \<Rightarrow> False)"

definition deriveOverall ::
  "docker_facts \<Rightarrow> compose_config \<Rightarrow> preflight_intent \<Rightarrow> port_result list \<Rightarrow> containers_result \<Rightarrow> preflight_disk
    \<Rightarrow> preflight_overall" where
  "deriveOverall docker config intent ports containers disk =
     (let blocked =
        \<not> df_installed docker \<or> \<not> df_daemonReachable docker \<or> \<not> cf_installed (df_compose docker)
        \<or> config = ComposeFileInvalid \<or> config = ComposeFileUnavailable
        \<or> list_ex (\<lambda>entry. isPortConflict entry intent) ports
        \<or> list_ex (\<lambda>entry. ct_health entry = HealthUnhealthy) (cs_items containers)
        \<or> space_missing disk;
      degraded =
        df_contextScope docker = Some ScopeRemote
        \<or> list_ex (\<lambda>entry. pt_observation entry = ObservationUnknown) ports
        \<or> cs_status containers = ContainersUnavailable
        \<or> cs_truncated containers
        \<or> list_ex (\<lambda>entry. ct_health entry = HealthStarting) (cs_items containers)
        \<or> pd_status disk = DiskUnavailable in
      if blocked then Blocked else if degraded then Degraded else Ready)"

definition disk_warnings :: "preflight_disk \<Rightarrow> probe_warning list" where
  "disk_warnings disk =
     (case pd_requiredBytes disk of
        None \<Rightarrow> []
      | Some required \<Rightarrow>
          if pd_status disk \<noteq> DiskAvailable then [RequiredDiskSpaceUnavailable]
          else (case pd_availableBytes disk of
                  None \<Rightarrow> []
                | Some available \<Rightarrow> if available < required then [RequiredDiskSpaceInsufficient] else []))"

definition preflight_warnings ::
  "docker_facts \<Rightarrow> compose_config \<Rightarrow> preflight_intent \<Rightarrow> port_result list \<Rightarrow> containers_result \<Rightarrow> preflight_disk
    \<Rightarrow> probe_warning list" where
  "preflight_warnings docker config intent ports containers disk =
     appendDockerWarnings docker []
     @ (if config = ComposeFileInvalid then [ComposeConfigInvalid] else [])
     @ (if config = ComposeFileUnavailable then [ComposeConfigUnavailable] else [])
     @ (if list_ex (\<lambda>entry. pt_observation entry = ObservationUnknown) ports then [PortStateUnknown] else [])
     @ (if list_ex (\<lambda>entry. isPortConflict entry intent) ports then [PortListenerObserved] else [])
     @ (if cs_status containers = ContainersUnavailable then [ContainerStateUnavailable] else [])
     @ (if list_ex (\<lambda>entry. ct_health entry = HealthUnhealthy) (cs_items containers) then [ContainerUnhealthy] else [])
     @ (if list_ex (\<lambda>entry. ct_health entry = HealthStarting) (cs_items containers) then [ContainerStarting] else [])
     @ (if cs_truncated containers then [ContainerListTruncated] else [])
     @ disk_warnings disk"

definition parseDockerPreflight :: "probe_fields \<Rightarrow> preflight_result parsed" where
  "parseDockerPreflight flds =
     and_then (readPlatform flds) (\<lambda>reportedPlatform.
     and_then (readDockerFacts flds) (\<lambda>docker.
     and_then (requiredEnum flds ''preflight.intent''
       [(''create'', IntentCreate), (''update'', IntentUpdate), (''inspect'', IntentInspect)]) (\<lambda>intent.
     and_then (requiredBoolean flds ''compose.requested'') (\<lambda>requested.
     and_then (requiredEnum flds ''compose.config''
       [(''valid'', ComposeFileValid), (''invalid'', ComposeFileInvalid), (''unavailable'', ComposeFileUnavailable),
        (''not-requested'', ComposeFileNotRequested)]) (\<lambda>config.
     and_then (guard_else (requested \<noteq> (config = ComposeFileNotRequested))
       ''Compose request and config status disagree'') (\<lambda>_.
     and_then (readPorts flds) (\<lambda>ports.
     and_then (readContainers flds) (\<lambda>containers.
     and_then (guard_else (\<not> (list_ex (\<lambda>entry. pt_ownership entry = RequestedProject
           \<or> pt_ownership entry = OtherContainer) ports \<and> \<not> df_daemonReachable docker))
       ''Container port ownership requires a reachable daemon'') (\<lambda>_.
     and_then (guard_else (\<not> (list_ex (\<lambda>entry. pt_ownership entry = RequestedProject) ports
           \<and> cs_filter containers = None))
       ''Requested-project port ownership requires a project filter'') (\<lambda>_.
     and_then (readPreflightDisk flds) (\<lambda>disk.
     Inr \<lparr>pf_intent = intent, pf_reportedPlatform = reportedPlatform,
       pf_overall = deriveOverall docker config intent ports containers disk,
       pf_docker = docker, pf_composeRequested = requested, pf_composeConfig = config, pf_ports = ports,
       pf_containers = containers, pf_disk = disk,
       pf_warnings = preflight_warnings docker config intent ports containers disk\<rparr>)))))))))))"

definition parseFixedProbeOutput :: "probe_kind \<Rightarrow> bytes \<Rightarrow> probe_result parsed" where
  "parseFixedProbeOutput kind byts =
     and_then (parseFrame kind byts) (\<lambda>flds.
     case kind of
       TargetInfo \<Rightarrow> and_then (parseTargetInfo flds) (\<lambda>r. Inr (TargetInfoResult r))
     | DockerPreflight \<Rightarrow> and_then (parseDockerPreflight flds) (\<lambda>r. Inr (PreflightResult r)))"

section \<open>Frames and their fields\<close>

text \<open>The text a probe prints for its fields, and what the reader demands of fields.\<close>

definition field_line :: "string \<times> string \<Rightarrow> string" where
  "field_line kv = fst kv @ '':'' @ base64 (buffer_from (snd kv))"

definition encode_frame :: "probe_kind \<Rightarrow> probe_fields \<Rightarrow> string" where
  "encode_frame kind flds = concat (map (\<lambda>l. l @ [newline]) (frame_header kind # map field_line flds @ [PROBE_END]))"

definition text_value :: "string \<Rightarrow> bool" where
  "text_value v \<longleftrightarrow> v \<noteq> [] \<and> valid_utf8 (buffer_from v) \<and> \<not> list_ex is_control v"

definition frame_field :: "string \<times> string \<Rightarrow> bool" where
  "frame_field kv \<longleftrightarrow> KEY_PATTERN (fst kv) \<and> text_value (snd kv) \<and> length (field_line kv) \<le> MAX_ENCODED_FIELD_BYTES"

subsection \<open>Base64\<close>

lemma base64_letters: "list_all base64_letter base64_alphabet"
  by code_simp

lemma letter_nth: "i < 64 \<Longrightarrow> base64_letter (base64_alphabet ! i)"
  using base64_letters by (simp add: list_all_length length_alphabets)

lemma canonical_encoded:
  "\<forall>x \<in> set xs. x < 256 \<Longrightarrow>
   CANONICAL_BASE64_PATTERN (map (\<lambda>i. base64_alphabet ! i) (sextets xs) @ base64_pad (length xs))"
proof (induction xs rule: sextets.induct)
  case (4 a b c xs)
  then have "CANONICAL_BASE64_PATTERN (map (\<lambda>i. base64_alphabet ! i) (sextets xs) @ base64_pad (length xs))" by simp
  moreover have "base64_pad (length (a # b # c # xs)) = base64_pad (length xs)"
    by (simp add: base64_pad_def mod_Suc)
  moreover have "\<forall>y \<in> set (sextets (a # b # c # xs)). y < 64" using sextets_bound [OF 4(2)] .
  ultimately show ?case by (simp add: letter_nth)
next
  case (2 a)
  then have "\<forall>y \<in> set (sextets [a]). y < 64" using sextets_bound by blast
  then show ?case by (simp add: letter_nth base64_pad_def)
next
  case (3 a b)
  then have "\<forall>y \<in> set (sextets [a, b]). y < 64" using sextets_bound by blast
  then show ?case by (simp add: letter_nth base64_pad_def)
qed (simp add: base64_pad_def)

lemma canonical_base64: "CANONICAL_BASE64_PATTERN (base64 bs)"
  using canonical_encoded [OF unat_byte_bound, of bs] by (simp add: base64_def)

lemma base64_empty [simp]: "base64 bs = [] \<longleftrightarrow> bs = []"
  using from_base64_base64 [of bs] from_base64_base64 [of "[]"] by (auto simp: base64_def base64_pad_def)

lemma base64_char_ascii: "base64_char c \<Longrightarrow> c \<le> CHR 0x7F"
  by (auto simp: base64_char_def ascii_alnum)

lemma ascii_base64: "ascii (base64 bs)"
  using base64_chars base64_char_ascii by (auto simp: ascii_def list_all_iff)

subsection \<open>Lengths\<close>

lemma ascii_code: "c \<le> CHR 0x7F \<longleftrightarrow> (of_char c :: nat) < 128"
  by (auto simp: less_eq_char_def)

lemma utf16_length_ascii: "ascii s \<Longrightarrow> utf16_length s = length s"
  by (induction s) (auto simp: utf16_length_def ascii_def ascii_code)

subsection \<open>One field\<close>

lemma buffer_from_chars [simp]: "buffer_from (map char_of_byte bs) = bs"
proof -
  have "of_char (char_of_byte b) = b" for b :: byte
  proof -
    have "unat (of_char c :: byte) = (of_char c :: nat)" for c
      by (cases c) (auto simp: of_char_Char unat_of_nat)
    moreover have "(of_char (char_of_byte b) :: nat) = unat b"
      using unsigned_less [of b, where 'a = nat] by (simp add: char_of_byte_def)
    ultimately show ?thesis by (intro unsigned_word_eqI [where 'a = nat]) simp
  qed
  then show ?thesis by (simp add: buffer_from_def map_idI)
qed

lemma buffer_from_empty [simp]: "buffer_from s = [] \<longleftrightarrow> s = []"
  by (simp add: buffer_from_def)

lemma decode_iff:
  "decodeCanonicalBase64 encoded = Inr v \<longleftrightarrow>
   encoded = base64 (buffer_from v) \<and> text_value v \<and> length encoded \<le> MAX_ENCODED_FIELD_BYTES"
proof
  assume "decodeCanonicalBase64 encoded = Inr v"
  then have *: "utf16_length encoded \<noteq> 0" "utf16_length encoded \<le> MAX_ENCODED_FIELD_BYTES"
      "base64 (from_base64 encoded) = encoded" "valid_utf8 (from_base64 encoded)"
      "\<not> list_ex is_control v" "v = map char_of_byte (from_base64 encoded)"
    by (auto simp: decodeCanonicalBase64_def result_elims Let_def)
  have "utf16_length encoded = length encoded"
    using ascii_base64 [of "from_base64 encoded"] *(3) by (simp add: utf16_length_ascii)
  moreover have "buffer_from v = from_base64 encoded" using *(6) by simp
  moreover have "v \<noteq> []" using *(1,3,6) by (auto simp: utf16_length_ascii [OF ascii_base64])
  ultimately show "encoded = base64 (buffer_from v) \<and> text_value v \<and> length encoded \<le> MAX_ENCODED_FIELD_BYTES"
    using * by (auto simp: text_value_def)
next
  assume "encoded = base64 (buffer_from v) \<and> text_value v \<and> length encoded \<le> MAX_ENCODED_FIELD_BYTES"
  then show "decodeCanonicalBase64 encoded = Inr v"
    by (auto simp: decodeCanonicalBase64_def text_value_def utf16_length_ascii [OF ascii_base64]
        canonical_base64 from_base64_base64 char_of_byte_buffer)
qed

lemma split_on_cover: "c \<in> set s \<Longrightarrow> p c \<or> (\<exists>x \<in> set (split_on p s). c \<in> set x)"
  by (induction s) (auto split: list.splits)

lemma join_split: "join_with [a] (split_on (\<lambda>c. c = a) s) = s"
proof (induction s)
  case (Cons c s)
  obtain x xs where x: "split_on (\<lambda>c. c = a) s = x # xs" by (cases "split_on (\<lambda>c. c = a) s") auto
  with Cons show ?case by (cases xs) auto
qed simp

lemma key_chars: "KEY_PATTERN key \<Longrightarrow> c \<in> set key \<Longrightarrow> is_alnum c \<or> c = CHR ''.''"
  using split_on_cover [of c key "\<lambda>c. c = CHR ''.''"]
  by (auto simp: KEY_PATTERN_def dot_parts_def list_all_iff is_alnum_def is_alpha_def split: list.splits)

lemma key_no_colon: "KEY_PATTERN key \<Longrightarrow> CHR '':'' \<notin> set key"
  using key_chars [of key "CHR '':''"] by (auto simp: is_alnum_def is_alpha_def is_upper_def is_lower_def is_digit_def)

lemma line_parts:
  "takeWhile (\<lambda>c. c \<noteq> CHR '':'') line = key \<and> dropWhile (\<lambda>c. c \<noteq> CHR '':'') line \<noteq> []
     \<and> tl (dropWhile (\<lambda>c. c \<noteq> CHR '':'') line) = encoded
   \<longleftrightarrow> line = key @ '':'' @ encoded \<and> CHR '':'' \<notin> set key"
proof (induction line arbitrary: key)
  case (Cons a line)
  then show ?case by (cases key) auto
qed simp

lemma parse_line_iff:
  assumes "parse_fields flds (line # lines) = Inr r"
  obtains kv where "line = field_line kv" "frame_field kv" "map_of flds (fst kv) = None"
    "parse_fields (flds @ [kv]) lines = Inr r"
proof -
  let ?key = "takeWhile (\<lambda>c. c \<noteq> CHR '':'') line" and ?rest = "dropWhile (\<lambda>c. c \<noteq> CHR '':'') line"
  from assms obtain v where *: "length line \<le> MAX_ENCODED_FIELD_BYTES" "?rest \<noteq> []" "KEY_PATTERN ?key"
      "map_of flds ?key = None" "decodeCanonicalBase64 (tl ?rest) = Inr v"
      "parse_fields (AList.update ?key v flds) lines = Inr r"
    by (auto simp: result_elims Let_def)
  then have "line = ?key @ '':'' @ tl ?rest" using line_parts [of line ?key "tl ?rest"] by blast
  moreover have "tl ?rest = base64 (buffer_from v)" "text_value v" using *(5) by (simp_all add: decode_iff)
  ultimately have "line = field_line (?key, v)" by (simp add: field_line_def)
  moreover from this have "frame_field (?key, v)" using * \<open>text_value v\<close> by (simp add: frame_field_def)
  moreover have "parse_fields (flds @ [(?key, v)]) lines = Inr r" using *(4,6) by (simp add: update_new_append)
  ultimately show ?thesis using that [of "(?key, v)"] *(4) by simp
qed

lemma parse_field_line:
  assumes "frame_field kv" "map_of flds (fst kv) = None"
  shows "parse_fields flds (field_line kv # lines) = parse_fields (flds @ [kv]) lines"
proof -
  let ?line = "field_line kv"
  have *: "takeWhile (\<lambda>c. c \<noteq> CHR '':'') ?line = fst kv" "dropWhile (\<lambda>c. c \<noteq> CHR '':'') ?line \<noteq> []"
      "tl (dropWhile (\<lambda>c. c \<noteq> CHR '':'') ?line) = base64 (buffer_from (snd kv))"
    using line_parts [of ?line "fst kv" "base64 (buffer_from (snd kv))"] assms(1) key_no_colon
    by (auto simp: field_line_def frame_field_def)
  have "fst kv \<noteq> []" using assms(1) by (auto simp: frame_field_def KEY_PATTERN_def dot_parts_def)
  moreover have "decodeCanonicalBase64 (base64 (buffer_from (snd kv))) = Inr (snd kv)"
    using assms(1) by (auto simp: decode_iff frame_field_def field_line_def)
  ultimately show ?thesis using assms * by (simp add: Let_def frame_field_def update_new_append del: dropWhile_eq_Nil_conv)
qed

lemma parse_fields_iff:
  "distinct (map fst flds) \<Longrightarrow>
   parse_fields flds lines = Inr r \<longleftrightarrow>
   (\<exists>new. r = flds @ new \<and> lines = map field_line new \<and> list_all frame_field new \<and> distinct (map fst r))"
proof (induction lines arbitrary: flds)
  case Nil
  then show ?case by auto
next
  case (Cons line lines)
  show ?case
  proof
    assume "parse_fields flds (line # lines) = Inr r"
    then obtain kv where kv: "line = field_line kv" "frame_field kv" "map_of flds (fst kv) = None"
        "parse_fields (flds @ [kv]) lines = Inr r" by (rule parse_line_iff)
    have "distinct (map fst (flds @ [kv]))" using Cons.prems kv(3) by (auto simp: map_of_eq_None_iff)
    from Cons.IH [OF this] kv(4) obtain new where "r = (flds @ [kv]) @ new" "lines = map field_line new"
        "list_all frame_field new" "distinct (map fst r)" by blast
    then show "\<exists>new. r = flds @ new \<and> line # lines = map field_line new \<and> list_all frame_field new \<and> distinct (map fst r)"
      using kv(1,2) by (intro exI [of _ "kv # new"]) simp
  next
    assume "\<exists>new. r = flds @ new \<and> line # lines = map field_line new \<and> list_all frame_field new \<and> distinct (map fst r)"
    then obtain kv new where *: "r = flds @ kv # new" "line = field_line kv" "lines = map field_line new"
        "frame_field kv" "list_all frame_field new" "distinct (map fst r)" by (auto simp: Cons_eq_map_conv)
    then have "map_of flds (fst kv) = None" "distinct (map fst (flds @ [kv]))" by (auto simp: map_of_eq_None_iff)
    with parse_field_line [OF *(4)] Cons.IH * show "parse_fields flds (line # lines) = Inr r" by auto
  qed
qed

subsection \<open>The frame\<close>

definition frame_ok :: "probe_kind \<Rightarrow> probe_fields \<Rightarrow> bool" where
  "frame_ok kind flds \<longleftrightarrow>
     flds \<noteq> [] \<and> length flds \<le> MAX_PROBE_FIELDS \<and> distinct (map fst flds)
     \<and> list_all (\<lambda>kv. known_key kind (fst kv) \<and> text_value (snd kv) \<and> length (field_line kv) \<le> MAX_ENCODED_FIELD_BYTES) flds"

lemma concat_lines: "ls \<noteq> [] \<Longrightarrow> concat (map (\<lambda>l. l @ [newline]) ls) = join_with [newline] ls @ [newline]"
proof (induction ls)
  case (Cons l ls)
  then show ?case by (cases ls) simp_all
qed simp

lemma lines_iff:
  "(s \<noteq> [] \<and> last s = newline \<and> split_on (\<lambda>c. c = newline) (butlast s) = ls) \<longleftrightarrow>
   ls \<noteq> [] \<and> (\<forall>l \<in> set ls. newline \<notin> set l) \<and> s = concat (map (\<lambda>l. l @ [newline]) ls)"
proof
  assume *: "s \<noteq> [] \<and> last s = newline \<and> split_on (\<lambda>c. c = newline) (butlast s) = ls"
  then have "ls \<noteq> []" "\<forall>l \<in> set ls. newline \<notin> set l" by (auto dest: split_on_chars)
  moreover have "s = butlast s @ [newline]" using * append_butlast_last_id by force
  moreover have "butlast s = join_with [newline] ls" using * join_split [of newline "butlast s"] by simp
  ultimately show "ls \<noteq> [] \<and> (\<forall>l \<in> set ls. newline \<notin> set l) \<and> s = concat (map (\<lambda>l. l @ [newline]) ls)"
    by (simp add: concat_lines)
next
  assume "ls \<noteq> [] \<and> (\<forall>l \<in> set ls. newline \<notin> set l) \<and> s = concat (map (\<lambda>l. l @ [newline]) ls)"
  then show "s \<noteq> [] \<and> last s = newline \<and> split_on (\<lambda>c. c = newline) (butlast s) = ls"
    using split_join [of "\<lambda>c. c = newline" newline ls] by (auto simp: concat_lines)
qed

lemma unix_lines_chars: "c \<in> set raw \<Longrightarrow> c = return_char \<or> c \<in> set (unix_lines raw)"
  by (induction raw rule: unix_lines.induct) auto

lemma key_pattern_dynamic:
  assumes "dot_parts key = [c # cs, index, field]" "canonical_decimal index" "is_lower c" "list_all is_alnum (cs @ field)" "field \<noteq> []"
  shows "KEY_PATTERN key"
  using assms by (simp add: KEY_PATTERN_def canonical_decimal_def list_all_iff is_alnum_def)

lemma dynamic_texts:
  "is_lower CHR ''p''" "is_lower CHR ''c''"
  "list_all is_alnum (''ort'' @ ''protocol'')" "list_all is_alnum (''ort'' @ ''port'')"
  "list_all is_alnum (''ort'' @ ''observation'')" "list_all is_alnum (''ort'' @ ''ownership'')"
  "list_all is_alnum (''ontainer'' @ ''record'')"
  by code_simp+

lemma case_three: "(case xs of [a, b, c] \<Rightarrow> P a b c | _ \<Rightarrow> False) \<longleftrightarrow> (\<exists>a b c. xs = [a, b, c] \<and> P a b c)"
  by (auto split: list.splits)

lemma known_key_pattern: "known_key kind key \<Longrightarrow> KEY_PATTERN key"
proof -
  have "list_all KEY_PATTERN (TARGET_INFO_KEYS @ PREFLIGHT_KEYS)" by code_simp
  then have static: "key \<in> set TARGET_INFO_KEYS \<or> key \<in> set PREFLIGHT_KEYS \<Longrightarrow> KEY_PATTERN key"
    unfolding list_all_iff by auto
  assume "known_key kind key"
  then consider "key \<in> set TARGET_INFO_KEYS \<or> key \<in> set PREFLIGHT_KEYS"
    | index field where "dot_parts key = [''port'', index, field]" "canonical_decimal index"
        "field = ''protocol'' \<or> field = ''port'' \<or> field = ''observation'' \<or> field = ''ownership''"
    | index where "dot_parts key = [''container'', index, ''record'']" "canonical_decimal index"
    unfolding known_key_def case_three by (cases kind) (simp_all only: probe_kind.case insert_iff empty_iff, blast+)
  then show ?thesis
  proof cases
    case 1
    then show ?thesis by (rule static)
  next
    case 2
    then show ?thesis using key_pattern_dynamic [OF 2(1,2) dynamic_texts(1)] dynamic_texts(3-6) by blast
  next
    case 3
    then show ?thesis by (rule key_pattern_dynamic [OF _ _ dynamic_texts(2,7)]) simp
  qed
qed

lemma frame_texts:
  "newline \<notin> set (frame_header kind)" "newline \<notin> set PROBE_END" "frame_header kind \<noteq> PROBE_END"
  "ascii (frame_header kind)" "ascii PROBE_END"
  by (cases kind; simp add: frame_header_def FIXED_PROBE_OUTPUT_PROTOCOL_def probe_name_def PROBE_END_def ascii_def less_eq_char_def)+

lemma field_line_chars: "KEY_PATTERN (fst kv) \<Longrightarrow> c \<in> set (field_line kv) \<Longrightarrow> c \<noteq> newline \<and> c \<le> CHR 0x7F"
proof -
  have *: "is_alnum c \<Longrightarrow> c \<noteq> newline" for c by (auto simp: is_alnum_def is_alpha_def is_upper_def is_lower_def is_digit_def)
  assume "KEY_PATTERN (fst kv)" "c \<in> set (field_line kv)"
  then have "is_alnum c \<or> c \<in> {CHR ''.'', CHR '':'', CHR ''+'', CHR ''/'', CHR ''=''}"
    by (auto simp: field_line_def base64_char_def dest!: key_chars base64_chars)
  then show ?thesis by (auto dest: * ascii_alnum)
qed

lemma frame_ok_fields: "frame_ok kind flds \<Longrightarrow> list_all frame_field flds"
  by (auto simp: frame_ok_def frame_field_def list_all_iff known_key_pattern)

lemma frame_lines_iff:
  "hd lines = frame_header kind \<and> last lines = PROBE_END \<and> butlast (tl lines) = fl \<and> lines \<noteq> []
   \<longleftrightarrow> lines = frame_header kind # fl @ [PROBE_END]"
proof (cases lines)
  case (Cons a ls)
  then show ?thesis using frame_texts(3) [of kind] by (cases ls rule: rev_cases) auto
qed simp

lemma encode_frame_ascii:
  assumes "list_all frame_field flds"
  shows "ascii (encode_frame kind flds)"
  using assms frame_texts(4,5) field_line_chars
  by (fastforce simp: encode_frame_def ascii_def list_all_iff frame_field_def)

lemma parse_fields_start:
  "parse_fields [] lines = Inr r \<longleftrightarrow> lines = map field_line r \<and> list_all frame_field r \<and> distinct (map fst r)"
  using parse_fields_iff [of "[]" lines r] by auto

lemma parseFrame_steps:
  "parseFrame kind byts = Inr flds \<longleftrightarrow>
   (let raw = map char_of_byte byts; s = unix_lines raw; lines = split_on (\<lambda>c. c = newline) (butlast s) in
    byts \<noteq> [] \<and> length byts \<le> MAX_FIXED_PROBE_OUTPUT_BYTES \<and> valid_utf8 byts \<and> \<not> bare_return raw
    \<and> (s \<noteq> [] \<and> last s = newline) \<and> (hd lines = frame_header kind \<and> last lines = PROBE_END)
    \<and> butlast (tl lines) \<noteq> [] \<and> length (butlast (tl lines)) \<le> MAX_PROBE_FIELDS
    \<and> parse_fields [] (butlast (tl lines)) = Inr flds \<and> list_all (known_key kind) (map fst flds))"
  by (auto simp: parseFrame_def result_elims assertKnownKeys_def Let_def)

lemma parseFrame_iff:
  "parseFrame kind byts = Inr flds \<longleftrightarrow>
   length byts \<le> MAX_FIXED_PROBE_OUTPUT_BYTES \<and> \<not> bare_return (map char_of_byte byts)
   \<and> unix_lines (map char_of_byte byts) = encode_frame kind flds \<and> frame_ok kind flds"
proof
  let ?s = "unix_lines (map char_of_byte byts)"
  let ?lines = "split_on (\<lambda>c. c = newline) (butlast ?s)"
  assume "parseFrame kind byts = Inr flds"
  then have *: "length byts \<le> MAX_FIXED_PROBE_OUTPUT_BYTES" "\<not> bare_return (map char_of_byte byts)"
      "?s \<noteq> []" "last ?s = newline" "hd ?lines = frame_header kind" "last ?lines = PROBE_END"
      "butlast (tl ?lines) \<noteq> []" "length (butlast (tl ?lines)) \<le> MAX_PROBE_FIELDS"
      "parse_fields [] (butlast (tl ?lines)) = Inr flds" "list_all (known_key kind) (map fst flds)"
    unfolding parseFrame_steps Let_def by blast+
  have fl: "butlast (tl ?lines) = map field_line flds" "list_all frame_field flds" "distinct (map fst flds)"
    using *(9) unfolding parse_fields_start by blast+
  have "?lines = frame_header kind # map field_line flds @ [PROBE_END]"
    using *(5,6) fl(1) frame_lines_iff [of ?lines kind "map field_line flds"] by simp
  then have "?s = encode_frame kind flds"
    using *(3,4) lines_iff [of ?s "frame_header kind # map field_line flds @ [PROBE_END]"] by (simp add: encode_frame_def)
  moreover have "frame_ok kind flds"
    using * fl by (auto simp: frame_ok_def frame_field_def list_all_iff)
  ultimately show "length byts \<le> MAX_FIXED_PROBE_OUTPUT_BYTES \<and> \<not> bare_return (map char_of_byte byts)
      \<and> ?s = encode_frame kind flds \<and> frame_ok kind flds" using *(1,2) by blast
next
  let ?s = "unix_lines (map char_of_byte byts)"
  let ?ls = "frame_header kind # map field_line flds @ [PROBE_END]"
  assume *: "length byts \<le> MAX_FIXED_PROBE_OUTPUT_BYTES \<and> \<not> bare_return (map char_of_byte byts)
      \<and> ?s = encode_frame kind flds \<and> frame_ok kind flds"
  then have ff: "list_all frame_field flds" using frame_ok_fields by blast
  then have "\<forall>l \<in> set ?ls. newline \<notin> set l"
    using frame_texts(1,2) by (auto simp: frame_field_def list_all_iff dest: field_line_chars [rotated])
  then have ls: "?s \<noteq> []" "last ?s = newline" "split_on (\<lambda>c. c = newline) (butlast ?s) = ?ls"
    using * lines_iff [of ?s ?ls] by (simp_all add: encode_frame_def)
  have "ascii (map char_of_byte byts)"
    using encode_frame_ascii [OF ff] * unix_lines_chars [of _ "map char_of_byte byts"] by (fastforce simp: ascii_def list_all_iff)
  then have "valid_utf8 byts" using ascii_valid [OF ascii_bytes, of "map char_of_byte byts"] by simp
  moreover have "byts \<noteq> []" using ls(1) by auto
  moreover have "parse_fields [] (map field_line flds) = Inr flds"
    using ff * by (simp add: parse_fields_start frame_ok_def)
  ultimately show "parseFrame kind byts = Inr flds"
    unfolding parseFrame_steps Let_def ls(3) using * ls(1,2) by (simp add: frame_ok_def list_all_iff)
qed

section \<open>Well-formed results\<close>

definition docker_facts_ok :: "docker_facts \<Rightarrow> bool" where
  "docker_facts_ok d \<longleftrightarrow>
     (df_daemonReachable d \<longrightarrow> df_installed d \<and> df_serverVersion d \<noteq> None)
     \<and> (df_clientVersion d \<noteq> None \<or> df_serverVersion d \<noteq> None \<longrightarrow> df_installed d)
     \<and> (df_contextName d = None \<longleftrightarrow> df_contextScope d = None)
     \<and> (df_contextName d \<noteq> None \<longrightarrow> df_daemonReachable d)
     \<and> (cf_installed (df_compose d) \<longleftrightarrow> cf_provider (df_compose d) \<noteq> None)
     \<and> (cf_version (df_compose d) \<noteq> None \<longrightarrow> cf_installed (df_compose d))
     \<and> (case df_contextName d of None \<Rightarrow> True | Some c \<Rightarrow> SAFE_DOCKER_CONTEXT_PATTERN c)"

definition port_ok :: "port_result \<Rightarrow> bool" where
  "port_ok p \<longleftrightarrow> 1 \<le> pt_port p \<and> pt_port p \<le> 65535 \<and> (pt_ownership p = HostProcess \<longrightarrow> pt_observation p = ListenerObserved)"

definition ports_ok :: "port_result list \<Rightarrow> bool" where
  "ports_ok ports \<longleftrightarrow>
     length ports \<le> 64 \<and> list_all port_ok ports \<and> distinct (map (\<lambda>p. (pt_protocol p, pt_port p)) ports)"

definition container_ok :: "container_result \<Rightarrow> bool" where
  "container_ok c \<longleftrightarrow>
     SAFE_CONTAINER_NAME_PATTERN (ct_name c)
     \<and> (case ct_service c of None \<Rightarrow> True | Some s \<Rightarrow> SAFE_SERVICE_NAME_PATTERN s)"

definition containers_ok :: "containers_result \<Rightarrow> bool" where
  "containers_ok c \<longleftrightarrow>
     length (cs_items c) \<le> 100 \<and> list_all container_ok (cs_items c)
     \<and> (cs_status c \<noteq> ContainersOk \<longrightarrow> cs_items c = [] \<and> \<not> cs_truncated c)
     \<and> (cs_status c = ContainersNotRequested \<longleftrightarrow> cs_filter c = None)
     \<and> (case cs_filter c of None \<Rightarrow> True | Some f \<Rightarrow> COMPOSE_PROJECT_FILTER_PATTERN f)"

definition size_ok :: "int \<Rightarrow> bool" where
  "size_ok n \<longleftrightarrow> 0 \<le> n \<and> n \<le> max_safe_integer"

definition preflight_disk_ok :: "preflight_disk \<Rightarrow> bool" where
  "preflight_disk_ok d \<longleftrightarrow>
     (case (pd_status d = DiskAvailable, pd_path d, pd_totalBytes d, pd_availableBytes d) of
        (True, Some _, Some whole, Some free) \<Rightarrow> free \<le> whole \<and> size_ok free \<and> size_ok whole
      | (False, None, None, None) \<Rightarrow> True
      | _ \<Rightarrow> False)
     \<and> (case pd_requiredBytes d of None \<Rightarrow> True | Some n \<Rightarrow> size_ok n)"

definition target_info_ok :: "target_info_result \<Rightarrow> bool" where
  "target_info_ok r \<longleftrightarrow>
     docker_facts_ok (ti_docker r)
     \<and> (case ti_nativeMachineId r of None \<Rightarrow> True | Some n \<Rightarrow> isNativeMachineId (ti_reportedPlatform r) n \<and> to_lower n = n)
     \<and> (case ti_hostname r of None \<Rightarrow> True | Some h \<Rightarrow> HOSTNAME_PATTERN h)
     \<and> (case ti_disk r of None \<Rightarrow> True
        | Some d \<Rightarrow> 0 \<le> di_availableBytes d \<and> di_availableBytes d \<le> di_totalBytes d \<and> size_ok (di_totalBytes d))
     \<and> (MachineIdUnavailable \<in> set (ti_warnings r) \<longleftrightarrow> ti_nativeMachineId r = None)
     \<and> distinct (ti_warnings r)"

definition preflight_ok :: "preflight_result \<Rightarrow> bool" where
  "preflight_ok r \<longleftrightarrow>
     docker_facts_ok (pf_docker r) \<and> ports_ok (pf_ports r) \<and> containers_ok (pf_containers r) \<and> preflight_disk_ok (pf_disk r)
     \<and> (pf_composeRequested r \<longleftrightarrow> pf_composeConfig r \<noteq> ComposeFileNotRequested)
     \<and> (\<not> df_daemonReachable (pf_docker r) \<longrightarrow>
          list_all (\<lambda>p. pt_ownership p \<noteq> RequestedProject \<and> pt_ownership p \<noteq> OtherContainer) (pf_ports r))
     \<and> (cs_filter (pf_containers r) = None \<longrightarrow> list_all (\<lambda>p. pt_ownership p \<noteq> RequestedProject) (pf_ports r))
     \<and> distinct (pf_warnings r)"

lemma requiredSafeInteger_range:
  "requiredSafeInteger flds key hi lo = Inr n \<Longrightarrow> lo \<le> n \<and> n \<le> hi \<and> 0 \<le> n \<and> n \<le> max_safe_integer"
  by (auto simp: requiredSafeInteger_def result_elims Let_def is_safe_integer_def)

lemma optionalSafeInteger_range: "optionalSafeInteger flds key = Inr (Some n) \<Longrightarrow> size_ok n"
  by (auto simp: optionalSafeInteger_def result_elims size_ok_def dest!: requiredSafeInteger_range split: if_splits)

lemma optionalText_pattern: "optionalText flds key n pattern = Inr (Some v) \<Longrightarrow> pattern v"
  by (auto simp: optionalText_def result_elims assertText_def split: option.splits)

lemma optionalText_case:
  "optionalText flds key n pattern = Inr v \<Longrightarrow> (case v of None \<Rightarrow> True | Some s \<Rightarrow> pattern s)"
  by (cases v) (auto dest: optionalText_pattern)

lemma readDockerFacts_ok: "readDockerFacts flds = Inr d \<Longrightarrow> docker_facts_ok d"
  unfolding readDockerFacts_def and_then_eq_Inr if_Inl_eq
  by (elim exE conjE, drule optionalText_case [where pattern = SAFE_DOCKER_CONTEXT_PATTERN],
      clarsimp simp: docker_facts_ok_def simp del: not_None_eq, blast)

lemma readPort_ok: "readPort flds i = Inr p \<Longrightarrow> port_ok p"
  by (auto simp: readPort_def result_elims port_ok_def dest!: requiredSafeInteger_range)

lemma read_ports_ok:
  "read_ports flds seen ports is = Inr r \<Longrightarrow> list_all port_ok ports \<Longrightarrow> seen = rev (map port_identity ports)
   \<Longrightarrow> distinct (map port_identity ports)
   \<Longrightarrow> length r = length ports + length is \<and> list_all port_ok r \<and> distinct (map port_identity r)"
  by (induction flds seen ports "is" rule: read_ports.induct) (auto simp: result_elims dest!: readPort_ok)

lemma identity_pairs: "distinct (map port_identity ps) \<Longrightarrow> distinct (map (\<lambda>p. (pt_protocol p, pt_port p)) ps)"
  by (simp add: distinct_map) (auto simp: inj_on_def port_identity_def)

lemma readPorts_ok: "readPorts flds = Inr ports \<Longrightarrow> ports_ok ports"
  by (auto simp: readPorts_def and_then_eq_Inr ports_ok_def dest!: requiredSafeInteger_range read_ports_ok intro: identity_pairs)

lemma case_four: "(case xs of [a, b, c, d] \<Rightarrow> P a b c d | _ \<Rightarrow> Inl e) = Inr y \<longleftrightarrow> (\<exists>a b c d. xs = [a, b, c, d] \<and> P a b c d = Inr y)"
  by (auto split: list.splits)

lemma readContainer_ok: "readContainer flds i = Inr c \<Longrightarrow> container_ok c"
  unfolding readContainer_def Let_def result_elims case_four by (elim exE conjE) (auto simp: container_ok_def)

lemma read_containers_ok:
  "read_containers flds items is = Inr r \<Longrightarrow> list_all container_ok items
   \<Longrightarrow> length r = length items + length is \<and> list_all container_ok r"
  by (induction flds items "is" rule: read_containers.induct) (auto simp: result_elims dest!: readContainer_ok)

lemma readContainers_ok: "readContainers flds = Inr c \<Longrightarrow> containers_ok c"
  by (auto simp: readContainers_def result_elims containers_ok_def
      dest!: requiredSafeInteger_range read_containers_ok optionalText_case)

lemma readPreflightDisk_ok: "readPreflightDisk flds = Inr d \<Longrightarrow> preflight_disk_ok d"
  by (auto simp: readPreflightDisk_def result_elims preflight_disk_ok_def
      dest!: optionalSafeInteger_range split: if_splits option.splits)

text \<open>Lower case keeps an identifier valid.\<close>

lemma is_hex_code: "is_hex c \<longleftrightarrow> (48 \<le> (of_char c :: nat) \<and> (of_char c :: nat) \<le> 57)
  \<or> (65 \<le> (of_char c :: nat) \<and> (of_char c :: nat) \<le> 70) \<or> (97 \<le> (of_char c :: nat) \<and> (of_char c :: nat) \<le> 102)"
  by (simp add: is_hex_def char_code_simps less_eq_char_def)

lemma lower_char_keeps:
  "is_hex c \<Longrightarrow> is_hex (lower_char c)" "lower_char (lower_char c) = lower_char c"
  "lower_char c = CHR ''0'' \<longleftrightarrow> c = CHR ''0''" "lower_char c = CHR ''-'' \<longleftrightarrow> c = CHR ''-''"
  by (auto simp: is_hex_code lower_char_code char_code_simps simp flip: of_char_eq_iff [where 'a = nat])

lemma split_on_map: "(\<And>c. p (f c) = p c) \<Longrightarrow> split_on p (map f s) = map (map f) (split_on p s)"
  by (induction s) (auto split: list.splits)

lemma isNativeMachineId_lower: "isNativeMachineId platform n \<Longrightarrow> isNativeMachineId platform (to_lower n)"
  unfolding isNativeMachineId_def to_lower_def Let_def
  by (auto simp: split_on_map lower_char_keeps list_all_iff comp_def split: if_splits)

lemma to_lower_idem: "to_lower (to_lower s) = to_lower s"
  by (simp add: to_lower_def lower_char_keeps)

lemma readCompleteDisk_ok:
  assumes "readCompleteDisk flds = Inr (Some d)"
  shows "0 \<le> di_availableBytes d \<and> di_availableBytes d \<le> di_totalBytes d \<and> size_ok (di_totalBytes d)"
proof -
  from assms obtain path whole free where
    "optionalSafeInteger flds ''disk.totalBytes'' = Inr whole" "optionalSafeInteger flds ''disk.availableBytes'' = Inr free"
    "(case (path, whole, free) of (None, None, None) \<Rightarrow> Inr None
      | (Some path, Some totalBytes, Some availableBytes) \<Rightarrow>
         if availableBytes > totalBytes then Inl ''Probe returned impossible disk information''
         else Inr (Some \<lparr>di_path = path, di_totalBytes = totalBytes, di_availableBytes = availableBytes\<rparr>)
      | _ \<Rightarrow> Inl ''Probe returned incomplete disk information'') = Inr (Some d)"
    unfolding readCompleteDisk_def and_then_eq_Inr by blast
  then show ?thesis
    by (cases path; cases whole; cases free) (auto simp: size_ok_def dest!: optionalSafeInteger_range split: if_splits)
qed

text \<open>Warnings that are pushed under a condition.\<close>

lemma pushed_in [simp]: "x \<in> set (if c then [y] else []) \<longleftrightarrow> c \<and> x = y"
  by (cases c) auto

lemma pushed_distinct [simp]:
  "distinct ((if c then [x] else []) @ ys) \<longleftrightarrow> (c \<longrightarrow> x \<notin> set ys) \<and> distinct ys"
  by (cases c) auto

lemma pushed_one [simp]: "distinct (if c then [x] else [])"
  by (cases c) auto

lemma docker_warnings_pushed:
  "appendDockerWarnings d ws =
   ws @ (if \<not> df_installed d then [DockerNotInstalled] else [])
   @ (if df_installed d \<and> \<not> df_daemonReachable d then [DockerDaemonUnreachable] else [])
   @ (if df_contextScope d = Some ScopeRemote then [DockerContextRemote] else [])
   @ (if \<not> cf_installed (df_compose d) then [ComposeNotInstalled] else [])"
  by (simp add: appendDockerWarnings_def)

lemma parseTargetInfo_ok:
  assumes "parseTargetInfo flds = Inr r"
  shows "target_info_ok r"
proof -
  from assms obtain plat nid host os disk docker where
    *: "case nid of None \<Rightarrow> True | Some n \<Rightarrow> isNativeMachineId plat n"
       "optionalText flds ''machine.hostname'' 255 HOSTNAME_PATTERN = Inr host" "readCompleteDisk flds = Inr disk"
       "readDockerFacts flds = Inr docker"
    and r: "r = \<lparr>ti_reportedPlatform = plat, ti_nativeMachineId = map_option normalizeNativeId nid,
       ti_hostname = host, ti_os = os, ti_disk = disk, ti_docker = docker,
       ti_warnings = appendDockerWarnings docker
         ((if nid = None then [MachineIdUnavailable] else []) @ (if host = None then [HostnameUnavailable] else [])
          @ (if os_name os = None \<or> os_version os = None then [OsInfoPartial] else [])
          @ (if disk = None then [DiskInfoUnavailable] else []))\<rparr>"
    unfolding parseTargetInfo_def result_elims Let_def by (elim exE conjE) (metis Inr_inject)
  have "distinct (ti_warnings r)"
    by (simp add: r docker_warnings_pushed del: not_None_eq distinct_append split del: if_split)
  moreover have "MachineIdUnavailable \<in> set (ti_warnings r) \<longleftrightarrow> nid = None"
    by (simp add: r appendDockerWarnings_def)
  moreover have "case host of None \<Rightarrow> True | Some h \<Rightarrow> HOSTNAME_PATTERN h"
    using *(2) by (auto split: option.split dest: optionalText_pattern)
  moreover have "case disk of None \<Rightarrow> True
      | Some d \<Rightarrow> 0 \<le> di_availableBytes d \<and> di_availableBytes d \<le> di_totalBytes d \<and> size_ok (di_totalBytes d)"
    using *(3) by (auto split: option.split dest: readCompleteDisk_ok)
  moreover have "docker_facts_ok docker" using *(4) by (rule readDockerFacts_ok)
  ultimately show ?thesis
    using *(1) by (cases nid) (simp_all add: target_info_ok_def r normalizeNativeId_def isNativeMachineId_lower to_lower_idem)
qed

lemma parseDockerPreflight_parts:
  assumes "parseDockerPreflight flds = Inr r"
  shows "docker_facts_ok (pf_docker r) \<and> ports_ok (pf_ports r) \<and> containers_ok (pf_containers r) \<and> preflight_disk_ok (pf_disk r)"
    and "(pf_composeRequested r \<longleftrightarrow> pf_composeConfig r \<noteq> ComposeFileNotRequested)
      \<and> (\<not> df_daemonReachable (pf_docker r) \<longrightarrow>
           list_all (\<lambda>p. pt_ownership p \<noteq> RequestedProject \<and> pt_ownership p \<noteq> OtherContainer) (pf_ports r))
      \<and> (cs_filter (pf_containers r) = None \<longrightarrow> list_all (\<lambda>p. pt_ownership p \<noteq> RequestedProject) (pf_ports r))"
    and "pf_overall r = deriveOverall (pf_docker r) (pf_composeConfig r) (pf_intent r) (pf_ports r) (pf_containers r) (pf_disk r)"
    and "pf_warnings r = preflight_warnings (pf_docker r) (pf_composeConfig r) (pf_intent r) (pf_ports r) (pf_containers r) (pf_disk r)"
  using assms unfolding parseDockerPreflight_def result_elims
  by (elim exE conjE; auto simp: list_all_iff list_ex_iff readDockerFacts_ok readPorts_ok readContainers_ok readPreflightDisk_ok)+

lemma preflight_warnings_distinct: "distinct (preflight_warnings docker config intent ports containers disk)"
proof -
  have "distinct (disk_warnings disk)" by (simp add: disk_warnings_def split: option.splits)
  moreover have "w \<notin> set (disk_warnings disk)" if "w \<noteq> RequiredDiskSpaceUnavailable" "w \<noteq> RequiredDiskSpaceInsufficient" for w
    using that by (auto simp: disk_warnings_def split: option.splits)
  ultimately show ?thesis
    by (simp add: preflight_warnings_def docker_warnings_pushed del: not_None_eq distinct_append split del: if_split)
qed

lemma parseDockerPreflight_ok: "parseDockerPreflight flds = Inr r \<Longrightarrow> preflight_ok r"
  using parseDockerPreflight_parts [of flds r] preflight_warnings_distinct by (simp add: preflight_ok_def)

section \<open>The verdict of a preflight\<close>

definition blocking_warnings :: "probe_warning list" where
  "blocking_warnings =
     [DockerNotInstalled, DockerDaemonUnreachable, ComposeNotInstalled, ComposeConfigInvalid, ComposeConfigUnavailable,
      PortListenerObserved, ContainerUnhealthy, RequiredDiskSpaceUnavailable, RequiredDiskSpaceInsufficient]"

lemma disk_warnings_missing: "preflight_disk_ok disk \<Longrightarrow> disk_warnings disk \<noteq> [] \<longleftrightarrow> space_missing disk"
  by (auto simp: preflight_disk_ok_def disk_warnings_def space_missing_def split: option.splits if_splits)

lemma disk_warnings_blocking: "set (disk_warnings disk) \<subseteq> set blocking_warnings"
  by (auto simp: disk_warnings_def blocking_warnings_def split: option.splits)

lemma pushed_some [simp]: "list_ex P (if c then [x] else []) \<longleftrightarrow> c \<and> P x"
  by simp

lemma disk_blocking: "preflight_disk_ok disk \<Longrightarrow> list_ex (\<lambda>w. w \<in> set blocking_warnings) (disk_warnings disk) \<longleftrightarrow> space_missing disk"
  using disk_warnings_blocking [of disk] disk_warnings_missing [of disk] by (cases "disk_warnings disk") (auto simp: list_ex_iff)

lemma overall_blocked:
  assumes "preflight_disk_ok disk"
  shows "deriveOverall docker config intent ports containers disk = Blocked \<longleftrightarrow>
    list_ex (\<lambda>w. w \<in> set blocking_warnings) (preflight_warnings docker config intent ports containers disk)"
proof -
  have "deriveOverall docker config intent ports containers disk = Blocked \<longleftrightarrow>
      \<not> df_installed docker \<or> \<not> df_daemonReachable docker \<or> \<not> cf_installed (df_compose docker)
      \<or> config = ComposeFileInvalid \<or> config = ComposeFileUnavailable
      \<or> list_ex (\<lambda>entry. isPortConflict entry intent) ports
      \<or> list_ex (\<lambda>entry. ct_health entry = HealthUnhealthy) (cs_items containers) \<or> space_missing disk"
    by (simp add: deriveOverall_def Let_def)
  moreover have "list_ex (\<lambda>w. w \<in> set blocking_warnings) (preflight_warnings docker config intent ports containers disk) \<longleftrightarrow>
      \<not> df_installed docker \<or> (df_installed docker \<and> \<not> df_daemonReachable docker) \<or> \<not> cf_installed (df_compose docker)
      \<or> config = ComposeFileInvalid \<or> config = ComposeFileUnavailable
      \<or> list_ex (\<lambda>entry. isPortConflict entry intent) ports
      \<or> list_ex (\<lambda>entry. ct_health entry = HealthUnhealthy) (cs_items containers) \<or> space_missing disk"
    unfolding preflight_warnings_def docker_warnings_pushed list_ex_append pushed_some disk_blocking [OF assms]
    by (simp add: blocking_warnings_def) blast
  ultimately show ?thesis by blast
qed

lemma no_push [simp]: "(if c then [x] else []) = [] \<longleftrightarrow> \<not> c"
  by simp

lemma overall_ready:
  assumes "preflight_disk_ok disk"
  shows "deriveOverall docker config intent ports containers disk = Ready \<longleftrightarrow>
    preflight_warnings docker config intent ports containers disk = [] \<and> pd_status disk \<noteq> DiskUnavailable"
  using disk_warnings_missing [OF assms]
  unfolding preflight_warnings_def docker_warnings_pushed append_is_Nil_conv no_push deriveOverall_def Let_def
  by (simp split del: if_split) (auto split: if_splits)

definition probe_result_ok :: "probe_kind \<Rightarrow> probe_result \<Rightarrow> bool" where
  "probe_result_ok kind r \<longleftrightarrow>
     (case r of TargetInfoResult t \<Rightarrow> kind = TargetInfo \<and> target_info_ok t
      | PreflightResult p \<Rightarrow> kind = DockerPreflight \<and> preflight_ok p)"

lemma parseFixedProbeOutput_ok: "parseFixedProbeOutput kind byts = Inr r \<Longrightarrow> probe_result_ok kind r"
  by (cases kind) (auto simp: parseFixedProbeOutput_def and_then_eq_Inr probe_result_ok_def parseTargetInfo_ok parseDockerPreflight_ok)

section \<open>A concrete answer\<close>

definition sample_preflight :: probe_fields where
  "sample_preflight =
     [(''platform'', ''linux''), (''docker.installed'', ''true''), (''docker.daemonReachable'', ''true''),
      (''docker.serverVersion'', ''27.1''), (''compose.installed'', ''true''), (''compose.provider'', ''plugin''),
      (''preflight.intent'', ''create''), (''compose.requested'', ''false''), (''compose.config'', ''not-requested''),
      (''ports.count'', ''1''), (''port.0.protocol'', ''tcp''), (''port.0.port'', ''8080''),
      (''port.0.observation'', ''not-observed''), (''port.0.ownership'', ''unknown''),
      (''containers.status'', ''not-requested''), (''containers.count'', ''0''), (''containers.truncated'', ''false''),
      (''disk.status'', ''unavailable'')]"

lemma sample_docker:
  "readDockerFacts sample_preflight = Inr \<lparr>df_installed = True, df_daemonReachable = True, df_clientVersion = None,
     df_serverVersion = Some ''27.1'', df_contextName = None, df_contextScope = None,
     df_compose = \<lparr>cf_installed = True, cf_provider = Some Plugin, cf_version = None\<rparr>\<rparr>"
proof -
  let ?s = sample_preflight
  have "requiredBoolean ?s ''docker.installed'' = Inr True" "requiredBoolean ?s ''docker.daemonReachable'' = Inr True"
    "optionalText ?s ''docker.clientVersion'' 128 any_text = Inr None"
    "optionalText ?s ''docker.serverVersion'' 128 any_text = Inr (Some ''27.1'')"
    "optionalText ?s ''docker.contextName'' 128 SAFE_DOCKER_CONTEXT_PATTERN = Inr None"
    "optionalEnum ?s ''docker.contextScope'' [(''local'', ScopeLocal), (''remote'', ScopeRemote), (''unknown'', ScopeUnknown)] = Inr None"
    "requiredBoolean ?s ''compose.installed'' = Inr True"
    "optionalEnum ?s ''compose.provider'' [(''plugin'', Plugin), (''standalone'', Standalone)] = Inr (Some Plugin)"
    "optionalText ?s ''compose.version'' 128 any_text = Inr None"
    by code_simp+
  then show ?thesis by (simp only: readDockerFacts_def and_then_Inr) simp
qed

lemma sample_ports:
  "readPorts sample_preflight = Inr [\<lparr>pt_protocol = Tcp, pt_port = 8080, pt_observation = NotObserved, pt_ownership = OwnershipUnknown\<rparr>]"
proof -
  let ?s = sample_preflight
  have "requiredEnum ?s (port_key 0 ''protocol'') [(''tcp'', Tcp), (''udp'', Udp)] = Inr Tcp"
    "requiredSafeInteger ?s (port_key 0 ''port'') 65535 1 = Inr 8080"
    "requiredEnum ?s (port_key 0 ''observation'')
       [(''listener-observed'', ListenerObserved), (''not-observed'', NotObserved), (''unknown'', ObservationUnknown)] = Inr NotObserved"
    "requiredEnum ?s (port_key 0 ''ownership'')
       [(''requested-project'', RequestedProject), (''other-container'', OtherContainer),
        (''host-process'', HostProcess), (''unknown'', OwnershipUnknown)] = Inr OwnershipUnknown"
    by code_simp+
  then have "readPort ?s 0 = Inr \<lparr>pt_protocol = Tcp, pt_port = 8080, pt_observation = NotObserved, pt_ownership = OwnershipUnknown\<rparr>"
    by (simp only: readPort_def and_then_Inr) simp
  moreover have "requiredSafeInteger ?s ''ports.count'' 64 0 = Inr 1" "assertDynamicIndexes ?s ''port'' 1 = Inr ()" by code_simp+
  moreover have "[0..<nat 1] = [0]" by simp
  ultimately show ?thesis by (simp only: readPorts_def and_then_Inr read_ports.simps) simp
qed

lemma sample_containers:
  "readContainers sample_preflight = Inr \<lparr>cs_status = ContainersNotRequested, cs_filter = None, cs_items = [], cs_truncated = False\<rparr>"
proof -
  let ?s = sample_preflight
  have "requiredEnum ?s ''containers.status''
       [(''ok'', ContainersOk), (''unavailable'', ContainersUnavailable), (''not-requested'', ContainersNotRequested)] = Inr ContainersNotRequested"
    "requiredSafeInteger ?s ''containers.count'' 100 0 = Inr 0" "requiredBoolean ?s ''containers.truncated'' = Inr False"
    "optionalText ?s ''containers.filter'' 128 COMPOSE_PROJECT_FILTER_PATTERN = Inr None"
    "assertDynamicIndexes ?s ''container'' 0 = Inr ()"
    by code_simp+
  then show ?thesis by (simp only: readContainers_def and_then_Inr) simp
qed

lemma sample_disk:
  "readPreflightDisk sample_preflight =
     Inr \<lparr>pd_status = DiskUnavailable, pd_path = None, pd_totalBytes = None, pd_availableBytes = None, pd_requiredBytes = None\<rparr>"
proof -
  let ?s = sample_preflight
  have "requiredEnum ?s ''disk.status''
       [(''available'', DiskAvailable), (''unavailable'', DiskUnavailable), (''not-requested'', DiskNotRequested)] = Inr DiskUnavailable"
    "optionalText ?s ''disk.path'' 4096 any_text = Inr None" "optionalSafeInteger ?s ''disk.totalBytes'' = Inr None"
    "optionalSafeInteger ?s ''disk.availableBytes'' = Inr None" "optionalSafeInteger ?s ''disk.requiredBytes'' = Inr None"
    by code_simp+
  then show ?thesis by (simp only: readPreflightDisk_def and_then_Inr) simp
qed

lemma sample_preflight_parsed:
  "\<exists>r. parseDockerPreflight sample_preflight = Inr r \<and> pf_overall r = Degraded \<and> pf_warnings r = []"
proof -
  let ?s = sample_preflight
  have "readPlatform ?s = Inr Linux"
    "requiredEnum ?s ''preflight.intent'' [(''create'', IntentCreate), (''update'', IntentUpdate), (''inspect'', IntentInspect)] = Inr IntentCreate"
    "requiredBoolean ?s ''compose.requested'' = Inr False"
    "requiredEnum ?s ''compose.config''
       [(''valid'', ComposeFileValid), (''invalid'', ComposeFileInvalid), (''unavailable'', ComposeFileUnavailable),
        (''not-requested'', ComposeFileNotRequested)] = Inr ComposeFileNotRequested"
    by code_simp+
  then show ?thesis
    by (simp only: parseDockerPreflight_def and_then_Inr sample_docker sample_ports sample_containers sample_disk)
      (simp add: deriveOverall_def preflight_warnings_def appendDockerWarnings_def disk_warnings_def space_missing_def isPortConflict_def)
qed

lemma sample_frame: "parseFrame DockerPreflight (buffer_from (encode_frame DockerPreflight sample_preflight)) = Inr sample_preflight"
proof -
  have "length (encode_frame DockerPreflight sample_preflight) \<le> 2000" by code_simp
  then have "length (encode_frame DockerPreflight sample_preflight) \<le> MAX_FIXED_PROBE_OUTPUT_BYTES"
    by (simp add: MAX_FIXED_PROBE_OUTPUT_BYTES_def)
  moreover have "\<not> bare_return (encode_frame DockerPreflight sample_preflight)" by code_simp
  moreover have "unix_lines (encode_frame DockerPreflight sample_preflight) = encode_frame DockerPreflight sample_preflight" by code_simp
  moreover have "list_all (\<lambda>kv. known_key DockerPreflight (fst kv) \<and> text_value (snd kv) \<and> length (field_line kv) \<le> 100) sample_preflight"
    "distinct (map fst sample_preflight)" "sample_preflight \<noteq> []" "length sample_preflight \<le> 100"
    by code_simp+
  then have "frame_ok DockerPreflight sample_preflight"
    by (auto simp: frame_ok_def list_all_iff MAX_PROBE_FIELDS_def MAX_ENCODED_FIELD_BYTES_def)
  ultimately show ?thesis by (simp add: parseFrame_iff char_of_byte_buffer) (simp add: buffer_from_def)
qed
section \<open>Properties\<close>

text \<open>
  C8: canonical frames. Reading a probe's output gives exactly the fields whose printed frame it is: the
  reader accepts an output if and only if, with CR LF read as LF, it is the frame of admissible fields (known
  keys, each once, non-empty UTF-8 values without control characters, within the limits), and it returns
  these fields. So what a probe prints reads back as it was, and no other text gives the same fields.
\<close>

theorem probe_frame_canonical:
  "parseFrame kind byts = Inr flds \<longleftrightarrow>
   length byts \<le> MAX_FIXED_PROBE_OUTPUT_BYTES \<and> \<not> bare_return (map char_of_byte byts)
   \<and> unix_lines (map char_of_byte byts) = encode_frame kind flds \<and> frame_ok kind flds"
  by (rule parseFrame_iff)

text \<open>
  C10: a probe answer that is accepted is well formed: a reachable daemon is installed and has a version, ports
  are in range and distinct, names match their patterns, sizes are safe integers with no more space available
  than there is, and a container or project is only named when the daemon or the project filter allows it.
\<close>

theorem probe_result_well_formed:
  assumes "parseFixedProbeOutput kind byts = Inr r"
  shows "probe_result_ok kind r"
  using assms by (rule parseFixedProbeOutput_ok)

theorem probe_result_well_formed_witness:
  "\<exists>r. parseFixedProbeOutput DockerPreflight (buffer_from (encode_frame DockerPreflight sample_preflight)) = Inr r
     \<and> probe_result_ok DockerPreflight r"
proof -
  obtain p where "parseDockerPreflight sample_preflight = Inr p" using sample_preflight_parsed by blast
  then have "parseFixedProbeOutput DockerPreflight (buffer_from (encode_frame DockerPreflight sample_preflight)) = Inr (PreflightResult p)"
    by (simp add: parseFixedProbeOutput_def sample_frame)
  then show ?thesis using probe_result_well_formed by blast
qed

text \<open>
  C9: the verdict of a preflight agrees with its warnings. It is blocked exactly when one of the blocking
  warnings was given, and ready exactly when there is no warning and the requested disk could be read. The
  witness shows that the last condition matters: an unreadable disk degrades the verdict without any warning.
\<close>

theorem preflight_verdict:
  assumes "parseDockerPreflight flds = Inr r"
  shows "(pf_overall r = Blocked \<longleftrightarrow> list_ex (\<lambda>w. w \<in> set blocking_warnings) (pf_warnings r))
    \<and> (pf_overall r = Ready \<longleftrightarrow> pf_warnings r = [] \<and> pd_status (pf_disk r) \<noteq> DiskUnavailable)"
proof -
  note parts = parseDockerPreflight_parts [OF assms]
  then have "preflight_disk_ok (pf_disk r)" by blast
  then show ?thesis unfolding parts(3,4) by (simp add: overall_blocked overall_ready)
qed

theorem preflight_verdict_witness:
  "\<exists>r. parseDockerPreflight sample_preflight = Inr r \<and> pf_overall r = Degraded \<and> pf_warnings r = []
     \<and> pd_status (pf_disk r) = DiskUnavailable"
proof -
  obtain r where r: "parseDockerPreflight sample_preflight = Inr r" "pf_overall r = Degraded" "pf_warnings r = []"
    using sample_preflight_parsed by blast
  then show ?thesis using preflight_verdict [OF r(1)] by force
qed

end
