(* ===== verification/RegExp.thy ===== *)
theory RegExp
  imports Prelude
begin

text \<open>
  Regular expressions of the language, with the backtracking semantics of the standard: \<open>matches\<close> gives the ends
  of all matches that start at a position, the preferred one first, together with the captured texts. The
  model is for ASCII texts: classes and \<open>\b\<close> look at single characters. The lemmas bound what a match consumes and
  show that a text without the characters an expression needs is left unchanged by a replacement.
\<close>

section \<open>Matching\<close>

datatype rx =
    RChar "char \<Rightarrow> bool"
  | REmpty
  | RSeq rx rx
  | RAlt rx rx
  | RStar rx \<comment> \<open>\<open>*\<close>\<close>
  | RLazy rx \<comment> \<open>\<open>*?\<close>\<close>
  | RTimes nat rx \<comment> \<open>\<open>{n}\<close>\<close>
  | RGroup nat rx
  | RBound \<comment> \<open>\<open>\b\<close>\<close>
  | RStart \<comment> \<open>\<open>^\<close>\<close>

type_synonym captures = "(nat \<times> string) list"

definition rx_word_char :: "char \<Rightarrow> bool" where
  "rx_word_char c \<longleftrightarrow> is_alnum c \<or> c = CHR ''_''"

definition word_at :: "string \<Rightarrow> nat \<Rightarrow> bool" where
  "word_at s i \<longleftrightarrow> i < length s \<and> rx_word_char (s ! i)"

definition at_boundary :: "string \<Rightarrow> nat \<Rightarrow> bool" where
  "at_boundary s i \<longleftrightarrow> (0 < i \<and> word_at s (i - 1)) \<noteq> word_at s i"

text \<open>The iterations of \<open>f\<close>; an iteration that consumes nothing is not made. The fuel is the number of characters left.\<close>

fun iterate :: "bool \<Rightarrow> nat \<Rightarrow> (nat \<Rightarrow> captures \<Rightarrow> (nat \<times> captures) list) \<Rightarrow> nat \<Rightarrow> captures \<Rightarrow> (nat \<times> captures) list" where
  "iterate greedy 0 f i caps = [(i, caps)]"
| "iterate greedy (Suc n) f i caps =
     (let more = concat (map (\<lambda>(j, caps'). if i < j then iterate greedy n f j caps' else []) (f i caps)) in
      if greedy then more @ [(i, caps)] else (i, caps) # more)"

fun repeated :: "nat \<Rightarrow> (nat \<Rightarrow> captures \<Rightarrow> (nat \<times> captures) list) \<Rightarrow> nat \<Rightarrow> captures \<Rightarrow> (nat \<times> captures) list" where
  "repeated 0 f i caps = [(i, caps)]"
| "repeated (Suc n) f i caps = concat (map (\<lambda>(j, caps'). repeated n f j caps') (f i caps))"

primrec matches :: "string \<Rightarrow> rx \<Rightarrow> nat \<Rightarrow> captures \<Rightarrow> (nat \<times> captures) list" where
  "matches s (RChar p) = (\<lambda>i caps. if i < length s \<and> p (s ! i) then [(Suc i, caps)] else [])"
| "matches s REmpty = (\<lambda>i caps. [(i, caps)])"
| "matches s (RSeq a b) = (\<lambda>i caps. concat (map (\<lambda>(j, caps'). matches s b j caps') (matches s a i caps)))"
| "matches s (RAlt a b) = (\<lambda>i caps. matches s a i caps @ matches s b i caps)"
| "matches s (RStar a) = (\<lambda>i caps. iterate True (length s - i) (matches s a) i caps)"
| "matches s (RLazy a) = (\<lambda>i caps. iterate False (length s - i) (matches s a) i caps)"
| "matches s (RTimes n a) = repeated n (matches s a)"
| "matches s (RGroup n a) =
     (\<lambda>i caps. map (\<lambda>(j, caps'). (j, (n, take (j - i) (drop i s)) # caps')) (matches s a i caps))"
| "matches s RBound = (\<lambda>i caps. if at_boundary s i then [(i, caps)] else [])"
| "matches s RStart = (\<lambda>i caps. if i = 0 then [(i, caps)] else [])"

definition captured :: "captures \<Rightarrow> nat \<Rightarrow> string" where
  "captured caps n = (case map_of caps n of None \<Rightarrow> [] | Some s \<Rightarrow> s)"

text \<open>
  \<open>s.replace(r, f)\<close> for a global expression that matches no empty text, from position \<open>i\<close> on.
\<close>

function replace_from :: "rx \<Rightarrow> (captures \<Rightarrow> string) \<Rightarrow> string \<Rightarrow> nat \<Rightarrow> string" where
  "replace_from r f s i =
     (if length s \<le> i then []
      else case matches s r i [] of
        [] \<Rightarrow> s ! i # replace_from r f s (Suc i)
      | (j, caps) # _ \<Rightarrow>
          if i < j then f caps @ replace_from r f s j else s ! i # replace_from r f s (Suc i))"
  by pat_completeness auto
termination by (relation "measure (\<lambda>(r, f, s, i). length s - i)") auto

declare replace_from.simps [simp del]

definition replace_all :: "rx \<Rightarrow> (captures \<Rightarrow> string) \<Rightarrow> string \<Rightarrow> string" where
  "replace_all r f s = replace_from r f s 0"

text \<open>Derived forms.\<close>

fun rx_text :: "string \<Rightarrow> rx" where
  "rx_text [] = REmpty"
| "rx_text [c] = RChar (\<lambda>d. d = c)"
| "rx_text (c # cs) = RSeq (RChar (\<lambda>d. d = c)) (rx_text cs)"

text \<open>The flag \<open>i\<close>: a lower case letter also stands for the upper case one.\<close>

fun rx_text_ci :: "string \<Rightarrow> rx" where
  "rx_text_ci [] = REmpty"
| "rx_text_ci [c] = RChar (\<lambda>d. lower_char d = lower_char c)"
| "rx_text_ci (c # cs) = RSeq (RChar (\<lambda>d. lower_char d = lower_char c)) (rx_text_ci cs)"

definition rx_plus :: "rx \<Rightarrow> rx" where
  "rx_plus r = RSeq r (RStar r)"

definition rx_opt :: "rx \<Rightarrow> rx" where
  "rx_opt r = RAlt r REmpty"

fun rx_alts :: "rx list \<Rightarrow> rx" where
  "rx_alts [] = RChar (\<lambda>_. False)"
| "rx_alts [r] = r"
| "rx_alts (r # rs) = RAlt r (rx_alts rs)"

fun rx_seq :: "rx list \<Rightarrow> rx" where
  "rx_seq [] = REmpty"
| "rx_seq [r] = r"
| "rx_seq (r # rs) = RSeq r (rx_seq rs)"

section \<open>What a match consumes\<close>

text \<open>At least \<open>n\<close> characters, and one that satisfies \<open>p\<close>.\<close>

primrec consumes :: "rx \<Rightarrow> nat" where
  "consumes (RChar p) = 1"
| "consumes REmpty = 0"
| "consumes (RSeq a b) = consumes a + consumes b"
| "consumes (RAlt a b) = min (consumes a) (consumes b)"
| "consumes (RStar a) = 0"
| "consumes (RLazy a) = 0"
| "consumes (RTimes n a) = n * consumes a"
| "consumes (RGroup n a) = consumes a"
| "consumes RBound = 0"
| "consumes RStart = 0"

text \<open>\<open>lacks r q\<close>: every match of \<open>r\<close> consumes a character outside \<open>q\<close>.\<close>

primrec lacks :: "rx \<Rightarrow> (char \<Rightarrow> bool) \<Rightarrow> bool" where
  "lacks (RChar p) = (\<lambda>q. \<forall>c. q c \<longrightarrow> \<not> p c)"
| "lacks REmpty = (\<lambda>q. False)"
| "lacks (RSeq a b) = (\<lambda>q. lacks a q \<or> lacks b q)"
| "lacks (RAlt a b) = (\<lambda>q. lacks a q \<and> lacks b q)"
| "lacks (RStar a) = (\<lambda>q. False)"
| "lacks (RLazy a) = (\<lambda>q. False)"
| "lacks (RTimes n a) = (\<lambda>q. 0 < n \<and> lacks a q)"
| "lacks (RGroup n a) = lacks a"
| "lacks RBound = (\<lambda>q. False)"
| "lacks RStart = (\<lambda>q. False)"

lemma iterate_Suc:
  "(j, c) \<in> set (iterate greedy (Suc n) f i caps) \<longleftrightarrow>
   (j, c) = (i, caps) \<or> (\<exists>x \<in> set (f i caps). i < fst x \<and> (j, c) \<in> set (iterate greedy n f (fst x) (snd x)))"
  unfolding iterate.simps Let_def by (simp add: case_prod_unfold) blast

lemma iterate_range:
  assumes "\<And>i caps j c. i \<le> l \<Longrightarrow> (j, c) \<in> set (f i caps) \<Longrightarrow> i \<le> j \<and> j \<le> l"
  shows "i \<le> l \<Longrightarrow> (j, c) \<in> set (iterate greedy n f i caps) \<Longrightarrow> i \<le> j \<and> j \<le> l"
proof (induction n arbitrary: i caps)
  case 0
  then show ?case by simp
next
  case (Suc n)
  from Suc.prems(2) show ?case
    unfolding iterate_Suc
  proof (elim disjE bexE conjE)
    assume "(j, c) = (i, caps)"
    then show ?thesis using Suc.prems(1) by simp
  next
    fix x
    assume x: "x \<in> set (f i caps)" "i < fst x" "(j, c) \<in> set (iterate greedy n f (fst x) (snd x))"
    then have "fst x \<le> l" using assms [OF Suc.prems(1), of "fst x" "snd x"] by simp
    from Suc.IH [OF this x(3)] x(2) show ?thesis by simp
  qed
qed

lemma repeated_range:
  assumes "\<And>i caps j c. i \<le> l \<Longrightarrow> (j, c) \<in> set (f i caps) \<Longrightarrow> i + k \<le> j \<and> j \<le> l"
  shows "i \<le> l \<Longrightarrow> (j, c) \<in> set (repeated n f i caps) \<Longrightarrow> i + n * k \<le> j \<and> j \<le> l"
proof (induction n arbitrary: i caps)
  case (Suc n)
  from Suc.prems(2) obtain m d where m: "(m, d) \<in> set (f i caps)" "(j, c) \<in> set (repeated n f m d)" by auto
  from assms [OF Suc.prems(1) m(1)] Suc.IH [OF _ m(2)] show ?case by simp
qed auto

lemma matches_range: "i \<le> length s \<Longrightarrow> (j, c) \<in> set (matches s r i caps) \<Longrightarrow> i + consumes r \<le> j \<and> j \<le> length s"
proof (induction r arbitrary: i j c caps)
  case (RSeq a b)
  from RSeq.prems(2) obtain m d where m: "(m, d) \<in> set (matches s a i caps)" "(j, c) \<in> set (matches s b m d)" by auto
  from RSeq.IH(1) [OF RSeq.prems(1) m(1)] RSeq.IH(2) [OF _ m(2)] show ?case by simp
next
  case (RAlt a b)
  from RAlt.prems(2) consider "(j, c) \<in> set (matches s a i caps)" | "(j, c) \<in> set (matches s b i caps)" by auto
  then show ?case
  proof cases
    case 1
    from RAlt.IH(1) [OF RAlt.prems(1) 1] show ?thesis by (simp add: min_def)
  next
    case 2
    from RAlt.IH(2) [OF RAlt.prems(1) 2] show ?thesis by (simp add: min_def)
  qed
next
  case (RStar a)
  have "x \<le> y \<and> y \<le> length s" if "x \<le> length s" "(y, d) \<in> set (matches s a x e)" for x y d e
    using RStar.IH [OF that] by simp
  from iterate_range [OF this RStar.prems(1)] RStar.prems(2) show ?case by simp
next
  case (RLazy a)
  have "x \<le> y \<and> y \<le> length s" if "x \<le> length s" "(y, d) \<in> set (matches s a x e)" for x y d e
    using RLazy.IH [OF that] by simp
  from iterate_range [OF this RLazy.prems(1)] RLazy.prems(2) show ?case by simp
next
  case (RTimes n a)
  from repeated_range [of "length s" "matches s a" "consumes a", OF RTimes.IH RTimes.prems(1)] RTimes.prems(2)
  show ?case by simp
next
  case (RGroup n a)
  from RGroup.prems(2) obtain d where "(j, d) \<in> set (matches s a i caps)" by auto
  from RGroup.IH [OF RGroup.prems(1) this] show ?case by simp
qed (auto split: if_splits)

lemma matches_lack:
  assumes "list_all q s"
  shows "lacks r q \<Longrightarrow> i \<le> length s \<Longrightarrow> matches s r i caps = []"
proof (induction r arbitrary: i caps)
  case (RChar p)
  then show ?case using assms by (auto simp: list_all_length)
next
  case (RSeq a b)
  show ?case
  proof (cases "lacks a q")
    case False
    then have "lacks b q" using RSeq.prems(1) by simp
    then have "matches s b j c = []" if "(j, c) \<in> set (matches s a i caps)" for j c
      using RSeq.IH(2) matches_range [OF RSeq.prems(2) that] by simp
    then show ?thesis by auto
  qed (simp add: RSeq)
next
  case (RTimes n a)
  then show ?case by (cases n) auto
qed auto

section \<open>Replacement\<close>

lemma replace_none:
  assumes "\<And>i caps. i \<le> length s \<Longrightarrow> matches s r i caps = []"
  shows "replace_all r f s = s"
proof -
  have "replace_from r f s i = drop i s" for i
  proof (induction "length s - i" arbitrary: i)
    case 0
    then show ?case by (subst replace_from.simps) simp
  next
    case (Suc n)
    then have "replace_from r f s (Suc i) = drop (Suc i) s" by simp
    with Suc.hyps(2) assms [of i] show ?case by (subst replace_from.simps) (simp add: Cons_nth_drop_Suc)
  qed
  then show ?thesis by (simp add: replace_all_def)
qed

lemma replace_lacking: "list_all q s \<Longrightarrow> lacks r q \<Longrightarrow> replace_all r f s = s"
  by (rule replace_none) (rule matches_lack)

lemma replace_short:
  assumes "length s < consumes r"
  shows "replace_all r f s = s"
proof (rule replace_none)
  fix i caps
  assume i: "i \<le> length s"
  have "(j, c) \<notin> set (matches s r i caps)" for j c
    using matches_range [OF i, of j c r caps] assms by auto
  then show "matches s r i caps = []" by (cases "matches s r i caps") auto
qed

text \<open>A replacement no longer than what every match consumes does not lengthen the text.\<close>

lemma replace_from_length:
  assumes "\<And>caps. length (f caps) \<le> consumes r"
  shows "length (replace_from r f s i) \<le> length s - i"
proof (induction "length s - i" arbitrary: i rule: less_induct)
  case less
  show ?case
  proof (cases "length s \<le> i")
    case True
    then show ?thesis by (subst replace_from.simps) simp
  next
    case False
    then have step: "length (replace_from r f s k) \<le> length s - k" if "i < k" for k
      using less that by simp
    show ?thesis
    proof (cases "matches s r i []")
      case Nil
      then show ?thesis using False step [of "Suc i"] by (subst replace_from.simps) simp
    next
      case (Cons m ms)
      obtain j c where m: "m = (j, c)" by (cases m)
      have "i + consumes r \<le> j" "j \<le> length s"
        using matches_range [of i s j c r "[]"] Cons m False by simp_all
      then show ?thesis
        using False Cons m step [of "Suc i"] step [of j] assms [of c] by (subst replace_from.simps) auto
    qed
  qed
qed

lemma replace_length: "(\<And>caps. length (f caps) \<le> consumes r) \<Longrightarrow> length (replace_all r f s) \<le> length s"
  using replace_from_length [of f r s 0] by (simp add: replace_all_def)

lemma replace_from_chars:
  assumes "\<And>caps. list_all q (f caps)" "list_all q s"
  shows "list_all q (replace_from r f s i)"
proof (induction "length s - i" arbitrary: i rule: less_induct)
  case less
  show ?case
  proof (cases "length s \<le> i")
    case True
    then show ?thesis by (subst replace_from.simps) simp
  next
    case False
    then have step: "list_all q (replace_from r f s k)" if "i < k" for k using less that by simp
    have "q (s ! i)" using False assms(2) by (simp add: list_all_length)
    then show ?thesis
      using False step assms(1) by (subst replace_from.simps) (auto split: list.splits)
  qed
qed

lemma replace_chars: "(\<And>caps. list_all q (f caps)) \<Longrightarrow> list_all q s \<Longrightarrow> list_all q (replace_all r f s)"
  using replace_from_chars [of q f s r 0] by (simp add: replace_all_def)

end
