(* ===== verification/Redact.thy ===== *)
theory Redact
  imports RegExp JsonText TransferPaths
begin

text \<open>
  \<^verbatim>\<open>src/src/infra/redact.ts\<close>: the redaction the audit writer applies to a record before it is printed. A value
  is a JSON value; the other kinds of values of the language do not occur in records. Texts are ASCII, as the
  identifiers, codes and time stamps of records are.
\<close>

section \<open>Definitions\<close>

definition REDACTED :: string where "REDACTED = ''[REDACTED]''"
definition REDACTED_TRUNCATED :: string where "REDACTED_TRUNCATED = ''[TRUNCATED]''"
definition DEFAULT_MAX_DEPTH :: nat where "DEFAULT_MAX_DEPTH = 12"
definition DEFAULT_MAX_ENTRIES :: nat where "DEFAULT_MAX_ENTRIES = 10000"

definition SAFE_DERIVED_KEYS :: "string list" where
  "SAFE_DERIVED_KEYS = [''commandbytes'', ''commandsha256'', ''stderrbytes'', ''stdoutbytes'']"

definition SENSITIVE_KEYS :: "string list" where
  "SENSITIVE_KEYS =
     [''apikey'', ''argv'', ''authorization'', ''cmd'', ''command'', ''configfile'', ''cookie'', ''credential'', ''credentials'',
      ''cwd'', ''directory'', ''error'', ''errormessage'', ''executable'', ''filepath'', ''knownhostsfile'', ''mfa'', ''otp'',
      ''output'', ''outputexpiresat'', ''outputref'', ''passphrase'', ''passwd'', ''password'', ''path'', ''privatekey'', ''pwd'',
      ''ref'', ''reference'', ''secret'', ''sessionid'', ''stderr'', ''stdout'', ''token'']"

definition SENSITIVE_SUFFIXES :: "string list" where
  "SENSITIVE_SUFFIXES =
     [''apikey'', ''authorization'', ''cookie'', ''credential'', ''error'', ''message'', ''passphrase'', ''password'', ''path'',
      ''privatekey'', ''ref'', ''secret'', ''stderr'', ''stdout'', ''token'']"

definition normalizeKey :: "string \<Rightarrow> string" where
  "normalizeKey key = filter (\<lambda>c. is_lower c \<or> is_digit c) (to_lower key)"

definition isSensitiveKey :: "string \<Rightarrow> bool" where
  "isSensitiveKey key \<longleftrightarrow>
     (let normalized = normalizeKey key in
      normalized \<notin> set SAFE_DERIVED_KEYS
      \<and> (normalized \<in> set SENSITIVE_KEYS
         \<or> list_ex (\<lambda>s. suffix s normalized) SENSITIVE_SUFFIXES
         \<or> suffix ''command'' normalized))"

subsection \<open>Texts\<close>

definition js_space :: "char \<Rightarrow> bool" where
  "js_space c \<longleftrightarrow> c = CHR 0x20 \<or> (CHR 0x09 \<le> c \<and> c \<le> CHR 0x0D)"

definition rx_spaces :: rx where "rx_spaces = RStar (RChar js_space)"

definition private_key_rx :: rx where
  "private_key_rx =
     (let label = RStar (RChar (\<lambda>c. is_alnum c \<or> c = CHR '' '')) in
      rx_seq [rx_text_ci ''-----BEGIN '', label, rx_text_ci ''PRIVATE KEY-----'', RLazy (RChar (\<lambda>_. True)),
              rx_text_ci ''-----END '', label, rx_text_ci ''PRIVATE KEY-----''])"

definition bearer_rx :: rx where
  "bearer_rx =
     rx_seq [RBound, RGroup 1 (RAlt (rx_text_ci ''Bearer'') (rx_text_ci ''Basic'')), rx_plus (RChar js_space),
             rx_plus (RChar (\<lambda>c. is_alnum c \<or> c \<in> set ''._~+/=-''))]"

definition secret_words_rx :: rx where
  "secret_words_rx =
     (let sep = rx_opt (RChar (\<lambda>c. c = CHR ''_'' \<or> c = CHR ''-'')) in
      rx_alts
        [rx_text_ci ''password'', rx_text_ci ''passwd'', rx_text_ci ''pwd'', rx_text_ci ''passphrase'', rx_text_ci ''secret'',
         rx_text_ci ''token'', rx_seq [rx_text_ci ''access'', sep, rx_text_ci ''token''],
         rx_seq [rx_text_ci ''refresh'', sep, rx_text_ci ''token''], rx_seq [rx_text_ci ''api'', sep, rx_text_ci ''key''],
         rx_text_ci ''authorization'', rx_text_ci ''cookie'', rx_text_ci ''otp''])"

definition secret_rx :: rx where
  "secret_rx =
     rx_seq [RBound, RGroup 1 secret_words_rx, RBound,
             RGroup 2 (rx_seq [rx_spaces, RChar (\<lambda>c. c = CHR '':'' \<or> c = CHR ''=''), rx_spaces]),
             rx_alts [rx_seq [RChar (\<lambda>c. c = dquote_char), RStar (RChar (\<lambda>c. c \<noteq> dquote_char)), RChar (\<lambda>c. c = dquote_char)],
                      rx_seq [RChar (\<lambda>c. c = quote_char), RStar (RChar (\<lambda>c. c \<noteq> quote_char)), RChar (\<lambda>c. c = quote_char)],
                      rx_plus (RChar (\<lambda>c. \<not> js_space c \<and> c \<noteq> CHR '','' \<and> c \<noteq> CHR '';''))]]"

definition drive_path_rx :: rx where
  "drive_path_rx =
     (let slash = RChar (\<lambda>c. c = backslash \<or> c = CHR ''/'') in
      rx_seq [RBound, RChar is_alpha, RChar (\<lambda>c. c = CHR '':''), slash,
        rx_plus (RSeq (rx_plus (RChar (\<lambda>c. c \<notin> {backslash, CHR ''/'', return_char, newline, CHR 0x09, CHR '' '', dquote_char, quote_char})))
          (rx_opt slash))])"

definition not_space_quote :: "char \<Rightarrow> bool" where
  "not_space_quote c \<longleftrightarrow> \<not> js_space c \<and> c \<noteq> dquote_char \<and> c \<noteq> quote_char"

definition unc_path_rx :: rx where
  "unc_path_rx =
     rx_seq [RChar (\<lambda>c. c = backslash), RChar (\<lambda>c. c = backslash), rx_plus (RChar (\<lambda>c. c \<noteq> backslash \<and> \<not> js_space c)),
             RChar (\<lambda>c. c = backslash), rx_plus (RChar not_space_quote)]"

definition file_url_rx :: rx where
  "file_url_rx = rx_seq [RBound, rx_text_ci ''file:///'', rx_plus (RChar not_space_quote)]"

definition unix_path_rx :: rx where
  "unix_path_rx =
     rx_seq [RGroup 1 (RAlt RStart (RChar (\<lambda>c. js_space c \<or> c = CHR ''(''))), RChar (\<lambda>c. c = CHR ''/''),
             rx_alts (map rx_text_ci [''etc'', ''home'', ''mnt'', ''opt'', ''root'', ''run'', ''srv'', ''tmp'', ''users'', ''var'']),
             rx_plus (RSeq (RChar (\<lambda>c. c = CHR ''/''))
               (rx_plus (RChar (\<lambda>c. not_space_quote c \<and> c \<notin> {CHR '','', CHR '';'', CHR '')''}))))]"

text \<open>A token of 43 characters, the form of output references and run identifiers.\<close>

definition opaque_rx :: rx where
  "opaque_rx = rx_seq [RBound, RTimes 43 (RChar opaque_char), RBound]"

definition redactText :: "string \<Rightarrow> string" where
  "redactText val =
     (let v1 = replace_all private_key_rx (\<lambda>_. REDACTED) val;
          v2 = replace_all bearer_rx (\<lambda>caps. captured caps 1 @ '' '' @ REDACTED) v1;
          v3 = replace_all secret_rx (\<lambda>caps. captured caps 1 @ captured caps 2 @ REDACTED) v2;
          v4 = replace_all drive_path_rx (\<lambda>_. REDACTED) v3;
          v5 = replace_all unc_path_rx (\<lambda>_. REDACTED) v4;
          v6 = replace_all file_url_rx (\<lambda>_. REDACTED) v5;
          v7 = replace_all unix_path_rx (\<lambda>caps. captured caps 1 @ REDACTED) v6 in
      replace_all opaque_rx (\<lambda>_. REDACTED) v7)"

subsection \<open>Values\<close>

text \<open>\<open>visit\<close> with the number of entries seen so far, which it returns.\<close>

fun redact_visit :: "nat \<Rightarrow> nat \<Rightarrow> json \<Rightarrow> nat \<Rightarrow> nat \<Rightarrow> json \<times> nat"
  and redact_items :: "nat \<Rightarrow> nat \<Rightarrow> json list \<Rightarrow> nat \<Rightarrow> nat \<Rightarrow> json list \<times> nat"
  and redact_members :: "nat \<Rightarrow> nat \<Rightarrow> (string \<times> json) list \<Rightarrow> nat \<Rightarrow> nat \<Rightarrow> (string \<times> json) list \<times> nat" where
  "redact_visit maxDepth maxEntries current depth seen =
     (let entries = Suc seen in
      if maxEntries < entries \<or> maxDepth < depth then (JString REDACTED_TRUNCATED, entries)
      else case current of
        JString s \<Rightarrow> (JString (redactText s), entries)
      | JArray js \<Rightarrow> (case redact_items maxDepth maxEntries js (Suc depth) entries of (rs, n) \<Rightarrow> (JArray rs, n))
      | JObject ms \<Rightarrow> (case redact_members maxDepth maxEntries ms (Suc depth) entries of (rs, n) \<Rightarrow> (JObject rs, n))
      | _ \<Rightarrow> (current, entries))"
| "redact_items maxDepth maxEntries [] depth seen = ([], seen)"
| "redact_items maxDepth maxEntries (j # js) depth seen =
     (case redact_visit maxDepth maxEntries j depth seen of (r, n) \<Rightarrow>
      case redact_items maxDepth maxEntries js depth n of (rs, m) \<Rightarrow> (r # rs, m))"
| "redact_members maxDepth maxEntries [] depth seen = ([], seen)"
| "redact_members maxDepth maxEntries ((key, j) # ms) depth seen =
     (case (if isSensitiveKey key then (JString REDACTED, seen) else redact_visit maxDepth maxEntries j depth seen) of (r, n) \<Rightarrow>
      case redact_members maxDepth maxEntries ms depth n of (rs, m) \<Rightarrow> ((key, r) # rs, m))"

definition redact :: "json \<Rightarrow> json" where
  "redact val = fst (redact_visit DEFAULT_MAX_DEPTH DEFAULT_MAX_ENTRIES val 0 0)"

section \<open>Plain texts\<close>

text \<open>The characters of identifiers and codes, and those of time stamps.\<close>

definition plain_char :: "char \<Rightarrow> bool" where
  "plain_char c \<longleftrightarrow> is_alnum c \<or> c = CHR ''.'' \<or> c = CHR ''_'' \<or> c = CHR ''-''"

definition time_char :: "char \<Rightarrow> bool" where
  "time_char c \<longleftrightarrow> is_digit c \<or> c \<in> {CHR ''-'', CHR ''+'', CHR '':'', CHR ''.'', CHR ''T'', CHR ''Z''}"

definition printed_char :: "char \<Rightarrow> bool" where
  "printed_char c \<longleftrightarrow> (32 :: nat) \<le> of_char c \<and> c \<noteq> dquote_char \<and> c \<noteq> backslash"

lemma lacks_text_ci: "d \<in> set t \<Longrightarrow> (\<And>c. q c \<Longrightarrow> lower_char c \<noteq> lower_char d) \<Longrightarrow> lacks (rx_text_ci t) q"
  by (induction t rule: rx_text_ci.induct) auto

lemma plain_code: "plain_char c \<longleftrightarrow> (let n = of_char c :: nat in
    (65 \<le> n \<and> n \<le> 90) \<or> (97 \<le> n \<and> n \<le> 122) \<or> (48 \<le> n \<and> n \<le> 57) \<or> n = 46 \<or> n = 95 \<or> n = 45)"
  by (auto simp: plain_char_def is_alnum_def is_alpha_def char_code_simps Let_def simp flip: of_char_eq_iff [where 'a = nat])

lemma time_code: "time_char c \<longleftrightarrow> (let n = of_char c :: nat in
    (48 \<le> n \<and> n \<le> 57) \<or> n = 45 \<or> n = 43 \<or> n = 58 \<or> n = 46 \<or> n = 84 \<or> n = 90)"
  by (auto simp: time_char_def char_code_simps Let_def simp flip: of_char_eq_iff [where 'a = nat])

lemma not_plain:
  "plain_char c \<Longrightarrow> \<not> js_space c" "plain_char c \<Longrightarrow> c \<notin> {CHR '':'', CHR ''='', CHR ''/'', backslash}"
  "plain_char c \<Longrightarrow> lower_char c \<noteq> lower_char CHR '' ''" "plain_char c \<Longrightarrow> lower_char c \<noteq> lower_char CHR ''/''"
  by (auto simp: plain_code js_space_def less_eq_char_def lower_char_code char_code_simps Let_def
      simp flip: of_char_eq_iff [where 'a = nat])

lemma not_time:
  "time_char c \<Longrightarrow> \<not> js_space c" "time_char c \<Longrightarrow> c \<notin> {CHR ''='', CHR ''/'', backslash}"
  by (auto simp: time_code js_space_def less_eq_char_def Let_def simp flip: of_char_eq_iff [where 'a = nat])

definition other_letters :: string where
  "other_letters = '' abcdefghijklmnopqrsuvwxy/''"

definition time_lower_code :: "nat \<Rightarrow> bool" where
  "time_lower_code n \<longleftrightarrow> (48 \<le> n \<and> n \<le> 57) \<or> n = 45 \<or> n = 43 \<or> n = 58 \<or> n = 46 \<or> n = 116 \<or> n = 122"

lemma time_lower: "time_char c \<Longrightarrow> time_lower_code (of_char (lower_char c))"
  unfolding time_code lower_char_code char_code_simps Let_def time_lower_code_def by auto

lemma not_time_letter: "time_char c \<Longrightarrow> d \<in> set other_letters \<Longrightarrow> lower_char c \<noteq> lower_char d"
proof -
  have "list_all (\<lambda>d. \<not> time_lower_code (of_char (lower_char d))) other_letters" by code_simp
  then show "time_char c \<Longrightarrow> d \<in> set other_letters \<Longrightarrow> lower_char c \<noteq> lower_char d"
    unfolding list_all_iff using time_lower by metis
qed

lemma plain_text: "list_ex (\<lambda>d. d = CHR '' '' \<or> d = CHR ''/'') t \<Longrightarrow> lacks (rx_text_ci t) plain_char"
  using not_plain(3,4) by (auto simp: list_ex_iff intro: lacks_text_ci)

lemma plain_lacks:
  "lacks private_key_rx plain_char" "lacks bearer_rx plain_char" "lacks secret_rx plain_char" "lacks drive_path_rx plain_char"
  "lacks unc_path_rx plain_char" "lacks file_url_rx plain_char" "lacks unix_path_rx plain_char"
proof -
  show "lacks private_key_rx plain_char" "lacks file_url_rx plain_char"
    by (simp_all add: private_key_rx_def file_url_rx_def Let_def plain_text del: rx_text_ci.simps)
  have "lacks (RChar js_space) plain_char" using not_plain(1) by auto
  then show "lacks bearer_rx plain_char" by (simp add: bearer_rx_def rx_plus_def del: rx_text_ci.simps)
  have "lacks (RChar (\<lambda>c. c = CHR '':'' \<or> c = CHR ''='')) plain_char" using not_plain(2) by auto
  then show "lacks secret_rx plain_char" by (simp add: secret_rx_def del: rx_text_ci.simps)
  have "lacks (RChar (\<lambda>c. c = CHR '':'')) plain_char" using not_plain(2) by auto
  then show "lacks drive_path_rx plain_char" by (simp add: drive_path_rx_def Let_def)
  have "lacks (RChar (\<lambda>c. c = backslash)) plain_char" using not_plain(2) by auto
  then show "lacks unc_path_rx plain_char" by (simp add: unc_path_rx_def)
  have "lacks (RChar (\<lambda>c. c = CHR ''/'')) plain_char" using not_plain(2) by auto
  then show "lacks unix_path_rx plain_char" by (simp add: unix_path_rx_def del: rx_text_ci.simps)
qed

lemma time_text: "list_ex (\<lambda>d. d \<in> set other_letters) t \<Longrightarrow> lacks (rx_text_ci t) time_char"
  using lacks_text_ci not_time_letter unfolding list_ex_iff by blast

lemma time_lacks:
  "lacks private_key_rx time_char" "lacks bearer_rx time_char" "lacks secret_rx time_char" "lacks drive_path_rx time_char"
  "lacks unc_path_rx time_char" "lacks file_url_rx time_char" "lacks unix_path_rx time_char"
proof -
  show "lacks private_key_rx time_char" "lacks file_url_rx time_char"
    by (simp_all add: private_key_rx_def file_url_rx_def Let_def time_text other_letters_def del: rx_text_ci.simps)
  have "lacks (RChar js_space) time_char" using not_time(1) by auto
  then show "lacks bearer_rx time_char" by (simp add: bearer_rx_def rx_plus_def del: rx_text_ci.simps)
  have "lacks secret_words_rx time_char"
    by (simp add: secret_words_rx_def Let_def time_text other_letters_def del: rx_text_ci.simps)
  then show "lacks secret_rx time_char" by (simp add: secret_rx_def del: rx_text_ci.simps)
  have "lacks (RChar (\<lambda>c. c = backslash \<or> c = CHR ''/'')) time_char" using not_time(2) by auto
  then show "lacks drive_path_rx time_char" by (simp add: drive_path_rx_def Let_def)
  have "lacks (RChar (\<lambda>c. c = backslash)) time_char" using not_time(2) by auto
  then show "lacks unc_path_rx time_char" by (simp add: unc_path_rx_def)
  have "lacks (RChar (\<lambda>c. c = CHR ''/'')) time_char" using not_time(2) by auto
  then show "lacks unix_path_rx time_char" by (simp add: unix_path_rx_def del: rx_text_ci.simps)
qed

lemma redact_plain:
  assumes "list_all plain_char s \<or> list_all time_char s"
  shows "redactText s = replace_all opaque_rx (\<lambda>_. REDACTED) s"
proof -
  have "replace_all r f s = s" if "lacks r plain_char" "lacks r time_char" for r f
    using assms that replace_lacking [of plain_char s r f] replace_lacking [of time_char s r f] by blast
  then show ?thesis by (simp add: redactText_def Let_def plain_lacks time_lacks)
qed

lemma redact_plain_printed:
  assumes "list_all plain_char s \<or> list_all time_char s"
  shows "length (redactText s) \<le> length s" "list_all printed_char (redactText s)"
proof -
  have *: "list_all printed_char s"
    using assms by (auto simp: list_all_iff printed_char_def plain_code time_code Let_def simp flip: of_char_eq_iff [where 'a = nat])
  show "length (redactText s) \<le> length s"
    unfolding redact_plain [OF assms] by (rule replace_length) (simp add: opaque_rx_def REDACTED_def)
  have "list_all printed_char REDACTED" by code_simp
  with * show "list_all printed_char (redactText s)"
    unfolding redact_plain [OF assms] by (intro replace_chars)
qed

lemma json_quote_printed: "list_all printed_char s \<Longrightarrow> length (json_quote s) = length s + 2"
proof -
  have "json_escape c = [c]" if "printed_char c" for c
  proof -
    have "(32 :: nat) \<le> of_char c" "c \<noteq> dquote_char" "c \<noteq> backslash" using that by (auto simp: printed_char_def)
    moreover from this(1) have "c \<noteq> CHR 0x08" "c \<noteq> CHR 0x09" "c \<noteq> newline" "c \<noteq> CHR 0x0C" "c \<noteq> return_char"
      by auto
    ultimately show ?thesis by (simp add: json_escape_def)
  qed
  then show "list_all printed_char s \<Longrightarrow> ?thesis"
    by (simp add: json_quote_def) (induction s, auto)
qed

section \<open>Opaque references\<close>

lemma repeated_chars:
  "repeated n (matches s (RChar p)) i caps =
   (if i + n \<le> length s \<and> list_all p (take n (drop i s)) then [(i + n, caps)] else [])
   \<or> (n = 0 \<and> repeated n (matches s (RChar p)) i caps = [(i, caps)])"
proof (induction n arbitrary: i)
  case (Suc n)
  show ?case
  proof (cases "i < length s")
    case True
    then have "drop i s = s ! i # drop (Suc i) s" by (simp add: Cons_nth_drop_Suc)
    with Suc [of "Suc i"] True show ?thesis by auto
  qed simp
qed simp

lemma repeated_some_chars:
  "0 < n \<Longrightarrow> matches s (RTimes n (RChar p)) i caps =
   (if i + n \<le> length s \<and> list_all p (take n (drop i s)) then [(i + n, caps)] else [])"
  using repeated_chars [of n s p i caps] by simp

text \<open>A reference whose ends are letters, digits or underscores is replaced, any other is kept.\<close>

lemma opaque_word: "opaque_char c \<Longrightarrow> rx_word_char c \<longleftrightarrow> c \<noteq> CHR ''-''"
  by (auto simp: opaque_char_def rx_word_char_def is_alnum_def is_alpha_def char_code_simps)

lemma redact_reference:
  assumes "opaque_reference s"
  shows "redactText s = (if hd s \<noteq> CHR ''-'' \<and> last s \<noteq> CHR ''-'' then REDACTED else s)"
proof -
  have l: "length s = 43" "list_all opaque_char s" using assms by (simp_all add: opaque_reference_def)
  then have ne: "s \<noteq> []" by auto
  have plain: "list_all plain_char s" using l(2) by (auto simp: list_all_iff opaque_char_def plain_char_def)
  have ends: "at_boundary s 0 \<longleftrightarrow> hd s \<noteq> CHR ''-''" "at_boundary s 43 \<longleftrightarrow> last s \<noteq> CHR ''-''"
    using l ne opaque_word [of "s ! 0"] opaque_word [of "s ! 42"]
    by (simp_all add: at_boundary_def word_at_def hd_conv_nth last_conv_nth list_all_length)
  have first: "matches s opaque_rx 0 [] = (if hd s \<noteq> CHR ''-'' \<and> last s \<noteq> CHR ''-'' then [(43, [])] else [])"
    using l by (simp add: opaque_rx_def repeated_some_chars ends del: matches.simps(7))
  have later: "matches s opaque_rx i caps = []" if "0 < i" for i caps
    using l(1) that by (auto simp: opaque_rx_def repeated_some_chars simp del: matches.simps(7))
  have rest: "replace_from opaque_rx (\<lambda>_. REDACTED) s i = drop i s" if "0 < i" for i
    using that
  proof (induction "length s - i" arbitrary: i)
    case 0
    then show ?case by (subst replace_from.simps) simp
  next
    case (Suc n)
    then have "replace_from opaque_rx (\<lambda>_. REDACTED) s (Suc i) = drop (Suc i) s" by simp
    with Suc.hyps(2) later [OF Suc.prems] show ?case by (subst replace_from.simps) (simp add: Cons_nth_drop_Suc)
  qed
  show ?thesis
    unfolding redact_plain [OF disjI1, OF plain] replace_all_def
    by (subst replace_from.simps) (use l ne rest [of 43] rest [of 1] in \<open>auto simp: first hd_drop_conv_nth neq_Nil_conv\<close>)
qed

end
