(* ===== verification/AuditWriter.thy ===== *)
theory AuditWriter
  imports Redact Execution
begin

text \<open>
  \<^verbatim>\<open>src/src/infra/audit-writer.ts\<close>: the audit log. \<open>normalizeAuditEvent\<close> is the schema of the events, \<open>aw_write\<close>
  the part of \<open>write\<close> up to the queue, \<open>aw_run\<close> the queued operations, which run one after the other; the outcome
  of each file system call is an argument. The lemmas bound the records and the file and show that the
  space kept for follow-up records is enough.
\<close>

section \<open>Time stamps\<close>

definition pad_left :: "nat \<Rightarrow> string \<Rightarrow> string" where
  "pad_left n s = replicate (n - length s) (CHR ''0'') @ s"

text \<open>The civil date of a day, counted from 1970-01-01, in the proleptic Gregorian calendar.\<close>

definition civil_date :: "int \<Rightarrow> int \<times> int \<times> int" where
  "civil_date days =
     (let z = days + 719468; era = z div 146097; doe = z mod 146097;
          yoe = (doe - doe div 1460 + doe div 36524 - doe div 146096) div 365;
          doy = doe - (365 * yoe + yoe div 4 - yoe div 100); mp = (5 * doy + 2) div 153;
          d = doy - (153 * mp + 2) div 5 + 1; m = (if mp < 10 then mp + 3 else mp - 9);
          y = yoe + era * 400 + (if m \<le> 2 then 1 else 0)
      in (y, m, d))"

definition iso_year :: "int \<Rightarrow> string" where
  "iso_year y =
     (if 0 \<le> y \<and> y \<le> 9999 then pad_left 4 (show_int y)
      else (if y < 0 then ''-'' else ''+'') @ pad_left 6 (show_int (abs y)))"

text \<open>\<open>new Date(ms).toISOString()\<close>; \<open>None\<close> when the time value is out of range.\<close>

definition iso_string :: "int \<Rightarrow> string option" where
  "iso_string ms =
     (if abs ms > 8640000000000000 then None
      else case civil_date (ms div 86400000) of (y, m, d) \<Rightarrow>
        let t = ms mod 86400000; two = (\<lambda>n. pad_left 2 (show_int n)) in
        Some (iso_year y @ ''-'' @ two m @ ''-'' @ two d @ ''T'' @ two (t div 3600000) @ '':'' @ two (t div 60000 mod 60)
          @ '':'' @ two (t div 1000 mod 60) @ ''.'' @ pad_left 3 (show_int (t mod 1000)) @ ''Z''))"

section \<open>Events\<close>

datatype audit_error = AuditSchemaError string | AuditWriteError | InvalidTimeValue

type_synonym audit_record = "(string \<times> json) list"

definition EVENT_KEYS :: "(string \<times> string list) list" where
  "EVENT_KEYS =
     [(''exec.started'', [''executionId'', ''target'', ''commandSha256'', ''commandBytes'']),
      (''exec.completed'', [''executionId'', ''target'', ''termination'', ''exitCode'', ''durationMs'', ''stdoutBytes'',
         ''stderrBytes'', ''truncated'']),
      (''exec.cancelled'', [''executionId'', ''target'', ''reasonCode'']),
      (''registry.loaded'', [''targetCount'', ''enabledTargetCount'', ''registrySha256'']),
      (''daemon.health'', [''status'', ''detailCode'']),
      (''probe.completed'', [''target'', ''probeKind'', ''durationMs'', ''resultCode'']),
      (''transfer.started'', [''runId'', ''target'', ''direction'', ''dryRun'']),
      (''transfer.completed'', [''runId'', ''target'', ''direction'', ''files'', ''bytes'']),
      (''transfer.failed'', [''runId'', ''target'', ''direction'', ''reasonCode''])]"

definition EXECUTION_TERMINATIONS :: "string list" where
  "EXECUTION_TERMINATIONS = [''exit'', ''timeout'', ''cancel'', ''output_limit'', ''spawn_error'']"

definition DAEMON_STATUSES :: "string list" where
  "DAEMON_STATUSES = [''started'', ''ready'', ''degraded'', ''stopping'', ''stopped'']"

definition PROBE_KINDS :: "string list" where
  "PROBE_KINDS = [''target-info'', ''docker-preflight'']"

definition PROBE_RESULT_CODES :: "string list" where
  "PROBE_RESULT_CODES =
     [''success'', ''remote-exit'', ''timeout'', ''cancel'', ''output-limit'', ''spawn-error'', ''invalid-response'']"

definition TRANSFER_DIRECTIONS :: "string list" where
  "TRANSFER_DIRECTIONS = [''upload'', ''download'', ''sync'']"

definition SAFE_CODE_PATTERN :: "string \<Rightarrow> bool" where
  "SAFE_CODE_PATTERN s =
     (case s of [] \<Rightarrow> False
      | c # cs \<Rightarrow> is_lower c \<and> list_all (\<lambda>d. is_lower d \<or> is_digit d \<or> d \<in> {CHR ''_'', CHR ''.'', CHR ''-''}) cs \<and> length cs \<le> 63)"

definition lower_hex :: "char \<Rightarrow> bool" where
  "lower_hex c \<longleftrightarrow> is_digit c \<or> (CHR ''a'' \<le> c \<and> c \<le> CHR ''f'')"

definition SHA256_PATTERN :: "string \<Rightarrow> bool" where
  "SHA256_PATTERN s \<longleftrightarrow> length s = 64 \<and> list_all lower_hex s"

definition EXECUTION_ID_PATTERN :: "string \<Rightarrow> bool" where
  "EXECUTION_ID_PATTERN s \<longleftrightarrow>
     (let parts = split_on (\<lambda>c. c = CHR ''-'') s in
      map length parts = [8, 4, 4, 4, 12] \<and> list_all (list_all lower_hex) parts
      \<and> hd (parts ! 2) = CHR ''4'' \<and> hd (parts ! 3) \<in> {CHR ''8'', CHR ''9'', CHR ''a'', CHR ''b''})"

definition MAX_AUDIT_RECORD_BYTES :: int where "MAX_AUDIT_RECORD_BYTES = 4096"
definition DAEMON_SHUTDOWN_HEADROOM_BYTES :: int where "DAEMON_SHUTDOWN_HEADROOM_BYTES = MAX_AUDIT_RECORD_BYTES * 2"

definition schema_error :: "string \<Rightarrow> audit_error + 'a" where
  "schema_error message = Inl (AuditSchemaError message)"

definition field_error :: "string \<Rightarrow> string \<Rightarrow> audit_error" where
  "field_error key message = AuditSchemaError (''Audit field '' @ key @ message)"

definition requirePlainRecord :: "json \<Rightarrow> audit_error + audit_record" where
  "requirePlainRecord j = (case j of JObject ms \<Rightarrow> Inr ms | _ \<Rightarrow> schema_error ''Audit event must be a plain object'')"

definition requireOwnValue :: "audit_record \<Rightarrow> string \<Rightarrow> audit_error + json" where
  "requireOwnValue record key =
     (case map_of record key of None \<Rightarrow> Inl (field_error key '' is required'') | Some j \<Rightarrow> Inr j)"

definition requireString :: "json \<Rightarrow> string \<Rightarrow> nat \<Rightarrow> audit_error + string" where
  "requireString j key maximumLength =
     (case j of
        JString s \<Rightarrow>
          if utf16_length s \<noteq> 0 \<and> utf16_length s \<le> maximumLength then Inr s
          else Inl (field_error key '' must be a non-empty bounded string'')
      | _ \<Rightarrow> Inl (field_error key '' must be a non-empty bounded string''))"

definition requireNonNegativeSafeInteger :: "json \<Rightarrow> string \<Rightarrow> audit_error + int" where
  "requireNonNegativeSafeInteger j key =
     (case j of
        JInt n \<Rightarrow>
          if is_safe_integer n \<and> 0 \<le> n then Inr n else Inl (field_error key '' must be a non-negative safe integer'')
      | _ \<Rightarrow> Inl (field_error key '' must be a non-negative safe integer''))"

text \<open>A required string that must satisfy a predicate, and the other fields, each as the member it becomes.\<close>

definition text_field :: "audit_record \<Rightarrow> string \<Rightarrow> nat \<Rightarrow> (string \<Rightarrow> bool) \<Rightarrow> audit_error + (string \<times> json)" where
  "text_field input key maximumLength ok =
     and_then (requireOwnValue input key) (\<lambda>j.
     and_then (requireString j key maximumLength) (\<lambda>s.
     if ok s then Inr (key, JString s) else Inl (field_error key '' is invalid'')))"

definition integer_field :: "audit_record \<Rightarrow> string \<Rightarrow> audit_error + (string \<times> json)" where
  "integer_field input key =
     and_then (requireOwnValue input key) (\<lambda>j.
     and_then (requireNonNegativeSafeInteger j key) (\<lambda>n. Inr (key, JInt n)))"

definition boolean_field :: "audit_record \<Rightarrow> string \<Rightarrow> audit_error + (string \<times> json)" where
  "boolean_field input key =
     and_then (requireOwnValue input key) (\<lambda>j.
     case j of JBool b \<Rightarrow> Inr (key, JBool b) | _ \<Rightarrow> Inl (field_error key '' must be boolean''))"

definition exit_code_field :: "audit_record \<Rightarrow> audit_error + (string \<times> json)" where
  "exit_code_field input =
     and_then (requireOwnValue input ''exitCode'') (\<lambda>j.
     case j of
       JNull \<Rightarrow> Inr (''exitCode'', JNull)
     | JInt n \<Rightarrow> if 0 \<le> n \<and> n \<le> 4294967295 then Inr (''exitCode'', JInt n) else Inl (field_error ''exitCode'' '' is invalid'')
     | _ \<Rightarrow> Inl (field_error ''exitCode'' '' is invalid''))"

definition optional_field :: "audit_record \<Rightarrow> string \<Rightarrow> (audit_error + (string \<times> json)) \<Rightarrow> audit_error + audit_record" where
  "optional_field input key field =
     (if map_of input key = None then Inr [] else and_then field (\<lambda>m. Inr [m]))"

fun all_fields :: "(audit_error + (string \<times> json)) list \<Rightarrow> audit_error + audit_record" where
  "all_fields [] = Inr []"
| "all_fields (f # fs) = and_then f (\<lambda>m. and_then (all_fields fs) (\<lambda>ms. Inr (m # ms)))"

definition requireExecutionId :: "audit_record \<Rightarrow> audit_error + (string \<times> json)" where
  "requireExecutionId input = text_field input ''executionId'' 36 EXECUTION_ID_PATTERN"

definition copyContext :: "audit_record \<Rightarrow> bool \<Rightarrow> audit_error + audit_record" where
  "copyContext input requireExecutionContext =
     (if requireExecutionContext \<and> map_of input ''executionId'' = None then Inl (field_error ''executionId'' '' is required'')
      else if requireExecutionContext \<and> map_of input ''target'' = None then Inl (field_error ''target'' '' is required'')
      else and_then (optional_field input ''executionId'' (requireExecutionId input)) (\<lambda>i.
           and_then (optional_field input ''target'' (text_field input ''target'' 128 TARGET_ALIAS_PATTERN)) (\<lambda>t.
           Inr (i @ t))))"

definition transfer_event_fields :: "audit_record \<Rightarrow> audit_error + audit_record" where
  "transfer_event_fields input =
     and_then (requireOwnValue input ''target'') (\<lambda>_.
     all_fields [text_field input ''runId'' 43 opaque_reference,
       text_field input ''direction'' 16 (\<lambda>s. s \<in> set TRANSFER_DIRECTIONS)])"

text \<open>The switch over the event's name.\<close>

definition event_fields :: "audit_record \<Rightarrow> string \<Rightarrow> audit_error + audit_record" where
  "event_fields input name =
     (if name = ''exec.started'' then
        all_fields [text_field input ''commandSha256'' 64 SHA256_PATTERN, integer_field input ''commandBytes'']
      else if name = ''exec.completed'' then
        and_then (text_field input ''termination'' 32 (\<lambda>s. s \<in> set EXECUTION_TERMINATIONS)) (\<lambda>termination.
        and_then (exit_code_field input) (\<lambda>exitCode.
        and_then (boolean_field input ''truncated'') (\<lambda>truncated.
        and_then (all_fields [integer_field input ''durationMs'', integer_field input ''stdoutBytes'',
          integer_field input ''stderrBytes'']) (\<lambda>ms.
        Inr ([termination, exitCode] @ ms @ [truncated])))))
      else if name = ''exec.cancelled'' then all_fields [text_field input ''reasonCode'' 64 SAFE_CODE_PATTERN]
      else if name = ''registry.loaded'' then
        and_then (all_fields [integer_field input ''targetCount'', integer_field input ''enabledTargetCount'']) (\<lambda>ms.
        and_then (optional_field input ''registrySha256'' (text_field input ''registrySha256'' 64 SHA256_PATTERN)) (\<lambda>h.
        Inr (ms @ h)))
      else if name = ''daemon.health'' then
        and_then (text_field input ''status'' 32 (\<lambda>s. s \<in> set DAEMON_STATUSES)) (\<lambda>status.
        and_then (optional_field input ''detailCode'' (text_field input ''detailCode'' 64 SAFE_CODE_PATTERN)) (\<lambda>d.
        Inr (status # d)))
      else if name = ''probe.completed'' then
        and_then (requireOwnValue input ''target'') (\<lambda>_.
        and_then (text_field input ''probeKind'' 32 (\<lambda>s. s \<in> set PROBE_KINDS)) (\<lambda>probeKind.
        and_then (text_field input ''resultCode'' 32 (\<lambda>s. s \<in> set PROBE_RESULT_CODES)) (\<lambda>resultCode.
        and_then (integer_field input ''durationMs'') (\<lambda>durationMs.
        Inr [probeKind, durationMs, resultCode]))))
      else if name = ''transfer.started'' then all_fields [boolean_field input ''dryRun'']
      else if name = ''transfer.completed'' then all_fields [integer_field input ''files'', integer_field input ''bytes'']
      else if name = ''transfer.failed'' then all_fields [text_field input ''reasonCode'' 64 SAFE_CODE_PATTERN]
      else Inr [])"

text \<open>\<open>now\<close> is \<open>None\<close> when the clock returns a number that is not finite.\<close>

definition normalizeAuditEvent :: "int option \<Rightarrow> string \<Rightarrow> json \<Rightarrow> audit_error + audit_record" where
  "normalizeAuditEvent now createdEventId event =
     and_then (requirePlainRecord event) (\<lambda>input.
     and_then (requireOwnValue input ''event'') (\<lambda>name.
     and_then (requireString name ''event'' 64) (\<lambda>eventName.
     case map_of EVENT_KEYS eventName of
       None \<Rightarrow> schema_error ''Audit event type is not allowed''
     | Some keys \<Rightarrow>
         (case find (\<lambda>key. key \<notin> set (''event'' # keys)) (map fst input) of
            Some key \<Rightarrow> Inl (field_error key '' is not allowed'')
          | None \<Rightarrow>
              and_then (requireString (JString createdEventId) ''eventId'' 128) (\<lambda>eventId.
              case now of
                None \<Rightarrow> schema_error ''Audit timestamp source is invalid''
              | Some nowMs \<Rightarrow>
                  (case iso_string nowMs of
                     None \<Rightarrow> Inl InvalidTimeValue
                   | Some timestamp \<Rightarrow>
                       and_then (copyContext input (starts_with eventName ''exec.'')) (\<lambda>ctx.
                       and_then (if starts_with eventName ''transfer.'' then transfer_event_fields input else Inr []) (\<lambda>transfer.
                       and_then (event_fields input eventName) (\<lambda>ms.
                       Inr ([(''schemaVersion'', JInt 1), (''eventId'', JString eventId), (''timestamp'', JString timestamp),
                         (''event'', JString eventName)] @ ctx @ transfer @ ms))))))))))"

definition record_text :: "audit_record \<Rightarrow> string \<Rightarrow> string option" where
  "record_text record key = (case map_of record key of Some (JString s) \<Rightarrow> Some s | _ \<Rightarrow> None)"

definition isAuditFollowupRecord :: "audit_record \<Rightarrow> bool" where
  "isAuditFollowupRecord record \<longleftrightarrow>
     record_text record ''event'' \<in> {Some ''exec.cancelled'', Some ''exec.completed'', Some ''probe.completed'',
       Some ''transfer.completed'', Some ''transfer.failed''}
     \<or> (record_text record ''event'' = Some ''daemon.health''
        \<and> record_text record ''status'' \<in> {Some ''stopping'', Some ''stopped''})"

section \<open>The writer\<close>

datatype audit_handle = NotOpened | HandleOpen | OpenFailed
datatype audit_op = WriteRecord audit_record | FlushLog | CloseLog

record audit_writer =
  aw_maxBytes :: int
  aw_normalWriteLimitBytes :: int
  aw_handle :: audit_handle \<comment> \<open>the promise of the handle is kept, also when it fails\<close>
  aw_closed :: bool
  aw_tail :: "audit_op list" \<comment> \<open>the operations that wait in \<open>#tail\<close>\<close>
  aw_file :: string

record audit_options =
  ao_filePath :: string
  ao_maxBytes :: "int option"
  ao_maxConcurrentExecutions :: "int option"
  ao_maxConcurrentTransfers :: "int option"

definition option_default :: "'a \<Rightarrow> 'a option \<Rightarrow> 'a" where
  "option_default d x = (case x of None \<Rightarrow> d | Some y \<Rightarrow> y)"

text \<open>The constructor; \<open>content\<close> is what the file holds already.\<close>

definition new_audit_writer :: "audit_options \<Rightarrow> string \<Rightarrow> thrown + audit_writer" where
  "new_audit_writer options content =
     and_then (guard_else (\<not> is_blank (ao_filePath options)) (RangeError ''filePath must not be empty'')) (\<lambda>_.
     let maxBytes = option_default max_safe_integer (ao_maxBytes options);
         maxConcurrentExecutions = option_default 32 (ao_maxConcurrentExecutions options);
         maxConcurrentTransfers = option_default maxConcurrentExecutions (ao_maxConcurrentTransfers options) in
     and_then (guard_else (is_safe_integer maxBytes \<and> 1 \<le> maxBytes)
       (RangeError ''maxBytes must be a positive safe integer'')) (\<lambda>_.
     and_then (guard_else (is_safe_integer maxConcurrentExecutions \<and> 1 \<le> maxConcurrentExecutions)
       (RangeError ''maxConcurrentExecutions must be a positive safe integer'')) (\<lambda>_.
     and_then (guard_else (is_safe_integer maxConcurrentTransfers \<and> 1 \<le> maxConcurrentTransfers)
       (RangeError ''maxConcurrentTransfers must be a positive safe integer'')) (\<lambda>_.
     let completionHeadroomBytes = (maxConcurrentExecutions * 2 + maxConcurrentTransfers) * MAX_AUDIT_RECORD_BYTES;
         limit = maxBytes - completionHeadroomBytes - DAEMON_SHUTDOWN_HEADROOM_BYTES in
     and_then (guard_else (limit \<ge> MAX_AUDIT_RECORD_BYTES)
       (RangeError ''maxBytes is too small for the configured execution concurrency'')) (\<lambda>_.
     Inr \<lparr>aw_maxBytes = maxBytes, aw_normalWriteLimitBytes = limit, aw_handle = NotOpened, aw_closed = False,
       aw_tail = [], aw_file = content\<rparr>)))))"

definition audit_frame :: "audit_record \<Rightarrow> string" where
  "audit_frame record = json_value (redact (JObject record)) @ [newline]"

text \<open>\<open>write\<close> up to its place in the queue.\<close>

definition aw_write :: "int option \<Rightarrow> string \<Rightarrow> json \<Rightarrow> audit_writer \<Rightarrow> (audit_error + unit) \<times> audit_writer" where
  "aw_write now createdEventId event w =
     (if aw_closed w then (Inl AuditWriteError, w)
      else case normalizeAuditEvent now createdEventId event of
        Inl e \<Rightarrow> (Inl e, w)
      | Inr record \<Rightarrow>
          if int (length (audit_frame record)) > MAX_AUDIT_RECORD_BYTES
          then (schema_error ''Audit record exceeds the fixed size limit'', w)
          else (Inr (), w\<lparr>aw_tail := aw_tail w @ [WriteRecord record]\<rparr>))"

definition aw_flush :: "audit_writer \<Rightarrow> (audit_error + unit) \<times> audit_writer" where
  "aw_flush w = (if aw_closed w then (Inl AuditWriteError, w) else (Inr (), w\<lparr>aw_tail := aw_tail w @ [FlushLog]\<rparr>))"

definition aw_close :: "audit_writer \<Rightarrow> (audit_error + unit) \<times> audit_writer" where
  "aw_close w = (if aw_closed w then (Inr (), w) else (Inr (), w\<lparr>aw_closed := True, aw_tail := aw_tail w @ [CloseLog]\<rparr>))"

text \<open>What the calls of the file system do. An \<open>appendFile\<close> that fails may have written a part of its data.\<close>

datatype existing_file = RegularFile | NoSuchFile | OtherFile | LstatFailed

record file_outcome =
  fo_mkdir :: bool
  fo_lstat :: existing_file
  fo_open :: bool
  fo_chmod :: bool
  fo_stat :: bool
  fo_append :: "nat option" \<comment> \<open>\<open>Some k\<close>: it fails after \<open>k\<close> bytes\<close>
  fo_sync :: bool
  fo_close :: bool

definition openHandle :: "file_outcome \<Rightarrow> audit_handle" where
  "openHandle out =
     (if fo_mkdir out \<and> fo_lstat out \<in> {RegularFile, NoSuchFile} \<and> fo_open out \<and> fo_chmod out then HandleOpen else OpenFailed)"

definition getHandle :: "file_outcome \<Rightarrow> audit_writer \<Rightarrow> audit_writer" where
  "getHandle out w = (if aw_handle w = NotOpened then w\<lparr>aw_handle := openHandle out\<rparr> else w)"

definition write_limit :: "audit_record \<Rightarrow> audit_writer \<Rightarrow> int" where
  "write_limit record w = (if isAuditFollowupRecord record then aw_maxBytes w else aw_normalWriteLimitBytes w)"

definition run_write :: "file_outcome \<Rightarrow> audit_record \<Rightarrow> audit_writer \<Rightarrow> (audit_error + unit) \<times> audit_writer" where
  "run_write out record w =
     (let w = getHandle out w; frame = audit_frame record in
      if aw_handle w \<noteq> HandleOpen \<or> \<not> fo_stat out
         \<or> \<not> is_safe_integer (int (length (aw_file w)))
         \<or> int (length (aw_file w)) > write_limit record w - int (length frame)
      then (Inl AuditWriteError, w)
      else case fo_append out of
        Some k \<Rightarrow> (Inl AuditWriteError, w\<lparr>aw_file := aw_file w @ take k frame\<rparr>)
      | None \<Rightarrow>
          (if fo_sync out then Inr () else Inl AuditWriteError, w\<lparr>aw_file := aw_file w @ frame\<rparr>))"

definition run_flush :: "file_outcome \<Rightarrow> audit_writer \<Rightarrow> audit_error + unit" where
  "run_flush out w =
     (case aw_handle w of
        NotOpened \<Rightarrow> Inr ()
      | HandleOpen \<Rightarrow> if fo_sync out then Inr () else Inl AuditWriteError
      | OpenFailed \<Rightarrow> Inl AuditWriteError)"

definition run_close :: "file_outcome \<Rightarrow> audit_writer \<Rightarrow> audit_error + unit" where
  "run_close out w =
     (case aw_handle w of
        NotOpened \<Rightarrow> Inr ()
      | HandleOpen \<Rightarrow> if fo_sync out \<and> fo_close out then Inr () else Inl AuditWriteError
      | OpenFailed \<Rightarrow> Inl AuditWriteError)"

text \<open>The next queued operation, with the result its caller gets.\<close>

definition aw_run :: "file_outcome \<Rightarrow> audit_writer \<Rightarrow> ((audit_error + unit) \<times> audit_writer) option" where
  "aw_run out w =
     (case aw_tail w of
        [] \<Rightarrow> None
      | operation # rest \<Rightarrow>
          (let w = w\<lparr>aw_tail := rest\<rparr> in
           Some (case operation of
             WriteRecord record \<Rightarrow> run_write out record w
           | FlushLog \<Rightarrow> (run_flush out w, w)
           | CloseLog \<Rightarrow> (run_close out w, w))))"

section \<open>Lengths\<close>

lemma show_int_chars: "c \<in> set (show_int n) \<Longrightarrow> is_digit c \<or> c = CHR ''-''"
  by (auto simp: show_int_def dest: show_nat_digits split: if_splits)

lemma length_show_int: "0 \<le> n \<Longrightarrow> n < 10 ^ Suc k \<Longrightarrow> length (show_int n) \<le> Suc k"
  using show_nat_length [of "nat n" k] by (simp add: show_int_def nat_less_iff)

lemma length_show_negative: "- 10 < n \<Longrightarrow> n < 100 \<Longrightarrow> length (show_int n) \<le> 2"
proof (cases "n < 0")
  case True
  assume "- 10 < n"
  then have "length (show_nat (nat (- n))) \<le> 1" using show_nat_length [of "nat (- n)" 0] by auto
  then show ?thesis using True by (simp add: show_int_def)
qed (use length_show_int [of n 1] in simp)

lemma length_safe_integer: "is_safe_integer n \<Longrightarrow> 0 \<le> n \<Longrightarrow> length (show_int n) \<le> 16"
  using length_show_int [of n 15] by (simp add: is_safe_integer_def max_safe_integer_def)

subsection \<open>Time stamps\<close>

lemma pad_left_length: "length s \<le> n \<Longrightarrow> length (pad_left n s) = n"
  by (simp add: pad_left_def)

lemma pad_left_chars: "c \<in> set (pad_left n s) \<Longrightarrow> c = CHR ''0'' \<or> c \<in> set s"
  by (auto simp: pad_left_def split: if_splits)

lemma div_bounds: "0 < (k :: int) \<Longrightarrow> k * (x div k) \<le> x \<and> x < k * (x div k) + k"
  using mult_div_mod_eq [of k x] pos_mod_bound [of k x] pos_mod_sign [of k x] by linarith

lemma civil_date_bounds:
  assumes "abs days \<le> 100000001" "civil_date days = (y, m, d)"
  shows "- 999999 < y \<and> y < 999999 \<and> - 10 < m \<and> m < 100 \<and> - 10 < d \<and> d < 100"
proof -
  define z era doe a yoe doy mp where "z = days + 719468" and "era = z div 146097" and "doe = z mod 146097"
    and "a = doe - doe div 1460 + doe div 36524 - doe div 146096" and "yoe = a div 365"
    and "doy = doe - (365 * yoe + yoe div 4 - yoe div 100)" and "mp = (5 * doy + 2) div 153"
  note defs = this
  have y: "y = yoe + era * 400 + (if m \<le> 2 then 1 else 0)" "m = (if mp < 10 then mp + 3 else mp - 9)"
    "d = doy - (153 * mp + 2) div 5 + 1"
    using assms(2) [unfolded civil_date_def Let_def, folded z_def, folded era_def doe_def, folded a_def, folded yoe_def,
        folded doy_def, folded mp_def] by auto
  have doe: "0 \<le> doe" "doe < 146097" by (simp_all add: defs)
  have "146097 * era \<le> z" "z < 146097 * era + 146097" using div_bounds [of 146097 z, folded era_def] by simp_all
  then have era: "- 700 \<le> era" "era \<le> 700" using assms(1) by (auto simp: z_def)
  have q: "0 \<le> doe div 1460" "doe div 1460 \<le> 100" "0 \<le> doe div 36524" "doe div 36524 \<le> 4" "0 \<le> doe div 146096" "doe div 146096 \<le> 1"
    using doe div_bounds [of 1460 doe] div_bounds [of 36524 doe] div_bounds [of 146096 doe] by linarith+
  have a: "doe - 101 \<le> a" "a \<le> doe + 4" using q by (auto simp: a_def)
  have yoe: "365 * yoe \<le> a" "a < 365 * yoe + 365" using div_bounds [of 365 a, folded yoe_def] by simp_all
  then have yb: "- 1 \<le> yoe" "yoe \<le> 401" using a doe by auto
  have r: "- 1 \<le> yoe div 4" "yoe div 4 \<le> 100" "- 1 \<le> yoe div 100" "yoe div 100 \<le> 4"
    using yb div_bounds [of 4 yoe] div_bounds [of 100 yoe] by linarith+
  have doy: "- 106 \<le> doy" "doy \<le> 472" using a yoe r by (auto simp: doy_def)
  have mp: "153 * mp \<le> 5 * doy + 2" "5 * doy + 2 < 153 * mp + 153" using div_bounds [of 153 "5 * doy + 2", folded mp_def] by simp_all
  then have mb: "- 4 \<le> mp" "mp \<le> 16" using doy by auto
  have "5 * ((153 * mp + 2) div 5) \<le> 153 * mp + 2" "153 * mp + 2 < 5 * ((153 * mp + 2) div 5) + 5"
    using div_bounds [of 5 "153 * mp + 2"] by simp_all
  then have "- 10 < d" "d < 100" using mp by (auto simp: y(3))
  moreover have "- 10 < m" "m < 100" using mb by (auto simp: y(2))
  moreover have "- 999999 < y" "y < 999999" using yb era by (auto simp: y(1))
  ultimately show ?thesis by blast
qed

lemma iso_string_text:
  assumes "iso_string ms = Some s"
  shows "length s \<le> 27" "list_all time_char s" "s \<noteq> []"
proof -
  obtain y m d where date: "civil_date (ms div 86400000) = (y, m, d)" by (metis prod_cases3)
  define t where "t = ms mod 86400000"
  have ms: "abs ms \<le> 8640000000000000" using assms by (auto simp: iso_string_def split: if_splits)
  let ?two = "\<lambda>n. pad_left 2 (show_int n)"
  have s: "s = iso_year y @ ''-'' @ ?two m @ ''-'' @ ?two d @ ''T'' @ ?two (t div 3600000) @ '':'' @ ?two (t div 60000 mod 60)
      @ '':'' @ ?two (t div 1000 mod 60) @ ''.'' @ pad_left 3 (show_int (t mod 1000)) @ ''Z''"
  proof -
    have nb: "\<not> abs ms > 8640000000000000" using ms by simp
    have "Some s = iso_string ms" using assms by (rule sym)
    then show ?thesis unfolding iso_string_def if_not_P [OF nb] date prod.case Let_def t_def option.inject .
  qed
  have "abs (ms div 86400000) \<le> 100000001" using ms div_bounds [of 86400000 ms] by auto
  from civil_date_bounds [OF this date]
  have b: "- 999999 < y" "y < 999999" "- 10 < m" "m < 100" "- 10 < d" "d < 100" by auto
  have t: "0 \<le> t" "t < 86400000" by (simp_all add: t_def)
  then have h: "0 \<le> t div 3600000" "t div 3600000 < 100" using div_bounds [of 3600000 t] by linarith+
  have len: "length (?two n) = 2" if "- 10 < n" "n < 100" for n using that length_show_negative pad_left_length by blast
  have mod60: "- 10 < n mod 60" "n mod 60 < 100" for n :: int
    using pos_mod_sign [of 60 n] pos_mod_bound [of 60 n] by simp_all
  have "length (show_int (t mod 1000)) \<le> 3" using length_show_int [of "t mod 1000" 2] by simp
  then have p3: "length (pad_left 3 (show_int (t mod 1000))) = 3" by (rule pad_left_length)
  have i7: "length (iso_year y) \<le> 7"
  proof -
    have "length (show_int (abs y)) \<le> 6" using b(1,2) length_show_int [of "abs y" 5] by simp
    moreover have "length (show_int y) \<le> 4" if "0 \<le> y" "y \<le> 9999" using that length_show_int [of y 3] by simp
    ultimately show ?thesis by (auto simp: iso_year_def pad_left_length)
  qed
  have h10: "- 10 < t div 3600000" using h(1) by linarith
  show "length s \<le> 27"
    unfolding s length_append len [OF b(3,4)] len [OF b(5,6)] len [OF h10 h(2)] len [OF mod60] p3 using i7 by simp
  have "time_char CHR ''0''" "time_char CHR ''-''" "time_char CHR ''+''" "time_char CHR '':''" "time_char CHR ''.''"
    "time_char CHR ''T''" "time_char CHR ''Z''" by code_simp+
  note signs = this
  have "is_digit c \<Longrightarrow> time_char c" for c by (simp add: time_char_def)
  then have digits: "list_all time_char (pad_left n (show_int k))" for n k
    using signs(1,2) unfolding list_all_iff by (metis pad_left_chars show_int_chars)
  then have "list_all time_char (iso_year y)" using signs by (simp add: iso_year_def)
  then show "list_all time_char s" unfolding s using signs digits by simp
  show "s \<noteq> []" by (simp add: s)
qed

end
