(* ===== verification/AuditRecords.thy ===== *)
theory AuditRecords
  imports AuditWriter
begin

text \<open>
  The records of the audit log. \<open>normalize_shape\<close>: an accepted event becomes the four fields the writer adds and fields
  of the fixed list, each once, copied from the event; \<open>redact_record\<close>: what redaction does to such a record;
  \<open>frame_length\<close>: a bound on the printed line.
\<close>

section \<open>Records\<close>

text \<open>The fields a record can have, each with the most characters its printed value takes.\<close>

definition RECORD_WIDTHS :: "(string \<times> nat) list" where
  "RECORD_WIDTHS =
     [(''schemaVersion'', 1), (''eventId'', 38), (''timestamp'', 29), (''event'', 20), (''executionId'', 38), (''target'', 130),
      (''commandSha256'', 66), (''commandBytes'', 16), (''termination'', 14), (''exitCode'', 16), (''durationMs'', 16),
      (''stdoutBytes'', 16), (''stderrBytes'', 16), (''truncated'', 5), (''reasonCode'', 66), (''targetCount'', 16),
      (''enabledTargetCount'', 16), (''registrySha256'', 66), (''status'', 10), (''detailCode'', 66), (''probeKind'', 18),
      (''resultCode'', 18), (''runId'', 45), (''direction'', 10), (''dryRun'', 5), (''files'', 16), (''bytes'', 16)]"

definition value_ok :: "nat \<Rightarrow> json \<Rightarrow> bool" where
  "value_ok w v =
     (case v of
        JString s \<Rightarrow> length s + 2 \<le> w \<and> (list_all plain_char s \<or> list_all time_char s)
      | JInt n \<Rightarrow> length (show_int n) \<le> w
      | JBool b \<Rightarrow> 5 \<le> w
      | JNull \<Rightarrow> 4 \<le> w
      | _ \<Rightarrow> False)"

definition field_ok :: "string \<times> json \<Rightarrow> bool" where
  "field_ok kv = (case map_of RECORD_WIDTHS (fst kv) of None \<Rightarrow> False | Some w \<Rightarrow> value_ok w (snd kv))"

definition record_ok :: "audit_record \<Rightarrow> bool" where
  "record_ok record \<longleftrightarrow> distinct (map fst record) \<and> list_all field_ok record"

subsection \<open>Texts of fields\<close>

lemma plain_hex: "lower_hex c \<Longrightarrow> plain_char c"
  unfolding lower_hex_def plain_code is_digit_def less_eq_char_def Let_def by auto

lemma plain_alias: "TARGET_ALIAS_PATTERN s \<Longrightarrow> length s \<le> 128 \<and> list_all plain_char s"
  by (auto simp: TARGET_ALIAS_PATTERN_def plain_char_def alias_char_def list_all_iff split: list.splits)

lemma plain_code_text: "SAFE_CODE_PATTERN s \<Longrightarrow> length s \<le> 64 \<and> list_all plain_char s"
  by (auto simp: SAFE_CODE_PATTERN_def plain_char_def is_alnum_def is_alpha_def list_all_iff split: list.splits)

lemma plain_sha: "SHA256_PATTERN s \<Longrightarrow> length s \<le> 64 \<and> list_all plain_char s"
  by (auto simp: SHA256_PATTERN_def list_all_iff plain_hex)

lemma plain_reference: "opaque_reference s \<Longrightarrow> length s \<le> 43 \<and> list_all plain_char s"
  by (auto simp: opaque_reference_def opaque_char_def plain_char_def list_all_iff)

lemma plain_execution_id:
  assumes "EXECUTION_ID_PATTERN s"
  shows "length s \<le> 36" "list_all plain_char s"
proof -
  let ?parts = "split_on (\<lambda>c. c = CHR ''-'') s"
  have p: "map length ?parts = [8, 4, 4, 4, 12]" "list_all (list_all lower_hex) ?parts"
    using assms by (simp_all add: EXECUTION_ID_PATTERN_def Let_def)
  have "sum_list (map (\<lambda>x. Suc (length x)) ?parts) = sum_list (map Suc (map length ?parts))" by (simp add: comp_def)
  then show "length s \<le> 36" using length_split [of "\<lambda>c. c = CHR ''-''" s] p(1) by simp
  have "c = CHR ''-'' \<or> (\<exists>x \<in> set ?parts. c \<in> set x)" if "c \<in> set s" for c
    using that by (induction s) (auto split: list.splits)
  moreover have "plain_char CHR ''-''" by (simp add: plain_char_def)
  ultimately show "list_all plain_char s" using p(2) plain_hex unfolding list_all_iff by metis
qed

lemma plain_names:
  "list_all (\<lambda>s. length s \<le> 18 \<and> list_all plain_char s) (map fst EVENT_KEYS)"
  "list_all (\<lambda>s. length s \<le> 12 \<and> list_all plain_char s) EXECUTION_TERMINATIONS"
  "list_all (\<lambda>s. length s \<le> 8 \<and> list_all plain_char s) DAEMON_STATUSES"
  "list_all (\<lambda>s. length s \<le> 16 \<and> list_all plain_char s) PROBE_KINDS"
  "list_all (\<lambda>s. length s \<le> 16 \<and> list_all plain_char s) PROBE_RESULT_CODES"
  "list_all (\<lambda>s. length s \<le> 8 \<and> list_all plain_char s) TRANSFER_DIRECTIONS"
  by code_simp+

subsection \<open>Fields\<close>

lemma text_field_Inr: "text_field input key n ok = Inr m \<longleftrightarrow> (\<exists>s. map_of input key = Some (JString s) \<and> utf16_length s \<noteq> 0
    \<and> utf16_length s \<le> n \<and> ok s \<and> m = (key, JString s))"
  by (auto simp: text_field_def result_elims requireOwnValue_def requireString_def split: option.splits json.splits if_splits)

lemma integer_field_Inr: "integer_field input key = Inr m \<longleftrightarrow>
    (\<exists>n. map_of input key = Some (JInt n) \<and> is_safe_integer n \<and> 0 \<le> n \<and> m = (key, JInt n))"
  by (auto simp: integer_field_def result_elims requireOwnValue_def requireNonNegativeSafeInteger_def
      split: option.splits json.splits if_splits)

lemma boolean_field_Inr: "boolean_field input key = Inr m \<longleftrightarrow> (\<exists>b. map_of input key = Some (JBool b) \<and> m = (key, JBool b))"
  by (auto simp: boolean_field_def result_elims requireOwnValue_def split: option.splits json.splits)

lemma exit_code_field_Inr: "exit_code_field input = Inr m \<longleftrightarrow>
    (map_of input ''exitCode'' = Some JNull \<and> m = (''exitCode'', JNull))
    \<or> (\<exists>n. map_of input ''exitCode'' = Some (JInt n) \<and> 0 \<le> n \<and> n \<le> 4294967295 \<and> m = (''exitCode'', JInt n))"
  by (auto simp: exit_code_field_def result_elims requireOwnValue_def split: option.splits json.splits if_splits)

lemma optional_field_Inr: "optional_field input key field = Inr ms \<longleftrightarrow>
    (map_of input key = None \<and> ms = []) \<or> (map_of input key \<noteq> None \<and> (\<exists>m. field = Inr m \<and> ms = [m]))"
  by (auto simp: optional_field_def result_elims)

lemma all_fields_Inr:
  "all_fields [] = Inr ms \<longleftrightarrow> ms = []"
  "all_fields (f # fs) = Inr ms \<longleftrightarrow> (\<exists>x xs. f = Inr x \<and> all_fields fs = Inr xs \<and> ms = x # xs)"
  by (auto simp: result_elims)

lemmas field_elims = text_field_Inr integer_field_Inr boolean_field_Inr exit_code_field_Inr optional_field_Inr all_fields_Inr

lemma field_ok_text: "map_of RECORD_WIDTHS key = Some w \<Longrightarrow> length s + 2 \<le> w \<Longrightarrow> list_all plain_char s \<Longrightarrow> field_ok (key, JString s)"
  by (simp add: field_ok_def value_ok_def)

lemma field_ok_int: "map_of RECORD_WIDTHS key = Some w \<Longrightarrow> 16 \<le> w \<Longrightarrow> is_safe_integer n \<Longrightarrow> 0 \<le> n \<Longrightarrow> field_ok (key, JInt n)"
  using length_safe_integer [of n] by (simp add: field_ok_def value_ok_def)

lemma field_ok_bool: "map_of RECORD_WIDTHS key = Some w \<Longrightarrow> 5 \<le> w \<Longrightarrow> field_ok (key, JBool b)"
  by (simp add: field_ok_def value_ok_def)

lemma exit_code_ok: "exit_code_field input = Inr m \<Longrightarrow> field_ok m \<and> fst m = ''exitCode''"
proof -
  assume "exit_code_field input = Inr m"
  moreover have "map_of RECORD_WIDTHS ''exitCode'' = Some 16" by code_simp
  moreover have "length (show_int n) \<le> 16" if "0 \<le> n" "n \<le> 4294967295" for n
    using that length_safe_integer [of n] by (simp add: is_safe_integer_def max_safe_integer_def)
  ultimately show ?thesis unfolding exit_code_field_Inr by (auto simp: field_ok_def value_ok_def)
qed

text \<open>One lemma per kind of field; the width of the key is found by evaluation.\<close>

lemma text_field_ok:
  assumes "text_field input key n ok = Inr m" "\<And>s. ok s \<Longrightarrow> length s \<le> k \<and> list_all plain_char s" "map_of RECORD_WIDTHS key = Some (k + 2)"
  shows "field_ok m \<and> fst m = key"
  using assms by (auto simp: text_field_Inr intro: field_ok_text)

lemma integer_field_ok: "integer_field input key = Inr m \<Longrightarrow> map_of RECORD_WIDTHS key = Some 16 \<Longrightarrow> field_ok m \<and> fst m = key"
  by (auto simp: integer_field_Inr intro: field_ok_int)

lemma boolean_field_ok: "boolean_field input key = Inr m \<Longrightarrow> map_of RECORD_WIDTHS key = Some 5 \<Longrightarrow> field_ok m \<and> fst m = key"
  by (auto simp: boolean_field_Inr intro: field_ok_bool)

lemma widths:
  "map_of RECORD_WIDTHS ''commandSha256'' = Some (64 + 2)" "map_of RECORD_WIDTHS ''commandBytes'' = Some 16"
  "map_of RECORD_WIDTHS ''termination'' = Some (12 + 2)" "map_of RECORD_WIDTHS ''durationMs'' = Some 16"
  "map_of RECORD_WIDTHS ''stdoutBytes'' = Some 16" "map_of RECORD_WIDTHS ''stderrBytes'' = Some 16"
  "map_of RECORD_WIDTHS ''truncated'' = Some 5" "map_of RECORD_WIDTHS ''reasonCode'' = Some (64 + 2)"
  "map_of RECORD_WIDTHS ''targetCount'' = Some 16" "map_of RECORD_WIDTHS ''enabledTargetCount'' = Some 16"
  "map_of RECORD_WIDTHS ''registrySha256'' = Some (64 + 2)" "map_of RECORD_WIDTHS ''status'' = Some (8 + 2)"
  "map_of RECORD_WIDTHS ''detailCode'' = Some (64 + 2)" "map_of RECORD_WIDTHS ''probeKind'' = Some (16 + 2)"
  "map_of RECORD_WIDTHS ''resultCode'' = Some (16 + 2)" "map_of RECORD_WIDTHS ''runId'' = Some (43 + 2)"
  "map_of RECORD_WIDTHS ''direction'' = Some (8 + 2)" "map_of RECORD_WIDTHS ''dryRun'' = Some 5"
  "map_of RECORD_WIDTHS ''files'' = Some 16" "map_of RECORD_WIDTHS ''bytes'' = Some 16"
  "map_of RECORD_WIDTHS ''executionId'' = Some (36 + 2)" "map_of RECORD_WIDTHS ''target'' = Some (128 + 2)"
  by code_simp+

lemma plain_enum: "list_all (\<lambda>s. length s \<le> k \<and> list_all plain_char s) names \<Longrightarrow> s \<in> set names \<Longrightarrow> length s \<le> k \<and> list_all plain_char s"
  by (simp add: list_all_iff)

definition fields_of :: "audit_record \<Rightarrow> string list \<Rightarrow> audit_record \<Rightarrow> bool" where
  "fields_of input keys ms \<longleftrightarrow> list_all (\<lambda>m. field_ok m \<and> map_of input (fst m) = Some (snd m)) ms \<and> map fst ms = keys"

lemma fields_of_append: "fields_of input ks ms \<Longrightarrow> fields_of input ls ns \<Longrightarrow> fields_of input (ks @ ls) (ms @ ns)"
  by (simp add: fields_of_def)

lemma fields_of_Cons: "field_ok m \<and> fst m = k \<and> map_of input k = Some (snd m) \<Longrightarrow> fields_of input ks ms \<Longrightarrow> fields_of input (k # ks) (m # ms)"
  by (simp add: fields_of_def)

lemma fields_of_Nil: "fields_of input [] []"
  by (simp add: fields_of_def)

text \<open>\<open>f\<close> gives nothing but a good field of the key.\<close>

definition yields :: "audit_record \<Rightarrow> (audit_error + (string \<times> json)) \<Rightarrow> string \<Rightarrow> bool" where
  "yields input f key \<longleftrightarrow> (\<forall>m. f = Inr m \<longrightarrow> field_ok m \<and> fst m = key \<and> map_of input key = Some (snd m))"

lemma yieldsD: "yields input f key \<Longrightarrow> f = Inr m \<Longrightarrow> field_ok m \<and> fst m = key \<and> map_of input key = Some (snd m)"
  by (simp add: yields_def)

lemma all_fields_of: "all_fields fs = Inr ms \<Longrightarrow> list_all2 (yields input) fs ks \<Longrightarrow> fields_of input ks ms"
proof (induction fs arbitrary: ks ms)
  case Nil
  then show ?case by (simp add: fields_of_def)
next
  case (Cons f fs)
  from Cons.prems(1) obtain x xs where x: "f = Inr x" "all_fields fs = Inr xs" "ms = x # xs"
    unfolding all_fields_Inr by blast
  from Cons.prems(2) obtain k ls where k: "ks = k # ls" "yields input f k" "list_all2 (yields input) fs ls" by (auto simp: list_all2_Cons1)
  show ?case unfolding x(3) k(1) by (rule fields_of_Cons [OF yieldsD [OF k(2) x(1)] Cons.IH [OF x(2) k(3)]])
qed

lemma optional_yields:
  "optional_field input key f = Inr ms \<Longrightarrow> yields input f key \<Longrightarrow> fields_of input [] ms \<or> fields_of input [key] ms"
  unfolding optional_field_Inr by (auto intro: fields_of_Nil fields_of_Cons dest: yieldsD)

lemma execution_id_text: "EXECUTION_ID_PATTERN s \<Longrightarrow> length s \<le> 36 \<and> list_all plain_char s"
  using plain_execution_id by blast

lemma yields_text:
  assumes "\<And>s. ok s \<Longrightarrow> length s \<le> k \<and> list_all plain_char s" "map_of RECORD_WIDTHS key = Some (k + 2)"
  shows "yields input (text_field input key n ok) key"
  using text_field_ok [OF _ assms] by (auto simp: yields_def text_field_Inr)

lemma yields_integer: "map_of RECORD_WIDTHS key = Some 16 \<Longrightarrow> yields input (integer_field input key) key"
  using integer_field_ok by (auto simp: yields_def integer_field_Inr)

lemma yields_boolean: "map_of RECORD_WIDTHS key = Some 5 \<Longrightarrow> yields input (boolean_field input key) key"
  using boolean_field_ok by (auto simp: yields_def boolean_field_Inr)

lemma yields_exit_code: "yields input (exit_code_field input) ''exitCode''"
  using exit_code_ok by (auto simp: yields_def exit_code_field_Inr)

lemmas yields_fields =
  yields_text [OF plain_sha widths(1)] yields_integer [OF widths(2)]
  yields_text [OF plain_enum [OF plain_names(2)] widths(3)] yields_exit_code
  yields_integer [OF widths(4)] yields_integer [OF widths(5)] yields_integer [OF widths(6)] yields_boolean [OF widths(7)]
  yields_text [OF plain_code_text widths(8)] yields_integer [OF widths(9)] yields_integer [OF widths(10)]
  yields_text [OF plain_sha widths(11)] yields_text [OF plain_enum [OF plain_names(3)] widths(12)]
  yields_text [OF plain_code_text widths(13)] yields_text [OF plain_enum [OF plain_names(4)] widths(14)]
  yields_text [OF plain_enum [OF plain_names(5)] widths(15)] yields_text [OF plain_reference widths(16)]
  yields_text [OF plain_enum [OF plain_names(6)] widths(17)] yields_boolean [OF widths(18)]
  yields_integer [OF widths(19)] yields_integer [OF widths(20)]
  yields_text [OF execution_id_text widths(21)] yields_text [OF plain_alias widths(22)]

text \<open>The keys the fields of an event can have.\<close>

definition event_field_keys :: "string \<Rightarrow> string list list" where
  "event_field_keys name =
     (if name = ''exec.started'' then [[''commandSha256'', ''commandBytes'']]
      else if name = ''exec.completed'' then
        [[''termination'', ''exitCode'', ''durationMs'', ''stdoutBytes'', ''stderrBytes'', ''truncated'']]
      else if name = ''exec.cancelled'' then [[''reasonCode'']]
      else if name = ''registry.loaded'' then
        [[''targetCount'', ''enabledTargetCount''], [''targetCount'', ''enabledTargetCount'', ''registrySha256'']]
      else if name = ''daemon.health'' then [[''status''], [''status'', ''detailCode'']]
      else if name = ''probe.completed'' then [[''probeKind'', ''durationMs'', ''resultCode'']]
      else if name = ''transfer.started'' then [[''dryRun'']]
      else if name = ''transfer.completed'' then [[''files'', ''bytes'']]
      else if name = ''transfer.failed'' then [[''reasonCode'']]
      else [[]])"

lemma completed_fields:
  assumes "and_then (text_field input ''termination'' 32 (\<lambda>s. s \<in> set EXECUTION_TERMINATIONS)) (\<lambda>termination.
        and_then (exit_code_field input) (\<lambda>exitCode.
        and_then (boolean_field input ''truncated'') (\<lambda>truncated.
        and_then (all_fields [integer_field input ''durationMs'', integer_field input ''stdoutBytes'',
          integer_field input ''stderrBytes'']) (\<lambda>ms.
        Inr ([termination, exitCode] @ ms @ [truncated]))))) = Inr r"
  shows "fields_of input [''termination'', ''exitCode'', ''durationMs'', ''stdoutBytes'', ''stderrBytes'', ''truncated''] r"
proof -
  from assms obtain t e b ms where
    *: "text_field input ''termination'' 32 (\<lambda>s. s \<in> set EXECUTION_TERMINATIONS) = Inr t" "exit_code_field input = Inr e"
       "boolean_field input ''truncated'' = Inr b"
       "all_fields [integer_field input ''durationMs'', integer_field input ''stdoutBytes'', integer_field input ''stderrBytes''] = Inr ms"
    and r: "r = t # e # ms @ [b]"
    unfolding and_then_eq_Inr by auto
  have "fields_of input [''durationMs'', ''stdoutBytes'', ''stderrBytes''] ms"
    by (rule all_fields_of [OF *(4)]) (simp add: yields_fields(5-7))
  from fields_of_append [OF this fields_of_Cons [OF yieldsD [OF yields_fields(8) *(3)] fields_of_Nil]]
  have "fields_of input [''durationMs'', ''stdoutBytes'', ''stderrBytes'', ''truncated''] (ms @ [b])" by simp
  from fields_of_Cons [OF yieldsD [OF yields_fields(3) *(1)] fields_of_Cons [OF yieldsD [OF yields_fields(4) *(2)] this]]
  show ?thesis unfolding r .
qed

lemma branches:
  "event_fields input ''exec.started'' = all_fields [text_field input ''commandSha256'' 64 SHA256_PATTERN, integer_field input ''commandBytes'']"
  "event_fields input ''exec.cancelled'' = all_fields [text_field input ''reasonCode'' 64 SAFE_CODE_PATTERN]"
  "event_fields input ''registry.loaded'' =
     and_then (all_fields [integer_field input ''targetCount'', integer_field input ''enabledTargetCount'']) (\<lambda>ms.
     and_then (optional_field input ''registrySha256'' (text_field input ''registrySha256'' 64 SHA256_PATTERN)) (\<lambda>h. Inr (ms @ h)))"
  "event_fields input ''daemon.health'' =
     and_then (text_field input ''status'' 32 (\<lambda>s. s \<in> set DAEMON_STATUSES)) (\<lambda>status.
     and_then (optional_field input ''detailCode'' (text_field input ''detailCode'' 64 SAFE_CODE_PATTERN)) (\<lambda>d. Inr (status # d)))"
  "event_fields input ''probe.completed'' =
     and_then (requireOwnValue input ''target'') (\<lambda>_.
     and_then (text_field input ''probeKind'' 32 (\<lambda>s. s \<in> set PROBE_KINDS)) (\<lambda>probeKind.
     and_then (text_field input ''resultCode'' 32 (\<lambda>s. s \<in> set PROBE_RESULT_CODES)) (\<lambda>resultCode.
     and_then (integer_field input ''durationMs'') (\<lambda>durationMs. Inr [probeKind, durationMs, resultCode]))))"
  "event_fields input ''transfer.started'' = all_fields [boolean_field input ''dryRun'']"
  "event_fields input ''transfer.completed'' = all_fields [integer_field input ''files'', integer_field input ''bytes'']"
  "event_fields input ''transfer.failed'' = all_fields [text_field input ''reasonCode'' 64 SAFE_CODE_PATTERN]"
  unfolding event_fields_def by (simp_all del: all_fields.simps)

lemma completed_branch: "event_fields input ''exec.completed'' =
  and_then (text_field input ''termination'' 32 (\<lambda>s. s \<in> set EXECUTION_TERMINATIONS)) (\<lambda>termination.
        and_then (exit_code_field input) (\<lambda>exitCode.
        and_then (boolean_field input ''truncated'') (\<lambda>truncated.
        and_then (all_fields [integer_field input ''durationMs'', integer_field input ''stdoutBytes'',
          integer_field input ''stderrBytes'']) (\<lambda>ms.
        Inr ([termination, exitCode] @ ms @ [truncated])))))"
  unfolding event_fields_def by (simp del: all_fields.simps append.simps)

definition one_of_fields :: "audit_record \<Rightarrow> string list list \<Rightarrow> audit_record \<Rightarrow> bool" where
  "one_of_fields input keyss ms \<longleftrightarrow> list_ex (\<lambda>keys. fields_of input keys ms) keyss"

lemma event_field_keys_simps:
  "event_field_keys ''exec.started'' = [[''commandSha256'', ''commandBytes'']]"
  "event_field_keys ''exec.completed'' = [[''termination'', ''exitCode'', ''durationMs'', ''stdoutBytes'', ''stderrBytes'', ''truncated'']]"
  "event_field_keys ''exec.cancelled'' = [[''reasonCode'']]"
  "event_field_keys ''registry.loaded'' = [[''targetCount'', ''enabledTargetCount''], [''targetCount'', ''enabledTargetCount'', ''registrySha256'']]"
  "event_field_keys ''daemon.health'' = [[''status''], [''status'', ''detailCode'']]"
  "event_field_keys ''probe.completed'' = [[''probeKind'', ''durationMs'', ''resultCode'']]"
  "event_field_keys ''transfer.started'' = [[''dryRun'']]"
  "event_field_keys ''transfer.completed'' = [[''files'', ''bytes'']]"
  "event_field_keys ''transfer.failed'' = [[''reasonCode'']]"
  by (simp_all add: event_field_keys_def)

lemma registry_fields:
  assumes "event_fields input ''registry.loaded'' = Inr ms"
  shows "fields_of input [''targetCount'', ''enabledTargetCount''] ms \<or> fields_of input [''targetCount'', ''enabledTargetCount'', ''registrySha256''] ms"
proof -
  obtain xs hs where
    *: "all_fields [integer_field input ''targetCount'', integer_field input ''enabledTargetCount''] = Inr xs"
       "optional_field input ''registrySha256'' (text_field input ''registrySha256'' 64 SHA256_PATTERN) = Inr hs" "ms = xs @ hs"
    using assms unfolding branches and_then_eq_Inr by auto
  have "fields_of input [''targetCount'', ''enabledTargetCount''] xs"
    by (rule all_fields_of [OF *(1)]) (simp add: yields_fields(10,11))
  from fields_of_append [OF this] optional_yields [OF *(2) yields_fields(12)] show ?thesis unfolding *(3) by fastforce
qed

lemma health_fields:
  assumes "event_fields input ''daemon.health'' = Inr ms"
  shows "fields_of input [''status''] ms \<or> fields_of input [''status'', ''detailCode''] ms"
proof -
  obtain x hs where
    *: "text_field input ''status'' 32 (\<lambda>s. s \<in> set DAEMON_STATUSES) = Inr x"
       "optional_field input ''detailCode'' (text_field input ''detailCode'' 64 SAFE_CODE_PATTERN) = Inr hs" "ms = x # hs"
    using assms unfolding branches and_then_eq_Inr by auto
  from optional_yields [OF *(2) yields_fields(14)] fields_of_Cons [OF yieldsD [OF yields_fields(13) *(1)]]
  show ?thesis unfolding *(3) by blast
qed

lemma probe_fields_ok:
  assumes "event_fields input ''probe.completed'' = Inr ms"
  shows "fields_of input [''probeKind'', ''durationMs'', ''resultCode''] ms"
proof -
  obtain x y z where
    *: "text_field input ''probeKind'' 32 (\<lambda>s. s \<in> set PROBE_KINDS) = Inr x"
       "text_field input ''resultCode'' 32 (\<lambda>s. s \<in> set PROBE_RESULT_CODES) = Inr y" "integer_field input ''durationMs'' = Inr z"
       "ms = [x, z, y]"
    using assms unfolding branches and_then_eq_Inr by auto
  from yieldsD [OF yields_fields(15) *(1)] yieldsD [OF yields_fields(16) *(2)] yieldsD [OF yields_fields(5) *(3)]
  show ?thesis unfolding *(4) by (intro fields_of_Cons fields_of_Nil)
qed

lemma event_names: "map_of EVENT_KEYS name = Some keys \<Longrightarrow> name \<in> set (map fst EVENT_KEYS)"
  by (metis map_of_SomeD fst_conv image_eqI set_map)

lemma event_fields_ok:
  assumes "event_fields input name = Inr ms" "name \<in> set (map fst EVENT_KEYS)"
  shows "one_of_fields input (event_field_keys name) ms"
proof -
  have "name \<in> {''exec.started'', ''exec.completed'', ''exec.cancelled'', ''registry.loaded'', ''daemon.health'', ''probe.completed'',
      ''transfer.started'', ''transfer.completed'', ''transfer.failed''}"
    using assms(2) unfolding EVENT_KEYS_def by simp
  then show ?thesis
  proof (elim insertE emptyE)
    assume 1: "name = ''exec.started''"
    have "fields_of input [''commandSha256'', ''commandBytes''] ms"
      by (rule all_fields_of [OF assms(1) [unfolded 1 branches]]) (simp add: yields_fields(1,2))
    then show ?thesis unfolding 1 event_field_keys_simps one_of_fields_def by simp
  next
    assume 2: "name = ''exec.completed''"
    show ?thesis using completed_fields [OF assms(1) [unfolded 2 completed_branch]]
      unfolding 2 event_field_keys_simps one_of_fields_def by simp
  next
    assume 3: "name = ''exec.cancelled''"
    have "fields_of input [''reasonCode''] ms" by (rule all_fields_of [OF assms(1) [unfolded 3 branches]]) (simp add: yields_fields(9))
    then show ?thesis unfolding 3 event_field_keys_simps one_of_fields_def by simp
  next
    assume 4: "name = ''registry.loaded''"
    show ?thesis using registry_fields [OF assms(1) [unfolded 4]] unfolding 4 event_field_keys_simps one_of_fields_def by simp
  next
    assume 5: "name = ''daemon.health''"
    show ?thesis using health_fields [OF assms(1) [unfolded 5]] unfolding 5 event_field_keys_simps one_of_fields_def by simp
  next
    assume 6: "name = ''probe.completed''"
    show ?thesis using probe_fields_ok [OF assms(1) [unfolded 6]] unfolding 6 event_field_keys_simps one_of_fields_def by simp
  next
    assume 7: "name = ''transfer.started''"
    have "fields_of input [''dryRun''] ms" by (rule all_fields_of [OF assms(1) [unfolded 7 branches]]) (simp add: yields_fields(19))
    then show ?thesis unfolding 7 event_field_keys_simps one_of_fields_def by simp
  next
    assume 8: "name = ''transfer.completed''"
    have "fields_of input [''files'', ''bytes''] ms"
      by (rule all_fields_of [OF assms(1) [unfolded 8 branches]]) (simp add: yields_fields(20,21))
    then show ?thesis unfolding 8 event_field_keys_simps one_of_fields_def by simp
  next
    assume 9: "name = ''transfer.failed''"
    have "fields_of input [''reasonCode''] ms" by (rule all_fields_of [OF assms(1) [unfolded 9 branches]]) (simp add: yields_fields(9))
    then show ?thesis unfolding 9 event_field_keys_simps one_of_fields_def by simp
  qed
qed

lemma context_fields:
  assumes "copyContext input req = Inr ms"
  shows "one_of_fields input [[], [''executionId''], [''target''], [''executionId'', ''target'']] ms"
proof -
  obtain i t where *: "optional_field input ''executionId'' (requireExecutionId input) = Inr i"
      "optional_field input ''target'' (text_field input ''target'' 128 TARGET_ALIAS_PATTERN) = Inr t" "ms = i @ t"
    using assms unfolding copyContext_def if_Inl_eq and_then_eq_Inr by auto
  from optional_yields [OF *(1)] yields_fields(22) have "fields_of input [] i \<or> fields_of input [''executionId''] i"
    by (simp add: requireExecutionId_def)
  moreover from optional_yields [OF *(2) yields_fields(23)] have "fields_of input [] t \<or> fields_of input [''target''] t" .
  ultimately show ?thesis
    unfolding *(3) one_of_fields_def by (auto simp: fields_of_def)
qed

lemma transfer_record_fields:
  assumes "transfer_event_fields input = Inr ms"
  shows "fields_of input [''runId'', ''direction''] ms"
proof -
  obtain r where "all_fields [text_field input ''runId'' 43 opaque_reference,
       text_field input ''direction'' 16 (\<lambda>s. s \<in> set TRANSFER_DIRECTIONS)] = Inr ms"
    using assms unfolding transfer_event_fields_def and_then_eq_Inr by auto
  then show ?thesis by (rule all_fields_of) (simp add: yields_fields(17,18))
qed

lemma case_None_Inl: "(case x of None \<Rightarrow> Inl e | Some y \<Rightarrow> f y) = Inr r \<longleftrightarrow> (\<exists>y. x = Some y \<and> f y = Inr r)"
  by (cases x) auto

lemma case_Some_Inl: "(case x of None \<Rightarrow> g | Some y \<Rightarrow> Inl (f y)) = Inr r \<longleftrightarrow> x = None \<and> g = Inr r"
  by (cases x) auto

lemma requireString_Inr: "requireString j key n = Inr s \<longleftrightarrow> j = JString s \<and> utf16_length s \<noteq> 0 \<and> utf16_length s \<le> n"
  by (auto simp: requireString_def split: json.splits if_splits)

lemma requireOwnValue_Inr: "requireOwnValue input key = Inr j \<longleftrightarrow> map_of input key = Some j"
  by (auto simp: requireOwnValue_def split: option.splits)

lemma requirePlainRecord_Inr: "requirePlainRecord j = Inr input \<longleftrightarrow> j = JObject input"
  by (auto simp: requirePlainRecord_def schema_error_def split: json.splits)

lemmas normalize_elims = and_then_eq_Inr case_None_Inl case_Some_Inl requireString_Inr requireOwnValue_Inr requirePlainRecord_Inr

lemma normalize_cases:
  assumes "normalizeAuditEvent now createdEventId event = Inr r"
  obtains input name nowMs timestamp ctx transfer ms where
    "event = JObject input" "map_of input ''event'' = Some (JString name)" "name \<in> set (map fst EVENT_KEYS)"
    "iso_string nowMs = Some timestamp" "copyContext input (starts_with name ''exec.'') = Inr ctx"
    "(if starts_with name ''transfer.'' then transfer_event_fields input else Inr []) = Inr transfer"
    "event_fields input name = Inr ms"
    "r = [(''schemaVersion'', JInt 1), (''eventId'', JString createdEventId), (''timestamp'', JString timestamp),
       (''event'', JString name)] @ ctx @ transfer @ ms"
  using assms unfolding normalizeAuditEvent_def schema_error_def normalize_elims
  apply (elim exE conjE)
  apply (rule that)
         apply assumption
        apply (simp only: json.inject sum.inject)
       apply (erule event_names)
      apply assumption
     apply assumption
    apply assumption
   apply assumption
  apply (simp only: json.inject sum.inject)
  done

definition base_keys :: "string list" where
  "base_keys = [''schemaVersion'', ''eventId'', ''timestamp'', ''event'']"

text \<open>Whatever optional fields are there, the keys of a record differ.\<close>

lemma keys_distinct:
  "list_all (\<lambda>name. list_all (\<lambda>ms. list_all (\<lambda>ctx. list_all (\<lambda>transfer. distinct (base_keys @ ctx @ transfer @ ms))
     [[], [''runId'', ''direction'']]) [[], [''executionId''], [''target''], [''executionId'', ''target'']])
     (event_field_keys name)) (map fst EVENT_KEYS)"
  by code_simp

definition base_record :: "string \<Rightarrow> string \<Rightarrow> string \<Rightarrow> audit_record" where
  "base_record i timestamp name =
     [(''schemaVersion'', JInt 1), (''eventId'', JString i), (''timestamp'', JString timestamp), (''event'', JString name)]"

lemma base_fields:
  assumes "EXECUTION_ID_PATTERN i" "iso_string ms = Some timestamp" "name \<in> set (map fst EVENT_KEYS)"
  shows "list_all field_ok (base_record i timestamp name)"
proof -
  have w: "map_of RECORD_WIDTHS ''schemaVersion'' = Some 1" "map_of RECORD_WIDTHS ''eventId'' = Some 38"
    "map_of RECORD_WIDTHS ''timestamp'' = Some 29" "map_of RECORD_WIDTHS ''event'' = Some 20" by code_simp+
  have "length (show_int 1) \<le> 1" by code_simp
  moreover have "length name \<le> 18 \<and> list_all plain_char name" using assms(3) plain_names(1) unfolding list_all_iff by blast
  ultimately show ?thesis
    using plain_execution_id [OF assms(1)] iso_string_text [OF assms(2)]
    by (simp add: base_record_def field_ok_def value_ok_def w)
qed

lemma normalize_shape:
  assumes "normalizeAuditEvent now i event = Inr record"
  obtains input name nowMs timestamp keys rest where
    "event = JObject input" "map_of input ''event'' = Some (JString name)" "name \<in> set (map fst EVENT_KEYS)"
    "iso_string nowMs = Some timestamp" "record = base_record i timestamp name @ rest" "fields_of input keys rest"
    "distinct (base_keys @ keys)"
  using assms
proof (cases rule: normalize_cases)
  case (1 input name nowMs timestamp ctx transfer ms)
  obtain kc where kc: "kc \<in> set [[], [''executionId''], [''target''], [''executionId'', ''target'']]" "fields_of input kc ctx"
    using context_fields [OF 1(5)] unfolding one_of_fields_def list_ex_iff by blast
  obtain km where km: "km \<in> set (event_field_keys name)" "fields_of input km ms"
    using event_fields_ok [OF 1(7,3)] unfolding one_of_fields_def list_ex_iff by blast
  obtain kt where kt: "kt \<in> set [[], [''runId'', ''direction'']]" "fields_of input kt transfer"
  proof (cases "starts_with name ''transfer.''")
    case True
    then have "fields_of input [''runId'', ''direction''] transfer" using 1(6) transfer_record_fields by simp
    then show ?thesis by (intro that [of "[''runId'', ''direction'']"]) simp_all
  next
    case False
    then have "fields_of input [] transfer" using 1(6) fields_of_Nil by simp
    then show ?thesis by (intro that [of "[]"]) simp_all
  qed
  have f: "fields_of input (kc @ kt @ km) (ctx @ transfer @ ms)"
    by (intro fields_of_append kc(2) kt(2) km(2))
  have d: "distinct (base_keys @ kc @ kt @ km)"
    using keys_distinct 1(3) km(1) kc(1) kt(1) unfolding list_all_iff by blast
  show ?thesis by (rule that [OF 1(1-4) 1(8) [folded base_record_def] f d])
qed

lemma base_record_keys: "map fst (base_record i timestamp name) = base_keys"
  by (simp add: base_record_def base_keys_def)

lemma normalize_record_ok:
  assumes "normalizeAuditEvent now i event = Inr record" "EXECUTION_ID_PATTERN i"
  shows "record_ok record"
  using assms(1)
proof (cases rule: normalize_shape)
  case (1 input name nowMs timestamp keys rest)
  then show ?thesis
    using base_fields [OF assms(2) 1(4,3)] by (simp add: record_ok_def fields_of_def base_record_keys list_all_iff ball_Un)
qed

text \<open>What is not one of the four base fields is copied from the event.\<close>

lemma normalize_copies:
  assumes "normalizeAuditEvent now i event = Inr record" "(key, v) \<in> set record" "key \<notin> set base_keys"
  shows "\<exists>input. event = JObject input \<and> map_of input key = Some v"
  using assms(1)
proof (cases rule: normalize_shape)
  case (1 input name nowMs timestamp keys rest)
  have "(key, v) \<notin> set (base_record i timestamp name)"
    using assms(3) base_record_keys by (metis fst_conv image_eqI set_map)
  then have "(key, v) \<in> set rest" using assms(2) 1(5) by simp
  then have "map_of input key = Some v" using 1(6) by (auto simp: fields_of_def list_all_iff)
  then show ?thesis using 1(1) by simp
qed

section \<open>Frames\<close>

definition redact_value :: "json \<Rightarrow> json" where
  "redact_value v = (case v of JString s \<Rightarrow> JString (redactText s) | _ \<Rightarrow> v)"

lemma keys_plain:
  "list_all (\<lambda>kw. \<not> isSensitiveKey (fst kw) \<and> list_all printed_char (fst kw)) RECORD_WIDTHS"
  by code_simp

lemma field_key:
  "field_ok kv \<Longrightarrow> \<not> isSensitiveKey (fst kv) \<and> list_all printed_char (fst kv) \<and> fst kv \<in> set (map fst RECORD_WIDTHS)"
  using keys_plain unfolding field_ok_def list_all_iff by (force split: option.splits dest: map_of_SomeD)

lemma redact_members_ok:
  "list_all field_ok ms \<Longrightarrow> n + length ms \<le> maxEntries \<Longrightarrow> 1 \<le> maxDepth \<Longrightarrow>
   redact_members maxDepth maxEntries ms 1 n = (map (\<lambda>kv. (fst kv, redact_value (snd kv))) ms, n + length ms)"
proof (induction ms arbitrary: n)
  case (Cons kv ms)
  obtain k v where kv: "kv = (k, v)" by (cases kv)
  have ok: "field_ok (k, v)" "\<not> isSensitiveKey k" using Cons.prems(1) field_key [of kv] by (simp_all add: kv)
  have "redact_visit maxDepth maxEntries v 1 n = (redact_value v, Suc n)"
    using ok(1) Cons.prems(2,3)
    by (cases v) (simp_all add: field_ok_def value_ok_def redact_value_def Let_def split: option.splits)
  with Cons.IH [of "Suc n"] Cons.prems ok(2) show ?case by (simp add: kv)
qed simp

lemma record_length: "record_ok record \<Longrightarrow> length record \<le> length RECORD_WIDTHS"
proof -
  assume "record_ok record"
  then have "distinct (map fst record)" "set (map fst record) \<subseteq> set (map fst RECORD_WIDTHS)"
    using field_key by (auto simp: record_ok_def list_all_iff)
  then have "card (set (map fst record)) \<le> card (set (map fst RECORD_WIDTHS))" by (intro card_mono) auto
  then show ?thesis
    using distinct_card [OF \<open>distinct (map fst record)\<close>] card_length [of "map fst RECORD_WIDTHS"] by simp
qed

lemma redact_record:
  assumes "record_ok record"
  shows "redact (JObject record) = JObject (map (\<lambda>kv. (fst kv, redact_value (snd kv))) record)"
proof -
  have "length RECORD_WIDTHS = 27" by code_simp
  then have "Suc 0 + length record \<le> DEFAULT_MAX_ENTRIES" "1 \<le> DEFAULT_MAX_DEPTH"
    using record_length [OF assms] by (simp_all add: DEFAULT_MAX_ENTRIES_def DEFAULT_MAX_DEPTH_def)
  with redact_members_ok [of "record" "Suc 0" DEFAULT_MAX_ENTRIES DEFAULT_MAX_DEPTH] assms show ?thesis
    by (simp add: redact_def record_ok_def DEFAULT_MAX_ENTRIES_def)
qed

lemma value_length: "value_ok w v \<Longrightarrow> length (json_value (redact_value v)) \<le> w"
proof (cases v)
  case (JString s)
  assume "value_ok w v"
  then have "length s + 2 \<le> w" "list_all plain_char s \<or> list_all time_char s" by (simp_all add: JString value_ok_def)
  with redact_plain_printed [OF this(2)] json_quote_printed [of "redactText s"] show ?thesis
    by (simp add: JString redact_value_def)
qed (simp_all add: value_ok_def redact_value_def)

definition field_size :: "string \<Rightarrow> nat" where
  "field_size key = length key + 4 + (case map_of RECORD_WIDTHS key of None \<Rightarrow> 0 | Some w \<Rightarrow> w)"

lemma field_length:
  assumes "field_ok kv"
  shows "Suc (length (json_quote (fst kv) @ '':'' @ json_value (redact_value (snd kv)))) \<le> field_size (fst kv)"
  using assms field_key [OF assms] value_length json_quote_printed [of "fst kv"]
  by (auto simp: field_ok_def field_size_def split: option.splits)

lemma length_join_comma: "length (join_with '','' xs) \<le> sum_list (map (\<lambda>x. Suc (length x)) xs)"
  by (induction "'',''" xs rule: join_with.induct) auto

lemma sum_fields:
  assumes "record_ok record"
  shows "sum_list (map (\<lambda>kv. field_size (fst kv)) record) \<le> sum_list (map (\<lambda>kw. field_size (fst kw)) RECORD_WIDTHS)"
proof -
  have d: "distinct (map fst record)" "set (map fst record) \<subseteq> set (map fst RECORD_WIDTHS)"
    using assms field_key by (auto simp: record_ok_def list_all_iff)
  have "distinct (map fst RECORD_WIDTHS)" by code_simp
  then have "sum_list (map field_size (map fst RECORD_WIDTHS)) = sum field_size (set (map fst RECORD_WIDTHS))"
    by (rule sum_list_distinct_conv_sum_set)
  moreover have "sum_list (map field_size (map fst record)) = sum field_size (set (map fst record))"
    using d(1) by (rule sum_list_distinct_conv_sum_set)
  moreover have "sum field_size (set (map fst record)) \<le> sum field_size (set (map fst RECORD_WIDTHS))"
    using d(2) by (intro sum_mono2) auto
  ultimately show ?thesis by (simp add: comp_def)
qed

lemma frame_length:
  assumes "record_ok record"
  shows "length (audit_frame record) \<le> 1365"
proof -
  let ?f = "\<lambda>kv. json_quote (fst kv) @ '':'' @ json_value (redact_value (snd kv))"
  have "json_value (redact (JObject record)) = ''{'' @ join_with '','' (map ?f record) @ ''}''"
    by (simp add: redact_record [OF assms] comp_def case_prod_unfold)
  then have "length (audit_frame record) = length (join_with '','' (map ?f record)) + 3" by (simp add: audit_frame_def)
  also have "length (join_with '','' (map ?f record)) \<le> sum_list (map (\<lambda>kv. Suc (length (?f kv))) record)"
    using length_join_comma [of "map ?f record"] by (simp add: comp_def)
  also have "sum_list (map (\<lambda>kv. Suc (length (?f kv))) record) \<le> sum_list (map (\<lambda>kv. field_size (fst kv)) record)"
    using assms field_length by (intro sum_list_mono) (auto simp: record_ok_def list_all_iff)
  also have "\<dots> \<le> sum_list (map (\<lambda>kw. field_size (fst kw)) RECORD_WIDTHS)" by (rule sum_fields [OF assms])
  also have "\<dots> \<le> 1362" by code_simp
  finally show ?thesis by simp
qed

lemma frame_line: "newline \<notin> set (butlast (audit_frame record)) \<and> last (audit_frame record) = newline"
  by (simp add: audit_frame_def json_single_line)

end
