(* ===== verification/AuditProps.thy ===== *)
theory AuditProps
  imports AuditRecords Transitions
begin

text \<open>
  The audit writer as a transition system of calls and queued operations: the file only grows and stays within its
  bound, and the space kept for follow-up records is enough; what an accepted record looks like on disk.
\<close>

section \<open>Calls and queued operations\<close>

text \<open>A call of the writer, or the next queued operation with the outcome of its file system calls.\<close>

datatype audit_call = CallWrite "int option" string json | CallFlush | CallClose | RunNext file_outcome

definition audit_apply :: "audit_call \<Rightarrow> audit_writer \<Rightarrow> audit_writer" where
  "audit_apply call w =
     (case call of
        CallWrite now i event \<Rightarrow> snd (aw_write now i event w)
      | CallFlush \<Rightarrow> snd (aw_flush w)
      | CallClose \<Rightarrow> snd (aw_close w)
      | RunNext out \<Rightarrow> (case aw_run out w of None \<Rightarrow> w | Some (_, w') \<Rightarrow> w'))"

lemma new_audit_writer_fields:
  assumes "new_audit_writer options content = Inr w"
    and "E = option_default 32 (ao_maxConcurrentExecutions options)"
    and "T = option_default E (ao_maxConcurrentTransfers options)"
  shows "aw_file w = content" "aw_tail w = []" "aw_handle w = NotOpened" "\<not> aw_closed w"
    "aw_maxBytes w = option_default max_safe_integer (ao_maxBytes options)" "aw_maxBytes w \<le> max_safe_integer"
    "1 \<le> E" "1 \<le> T" "4096 \<le> aw_normalWriteLimitBytes w" "aw_normalWriteLimitBytes w + 4096 * (2 * E + T + 2) = aw_maxBytes w"
  using assms unfolding new_audit_writer_def Let_def result_elims
  by (auto simp: is_safe_integer_def MAX_AUDIT_RECORD_BYTES_def DAEMON_SHUTDOWN_HEADROOM_BYTES_def)

lemma run_write_cases:
  assumes "run_write out record w = (r, w')"
  obtains (refused) "r = Inl AuditWriteError" "w' = getHandle out w"
  | (torn) k where "r = Inl AuditWriteError" "aw_handle (getHandle out w) = HandleOpen"
      "w' = (getHandle out w)\<lparr>aw_file := aw_file w @ take k (audit_frame record)\<rparr>"
      "int (length (aw_file w)) \<le> write_limit record w - int (length (audit_frame record))"
  | (written) "r = Inr () \<or> r = Inl AuditWriteError" "aw_handle (getHandle out w) = HandleOpen"
      "w' = (getHandle out w)\<lparr>aw_file := aw_file w @ audit_frame record\<rparr>"
      "int (length (aw_file w)) \<le> write_limit record w - int (length (audit_frame record))"
proof -
  let ?g = "getHandle out w" and ?frame = "audit_frame record"
  have same: "aw_file ?g = aw_file w" "write_limit record ?g = write_limit record w"
    by (simp_all add: getHandle_def write_limit_def)
  define bad where "bad \<longleftrightarrow> aw_handle ?g \<noteq> HandleOpen \<or> \<not> fo_stat out \<or> \<not> is_safe_integer (int (length (aw_file w)))
    \<or> int (length (aw_file w)) > write_limit record w - int (length ?frame)"
  have run: "run_write out record w =
     (if bad then (Inl AuditWriteError, ?g)
      else case fo_append out of
        Some k \<Rightarrow> (Inl AuditWriteError, ?g\<lparr>aw_file := aw_file w @ take k ?frame\<rparr>)
      | None \<Rightarrow> (if fo_sync out then Inr () else Inl AuditWriteError, ?g\<lparr>aw_file := aw_file w @ ?frame\<rparr>))"
    unfolding run_write_def Let_def same bad_def by (rule refl)
  show ?thesis
  proof (cases bad)
    case True
    with assms run refused show ?thesis by simp
  next
    case False
    then have ok: "aw_handle ?g = HandleOpen" "int (length (aw_file w)) \<le> write_limit record w - int (length ?frame)"
      by (simp_all add: bad_def)
    show ?thesis
    proof (cases "fo_append out")
      case None
      then have "r = (if fo_sync out then Inr () else Inl AuditWriteError)" "w' = ?g\<lparr>aw_file := aw_file w @ ?frame\<rparr>"
        using assms run False by simp_all
      then show ?thesis by (intro written [OF _ ok(1) _ ok(2)]) simp_all
    next
      case (Some k)
      then have "r = Inl AuditWriteError" "w' = ?g\<lparr>aw_file := aw_file w @ take k ?frame\<rparr>"
        using assms run False by simp_all
      then show ?thesis by (rule torn [OF _ ok(1) _ ok(2)])
    qed
  qed
qed

lemma getHandle_fields [simp]:
  "aw_file (getHandle out w) = aw_file w" "aw_tail (getHandle out w) = aw_tail w"
  "aw_maxBytes (getHandle out w) = aw_maxBytes w" "aw_normalWriteLimitBytes (getHandle out w) = aw_normalWriteLimitBytes w"
  by (simp_all add: getHandle_def)

lemma run_write_fields:
  assumes "run_write out record w = (r, w')"
  shows "aw_tail w' = aw_tail w" "aw_maxBytes w' = aw_maxBytes w" "aw_normalWriteLimitBytes w' = aw_normalWriteLimitBytes w"
  using assms by (cases rule: run_write_cases; simp)+

text \<open>The file only grows, by at most the frame, and not beyond the limit of the record.\<close>

lemma run_write_grows:
  assumes "run_write out record w = (r, w')"
  shows "\<exists>k. aw_file w' = aw_file w @ take k (audit_frame record)
    \<and> (aw_file w' = aw_file w \<or> int (length (aw_file w')) \<le> write_limit record w)"
  using assms
proof (cases rule: run_write_cases)
  case refused
  then show ?thesis by (intro exI [of _ 0]) simp
next
  case (torn k)
  then show ?thesis by (intro exI [of _ k]) (auto simp: min_def)
next
  case written
  then show ?thesis by (intro exI [of _ "length (audit_frame record)"]) simp
qed

lemma aw_write_cases:
  assumes "aw_write now i event w = (r, w')"
  shows "(w' = w \<and> r \<noteq> Inr ()) \<or> (\<exists>record. normalizeAuditEvent now i event = Inr record \<and> r = Inr ()
    \<and> w' = w\<lparr>aw_tail := aw_tail w @ [WriteRecord record]\<rparr>)"
  using assms by (auto simp: aw_write_def schema_error_def split: if_splits sum.splits)

lemma aw_run_cases:
  assumes "aw_run out w = Some (r, w')"
  obtains (ran) entry rest where "aw_tail w = WriteRecord entry # rest" "run_write out entry (w\<lparr>aw_tail := rest\<rparr>) = (r, w')"
  | (other) op rest where "aw_tail w = op # rest" "op = FlushLog \<or> op = CloseLog" "w' = w\<lparr>aw_tail := rest\<rparr>"
  using assms by (auto simp: aw_run_def Let_def split: list.splits audit_op.splits)

section \<open>The size of the file\<close>

definition file_grown :: "string \<Rightarrow> int \<Rightarrow> audit_writer \<Rightarrow> bool" where
  "file_grown content most w \<longleftrightarrow> aw_maxBytes w = most \<and> aw_normalWriteLimitBytes w \<le> most
     \<and> take (length content) (aw_file w) = content \<and> (aw_file w = content \<or> int (length (aw_file w)) \<le> most)"

lemma file_grown_kept:
  assumes "file_grown content most w"
  shows "file_grown content most (audit_apply call w)"
proof (cases call)
  case (CallWrite now i event)
  obtain r w' where "aw_write now i event w = (r, w')" by fastforce
  with aw_write_cases [OF this] assms show ?thesis by (auto simp: CallWrite audit_apply_def file_grown_def)
next
  case (RunNext out)
  show ?thesis
  proof (cases "aw_run out w")
    case None
    then show ?thesis using assms by (simp add: RunNext audit_apply_def)
  next
    case (Some x)
    then obtain r w' where run: "aw_run out w = Some (r, w')" by (cases x) auto
    have "file_grown content most w'"
      using run
    proof (cases rule: aw_run_cases)
      case (ran entry rest)
      from run_write_grows [OF ran(2)] obtain k where
        k: "aw_file w' = aw_file w @ take k (audit_frame entry)"
           "aw_file w' = aw_file w \<or> int (length (aw_file w')) \<le> write_limit entry (w\<lparr>aw_tail := rest\<rparr>)" by fastforce
      have "write_limit entry (w\<lparr>aw_tail := rest\<rparr>) \<le> most" using assms by (simp add: write_limit_def file_grown_def)
      moreover have "take (length content) (aw_file w') = content"
        using assms unfolding file_grown_def k(1) by (metis append_take_drop_id append_assoc append_eq_conv_conj)
      ultimately show ?thesis
        using assms k(2) run_write_fields [OF ran(2)] unfolding file_grown_def by auto
    next
      case (other op rest)
      then show ?thesis using assms by (simp add: file_grown_def)
    qed
    then show ?thesis by (simp add: RunNext audit_apply_def run)
  qed
qed (use assms in \<open>simp_all add: audit_apply_def file_grown_def aw_flush_def aw_close_def\<close>)

text \<open>
  C12: Whatever is called and however the file system calls end, the audit file only grows at its end, and no
  write makes it longer than \<open>maxBytes\<close>.\<close>

theorem audit_file_bounded:
  assumes "new_audit_writer options content = Inr w"
  shows "let after = aw_file (fold audit_apply calls w) in
    take (length content) after = content
    \<and> (after = content \<or> int (length after) \<le> option_default max_safe_integer (ao_maxBytes options))"
proof -
  let ?most = "option_default max_safe_integer (ao_maxBytes options)"
  have "file_grown content ?most w"
    using new_audit_writer_fields [OF assms refl refl] by (simp add: file_grown_def)
  then have "file_grown content ?most (fold audit_apply calls w)"
    by (induction calls arbitrary: w) (simp_all add: file_grown_kept)
  then show ?thesis unfolding file_grown_def Let_def by blast
qed

section \<open>The space kept for follow-up records\<close>

text \<open>How many follow-up records a client may write once the record has been written: an execution is completed and may
  be cancelled, or completed and probed; a transfer ends once; a daemon that has started reports that it stops and that
  it has stopped.\<close>

definition follow_ups :: "audit_record \<Rightarrow> nat" where
  "follow_ups entry =
     (if record_text entry ''event'' = Some ''exec.started'' then 2
      else if record_text entry ''event'' = Some ''transfer.started'' then 1
      else if record_text entry ''event'' = Some ''daemon.health'' \<and> record_text entry ''status'' = Some ''started'' then 2
      else 0)"

text \<open>The writer with the number of follow-up records its clients may still write, at most \<open>most\<close>. Event identifiers
  have the form of random UUIDs.\<close>

inductive audit_step :: "nat \<Rightarrow> audit_writer \<times> nat \<Rightarrow> audit_writer \<times> nat \<Rightarrow> bool" for most where
  written: "EXECUTION_ID_PATTERN i \<Longrightarrow> audit_step most (w, owed) (audit_apply (CallWrite now i event) w, owed)"
| flushed: "audit_step most (w, owed) (audit_apply CallFlush w, owed)"
| closed: "audit_step most (w, owed) (audit_apply CallClose w, owed)"
| waived: "audit_step most (w, Suc owed) (w, owed)"
| ran_other: "aw_tail w = op # rest \<Longrightarrow> op = FlushLog \<or> op = CloseLog \<Longrightarrow>
    audit_step most (w, owed) (audit_apply (RunNext out) w, owed)"
| ran_followup: "aw_tail w = WriteRecord entry # rest \<Longrightarrow> isAuditFollowupRecord entry \<Longrightarrow>
    audit_step most (w, Suc owed) (audit_apply (RunNext out) w, owed)"
| ran_first: "aw_tail w = WriteRecord entry # rest \<Longrightarrow> \<not> isAuditFollowupRecord entry \<Longrightarrow> aw_run out w = Some (r, w') \<Longrightarrow>
    owed' = owed + (if r = Inr () then follow_ups entry else 0) \<Longrightarrow> owed' \<le> most \<Longrightarrow> audit_step most (w, owed) (w', owed')"

definition queued_ok :: "audit_op \<Rightarrow> bool" where
  "queued_ok op = (case op of WriteRecord entry \<Rightarrow> record_ok entry | _ \<Rightarrow> True)"

definition audit_start :: "nat \<Rightarrow> audit_writer \<times> nat \<Rightarrow> bool" where
  "audit_start most s \<longleftrightarrow> snd s = 0 \<and> aw_tail (fst s) = [] \<and> aw_maxBytes (fst s) \<le> max_safe_integer
     \<and> aw_normalWriteLimitBytes (fst s) + 1365 * int most \<le> aw_maxBytes (fst s)"

definition headroom :: "nat \<Rightarrow> audit_writer \<times> nat \<Rightarrow> bool" where
  "headroom most s \<longleftrightarrow> (case s of (w, owed) \<Rightarrow>
     list_all queued_ok (aw_tail w) \<and> owed \<le> most \<and> aw_maxBytes w \<le> max_safe_integer
     \<and> aw_normalWriteLimitBytes w + 1365 * int most \<le> aw_maxBytes w
     \<and> (0 < owed \<longrightarrow> aw_handle w = HandleOpen \<and> int (length (aw_file w)) + 1365 * int owed \<le> aw_maxBytes w))"

lemma headroom_call:
  assumes "headroom most (w, owed)" "call = CallFlush \<or> call = CallClose \<or> (\<exists>now i event. call = CallWrite now i event \<and> EXECUTION_ID_PATTERN i)"
  shows "headroom most (audit_apply call w, owed)"
  using assms(2)
proof (elim disjE exE conjE)
  fix now i event
  assume call: "call = CallWrite now i event" "EXECUTION_ID_PATTERN i"
  obtain r w' where run: "aw_write now i event w = (r, w')" by fastforce
  then have "audit_apply call w = w'" by (simp add: call audit_apply_def)
  with aw_write_cases [OF run] assms(1) normalize_record_ok [OF _ call(2)] show ?thesis
    by (auto simp: headroom_def queued_ok_def)
qed (use assms(1) in \<open>simp_all add: headroom_def queued_ok_def audit_apply_def aw_flush_def aw_close_def\<close>)

lemma headroom_followup:
  assumes "headroom most (w, Suc owed)" "aw_tail w = WriteRecord entry # rest" "run_write out entry (w\<lparr>aw_tail := rest\<rparr>) = (r, w')"
  shows "headroom most (w', owed)"
proof -
  have entry: "record_ok entry" using assms(1,2) by (simp add: headroom_def queued_ok_def)
  obtain k where k: "aw_file w' = aw_file w @ take k (audit_frame entry)" using run_write_grows [OF assms(3)] by auto
  have "length (aw_file w') \<le> length (aw_file w) + 1365" using frame_length [OF entry] by (simp add: k)
  moreover have opened: "aw_handle w = HandleOpen" using assms(1) by (simp add: headroom_def)
  have "aw_handle w' = HandleOpen"
    using assms(3) by (cases rule: run_write_cases) (use opened in \<open>simp_all add: getHandle_def\<close>)
  ultimately show ?thesis
    using assms(1,2) run_write_fields [OF assms(3)] by (auto simp: headroom_def)
qed

lemma headroom_first:
  assumes "headroom most (w, owed)" "aw_tail w = WriteRecord entry # rest" "run_write out entry (w\<lparr>aw_tail := rest\<rparr>) = (r, w')"
    and "\<not> isAuditFollowupRecord entry" "owed' = owed + (if r = Inr () then follow_ups entry else 0)" "owed' \<le> most"
  shows "headroom most (w', owed')"
proof -
  note fields = run_write_fields [OF assms(3)]
  have lim: "write_limit entry (w\<lparr>aw_tail := rest\<rparr>) = aw_normalWriteLimitBytes w" using assms(4) by (simp add: write_limit_def)
  have keep: "aw_normalWriteLimitBytes w + 1365 * int most \<le> aw_maxBytes w" "aw_maxBytes w \<le> max_safe_integer"
    "list_all queued_ok rest" using assms(1,2) by (simp_all add: headroom_def)
  have fits: "int (length (aw_file w')) + 1365 * int owed' \<le> aw_maxBytes w"
    if "int (length (aw_file w')) \<le> aw_normalWriteLimitBytes w" using that keep(1) assms(6) by linarith
  show ?thesis
    using assms(3)
  proof (cases rule: run_write_cases)
    case refused
    then have "owed' = owed" using assms(5) by simp
    moreover have "aw_handle w = HandleOpen \<Longrightarrow> w' = w\<lparr>aw_tail := rest\<rparr>" using refused by (simp add: getHandle_def)
    ultimately show ?thesis using assms(1) keep fields by (auto simp: headroom_def)
  next
    case (torn k)
    then have "int (length (aw_file w')) \<le> aw_normalWriteLimitBytes w" by (simp add: lim min_def)
    then show ?thesis using fits keep fields torn assms(6) by (simp add: headroom_def)
  next
    case written
    then have "int (length (aw_file w')) \<le> aw_normalWriteLimitBytes w" by (simp add: lim)
    then show ?thesis using fits keep fields written assms(6) by (simp add: headroom_def)
  qed
qed

lemma aw_run_record: "aw_tail w = WriteRecord entry # rest \<Longrightarrow> aw_run out w = Some (run_write out entry (w\<lparr>aw_tail := rest\<rparr>))"
  by (simp add: aw_run_def Let_def)

interpretation headroom: invariant_of "audit_start most" "audit_step most" "headroom most" for most
proof unfold_locales
  show "audit_start most s \<Longrightarrow> headroom most s" for s
    by (auto simp: audit_start_def headroom_def)
next
  fix s s'
  assume inv: "headroom most s" and "audit_step most s s'"
  from this(2) show "headroom most s'"
  proof cases
    case (ran_followup w entry rest owed out)
    obtain r w' where run: "run_write out entry (w\<lparr>aw_tail := rest\<rparr>) = (r, w')" by fastforce
    then have "audit_apply (RunNext out) w = w'" by (simp add: audit_apply_def aw_run_record [OF ran_followup(3)])
    with headroom_followup [OF _ ran_followup(3) run] inv ran_followup(1,2) show ?thesis by simp
  next
    case (ran_first w entry rest out r w' owed' owed)
    have "run_write out entry (w\<lparr>aw_tail := rest\<rparr>) = (r, w')" using ran_first(5) by (simp add: aw_run_record [OF ran_first(3)])
    with headroom_first [OF _ ran_first(3) _ ran_first(4,6,7)] inv ran_first(1,2) show ?thesis by simp
  next
    case (ran_other w op rest owed out)
    then show ?thesis using inv by (auto simp: headroom_def audit_apply_def aw_run_def Let_def)
  next
    case (waived w owed)
    then show ?thesis using inv by (auto simp: headroom_def)
  qed (use inv headroom_call in \<open>blast+\<close>)
qed

lemma audit_starts:
  assumes "new_audit_writer options content = Inr w"
    and "E = option_default 32 (ao_maxConcurrentExecutions options)" "T = option_default E (ao_maxConcurrentTransfers options)"
  shows "audit_start (nat (3 * (2 * E + T + 2))) (w, 0)"
  using new_audit_writer_fields [OF assms] by (simp add: audit_start_def)

text \<open>
  C11: Every execution is granted two follow-up records, every transfer one and a started daemon two. As long as no
  more of them are outstanding than three times what the configured concurrency asks for, no follow-up record is ever refused for lack of
  space, however often its clients write: if the file system does its work, the record is appended and acknowledged.\<close>

theorem audit_followups_fit:
  assumes "new_audit_writer options content = Inr w0"
    and "E = option_default 32 (ao_maxConcurrentExecutions options)" "T = option_default E (ao_maxConcurrentTransfers options)"
    and "(audit_step (nat (3 * (2 * E + T + 2))))\<^sup>*\<^sup>* (w0, 0) (w, owed)"
    and "0 < owed" "aw_tail w = WriteRecord entry # rest" "isAuditFollowupRecord entry"
    and "fo_stat out" "fo_append out = None" "fo_sync out"
  shows "aw_run out w = Some (Inr (), w\<lparr>aw_tail := rest, aw_file := aw_file w @ audit_frame entry\<rparr>)"
proof -
  have inv: "headroom (nat (3 * (2 * E + T + 2))) (w, owed)"
    by (rule headroom.reached [OF audit_starts [OF assms(1-3)] assms(4)])
  then have h: "aw_handle w = HandleOpen" "int (length (aw_file w)) + 1365 * int owed \<le> aw_maxBytes w"
    "aw_maxBytes w \<le> max_safe_integer" "record_ok entry"
    using assms(5,6) by (simp_all add: headroom_def queued_ok_def)
  have "int (length (audit_frame entry)) \<le> 1365 * int owed"
    using frame_length [OF h(4)] assms(5) by linarith
  with h(2) have "int (length (aw_file w)) \<le> aw_maxBytes w - int (length (audit_frame entry))" by linarith
  moreover from this h(3) have "is_safe_integer (int (length (aw_file w)))" by (simp add: is_safe_integer_def)
  ultimately show ?thesis
    using assms(7-10) h(1) by (simp add: aw_run_record [OF assms(6)] run_write_def getHandle_def write_limit_def)
qed

section \<open>Records on disk\<close>

lemma write_accepted:
  assumes "EXECUTION_ID_PATTERN i" "normalizeAuditEvent now i event = Inr entry" "\<not> aw_closed w"
  shows "aw_write now i event w = (Inr (), w\<lparr>aw_tail := aw_tail w @ [WriteRecord entry]\<rparr>)"
  using frame_length [OF normalize_record_ok [OF assms(2,1)]] assms(2,3) by (simp add: aw_write_def MAX_AUDIT_RECORD_BYTES_def)

text \<open>
  C13: A record that is accepted holds only fields of the fixed list, each once, with a bounded number or
  a plain short text; whatever is not added by the writer is copied unchanged from the event. It is printed as one line
  far below the size limit, so a writer that is open always queues it.\<close>

theorem audit_record_allowlisted:
  assumes "EXECUTION_ID_PATTERN i" "normalizeAuditEvent now i event = Inr entry"
  shows "record_ok entry
    \<and> (\<forall>(key, v) \<in> set entry. key \<in> set base_keys \<or> (\<exists>input. event = JObject input \<and> map_of input key = Some v))
    \<and> length (audit_frame entry) \<le> 1365 \<and> newline \<notin> set (butlast (audit_frame entry)) \<and> last (audit_frame entry) = newline
    \<and> (aw_closed w \<or> aw_write now i event w = (Inr (), w\<lparr>aw_tail := aw_tail w @ [WriteRecord entry]\<rparr>))"
proof -
  note ok = normalize_record_ok [OF assms(2,1)]
  have "aw_closed w \<or> aw_write now i event w = (Inr (), w\<lparr>aw_tail := aw_tail w @ [WriteRecord entry]\<rparr>)"
    using write_accepted [OF assms] by blast
  moreover have "\<forall>(key, v) \<in> set entry. key \<in> set base_keys \<or> (\<exists>input. event = JObject input \<and> map_of input key = Some v)"
    using normalize_copies [OF assms(2)] by fastforce
  ultimately show ?thesis using ok frame_length [OF ok] frame_line [of entry] by blast
qed

lemma no_run_id: "list_all (\<lambda>name. list_all (\<lambda>keys. ''runId'' \<notin> set keys) (event_field_keys name)) (map fst EVENT_KEYS)"
  by code_simp

lemma fields_of_keys: "fields_of input keys ms \<Longrightarrow> (key, v) \<in> set ms \<Longrightarrow> key \<in> set keys \<and> map_of input key = Some v"
  by (force simp: fields_of_def list_all_iff)

lemma normalized_run_id:
  assumes "normalizeAuditEvent now i event = Inr entry" "(''runId'', JString s) \<in> set entry"
  shows "opaque_reference s"
  using assms(1)
proof (cases rule: normalize_cases)
  case (1 input name nowMs timestamp ctx transfer ms)
  obtain kc where kc: "kc \<in> set [[], [''executionId''], [''target''], [''executionId'', ''target'']]" "fields_of input kc ctx"
    using context_fields [OF 1(5)] unfolding one_of_fields_def list_ex_iff by blast
  obtain km where km: "km \<in> set (event_field_keys name)" "fields_of input km ms"
    using event_fields_ok [OF 1(7,3)] unfolding one_of_fields_def list_ex_iff by blast
  have "''runId'' \<notin> set km" using no_run_id 1(3) km(1) unfolding list_all_iff by blast
  then have "(''runId'', JString s) \<notin> set ms" using fields_of_keys [OF km(2)] by blast
  moreover have "''runId'' \<notin> set kc" using kc(1) by auto
  then have "(''runId'', JString s) \<notin> set ctx" using fields_of_keys [OF kc(2)] by blast
  ultimately have run: "(''runId'', JString s) \<in> set transfer" using assms(2) 1(8) by auto
  then have prefix: "transfer_event_fields input = Inr transfer" using 1(6) by (auto split: if_splits)
  then have "map_of input ''runId'' = Some (JString s)" using fields_of_keys [OF transfer_record_fields run] by blast
  moreover obtain m where "text_field input ''runId'' 43 opaque_reference = Inr m"
    using prefix unfolding transfer_event_fields_def and_then_eq_Inr all_fields_Inr by blast
  ultimately show ?thesis by (auto simp: text_field_Inr)
qed

text \<open>
  C14: A transfer's run identifier is not what the log shows: it is printed as the mark of a redacted value, unless it starts or ends
  with a hyphen.\<close>

theorem audit_run_id_redacted:
  assumes "EXECUTION_ID_PATTERN i" "normalizeAuditEvent now i event = Inr entry" "(''runId'', JString s) \<in> set entry"
  shows "\<exists>ms. redact (JObject entry) = JObject ms
    \<and> map_of ms ''runId'' = Some (JString (if hd s \<noteq> CHR ''-'' \<and> last s \<noteq> CHR ''-'' then REDACTED else s))"
proof -
  note ok = normalize_record_ok [OF assms(2,1)]
  let ?ms = "map (\<lambda>kv. (fst kv, redact_value (snd kv))) entry"
  have "map_of entry ''runId'' = Some (JString s)" using ok assms(3) by (simp add: record_ok_def)
  then have "map_of ?ms ''runId'' = Some (redact_value (JString s))" by (induction entry) auto
  then show ?thesis
    unfolding redact_record [OF ok] using redact_reference [OF normalized_run_id [OF assms(2,3)]]
    by (simp add: redact_value_def)
qed

section \<open>Witnesses\<close>

definition sample_id :: string where "sample_id = ''00000000-0000-4000-8000-000000000001''"

definition sample_start :: json where
  "sample_start = JObject [(''event'', JString ''exec.started''), (''executionId'', JString sample_id), (''target'', JString ''web''),
     (''commandSha256'', JString (replicate 64 (CHR ''a''))), (''commandBytes'', JInt 7)]"

definition sample_stop :: json where
  "sample_stop = JObject [(''event'', JString ''exec.cancelled''), (''executionId'', JString sample_id), (''target'', JString ''web''),
     (''reasonCode'', JString ''timeout'')]"

definition sample_transfer :: json where
  "sample_transfer = JObject [(''event'', JString ''transfer.started''), (''runId'', JString (replicate 43 (CHR ''a''))),
     (''target'', JString ''web''), (''direction'', JString ''upload''), (''dryRun'', JBool False)]"

definition sample_options :: audit_options where
  "sample_options = \<lparr>ao_filePath = ''audit.jsonl'', ao_maxBytes = Some 24576, ao_maxConcurrentExecutions = Some 1,
     ao_maxConcurrentTransfers = None\<rparr>"

definition sample_writer :: audit_writer where
  "sample_writer = \<lparr>aw_maxBytes = 24576, aw_normalWriteLimitBytes = 4096, aw_handle = NotOpened, aw_closed = False,
       aw_tail = [], aw_file = []\<rparr>"

definition sample_outcome :: file_outcome where
  "sample_outcome = \<lparr>fo_mkdir = True, fo_lstat = NoSuchFile, fo_open = True, fo_chmod = True, fo_stat = True, fo_append = None,
     fo_sync = True, fo_close = True\<rparr>"

lemma sample_id_pattern: "EXECUTION_ID_PATTERN sample_id" by code_simp

lemma sample_new: "new_audit_writer sample_options [] = Inr sample_writer" by code_simp

definition sample_first :: audit_record where
  "sample_first = base_record sample_id ''1970-01-01T00:00:00.000Z'' ''exec.started'' @
     [(''executionId'', JString sample_id), (''target'', JString ''web''),
      (''commandSha256'', JString (replicate 64 (CHR ''a''))), (''commandBytes'', JInt 7)]"

definition sample_second :: audit_record where
  "sample_second = base_record sample_id ''1970-01-01T00:00:00.000Z'' ''exec.cancelled'' @
     [(''executionId'', JString sample_id), (''target'', JString ''web''), (''reasonCode'', JString ''timeout'')]"

lemma sample_normalized:
  "normalizeAuditEvent (Some 0) sample_id sample_start = Inr sample_first"
  "normalizeAuditEvent (Some 0) sample_id sample_stop = Inr sample_second"
  by code_simp+

lemma sample_followup: "isAuditFollowupRecord sample_second" "\<not> isAuditFollowupRecord sample_first" "follow_ups sample_first = 2"
  by code_simp+

text \<open>A writer that has written the start of an execution and queued its cancellation.\<close>

definition sample_waiting :: audit_writer where
  "sample_waiting = sample_writer\<lparr>aw_handle := HandleOpen, aw_tail := [WriteRecord sample_second], aw_file := audit_frame sample_first\<rparr>"

lemma sample_calls:
  "audit_apply (CallWrite (Some 0) sample_id sample_start) sample_writer = sample_writer\<lparr>aw_tail := [WriteRecord sample_first]\<rparr>"
  "aw_run sample_outcome (sample_writer\<lparr>aw_tail := [WriteRecord sample_first]\<rparr>)
     = Some (Inr (), sample_writer\<lparr>aw_handle := HandleOpen, aw_file := audit_frame sample_first\<rparr>)"
  "audit_apply (CallWrite (Some 0) sample_id sample_stop) (sample_writer\<lparr>aw_handle := HandleOpen, aw_file := audit_frame sample_first\<rparr>)
     = sample_waiting"
proof -
  show "audit_apply (CallWrite (Some 0) sample_id sample_start) sample_writer = sample_writer\<lparr>aw_tail := [WriteRecord sample_first]\<rparr>"
    by (simp add: audit_apply_def write_accepted [OF sample_id_pattern sample_normalized(1)] sample_writer_def)
  show "audit_apply (CallWrite (Some 0) sample_id sample_stop) (sample_writer\<lparr>aw_handle := HandleOpen, aw_file := audit_frame sample_first\<rparr>)
     = sample_waiting"
    by (simp add: audit_apply_def write_accepted [OF sample_id_pattern sample_normalized(2)] sample_writer_def sample_waiting_def)
  have "length (audit_frame sample_first) \<le> 1365"
    by (rule frame_length [OF normalize_record_ok [OF sample_normalized(1) sample_id_pattern]])
  then show "aw_run sample_outcome (sample_writer\<lparr>aw_tail := [WriteRecord sample_first]\<rparr>)
     = Some (Inr (), sample_writer\<lparr>aw_handle := HandleOpen, aw_file := audit_frame sample_first\<rparr>)"
    by (simp add: aw_run_record run_write_def getHandle_def openHandle_def write_limit_def sample_followup sample_writer_def
        sample_outcome_def is_safe_integer_def max_safe_integer_def Let_def)
qed

lemma sample_reached: "(audit_step 15)\<^sup>*\<^sup>* (sample_writer, 0) (sample_waiting, 2)"
proof -
  have 1: "audit_step 15 (sample_writer, 0) (sample_writer\<lparr>aw_tail := [WriteRecord sample_first]\<rparr>, 0)"
    using audit_step.written [OF sample_id_pattern, of 15 sample_writer 0 "Some 0" sample_start] by (simp add: sample_calls(1))
  have 2: "audit_step 15 (sample_writer\<lparr>aw_tail := [WriteRecord sample_first]\<rparr>, 0)
      (sample_writer\<lparr>aw_handle := HandleOpen, aw_file := audit_frame sample_first\<rparr>, 2)"
    by (rule audit_step.ran_first [OF _ sample_followup(2) sample_calls(2)]) (simp_all add: sample_followup(3))
  have 3: "audit_step 15 (sample_writer\<lparr>aw_handle := HandleOpen, aw_file := audit_frame sample_first\<rparr>, 2) (sample_waiting, 2)"
    using audit_step.written [OF sample_id_pattern, of 15 "sample_writer\<lparr>aw_handle := HandleOpen, aw_file := audit_frame sample_first\<rparr>" 2 "Some 0" sample_stop]
    by (simp add: sample_calls(3))
  from 1 2 3 show ?thesis by (meson converse_rtranclp_into_rtranclp rtranclp.rtrancl_refl)
qed

theorem audit_file_bounded_witness:
  "let after = aw_file (fold audit_apply [CallWrite (Some 0) sample_id sample_start, RunNext sample_outcome] sample_writer) in
    after = [] \<or> int (length after) \<le> 24576"
  using audit_file_bounded [OF sample_new, of "[CallWrite (Some 0) sample_id sample_start, RunNext sample_outcome]"]
  by (simp add: sample_options_def option_default_def Let_def)

theorem audit_followups_fit_witness:
  "aw_run sample_outcome sample_waiting
     = Some (Inr (), sample_waiting\<lparr>aw_tail := [], aw_file := audit_frame sample_first @ audit_frame sample_second\<rparr>)"
proof -
  have "aw_run sample_outcome sample_waiting
     = Some (Inr (), sample_waiting\<lparr>aw_tail := [], aw_file := aw_file sample_waiting @ audit_frame sample_second\<rparr>)"
    by (rule audit_followups_fit [OF sample_new refl refl, where owed = 2])
      (simp_all add: sample_options_def option_default_def sample_reached [unfolded sample_waiting_def] sample_waiting_def sample_followup sample_outcome_def)
  then show ?thesis by (simp add: sample_waiting_def)
qed

theorem audit_record_allowlisted_witness: "record_ok sample_first \<and> length (audit_frame sample_first) \<le> 1365"
  using audit_record_allowlisted [OF sample_id_pattern sample_normalized(1)] by blast

theorem audit_run_id_redacted_witness:
  "\<exists>ms. redact (JObject (case normalizeAuditEvent (Some 0) sample_id sample_transfer of Inr entry \<Rightarrow> entry | Inl _ \<Rightarrow> [])) = JObject ms
    \<and> map_of ms ''runId'' = Some (JString REDACTED)"
proof -
  have *: "normalizeAuditEvent (Some 0) sample_id sample_transfer = Inr (base_record sample_id ''1970-01-01T00:00:00.000Z'' ''transfer.started'' @
     [(''target'', JString ''web''), (''runId'', JString (replicate 43 (CHR ''a''))), (''direction'', JString ''upload''),
      (''dryRun'', JBool False)])" by code_simp
  have "hd (replicate 43 (CHR ''a'')) \<noteq> CHR ''-'' \<and> last (replicate 43 (CHR ''a'')) \<noteq> CHR ''-''" by code_simp
  with audit_run_id_redacted [OF sample_id_pattern *, of "replicate 43 (CHR ''a'')"] show ?thesis unfolding * by simp
qed

end
