(* ===== verification/Spec2Isabelle.thy ===== *)
theory Spec2Isabelle
  imports OutputText ExecProps PipeServer ProbeParser AuditProps
begin

text \<open>
  A verification development for the Agent SSH Gateway, a daemon that runs commands on
  configured SSH targets for its clients. Paths below are relative to \<^verbatim>\<open>src/src\<close>.

  \<^bold>\<open>The program and the theories.\<close> A client connects to the daemon's pipe
  (\<^verbatim>\<open>daemon/pipe-server.ts\<close>), opens a session and sends requests, which a dispatcher hands to
  the services. \<^verbatim>\<open>core/exec-service.ts\<close> runs commands: it asks the registry of targets
  (\<^verbatim>\<open>core/target-registry.ts\<close>) for permission, prepares the remote command
  (\<^verbatim>\<open>core/remote-command.ts\<close>), creates a sink in the output store
  (\<^verbatim>\<open>core/output-store.ts\<close>), writes audit records, awaits the SSH process, and answers with a
  preview of the output and a reference to the retained rest; a command started as a task
  is followed through the task store (\<^verbatim>\<open>core/task-store.ts\<close>).

  \<^item> \<open>Prelude\<close>, \<open>Transitions\<close>, \<open>Paging\<close>: values of JavaScript (a string is its UTF-8 encoding, an object of
    type \<open>Map\<close> an association list, a thrown error the left of a sum), shared lemmas, and two families of interfaces as locales:
    \<open>invariant_of\<close> and \<open>relative_invariant\<close> (an invariant of a transition system), \<open>paged_source\<close> and
    \<open>aligned_source\<close> (a stream that is read page by page). They are interpreted on the output store, the
    text pages, the executions and the execution service.
  \<^item> \<open>Errors\<close>, \<open>Protocol\<close>, \<open>Utf8\<close>, \<open>Base64\<close>, \<open>Sha256\<close>, \<open>JsonText\<close>: \<^verbatim>\<open>shared/errors.ts\<close>, the vocabulary of
    \<^verbatim>\<open>shared/protocol.ts\<close>, \<^verbatim>\<open>shared/utf8.ts\<close> and the functions of the platform that the sources call.
  \<^item> \<open>RollingLog\<close>, \<open>TaskStore\<close>: \<^verbatim>\<open>core/task-store.ts\<close>. \<open>task_store\<close> is the class \<open>TaskStore\<close>, \<open>ts_step\<close> its methods,
    timers and completions. Limits, retention, stop requests, cursors, and that tailing makes progress.
  \<^item> \<open>Quota\<close>, \<open>OutputSink\<close>, \<open>OutputStore\<close>, \<open>OutputText\<close>: \<^verbatim>\<open>core/output-store.ts\<close> and the text pages of
    \<^verbatim>\<open>core/exec-service.ts\<close>. The directory of outputs is an association list of entries; whether a call of
    the file system fails is an argument. Accounting, the life of a sink, adoption at start, clean-up, and that
    what was written is read back.
  \<^item> \<open>Presets\<close>, \<open>TargetRegistry\<close>: \<^verbatim>\<open>shared/operation-presets.ts\<close> and \<^verbatim>\<open>core/target-registry.ts\<close>. Who may run
    or transfer what, decided exactly, and which resources a shell reads back from the script of a preset.
  \<^item> \<open>TransferPaths\<close>, \<open>RemoteCommand\<close>: \<^verbatim>\<open>core/transfer-paths.ts\<close> and \<^verbatim>\<open>core/remote-command.ts\<close>. Confinement of
    paths; that the lines of an SFTP batch, and the input of bash and PowerShell, decode to what was meant.
  \<^item> \<open>Execution\<close>, \<open>ExecCore\<close>: the asynchronous functions \<open>#execute\<close> and \<open>#runFixedExecution\<close> of
    \<^verbatim>\<open>core/exec-service.ts\<close>, cut at their \<open>await\<close>s, and the transition system \<open>core_step\<close> of all executions with the
    output store and the audit log, with its invariants.
  \<^item> \<open>ExecService\<close>, \<open>ExecTasks\<close>, \<open>ExecProps\<close>: the class \<open>ExecService\<close>. \<open>es_step\<close> is one step of the service; it is simulated
    by \<open>core_step\<close>, from which the properties of results and sinks follow; a recorded stop reason stays; limits, reloads and the tasks
    have invariants of their own.
  \<^item> \<open>PipeServer\<close>: \<^verbatim>\<open>daemon/pipe-server.ts\<close> and \<^verbatim>\<open>daemon/activation-gate.ts\<close>.
  \<^item> \<open>ProbeParser\<close>: \<^verbatim>\<open>core/probe-parser.ts\<close>. The accepted frames are the canonical ones, results are well formed,
    and the verdict of a preflight follows from its fields.
  \<^item> \<open>RegExp\<close>, \<open>Redact\<close>: the regular expressions of the language and \<^verbatim>\<open>infra/redact.ts\<close>, which the audit writer applies
    to a record before it is printed.
  \<^item> \<open>AuditWriter\<close>, \<open>AuditRecords\<close>, \<open>AuditProps\<close>: \<^verbatim>\<open>infra/audit-writer.ts\<close>. \<open>normalizeAuditEvent\<close> is the schema of the
    events, \<open>aw_write\<close>, \<open>aw_flush\<close> and \<open>aw_close\<close> put operations in the queue, \<open>aw_run\<close> runs the next one. Accepted records hold
    bounded fields of a fixed list, a line has at most 1365 bytes, the file stays within its bound, and the space kept for follow-up records
    is enough; the last has \<open>audit_step\<close>, where clients owe what the records they wrote entitle them to, and
    three times the configured concurrency as the bound, since a line takes less than a third of the limit of a record.

  \<^bold>\<open>Arguments that stand for the outside.\<close> \<open>JSON.parse\<close> is a function \<open>parse\<close>; clocks, random bytes and fresh identifiers,
  the outcome of file system calls, of the SSH executor and of the audit writer are arguments of the operations
  or of the steps. Theorems hold for all of them; where one needs a law, such as the freshness of a
  random identifier, it is a premise of the step.

  \<^bold>\<open>Bounds.\<close> \<open>findCause\<close> follows eight causes, a run identifier and an output reference are drawn at most eight
  times, as in the code. Loops of the code are structural recursions or have a termination proof; following pages takes a number of
  steps, and the theorems say how many are enough.

  \<^bold>\<open>Not modelled.\<close> The executors and the process tree (they spawn and drive \<^verbatim>\<open>ssh\<close>, \<^verbatim>\<open>plink\<close> and
  \<^verbatim>\<open>sftp\<close>), the start-up of the daemon and its locks, the clients, the web user interface, the loading of the
  configuration file, the transfer service, the probe scripts. \<open>inspect\<close> and \<open>dockerPreflight\<close> of the execution
  service are modelled but for the assembly of their result from the parsed answer of the probe. The catalogue texts of presets are left out.
\<close>

end
